(* ===== verification/Prelude.thy ===== *)
theory Prelude
  imports Main "HOL-Library.Word" "HOL-Library.AList"
begin

text \<open>
  What every component of the model shares: the exception-or-value results of the
  TypeScript code (\<open>bindE\<close>, \<open>guardE\<close>, \<open>foldE\<close>), the insertion-ordered \<open>Map\<close> of the
  JavaScript runtime with its interface locale \<open>js_map\<close>, decimal rendering of numbers
  in error messages, big-endian byte strings, and the automation the component proofs use
  (\<open>result_simps\<close>, \<open>wire_simps\<close>).
\<close>

named_theorems result_simps \<open>evaluation and inversion of exception-or-value results\<close>
named_theorems wire_simps \<open>lengths and contents of byte strings on the wire\<close>

section \<open>Results: a thrown exception or a value\<close>

text \<open>
  A call that may throw is a value of \<open>'e + 'a\<close>: \<open>Inl\<close> is the thrown exception and
  \<open>Inr\<close> the returned value. Sequencing two calls is \<open>bindE\<close>; an early \<open>throw\<close> guarded
  by an \<open>if\<close> is \<open>guardE\<close>; a \<open>for ... of\<close> loop whose body may throw is \<open>foldE\<close>.
\<close>

definition bindE :: "'e + 'a \<Rightarrow> ('a \<Rightarrow> 'e + 'b) \<Rightarrow> 'e + 'b" where
  "bindE m f = (case m of Inl e \<Rightarrow> Inl e | Inr x \<Rightarrow> f x)"

definition guardE :: "bool \<Rightarrow> 'e \<Rightarrow> 'e + unit" where
  "guardE bad e = (if bad then Inl e else Inr ())"

fun foldE :: "('a \<Rightarrow> 's \<Rightarrow> 'e + 's) \<Rightarrow> 'a list \<Rightarrow> 's \<Rightarrow> 'e + 's" where
  "foldE f [] s = Inr s"
| "foldE f (x # xs) s = bindE (f x s) (foldE f xs)"

lemma bindE_simps [simp, result_simps]:
  "bindE (Inl e) f = Inl e"
  "bindE (Inr x) f = f x"
  by (simp_all add: bindE_def)

lemma bindE_eq_Inr [result_simps]:
  "bindE m f = Inr y \<longleftrightarrow> (\<exists>x. m = Inr x \<and> f x = Inr y)"
  by (cases m) auto

lemma bindE_eq_Inl [result_simps]:
  "bindE m f = Inl e \<longleftrightarrow> m = Inl e \<or> (\<exists>x. m = Inr x \<and> f x = Inl e)"
  by (cases m) auto

lemma bindE_cong [fundef_cong]:
  assumes "m = m'" and "\<And>x. m' = Inr x \<Longrightarrow> f x = g x"
  shows "bindE m f = bindE m' g"
  using assms by (cases m') auto

lemma bindE_assoc: "bindE (bindE m f) g = bindE m (\<lambda>x. bindE (f x) g)"
  by (cases m) auto

lemma guardE_eq_Inr [simp, result_simps]: "guardE b e = Inr u \<longleftrightarrow> \<not> b"
  by (simp add: guardE_def)

lemma guardE_eq_Inl [simp, result_simps]: "guardE b e = Inl e' \<longleftrightarrow> b \<and> e' = e"
  by (auto simp: guardE_def)

lemma guardE_simps [simp, result_simps]:
  "guardE True e = Inl e" "guardE False e = Inr ()"
  by (simp_all add: guardE_def)

lemma foldE_append: "foldE f (xs @ ys) s = bindE (foldE f xs s) (foldE f ys)"
proof (induction xs arbitrary: s)
  case Nil
  then show ?case by simp
next
  case (Cons x xs)
  then show ?case by (cases "f x s") simp_all
qed

lemma foldE_invariant:
  assumes "foldE f xs s = Inr s'" and "P s"
    and "\<And>x s s'. x \<in> set xs \<Longrightarrow> P s \<Longrightarrow> f x s = Inr s' \<Longrightarrow> P s'"
  shows "P s'"
  using assms
proof (induction xs arbitrary: s)
  case Nil
  then show ?case by simp
next
  case (Cons x xs)
  from Cons.prems(1) obtain t where t: "f x s = Inr t" "foldE f xs t = Inr s'"
    by (auto simp: bindE_eq_Inr)
  have "P t" using Cons.prems(2,3) t(1) by (meson list.set_intros(1))
  with t(2) Cons.prems(3) show ?case
    by (intro Cons.IH [of t]) auto
qed

section \<open>Decimal rendering\<close>

text \<open>The text of a number inside a template literal (\<open>String(n)\<close> of a natural number).\<close>

fun show_nat :: "nat \<Rightarrow> string" where
  "show_nat n = (if n < 10 then [char_of (48 + n)]
                 else show_nat (n div 10) @ [char_of (48 + n mod 10)])"

declare show_nat.simps [simp del]

definition show_int :: "int \<Rightarrow> string" where
  "show_int i = (if i < 0 then CHR ''-'' # show_nat (nat (- i)) else show_nat (nat i))"

section \<open>Insertion-ordered maps\<close>

text \<open>
  JavaScript's \<open>Map\<close>: iteration follows the order in which keys were first set, setting
  an existing key keeps its place, deleting removes it. The model is an association list
  with distinct keys. The interface locale states what clients rely on; the model's
  operations are shown to satisfy it below.
\<close>

primrec map_put :: "'k \<Rightarrow> 'v \<Rightarrow> ('k \<times> 'v) list \<Rightarrow> ('k \<times> 'v) list" where
  "map_put k v [] = [(k, v)]"
| "map_put k v (p # ps) = (if fst p = k then (k, v) # ps else p # map_put k v ps)"

definition map_del :: "'k \<Rightarrow> ('k \<times> 'v) list \<Rightarrow> ('k \<times> 'v) list" where
  "map_del k ps = filter (\<lambda>p. fst p \<noteq> k) ps"

definition map_wf :: "('k \<times> 'v) list \<Rightarrow> bool" where
  "map_wf ps \<longleftrightarrow> distinct (map fst ps)"

definition map_keys :: "('k \<times> 'v) list \<Rightarrow> 'k list" where
  "map_keys ps = map fst ps"

abbreviation map_has :: "('k \<times> 'v) list \<Rightarrow> 'k \<Rightarrow> bool" where
  "map_has m k \<equiv> map_of m k \<noteq> None"

definition map_put_all :: "('k \<times> 'v) list \<Rightarrow> ('k \<times> 'v) list \<Rightarrow> ('k \<times> 'v) list" where
  "map_put_all kvs m = fold (\<lambda>(k, v). map_put k v) kvs m"

locale js_map =
  fixes empty :: "'m"
    and put :: "'k \<Rightarrow> 'v \<Rightarrow> 'm \<Rightarrow> 'm"
    and del :: "'k \<Rightarrow> 'm \<Rightarrow> 'm"
    and get :: "'m \<Rightarrow> 'k \<Rightarrow> 'v option"
    and keys :: "'m \<Rightarrow> 'k list"
    and invar :: "'m \<Rightarrow> bool"
  assumes get_empty: "get empty k = None"
    and get_put: "get (put k v m) k' = (if k' = k then Some v else get m k')"
    and get_del: "get (del k m) k' = (if k' = k then None else get m k')"
    and keys_dom: "set (keys m) = {k. get m k \<noteq> None}"
    and keys_put: "keys (put k v m) = (if get m k = None then keys m @ [k] else keys m)"
    and keys_del: "keys (del k m) = filter (\<lambda>k'. k' \<noteq> k) (keys m)"
    and keys_empty: "keys empty = []"
    and invar_distinct: "invar m \<longleftrightarrow> distinct (keys m)"
begin

lemma put_put_same: "get (put k v (put k w m)) = get (put k v m)"
  by (rule ext) (simp add: get_put)

lemma invar_empty: "invar empty"
  by (simp add: invar_distinct keys_empty)

lemma invar_put: "invar m \<Longrightarrow> invar (put k v m)"
proof -
  assume "invar m"
  moreover have "get m k = None \<Longrightarrow> k \<notin> set (keys m)" by (simp add: keys_dom)
  ultimately show ?thesis by (auto simp: invar_distinct keys_put)
qed

lemma invar_del: "invar m \<Longrightarrow> invar (del k m)"
  by (simp add: invar_distinct keys_del)

lemma get_fold_put:
  "get (fold (\<lambda>(k, v). put k v) kvs m) k =
     (case map_of (rev kvs) k of None \<Rightarrow> get m k | Some v \<Rightarrow> Some v)"
proof (induction kvs arbitrary: m)
  case Nil
  then show ?case by simp
next
  case (Cons p kvs)
  then show ?case
    by (cases p) (auto simp: get_put map_add_def split: option.splits)
qed

lemma invar_fold_put: "invar m \<Longrightarrow> invar (fold (\<lambda>(k, v). put k v) kvs m)"
  by (induction kvs arbitrary: m) (auto simp: invar_put)

end

lemma map_of_put [simp]: "map_of (map_put k v m) k' = (if k' = k then Some v else map_of m k')"
  by (induction m) auto

lemma map_of_del [simp]: "map_of (map_del k m) k' = (if k' = k then None else map_of m k')"
  by (induction m) (auto simp: map_del_def)

lemma keys_map_put:
  "map_keys (map_put k v m) = (if map_of m k = None then map_keys m @ [k] else map_keys m)"
  by (induction m) (auto simp: map_keys_def)

interpretation alist_map:
  js_map "[]" map_put map_del map_of map_keys map_wf
proof unfold_locales
  fix m :: "('a \<times> 'b) list" and k
  show "set (map_keys m) = {k. map_of m k \<noteq> None}"
    by (auto simp: map_keys_def map_of_eq_None_iff)
  show "map_keys (map_del k m) = filter (\<lambda>k'. k' \<noteq> k) (map_keys m)"
    by (induction m) (auto simp: map_keys_def map_del_def)
qed (simp_all add: keys_map_put map_wf_def, simp_all add: map_keys_def)

lemmas map_wf_intros [simp, intro] =
  alist_map.invar_empty alist_map.invar_put alist_map.invar_del

lemma map_of_put_all:
  "map_of (map_put_all kvs m) k =
     (case map_of (rev kvs) k of None \<Rightarrow> map_of m k | Some v \<Rightarrow> Some v)"
  unfolding map_put_all_def by (rule alist_map.get_fold_put)

lemma map_wf_put_all: "map_wf m \<Longrightarrow> map_wf (map_put_all kvs m)"
  unfolding map_put_all_def by (rule alist_map.invar_fold_put)

section \<open>Big-endian byte strings\<close>

type_synonym byte = "8 word"

fun be_bytes :: "nat \<Rightarrow> nat \<Rightarrow> byte list" where
  "be_bytes 0 n = []"
| "be_bytes (Suc k) n = be_bytes k (n div 256) @ [word_of_nat n]"

definition be_nat :: "byte list \<Rightarrow> nat" where
  "be_nat bs = foldl (\<lambda>a b. a * 256 + unat b) 0 bs"

lemma be_nat_snoc [simp]: "be_nat (bs @ [b]) = be_nat bs * 256 + unat b"
  by (simp add: be_nat_def)

lemma be_nat_Nil [simp]: "be_nat [] = 0"
  by (simp add: be_nat_def)

lemma length_be_bytes [simp, wire_simps]: "length (be_bytes k n) = k"
  by (induction k arbitrary: n) auto

lemma unat_byte_of_nat [simp, wire_simps]: "unat (word_of_nat n :: byte) = n mod 256"
  by (simp add: unat_of_nat)

lemma unat_byte_less [simp]: "unat (b :: byte) < 256"
  using unsigned_less [of b, where ?'a = nat] by simp

lemma word_of_nat_byte_mod [simp]: "(word_of_nat (unat b mod 256) :: byte) = b"
  by (simp add: mod_less)

lemma be_nat_bytes [wire_simps]: "be_nat (be_bytes k n) = n mod 256 ^ k"
proof (induction k arbitrary: n)
  case 0
  then show ?case by simp
next
  case (Suc k)
  have "n mod 256 ^ Suc k = 256 * (n div 256 mod 256 ^ k) + n mod 256"
    by (simp add: mod_mult2_eq)
  with Suc show ?case by (simp add: mult.commute)
qed

lemma be_nat_less: "be_nat bs < 256 ^ length bs"
proof (induction bs rule: rev_induct)
  case Nil
  then show ?case by simp
next
  case (snoc b bs)
  have "be_nat bs * 256 + unat b < be_nat bs * 256 + 256" by simp
  also have "\<dots> = (be_nat bs + 1) * 256" by simp
  also have "\<dots> \<le> 256 ^ length bs * 256"
    using snoc by (intro mult_le_mono1) simp
  finally show ?case by (simp add: mult.commute)
qed

lemma be_bytes_nat: "be_bytes (length bs) (be_nat bs) = bs"
proof (induction bs rule: rev_induct)
  case Nil
  then show ?case by simp
next
  case (snoc b bs)
  have "(be_nat bs * 256 + unat b) div 256 = be_nat bs" by simp
  moreover have "word_of_nat (be_nat bs * 256 + unat b) = b"
    by (rule word_unat_eq_iff [THEN iffD2]) (simp del: of_nat_add of_nat_mult)
  ultimately show ?case using snoc by simp
qed

end
