(* ===== verification/Js_Text.thy ===== *)
theory Js_Text
  imports Prelude
begin

text \<open>
  JavaScript strings and their UTF-8 form. A string is a list of UTF-16 code units; the
  runtime's \<open>TextEncoder\<close> replaces unpaired surrogates by U+FFFD and writes UTF-8, the
  runtime's \<open>TextDecoder\<close> (fatal, byte-order mark kept) accepts exactly well-formed
  UTF-8. The protocol codec and the truncation helpers use both. The main facts: decoding
  what was encoded gives the well-formed version of the string, which is the string itself
  exactly when it has no unpaired surrogate.
\<close>

type_synonym code_unit = "16 word"
type_synonym jsstr = "code_unit list"

definition js_of :: "string \<Rightarrow> jsstr" where
  "js_of s = map (\<lambda>c. word_of_nat (of_char c)) s"

definition is_high_surrogate :: "code_unit \<Rightarrow> bool" where
  "is_high_surrogate u \<longleftrightarrow> 0xD800 \<le> unat u \<and> unat u \<le> 0xDBFF"

definition is_low_surrogate :: "code_unit \<Rightarrow> bool" where
  "is_low_surrogate u \<longleftrightarrow> 0xDC00 \<le> unat u \<and> unat u \<le> 0xDFFF"

abbreviation is_surrogate :: "code_unit \<Rightarrow> bool" where
  "is_surrogate u \<equiv> is_high_surrogate u \<or> is_low_surrogate u"

definition pair_code_point :: "code_unit \<Rightarrow> code_unit \<Rightarrow> nat" where
  "pair_code_point hi lo = 0x10000 + (unat hi - 0xD800) * 1024 + (unat lo - 0xDC00)"

definition lone_code_point :: "code_unit \<Rightarrow> nat" where
  "lone_code_point u = (if is_surrogate u then 0xFFFD else unat u)"

fun code_points :: "jsstr \<Rightarrow> nat list" where
  "code_points [] = []"
| "code_points [u] = [lone_code_point u]"
| "code_points (u # v # s) =
     (if is_high_surrogate u \<and> is_low_surrogate v then pair_code_point u v # code_points s
      else lone_code_point u # code_points (v # s))"

fun well_formed_text :: "jsstr \<Rightarrow> bool" where
  "well_formed_text [] = True"
| "well_formed_text [u] = (\<not> is_surrogate u)"
| "well_formed_text (u # v # s) =
     (if is_high_surrogate u \<and> is_low_surrogate v then well_formed_text s
      else \<not> is_surrogate u \<and> well_formed_text (v # s))"

definition units_of_cp :: "nat \<Rightarrow> jsstr" where
  "units_of_cp n =
     (if n < 0x10000 then [word_of_nat n]
      else [word_of_nat (0xD800 + (n - 0x10000) div 1024),
            word_of_nat (0xDC00 + (n - 0x10000) mod 1024)])"

definition to_well_formed :: "jsstr \<Rightarrow> jsstr" where
  "to_well_formed s = concat (map units_of_cp (code_points s))"

definition utf8_of_cp :: "nat \<Rightarrow> byte list" where
  "utf8_of_cp n =
     (if n < 0x80 then [word_of_nat n]
      else if n < 0x800 then [word_of_nat (0xC0 + n div 64), word_of_nat (0x80 + n mod 64)]
      else if n < 0x10000 then
        [word_of_nat (0xE0 + n div 4096), word_of_nat (0x80 + n div 64 mod 64),
         word_of_nat (0x80 + n mod 64)]
      else
        [word_of_nat (0xF0 + n div 262144), word_of_nat (0x80 + n div 4096 mod 64),
         word_of_nat (0x80 + n div 64 mod 64), word_of_nat (0x80 + n mod 64)])"

definition utf8_encode :: "jsstr \<Rightarrow> byte list" where
  "utf8_encode s = concat (map utf8_of_cp (code_points s))"

definition in_range :: "nat \<Rightarrow> nat \<Rightarrow> byte \<Rightarrow> bool" where
  "in_range lo hi b \<longleftrightarrow> lo \<le> unat b \<and> unat b \<le> hi"

text \<open>
  One step of the UTF-8 decoder of the Encoding Standard: the first byte fixes the number
  of continuation bytes and the range of the second byte, which excludes overlong forms,
  surrogates and values beyond U+10FFFF.
\<close>

definition utf8_next :: "byte \<Rightarrow> byte list \<Rightarrow> (nat \<times> byte list) option" where
  "utf8_next b bs =
     (let n = unat b in
      if n < 0x80 then Some (n, bs)
      else if n < 0xC2 then None
      else if n < 0xE0 then
        (case bs of c1 # rest \<Rightarrow>
           if in_range 0x80 0xBF c1 then Some ((n - 0xC0) * 64 + (unat c1 - 0x80), rest) else None
         | _ \<Rightarrow> None)
      else if n < 0xF0 then
        (case bs of c1 # c2 # rest \<Rightarrow>
           if in_range (if n = 0xE0 then 0xA0 else 0x80) (if n = 0xED then 0x9F else 0xBF) c1 \<and>
              in_range 0x80 0xBF c2
           then Some ((n - 0xE0) * 4096 + (unat c1 - 0x80) * 64 + (unat c2 - 0x80), rest) else None
         | _ \<Rightarrow> None)
      else if n < 0xF5 then
        (case bs of c1 # c2 # c3 # rest \<Rightarrow>
           if in_range (if n = 0xF0 then 0x90 else 0x80) (if n = 0xF4 then 0x8F else 0xBF) c1 \<and>
              in_range 0x80 0xBF c2 \<and> in_range 0x80 0xBF c3
           then Some ((n - 0xF0) * 262144 + (unat c1 - 0x80) * 4096 + (unat c2 - 0x80) * 64 +
                      (unat c3 - 0x80), rest) else None
         | _ \<Rightarrow> None)
      else None)"

lemma utf8_next_length: "utf8_next b bs = Some (n, rest) \<Longrightarrow> length rest \<le> length bs"
  by (auto simp: utf8_next_def Let_def split: if_splits list.splits)

function utf8_decode :: "byte list \<Rightarrow> jsstr option" where
  "utf8_decode [] = Some []"
| "utf8_decode (b # bs) =
     (case utf8_next b bs of
        None \<Rightarrow> None
      | Some (n, rest) \<Rightarrow> map_option (\<lambda>s. units_of_cp n @ s) (utf8_decode rest))"
  by pat_completeness auto
termination
  by (relation "measure length") (auto dest: utf8_next_length simp: less_Suc_eq_le)

definition is_scalar :: "nat \<Rightarrow> bool" where
  "is_scalar n \<longleftrightarrow> n < 0xD800 \<or> (0xE000 \<le> n \<and> n \<le> 0x10FFFF)"

section \<open>Code points of a string\<close>

lemma code_unit_less: "unat (u :: code_unit) < 65536"
  using unsigned_less [of u, where ?'a = nat] by simp

lemma unat_code_unit_of_nat [simp]: "unat (word_of_nat n :: code_unit) = n mod 65536"
  by (simp add: unat_of_nat)

lemma lone_code_point_scalar: "is_scalar (lone_code_point u)"
  using code_unit_less [of u]
  by (auto simp: is_scalar_def lone_code_point_def is_high_surrogate_def is_low_surrogate_def)

lemma pair_code_point_bounds:
  assumes "is_high_surrogate u" "is_low_surrogate v"
  shows "0x10000 \<le> pair_code_point u v" "pair_code_point u v \<le> 0x10FFFF"
  using assms by (auto simp: pair_code_point_def is_high_surrogate_def is_low_surrogate_def)

lemma code_points_scalar: "n \<in> set (code_points s) \<Longrightarrow> is_scalar n"
proof (induction s rule: code_points.induct)
  case (3 u v s)
  then show ?case
    using lone_code_point_scalar [of u] pair_code_point_bounds [of u v]
    by (auto simp: is_scalar_def split: if_splits)
qed (auto simp: lone_code_point_scalar)

lemma units_of_lone:
  "units_of_cp (lone_code_point u) = [u] \<longleftrightarrow> \<not> is_surrogate u"
proof (cases "is_surrogate u")
  case True
  then show ?thesis
    by (auto simp: units_of_cp_def lone_code_point_def is_high_surrogate_def is_low_surrogate_def)
next
  case False
  then show ?thesis
    using code_unit_less [of u] by (simp add: units_of_cp_def lone_code_point_def)
qed

lemma units_of_pair:
  assumes "is_high_surrogate u" "is_low_surrogate v"
  shows "units_of_cp (pair_code_point u v) = [u, v]"
proof -
  let ?h = "unat u - 0xD800" and ?l = "unat v - 0xDC00"
  have l: "?l < 1024" and h: "?h < 1024"
    using assms by (auto simp: is_high_surrogate_def is_low_surrogate_def)
  have eq: "pair_code_point u v - 0x10000 = ?h * 1024 + ?l"
    by (simp add: pair_code_point_def)
  have "(?h * 1024 + ?l) div 1024 = ?h" "(?h * 1024 + ?l) mod 1024 = ?l"
    using l by simp_all
  moreover have "0xD800 + ?h = unat u" "0xDC00 + ?l = unat v"
    using assms by (auto simp: is_high_surrogate_def is_low_surrogate_def)
  moreover have "\<not> pair_code_point u v < 0x10000"
    using pair_code_point_bounds [OF assms] by simp
  ultimately show ?thesis
    unfolding units_of_cp_def eq by simp
qed

lemma length_units_of_lone: "length (units_of_cp (lone_code_point u)) = 1"
  using code_unit_less [of u] by (simp add: units_of_cp_def lone_code_point_def)

lemma to_well_formed_Cons:
  "to_well_formed (u # v # s) =
     (if is_high_surrogate u \<and> is_low_surrogate v then u # v # to_well_formed s
      else units_of_cp (lone_code_point u) @ to_well_formed (v # s))"
  by (simp add: to_well_formed_def units_of_pair)

lemma to_well_formed_id: "to_well_formed s = s \<longleftrightarrow> well_formed_text s"
proof (induction s rule: well_formed_text.induct)
  case 1
  then show ?case by (simp add: to_well_formed_def)
next
  case (2 u)
  then show ?case using units_of_lone [of u] by (simp add: to_well_formed_def)
next
  case (3 u v s)
  obtain w where w: "units_of_cp (lone_code_point u) = [w]"
    using length_units_of_lone [of u] by (auto simp: length_Suc_conv)
  show ?case
    using 3 units_of_lone [of u] w by (auto simp: to_well_formed_Cons)
qed

section \<open>UTF-8 round trip\<close>

lemma base64_digits3: "n div 4096 * 4096 + n div 64 mod 64 * 64 + n mod 64 = (n :: nat)"
proof -
  have "n div 4096 = n div 64 div 64" by (simp flip: div_mult2_eq)
  then have "n div 4096 * 64 + n div 64 mod 64 = n div 64" by simp
  then have "n div 4096 * 4096 + n div 64 mod 64 * 64 = n div 64 * 64" by linarith
  then show ?thesis by simp
qed

lemma base64_digits4:
  "n div 262144 * 262144 + n div 4096 mod 64 * 4096 + n div 64 mod 64 * 64 + n mod 64 = (n :: nat)"
proof -
  have "n div 262144 = n div 4096 div 64" by (simp flip: div_mult2_eq)
  then have "n div 262144 * 64 + n div 4096 mod 64 = n div 4096" by simp
  then have "n div 262144 * 262144 + n div 4096 mod 64 * 4096 = n div 4096 * 4096" by linarith
  with base64_digits3 [of n] show ?thesis by linarith
qed

lemma utf8_next_1: "n < 0x80 \<Longrightarrow> utf8_next (word_of_nat n) rest = Some (n, rest)"
  by (simp add: utf8_next_def)

lemma utf8_next_2:
  assumes "2 \<le> a" "a < 32" "c < 64"
  shows "utf8_next (word_of_nat (0xC0 + a)) (word_of_nat (0x80 + c) # rest) = Some (a * 64 + c, rest)"
  using assms by (simp add: utf8_next_def in_range_def Let_def del: of_nat_add)

lemma utf8_next_3:
  assumes "a < 16" "b < 64" "c < 64" "a = 0 \<Longrightarrow> 32 \<le> b" "a = 13 \<Longrightarrow> b < 32"
  shows "utf8_next (word_of_nat (0xE0 + a)) (word_of_nat (0x80 + b) # word_of_nat (0x80 + c) # rest)
           = Some (a * 4096 + b * 64 + c, rest)"
  using assms by (auto simp: utf8_next_def in_range_def Let_def simp del: of_nat_add)

lemma utf8_next_4:
  assumes "a < 5" "b < 64" "c < 64" "d < 64" "a = 0 \<Longrightarrow> 16 \<le> b" "a = 4 \<Longrightarrow> b < 16"
  shows "utf8_next (word_of_nat (0xF0 + a))
             (word_of_nat (0x80 + b) # word_of_nat (0x80 + c) # word_of_nat (0x80 + d) # rest)
           = Some (a * 262144 + b * 4096 + c * 64 + d, rest)"
  using assms by (auto simp: utf8_next_def in_range_def Let_def simp del: of_nat_add)

lemma utf8_decode_Cons_next:
  "utf8_next b bs = Some (n, rest) \<Longrightarrow>
   utf8_decode (b # bs) = map_option (\<lambda>s. units_of_cp n @ s) (utf8_decode rest)"
  by simp

text \<open>Decoding the bytes of one scalar value, with any bytes after it.\<close>

lemma utf8_decode_cp:
  assumes "is_scalar n"
  shows "utf8_decode (utf8_of_cp n @ rest) = map_option (\<lambda>s. units_of_cp n @ s) (utf8_decode rest)"
proof -
  have n: "n \<le> 0x10FFFF" "n < 0xD800 \<or> 0xE000 \<le> n"
    using assms by (auto simp: is_scalar_def)
  have r: "n mod 64 < 64" "n div 64 mod 64 < 64" "n div 4096 mod 64 < 64" by simp_all
  consider "n < 0x80" | "0x80 \<le> n" "n < 0x800" | "0x800 \<le> n" "n < 0x10000" | "0x10000 \<le> n"
    by linarith
  then show ?thesis
  proof cases
    case 1
    then show ?thesis
      by (simp add: utf8_of_cp_def utf8_next_1 del: utf8_decode.simps add: utf8_decode_Cons_next)
  next
    case 2
    have "2 \<le> n div 64" "n div 64 < 32" using 2 by auto
    from utf8_next_2 [OF this r(1), of rest] show ?thesis
      using 2 by (simp add: utf8_of_cp_def utf8_decode_Cons_next del: utf8_decode.simps of_nat_add)
  next
    case 3
    note a = base64_digits3 [of n]
    have top: "n div 4096 < 16" using 3 by auto
    have lo: "32 \<le> n div 64 mod 64" if "n div 4096 = 0"
      using a 3(1) r unfolding that by linarith
    have hi: "n div 64 mod 64 < 32" if "n div 4096 = 13"
      using a r n(2) unfolding that by linarith
    from utf8_next_3 [OF top r(2,1) lo hi, of rest] show ?thesis
      using 3 a by (simp add: utf8_of_cp_def utf8_decode_Cons_next del: utf8_decode.simps of_nat_add)
  next
    case 4
    note a = base64_digits4 [of n]
    have top: "n div 262144 < 5" using n by auto
    have lo: "16 \<le> n div 4096 mod 64" if "n div 262144 = 0"
      using a 4 r unfolding that by linarith
    have hi: "n div 4096 mod 64 < 16" if "n div 262144 = 4"
      using a n(1) unfolding that by linarith
    from utf8_next_4 [OF top r(3,2,1) lo hi, of rest] show ?thesis
      using 4 a by (simp add: utf8_of_cp_def utf8_decode_Cons_next del: utf8_decode.simps of_nat_add)
  qed
qed

lemma utf8_decode_cps:
  assumes "\<forall>n \<in> set ns. is_scalar n"
  shows "utf8_decode (concat (map utf8_of_cp ns)) = Some (concat (map units_of_cp ns))"
  using assms by (induction ns) (auto simp: utf8_decode_cp)

lemma utf8_decode_encode: "utf8_decode (utf8_encode s) = Some (to_well_formed s)"
  unfolding utf8_encode_def to_well_formed_def
  by (rule utf8_decode_cps) (auto intro: code_points_scalar)

lemma utf8_roundtrip: "well_formed_text s \<Longrightarrow> utf8_decode (utf8_encode s) = Some s"
  by (simp add: utf8_decode_encode to_well_formed_id)

lemma utf8_decode_encode_eq: "utf8_decode (utf8_encode s) = Some s \<longleftrightarrow> well_formed_text s"
  by (simp add: utf8_decode_encode to_well_formed_id)


text \<open>Conversely, what decodes is the encoding of its result: the decoder accepts one form only.\<close>

lemma byte_of_unat: "unat b = k \<Longrightarrow> b = (word_of_nat k :: byte)"
  by auto

lemma continuation_digit:
  assumes "in_range lo hi c" "0x80 \<le> lo" "hi \<le> 0xBF"
  obtains d where "d < 64" "lo - 0x80 \<le> d" "d \<le> hi - 0x80" "c = word_of_nat (0x80 + d)" "unat c - 0x80 = d"
  using assms byte_of_unat [of c "0x80 + (unat c - 0x80)"]
  by (intro that [of "unat c - 0x80"]) (auto simp: in_range_def)

lemma div_digit: "c < 64 \<Longrightarrow> (a * 64 + c) div 64 = a" "c < 64 \<Longrightarrow> (a * 64 + c) mod 64 = (c :: nat)"
  by auto

lemma utf8_next_sound2:
  assumes "utf8_next b bs = Some (n, rest)" "0x80 \<le> unat b" "unat b < 0xE0"
  shows "is_scalar n \<and> b # bs = utf8_of_cp n @ rest"
proof -
  obtain c1 where bs: "bs = c1 # rest" and r: "in_range 0x80 0xBF c1" and C: "\<not> unat b < 0xC2"
    and n: "n = (unat b - 0xC0) * 64 + (unat c1 - 0x80)"
    using assms by (auto simp: utf8_next_def Let_def split: if_splits list.splits)
  from r obtain d where d: "d < 64" "c1 = word_of_nat (0x80 + d)" "unat c1 - 0x80 = d"
    by (rule continuation_digit) auto
  define a where "a = unat b - 0xC0"
  have a: "2 \<le> a" "a < 32" "b = word_of_nat (0xC0 + a)"
    using C assms byte_of_unat [of b "0xC0 + a"] by (auto simp: a_def)
  have n: "n = a * 64 + d" using n d by (simp add: a_def)
  then show ?thesis
    using a d bs by (simp add: utf8_of_cp_def is_scalar_def div_digit del: of_nat_add of_nat_mult)
qed

lemma utf8_next_sound3:
  assumes "utf8_next b bs = Some (n, rest)" "0xE0 \<le> unat b" "unat b < 0xF0"
  shows "is_scalar n \<and> b # bs = utf8_of_cp n @ rest"
proof -
  obtain c1 c2 where bs: "bs = c1 # c2 # rest" and r2: "in_range 0x80 0xBF c2" and
    r1: "in_range (if unat b = 0xE0 then 0xA0 else 0x80) (if unat b = 0xED then 0x9F else 0xBF) c1"
    and n: "n = (unat b - 0xE0) * 4096 + (unat c1 - 0x80) * 64 + (unat c2 - 0x80)"
    using assms unfolding utf8_next_def by (simp add: Let_def split: if_splits list.splits)
  define a where "a = unat b - 0xE0"
  from r1 obtain d where d: "d < 64" "c1 = word_of_nat (0x80 + d)" "unat c1 - 0x80 = d"
      "a = 0 \<Longrightarrow> 32 \<le> d" "a = 13 \<Longrightarrow> d < 32"
    by (rule continuation_digit) (use assms in \<open>auto simp: a_def split: if_splits\<close>)
  from r2 obtain e where e: "e < 64" "c2 = word_of_nat (0x80 + e)" "unat c2 - 0x80 = e"
    by (rule continuation_digit) auto
  have a: "a < 16" "b = word_of_nat (0xE0 + a)"
    using assms byte_of_unat [of b "0xE0 + a"] by (auto simp: a_def)
  have n: "n = (a * 64 + d) * 64 + e" using n d e by (simp add: a_def)
  have low: "n mod 64 = e" "n div 64 = a * 64 + d"
    unfolding n by (rule div_digit, rule e)+
  moreover have "n div 4096 = n div 64 div 64" by (simp flip: div_mult2_eq)
  ultimately have div: "n mod 64 = e" "n div 64 = a * 64 + d" "n div 4096 = a"
    using d(1) by (simp_all only: div_digit)
  have flat: "n = 4096 * a + 64 * d + e" unfolding n by simp
  consider "a = 13" | "a \<le> 12" | "14 \<le> a" by linarith
  then have "n < 0xD800 \<or> 0xE000 \<le> n"
  proof cases
    case 1
    then show ?thesis using n d(5) [OF 1] e(1) by simp
  qed (use flat d(1) e(1) in linarith)+
  moreover have "\<not> n < 0x800"
    by (cases "a = 0") (use n d(4) in \<open>simp_all add: not_less\<close>)
  moreover have "n < 0x10000" using flat a(1) d(1) e(1) by linarith
  ultimately have "is_scalar n" "\<not> n < 0x800" "n < 0x10000" by (auto simp: is_scalar_def)
  with a d e bs div show ?thesis by (simp add: utf8_of_cp_def div_digit del: of_nat_add of_nat_mult)
qed

lemma utf8_next_sound4:
  assumes "utf8_next b bs = Some (n, rest)" "0xF0 \<le> unat b"
  shows "is_scalar n \<and> b # bs = utf8_of_cp n @ rest"
proof -
  obtain c1 c2 c3 where bs: "bs = c1 # c2 # c3 # rest" and r2: "in_range 0x80 0xBF c2"
    and r3: "in_range 0x80 0xBF c3" and b: "unat b < 0xF5" and
    r1: "in_range (if unat b = 0xF0 then 0x90 else 0x80) (if unat b = 0xF4 then 0x8F else 0xBF) c1"
    and n: "n = (unat b - 0xF0) * 262144 + (unat c1 - 0x80) * 4096 + (unat c2 - 0x80) * 64 + (unat c3 - 0x80)"
    using assms unfolding utf8_next_def by (simp add: Let_def split: if_splits list.splits)
  define a where "a = unat b - 0xF0"
  from r1 obtain d where d: "d < 64" "c1 = word_of_nat (0x80 + d)" "unat c1 - 0x80 = d"
      "a = 0 \<Longrightarrow> 16 \<le> d" "a = 4 \<Longrightarrow> d < 16"
    by (rule continuation_digit) (use assms in \<open>auto simp: a_def split: if_splits\<close>)
  from r2 obtain e where e: "e < 64" "c2 = word_of_nat (0x80 + e)" "unat c2 - 0x80 = e"
    by (rule continuation_digit) auto
  from r3 obtain f where f: "f < 64" "c3 = word_of_nat (0x80 + f)" "unat c3 - 0x80 = f"
    by (rule continuation_digit) auto
  have a: "a < 5" "b = word_of_nat (0xF0 + a)"
    using assms b byte_of_unat [of b "0xF0 + a"] by (auto simp: a_def)
  have n: "n = ((a * 64 + d) * 64 + e) * 64 + f" using n d e f by (simp add: a_def)
  have low: "n mod 64 = f" "n div 64 = (a * 64 + d) * 64 + e"
    unfolding n by (rule div_digit, rule f)+
  moreover have "n div 4096 = n div 64 div 64" "n div 262144 = n div 64 div 64 div 64"
    by (simp_all flip: div_mult2_eq)
  ultimately have div: "n mod 64 = f" "n div 64 = (a * 64 + d) * 64 + e" "n div 4096 = a * 64 + d"
    "n div 262144 = a"
    using d(1) e(1) by (simp_all only: div_digit)
  have "n \<le> 0x10FFFF"
  proof (cases "a = 4")
    case True
    then show ?thesis using n d(5) [OF True] e(1) f(1) by simp
  next
    case False
    then have "a \<le> 3" using a(1) by simp
    moreover have "n = 262144 * a + 4096 * d + 64 * e + f" unfolding n by simp
    ultimately show ?thesis using d(1) e(1) f(1) by linarith
  qed
  moreover have "\<not> n < 0x10000"
    by (cases "a = 0") (use n d(4) in \<open>simp_all add: not_less\<close>)
  ultimately have "is_scalar n" "\<not> n < 0x10000" by (auto simp: is_scalar_def)
  moreover have "n div 64 mod 64 = e" unfolding div(2) by (rule div_digit(2)) (rule e)
  ultimately show ?thesis
    using a d(1,2) e f bs div(1,3,4) by (simp add: utf8_of_cp_def div_digit del: of_nat_add of_nat_mult)
qed

lemma utf8_next_sound:
  assumes "utf8_next b bs = Some (n, rest)"
  shows "is_scalar n" "b # bs = utf8_of_cp n @ rest"
proof -
  have "is_scalar n \<and> b # bs = utf8_of_cp n @ rest"
  proof (cases "unat b < 0x80")
    case True
    then show ?thesis
      using assms byte_of_unat [of b n] by (auto simp: utf8_next_def utf8_of_cp_def is_scalar_def)
  next
    case False
    then show ?thesis
      using utf8_next_sound2 [OF assms] utf8_next_sound3 [OF assms] utf8_next_sound4 [OF assms] by linarith
  qed
  then show "is_scalar n" "b # bs = utf8_of_cp n @ rest" by auto
qed

lemma code_points_units:
  assumes "is_scalar n"
  shows "code_points (units_of_cp n @ s) = n # code_points s"
proof (cases "n < 0x10000")
  case True
  then have "\<not> is_surrogate (word_of_nat n)" "unat (word_of_nat n :: code_unit) = n"
    using assms by (auto simp: is_scalar_def is_high_surrogate_def is_low_surrogate_def)
  then show ?thesis
    using True by (cases s) (auto simp: units_of_cp_def lone_code_point_def)
next
  case False
  define m where "m = n - 0x10000"
  have m: "m < 0x100000" "n = 0x10000 + m" using False assms by (auto simp: m_def is_scalar_def)
  have u: "unat (word_of_nat (0xD800 + m div 1024) :: code_unit) = 0xD800 + m div 1024"
    "unat (word_of_nat (0xDC00 + m mod 1024) :: code_unit) = 0xDC00 + m mod 1024"
    using m by (simp_all del: of_nat_add)
  have "m div 1024 < 1024" "m mod 1024 \<le> 1023" using m by (auto simp: less_Suc_eq_le [symmetric])
  then show ?thesis
    using False m u
    by (simp add: units_of_cp_def is_high_surrogate_def is_low_surrogate_def pair_code_point_def
        del: of_nat_add)
qed

lemma utf8_encode_decode: "utf8_decode bs = Some s \<Longrightarrow> utf8_encode s = bs"
proof (induction bs arbitrary: s rule: utf8_decode.induct)
  case (2 b bs)
  from "2.prems" obtain n rest t where t: "utf8_next b bs = Some (n, rest)" "utf8_decode rest = Some t"
    "s = units_of_cp n @ t" by (auto split: option.splits)
  with 2 have "utf8_encode t = rest" by blast
  then show ?case
    using utf8_next_sound [OF t(1)] t(3) by (simp add: utf8_encode_def code_points_units)
qed (simp add: utf8_encode_def)

lemma utf8_decode_well_formed: "utf8_decode bs = Some s \<Longrightarrow> well_formed_text s"
  using utf8_decode_encode_eq [of s] utf8_encode_decode [of bs s] by simp

end
