(* ===== verification/Js_Value.thy ===== *)
theory Js_Value
  imports Js_Text
begin

text \<open>
  The JavaScript values the protocol code inspects. Numbers are IEEE doubles, split into
  the ones whose value is an integer other than minus zero and the remaining bit patterns.
  Values are trees: an object graph is unfolded along every path up to the first
  repetition of an enclosing array or object, which is the leaf \<open>JBackRef\<close>; the cycle
  checks of the source observe exactly that leaf. Objects list their own enumerable string
  keys in the runtime's enumeration order, and \<open>define_property\<close> adds a property at the
  place that order gives it.
\<close>

section \<open>Numbers\<close>

datatype jsnum = Integral int | Fractional "64 word"

definition neg_zero :: "64 word" where
  "neg_zero = 0x8000000000000000"

definition float_exponent :: "64 word \<Rightarrow> nat" where
  "float_exponent b = unat b mod 2 ^ 63 div 2 ^ 52"

definition float_mantissa :: "64 word \<Rightarrow> nat" where
  "float_mantissa b = unat b mod 2 ^ 52"

definition float_sign :: "64 word \<Rightarrow> int" where
  "float_sign b = (if 2 ^ 63 \<le> unat b then - 1 else 1)"

text \<open>\<open>DataView.getFloat64\<close>: the number a bit pattern denotes.\<close>

definition num_of_bits :: "64 word \<Rightarrow> jsnum" where
  "num_of_bits b =
     (let e = float_exponent b; m = float_mantissa b in
      if e = 2047 then Fractional b
      else if e = 0 then (if m = 0 \<and> b \<noteq> neg_zero then Integral 0 else Fractional b)
      else let f = 2 ^ 52 + m in
        if 1075 \<le> e then Integral (float_sign b * int (f * 2 ^ (e - 1075)))
        else if f mod 2 ^ (1075 - e) = 0 then Integral (float_sign b * int (f div 2 ^ (1075 - e)))
        else Fractional b)"

definition max_safe_integer :: int where
  "max_safe_integer = 9007199254740991"

fun is_finite_num :: "jsnum \<Rightarrow> bool" where
  "is_finite_num (Integral i) = True"
| "is_finite_num (Fractional b) = (float_exponent b \<noteq> 2047)"

fun is_integer_num :: "jsnum \<Rightarrow> bool" where
  "is_integer_num (Integral i) = True"
| "is_integer_num (Fractional b) = (b = neg_zero)"

fun is_safe_integer :: "jsnum \<Rightarrow> bool" where
  "is_safe_integer (Integral i) = (\<bar>i\<bar> \<le> max_safe_integer)"
| "is_safe_integer (Fractional b) = (b = neg_zero)"

text \<open>The integer a number with an integral value denotes; minus zero is zero.\<close>

fun num_value :: "jsnum \<Rightarrow> int" where
  "num_value (Integral i) = i"
| "num_value (Fractional b) = 0"

fun wf_num :: "jsnum \<Rightarrow> bool" where
  "wf_num (Integral i) = True"
| "wf_num (Fractional b) = (num_of_bits b = Fractional b)"

lemma num_of_bits_Fractional: "num_of_bits b = Fractional c \<Longrightarrow> c = b"
  by (auto simp: num_of_bits_def Let_def split: if_splits)

lemma num_of_bits_wf: "wf_num (num_of_bits b)"
  using num_of_bits_Fractional [of b] by (cases "num_of_bits b") auto

section \<open>Values\<close>

datatype obj_proto = ProtoObject | ProtoNull

datatype jsval =
    JUndefined
  | JNull
  | JBool bool
  | JNum jsnum
  | JStr jsstr
  | JBytes "byte list"
  | JArr "jsval option list"
  | JObj obj_proto bool "(jsstr \<times> jsval) list"
  | JBackRef
  | JOther string

text \<open>
  \<open>JArr\<close> holds one slot per index, \<open>None\<close> for a hole. \<open>JObj p sym ps\<close> is a plain object
  with prototype \<open>p\<close>; \<open>sym\<close> tells whether it has an enumerable symbol-keyed property and
  \<open>ps\<close> lists its own enumerable string-keyed data properties. \<open>JOther t\<close> is any other
  value, with its \<open>typeof\<close> text: functions, symbols, big integers, class instances.
\<close>

type_synonym props = "(jsstr \<times> jsval) list"

section \<open>Property enumeration order\<close>

text \<open>
  Keys that are array indices come first, in ascending numeric order; the other string
  keys follow in the order in which they were added.
\<close>

definition is_digit :: "code_unit \<Rightarrow> bool" where
  "is_digit u \<longleftrightarrow> 48 \<le> unat u \<and> unat u \<le> 57"

definition digits_value :: "jsstr \<Rightarrow> nat" where
  "digits_value s = foldl (\<lambda>a u. a * 10 + (unat u - 48)) 0 s"

definition array_index :: "jsstr \<Rightarrow> nat option" where
  "array_index s =
     (if s \<noteq> [] \<and> list_all is_digit s \<and> (s = [48] \<or> hd s \<noteq> 48) \<and> digits_value s < 4294967295
      then Some (digits_value s) else None)"

definition key_before :: "jsstr \<Rightarrow> jsstr \<Rightarrow> bool" where
  "key_before a b =
     (case array_index a of
        Some i \<Rightarrow> (case array_index b of Some j \<Rightarrow> i < j | None \<Rightarrow> True)
      | None \<Rightarrow> array_index b = None)"

definition props_ordered :: "props \<Rightarrow> bool" where
  "props_ordered ps \<longleftrightarrow> distinct (map fst ps) \<and> sorted_wrt key_before (map fst ps)"

primrec insert_index_prop :: "nat \<Rightarrow> jsstr \<times> jsval \<Rightarrow> props \<Rightarrow> props" where
  "insert_index_prop i kv [] = [kv]"
| "insert_index_prop i kv (p # ps) =
     (case array_index (fst p) of
        Some j \<Rightarrow> if j < i then p # insert_index_prop i kv ps else kv # p # ps
      | None \<Rightarrow> kv # p # ps)"

definition define_property :: "jsstr \<Rightarrow> jsval \<Rightarrow> props \<Rightarrow> props" where
  "define_property k v ps =
     (if map_has ps k then map_put k v ps
      else case array_index k of
             Some i \<Rightarrow> insert_index_prop i (k, v) ps
           | None \<Rightarrow> ps @ [(k, v)])"

lemma insert_index_prop_last:
  assumes "\<forall>p \<in> set ps. \<exists>j. array_index (fst p) = Some j \<and> j < i"
  shows "insert_index_prop i kv ps = ps @ [kv]"
  using assms by (induction ps) auto

lemma define_property_last:
  assumes "props_ordered (ps @ [(k, v)])"
  shows "define_property k v ps = ps @ [(k, v)]"
proof (cases "array_index k")
  case None
  then show ?thesis
    using assms by (auto simp: define_property_def props_ordered_def map_of_eq_None_iff)
next
  case (Some i)
  have "\<forall>p \<in> set ps. key_before (fst p) k"
    using assms by (auto simp: props_ordered_def sorted_wrt_append)
  then have "\<forall>p \<in> set ps. \<exists>j. array_index (fst p) = Some j \<and> j < i"
    using Some by (auto simp: key_before_def split: option.splits)
  then show ?thesis
    using assms Some
    by (auto simp: define_property_def insert_index_prop_last props_ordered_def map_of_eq_None_iff)
qed

lemma props_ordered_appendD: "props_ordered (ps @ qs) \<Longrightarrow> props_ordered ps"
  by (auto simp: props_ordered_def sorted_wrt_append)

lemma props_ordered_filter:
  assumes "props_ordered ps"
  shows "props_ordered (filter P ps)"
  using assms
  by (induction ps) (auto simp: props_ordered_def)

lemma set_insert_index_prop: "set (insert_index_prop i kv ps) = insert kv (set ps)"
  by (induction ps) (auto split: option.splits)

lemma distinct_insert_index_prop:
  "distinct (map fst (insert_index_prop i kv ps)) \<longleftrightarrow> distinct (map fst ps) \<and> fst kv \<notin> fst ` set ps"
  by (induction ps) (auto simp: set_insert_index_prop split: option.splits)

lemma key_before_trans: "key_before a b \<Longrightarrow> key_before b c \<Longrightarrow> key_before a c"
  by (auto simp: key_before_def split: option.splits)

lemma sorted_insert_index_prop:
  assumes "sorted_wrt key_before (map fst ps)" "array_index (fst kv) = Some i"
    "fst kv \<notin> fst ` set ps" "\<And>p. p \<in> set ps \<Longrightarrow> array_index (fst p) \<noteq> Some i"
  shows "sorted_wrt key_before (map fst (insert_index_prop i kv ps))"
  using assms
proof (induction ps)
  case Nil
  then show ?case by simp
next
  case (Cons p ps)
  have ord: "\<And>q. q \<in> set ps \<Longrightarrow> key_before (fst p) (fst q)" and
    IH: "sorted_wrt key_before (map fst (insert_index_prop i kv ps))"
    using Cons by auto
  have p: "array_index (fst p) \<noteq> Some i" using Cons.prems(4) by simp
  show ?case
  proof (cases "\<exists>j. array_index (fst p) = Some j \<and> j < i")
    case True
    then have "key_before (fst p) (fst kv)" using Cons.prems(2) by (auto simp: key_before_def)
    with True IH ord show ?thesis by (auto simp: set_insert_index_prop)
  next
    case False
    then have before: "key_before (fst kv) (fst p)"
      using Cons.prems(2) p by (auto simp: key_before_def split: option.splits)
    with False Cons.prems(1) ord show ?thesis
      by (auto split: option.splits intro: key_before_trans)
  qed
qed

text \<open>
  Two different canonical index keys denote different numbers, so adding a property keeps
  the enumeration order. This needs that a canonical decimal determines its text.
\<close>

lemma digits_value_snoc: "digits_value (s @ [u]) = digits_value s * 10 + (unat u - 48)"
  by (simp add: digits_value_def)

lemma digits_value_inj:
  assumes "length s = length t" "list_all is_digit s" "list_all is_digit t"
    "digits_value s = digits_value t"
  shows "s = t"
  using assms
proof (induction s arbitrary: t rule: rev_induct)
  case Nil
  then show ?case by simp
next
  case (snoc u s)
  obtain t' w where t: "t = t' @ [w]" "length s = length t'"
    using snoc.prems(1) by (metis length_append_singleton length_Suc_conv_rev)
  have d: "unat u - 48 < 10" "unat w - 48 < 10" "48 \<le> unat u" "48 \<le> unat w"
    using snoc.prems(2,3) t by (auto simp: is_digit_def)
  have eq: "digits_value s * 10 + (unat u - 48) = digits_value t' * 10 + (unat w - 48)"
    using snoc.prems(4) t by (simp add: digits_value_snoc)
  have "digits_value s = digits_value t'"
    using arg_cong [OF eq, of "\<lambda>x. x div 10"] d(1,2) by simp
  moreover from this eq d(3,4) have "unat u = unat w" by linarith
  ultimately show ?case
    using snoc.IH [of t'] snoc.prems t by (auto simp: word_unat_eq_iff)
qed

lemma digits_value_Cons: "digits_value (u # s) = (unat u - 48) * 10 ^ length s + digits_value s"
proof (induction s rule: rev_induct)
  case Nil
  then show ?case by (simp add: digits_value_def)
next
  case (snoc w s)
  then show ?case
    by (simp add: digits_value_snoc [of "u # s" w, simplified] digits_value_snoc algebra_simps)
qed

lemma digits_value_less: "list_all is_digit s \<Longrightarrow> digits_value s < 10 ^ length s"
proof (induction s rule: rev_induct)
  case Nil
  then show ?case by (simp add: digits_value_def)
next
  case (snoc u s)
  then have "digits_value s + 1 \<le> 10 ^ length s" "unat u - 48 < 10"
    by (auto simp: is_digit_def)
  then have "digits_value s * 10 + (unat u - 48) < 10 ^ length s * 10" by linarith
  then show ?case by (simp add: digits_value_snoc mult.commute)
qed

lemma digits_value_canonical:
  assumes "list_all is_digit (u # s)" "u \<noteq> 48"
  shows "10 ^ length s \<le> digits_value (u # s)"
proof -
  have "unat u \<noteq> 48" using assms(2) by (auto simp: word_unat_eq_iff)
  then have "1 \<le> unat u - 48" using assms(1) by (auto simp: is_digit_def)
  then have "1 * 10 ^ length s \<le> (unat u - 48) * 10 ^ length s" by (rule mult_le_mono1)
  then show ?thesis unfolding digits_value_Cons by linarith
qed

lemma digits_length_mono:
  assumes "list_all is_digit s" "list_all is_digit t" "t \<noteq> []" "hd t \<noteq> 48" "length s < length t"
  shows "digits_value s < digits_value t"
proof -
  obtain u t' where t: "t = u # t'" using assms(3) by (cases t) auto
  have "digits_value s < 10 ^ length s" using assms(1) by (rule digits_value_less)
  also have "\<dots> \<le> 10 ^ length t'" using assms(5) t by (intro power_increasing) auto
  also have "\<dots> \<le> digits_value t" using digits_value_canonical [of u t'] assms t by simp
  finally show ?thesis .
qed

lemma digits_value_zero: "digits_value [48] = 0"
  by (simp add: digits_value_def)

lemma array_index_inj:
  assumes "array_index a = Some i" "array_index b = Some i"
  shows "a = b"
proof -
  have *: "s \<noteq> []" "list_all is_digit s" "s = [48] \<or> hd s \<noteq> 48" "digits_value s = i"
    if "array_index s = Some i" for s
    using that by (auto simp: array_index_def split: if_splits)
  have len: "\<not> length s < length t" if "array_index s = Some i" "array_index t = Some i" for s t
  proof
    assume less: "length s < length t"
    then have "t \<noteq> [48]" using *(1) [OF that(1)] by (cases s) auto
    then have "digits_value s < digits_value t"
      using digits_length_mono [of s t] * [OF that(1)] * [OF that(2)] less by auto
    then show False using *(4) that by simp
  qed
  have "length a = length b" using len [OF assms] len [OF assms(2,1)] by simp
  then show ?thesis using digits_value_inj * [OF assms(1)] * [OF assms(2)] by metis
qed

lemma props_ordered_define:
  assumes "props_ordered ps"
  shows "props_ordered (define_property k v ps)"
proof -
  consider (has) "map_has ps k" | (idx) i where "map_of ps k = None" "array_index k = Some i"
    | (str) "map_of ps k = None" "array_index k = None"
    by (cases "map_of ps k"; cases "array_index k") auto
  then show ?thesis
  proof cases
    case has
    then have "map fst (map_put k v ps) = map fst ps"
      using keys_map_put [of k v ps] by (auto simp: map_keys_def)
    with has assms show ?thesis by (simp add: define_property_def props_ordered_def)
  next
    case (idx i)
    have new: "k \<notin> fst ` set ps" using idx(1) by (simp add: map_of_eq_None_iff)
    then have "\<And>p. p \<in> set ps \<Longrightarrow> array_index (fst p) \<noteq> Some i"
      using array_index_inj [OF idx(2)] by (metis image_eqI)
    with idx new assms show ?thesis
      by (simp add: define_property_def props_ordered_def distinct_insert_index_prop
          sorted_insert_index_prop)
  next
    case str
    then show ?thesis
      using assms by (auto simp: define_property_def props_ordered_def sorted_wrt_append
          map_of_eq_None_iff key_before_def split: option.splits)
  qed
qed

lemma map_of_define_property:
  "map_of (define_property k v ps) k' = (if k' = k then Some v else map_of ps k')"
proof -
  have *: "map_of (insert_index_prop i (k, v) ps) k' = (if k' = k then Some v else map_of ps k')"
    if "map_of ps k = None" for i
    using that by (induction ps) (auto split: option.splits if_splits)
  show ?thesis
    using * by (auto simp: define_property_def map_add_def split: option.splits)
qed

end
