(* ===== verification/Cbor_Encoder.thy ===== *)
theory Cbor_Encoder
  imports Js_Value
begin

text \<open>
  The CBOR encoder of the wire protocol (packages/protocol/src/cbor/options.ts and
  encoder.ts): option resolution, the growing byte buffer \<open>CborWriter\<close>, the argument
  encoding of RFC 8949 and the recursive \<open>encodeValue\<close>. The buffer refines appending to a
  byte string with a length limit (\<open>emits\<close>), and the encoder refines the pure reference
  encoding \<open>cbor_bytes\<close> on exactly the values that \<open>admissible\<close> describes.
\<close>

unbundle bit_operations_syntax

section \<open>Exceptions and options\<close>

datatype protocol_exn =
    CborError string
  | FrameError string
  | RangeError string
  | TypeError string
  | ProtocolValidationError string

definition UINT32_BASE :: nat where "UINT32_BASE = 0x100000000"
definition MAX_UINT32 :: nat where "MAX_UINT32 = 0xffffffff"
definition MAX_CONFIGURED_DEPTH :: nat where "MAX_CONFIGURED_DEPTH = 512"
definition DEFAULT_MAX_CBOR_BYTE_LENGTH :: nat where
  "DEFAULT_MAX_CBOR_BYTE_LENGTH = 16 * 1024 * 1024"
definition DEFAULT_MAX_CBOR_CONTAINER_LENGTH :: nat where
  "DEFAULT_MAX_CBOR_CONTAINER_LENGTH = 1000000"
definition DEFAULT_MAX_CBOR_DEPTH :: nat where "DEFAULT_MAX_CBOR_DEPTH = 64"

record cbor_options =
  opt_maxByteLength :: "jsnum option"
  opt_maxContainerLength :: "jsnum option"
  opt_maxDepth :: "jsnum option"

record resolved_options =
  maxByteLength :: nat
  maxContainerLength :: nat
  maxDepth :: nat

definition resolveLimit :: "string \<Rightarrow> jsnum \<Rightarrow> nat \<Rightarrow> protocol_exn + nat" where
  "resolveLimit name v maximum =
     (if \<not> is_safe_integer v \<or> num_value v < 0 \<or> num_value v > int maximum
      then Inl (RangeError (name @ '' must be an integer between 0 and '' @ show_nat maximum))
      else Inr (nat (num_value v)))"

definition or_default :: "jsnum option \<Rightarrow> nat \<Rightarrow> jsnum" where
  "or_default v d = (case v of None \<Rightarrow> Integral (int d) | Some n \<Rightarrow> n)"

definition resolveOptions :: "cbor_options option \<Rightarrow> protocol_exn + resolved_options" where
  "resolveOptions options =
     (let get = (\<lambda>field. case options of None \<Rightarrow> None | Some opts \<Rightarrow> field opts) in
      bindE (resolveLimit ''maxByteLength''
               (or_default (get opt_maxByteLength) DEFAULT_MAX_CBOR_BYTE_LENGTH) MAX_UINT32) (\<lambda>b.
      bindE (resolveLimit ''maxContainerLength''
               (or_default (get opt_maxContainerLength) DEFAULT_MAX_CBOR_CONTAINER_LENGTH) MAX_UINT32) (\<lambda>c.
      bindE (resolveLimit ''maxDepth''
               (or_default (get opt_maxDepth) DEFAULT_MAX_CBOR_DEPTH) MAX_CONFIGURED_DEPTH) (\<lambda>d.
      Inr \<lparr>maxByteLength = b, maxContainerLength = c, maxDepth = d\<rparr>))))"

section \<open>The byte buffer\<close>

record cbor_writer =
  buffer :: "byte list"
  woffset :: nat
  wmax :: nat

definition new_writer :: "nat \<Rightarrow> cbor_writer" where
  "new_writer m = \<lparr>buffer = replicate (min 256 m) 0, woffset = 0, wmax = m\<rparr>"

definition byteLimitExceeded :: "nat \<Rightarrow> protocol_exn" where
  "byteLimitExceeded m = CborError (''CBOR byte length exceeds configured limit of '' @ show_nat m)"

text \<open>
  The capacity loop of \<open>ensureCapacity\<close>; the caller has thrown when \<open>required\<close> exceeds the
  maximum, so the loop only runs with \<open>required \<le> maximum\<close>.
\<close>

function grow_capacity :: "nat \<Rightarrow> nat \<Rightarrow> nat \<Rightarrow> nat" where
  "grow_capacity maximum required capacity =
     (if capacity < required \<and> required \<le> maximum
      then grow_capacity maximum required (min maximum (max required (capacity * 2)))
      else capacity)"
  by pat_completeness auto
termination
  by (relation "measure (\<lambda>(m, r, c). r - c)") auto

declare grow_capacity.simps [simp del]

definition ensureCapacity :: "nat \<Rightarrow> cbor_writer \<Rightarrow> protocol_exn + cbor_writer" where
  "ensureCapacity additional w =
     (let required = woffset w + additional in
      if required > wmax w then Inl (byteLimitExceeded (wmax w))
      else if required \<le> length (buffer w) then Inr w
      else let capacity = grow_capacity (wmax w) required (max 1 (length (buffer w))) in
        Inr (w\<lparr>buffer := buffer w @ replicate (capacity - length (buffer w)) 0\<rparr>))"

definition ushr :: "nat \<Rightarrow> nat \<Rightarrow> nat" where
  "ushr v k = drop_bit k (v mod 2 ^ 32)"

definition writeByte :: "nat \<Rightarrow> cbor_writer \<Rightarrow> protocol_exn + cbor_writer" where
  "writeByte v w =
     bindE (ensureCapacity 1 w) (\<lambda>w.
     Inr (w\<lparr>buffer := (buffer w)[woffset w := word_of_nat v], woffset := woffset w + 1\<rparr>))"

definition buf_set :: "nat \<Rightarrow> byte list \<Rightarrow> byte list \<Rightarrow> byte list" where
  "buf_set off bs buf = take off buf @ bs @ drop (off + length bs) buf"

definition writeBytes :: "byte list \<Rightarrow> cbor_writer \<Rightarrow> protocol_exn + cbor_writer" where
  "writeBytes bs w =
     bindE (ensureCapacity (length bs) w) (\<lambda>w.
     Inr (w\<lparr>buffer := buf_set (woffset w) bs (buffer w), woffset := woffset w + length bs\<rparr>))"

definition writeUint16 :: "nat \<Rightarrow> cbor_writer \<Rightarrow> protocol_exn + cbor_writer" where
  "writeUint16 v w =
     bindE (ensureCapacity 2 w) (\<lambda>w. let i = woffset w in
     Inr (w\<lparr>buffer := (buffer w)[i := word_of_nat (ushr v 8), i + 1 := word_of_nat v],
            woffset := i + 2\<rparr>))"

definition writeUint32 :: "nat \<Rightarrow> cbor_writer \<Rightarrow> protocol_exn + cbor_writer" where
  "writeUint32 v w =
     bindE (ensureCapacity 4 w) (\<lambda>w. let i = woffset w in
     Inr (w\<lparr>buffer := (buffer w)[i := word_of_nat (ushr v 24), i + 1 := word_of_nat (ushr v 16),
                                 i + 2 := word_of_nat (ushr v 8), i + 3 := word_of_nat v],
            woffset := i + 4\<rparr>))"

definition writeUint64 :: "nat \<Rightarrow> cbor_writer \<Rightarrow> protocol_exn + cbor_writer" where
  "writeUint64 v w =
     (let high = v div UINT32_BASE; low = v - high * UINT32_BASE in
      bindE (writeUint32 high w) (writeUint32 low))"

definition writeFloat64 :: "64 word \<Rightarrow> cbor_writer \<Rightarrow> protocol_exn + cbor_writer" where
  "writeFloat64 bits w =
     bindE (ensureCapacity 9 w) (\<lambda>w. let i = woffset w in
     Inr (w\<lparr>buffer := buf_set (i + 1) (be_bytes 8 (unat bits)) ((buffer w)[i := 0xfb]),
            woffset := i + 9\<rparr>))"

definition finish :: "cbor_writer \<Rightarrow> byte list" where
  "finish w = take (woffset w) (buffer w)"

section \<open>Encoding\<close>

definition writeArgument :: "nat \<Rightarrow> nat \<Rightarrow> cbor_writer \<Rightarrow> protocol_exn + cbor_writer" where
  "writeArgument majorType v w =
     (let prefix = push_bit 5 majorType in
      if v < 24 then writeByte (prefix OR v) w
      else if v \<le> 0xff then bindE (writeByte (prefix OR 24) w) (writeByte v)
      else if v \<le> 0xffff then bindE (writeByte (prefix OR 25) w) (writeUint16 v)
      else if v \<le> MAX_UINT32 then bindE (writeByte (prefix OR 26) w) (writeUint32 v)
      else bindE (writeByte (prefix OR 27) w) (writeUint64 v))"

definition encodeText :: "resolved_options \<Rightarrow> jsstr \<Rightarrow> cbor_writer \<Rightarrow> protocol_exn + cbor_writer" where
  "encodeText opts s w =
     (let bytes = utf8_encode s in
      if length bytes > maxByteLength opts
      then Inl (CborError (''CBOR text string length exceeds configured limit of '' @
                           show_nat (maxByteLength opts)))
      else if utf8_decode bytes \<noteq> Some s
      then Inl (CborError ''CBOR text strings must contain valid Unicode scalar values'')
      else bindE (writeArgument 3 (length bytes) w) (writeBytes bytes))"

definition depthExceeded :: "resolved_options \<Rightarrow> protocol_exn" where
  "depthExceeded opts =
     CborError (''CBOR nesting depth exceeds configured limit of '' @ show_nat (maxDepth opts))"

definition is_undefined :: "jsval \<Rightarrow> bool" where
  "is_undefined v \<longleftrightarrow> v = JUndefined"

definition defined_entries :: "props \<Rightarrow> props" where
  "defined_entries ps = filter (\<lambda>p. \<not> is_undefined (snd p)) ps"

fun encodeNumber :: "jsnum \<Rightarrow> cbor_writer \<Rightarrow> protocol_exn + cbor_writer" where
  "encodeNumber (Integral i) w =
     (if \<not> is_safe_integer (Integral i)
      then Inl (CborError ''CBOR integers must be safe JavaScript integers'')
      else if i \<ge> 0 then writeArgument 0 (nat i) w
      else writeArgument 1 (nat (- 1 - i)) w)"
| "encodeNumber (Fractional b) w =
     (if \<not> is_finite_num (Fractional b) then Inl (CborError ''CBOR numbers must be finite'')
      else writeFloat64 b w)"

fun encodeValue :: "resolved_options \<Rightarrow> nat \<Rightarrow> jsval \<Rightarrow> cbor_writer \<Rightarrow> protocol_exn + cbor_writer"
and encodeElements ::
  "resolved_options \<Rightarrow> nat \<Rightarrow> jsval option list \<Rightarrow> cbor_writer \<Rightarrow> protocol_exn + cbor_writer"
and encodeEntries ::
  "resolved_options \<Rightarrow> nat \<Rightarrow> props \<Rightarrow> cbor_writer \<Rightarrow> protocol_exn + cbor_writer"
where
  "encodeValue opts depth v w =
     (if depth > maxDepth opts then Inl (depthExceeded opts)
      else case v of
        JNull \<Rightarrow> writeByte 0xf6 w
      | JBool b \<Rightarrow> writeByte (if b then 0xf5 else 0xf4) w
      | JNum n \<Rightarrow> encodeNumber n w
      | JStr s \<Rightarrow> encodeText opts s w
      | JBytes bs \<Rightarrow>
          if length bs > maxByteLength opts
          then Inl (CborError (''CBOR byte string length exceeds configured limit of '' @
                               show_nat (maxByteLength opts)))
          else bindE (writeArgument 2 (length bs) w) (writeBytes bs)
      | JBackRef \<Rightarrow> Inl (CborError ''CBOR values must not contain cycles'')
      | JArr vs \<Rightarrow>
          if length vs > maxContainerLength opts
          then Inl (CborError (''CBOR array length exceeds configured limit of '' @
                               show_nat (maxContainerLength opts)))
          else bindE (writeArgument 4 (length vs) w) (encodeElements opts (depth + 1) vs)
      | JObj proto symkeys ps \<Rightarrow>
          if symkeys then Inl (CborError ''CBOR map keys must be strings'')
          else if length (defined_entries ps) > maxContainerLength opts
          then Inl (CborError (''CBOR map length exceeds configured limit of '' @
                               show_nat (maxContainerLength opts)))
          else bindE (writeArgument 5 (length (defined_entries ps)) w)
                 (encodeEntries opts (depth + 1) ps)
      | JUndefined \<Rightarrow> Inl (CborError ''Unsupported CBOR value type: undefined'')
      | JOther t \<Rightarrow> Inl (CborError (''Unsupported CBOR value type: '' @ t)))"
| "encodeElements opts depth [] w = Inr w"
| "encodeElements opts depth (slot # slots) w =
     (case slot of
        None \<Rightarrow> Inl (CborError ''CBOR arrays must not contain holes or undefined values'')
      | Some v \<Rightarrow>
          if is_undefined v
          then Inl (CborError ''CBOR arrays must not contain holes or undefined values'')
          else bindE (encodeValue opts depth v w) (encodeElements opts depth slots))"
| "encodeEntries opts depth [] w = Inr w"
| "encodeEntries opts depth ((k, v) # ps) w =
     (if is_undefined v then encodeEntries opts depth ps w
      else bindE (encodeText opts k w) (\<lambda>w.
           bindE (encodeValue opts depth v w) (encodeEntries opts depth ps)))"

definition encodeCbor :: "jsval \<Rightarrow> cbor_options option \<Rightarrow> protocol_exn + byte list" where
  "encodeCbor v options =
     bindE (resolveOptions options) (\<lambda>resolved.
     bindE (encodeValue resolved 0 v (new_writer (maxByteLength resolved))) (\<lambda>w.
     Inr (finish w)))"

section \<open>Reference encoding\<close>

text \<open>
  The abstract specification: which values can be encoded under the limits, and the bytes
  they become. \<open>normal\<close> is the value a peer reads back: properties whose value is undefined
  are dropped, the result has the ordinary prototype and no symbol keys.
\<close>

definition arg_bytes :: "nat \<Rightarrow> nat \<Rightarrow> byte list" where
  "arg_bytes m v =
     (if v < 24 then [word_of_nat (32 * m + v)]
      else if v \<le> 0xff then [word_of_nat (32 * m + 24), word_of_nat v]
      else if v \<le> 0xffff then word_of_nat (32 * m + 25) # be_bytes 2 v
      else if v \<le> MAX_UINT32 then word_of_nat (32 * m + 26) # be_bytes 4 v
      else word_of_nat (32 * m + 27) # be_bytes 8 v)"

definition text_bytes :: "jsstr \<Rightarrow> byte list" where
  "text_bytes s = arg_bytes 3 (length (utf8_encode s)) @ utf8_encode s"

definition text_ok :: "resolved_options \<Rightarrow> jsstr \<Rightarrow> bool" where
  "text_ok opts s \<longleftrightarrow> length (utf8_encode s) \<le> maxByteLength opts \<and> well_formed_text s"

fun num_bytes :: "jsnum \<Rightarrow> byte list" where
  "num_bytes (Integral i) = (if i \<ge> 0 then arg_bytes 0 (nat i) else arg_bytes 1 (nat (- 1 - i)))"
| "num_bytes (Fractional b) = 0xfb # be_bytes 8 (unat b)"

fun num_ok :: "jsnum \<Rightarrow> bool" where
  "num_ok (Integral i) = is_safe_integer (Integral i)"
| "num_ok (Fractional b) = is_finite_num (Fractional b)"

fun cbor_bytes :: "jsval \<Rightarrow> byte list"
and elements_bytes :: "jsval option list \<Rightarrow> byte list"
and entries_bytes :: "props \<Rightarrow> byte list"
where
  "cbor_bytes JNull = [0xf6]"
| "cbor_bytes (JBool b) = [if b then 0xf5 else 0xf4]"
| "cbor_bytes (JNum n) = num_bytes n"
| "cbor_bytes (JStr s) = text_bytes s"
| "cbor_bytes (JBytes bs) = arg_bytes 2 (length bs) @ bs"
| "cbor_bytes (JArr vs) = arg_bytes 4 (length vs) @ elements_bytes vs"
| "cbor_bytes (JObj p sy ps) = arg_bytes 5 (length (defined_entries ps)) @ entries_bytes ps"
| "cbor_bytes JUndefined = []"
| "cbor_bytes JBackRef = []"
| "cbor_bytes (JOther t) = []"
| "elements_bytes [] = []"
| "elements_bytes (slot # slots) =
     (case slot of None \<Rightarrow> [] | Some v \<Rightarrow> cbor_bytes v) @ elements_bytes slots"
| "entries_bytes [] = []"
| "entries_bytes ((k, v) # ps) =
     (if is_undefined v then [] else text_bytes k @ cbor_bytes v) @ entries_bytes ps"

fun admissible :: "resolved_options \<Rightarrow> nat \<Rightarrow> jsval \<Rightarrow> bool"
and elements_ok :: "resolved_options \<Rightarrow> nat \<Rightarrow> jsval option list \<Rightarrow> bool"
and entries_ok :: "resolved_options \<Rightarrow> nat \<Rightarrow> props \<Rightarrow> bool"
where
  "admissible opts d v \<longleftrightarrow> d \<le> maxDepth opts \<and>
     (case v of
        JNull \<Rightarrow> True
      | JBool b \<Rightarrow> True
      | JNum n \<Rightarrow> num_ok n
      | JStr s \<Rightarrow> text_ok opts s
      | JBytes bs \<Rightarrow> length bs \<le> maxByteLength opts
      | JArr vs \<Rightarrow> length vs \<le> maxContainerLength opts \<and> elements_ok opts (d + 1) vs
      | JObj p symkeys ps \<Rightarrow> \<not> symkeys \<and>
          length (defined_entries ps) \<le> maxContainerLength opts \<and> entries_ok opts (d + 1) ps
      | JUndefined \<Rightarrow> False
      | JBackRef \<Rightarrow> False
      | JOther t \<Rightarrow> False)"
| "elements_ok opts d [] = True"
| "elements_ok opts d (slot # slots) \<longleftrightarrow>
     (case slot of None \<Rightarrow> False | Some v \<Rightarrow> admissible opts d v) \<and> elements_ok opts d slots"
| "entries_ok opts d [] = True"
| "entries_ok opts d ((k, v) # ps) \<longleftrightarrow>
     (is_undefined v \<or> text_ok opts k \<and> admissible opts d v) \<and> entries_ok opts d ps"

fun normal :: "jsval \<Rightarrow> jsval"
and normal_slots :: "jsval option list \<Rightarrow> jsval option list"
and normal_props :: "props \<Rightarrow> props"
where
  "normal (JArr vs) = JArr (normal_slots vs)"
| "normal (JObj p sy ps) = JObj ProtoObject False (normal_props ps)"
| "normal v = v"
| "normal_slots [] = []"
| "normal_slots (slot # slots) = map_option normal slot # normal_slots slots"
| "normal_props [] = []"
| "normal_props ((k, v) # ps) =
     (if is_undefined v then normal_props ps else (k, normal v) # normal_props ps)"

section \<open>The buffer refines a bounded byte string\<close>

definition content :: "cbor_writer \<Rightarrow> byte list" where
  "content w = take (woffset w) (buffer w)"

definition writer_ok :: "cbor_writer \<Rightarrow> bool" where
  "writer_ok w \<longleftrightarrow> woffset w \<le> length (buffer w) \<and> length (buffer w) \<le> wmax w"

text \<open>
  \<open>emits f bs\<close>: the write \<open>f\<close> appends exactly \<open>bs\<close> when the limit allows it, and throws the
  byte-limit error otherwise.
\<close>

definition emits :: "(cbor_writer \<Rightarrow> protocol_exn + cbor_writer) \<Rightarrow> byte list \<Rightarrow> bool" where
  "emits f bs \<longleftrightarrow>
     (\<forall>w. writer_ok w \<longrightarrow>
        (if length (content w) + length bs \<le> wmax w
         then \<exists>w'. f w = Inr w' \<and> writer_ok w' \<and> wmax w' = wmax w \<and> content w' = content w @ bs
         else f w = Inl (byteLimitExceeded (wmax w))))"

lemma length_content: "writer_ok w \<Longrightarrow> length (content w) = woffset w"
  by (simp add: content_def writer_ok_def)

lemma grow_capacity_bounds:
  assumes "capacity \<le> required" "required \<le> maximum"
  shows "required \<le> grow_capacity maximum required capacity"
    "grow_capacity maximum required capacity \<le> maximum"
proof -
  have stop: "grow_capacity maximum required c = c" if "required \<le> c" for c
    using that by (simp add: grow_capacity.simps)
  have "grow_capacity maximum required capacity =
      (if capacity < required then min maximum (max required (capacity * 2)) else capacity)"
    using assms stop by (subst grow_capacity.simps) auto
  then show "required \<le> grow_capacity maximum required capacity"
    "grow_capacity maximum required capacity \<le> maximum"
    using assms by auto
qed

lemma ensureCapacity_ok:
  assumes "writer_ok w" "woffset w + k \<le> wmax w"
  obtains w' where "ensureCapacity k w = Inr w'" "writer_ok w'" "wmax w' = wmax w"
    "woffset w' = woffset w" "take (woffset w) (buffer w') = content w"
    "woffset w + k \<le> length (buffer w')"
proof (cases "woffset w + k \<le> length (buffer w)")
  case True
  then show ?thesis
    using assms that [of w] by (simp add: ensureCapacity_def content_def)
next
  case False
  let ?c = "grow_capacity (wmax w) (woffset w + k) (max 1 (length (buffer w)))"
  have "woffset w + k \<le> ?c" "?c \<le> wmax w"
    using grow_capacity_bounds [of "max 1 (length (buffer w))" "woffset w + k" "wmax w"] assms False
    by auto
  then show ?thesis
    using assms False
    by (intro that [of "w\<lparr>buffer := buffer w @ replicate (?c - length (buffer w)) 0\<rparr>"])
      (auto simp: ensureCapacity_def content_def writer_ok_def Let_def)
qed

lemma ensureCapacity_full:
  "wmax w < woffset w + k \<Longrightarrow> ensureCapacity k w = Inl (byteLimitExceeded (wmax w))"
  by (simp add: ensureCapacity_def)

lemma emitsI:
  assumes "\<And>w. \<lbrakk>writer_ok w; woffset w + length bs \<le> length (buffer w)\<rbrakk> \<Longrightarrow>
      length (upd w) = length (buffer w) \<and>
      take (woffset w + length bs) (upd w) = take (woffset w) (buffer w) @ bs"
    and "\<And>w. f w = bindE (ensureCapacity (length bs) w)
               (\<lambda>w. Inr (w\<lparr>buffer := upd w, woffset := woffset w + length bs\<rparr>))"
  shows "emits f bs"
  unfolding emits_def
proof (intro allI impI)
  fix w assume ok: "writer_ok w"
  show "if length (content w) + length bs \<le> wmax w
    then \<exists>w'. f w = Inr w' \<and> writer_ok w' \<and> wmax w' = wmax w \<and> content w' = content w @ bs
    else f w = Inl (byteLimitExceeded (wmax w))"
  proof (cases "woffset w + length bs \<le> wmax w")
    case True
    from ok True obtain w1 where w1: "ensureCapacity (length bs) w = Inr w1" "writer_ok w1"
      "wmax w1 = wmax w" "woffset w1 = woffset w" "take (woffset w) (buffer w1) = content w"
      "woffset w + length bs \<le> length (buffer w1)"
      by (rule ensureCapacity_ok)
    with assms(1) [of w1] have u: "length (upd w1) = length (buffer w1)"
      "take (woffset w + length bs) (upd w1) = content w @ bs" by auto
    show ?thesis
      using ok True w1 u by (auto simp: assms(2) length_content writer_ok_def content_def)
  next
    case False
    then show ?thesis
      using ok by (simp add: assms(2) ensureCapacity_full length_content)
  qed
qed

lemma emits_fit:
  assumes "emits f bs" "writer_ok w" "length (content w) + length bs \<le> wmax w"
  obtains w' where "f w = Inr w'" "writer_ok w'" "wmax w' = wmax w" "content w' = content w @ bs"
  using assms unfolding emits_def by meson

lemma emits_full:
  assumes "emits f bs" "writer_ok w" "\<not> length (content w) + length bs \<le> wmax w"
  shows "f w = Inl (byteLimitExceeded (wmax w))"
  using assms unfolding emits_def by meson

lemma emits_bind:
  assumes "emits f as" "emits g bs"
  shows "emits (\<lambda>w. bindE (f w) g) (as @ bs)"
  unfolding emits_def
proof (intro allI impI)
  fix w assume ok: "writer_ok w"
  show "if length (content w) + length (as @ bs) \<le> wmax w
    then \<exists>w'. bindE (f w) g = Inr w' \<and> writer_ok w' \<and> wmax w' = wmax w \<and> content w' = content w @ as @ bs
    else bindE (f w) g = Inl (byteLimitExceeded (wmax w))"
  proof (cases "length (content w) + length as \<le> wmax w")
    case True
    from emits_fit [OF assms(1) ok True] obtain w' where
      w': "f w = Inr w'" "writer_ok w'" "wmax w' = wmax w" "content w' = content w @ as" .
    show ?thesis
    proof (cases "length (content w') + length bs \<le> wmax w'")
      case fits: True
      from emits_fit [OF assms(2) w'(2) fits] w' fits show ?thesis by auto
    next
      case False
      from emits_full [OF assms(2) w'(2) False] w' False show ?thesis by auto
    qed
  next
    case False
    from emits_full [OF assms(1) ok False] False show ?thesis by simp
  qed
qed

lemma emits_then_rejects:
  assumes "emits f bs" "writer_ok w" "\<And>w. writer_ok w \<Longrightarrow> \<exists>e. g w = Inl e"
  shows "\<exists>e. bindE (f w) g = Inl e"
  using assms unfolding emits_def by (metis bindE_simps)

lemma emits_Nil: "emits Inr []"
  by (auto simp: emits_def length_content writer_ok_def)

lemma split_at:
  assumes "i + n \<le> length xs"
  obtains as bs cs where "xs = as @ bs @ cs" "length as = i" "length bs = n"
proof
  show "xs = take i xs @ take n (drop i xs) @ drop (i + n) xs"
    by (metis append_take_drop_id add.commute drop_drop)
qed (use assms in auto)

lemma emits_writeByte: "emits (writeByte v) [word_of_nat v]"
proof (rule emitsI)
  fix w :: cbor_writer assume "woffset w + length [word_of_nat v :: byte] \<le> length (buffer w)"
  then show "length ((buffer w)[woffset w := word_of_nat v]) = length (buffer w) \<and>
    take (woffset w + length [word_of_nat v :: byte]) ((buffer w)[woffset w := word_of_nat v]) =
    take (woffset w) (buffer w) @ [word_of_nat v]"
    by (simp add: take_Suc_conv_app_nth)
qed (simp add: writeByte_def)

lemma emits_writeBytes: "emits (writeBytes bs) bs"
  by (rule emitsI [where upd = "\<lambda>w. buf_set (woffset w) bs (buffer w)"])
    (auto simp: writeBytes_def buf_set_def)

lemma be_bytes_2: "be_bytes 2 v = [word_of_nat (v div 256), word_of_nat v]"
  by (simp add: numeral_2_eq_2)

lemma be_bytes_add: "be_bytes (j + k) v = be_bytes j (v div 256 ^ k) @ be_bytes k v"
proof (induction k arbitrary: v)
  case 0
  then show ?case by simp
next
  case (Suc k)
  then show ?case by (simp add: div_mult2_eq)
qed

lemma be_bytes_4:
  "be_bytes 4 v = [word_of_nat (v div 16777216), word_of_nat (v div 65536), word_of_nat (v div 256),
     word_of_nat v]"
proof -
  have "be_bytes 4 v = be_bytes 2 (v div 256 ^ 2) @ be_bytes 2 v"
    using be_bytes_add [of 2 2 v] by simp
  then show ?thesis by (simp add: be_bytes_2 div_mult2_eq [symmetric])
qed

lemma ushr_small: "v < 2 ^ 32 \<Longrightarrow> ushr v k = v div 2 ^ k"
  by (simp add: ushr_def drop_bit_eq_div)

lemma emits_writeUint16:
  assumes "v < 2 ^ 32"
  shows "emits (writeUint16 v) (be_bytes 2 v)"
proof (rule emitsI)
  fix w :: cbor_writer assume len: "woffset w + length (be_bytes 2 v) \<le> length (buffer w)"
  from split_at [OF len] obtain as bs cs where
    sp: "buffer w = as @ bs @ cs" "length as = woffset w" "length bs = length (be_bytes 2 v)" .
  then obtain x y where "bs = [x, y]"
    by (auto simp: numeral_2_eq_2 length_Suc_conv)
  with sp show "length ((buffer w)[woffset w := word_of_nat (ushr v 8), woffset w + 1 := word_of_nat v]) =
      length (buffer w) \<and>
    take (woffset w + length (be_bytes 2 v))
      ((buffer w)[woffset w := word_of_nat (ushr v 8), woffset w + 1 := word_of_nat v]) =
    take (woffset w) (buffer w) @ be_bytes 2 v"
    using assms by (auto simp: be_bytes_2 list_update_append ushr_small)
qed (simp add: writeUint16_def Let_def)

lemma emits_writeUint32:
  assumes "v < 2 ^ 32"
  shows "emits (writeUint32 v) (be_bytes 4 v)"
proof (rule emitsI)
  fix w :: cbor_writer assume len: "woffset w + length (be_bytes 4 v) \<le> length (buffer w)"
  let ?upd = "(buffer w)[woffset w := word_of_nat (ushr v 24), woffset w + 1 := word_of_nat (ushr v 16),
     woffset w + 2 := word_of_nat (ushr v 8), woffset w + 3 := word_of_nat v]"
  from split_at [OF len] obtain as bs cs where
    sp: "buffer w = as @ bs @ cs" "length as = woffset w" "length bs = length (be_bytes 4 v)" .
  then have "length bs = Suc (Suc (Suc (Suc 0)))" by simp
  then obtain x y z u where "bs = [x, y, z, u]" by (auto simp: length_Suc_conv)
  with sp show "length ?upd = length (buffer w) \<and>
    take (woffset w + length (be_bytes 4 v)) ?upd = take (woffset w) (buffer w) @ be_bytes 4 v"
    using assms by (auto simp: be_bytes_4 list_update_append ushr_small)
qed (simp add: writeUint32_def Let_def)

lemma be_bytes_mod: "be_bytes k (v mod 256 ^ k) = be_bytes k v"
proof -
  have "be_bytes k (be_nat (be_bytes k v)) = be_bytes k v"
    using be_bytes_nat [of "be_bytes k v"] by simp
  then show ?thesis by (simp add: be_nat_bytes)
qed

lemma emits_writeUint64:
  assumes "v < 2 ^ 64"
  shows "emits (writeUint64 v) (be_bytes 8 v)"
proof -
  let ?high = "v div UINT32_BASE" and ?low = "v - v div UINT32_BASE * UINT32_BASE"
  have low: "?low = v mod 256 ^ 4" by (simp add: UINT32_BASE_def minus_div_mult_eq_mod)
  have bounds: "?high < 2 ^ 32" "?low < 2 ^ 32"
    using assms by (simp_all add: UINT32_BASE_def minus_div_mult_eq_mod)
  have "be_bytes 8 v = be_bytes 4 ?high @ be_bytes 4 ?low"
    unfolding low using be_bytes_add [of 4 4 v] be_bytes_mod [of 4 v]
    by (simp add: UINT32_BASE_def)
  then show ?thesis
    using emits_bind [OF emits_writeUint32 [OF bounds(1)] emits_writeUint32 [OF bounds(2)]]
    by (simp add: writeUint64_def [abs_def] Let_def)
qed

lemma emits_writeFloat64: "emits (writeFloat64 b) (0xfb # be_bytes 8 (unat b))"
proof (rule emitsI)
  fix w :: cbor_writer
  assume len: "woffset w + length (0xfb # be_bytes 8 (unat b)) \<le> length (buffer w)"
  let ?upd = "buf_set (woffset w + 1) (be_bytes 8 (unat b)) ((buffer w)[woffset w := 0xfb])"
  show "length ?upd = length (buffer w) \<and>
    take (woffset w + length (0xfb # be_bytes 8 (unat b))) ?upd =
    take (woffset w) (buffer w) @ 0xfb # be_bytes 8 (unat b)"
    using len by (auto simp: buf_set_def take_Suc_conv_app_nth)
qed (simp add: writeFloat64_def Let_def)

section \<open>The encoder refines the reference encoding\<close>

lemma or_prefix:
  assumes "v < 32"
  shows "push_bit 5 m OR v = 32 * m + (v :: nat)"
proof -
  have "take_bit 5 v = v" using assms by (simp add: take_bit_nat_eq_self_iff)
  then have "\<not> bit v n" if "5 \<le> n" for n
    using bit_take_bit_iff [of 5 v n] that by simp
  then have "push_bit 5 m AND v = 0"
    by (intro bit_eqI) (auto simp: bit_and_iff bit_push_bit_iff)
  then show ?thesis
    using disjunctive_add_eq_or [of "push_bit 5 m" v] by (simp add: push_bit_eq_mult)
qed

lemma emits_writeArgument:
  assumes "v < 2 ^ 64"
  shows "emits (writeArgument m v) (arg_bytes m v)"
proof -
  note bind = emits_bind [OF emits_writeByte, simplified]
  consider "v < 24" | "24 \<le> v" "v \<le> 0xff" | "0xff < v" "v \<le> 0xffff"
    | "0xffff < v" "v \<le> MAX_UINT32" | "MAX_UINT32 < v" by linarith
  then show ?thesis
  proof cases
    case 1
    then show ?thesis using emits_writeByte [of "32 * m + v"]
      by (simp add: writeArgument_def [abs_def] arg_bytes_def or_prefix)
  next
    case 2
    then show ?thesis using bind [OF emits_writeByte [of v], of "32 * m + 24"]
      by (simp add: writeArgument_def [abs_def] arg_bytes_def or_prefix)
  next
    case 3
    then show ?thesis using bind [OF emits_writeUint16 [of v], of "32 * m + 25"]
      by (simp add: writeArgument_def [abs_def] arg_bytes_def or_prefix)
  next
    case 4
    then show ?thesis using bind [OF emits_writeUint32 [of v], of "32 * m + 26"]
      by (simp add: writeArgument_def [abs_def] arg_bytes_def or_prefix MAX_UINT32_def)
  next
    case 5
    then show ?thesis using bind [OF emits_writeUint64 [of v], of "32 * m + 27"] assms
      by (simp add: writeArgument_def [abs_def] arg_bytes_def or_prefix MAX_UINT32_def)
  qed
qed

lemma emits_encodeNumber:
  assumes "num_ok n"
  shows "emits (encodeNumber n) (num_bytes n)"
proof (cases n)
  case (Integral i)
  have small: "nat i < 2 ^ 64" "nat (- 1 - i) < 2 ^ 64"
    using assms Integral by (auto simp: max_safe_integer_def nat_less_iff)
  have "encodeNumber n = (if 0 \<le> i then writeArgument 0 (nat i) else writeArgument 1 (nat (- 1 - i)))"
    using assms Integral by (auto simp: fun_eq_iff)
  then show ?thesis
    using small Integral by (auto intro!: emits_writeArgument)
next
  case (Fractional b)
  then have "encodeNumber n = writeFloat64 b" using assms by (auto simp: fun_eq_iff)
  then show ?thesis using Fractional emits_writeFloat64 [of b] by simp
qed


text \<open>Options that \<open>resolveOptions\<close> can return.\<close>

definition options_ok :: "resolved_options \<Rightarrow> bool" where
  "options_ok opts \<longleftrightarrow> maxByteLength opts \<le> MAX_UINT32 \<and>
     maxContainerLength opts \<le> MAX_UINT32 \<and> maxDepth opts \<le> MAX_CONFIGURED_DEPTH"

lemma resolveLimit_le: "resolveLimit name v m = Inr k \<Longrightarrow> k \<le> m"
  by (auto simp: resolveLimit_def split: if_splits)

lemma resolveOptions_ok: "resolveOptions options = Inr opts \<Longrightarrow> options_ok opts"
  by (auto simp: resolveOptions_def options_ok_def bindE_eq_Inr Let_def dest!: resolveLimit_le)

lemma length_emittable:
  "options_ok opts \<Longrightarrow> n \<le> maxByteLength opts \<Longrightarrow> n < 2 ^ 64"
  "options_ok opts \<Longrightarrow> n \<le> maxContainerLength opts \<Longrightarrow> n < 2 ^ 64"
  by (auto simp: options_ok_def MAX_UINT32_def)

lemma emits_encodeText:
  assumes "options_ok opts" "text_ok opts s"
  shows "emits (encodeText opts s) (text_bytes s)"
proof -
  have "length (utf8_encode s) < 2 ^ 64"
    using assms length_emittable(1) by (auto simp: text_ok_def)
  moreover have "encodeText opts s =
      (\<lambda>w. bindE (writeArgument 3 (length (utf8_encode s)) w) (writeBytes (utf8_encode s)))"
    using assms(2) by (auto simp: fun_eq_iff encodeText_def text_ok_def utf8_decode_encode_eq Let_def)
  ultimately show ?thesis
    unfolding text_bytes_def by (simp add: emits_bind emits_writeArgument emits_writeBytes)
qed

lemma encodeText_rejects:
  "\<not> text_ok opts s \<Longrightarrow> \<exists>e. encodeText opts s w = Inl e"
  by (auto simp: encodeText_def text_ok_def utf8_decode_encode_eq Let_def)

lemma encodeNumber_rejects: "\<not> num_ok n \<Longrightarrow> \<exists>e. encodeNumber n w = Inl e"
  by (cases n) auto


lemma admissible_defined: "admissible opts d v \<Longrightarrow> \<not> is_undefined v"
  by (auto simp: is_undefined_def)

declare encodeValue.simps [simp del] admissible.simps [simp del]

lemma encode_emits:
  "options_ok opts \<Longrightarrow> admissible opts d v \<Longrightarrow> emits (encodeValue opts d v) (cbor_bytes v)"
  "options_ok opts \<Longrightarrow> elements_ok opts d vs \<Longrightarrow> emits (encodeElements opts d vs) (elements_bytes vs)"
  "options_ok opts \<Longrightarrow> entries_ok opts d ps \<Longrightarrow> emits (encodeEntries opts d ps) (entries_bytes ps)"
proof (induction opts d v and opts d vs and opts d ps rule: admissible_elements_ok_entries_ok.induct)
  case (1 opts d v)
  note [simp] = encodeValue.simps admissible.simps
  show ?case
  proof (cases v)
    case JNull
    have "emits (writeByte 0xf6) [0xf6]" using emits_writeByte [of "0xf6"] by simp
    then show ?thesis using 1 JNull by (simp add: ext)
  next
    case (JBool b)
    have "emits (writeByte (if b then 0xf5 else 0xf4)) [if b then 0xf5 else 0xf4]"
      using emits_writeByte [of "0xf5"] emits_writeByte [of "0xf4"] by simp
    moreover have "encodeValue opts d v = writeByte (if b then 0xf5 else 0xf4)"
      using 1 JBool by (auto simp: fun_eq_iff)
    ultimately show ?thesis using JBool by simp
  next
    case (JNum n)
    then have "encodeValue opts d v = encodeNumber n" using 1 by (auto simp: fun_eq_iff)
    then show ?thesis using 1 JNum by (simp add: emits_encodeNumber)
  next
    case (JStr s)
    then have "encodeValue opts d v = encodeText opts s" using 1 by (auto simp: fun_eq_iff)
    then show ?thesis using 1 JStr by (simp add: emits_encodeText)
  next
    case (JBytes bs)
    then have "encodeValue opts d v = (\<lambda>w. bindE (writeArgument 2 (length bs) w) (writeBytes bs))"
      using 1 by (auto simp: fun_eq_iff)
    then show ?thesis
      using 1 JBytes length_emittable(1) [of opts "length bs"]
      by (simp add: emits_bind emits_writeArgument emits_writeBytes)
  next
    case (JArr vs)
    then have "encodeValue opts d v =
        (\<lambda>w. bindE (writeArgument 4 (length vs) w) (encodeElements opts (d + 1) vs))"
      using 1 by (auto simp: fun_eq_iff)
    then show ?thesis
      using 1 JArr length_emittable(2) [of opts "length vs"]
      by (simp add: emits_bind emits_writeArgument)
  next
    case (JObj p sy ps)
    then have "encodeValue opts d v =
        (\<lambda>w. bindE (writeArgument 5 (length (defined_entries ps)) w) (encodeEntries opts (d + 1) ps))"
      using 1 by (auto simp: fun_eq_iff)
    then show ?thesis
      using 1 JObj length_emittable(2) [of opts "length (defined_entries ps)"]
      by (simp add: emits_bind emits_writeArgument)
  qed (use 1 in auto)
next
  case (2 opts d)
  have "encodeElements opts d [] = Inr" by (auto simp: fun_eq_iff)
  then show ?case by (simp add: emits_Nil)
next
  case (3 opts d slot slots)
  then obtain v where v: "slot = Some v" "admissible opts d v" "\<not> is_undefined v"
    by (auto split: option.splits dest: admissible_defined)
  then have "encodeElements opts d (slot # slots) =
      (\<lambda>w. bindE (encodeValue opts d v w) (encodeElements opts d slots))"
    by (auto simp: fun_eq_iff)
  then show ?case using 3 v by (simp add: emits_bind)
next
  case (4 opts d)
  have "encodeEntries opts d [] = Inr" by (auto simp: fun_eq_iff)
  then show ?case by (simp add: emits_Nil)
next
  case (5 opts d k v ps)
  show ?case
  proof (cases "is_undefined v")
    case True
    then have "encodeEntries opts d ((k, v) # ps) = encodeEntries opts d ps" by (auto simp: fun_eq_iff)
    with True 5 show ?thesis by simp
  next
    case False
    then have "encodeEntries opts d ((k, v) # ps) = (\<lambda>w. bindE (encodeText opts k w)
        (\<lambda>w. bindE (encodeValue opts d v w) (encodeEntries opts d ps)))"
      by (auto simp: fun_eq_iff)
    with False 5 show ?thesis
      by (simp add: emits_bind emits_encodeText)
  qed
qed


lemma encode_rejects:
  "options_ok opts \<Longrightarrow> writer_ok w \<Longrightarrow> \<not> admissible opts d v \<Longrightarrow> \<exists>e. encodeValue opts d v w = Inl e"
  "options_ok opts \<Longrightarrow> writer_ok w \<Longrightarrow> \<not> elements_ok opts d vs \<Longrightarrow> \<exists>e. encodeElements opts d vs w = Inl e"
  "options_ok opts \<Longrightarrow> writer_ok w \<Longrightarrow> \<not> entries_ok opts d ps \<Longrightarrow> \<exists>e. encodeEntries opts d ps w = Inl e"
proof (induction opts d v and opts d vs and opts d ps arbitrary: w and w and w
    rule: admissible_elements_ok_entries_ok.induct)
  case (1 opts d v)
  have seq: "\<exists>e. bindE (writeArgument m n w) g = Inl e"
    if "n \<le> maxContainerLength opts" "\<And>w. writer_ok w \<Longrightarrow> \<exists>e. g w = Inl e" for m n g
    by (rule emits_then_rejects [OF emits_writeArgument])
      (use that 1 length_emittable(2) [of opts n] in auto)
  show ?case
    using 1
    by (auto simp: encodeValue.simps admissible.simps encodeNumber_rejects encodeText_rejects
        not_le intro!: seq split: jsval.splits)
next
  case (3 opts d slot slots)
  show ?case
  proof (cases slot)
    case (Some v)
    have "\<exists>e. bindE (encodeValue opts d v w) (encodeElements opts d slots) = Inl e"
    proof (cases "admissible opts d v")
      case True
      then show ?thesis
        using 3 Some by (intro emits_then_rejects [OF encode_emits(1) [of opts d v]]) auto
    next
      case False
      then show ?thesis using 3(1) [of v w] 3(3,4) Some by (auto simp: bindE_eq_Inl)
    qed
    then show ?thesis using Some by auto
  qed simp
next
  case (5 opts d k v ps)
  let ?rest = "encodeEntries opts d ps" and ?enc = "encodeValue opts d v"
  have rest: "\<exists>e. bindE (?enc w) ?rest = Inl e"
    if "\<not> is_undefined v" "text_ok opts k" "writer_ok w" for w
  proof (cases "admissible opts d v")
    case True
    then show ?thesis
      using 5 that by (intro emits_then_rejects [OF encode_emits(1) [of opts d v]]) auto
  next
    case False
    then have "\<exists>e. ?enc w = Inl e" using 5 that by blast
    then show ?thesis by auto
  qed
  show ?case
  proof (cases "is_undefined v \<or> \<not> text_ok opts k")
    case True
    then show ?thesis using 5 encodeText_rejects [of opts k w] by auto
  next
    case False
    then show ?thesis
      using 5 rest emits_then_rejects [OF emits_encodeText [of opts k], of w "\<lambda>w. bindE (?enc w) ?rest"]
      by auto
  qed
qed auto

lemma new_writer_ok [simp]: "writer_ok (new_writer m)" "content (new_writer m) = []" "wmax (new_writer m) = m"
  by (simp_all add: new_writer_def writer_ok_def content_def)

lemma encodeCbor_resolved:
  assumes "resolveOptions options = Inr opts"
  shows "encodeCbor v options = Inr bs \<longleftrightarrow>
    admissible opts 0 v \<and> length (cbor_bytes v) \<le> maxByteLength opts \<and> bs = cbor_bytes v"
proof -
  let ?w = "new_writer (maxByteLength opts)"
  have ok: "options_ok opts" using assms by (rule resolveOptions_ok)
  have eq: "encodeCbor v options = bindE (encodeValue opts 0 v ?w) (\<lambda>w. Inr (finish w))"
    using assms by (simp add: encodeCbor_def)
  show ?thesis
  proof (cases "admissible opts 0 v")
    case True
    note emits = encode_emits(1) [OF ok True]
    show ?thesis
    proof (cases "length (cbor_bytes v) \<le> maxByteLength opts")
      case fits: True
      then obtain w' where "encodeValue opts 0 v ?w = Inr w'" "content w' = cbor_bytes v"
        using emits_fit [OF emits, of ?w] by auto
      then show ?thesis using True fits by (auto simp: eq finish_def content_def)
    next
      case False
      then show ?thesis using emits_full [OF emits, of ?w] by (simp add: eq)
    qed
  next
    case False
    then show ?thesis using encode_rejects(1) [OF ok, of ?w 0 v] by (auto simp: eq)
  qed
qed

end
