(* ===== verification/Cbor_Decoder.thy ===== *)
theory Cbor_Decoder
  imports Cbor_Encoder
begin

text \<open>
  The CBOR decoder of the wire protocol (packages/protocol/src/cbor/decoder.ts): the class
  \<open>CborReader\<close> as a record of the input bytes and the read offset, and its recursive
  \<open>readItem\<close>. The decoder reads back every encoding (\<open>reads\<close>), rejects truncated and
  trailing input, and only returns values that respect the configured limits.
\<close>

section \<open>The reader\<close>

record cbor_reader =
  rbytes :: "byte list"
  roffset :: nat

type_synonym 'a read_result = "protocol_exn + ('a \<times> cbor_reader)"

definition readByte :: "cbor_reader \<Rightarrow> nat read_result" where
  "readByte r =
     (if roffset r \<ge> length (rbytes r) then Inl (CborError ''Truncated CBOR payload'')
      else Inr (unat (rbytes r ! roffset r), r\<lparr>roffset := roffset r + 1\<rparr>))"

definition readBytes :: "nat \<Rightarrow> cbor_reader \<Rightarrow> byte list read_result" where
  "readBytes n r =
     (if int n > int (length (rbytes r)) - int (roffset r)
      then Inl (CborError ''Truncated CBOR payload'')
      else Inr (take n (drop (roffset r) (rbytes r)), r\<lparr>roffset := roffset r + n\<rparr>))"

definition readUint32 :: "cbor_reader \<Rightarrow> nat read_result" where
  "readUint32 r =
     bindE (readBytes 4 r) (\<lambda>(bytes, r).
     Inr (unat (bytes ! 0) * 0x1000000 + unat (bytes ! 1) * 0x10000 +
          unat (bytes ! 2) * 0x100 + unat (bytes ! 3), r))"

text \<open>
  \<open>readArgument\<close>: the two recursive calls of the 64-bit case are \<open>readArgument(26)\<close>, which is
  the 32-bit case \<open>readUint32\<close>.
\<close>

definition readArgument :: "nat \<Rightarrow> cbor_reader \<Rightarrow> nat read_result" where
  "readArgument ai r =
     (if ai < 24 then Inr (ai, r)
      else if ai = 24 then readByte r
      else if ai = 25 then
        bindE (readBytes 2 r) (\<lambda>(bytes, r). Inr (unat (bytes ! 0) * 0x100 + unat (bytes ! 1), r))
      else if ai = 26 then readUint32 r
      else if ai = 27 then
        bindE (readUint32 r) (\<lambda>(high, r).
        bindE (readUint32 r) (\<lambda>(low, r).
        if high > 0x1fffff
        then Inl (CborError ''Decoded CBOR integer or length is outside the safe range'')
        else Inr (high * UINT32_BASE + low, r)))
      else if ai = 31 then Inl (CborError ''Indefinite-length CBOR items are not supported'')
      else Inl (CborError ''Malformed CBOR additional information''))"

definition readLength :: "nat \<Rightarrow> string \<Rightarrow> nat \<Rightarrow> cbor_reader \<Rightarrow> nat read_result" where
  "readLength ai kind limit r =
     (if ai = 31 then Inl (CborError (''Indefinite-length CBOR '' @ kind @ ''s are not supported''))
      else bindE (readArgument ai r) (\<lambda>(n, r).
        if n > limit
        then Inl (CborError (''CBOR '' @ kind @ '' length exceeds configured limit of '' @ show_nat limit))
        else Inr (n, r)))"

definition readSimple :: "nat \<Rightarrow> cbor_reader \<Rightarrow> jsval read_result" where
  "readSimple ai r =
     (if ai = 20 then Inr (JBool False, r)
      else if ai = 21 then Inr (JBool True, r)
      else if ai = 22 then Inr (JNull, r)
      else if ai = 27 then
        bindE (readBytes 8 r) (\<lambda>(bytes, r).
        let v = num_of_bits (word_of_nat (be_nat bytes)) in
        if \<not> is_finite_num v then Inl (CborError ''Decoded CBOR number must be finite'')
        else if is_integer_num v \<and> \<not> is_safe_integer v
        then Inl (CborError ''Decoded CBOR integer is outside the safe range'')
        else Inr (JNum v, r))
      else if ai = 31 then Inl (CborError ''CBOR break marker is not supported'')
      else Inl (CborError ''Unsupported CBOR simple value or floating-point width''))"

function readItem :: "resolved_options \<Rightarrow> nat \<Rightarrow> cbor_reader \<Rightarrow> jsval read_result"
and readArray ::
  "resolved_options \<Rightarrow> nat \<Rightarrow> nat \<Rightarrow> jsval option list \<Rightarrow> cbor_reader \<Rightarrow> jsval read_result"
and readMap ::
  "resolved_options \<Rightarrow> nat \<Rightarrow> nat \<Rightarrow> jsstr list \<Rightarrow> props \<Rightarrow> cbor_reader \<Rightarrow> jsval read_result"
where
  "readItem opts depth r =
     (if depth > maxDepth opts then Inl (depthExceeded opts)
      else bindE (readByte r) (\<lambda>(initial, r).
        let majorType = initial div 32; ai = initial mod 32 in
        if majorType = 0 then bindE (readArgument ai r) (\<lambda>(n, r). Inr (JNum (Integral (int n)), r))
        else if majorType = 1 then
          bindE (readArgument ai r) (\<lambda>(n, r).
          let v = Integral (- 1 - int n) in
          if \<not> is_safe_integer v
          then Inl (CborError ''Decoded CBOR integer is outside the safe range'')
          else Inr (JNum v, r))
        else if majorType = 2 then
          bindE (readLength ai ''byte string'' (maxByteLength opts) r) (\<lambda>(n, r).
          bindE (readBytes n r) (\<lambda>(bytes, r). Inr (JBytes bytes, r)))
        else if majorType = 3 then
          bindE (readLength ai ''text string'' (maxByteLength opts) r) (\<lambda>(n, r).
          bindE (readBytes n r) (\<lambda>(bytes, r).
          case utf8_decode bytes of
            None \<Rightarrow> Inl (CborError ''CBOR text string contains invalid UTF-8'')
          | Some s \<Rightarrow> Inr (JStr s, r)))
        else if majorType = 4 then
          bindE (readLength ai ''array'' (maxContainerLength opts) r) (\<lambda>(n, r).
          readArray opts (depth + 1) n [] r)
        else if majorType = 5 then
          bindE (readLength ai ''map'' (maxContainerLength opts) r) (\<lambda>(n, r).
          readMap opts (depth + 1) n [] [] r)
        else if majorType = 6 then Inl (CborError ''CBOR tags are not supported'')
        else if majorType = 7 then readSimple ai r
        else Inl (CborError ''Malformed CBOR major type'')))"
| "readArray opts depth 0 acc r = Inr (JArr acc, r)"
| "readArray opts depth (Suc n) acc r =
     bindE (readItem opts depth r) (\<lambda>(v, r). readArray opts depth n (acc @ [Some v]) r)"
| "readMap opts depth 0 keys acc r = Inr (JObj ProtoObject False acc, r)"
| "readMap opts depth (Suc n) keys acc r =
     bindE (readItem opts depth r) (\<lambda>(key, r).
     case key of
       JStr k \<Rightarrow>
         if k \<in> set keys then Inl (CborError ''CBOR map contains a duplicate key'')
         else bindE (readItem opts depth r) (\<lambda>(v, r).
              readMap opts depth n (keys @ [k]) (define_property k v acc) r)
     | _ \<Rightarrow> Inl (CborError ''CBOR map keys must be strings''))"
  by pat_completeness auto
termination
  by (relation "inv_image (less_than <*lex*> less_than) (\<lambda>x. case x of
        Inl (opts, d, r) \<Rightarrow> (maxDepth opts + 1 - d, 0)
      | Inr (Inl (opts, d, n, acc, r)) \<Rightarrow> (maxDepth opts + 1 - d, n + 1)
      | Inr (Inr (opts, d, n, keys, acc, r)) \<Rightarrow> (maxDepth opts + 1 - d, n + 1))") auto

definition decode :: "resolved_options \<Rightarrow> cbor_reader \<Rightarrow> protocol_exn + jsval" where
  "decode opts r =
     bindE (readItem opts 0 r) (\<lambda>(v, r).
     if roffset r \<noteq> length (rbytes r)
     then Inl (CborError ''CBOR payload contains trailing data'')
     else Inr v)"

fun decodeCbor :: "jsval \<Rightarrow> cbor_options option \<Rightarrow> protocol_exn + jsval" where
  "decodeCbor (JBytes bytes) options =
     bindE (resolveOptions options) (\<lambda>resolved.
     if length bytes > maxByteLength resolved
     then Inl (byteLimitExceeded (maxByteLength resolved))
     else decode resolved \<lparr>rbytes = bytes, roffset = 0\<rparr>)"
| "decodeCbor _ options = Inl (TypeError ''CBOR input must be a Uint8Array'')"

section \<open>Values the runtime can hold\<close>

text \<open>
  Invariants of every JavaScript value: a number that is not integral has a bit pattern
  that denotes it, and an object enumerates distinct keys in the runtime's order.
\<close>

fun wf_val :: "jsval \<Rightarrow> bool"
and wf_slots :: "jsval option list \<Rightarrow> bool"
and wf_props :: "props \<Rightarrow> bool"
where
  "wf_val (JNum n) = wf_num n"
| "wf_val (JArr vs) = wf_slots vs"
| "wf_val (JObj p sy ps) = (props_ordered ps \<and> wf_props ps)"
| "wf_val v = True"
| "wf_slots [] = True"
| "wf_slots (slot # slots) = ((case slot of None \<Rightarrow> True | Some v \<Rightarrow> wf_val v) \<and> wf_slots slots)"
| "wf_props [] = True"
| "wf_props ((k, v) # ps) = (wf_val v \<and> wf_props ps)"

section \<open>Readers of a byte string\<close>

text \<open>
  \<open>reads f bs x\<close>: wherever \<open>bs\<close> lies in the input, \<open>f\<close> started at its first byte returns \<open>x\<close> and
  leaves the offset behind its last byte.
\<close>

definition reads :: "(cbor_reader \<Rightarrow> 'a read_result) \<Rightarrow> byte list \<Rightarrow> 'a \<Rightarrow> bool" where
  "reads f bs x \<longleftrightarrow>
     (\<forall>pre post. f \<lparr>rbytes = pre @ bs @ post, roffset = length pre\<rparr> =
        Inr (x, \<lparr>rbytes = pre @ bs @ post, roffset = length pre + length bs\<rparr>))"

lemma readsD:
  assumes "reads f bs x"
  shows "f \<lparr>rbytes = pre @ bs @ post, roffset = length pre\<rparr> =
    Inr (x, \<lparr>rbytes = pre @ bs @ post, roffset = length pre + length bs\<rparr>)"
  using assms by (simp add: reads_def)

lemma reads_pure: "reads (\<lambda>r. Inr (x, r)) [] x"
  by (simp add: reads_def)

lemma reads_bind:
  assumes "reads f as x" "reads (g x) bs y"
  shows "reads (\<lambda>r. bindE (f r) (\<lambda>(x, r). g x r)) (as @ bs) y"
  unfolding reads_def
proof (intro allI)
  fix pre post
  show "bindE (f \<lparr>rbytes = pre @ (as @ bs) @ post, roffset = length pre\<rparr>) (\<lambda>(x, r). g x r) =
    Inr (y, \<lparr>rbytes = pre @ (as @ bs) @ post, roffset = length pre + length (as @ bs)\<rparr>)"
    using readsD [OF assms(1), of pre "bs @ post"] readsD [OF assms(2), of "pre @ as" post]
    by (simp add: add.assoc)
qed

lemma reads_map:
  assumes "reads f bs x"
  shows "reads (\<lambda>r. bindE (f r) (\<lambda>(x, r). Inr (h x, r))) bs (h x)"
  using reads_bind [where g = "\<lambda>x r. Inr (h x, r)", OF assms reads_pure] by simp

lemma reads_cong:
  assumes "reads g bs x" "\<And>r. f r = g r"
  shows "reads f bs x"
proof -
  have "f = g" using assms(2) by (rule ext)
  with assms(1) show ?thesis by simp
qed

lemma reads_readByte: "reads readByte [b] (unat b)"
  by (simp add: reads_def readByte_def nth_append)

lemma reads_readBytes: "reads (readBytes (length bs)) bs bs"
  by (simp add: reads_def readBytes_def)

lemma reads_fixed: "reads (readBytes k) (be_bytes k v) (be_bytes k v)"
  using reads_readBytes [of "be_bytes k v"] by simp

lemma be_nat_2: "be_nat [a, b] = unat a * 0x100 + unat b"
  by (simp add: be_nat_def)

lemma be_nat_4:
  "be_nat [a, b, c, d] = unat a * 0x1000000 + unat b * 0x10000 + unat c * 0x100 + unat d"
  by (simp add: be_nat_def)

lemma reads_readUint32:
  assumes "v < 2 ^ 32"
  shows "reads readUint32 (be_bytes 4 v) v"
proof -
  have v: "be_nat (be_bytes 4 v) = v" using assms by (simp add: be_nat_bytes)
  let ?h = "\<lambda>bs :: byte list. unat (bs ! 0) * 0x1000000 + unat (bs ! 1) * 0x10000 +
    unat (bs ! 2) * 0x100 + unat (bs ! 3)"
  have "?h (be_bytes 4 v) = be_nat (be_bytes 4 v)"
    by (simp add: be_bytes_4 be_nat_4 numeral_3_eq_3 numeral_2_eq_2)
  then have h: "?h (be_bytes 4 v) = v" unfolding v .
  show ?thesis
    using reads_map [OF reads_fixed [of 4 v], of ?h] unfolding h
    by (rule reads_cong) (simp add: readUint32_def)
qed

lemma reads_readArgument:
  assumes "v < 2 ^ 53"
  obtains ai tl where "arg_bytes m v = word_of_nat (32 * m + ai) # tl" "ai < 28"
    "reads (readArgument ai) tl v"
proof -
  consider "v < 24" | "24 \<le> v" "v \<le> 0xff" | "0xff < v" "v \<le> 0xffff"
    | "0xffff < v" "v \<le> MAX_UINT32" | "MAX_UINT32 < v" by linarith
  then show ?thesis
  proof cases
    case 1
    then show ?thesis
      by (intro that [of v "[]"]) (auto simp: arg_bytes_def readArgument_def reads_def)
  next
    case 2
    have "reads (readArgument 24) [word_of_nat v] v"
      using reads_readByte [of "word_of_nat v"] 2 by (simp add: readArgument_def [abs_def])
    with 2 show ?thesis by (intro that [of 24 "[word_of_nat v]"]) (auto simp: arg_bytes_def)
  next
    case 3
    have "be_nat (be_bytes 2 v) = v" using 3 by (simp add: be_nat_bytes)
    then have "reads (readArgument 25) (be_bytes 2 v) v"
      using reads_map [OF reads_fixed [of 2 v], of "\<lambda>bs. unat (bs ! 0) * 0x100 + unat (bs ! 1)"]
      by (simp add: readArgument_def [abs_def] be_bytes_2 be_nat_2)
    with 3 show ?thesis by (intro that [of 25 "be_bytes 2 v"]) (auto simp: arg_bytes_def)
  next
    case 4
    have "reads (readArgument 26) (be_bytes 4 v) v"
      using reads_readUint32 [of v] 4 by (simp add: readArgument_def [abs_def] MAX_UINT32_def)
    with 4 show ?thesis by (intro that [of 26 "be_bytes 4 v"]) (auto simp: arg_bytes_def)
  next
    case 5
    let ?high = "v div 2 ^ 32" and ?low = "v mod 2 ^ 32"
    have high: "?high \<le> 0x1fffff" using assms by (simp add: less_mult_imp_div_less flip: less_Suc_eq_le)
    let ?g = "\<lambda>high r. bindE (readUint32 r) (\<lambda>(low, r). if high > 0x1fffff
        then Inl (CborError ''Decoded CBOR integer or length is outside the safe range'')
        else Inr (high * UINT32_BASE + low, r))"
    have "reads (?g ?high) (be_bytes 4 ?low) (?high * UINT32_BASE + ?low)"
      using high reads_map [OF reads_readUint32 [of ?low], of "\<lambda>low. ?high * UINT32_BASE + low"] by simp
    then have "reads (\<lambda>r. bindE (readUint32 r) (\<lambda>(high, r). ?g high r))
        (be_bytes 4 ?high @ be_bytes 4 ?low) (?high * UINT32_BASE + ?low)"
      using high by (intro reads_bind [where x = ?high and g = ?g] reads_readUint32) auto
    then have "reads (readArgument 27) (be_bytes 4 ?high @ be_bytes 4 ?low) v"
      by (simp add: readArgument_def [abs_def] UINT32_BASE_def)
    moreover have "be_bytes 8 v = be_bytes 4 ?high @ be_bytes 4 ?low"
      using be_bytes_add [of 4 4 v] be_bytes_mod [of 4 v] by simp
    ultimately show ?thesis using 5 by (intro that [of 27 "be_bytes 8 v"]) (auto simp: arg_bytes_def MAX_UINT32_def)
  qed
qed


section \<open>Round trip\<close>

lemma initial_byte: "m < 8 \<Longrightarrow> ai < 32 \<Longrightarrow> unat (word_of_nat (32 * m + ai) :: byte) = 32 * m + ai"
  by (simp del: of_nat_add of_nat_mult)

text \<open>What \<open>readItem\<close> does after the initial byte, by major type.\<close>

definition item_body :: "resolved_options \<Rightarrow> nat \<Rightarrow> nat \<Rightarrow> nat \<Rightarrow> cbor_reader \<Rightarrow> jsval read_result" where
  "item_body opts depth majorType ai r =
     (if majorType = 0 then bindE (readArgument ai r) (\<lambda>(n, r). Inr (JNum (Integral (int n)), r))
      else if majorType = 1 then
        bindE (readArgument ai r) (\<lambda>(n, r).
        let v = Integral (- 1 - int n) in
        if \<not> is_safe_integer v
        then Inl (CborError ''Decoded CBOR integer is outside the safe range'')
        else Inr (JNum v, r))
      else if majorType = 2 then
        bindE (readLength ai ''byte string'' (maxByteLength opts) r) (\<lambda>(n, r).
        bindE (readBytes n r) (\<lambda>(bytes, r). Inr (JBytes bytes, r)))
      else if majorType = 3 then
        bindE (readLength ai ''text string'' (maxByteLength opts) r) (\<lambda>(n, r).
        bindE (readBytes n r) (\<lambda>(bytes, r).
        case utf8_decode bytes of
          None \<Rightarrow> Inl (CborError ''CBOR text string contains invalid UTF-8'')
        | Some s \<Rightarrow> Inr (JStr s, r)))
      else if majorType = 4 then
        bindE (readLength ai ''array'' (maxContainerLength opts) r) (\<lambda>(n, r).
        readArray opts (depth + 1) n [] r)
      else if majorType = 5 then
        bindE (readLength ai ''map'' (maxContainerLength opts) r) (\<lambda>(n, r).
        readMap opts (depth + 1) n [] [] r)
      else if majorType = 6 then Inl (CborError ''CBOR tags are not supported'')
      else if majorType = 7 then readSimple ai r
      else Inl (CborError ''Malformed CBOR major type''))"

declare readItem.simps [simp del]

lemma readItem_body:
  "readItem opts depth r =
     (if depth > maxDepth opts then Inl (depthExceeded opts)
      else bindE (readByte r) (\<lambda>(initial, r). item_body opts depth (initial div 32) (initial mod 32) r))"
  unfolding readItem.simps item_body_def Let_def by (rule refl)

lemma reads_item:
  assumes "d \<le> maxDepth opts" "m < 8" "ai < 32" "reads (item_body opts d m ai) bs v"
  shows "reads (readItem opts d) (word_of_nat (32 * m + ai) # bs) v"
proof -
  have "reads (\<lambda>r. bindE (readByte r) (\<lambda>(initial, r). item_body opts d (initial div 32) (initial mod 32) r))
      ([word_of_nat (32 * m + ai)] @ bs) v"
    using assms initial_byte [of m ai] by (intro reads_bind [OF reads_readByte]) simp
  then show ?thesis using assms(1) by (simp add: readItem_body [abs_def])
qed

lemma reads_readLength:
  assumes "ai < 28" "reads (readArgument ai) bs n" "n \<le> limit"
  shows "reads (readLength ai kind limit) bs n"
proof -
  let ?g = "\<lambda>n r. if n > limit
     then Inl (CborError (''CBOR '' @ kind @ '' length exceeds configured limit of '' @ show_nat limit))
     else Inr (n, r)"
  have "reads (?g n) [] n" using assms(3) by (simp add: reads_pure)
  from reads_bind [where g = ?g, OF assms(2) this] assms(1) show ?thesis
    by (simp add: readLength_def [abs_def])
qed

lemma reads_sized:
  assumes "d \<le> maxDepth opts" "m < 8" "n < 2 ^ 53" "n \<le> limit"
    and "\<And>ai r. item_body opts d m ai r = bindE (readLength ai kind limit r) (\<lambda>(n, r). g n r)"
    and "reads (g n) bs v"
  shows "reads (readItem opts d) (arg_bytes m n @ bs) v"
proof -
  obtain ai tl where arg: "arg_bytes m n = word_of_nat (32 * m + ai) # tl" "ai < 28"
    "reads (readArgument ai) tl n"
    using reads_readArgument [OF assms(3)] .
  have "reads (item_body opts d m ai) (tl @ bs) v"
    using reads_bind [where g = g, OF reads_readLength [OF arg(2,3) assms(4), of kind] assms(6)]
    by (rule reads_cong) (rule assms(5))
  then show ?thesis using reads_item [OF assms(1,2)] arg by simp
qed


lemma reads_number:
  assumes "d \<le> maxDepth opts" "num_ok n" "wf_num n"
  shows "reads (readItem opts d) (num_bytes n) (JNum n)"
proof (cases n)
  case (Integral i)
  then have safe: "\<bar>i\<bar> \<le> 9007199254740991" using assms(2) by (simp add: max_safe_integer_def)
  show ?thesis
  proof (cases "i \<ge> 0")
    case True
    then have "nat i < 2 ^ 53" using safe by (simp add: nat_less_iff)
    from reads_readArgument [OF this, of 0] obtain ai tl where
      arg: "arg_bytes 0 (nat i) = word_of_nat (32 * 0 + ai) # tl" "ai < 28" "reads (readArgument ai) tl (nat i)" .
    have "reads (item_body opts d 0 ai) tl (JNum (Integral (int (nat i))))"
      using reads_map [OF arg(3), of "\<lambda>n. JNum (Integral (int n))"] by (simp add: item_body_def [abs_def])
    then show ?thesis using reads_item [OF assms(1), of 0 ai tl] arg True Integral by simp
  next
    case False
    then have "nat (- 1 - i) < 2 ^ 53" using safe by (simp add: nat_less_iff)
    from reads_readArgument [OF this, of 1] obtain ai tl where
      arg: "arg_bytes 1 (nat (- 1 - i)) = word_of_nat (32 * 1 + ai) # tl" "ai < 28"
        "reads (readArgument ai) tl (nat (- 1 - i))" .
    let ?g = "\<lambda>n r. let v = Integral (- 1 - int n) in if \<not> is_safe_integer v
        then Inl (CborError ''Decoded CBOR integer is outside the safe range'') else Inr (JNum v, r)"
    have "reads (?g (nat (- 1 - i))) [] (JNum (Integral i))"
      using False safe by (simp add: reads_pure max_safe_integer_def)
    from reads_bind [where g = ?g, OF arg(3) this]
    have "reads (item_body opts d 1 ai) tl (JNum (Integral i))" by (simp add: item_body_def [abs_def])
    then show ?thesis using reads_item [OF assms(1), of 1 ai tl] arg False Integral by simp
  qed
next
  case (Fractional b)
  let ?g = "\<lambda>bytes r. let v = num_of_bits (word_of_nat (be_nat bytes)) in
        if \<not> is_finite_num v then Inl (CborError ''Decoded CBOR number must be finite'')
        else if is_integer_num v \<and> \<not> is_safe_integer v
        then Inl (CborError ''Decoded CBOR integer is outside the safe range'')
        else Inr (JNum v, r)"
  have "be_nat (be_bytes 8 (unat b)) = unat b"
    using unsigned_less [of b, where ?'a = nat] by (simp add: be_nat_bytes)
  then have "reads (?g (be_bytes 8 (unat b))) [] (JNum n)"
    using assms Fractional by (simp add: reads_pure)
  from reads_bind [where g = ?g, OF reads_fixed this]
  have "reads (item_body opts d 7 27) (be_bytes 8 (unat b)) (JNum n)"
    by (simp add: item_body_def [abs_def] readSimple_def [abs_def])
  then show ?thesis using reads_item [OF assms(1), of 7 27] Fractional by simp
qed

lemma reads_text:
  assumes "options_ok opts" "d \<le> maxDepth opts" "text_ok opts s"
  shows "reads (readItem opts d) (text_bytes s) (JStr s)"
proof -
  let ?bs = "utf8_encode s"
  let ?g = "\<lambda>n r. bindE (readBytes n r) (\<lambda>(bytes, r). case utf8_decode bytes of
      None \<Rightarrow> Inl (CborError ''CBOR text string contains invalid UTF-8'') | Some s \<Rightarrow> Inr (JStr s, r))"
  have "reads (?g (length ?bs)) (?bs @ []) (JStr s)"
    using assms(3) by (intro reads_bind [OF reads_readBytes]) (simp add: reads_pure text_ok_def utf8_decode_encode_eq [THEN iffD2])
  then show ?thesis
    using assms unfolding text_bytes_def text_ok_def options_ok_def MAX_UINT32_def
    by (intro reads_sized [where g = ?g and limit = "maxByteLength opts" and kind = "''text string''"])
      (auto simp: item_body_def)
qed

lemma reads_blob:
  assumes "options_ok opts" "d \<le> maxDepth opts" "length bs \<le> maxByteLength opts"
  shows "reads (readItem opts d) (arg_bytes 2 (length bs) @ bs) (JBytes bs)"
proof -
  let ?g = "\<lambda>n r. bindE (readBytes n r) (\<lambda>(bytes, r). Inr (JBytes bytes, r))"
  have "reads (?g (length bs)) bs (JBytes bs)" by (rule reads_map [OF reads_readBytes])
  then show ?thesis
    using assms unfolding options_ok_def MAX_UINT32_def
    by (intro reads_sized [where g = ?g and limit = "maxByteLength opts" and kind = "''byte string''"])
      (auto simp: item_body_def)
qed


lemma defined_entries_simps [simp]:
  "defined_entries [] = []"
  "defined_entries ((k, v) # ps) = (if is_undefined v then defined_entries ps else (k, v) # defined_entries ps)"
  by (simp_all add: defined_entries_def)

lemma fst_normal_props: "map fst (normal_props ps) = map fst (defined_entries ps)"
  by (induction ps) auto

lemma normal_props_ordered: "props_ordered ps \<Longrightarrow> props_ordered (normal_props ps)"
  using props_ordered_filter [of ps "\<lambda>p. \<not> is_undefined (snd p)"]
  by (simp add: props_ordered_def fst_normal_props defined_entries_def)

lemma reads_cbor_bytes:
  "options_ok opts \<Longrightarrow> admissible opts d v \<Longrightarrow> wf_val v \<Longrightarrow>
     reads (readItem opts d) (cbor_bytes v) (normal v)"
  "options_ok opts \<Longrightarrow> elements_ok opts d vs \<Longrightarrow> wf_slots vs \<Longrightarrow>
     reads (readArray opts d (length vs) accs) (elements_bytes vs) (JArr (accs @ normal_slots vs))"
  "options_ok opts \<Longrightarrow> entries_ok opts d ps \<Longrightarrow> wf_props ps \<Longrightarrow>
     props_ordered (acc @ normal_props ps) \<Longrightarrow>
     reads (readMap opts d (length (defined_entries ps)) (map fst acc) acc) (entries_bytes ps)
       (JObj ProtoObject False (acc @ normal_props ps))"
proof (induction opts d v and opts d vs and opts d ps arbitrary: and accs and acc
    rule: admissible_elements_ok_entries_ok.induct)
  case (1 opts d v)
  then have d: "d \<le> maxDepth opts" by (simp add: admissible.simps)
  show ?case
  proof (cases v)
    case JNull
    have "reads (item_body opts d 7 22) [] JNull"
      by (simp add: item_body_def [abs_def] readSimple_def reads_pure)
    from reads_item [OF d _ _ this] JNull show ?thesis by simp
  next
    case (JBool b)
    have "reads (item_body opts d 7 (if b then 21 else 20)) [] (JBool b)"
      by (auto simp add: item_body_def [abs_def] readSimple_def reads_pure)
    from reads_item [OF d _ _ this] JBool show ?thesis by (cases b) simp_all
  next
    case (JNum n)
    then show ?thesis using 1 d by (simp add: admissible.simps reads_number)
  next
    case (JStr s)
    then show ?thesis using 1 d by (simp add: admissible.simps reads_text)
  next
    case (JBytes bs)
    then show ?thesis using 1 d by (simp add: admissible.simps reads_blob)
  next
    case (JArr vs)
    have "reads (readArray opts (d + 1) (length vs) []) (elements_bytes vs) (JArr ([] @ normal_slots vs))"
      using 1 JArr by (intro "1.IH"(1)) (auto simp: admissible.simps)
    then show ?thesis
      using 1 JArr d unfolding options_ok_def MAX_UINT32_def
      by (auto simp: item_body_def admissible.simps
          intro!: reads_sized [where g = "\<lambda>n r. readArray opts (d + 1) n [] r"
            and limit = "maxContainerLength opts" and kind = "''array''"])
  next
    case (JObj p sy ps)
    have "reads (readMap opts (d + 1) (length (defined_entries ps)) (map fst ([] :: props)) []) (entries_bytes ps)
        (JObj ProtoObject False ([] @ normal_props ps))"
      using 1 JObj by (intro "1.IH"(2)) (auto simp: admissible.simps normal_props_ordered)
    then show ?thesis
      using 1 JObj d unfolding options_ok_def MAX_UINT32_def
      by (auto simp: item_body_def admissible.simps
          intro!: reads_sized [where g = "\<lambda>n r. readMap opts (d + 1) n [] [] r"
            and limit = "maxContainerLength opts" and kind = "''map''"])
  qed (use 1 in \<open>auto simp: admissible.simps\<close>)
next
  case (2 opts d)
  then show ?case by (simp add: reads_pure)
next
  case (3 opts d slot slots)
  then obtain v where v: "slot = Some v" "admissible opts d v" by (auto split: option.splits)
  let ?g = "\<lambda>v r. readArray opts d (length slots) (accs @ [Some v]) r"
  have "reads (?g (normal v)) (elements_bytes slots) (JArr (accs @ normal_slots (slot # slots)))"
    using 3(2) [where accs = "accs @ [Some (normal v)]"] 3(3-5) v by simp
  moreover have "reads (readItem opts d) (cbor_bytes v) (normal v)" using 3 v by simp
  ultimately show ?case
    using reads_bind [where g = ?g] v by simp
next
  case (4 opts d)
  then show ?case by (simp add: reads_pure)
next
  case (5 opts d k v ps)
  show ?case
  proof (cases "is_undefined v")
    case True
    with 5 show ?thesis by simp
  next
    case False
    let ?n = "length (defined_entries ps)" and ?acc = "acc @ [(k, normal v)]"
    let ?h = "\<lambda>v r. readMap opts d ?n (map fst acc @ [k]) (define_property k v acc) r"
    let ?g = "\<lambda>key r. case key of JStr k \<Rightarrow>
         if k \<in> set (map fst acc) then Inl (CborError ''CBOR map contains a duplicate key'')
         else bindE (readItem opts d r) (\<lambda>(v, r).
              readMap opts d ?n (map fst acc @ [k]) (define_property k v acc) r)
     | _ \<Rightarrow> Inl (CborError ''CBOR map keys must be strings'')"
    have ok: "text_ok opts k" "admissible opts d v" "entries_ok opts d ps" using 5 False by auto
    have ord: "props_ordered (?acc @ normal_props ps)" using 5 False by simp
    then have def: "define_property k (normal v) acc = ?acc" and new: "k \<notin> set (map fst acc)"
      using define_property_last [of acc k "normal v"] props_ordered_appendD [of ?acc]
      by (auto simp: props_ordered_def)
    have "reads (?h (normal v)) (entries_bytes ps) (JObj ProtoObject False (acc @ normal_props ((k, v) # ps)))"
      using 5(2) [where acc = ?acc] 5 ok ord def False by simp
    moreover have "reads (readItem opts d) (cbor_bytes v) (normal v)" using 5 ok False by simp
    ultimately have "reads (?g (JStr k)) (cbor_bytes v @ entries_bytes ps)
        (JObj ProtoObject False (acc @ normal_props ((k, v) # ps)))"
      using reads_bind [where g = ?h] new by simp
    moreover have "reads (readItem opts d) (text_bytes k) (JStr k)"
      using 5 ok by (intro reads_text) (auto simp: admissible.simps)
    ultimately show ?thesis
      using reads_bind [where g = ?g] False by simp
  qed
qed

lemma decode_encode:
  assumes "wf_val v" "encodeCbor v options = Inr bs"
  shows "decodeCbor (JBytes bs) options = Inr (normal v)"
proof -
  from assms(2) obtain opts where opts: "resolveOptions options = Inr opts"
    by (auto simp: encodeCbor_def bindE_eq_Inr)
  with assms(2) have *: "admissible opts 0 v" "length (cbor_bytes v) \<le> maxByteLength opts" "bs = cbor_bytes v"
    by (simp_all add: encodeCbor_resolved)
  from reads_cbor_bytes(1) [OF resolveOptions_ok [OF opts] *(1) assms(1)]
  have "readItem opts 0 \<lparr>rbytes = bs, roffset = 0\<rparr> = Inr (normal v, \<lparr>rbytes = bs, roffset = length bs\<rparr>)"
    using readsD [where pre = "[]" and post = "[]"] *(3) by fastforce
  then show ?thesis using opts * by (simp add: decode_def)
qed


section \<open>Decoded values are sound\<close>

text \<open>
  Every value the decoder returns is one the encoder accepts and reproduces: well-formed,
  within the limits, in normal form, and its canonical encoding is no longer than the bytes
  it was read from.
\<close>

definition sound :: "resolved_options \<Rightarrow> nat \<Rightarrow> jsval \<Rightarrow> bool" where
  "sound opts d v \<longleftrightarrow> wf_val v \<and> normal v = v \<and> admissible opts d v"

definition advances :: "cbor_reader \<Rightarrow> cbor_reader \<Rightarrow> nat \<Rightarrow> bool" where
  "advances r r' k \<longleftrightarrow>
     rbytes r' = rbytes r \<and> roffset r + k \<le> roffset r' \<and> roffset r' \<le> length (rbytes r)"

lemma advances_trans: "advances r r' j \<Longrightarrow> advances r' r'' k \<Longrightarrow> advances r r'' (j + k)"
  by (auto simp: advances_def)

lemma advances_weaken: "advances r r' j \<Longrightarrow> k \<le> j \<Longrightarrow> advances r r' k"
  by (auto simp: advances_def)

lemma elements_ok_iff:
  "elements_ok opts d slots \<longleftrightarrow> (\<forall>s \<in> set slots. \<exists>v. s = Some v \<and> admissible opts d v)"
  by (induction slots) (auto split: option.splits)

lemma wf_slots_iff: "wf_slots slots \<longleftrightarrow> (\<forall>v. Some v \<in> set slots \<longrightarrow> wf_val v)"
  by (induction slots) (auto split: option.splits)

lemma normal_slots_map: "normal_slots slots = map (map_option normal) slots"
  by (induction slots) auto

lemma wf_props_iff: "wf_props ps \<longleftrightarrow> (\<forall>p \<in> set ps. wf_val (snd p))"
  by (induction ps) auto

lemma entries_ok_iff:
  "entries_ok opts d ps \<longleftrightarrow>
     (\<forall>p \<in> set ps. is_undefined (snd p) \<or> text_ok opts (fst p) \<and> admissible opts d (snd p))"
  by (induction ps) auto

lemma normal_props_id:
  "\<forall>p \<in> set ps. \<not> is_undefined (snd p) \<and> normal (snd p) = snd p \<Longrightarrow> normal_props ps = ps"
  by (induction ps) auto

lemma defined_entries_id: "\<forall>p \<in> set ps. \<not> is_undefined (snd p) \<Longrightarrow> defined_entries ps = ps"
  by (induction ps) auto

lemma length_entries_bytes:
  "\<forall>p \<in> set ps. \<not> is_undefined (snd p) \<Longrightarrow>
   length (entries_bytes ps) =
     sum_list (map (\<lambda>p. length (text_bytes (fst p)) + length (cbor_bytes (snd p))) ps)"
  by (induction ps) auto

lemma length_elements_bytes:
  "length (elements_bytes (map Some vs)) = sum_list (map (\<lambda>v. length (cbor_bytes v)) vs)"
  by (induction vs) auto

lemma sum_list_insert_index_prop:
  "sum_list (map f (insert_index_prop i kv ps)) = f kv + (sum_list (map f ps) :: nat)"
  by (induction ps) (auto split: option.splits)

lemma define_property_new:
  assumes "k \<notin> fst ` set ps"
  shows "set (define_property k v ps) = insert (k, v) (set ps)"
    "length (define_property k v ps) = Suc (length ps)"
    "sum_list (map f (define_property k v ps)) = f (k, v) + (sum_list (map f ps) :: nat)"
proof -
  have none: "map_of ps k = None" using assms by (simp add: map_of_eq_None_iff)
  have len: "length (insert_index_prop i kv qs) = Suc (length qs)" for i kv and qs :: props
    by (induction qs) (auto split: option.splits)
  show "set (define_property k v ps) = insert (k, v) (set ps)"
    "length (define_property k v ps) = Suc (length ps)"
    "sum_list (map f (define_property k v ps)) = f (k, v) + (sum_list (map f ps) :: nat)"
    using none
    by (auto simp: define_property_def set_insert_index_prop sum_list_insert_index_prop len
        split: option.splits)
qed

lemma readByte_advances:
  "readByte r = Inr (b, r') \<Longrightarrow> advances r r' 1 \<and> b < 256"
  by (auto simp: readByte_def advances_def split: if_splits)

lemma readBytes_advances:
  assumes "readBytes n r = Inr (bs, r')" "roffset r \<le> length (rbytes r)"
  shows "advances r r' n" "length bs = n"
  using assms by (auto simp: readBytes_def advances_def split: if_splits)

lemma readUint32_advances:
  assumes "readUint32 r = Inr (n, r')" "roffset r \<le> length (rbytes r)"
  shows "advances r r' 4" "n < 2 ^ 32"
proof -
  from assms(1) obtain bs where bs: "readBytes 4 r = Inr (bs, r')"
    "n = unat (bs ! 0) * 0x1000000 + unat (bs ! 1) * 0x10000 + unat (bs ! 2) * 0x100 + unat (bs ! 3)"
    by (auto simp: readUint32_def bindE_eq_Inr)
  show "advances r r' 4" using readBytes_advances [OF bs(1) assms(2)] by simp
  have "unat b \<le> 255" for b :: byte using unat_byte_less [of b] by linarith
  from this [of "bs ! 0"] this [of "bs ! 1"] this [of "bs ! 2"] this [of "bs ! 3"]
  show "n < 2 ^ 32" unfolding bs(2) by simp
qed

lemma length_arg_bytes:
  "length (arg_bytes m v) =
     (if v < 24 then 1 else if v \<le> 0xff then 2 else if v \<le> 0xffff then 3
      else if v \<le> MAX_UINT32 then 5 else 9)"
  by (simp add: arg_bytes_def)

lemma readArgument_advances:
  assumes "readArgument ai r = Inr (n, r')" "roffset r \<le> length (rbytes r)" "1 \<le> roffset r"
  shows "advances (r\<lparr>roffset := roffset r - 1\<rparr>) r' (length (arg_bytes m n))" "n < 2 ^ 53"
proof -
  let ?R = "\<lambda>k. advances (r\<lparr>roffset := roffset r - 1\<rparr>) r' (length (arg_bytes m n)) \<and> n < 2 ^ 53"
  have step: "?R k" if "advances r r' k" "length (arg_bytes m n) \<le> Suc k" "n < 2 ^ 53" for k
    using that assms(3) by (auto simp: advances_def)
  consider (a) "ai < 24" | (b) "ai = 24" | (c) "ai = 25" | (d) "ai = 26" | (e) "ai = 27" | (f) "27 < ai"
    by linarith
  then have "\<exists>k :: nat. ?R k"
  proof cases
    case a
    then show ?thesis using assms step [of 0] by (auto simp: readArgument_def advances_def length_arg_bytes)
  next
    case b
    then have "advances r r' 1 \<and> n < 256" using assms readByte_advances by (simp add: readArgument_def)
    then show ?thesis using step [of 1] by (auto simp: length_arg_bytes)
  next
    case c
    then obtain bs where bs: "readBytes 2 r = Inr (bs, r')" "n = unat (bs ! 0) * 0x100 + unat (bs ! 1)"
      using assms(1) by (auto simp: readArgument_def bindE_eq_Inr)
    have "n \<le> 0xffff"
      using unat_byte_less [of "bs ! 0"] unat_byte_less [of "bs ! 1"] unfolding bs(2) by linarith
    then show ?thesis
      using step [of 2] readBytes_advances [OF bs(1) assms(2)] by (auto simp: length_arg_bytes)
  next
    case d
    then have "advances r r' 4" "n < 2 ^ 32"
      using assms readUint32_advances by (simp_all add: readArgument_def)
    then show ?thesis using step [of 4] by (auto simp: length_arg_bytes MAX_UINT32_def)
  next
    case e
    then obtain h l r1 where r1: "readUint32 r = Inr (h, r1)" "readUint32 r1 = Inr (l, r')"
      "h \<le> 0x1fffff" "n = h * UINT32_BASE + l"
      using assms(1) by (auto simp: readArgument_def bindE_eq_Inr split: if_splits)
    have s1: "advances r r1 4" using readUint32_advances(1) [OF r1(1) assms(2)] .
    then have "roffset r1 \<le> length (rbytes r1)" by (simp add: advances_def)
    note s2 = readUint32_advances [OF r1(2) this]
    have "n < 2 ^ 53" using r1(3,4) s2(2) by (simp add: UINT32_BASE_def)
    then show ?thesis
      using step [of 8] advances_trans [OF s1 s2(1)] by (auto simp: length_arg_bytes)
  next
    case f
    then show ?thesis using assms(1) by (auto simp: readArgument_def split: if_splits)
  qed
  then show "advances (r\<lparr>roffset := roffset r - 1\<rparr>) r' (length (arg_bytes m n))" "n < 2 ^ 53" by auto
qed


definition item_sound :: "resolved_options \<Rightarrow> nat \<Rightarrow> bool" where
  "item_sound opts d \<longleftrightarrow>
     (\<forall>r v r'. readItem opts d r = Inr (v, r') \<longrightarrow> roffset r \<le> length (rbytes r) \<longrightarrow>
        sound opts d v \<and> advances r r' (length (cbor_bytes v)))"

definition good_props :: "resolved_options \<Rightarrow> nat \<Rightarrow> props \<Rightarrow> bool" where
  "good_props opts d ps \<longleftrightarrow>
     props_ordered ps \<and> (\<forall>p \<in> set ps. text_ok opts (fst p) \<and> sound opts d (snd p))"

lemma sound_defined: "sound opts d v \<Longrightarrow> \<not> is_undefined v"
  unfolding sound_def by (blast dest: admissible_defined)

lemma item_soundD:
  assumes "item_sound opts d" "readItem opts d r = Inr (v, r')" "roffset r \<le> length (rbytes r)"
  shows "sound opts d v" "advances r r' (length (cbor_bytes v))" "roffset r' \<le> length (rbytes r')"
proof -
  have *: "sound opts d v \<and> advances r r' (length (cbor_bytes v))"
    using assms unfolding item_sound_def by blast
  then show "sound opts d v" "advances r r' (length (cbor_bytes v))" by blast+
  from * show "roffset r' \<le> length (rbytes r')" by (simp add: advances_def)
qed

lemma readArray_sound:
  assumes "item_sound opts d" "readArray opts d n acc r = Inr (v, r')" "roffset r \<le> length (rbytes r)"
  obtains vs where "v = JArr (acc @ map Some vs)" "length vs = n" "\<forall>x \<in> set vs. sound opts d x"
    "advances r r' (length (elements_bytes (map Some vs)))"
  using assms(2,3)
proof (induction n arbitrary: acc r thesis)
  case 0
  then show ?case by (intro "0.prems"(1) [of "[]"]) (auto simp: advances_def)
next
  case (Suc n)
  from Suc.prems(2) obtain x r1 where x: "readItem opts d r = Inr (x, r1)"
    "readArray opts d n (acc @ [Some x]) r1 = Inr (v, r')"
    by (auto simp: bindE_eq_Inr)
  note sx = item_soundD [OF assms(1) x(1) Suc.prems(3)]
  obtain vs where vs: "v = JArr ((acc @ [Some x]) @ map Some vs)" "length vs = n"
    "\<forall>x \<in> set vs. sound opts d x" "advances r1 r' (length (elements_bytes (map Some vs)))"
    by (rule Suc.IH [OF _ x(2) sx(3)])
  show ?case
    using vs sx advances_trans [OF sx(2) vs(4)] by (intro Suc.prems(1) [of "x # vs"]) auto
qed

lemma good_props_define:
  assumes "good_props opts d ps" "k \<notin> fst ` set ps" "text_ok opts k" "sound opts d v"
  shows "good_props opts d (define_property k v ps)"
    "length (entries_bytes (define_property k v ps)) =
       length (text_bytes k) + length (cbor_bytes v) + length (entries_bytes ps)"
proof -
  show good: "good_props opts d (define_property k v ps)"
    using assms by (auto simp: good_props_def props_ordered_define define_property_new(1))
  show "length (entries_bytes (define_property k v ps)) =
       length (text_bytes k) + length (cbor_bytes v) + length (entries_bytes ps)"
    using assms good sound_defined
    by (subst (1 2) length_entries_bytes) (auto simp: good_props_def define_property_new(3))
qed

lemma readMap_sound:
  assumes "item_sound opts d" "readMap opts d n keys acc r = Inr (v, r')" "roffset r \<le> length (rbytes r)"
    "set keys = fst ` set acc" "good_props opts d acc"
  obtains ps where "v = JObj ProtoObject False ps" "length ps = length acc + n" "good_props opts d ps"
    "advances r r' (length (entries_bytes ps) - length (entries_bytes acc))"
    "length (entries_bytes acc) \<le> length (entries_bytes ps)"
  using assms(2-5)
proof (induction n arbitrary: keys acc r thesis)
  case 0
  then show ?case by (intro "0.prems"(1) [of acc]) (auto simp: advances_def)
next
  case (Suc n)
  obtain key r1 where key: "readItem opts d r = Inr (key, r1)"
    using Suc.prems(2) by (cases "readItem opts d r") auto
  have "\<exists>k. key = JStr k \<and> k \<notin> set keys"
    using Suc.prems(2) key by (cases key) (simp_all split: if_splits)
  then obtain k where k: "key = JStr k" "k \<notin> set keys" by blast
  with Suc.prems(2) key obtain x r2 where x: "readItem opts d r1 = Inr (x, r2)"
    and m: "readMap opts d n (keys @ [k]) (define_property k x acc) r2 = Inr (v, r')"
    by (auto simp: bindE_eq_Inr)
  note sk = item_soundD [OF assms(1) key Suc.prems(3)]
  note sx = item_soundD [OF assms(1) x sk(3)]
  have new: "k \<notin> fst ` set acc" using k(2) Suc.prems(4) by simp
  have "text_ok opts k" using sk(1) k(1) by (simp add: sound_def admissible.simps)
  note acc' = good_props_define [OF Suc.prems(5) new this sx(1)]
  have keys: "set (keys @ [k]) = fst ` set (define_property k x acc)"
    using Suc.prems(4) new by (auto simp: define_property_new(1))
  obtain ps where ps: "v = JObj ProtoObject False ps" "length ps = length (define_property k x acc) + n"
    "good_props opts d ps"
    "advances r2 r' (length (entries_bytes ps) - length (entries_bytes (define_property k x acc)))"
    "length (entries_bytes (define_property k x acc)) \<le> length (entries_bytes ps)"
    by (rule Suc.IH [OF _ m sx(3) keys acc'(1)])
  have adv: "advances r r' (length (text_bytes k) + length (cbor_bytes x) +
      (length (entries_bytes ps) - length (entries_bytes (define_property k x acc))))"
    using advances_trans [OF advances_trans [OF sk(2) sx(2)] ps(4)] k(1) by simp
  show ?case
    using ps new adv by (intro Suc.prems(1) [of ps])
      (auto simp: define_property_new acc'(2) intro: advances_weaken)
qed

lemma good_props_facts:
  assumes "good_props opts d ps"
  shows "normal_props ps = ps" "defined_entries ps = ps" "wf_props ps" "entries_ok opts d ps" "props_ordered ps"
proof -
  have "\<forall>p \<in> set ps. \<not> is_undefined (snd p) \<and> normal (snd p) = snd p"
    using assms sound_defined by (fastforce simp: good_props_def sound_def)
  then show "normal_props ps = ps" "defined_entries ps = ps"
    by (simp_all add: normal_props_id defined_entries_id)
  show "wf_props ps" "entries_ok opts d ps" "props_ordered ps"
    using assms by (auto simp: good_props_def sound_def wf_props_iff entries_ok_iff)
qed


lemma readLength_Inr:
  "readLength ai kind limit r = Inr (n, r') \<Longrightarrow> readArgument ai r = Inr (n, r') \<and> n \<le> limit"
  by (auto simp: readLength_def bindE_eq_Inr split: if_splits)

text \<open>
  The body of an item, entered with the offset behind its initial byte: \<open>entered r\<close> is the
  reader before that byte was read.
\<close>

definition entered :: "cbor_reader \<Rightarrow> cbor_reader" where
  "entered r = r\<lparr>roffset := roffset r - 1\<rparr>"

definition in_item :: "cbor_reader \<Rightarrow> bool" where
  "in_item r \<longleftrightarrow> 1 \<le> roffset r \<and> roffset r \<le> length (rbytes r)"

lemma argument_advances:
  assumes "readArgument ai r = Inr (n, r')" "in_item r"
  shows "advances (entered r) r' (length (arg_bytes m n))" "n < 2 ^ 53" "roffset r' \<le> length (rbytes r')"
proof -
  have r: "1 \<le> roffset r" "roffset r \<le> length (rbytes r)" using assms(2) by (simp_all add: in_item_def)
  show "advances (entered r) r' (length (arg_bytes m n))"
    unfolding entered_def by (rule readArgument_advances(1) [OF assms(1) r(2,1)])
  then show "roffset r' \<le> length (rbytes r')" by (simp add: advances_def entered_def)
  show "n < 2 ^ 53" by (rule readArgument_advances(2) [OF assms(1) r(2,1)])
qed

lemma length_advances:
  assumes "readLength ai kind limit r = Inr (n, r')" "in_item r"
  shows "advances (entered r) r' (length (arg_bytes m n))" "n \<le> limit" "roffset r' \<le> length (rbytes r')"
  using readLength_Inr [OF assms(1)] argument_advances [OF _ assms(2)] by blast+

lemma item_numbers_sound:
  assumes "item_body opts d m ai r = Inr (v, r')" "d \<le> maxDepth opts" "in_item r" "m = 0 \<or> m = 1"
  shows "sound opts d v \<and> advances (entered r) r' (length (cbor_bytes v))"
proof (cases "m = 0")
  case True
  with assms(1) obtain n where n: "readArgument ai r = Inr (n, r')" "v = JNum (Integral (int n))"
    by (auto simp: item_body_def bindE_eq_Inr)
  then show ?thesis
    using argument_advances [OF n(1) assms(3)] assms(2)
    by (auto simp: sound_def admissible.simps max_safe_integer_def)
next
  case False
  with assms(1,4) obtain n where n: "readArgument ai r = Inr (n, r')" "v = JNum (Integral (- 1 - int n))"
    "is_safe_integer (Integral (- 1 - int n))"
    by (auto simp: item_body_def bindE_eq_Inr Let_def split: if_splits)
  then show ?thesis
    using argument_advances [OF n(1) assms(3)] assms(2) by (auto simp: sound_def admissible.simps)
qed

lemma item_strings_sound:
  assumes "item_body opts d m ai r = Inr (v, r')" "d \<le> maxDepth opts" "in_item r" "m = 2 \<or> m = 3"
  shows "sound opts d v \<and> advances (entered r) r' (length (cbor_bytes v))"
proof -
  let ?kind = "if m = 2 then ''byte string'' else ''text string''"
  from assms(1,4) obtain n r1 bs where n: "readLength ai ?kind (maxByteLength opts) r = Inr (n, r1)"
    and bs: "readBytes n r1 = Inr (bs, r')"
    by (auto simp: item_body_def bindE_eq_Inr split: option.splits)
  note l = length_advances [OF n assms(3)]
  have adv: "advances (entered r) r' (length (arg_bytes m n) + n)" "length bs = n"
    using advances_trans [OF l(1) readBytes_advances(1) [OF bs l(3)]] readBytes_advances(2) [OF bs l(3)]
    by auto
  from assms(1,4) n bs consider "m = 2" "v = JBytes bs" | s where "m = 3" "utf8_decode bs = Some s" "v = JStr s"
    by (auto simp: item_body_def bindE_eq_Inr split: option.splits)
  then show ?thesis
  proof cases
    case 1
    then show ?thesis using adv l(2) assms(2) by (auto simp: sound_def admissible.simps)
  next
    case 2
    then show ?thesis
      using adv l(2) assms(2) utf8_encode_decode [OF 2(2)] utf8_decode_well_formed [OF 2(2)]
      by (auto simp: sound_def admissible.simps text_ok_def text_bytes_def)
  qed
qed

lemma item_array_sound:
  assumes "item_body opts d 4 ai r = Inr (v, r')" "d \<le> maxDepth opts" "in_item r" "item_sound opts (d + 1)"
  shows "sound opts d v \<and> advances (entered r) r' (length (cbor_bytes v))"
proof -
  from assms(1) obtain n r1 where n: "readLength ai ''array'' (maxContainerLength opts) r = Inr (n, r1)"
    "readArray opts (d + 1) n [] r1 = Inr (v, r')"
    by (auto simp: item_body_def bindE_eq_Inr)
  note l = length_advances [OF n(1) assms(3)]
  obtain vs where vs: "v = JArr ([] @ map Some vs)" "length vs = n" "\<forall>x \<in> set vs. sound opts (d + 1) x"
    "advances r1 r' (length (elements_bytes (map Some vs)))"
    by (rule readArray_sound [OF assms(4) n(2) l(3)])
  have "normal_slots (map Some vs) = map Some vs"
    using vs(3) by (auto simp: normal_slots_map sound_def intro: map_idI)
  with vs l(2) assms(2) advances_trans [OF l(1) vs(4), of 4] show ?thesis
    by (auto simp: sound_def admissible.simps elements_ok_iff wf_slots_iff)
qed

lemma item_map_sound:
  assumes "item_body opts d 5 ai r = Inr (v, r')" "d \<le> maxDepth opts" "in_item r" "item_sound opts (d + 1)"
  shows "sound opts d v \<and> advances (entered r) r' (length (cbor_bytes v))"
proof -
  from assms(1) obtain n r1 where n: "readLength ai ''map'' (maxContainerLength opts) r = Inr (n, r1)"
    "readMap opts (d + 1) n [] [] r1 = Inr (v, r')"
    by (auto simp: item_body_def bindE_eq_Inr)
  note l = length_advances [OF n(1) assms(3)]
  have nil: "set [] = fst ` set ([] :: props)" "good_props opts (d + 1) []"
    by (simp_all add: good_props_def props_ordered_def)
  obtain ps where ps: "v = JObj ProtoObject False ps" "length ps = length ([] :: props) + n"
    "good_props opts (d + 1) ps" "advances r1 r' (length (entries_bytes ps) - length (entries_bytes []))"
    by (rule readMap_sound [OF assms(4) n(2) l(3) nil])
  with l(2) assms(2) advances_trans [OF l(1) ps(4), of 5] good_props_facts [OF ps(3)] show ?thesis
    by (auto simp: sound_def admissible.simps)
qed

lemma length_num_bytes: "length (num_bytes n) \<le> 9"
  by (cases n) (auto simp: length_arg_bytes)

lemma item_simple_sound:
  assumes "item_body opts d 7 ai r = Inr (v, r')" "d \<le> maxDepth opts" "in_item r"
  shows "sound opts d v \<and> advances (entered r) r' (length (cbor_bytes v))"
proof -
  have body: "readSimple ai r = Inr (v, r')" using assms(1) by (simp add: item_body_def)
  have here: "advances (entered r) r 1" using assms(3) by (auto simp: advances_def entered_def in_item_def)
  show ?thesis
  proof (cases "ai = 27")
    case True
    with body obtain bs where bs: "readBytes 8 r = Inr (bs, r')"
      "v = JNum (num_of_bits (word_of_nat (be_nat bs)))" and
      fin: "is_finite_num (num_of_bits (word_of_nat (be_nat bs)))"
        "is_integer_num (num_of_bits (word_of_nat (be_nat bs))) \<Longrightarrow>
           is_safe_integer (num_of_bits (word_of_nat (be_nat bs)))"
      by (auto simp: readSimple_def bindE_eq_Inr Let_def split: if_splits)
    have "num_ok (num_of_bits (word_of_nat (be_nat bs)))"
      using fin by (cases "num_of_bits (word_of_nat (be_nat bs) :: 64 word)") auto
    moreover have "advances (entered r) r' (length (cbor_bytes v))"
      using advances_trans [OF here readBytes_advances(1) [OF bs(1)]] assms(3) bs(2) length_num_bytes
      by (auto simp: in_item_def intro: advances_weaken)
    ultimately show ?thesis
      using bs(2) assms(2) num_of_bits_wf by (auto simp: sound_def admissible.simps)
  next
    case False
    with body here assms(2) show ?thesis
      by (auto simp: readSimple_def sound_def admissible.simps split: if_splits)
  qed
qed

lemma item_body_sound:
  assumes "item_body opts d m ai r = Inr (v, r')" "d \<le> maxDepth opts" "in_item r" "item_sound opts (d + 1)"
  shows "sound opts d v \<and> advances (entered r) r' (length (cbor_bytes v))"
proof -
  have "m = 0 \<or> m = 1 \<or> m = 2 \<or> m = 3 \<or> m = 4 \<or> m = 5 \<or> m = 7"
    using assms(1) by (auto simp: item_body_def split: if_splits)
  then show ?thesis
    using item_numbers_sound [OF assms(1-3)] item_strings_sound [OF assms(1-3)]
      item_array_sound [OF _ assms(2-4)] item_map_sound [OF _ assms(2-4)]
      item_simple_sound [OF _ assms(2,3)] assms(1) by blast
qed

lemma readItem_sound: "item_sound opts d"
proof (induction "maxDepth opts + 1 - d" arbitrary: d rule: less_induct)
  case less
  show ?case
    unfolding item_sound_def
  proof (intro allI impI)
    fix r v r' assume read: "readItem opts d r = Inr (v, r')" and r: "roffset r \<le> length (rbytes r)"
    then have d: "d \<le> maxDepth opts" by (auto simp: readItem_body split: if_splits)
    with read obtain b r1 where b: "readByte r = Inr (b, r1)"
      "item_body opts d (b div 32) (b mod 32) r1 = Inr (v, r')"
      by (auto simp: readItem_body bindE_eq_Inr)
    have "in_item r1" "entered r1 = r"
      using b(1) by (auto simp: readByte_def in_item_def entered_def split: if_splits)
    with item_body_sound [OF b(2) d] less [of "d + 1"] d
    show "sound opts d v \<and> advances r r' (length (cbor_bytes v))" by auto
  qed
qed


section \<open>Properties\<close>

text \<open>
  C3: \<open>encodeCbor\<close> returns bytes exactly when the options are valid, the value is admissible under
  them (depth, container and string lengths, safe integers, finite numbers, well-formed text, no
  holes, cycles, symbols or unsupported types) and its encoding fits the byte limit; the bytes are
  then the RFC 8949 reference encoding, whatever the growth of the output buffer.
\<close>

theorem encodeCbor_characterised:
  "encodeCbor v options = Inr bs \<longleftrightarrow>
     (\<exists>opts. resolveOptions options = Inr opts \<and> admissible opts 0 v \<and>
        length (cbor_bytes v) \<le> maxByteLength opts \<and> bs = cbor_bytes v)"
proof (cases "resolveOptions options")
  case (Inl e)
  then show ?thesis by (simp add: encodeCbor_def)
next
  case (Inr opts)
  then show ?thesis by (simp add: encodeCbor_resolved)
qed

text \<open>
  C2: decoding what the encoder produced, under the same options, gives the value back in normal
  form (undefined properties dropped).
\<close>

theorem cbor_round_trip:
  assumes "wf_val v" "encodeCbor v options = Inr bs"
  shows "decodeCbor (JBytes bs) options = Inr (normal v)"
  using assms by (rule decode_encode)

definition sample_value :: jsval where
  "sample_value = JObj ProtoNull False
     [([97], JArr [Some (JNum (Integral 1)), Some (JNum (Integral (- 500))), Some JNull]),
      ([98], JUndefined), ([99], JStr [0xD83D, 0xDE00])]"

definition sample_options :: "cbor_options option" where
  "sample_options = Some \<lparr>opt_maxByteLength = Some (Integral 64), opt_maxContainerLength = Some (Integral 8),
     opt_maxDepth = Some (Integral 2)\<rparr>"

lemma sample_resolved:
  "resolveOptions sample_options = Inr \<lparr>maxByteLength = 64, maxContainerLength = 8, maxDepth = 2\<rparr>"
  by (simp add: resolveOptions_def sample_options_def resolveLimit_def or_default_def max_safe_integer_def
      MAX_UINT32_def MAX_CONFIGURED_DEPTH_def)

lemma sample_encoded: "encodeCbor sample_value sample_options = Inr (cbor_bytes sample_value)"
  using encodeCbor_resolved [OF sample_resolved, of sample_value "cbor_bytes sample_value"]
  by (simp add: sample_value_def admissible.simps is_undefined_def text_ok_def text_bytes_def
      utf8_encode_def utf8_of_cp_def lone_code_point_def pair_code_point_def is_high_surrogate_def
      is_low_surrogate_def length_arg_bytes max_safe_integer_def)

theorem cbor_round_trip_witness:
  "wf_val sample_value \<and> decodeCbor (JBytes (cbor_bytes sample_value)) sample_options = Inr (normal sample_value)"
proof -
  have "wf_val sample_value"
    by (simp add: sample_value_def props_ordered_def key_before_def array_index_def is_digit_def)
  then show ?thesis using cbor_round_trip [OF _ sample_encoded] by simp
qed

text \<open>
  C4: every value the decoder accepts can be encoded again under the same options, in no more bytes
  than were read, and decodes to itself: decoding never yields a value outside the limits.
\<close>

theorem decoded_reencodes:
  assumes "decodeCbor (JBytes bs) options = Inr v"
  shows "\<exists>bs'. encodeCbor v options = Inr bs' \<and> length bs' \<le> length bs \<and> decodeCbor (JBytes bs') options = Inr v"
proof -
  from assms obtain opts r where opts: "resolveOptions options = Inr opts" "length bs \<le> maxByteLength opts"
    and read: "readItem opts 0 \<lparr>rbytes = bs, roffset = 0\<rparr> = Inr (v, r)"
    by (auto simp: decode_def bindE_eq_Inr split: if_splits)
  from item_soundD [OF readItem_sound read]
  have v: "wf_val v" "normal v = v" "admissible opts 0 v" "length (cbor_bytes v) \<le> length bs"
    by (auto simp: sound_def advances_def)
  then have enc: "encodeCbor v options = Inr (cbor_bytes v)"
    using opts by (simp add: encodeCbor_resolved)
  then show ?thesis using decode_encode [OF v(1) enc] v by auto
qed

theorem decoded_reencodes_witness:
  "\<exists>bs'. encodeCbor (normal sample_value) sample_options = Inr bs' \<and>
     length bs' \<le> length (cbor_bytes sample_value) \<and>
     decodeCbor (JBytes bs') sample_options = Inr (normal sample_value)"
proof -
  have "wf_val sample_value"
    by (simp add: sample_value_def props_ordered_def key_before_def array_index_def is_digit_def)
  then have "decodeCbor (JBytes (cbor_bytes sample_value)) sample_options = Inr (normal sample_value)"
    by (rule decode_encode [OF _ sample_encoded])
  then show ?thesis by (rule decoded_reencodes)
qed

end
