(* ===== verification/Framing.thy ===== *)
theory Framing
  imports Cbor_Decoder
begin

text \<open>
  Length-prefixed framing (packages/protocol/src/framing.ts): \<open>encodeFrame\<close>,
  \<open>assertCompleteFrame\<close> and the incremental \<open>FrameDecoder\<close>. The decoder's payload blocks are
  objects: \<open>currentPayloadBlock\<close> aliases an element of \<open>payloadBlocks\<close> and is kept as its index,
  so that writing through it changes the list. The two loops of \<open>push\<close> are
  \<open>partial_function (option)\<close>; that they return is proved. The decoder refines the splitting
  \<open>split_frames\<close> of the byte stream, however the stream is cut into chunks.
\<close>

section \<open>Frames\<close>

definition FRAME_HEADER_LENGTH :: nat where "FRAME_HEADER_LENGTH = 4"
definition PAYLOAD_BLOCK_SIZE :: nat where "PAYLOAD_BLOCK_SIZE = 64 * 1024"
definition DEFAULT_MAX_FRAME_LENGTH :: nat where "DEFAULT_MAX_FRAME_LENGTH = 16 * 1024 * 1024"

record frame_options =
  opt_maxFrameLength :: "jsnum option"

definition resolveMaxFrameLength :: "frame_options option \<Rightarrow> protocol_exn + nat" where
  "resolveMaxFrameLength options =
     (let v = or_default (case options of None \<Rightarrow> None | Some opts \<Rightarrow> opt_maxFrameLength opts)
                DEFAULT_MAX_FRAME_LENGTH in
      if \<not> is_safe_integer v \<or> num_value v < 0 \<or> num_value v > int MAX_UINT32
      then Inl (RangeError (''maxFrameLength must be an integer between 0 and '' @ show_nat MAX_UINT32))
      else Inr (nat (num_value v)))"

fun encodeFrame :: "jsval \<Rightarrow> protocol_exn + byte list" where
  "encodeFrame (JBytes payload) =
     (if length payload > MAX_UINT32
      then Inl (RangeError ''Frame payload exceeds the unsigned 32-bit length limit'')
      else
        let frame = replicate (FRAME_HEADER_LENGTH + length payload) 0;
            n = length payload;
            frame = frame[0 := word_of_nat (ushr n 24), 1 := word_of_nat (ushr n 16),
                          2 := word_of_nat (ushr n 8), 3 := word_of_nat n] in
        Inr (buf_set FRAME_HEADER_LENGTH payload frame))"
| "encodeFrame _ = Inl (TypeError ''Frame payload must be a Uint8Array'')"

definition header_value :: "byte list \<Rightarrow> nat" where
  "header_value h = unat (h ! 0) * 0x1000000 + unat (h ! 1) * 0x10000 + unat (h ! 2) * 0x100 + unat (h ! 3)"

definition frameTooLong :: "nat \<Rightarrow> nat \<Rightarrow> string" where
  "frameTooLong n limit =
     ''Frame length '' @ show_nat n @ '' exceeds configured limit of '' @ show_nat limit"

fun assertCompleteFrame :: "jsval \<Rightarrow> frame_options option \<Rightarrow> protocol_exn + unit" where
  "assertCompleteFrame (JBytes frame) options =
     (if length frame < FRAME_HEADER_LENGTH
      then Inl (FrameError ''Frame does not contain a complete length prefix'')
      else let n = header_value frame in
        bindE (resolveMaxFrameLength options) (\<lambda>limit.
        if n > limit then Inl (FrameError (frameTooLong n limit))
        else if length frame \<noteq> FRAME_HEADER_LENGTH + n
        then Inl (FrameError ''Frame must contain exactly one complete payload'')
        else Inr ()))"
| "assertCompleteFrame _ options = Inl (TypeError ''Frame must be a Uint8Array'')"

section \<open>The incremental decoder\<close>

datatype decoder_state = Open | Ended | Failed

record frame_decoder =
  header :: "byte list"
  headerLength :: nat
  maxFrameLength :: nat
  payloadBlocks :: "byte list list"
  currentPayloadBlock :: "nat option"
  currentPayloadBlockLength :: nat
  expectedPayloadLength :: "nat option"
  payloadLength :: nat
  decoderState :: decoder_state

definition new_frame_decoder :: "frame_options option \<Rightarrow> protocol_exn + frame_decoder" where
  "new_frame_decoder options =
     bindE (resolveMaxFrameLength options) (\<lambda>limit.
     Inr \<lparr>header = replicate FRAME_HEADER_LENGTH 0, headerLength = 0, maxFrameLength = limit,
          payloadBlocks = [], currentPayloadBlock = None, currentPayloadBlockLength = 0,
          expectedPayloadLength = None, payloadLength = 0, decoderState = Open\<rparr>)"

definition fail_decoder :: "frame_decoder \<Rightarrow> frame_decoder" where
  "fail_decoder d = d\<lparr>decoderState := Failed, headerLength := 0, payloadBlocks := [],
     currentPayloadBlock := None, currentPayloadBlockLength := 0, expectedPayloadLength := None,
     payloadLength := 0\<rparr>"

definition current_block :: "frame_decoder \<Rightarrow> byte list option" where
  "current_block d = map_option (\<lambda>i. payloadBlocks d ! i) (currentPayloadBlock d)"

definition ensure_block :: "nat \<Rightarrow> frame_decoder \<Rightarrow> frame_decoder" where
  "ensure_block expected d =
     (if (case current_block d of None \<Rightarrow> True | Some b \<Rightarrow> currentPayloadBlockLength d = length b)
      then d\<lparr>payloadBlocks := payloadBlocks d @
               [replicate (min PAYLOAD_BLOCK_SIZE (expected - payloadLength d)) 0],
             currentPayloadBlock := Some (length (payloadBlocks d)),
             currentPayloadBlockLength := 0\<rparr>
      else d)"

definition fill_block :: "byte list \<Rightarrow> nat \<Rightarrow> frame_decoder \<Rightarrow> nat \<times> frame_decoder" where
  "fill_block chunk off d =
     (let i = the (currentPayloadBlock d); block = payloadBlocks d ! i;
          k = min (length block - currentPayloadBlockLength d) (length chunk - off) in
      (off + k,
       d\<lparr>payloadBlocks := (payloadBlocks d)
            [i := buf_set (currentPayloadBlockLength d) (take k (drop off chunk)) block],
         currentPayloadBlockLength := currentPayloadBlockLength d + k,
         payloadLength := payloadLength d + k\<rparr>))"

partial_function (option) payload_loop ::
  "byte list \<Rightarrow> nat \<Rightarrow> nat \<Rightarrow> frame_decoder \<Rightarrow> (nat \<times> frame_decoder) option" where
  "payload_loop chunk expected off d =
     (if off < length chunk \<and> payloadLength d < expected
      then case fill_block chunk off (ensure_block expected d) of
             (off', d') \<Rightarrow> payload_loop chunk expected off' d'
      else Some (off, d))"

definition join_blocks :: "nat \<Rightarrow> byte list list \<Rightarrow> byte list" where
  "join_blocks expected blocks =
     (if length blocks = 1 then blocks ! 0
      else fst (foldl (\<lambda>(payload, off) block. (buf_set off block payload, off + length block))
             (replicate expected 0, 0) blocks))"

definition clear_payload :: "frame_decoder \<Rightarrow> frame_decoder" where
  "clear_payload d = d\<lparr>payloadBlocks := [], currentPayloadBlock := None,
     currentPayloadBlockLength := 0, payloadLength := 0\<rparr>"

definition deliver :: "nat \<Rightarrow> byte list list \<Rightarrow> frame_decoder \<Rightarrow> byte list list \<times> frame_decoder" where
  "deliver n frames d =
     (if payloadLength d = n
      then (frames @ [join_blocks n (payloadBlocks d)],
            clear_payload (d\<lparr>expectedPayloadLength := None\<rparr>))
      else (frames, d))"

definition read_header :: "byte list \<Rightarrow> nat \<Rightarrow> frame_decoder \<Rightarrow> nat \<times> frame_decoder" where
  "read_header chunk off d =
     (let k = min (FRAME_HEADER_LENGTH - headerLength d) (length chunk - off) in
      (off + k, d\<lparr>header := buf_set (headerLength d) (take k (drop off chunk)) (header d),
                  headerLength := headerLength d + k\<rparr>))"

text \<open>
  The outer loop of \<open>push\<close>. A throw leaves the decoder changed, so the result pairs the
  decoder with the exception or the frames; frames collected before a throw are dropped with
  the local array.
\<close>

partial_function (option) push_loop ::
  "byte list \<Rightarrow> nat \<Rightarrow> byte list list \<Rightarrow> frame_decoder \<Rightarrow>
   ((protocol_exn + byte list list) \<times> frame_decoder) option" where
  "push_loop chunk off frames d =
     (if \<not> off < length chunk then Some (Inr frames, d)
      else case expectedPayloadLength d of
        None \<Rightarrow>
          (case read_header chunk off d of (off, d) \<Rightarrow>
           if headerLength d < FRAME_HEADER_LENGTH then push_loop chunk off frames d
           else let n = header_value (header d); d = d\<lparr>headerLength := 0\<rparr> in
             if n > maxFrameLength d
             then Some (Inl (FrameError (frameTooLong n (maxFrameLength d))), fail_decoder d)
             else if n = 0 then push_loop chunk off (frames @ [[]]) d
             else Option.bind
               (payload_loop chunk n off (clear_payload (d\<lparr>expectedPayloadLength := Some n\<rparr>)))
               (\<lambda>(off, d). case deliver n frames d of (frames, d) \<Rightarrow> push_loop chunk off frames d))
      | Some n \<Rightarrow>
          Option.bind (payload_loop chunk n off d)
            (\<lambda>(off, d). case deliver n frames d of (frames, d) \<Rightarrow> push_loop chunk off frames d))"

definition closed_error :: "frame_decoder \<Rightarrow> protocol_exn option" where
  "closed_error d =
     (case decoderState d of
        Ended \<Rightarrow> Some (FrameError ''Frame decoder has ended'')
      | Failed \<Rightarrow> Some (FrameError ''Frame decoder has failed'')
      | Open \<Rightarrow> None)"

definition push :: "jsval \<Rightarrow> frame_decoder \<Rightarrow> ((protocol_exn + byte list list) \<times> frame_decoder) option" where
  "push chunk d =
     (case closed_error d of
        Some e \<Rightarrow> Some (Inl e, d)
      | None \<Rightarrow>
          (case chunk of
             JBytes bytes \<Rightarrow> push_loop bytes 0 [] d
           | _ \<Rightarrow> Some (Inl (TypeError ''Frame chunk must be a Uint8Array''), d)))"

definition end_decoder :: "frame_decoder \<Rightarrow> (protocol_exn + unit) \<times> frame_decoder" where
  "end_decoder d =
     (case closed_error d of
        Some e \<Rightarrow> (Inl e, d)
      | None \<Rightarrow>
          if headerLength d \<noteq> 0 \<or> expectedPayloadLength d \<noteq> None
          then (Inl (FrameError ''Truncated frame at end of stream''), fail_decoder d)
          else (Inr (), d\<lparr>decoderState := Ended\<rparr>))"


section \<open>Specification: splitting the byte stream\<close>

text \<open>
  \<open>split_frames limit bs\<close> takes complete frames off the front of \<open>bs\<close>. It stops at an incomplete
  frame, whose bytes it returns, or at a frame longer than the limit, whose length it returns.
\<close>

function split_frames :: "nat \<Rightarrow> byte list \<Rightarrow> byte list list \<times> (nat + byte list)" where
  "split_frames limit bs =
     (if length bs < 4 then ([], Inr bs)
      else let n = be_nat (take 4 bs) in
        if n > limit then ([], Inl n)
        else if length bs < 4 + n then ([], Inr bs)
        else let (fs, out) = split_frames limit (drop (4 + n) bs) in
          (take n (drop 4 bs) # fs, out))"
  by pat_completeness auto
termination
  by (relation "measure (\<lambda>(l, bs). length bs)") auto

declare split_frames.simps [simp del]

lemma split_frames_stop:
  assumes "length bs < 4 \<or> be_nat (take 4 bs) \<le> limit \<and> length bs < 4 + be_nat (take 4 bs)"
  shows "split_frames limit bs = ([], Inr bs)"
  using assms by (subst split_frames.simps) (auto simp: Let_def)

lemma split_frames_long:
  assumes "4 \<le> length bs" "be_nat (take 4 bs) > limit"
  shows "split_frames limit bs = ([], Inl (be_nat (take 4 bs)))"
  using assms by (subst split_frames.simps) simp

lemma split_frames_full:
  assumes "be_nat (take 4 bs) \<le> limit" "4 + be_nat (take 4 bs) \<le> length bs"
  shows "split_frames limit bs =
    (let n = be_nat (take 4 bs); r = split_frames limit (drop (4 + n) bs) in
     (take n (drop 4 bs) # fst r, snd r))"
  using assms by (subst split_frames.simps) (simp add: case_prod_beta Let_def)

lemma split_frames_cases:
  obtains (stop) "length bs < 4 \<or> be_nat (take 4 bs) \<le> limit \<and> length bs < 4 + be_nat (take 4 bs)"
  | (long) "4 \<le> length bs" "be_nat (take 4 bs) > limit"
  | (full) "be_nat (take 4 bs) \<le> limit" "4 + be_nat (take 4 bs) \<le> length bs"
  by linarith

lemma split_frames_append:
  "split_frames limit (as @ bs) =
     (case split_frames limit as of
        (fs, Inl n) \<Rightarrow> (fs, Inl n)
      | (fs, Inr rest) \<Rightarrow> (fs @ fst (split_frames limit (rest @ bs)), snd (split_frames limit (rest @ bs))))"
proof (induction "length as" arbitrary: as rule: less_induct)
  case less
  show ?case
  proof (cases rule: split_frames_cases [of as limit])
    case stop
    then show ?thesis by (simp add: split_frames_stop)
  next
    case long
    then show ?thesis by (simp add: split_frames_long)
  next
    case full
    let ?n = "be_nat (take 4 as)"
    have IH: "split_frames limit (drop (4 + ?n) as @ bs) =
       (case split_frames limit (drop (4 + ?n) as) of
          (fs, Inl n) \<Rightarrow> (fs, Inl n)
        | (fs, Inr rest) \<Rightarrow> (fs @ fst (split_frames limit (rest @ bs)), snd (split_frames limit (rest @ bs))))"
      using full by (intro less) auto
    have "split_frames limit (as @ bs) = (take ?n (drop 4 as) # fst (split_frames limit (drop (4 + ?n) as @ bs)),
        snd (split_frames limit (drop (4 + ?n) as @ bs)))"
      using full by (subst split_frames_full) (simp_all add: Let_def)
    then show ?thesis
      unfolding IH using full by (simp add: split_frames_full Let_def split: prod.split sum.split)
  qed
qed

section \<open>The decoder refines the specification\<close>

text \<open>The payload bytes received so far, and the bytes of the current incomplete frame.\<close>

definition received :: "frame_decoder \<Rightarrow> byte list" where
  "received d =
     (if payloadBlocks d = [] then []
      else concat (butlast (payloadBlocks d)) @ take (currentPayloadBlockLength d) (last (payloadBlocks d)))"

definition pending :: "frame_decoder \<Rightarrow> byte list" where
  "pending d =
     (case expectedPayloadLength d of
        None \<Rightarrow> take (headerLength d) (header d)
      | Some n \<Rightarrow> be_bytes 4 n @ received d)"

definition blocks_ok :: "nat \<Rightarrow> frame_decoder \<Rightarrow> bool" where
  "blocks_ok n d \<longleftrightarrow>
     (if payloadBlocks d = [] then currentPayloadBlock d = None \<and> payloadLength d = 0
      else currentPayloadBlock d = Some (length (payloadBlocks d) - 1) \<and>
           currentPayloadBlockLength d \<le> length (last (payloadBlocks d)) \<and>
           payloadLength d = length (concat (butlast (payloadBlocks d))) + currentPayloadBlockLength d \<and>
           length (concat (payloadBlocks d)) \<le> n)"

definition frame_inv :: "frame_decoder \<Rightarrow> bool" where
  "frame_inv d \<longleftrightarrow>
     length (header d) = 4 \<and> headerLength d < 4 \<and> maxFrameLength d \<le> MAX_UINT32 \<and>
     (case expectedPayloadLength d of
        None \<Rightarrow> True
      | Some n \<Rightarrow> headerLength d = 0 \<and> n \<le> maxFrameLength d \<and> payloadLength d < n \<and> blocks_ok n d)"

lemma length_received: "blocks_ok n d \<Longrightarrow> length (received d) = payloadLength d"
  by (auto simp: blocks_ok_def received_def split: if_splits)

lemma concat_butlast_last: "xs \<noteq> [] \<Longrightarrow> concat (butlast xs) @ last xs = concat xs"
  by (metis append_butlast_last_id concat_append concat.simps append_Nil2)

lemma blocks_full:
  assumes "blocks_ok n d" "payloadLength d = n" "0 < n"
  shows "concat (payloadBlocks d) = received d"
proof -
  have ne: "payloadBlocks d \<noteq> []" using assms by (auto simp: blocks_ok_def)
  have "length (concat (butlast (payloadBlocks d))) + length (last (payloadBlocks d)) \<le> n"
    using assms(1) ne concat_butlast_last [OF ne, symmetric] by (simp add: blocks_ok_def)
  then have "currentPayloadBlockLength d = length (last (payloadBlocks d))"
    using assms ne by (auto simp: blocks_ok_def)
  then show ?thesis using ne by (simp add: received_def concat_butlast_last)
qed

lemma blocks_ok_snoc:
  assumes "payloadBlocks d = bs @ [b]"
  shows "blocks_ok n d \<longleftrightarrow> currentPayloadBlock d = Some (length bs) \<and> currentPayloadBlockLength d \<le> length b \<and>
      payloadLength d = length (concat bs) + currentPayloadBlockLength d \<and> length (concat bs) + length b \<le> n"
    "received d = concat bs @ take (currentPayloadBlockLength d) b"
  using assms by (simp_all add: blocks_ok_def received_def)

lemma ensure_block_ok:
  assumes "blocks_ok n d" "payloadLength d < n"
  obtains bs b where "payloadBlocks (ensure_block n d) = bs @ [b]" "blocks_ok n (ensure_block n d)"
    "received (ensure_block n d) = received d" "payloadLength (ensure_block n d) = payloadLength d"
    "currentPayloadBlockLength (ensure_block n d) < length b"
    "length b - currentPayloadBlockLength (ensure_block n d) \<le> n - payloadLength d"
proof -
  note found = that
  let ?new = "replicate (min PAYLOAD_BLOCK_SIZE (n - payloadLength d)) (0 :: byte)"
  let ?d = "d\<lparr>payloadBlocks := payloadBlocks d @ [?new], currentPayloadBlock := Some (length (payloadBlocks d)),
    currentPayloadBlockLength := 0\<rparr>"
  have fresh: ?thesis if "ensure_block n d = ?d" "received d = concat (payloadBlocks d)"
      "payloadLength d = length (concat (payloadBlocks d))"
  proof (rule found [of "payloadBlocks d" ?new])
    show "blocks_ok n (ensure_block n d)" "received (ensure_block n d) = received d"
      using that assms(2) blocks_ok_snoc [of ?d "payloadBlocks d" ?new] by simp_all
  qed (use that assms(2) in \<open>simp_all add: PAYLOAD_BLOCK_SIZE_def\<close>)
  show ?thesis
  proof (cases "payloadBlocks d" rule: rev_cases)
    case Nil
    then show ?thesis
      using assms by (intro fresh) (simp_all add: ensure_block_def current_block_def blocks_ok_def received_def)
  next
    case (snoc bs b)
    note ok = blocks_ok_snoc(1) [OF snoc, THEN iffD1, OF assms(1)]
    have cur: "current_block d = Some b" using ok snoc by (simp add: current_block_def)
    show ?thesis
    proof (cases "currentPayloadBlockLength d = length b")
      case True
      then show ?thesis
        using ok cur snoc by (intro fresh) (simp_all add: ensure_block_def received_def)
    next
      case False
      then have "ensure_block n d = d" using cur by (simp add: ensure_block_def)
      then show ?thesis using ok snoc assms False by (intro found [of bs b]) auto
    qed
  qed
qed

text \<open>The fields of the decoder that reading a payload leaves alone.\<close>

definition same_frame :: "frame_decoder \<Rightarrow> frame_decoder \<Rightarrow> bool" where
  "same_frame d d' \<longleftrightarrow> header d' = header d \<and> headerLength d' = headerLength d \<and>
     maxFrameLength d' = maxFrameLength d \<and> expectedPayloadLength d' = expectedPayloadLength d \<and>
     decoderState d' = decoderState d"

lemma fill_block_ok:
  assumes "blocks_ok n d" "payloadBlocks d = bs @ [b]" "off \<le> length chunk"
  defines "k \<equiv> min (length b - currentPayloadBlockLength d) (length chunk - off)"
  obtains d' where "fill_block chunk off d = (off + k, d')" "blocks_ok n d'"
    "received d' = received d @ take k (drop off chunk)" "payloadLength d' = payloadLength d + k"
    "same_frame d d'"
proof -
  note c = blocks_ok_snoc(1) [OF assms(2), THEN iffD1, OF assms(1)]
  let ?b = "buf_set (currentPayloadBlockLength d) (take k (drop off chunk)) b"
  have len: "length ?b = length b" "currentPayloadBlockLength d + k \<le> length b"
    "length (take k (drop off chunk)) = k" using c by (auto simp: buf_set_def k_def)
  have front: "take (currentPayloadBlockLength d + k) ?b =
      take (currentPayloadBlockLength d) b @ take k (drop off chunk)"
    using len c by (simp add: buf_set_def)
  let ?d = "d\<lparr>payloadBlocks := bs @ [?b], currentPayloadBlockLength := currentPayloadBlockLength d + k,
    payloadLength := payloadLength d + k\<rparr>"
  have fill: "fill_block chunk off d = (off + k, ?d)"
    using assms(2) c by (simp add: fill_block_def Let_def k_def)
  have ok: "blocks_ok n ?d" using blocks_ok_snoc(1) [of ?d bs ?b n] len(1,2) c by simp
  have rec: "received ?d = received d @ take k (drop off chunk)"
    using assms(2) front by (simp add: received_def)
  show ?thesis by (rule that [OF fill ok rec]) (simp_all add: same_frame_def)
qed

lemma same_frame_trans: "same_frame d d' \<Longrightarrow> same_frame d' d'' \<Longrightarrow> same_frame d d''"
  by (simp add: same_frame_def)

lemma same_frame_ensure: "same_frame d (ensure_block n d)"
  by (simp add: same_frame_def ensure_block_def)

lemma payload_loop_ok:
  assumes "blocks_ok n d" "payloadLength d \<le> n" "off \<le> length chunk"
  defines "k \<equiv> min (n - payloadLength d) (length chunk - off)"
  shows "\<exists>d'. payload_loop chunk n off d = Some (off + k, d') \<and> blocks_ok n d' \<and>
    received d' = received d @ take k (drop off chunk) \<and> payloadLength d' = payloadLength d + k \<and>
    same_frame d d'"
  unfolding k_def using assms(1-3)
proof (induction "length chunk - off" arbitrary: off d rule: less_induct)
  case less
  show ?case
  proof (cases "off < length chunk \<and> payloadLength d < n")
    case False
    then have "min (n - payloadLength d) (length chunk - off) = 0" using less.prems by auto
    with False less.prems show ?thesis by (subst payload_loop.simps) (auto simp: same_frame_def)
  next
    case True
    let ?e = "ensure_block n d"
    obtain bs b where e: "payloadBlocks ?e = bs @ [b]" "blocks_ok n ?e" "received ?e = received d"
      "payloadLength ?e = payloadLength d" "currentPayloadBlockLength ?e < length b"
      "length b - currentPayloadBlockLength ?e \<le> n - payloadLength d"
      by (rule ensure_block_ok [OF less.prems(1) conjunct2 [OF True]])
    define j where "j = min (length b - currentPayloadBlockLength ?e) (length chunk - off)"
    obtain d1 where d1: "fill_block chunk off ?e = (off + j, d1)" "blocks_ok n d1"
      "received d1 = received ?e @ take j (drop off chunk)" "payloadLength d1 = payloadLength ?e + j"
      "same_frame ?e d1"
      unfolding j_def by (rule fill_block_ok [OF e(2,1) less.prems(3)])
    have j: "0 < j" "j \<le> n - payloadLength d" "j \<le> length chunk - off"
      using e(5,6) True by (auto simp: j_def)
    let ?k = "min (n - payloadLength d) (length chunk - off)"
      and ?m = "min (n - payloadLength d1) (length chunk - (off + j))"
    have k: "?k = j + ?m" using j d1(4) e(4) by linarith
    have step: "length chunk - (off + j) < length chunk - off" "payloadLength d1 \<le> n"
      "off + j \<le> length chunk" using j d1(4) e(4) True by linarith+
    obtain d' where d': "payload_loop chunk n (off + j) d1 = Some (off + j + ?m, d')" "blocks_ok n d'"
      "received d' = received d1 @ take ?m (drop (off + j) chunk)" "payloadLength d' = payloadLength d1 + ?m"
      "same_frame d1 d'"
      using less.hyps [OF step(1) d1(2) step(2,3)] by blast
    have "payload_loop chunk n off d = Some (off + ?k, d')"
      using True d1(1) d'(1) unfolding k by (subst payload_loop.simps) (simp add: add.assoc)
    moreover have "received d' = received d @ take ?k (drop off chunk)"
      unfolding k take_add using d'(3) d1(3) e(3) by (simp add: add.commute)
    moreover have "payloadLength d' = payloadLength d + ?k" unfolding k using d'(4) d1(4) e(4) by simp
    moreover have "same_frame d d'" by (rule same_frame_trans [OF same_frame_trans [OF same_frame_ensure d1(5)] d'(5)])
    ultimately show ?thesis using d'(2) by blast
  qed
qed

lemma join_blocks_concat:
  assumes "length (concat blocks) = n"
  shows "join_blocks n blocks = concat blocks"
proof -
  have "foldl (\<lambda>(payload, off) block. (buf_set off block payload, off + length block)) (as @ cs, length as) bs =
      (as @ concat bs @ drop (length (concat bs)) cs, length as + length (concat bs))"
    if "length (concat bs) \<le> length cs" for as cs :: "byte list" and bs :: "byte list list"
    using that
  proof (induction bs arbitrary: as cs)
    case (Cons b bs)
    have "buf_set (length as) b (as @ cs) = (as @ b) @ drop (length b) cs" by (simp add: buf_set_def)
    then show ?case
      using Cons.IH [of "drop (length b) cs" "as @ b"] Cons.prems by (simp add: add.commute)
  qed simp
  from this [of blocks "replicate n 0" "[]"] assms show ?thesis
    by (cases blocks) (auto simp: join_blocks_def)
qed


text \<open>What \<open>push\<close> must return for the bytes \<open>bytes\<close> still to be split.\<close>

definition push_spec ::
  "frame_decoder \<Rightarrow> byte list \<Rightarrow> byte list list \<Rightarrow>
   ((protocol_exn + byte list list) \<times> frame_decoder) option \<Rightarrow> bool" where
  "push_spec d bytes frames res \<longleftrightarrow>
     (case split_frames (maxFrameLength d) bytes of
        (fs, Inl n) \<Rightarrow>
          (\<exists>d'. res = Some (Inl (FrameError (frameTooLong n (maxFrameLength d))), d') \<and>
                decoderState d' = Failed \<and> maxFrameLength d' = maxFrameLength d)
      | (fs, Inr rest) \<Rightarrow>
          (\<exists>d'. res = Some (Inr (frames @ fs), d') \<and> frame_inv d' \<and> pending d' = rest \<and>
                maxFrameLength d' = maxFrameLength d \<and> decoderState d' = Open))"

lemma push_spec_limit:
  "maxFrameLength d' = maxFrameLength d \<Longrightarrow> push_spec d' bytes frames res \<Longrightarrow> push_spec d bytes frames res"
  by (auto simp: push_spec_def split: prod.splits sum.splits)

lemma be_nat_header: "n \<le> MAX_UINT32 \<Longrightarrow> be_nat (be_bytes 4 n) = n"
  by (simp add: be_nat_bytes MAX_UINT32_def)

lemma header_value_be_nat: "length h = 4 \<Longrightarrow> header_value h = be_nat h"
proof -
  assume "length h = 4"
  then have "length h = Suc (Suc (Suc (Suc 0)))" by simp
  then obtain a b c d where "h = [a, b, c, d]" by (auto simp: length_Suc_conv)
  then show ?thesis by (simp add: header_value_def be_nat_4 numeral_3_eq_3 numeral_2_eq_2)
qed

lemma frame_inv_payload:
  assumes "frame_inv d" "expectedPayloadLength d = Some n"
  shows "blocks_ok n d" "payloadLength d < n" "n \<le> maxFrameLength d" "n \<le> MAX_UINT32" "headerLength d = 0"
  using assms by (auto simp: frame_inv_def)

lemma split_pending:
  assumes "frame_inv d"
  shows "split_frames (maxFrameLength d) (pending d) = ([], Inr (pending d))"
proof (cases "expectedPayloadLength d")
  case None
  then show ?thesis using assms by (intro split_frames_stop) (auto simp: pending_def frame_inv_def)
next
  case (Some n)
  note p = frame_inv_payload [OF assms Some]
  then show ?thesis
    using Some length_received [OF p(1)]
    by (intro split_frames_stop) (auto simp: pending_def be_nat_header)
qed

lemma split_header:
  assumes "length h = 4" "be_nat h \<le> limit" "be_nat h = length p"
  shows "split_frames limit (h @ p @ rest) =
    (p # fst (split_frames limit rest), snd (split_frames limit rest))"
  using assms by (subst split_frames_full) (simp_all add: Let_def)

lemma push_spec_frame:
  assumes "push_spec d' bytes (frames @ [p]) res" "maxFrameLength d' = maxFrameLength d"
    "length h = 4" "be_nat h \<le> maxFrameLength d" "be_nat h = length p"
  shows "push_spec d (h @ p @ bytes) frames res"
  using assms(1,2) split_header [OF assms(3-5), of bytes]
  by (auto simp: push_spec_def split: prod.splits sum.splits)

lemma payload_phase:
  assumes IH: "\<And>off' frames' d'. \<lbrakk>off0 < off'; off' \<le> length chunk; frame_inv d'; decoderState d' = Open\<rbrakk> \<Longrightarrow>
      push_spec d' (pending d' @ drop off' chunk) frames' (push_loop chunk off' frames' d')"
    and d: "frame_inv d" "expectedPayloadLength d = Some n" "decoderState d = Open"
    and off: "off \<le> length chunk" "off0 < off \<or> off0 = off \<and> off < length chunk"
  shows "push_spec d (pending d @ drop off chunk) frames
    (Option.bind (payload_loop chunk n off d)
       (\<lambda>(off, d). case deliver n frames d of (frames, d) \<Rightarrow> push_loop chunk off frames d))"
proof -
  note p = frame_inv_payload [OF d(1,2)]
  define k where "k = min (n - payloadLength d) (length chunk - off)"
  obtain d1 where d1: "payload_loop chunk n off d = Some (off + k, d1)" "blocks_ok n d1"
    "received d1 = received d @ take k (drop off chunk)" "payloadLength d1 = payloadLength d + k"
    "same_frame d d1"
    using payload_loop_ok [OF p(1) less_imp_le [OF p(2)] off(1)] unfolding k_def by blast
  have later: "off0 < off + k" "off + k \<le> length chunk" using off p(2) by (auto simp: k_def)
  have bytes: "pending d @ drop off chunk = be_bytes 4 n @ received d1 @ drop (off + k) chunk"
    using d(2) d1(3) by (simp add: pending_def) (metis append_take_drop_id drop_drop add.commute)
  show ?thesis
  proof (cases "payloadLength d1 = n")
    case True
    let ?d = "clear_payload (d1\<lparr>expectedPayloadLength := None\<rparr>)"
    have join: "join_blocks n (payloadBlocks d1) = received d1"
      using blocks_full [OF d1(2) True] length_received [OF d1(2)] True p(2)
        join_blocks_concat [of "payloadBlocks d1" n] by simp
    have inv: "frame_inv ?d" "pending ?d = []" "decoderState ?d = Open" "maxFrameLength ?d = maxFrameLength d"
      using d d1(5) p by (auto simp: frame_inv_def pending_def clear_payload_def same_frame_def)
    have "push_spec ?d (drop (off + k) chunk) (frames @ [received d1])
        (push_loop chunk (off + k) (frames @ [received d1]) ?d)"
      using IH [OF later inv(1,3)] inv(2) by simp
    then have "push_spec d (pending d @ drop off chunk) frames
        (push_loop chunk (off + k) (frames @ [received d1]) ?d)"
      unfolding bytes using inv(4) p(3,4) True length_received [OF d1(2)]
      by (intro push_spec_frame [of ?d]) (auto simp: be_nat_header)
    then show ?thesis using d1(1) True join by (simp add: deliver_def)
  next
    case False
    have inv: "frame_inv d1" "decoderState d1 = Open" "maxFrameLength d1 = maxFrameLength d"
      using d d1 p False by (auto simp: frame_inv_def same_frame_def k_def)
    have "pending d1 = be_bytes 4 n @ received d1" using d(2) d1(5) by (simp add: pending_def same_frame_def)
    then have "push_spec d (pending d @ drop off chunk) frames (push_loop chunk (off + k) frames d1)"
      unfolding bytes using IH [OF later inv(1,2), of frames]
      by (intro push_spec_limit [OF inv(3)]) simp
    then show ?thesis using d1(1) False by (simp add: deliver_def)
  qed
qed


lemma read_header_ok:
  assumes "frame_inv d" "expectedPayloadLength d = None" "off < length chunk"
  defines "k \<equiv> min (4 - headerLength d) (length chunk - off)"
  obtains d' where "read_header chunk off d = (off + k, d')" "0 < k" "length (header d') = 4"
    "headerLength d' = headerLength d + k" "take (headerLength d') (header d') = pending d @ take k (drop off chunk)"
    "maxFrameLength d' = maxFrameLength d" "decoderState d' = decoderState d" "expectedPayloadLength d' = None"
proof (rule that)
  let ?d = "d\<lparr>header := buf_set (headerLength d) (take k (drop off chunk)) (header d),
    headerLength := headerLength d + k\<rparr>"
  have h: "length (header d) = 4" "headerLength d < 4" using assms(1) by (auto simp: frame_inv_def)
  have k: "k \<le> length chunk - off" "headerLength d + k \<le> 4" using h by (auto simp: k_def)
  show "read_header chunk off d = (off + k, ?d)"
    by (simp add: read_header_def FRAME_HEADER_LENGTH_def k_def Let_def)
  show "0 < k" using h assms(3) by (simp add: k_def)
  show "length (header ?d) = 4" using h k by (simp add: buf_set_def)
  show "take (headerLength ?d) (header ?d) = pending d @ take k (drop off chunk)"
    using h k assms(2) by (simp add: buf_set_def pending_def)
qed (use assms(2) in simp_all)

lemma header_phase:
  assumes IH: "\<And>off' frames' d'. \<lbrakk>off < off'; off' \<le> length chunk; frame_inv d'; decoderState d' = Open\<rbrakk> \<Longrightarrow>
      push_spec d' (pending d' @ drop off' chunk) frames' (push_loop chunk off' frames' d')"
    and d: "frame_inv d" "expectedPayloadLength d = None" "decoderState d = Open" and off: "off < length chunk"
  shows "push_spec d (pending d @ drop off chunk) frames (push_loop chunk off frames d)"
proof -
  define k where "k = min (4 - headerLength d) (length chunk - off)"
  obtain d1 where d1: "read_header chunk off d = (off + k, d1)" "0 < k" "length (header d1) = 4"
    "headerLength d1 = headerLength d + k" "take (headerLength d1) (header d1) = pending d @ take k (drop off chunk)"
    "maxFrameLength d1 = maxFrameLength d" "decoderState d1 = decoderState d" "expectedPayloadLength d1 = None"
    unfolding k_def by (rule read_header_ok [OF d(1,2) off])
  have k: "off < off + k" "off + k \<le> length chunk" using d1(2) off by (auto simp: k_def)
  have limit: "maxFrameLength d \<le> MAX_UINT32" using d(1) by (simp add: frame_inv_def)
  have bytes: "pending d @ drop off chunk = take (headerLength d1) (header d1) @ drop (off + k) chunk"
    unfolding d1(5) by simp (metis append_take_drop_id drop_drop add.commute)
  show ?thesis
  proof (cases "headerLength d1 < 4")
    case True
    then have "frame_inv d1" "pending d1 = take (headerLength d1) (header d1)"
      using d1 limit by (auto simp: frame_inv_def pending_def)
    then have "push_spec d (pending d @ drop off chunk) frames (push_loop chunk (off + k) frames d1)"
      unfolding bytes using IH [OF k, of d1 frames] d1(7) d(3) by (intro push_spec_limit [OF d1(6)]) simp
    then show ?thesis
      using off d(2) d1(1) True by (subst push_loop.simps) (simp add: FRAME_HEADER_LENGTH_def)
  next
    case False
    then have h: "take (headerLength d1) (header d1) = header d1" using d1(3) by simp
    let ?n = "be_nat (header d1)" and ?d0 = "d1\<lparr>headerLength := 0\<rparr>"
    let ?d2 = "clear_payload (d1\<lparr>headerLength := 0, expectedPayloadLength := Some ?n\<rparr>)"
    have loop: "push_loop chunk off frames d =
       (if ?n > maxFrameLength d
        then Some (Inl (FrameError (frameTooLong ?n (maxFrameLength d))), fail_decoder ?d0)
        else if ?n = 0 then push_loop chunk (off + k) (frames @ [[]]) ?d0
        else Option.bind (payload_loop chunk ?n (off + k) ?d2)
          (\<lambda>(off, d). case deliver ?n frames d of (frames, d) \<Rightarrow> push_loop chunk off frames d))"
      using off d(2) d1(1,3,6) False
      by (subst push_loop.simps) (simp add: FRAME_HEADER_LENGTH_def header_value_be_nat Let_def)
    consider (long) "?n > maxFrameLength d" | (empty) "?n = 0" | (some) "0 < ?n" "?n \<le> maxFrameLength d"
      by linarith
    then show ?thesis
    proof cases
      case long
      then show ?thesis
        unfolding bytes h loop using d1(3,6) split_frames_long [of "header d1 @ drop (off + k) chunk" "maxFrameLength d"]
        by (simp add: push_spec_def fail_decoder_def)
    next
      case empty
      have inv: "frame_inv ?d0" "pending ?d0 = []" "decoderState ?d0 = Open"
        using d1 d(3) limit by (auto simp: frame_inv_def pending_def)
      have "push_spec ?d0 (drop (off + k) chunk) (frames @ [[]]) (push_loop chunk (off + k) (frames @ [[]]) ?d0)"
        using IH [OF k inv(1,3)] inv(2) by simp
      then show ?thesis
        unfolding bytes h loop using empty d1(3,6) push_spec_frame [of ?d0 _ frames "[]" _ d "header d1"] by simp
    next
      case some
      have inv: "frame_inv ?d2" "expectedPayloadLength ?d2 = Some ?n" "decoderState ?d2 = Open"
        "maxFrameLength ?d2 = maxFrameLength d"
        using some d1 d(3) limit by (auto simp: frame_inv_def clear_payload_def blocks_ok_def)
      have "pending ?d2 = header d1"
        using d1(3) be_bytes_nat [of "header d1"] by (simp add: pending_def clear_payload_def received_def)
      moreover have "push_spec ?d2 (pending ?d2 @ drop (off + k) chunk) frames
          (Option.bind (payload_loop chunk ?n (off + k) ?d2)
            (\<lambda>(off, d). case deliver ?n frames d of (frames, d) \<Rightarrow> push_loop chunk off frames d))"
        by (rule payload_phase [where ?off0.0 = off, OF _ inv(1-3) k(2)], rule IH) (use k(1) in auto)
      ultimately show ?thesis
        unfolding bytes h loop using some by (intro push_spec_limit [OF inv(4)]) simp
    qed
  qed
qed

lemma push_loop_ok:
  assumes "frame_inv d" "decoderState d = Open" "off \<le> length chunk"
  shows "push_spec d (pending d @ drop off chunk) frames (push_loop chunk off frames d)"
  using assms
proof (induction "length chunk - off" arbitrary: off frames d rule: less_induct)
  case less
  have IH: "push_spec d' (pending d' @ drop off' chunk) frames' (push_loop chunk off' frames' d')"
    if "off < off'" "off' \<le> length chunk" "frame_inv d'" "decoderState d' = Open" for off' frames' d'
    using that by (intro less.hyps) auto
  consider "off = length chunk" | "off < length chunk" "expectedPayloadLength d = None"
    | n where "off < length chunk" "expectedPayloadLength d = Some n"
    using less.prems(3) by fastforce
  then show ?case
  proof cases
    case 1
    then show ?thesis
      using less.prems split_pending [OF less.prems(1)]
      by (subst push_loop.simps) (simp add: push_spec_def)
  next
    case 2
    show ?thesis
      by (rule header_phase [OF _ less.prems(1) 2(2) less.prems(2) 2(1)], rule IH) auto
  next
    case (3 n)
    have "push_loop chunk off frames d = Option.bind (payload_loop chunk n off d)
       (\<lambda>(off, d). case deliver n frames d of (frames, d) \<Rightarrow> push_loop chunk off frames d)"
      using 3 by (subst push_loop.simps) simp
    moreover have "push_spec d (pending d @ drop off chunk) frames
       (Option.bind (payload_loop chunk n off d)
         (\<lambda>(off, d). case deliver n frames d of (frames, d) \<Rightarrow> push_loop chunk off frames d))"
      by (rule payload_phase [where ?off0.0 = off, OF _ less.prems(1) 3(2) less.prems(2,3)], rule IH)
        (use 3(1) in auto)
    ultimately show ?thesis by simp
  qed
qed


section \<open>Streams cut into chunks\<close>

text \<open>
  The interface a client of an incremental decoder relies on: one step over a chunk behaves like
  splitting the buffered bytes followed by the chunk. Feeding chunks one after another then
  behaves like splitting their concatenation.
\<close>

primrec feed_chunks ::
  "('c \<Rightarrow> 's \<Rightarrow> (('e + 'o list) \<times> 's) option) \<Rightarrow> 'c list \<Rightarrow> 's \<Rightarrow> (('e + 'o list) \<times> 's) option" where
  "feed_chunks step [] s = Some (Inr [], s)"
| "feed_chunks step (c # cs) s =
     Option.bind (step c s) (\<lambda>(r, s). case r of
       Inl e \<Rightarrow> Some (Inl e, s)
     | Inr out \<Rightarrow> map_option (\<lambda>(r, s). (map_sum id ((@) out) r, s)) (feed_chunks step cs s))"

locale stream_decoder =
  fixes split :: "'i list \<Rightarrow> 'o list \<times> ('n + 'i list)"
    and step :: "'i list \<Rightarrow> 's \<Rightarrow> (('e + 'o list) \<times> 's) option"
    and buffered :: "'s \<Rightarrow> 'i list"
    and inv :: "'s \<Rightarrow> bool"
    and bad :: "'n \<Rightarrow> 'e"
    and dead :: "'s \<Rightarrow> bool"
  assumes split_append: "split (as @ bs) =
      (case split as of
         (out, Inl n) \<Rightarrow> (out, Inl n)
       | (out, Inr rest) \<Rightarrow> (out @ fst (split (rest @ bs)), snd (split (rest @ bs))))"
    and split_buffered: "inv s \<Longrightarrow> split (buffered s) = ([], Inr (buffered s))"
    and step_ok: "inv s \<Longrightarrow> split (buffered s @ c) = (out, Inr rest) \<Longrightarrow>
      \<exists>s'. step c s = Some (Inr out, s') \<and> inv s' \<and> buffered s' = rest"
    and step_bad: "inv s \<Longrightarrow> split (buffered s @ c) = (out, Inl n) \<Longrightarrow>
      \<exists>s'. step c s = Some (Inl (bad n), s') \<and> dead s'"
begin

lemma feed_ok:
  assumes "inv s" "split (buffered s @ concat cs) = (out, Inr rest)"
  shows "\<exists>s'. feed_chunks step cs s = Some (Inr out, s') \<and> inv s' \<and> buffered s' = rest"
  using assms
proof (induction cs arbitrary: s out)
  case Nil
  then show ?case using split_buffered by simp
next
  case (Cons c cs)
  from Cons.prems(2) split_append [of "buffered s @ c" "concat cs"] obtain o1 r1 where
    first: "split (buffered s @ c) = (o1, Inr r1)" and
    out: "out = o1 @ fst (split (r1 @ concat cs))" "snd (split (r1 @ concat cs)) = Inr rest"
    by (auto split: prod.splits sum.splits)
  obtain s1 where s1: "step c s = Some (Inr o1, s1)" "inv s1" "buffered s1 = r1"
    using step_ok [OF Cons.prems(1) first] by blast
  have "split (buffered s1 @ concat cs) = (fst (split (r1 @ concat cs)), Inr rest)"
    using out(2) s1(3) by (simp add: prod_eq_iff)
  from Cons.IH [OF s1(2) this] s1(1) out(1) show ?case by auto
qed

lemma feed_bad:
  assumes "inv s" "split (buffered s @ concat cs) = (out, Inl n)"
  shows "\<exists>s'. feed_chunks step cs s = Some (Inl (bad n), s') \<and> dead s'"
  using assms
proof (induction cs arbitrary: s out)
  case Nil
  then show ?case using split_buffered by simp
next
  case (Cons c cs)
  show ?case
  proof (cases "split (buffered s @ c)")
    case (Pair o1 r)
    show ?thesis
    proof (cases r)
      case (Inl m)
      then have "m = n" using Cons.prems(2) Pair split_append [of "buffered s @ c" "concat cs"] by simp
      then show ?thesis using step_bad [OF Cons.prems(1)] Pair Inl by fastforce
    next
      case (Inr r1)
      obtain s1 where s1: "step c s = Some (Inr o1, s1)" "inv s1" "buffered s1 = r1"
        using step_ok [OF Cons.prems(1)] Pair Inr by blast
      have "snd (split (r1 @ concat cs)) = Inl n"
        using Cons.prems(2) Pair Inr split_append [of "buffered s @ c" "concat cs"] by simp
      then have "split (buffered s1 @ concat cs) = (fst (split (r1 @ concat cs)), Inl n)"
        using s1(3) by (simp add: prod_eq_iff)
      from Cons.IH [OF s1(2) this] s1(1) show ?thesis by auto
    qed
  qed
qed

lemma chunking_irrelevant:
  assumes "inv s" "concat cs = concat cs'"
    "feed_chunks step cs s = Some (Inr out, s1)" "feed_chunks step cs' s = Some (r, s2)"
  shows "r = Inr out \<and> buffered s1 = buffered s2"
proof (cases "split (buffered s @ concat cs)")
  case (Pair o1 r1)
  show ?thesis
  proof (cases r1)
    case (Inl n)
    then show ?thesis using feed_bad [OF assms(1), of cs] Pair assms(3) by auto
  next
    case (Inr rest)
    then show ?thesis
      using feed_ok [OF assms(1), of cs] feed_ok [OF assms(1), of cs'] Pair assms by auto
  qed
qed

end

definition open_with :: "nat \<Rightarrow> frame_decoder \<Rightarrow> bool" where
  "open_with limit d \<longleftrightarrow> frame_inv d \<and> decoderState d = Open \<and> maxFrameLength d = limit"

lemma push_open:
  assumes "frame_inv d" "decoderState d = Open"
  shows "push_spec d (pending d @ chunk) [] (push (JBytes chunk) d)"
  using push_loop_ok [OF assms, of 0 chunk "[]"] assms(2) by (simp add: push_def closed_error_def)

interpretation frames: stream_decoder "split_frames limit" "\<lambda>chunk. push (JBytes chunk)" pending
  "open_with limit" "\<lambda>n. FrameError (frameTooLong n limit)" "\<lambda>d. decoderState d = Failed" for limit
proof unfold_locales
  fix as bs
  show "split_frames limit (as @ bs) =
      (case split_frames limit as of
         (out, Inl n) \<Rightarrow> (out, Inl n)
       | (out, Inr rest) \<Rightarrow> (out @ fst (split_frames limit (rest @ bs)), snd (split_frames limit (rest @ bs))))"
    by (rule split_frames_append)
next
  fix d assume "open_with limit d"
  then show "split_frames limit (pending d) = ([], Inr (pending d))"
    using split_pending by (auto simp: open_with_def)
next
  fix d c out rest assume "open_with limit d" "split_frames limit (pending d @ c) = (out, Inr rest)"
  then show "\<exists>d'. push (JBytes c) d = Some (Inr out, d') \<and> open_with limit d' \<and> pending d' = rest"
    using push_open [of d c] by (auto simp: open_with_def push_spec_def)
next
  fix d c out n assume "open_with limit d" "split_frames limit (pending d @ c) = (out, Inl n)"
  then show "\<exists>d'. push (JBytes c) d = Some (Inl (FrameError (frameTooLong n limit)), d') \<and> decoderState d' = Failed"
    using push_open [of d c] by (auto simp: open_with_def push_spec_def)
qed


section \<open>Frames on the stream\<close>

definition frame_bytes :: "byte list \<Rightarrow> byte list" where
  "frame_bytes p = be_bytes 4 (length p) @ p"

lemma encodeFrame_bytes:
  "length p \<le> MAX_UINT32 \<Longrightarrow> encodeFrame (JBytes p) = Inr (frame_bytes p)"
proof -
  assume "length p \<le> MAX_UINT32"
  then have len: "length p < 2 ^ 32" by (simp add: MAX_UINT32_def)
  have "replicate (FRAME_HEADER_LENGTH + length p) 0 = [0, 0, 0, 0 :: byte] @ replicate (length p) 0"
    unfolding FRAME_HEADER_LENGTH_def replicate_add by (simp add: numeral_eq_Suc)
  moreover have "(([0, 0, 0, 0] :: byte list) @ zs)[0 := a, 1 := b, 2 := c, 3 := d] = [a, b, c, d] @ zs" for a b c d zs
    by (simp add: numeral_3_eq_3 numeral_2_eq_2)
  ultimately show ?thesis
    using len by (simp add: frame_bytes_def be_bytes_4 FRAME_HEADER_LENGTH_def buf_set_def Let_def ushr_small
        MAX_UINT32_def)
qed

lemma split_frame_bytes:
  assumes "limit \<le> MAX_UINT32" "length p \<le> limit"
  shows "split_frames limit (frame_bytes p @ bs) =
    (p # fst (split_frames limit bs), snd (split_frames limit bs))"
  using split_header [of "be_bytes 4 (length p)" limit p bs] be_nat_header [of "length p"] assms
  by (simp add: frame_bytes_def)

lemma split_frames_Nil [simp]: "split_frames limit [] = ([], Inr [])"
  by (simp add: split_frames_stop)

lemma split_complete:
  assumes "limit \<le> MAX_UINT32"
  shows "split_frames limit bs = (fs, Inr []) \<longleftrightarrow>
    bs = concat (map frame_bytes fs) \<and> (\<forall>p \<in> set fs. length p \<le> limit)"
proof (induction fs arbitrary: bs)
  case Nil
  show ?case
  proof (cases rule: split_frames_cases [of bs limit])
    case stop
    then show ?thesis by (simp add: split_frames_stop)
  next
    case long
    then show ?thesis by (auto simp: split_frames_long)
  next
    case full
    then show ?thesis by (auto simp: split_frames_full Let_def)
  qed
next
  case (Cons p fs)
  show ?case
  proof
    assume split: "split_frames limit bs = (p # fs, Inr [])"
    let ?n = "be_nat (take 4 bs)"
    have full: "?n \<le> limit" "4 + ?n \<le> length bs"
      using split split_frames_stop [of bs limit] split_frames_long [of bs limit] by (force simp: not_le)+
    have p: "p = take ?n (drop 4 bs)" "split_frames limit (drop (4 + ?n) bs) = (fs, Inr [])"
      using split split_frames_full [OF full] by (auto simp: Let_def prod_eq_iff)
    have "be_bytes 4 (length p) = take 4 bs"
      using full p(1) be_bytes_nat [of "take 4 bs"] by simp
    moreover have "take 4 bs @ take ?n (drop 4 bs) @ drop (4 + ?n) bs = bs"
      by (metis append_take_drop_id drop_drop add.commute)
    ultimately have "bs = frame_bytes p @ drop (4 + ?n) bs" using p(1) by (simp add: frame_bytes_def)
    then show "bs = concat (map frame_bytes (p # fs)) \<and> (\<forall>q \<in> set (p # fs). length q \<le> limit)"
      using Cons.IH p full by auto
  next
    assume "bs = concat (map frame_bytes (p # fs)) \<and> (\<forall>q \<in> set (p # fs). length q \<le> limit)"
    then show "split_frames limit bs = (p # fs, Inr [])"
      using Cons.IH [of "concat (map frame_bytes fs)"] assms by (simp add: split_frame_bytes)
  qed
qed

lemma end_open:
  assumes "frame_inv d" "decoderState d = Open"
  shows "fst (end_decoder d) = Inr () \<longleftrightarrow> pending d = []"
proof -
  have "length (be_bytes 4 n) = 4" for n by simp
  then have "be_bytes 4 n \<noteq> []" for n by (metis list.size(3) zero_neq_numeral)
  then show ?thesis
    using assms by (auto simp: end_decoder_def closed_error_def pending_def frame_inv_def split: option.splits)
qed


lemma new_decoder_open:
  assumes "new_frame_decoder options = Inr d"
  shows "open_with (maxFrameLength d) d" "pending d = []" "maxFrameLength d \<le> MAX_UINT32"
  using assms
  by (auto simp: new_frame_decoder_def bindE_eq_Inr open_with_def frame_inv_def pending_def
      FRAME_HEADER_LENGTH_def resolveMaxFrameLength_def Let_def split: if_splits)

lemma stream_accepts:
  assumes "new_frame_decoder options = Inr d"
  shows "(\<exists>d'. feed_chunks (\<lambda>c. push (JBytes c)) chunks d = Some (Inr fs, d') \<and> fst (end_decoder d') = Inr ()) \<longleftrightarrow>
    concat chunks = concat (map frame_bytes fs) \<and> (\<forall>p \<in> set fs. length p \<le> maxFrameLength d)"
proof -
  note d = new_decoder_open [OF assms]
  have "(\<exists>d'. feed_chunks (\<lambda>c. push (JBytes c)) chunks d = Some (Inr fs, d') \<and> fst (end_decoder d') = Inr ()) \<longleftrightarrow>
      split_frames (maxFrameLength d) (concat chunks) = (fs, Inr [])"
  proof (cases "split_frames (maxFrameLength d) (concat chunks)")
    case (Pair out r)
    show ?thesis
    proof (cases r)
      case (Inl n)
      then show ?thesis using frames.feed_bad [OF d(1), of chunks] d(2) Pair by auto
    next
      case (Inr rest)
      then obtain d' where "feed_chunks (\<lambda>c. push (JBytes c)) chunks d = Some (Inr out, d')"
        "open_with (maxFrameLength d) d'" "pending d' = rest"
        using frames.feed_ok [OF d(1), of chunks] d(2) Pair by auto
      then show ?thesis using Pair Inr end_open [of d'] by (auto simp: open_with_def)
    qed
  qed
  then show ?thesis using split_complete [OF d(3)] by simp
qed

section \<open>Properties\<close>

text \<open>
  C5: one \<open>push\<close> on an open decoder always returns (its loops terminate). It delivers exactly the
  complete frames of the buffered bytes followed by the chunk and keeps the incomplete rest, or
  throws the length error and fails when a frame exceeds the limit. The decoder invariant is kept.
\<close>

theorem push_refines_split:
  assumes "frame_inv d" "decoderState d = Open"
  shows "case split_frames (maxFrameLength d) (pending d @ chunk) of
      (fs, Inr rest) \<Rightarrow>
        (\<exists>d'. push (JBytes chunk) d = Some (Inr fs, d') \<and> frame_inv d' \<and> pending d' = rest \<and>
              decoderState d' = Open \<and> maxFrameLength d' = maxFrameLength d)
    | (fs, Inl n) \<Rightarrow>
        (\<exists>d'. push (JBytes chunk) d = Some (Inl (FrameError (frameTooLong n (maxFrameLength d))), d') \<and>
              decoderState d' = Failed)"
  using push_open [OF assms, of chunk] by (auto simp: push_spec_def split: prod.splits sum.splits)

definition sample_decoder :: frame_decoder where
  "sample_decoder = \<lparr>header = replicate 4 0, headerLength = 0, maxFrameLength = 8, payloadBlocks = [],
     currentPayloadBlock = None, currentPayloadBlockLength = 0, expectedPayloadLength = None,
     payloadLength = 0, decoderState = Open\<rparr>"

lemma sample_new: "new_frame_decoder (Some \<lparr>opt_maxFrameLength = Some (Integral 8)\<rparr>) = Inr sample_decoder"
  by (simp add: new_frame_decoder_def resolveMaxFrameLength_def or_default_def max_safe_integer_def
      MAX_UINT32_def FRAME_HEADER_LENGTH_def sample_decoder_def Let_def)

theorem push_refines_split_witness:
  "\<exists>d'. push (JBytes [0, 0, 0, 1, 7, 0, 0]) sample_decoder = Some (Inr [[7]], d') \<and> frame_inv d' \<and>
     pending d' = [0, 0] \<and> decoderState d' = Open \<and> maxFrameLength d' = 8"
proof -
  have d: "frame_inv sample_decoder" "decoderState sample_decoder = Open"
    by (simp_all add: sample_decoder_def frame_inv_def MAX_UINT32_def)
  have "split_frames 8 (frame_bytes [7] @ [0, 0]) = ([[7]], Inr [0, 0])"
    using split_frame_bytes [of 8 "[7]" "[0, 0]"] by (simp add: MAX_UINT32_def split_frames_stop)
  then have "split_frames (maxFrameLength sample_decoder) (pending sample_decoder @ [0, 0, 0, 1, 7, 0, 0]) =
      ([[7]], Inr [0, 0])"
    by (simp add: sample_decoder_def pending_def frame_bytes_def be_bytes_4)
  with push_refines_split [OF d, of "[0, 0, 0, 1, 7, 0, 0]"] show ?thesis by (simp add: sample_decoder_def)
qed

text \<open>
  for a fresh decoder and any cutting of a byte stream into chunks, pushing the chunks and ending
  the stream succeeds with the payloads \<open>fs\<close> if and only if the stream is the concatenation of the
  encoded frames of \<open>fs\<close> and each payload is within the limit.
\<close>

theorem frame_stream:
  assumes "new_frame_decoder options = Inr d"
  shows "(\<exists>d'. feed_chunks (\<lambda>c. push (JBytes c)) chunks d = Some (Inr fs, d') \<and> fst (end_decoder d') = Inr ()) \<longleftrightarrow>
    concat chunks = concat (map frame_bytes fs) \<and> (\<forall>p \<in> set fs. length p \<le> maxFrameLength d)"
  using assms by (rule stream_accepts)

theorem frame_stream_witness:
  "\<exists>d'. feed_chunks (\<lambda>c. push (JBytes c)) [[0], [0, 0, 1, 7, 0, 0], [0, 0]] sample_decoder = Some (Inr [[7], []], d') \<and>
     fst (end_decoder d') = Inr ()"
  using frame_stream [OF sample_new, of "[[0], [0, 0, 1, 7, 0, 0], [0, 0]]" "[[7], []]"]
  by (simp add: frame_bytes_def be_bytes_4 sample_decoder_def)

text \<open>
  \<open>assertCompleteFrame\<close> accepts exactly the encoding of one payload within the configured limit.
\<close>

theorem assertCompleteFrame_exact:
  "assertCompleteFrame (JBytes frame) options = Inr () \<longleftrightarrow>
     (\<exists>limit payload. resolveMaxFrameLength options = Inr limit \<and> length payload \<le> limit \<and>
        encodeFrame (JBytes payload) = Inr frame)"
proof -
  have limit: "limit \<le> MAX_UINT32" if "resolveMaxFrameLength options = Inr limit" for limit
    using that by (auto simp: resolveMaxFrameLength_def Let_def split: if_splits)
  have hd_value: "header_value frame = be_nat (take 4 frame)" if "4 \<le> length frame"
    using header_value_be_nat [of "take 4 frame"] that by (simp add: header_value_def)
  show ?thesis
  proof
    assume "assertCompleteFrame (JBytes frame) options = Inr ()"
    then obtain l where l: "resolveMaxFrameLength options = Inr l" "4 \<le> length frame"
      "be_nat (take 4 frame) \<le> l" "length frame = 4 + be_nat (take 4 frame)"
      by (auto simp: FRAME_HEADER_LENGTH_def Let_def bindE_eq_Inr hd_value split: if_splits)
    have "frame_bytes (drop 4 frame) = take 4 frame @ drop 4 frame"
      using l(4) be_bytes_nat [of "take 4 frame"] by (simp add: frame_bytes_def)
    then show "\<exists>limit payload. resolveMaxFrameLength options = Inr limit \<and> length payload \<le> limit \<and>
        encodeFrame (JBytes payload) = Inr frame"
      using l limit [OF l(1)] encodeFrame_bytes [of "drop 4 frame"] by (intro exI [of _ l] exI [of _ "drop 4 frame"]) auto
  next
    assume "\<exists>limit payload. resolveMaxFrameLength options = Inr limit \<and> length payload \<le> limit \<and>
        encodeFrame (JBytes payload) = Inr frame"
    then obtain l p where l: "resolveMaxFrameLength options = Inr l" "length p \<le> l" "frame = frame_bytes p"
      using limit encodeFrame_bytes by fastforce
    then show "assertCompleteFrame (JBytes frame) options = Inr ()"
      using hd_value limit [OF l(1)] be_nat_header [of "length p"]
      by (simp add: FRAME_HEADER_LENGTH_def Let_def frame_bytes_def)
  qed
qed

end
