(* ===== verification/Codec.thy ===== *)
theory Codec
  imports Framing
begin

text \<open>
  The protocol codec (packages/protocol/src/codec.ts): structural validation, encoding of one
  message into a frame, and the validated incremental decoder that both ends of the wire use.
  The schema check of the typebox library is the parameter \<open>check\<close> of every definition that
  uses it.
\<close>

section \<open>Validation\<close>

fun isProtocolValue :: "bool \<Rightarrow> jsval \<Rightarrow> bool"
and slots_protocol :: "jsval option list \<Rightarrow> bool"
and props_protocol :: "props \<Rightarrow> bool"
where
  "isProtocolValue optionalProperty JUndefined = optionalProperty"
| "isProtocolValue optionalProperty JNull = True"
| "isProtocolValue optionalProperty (JBool b) = True"
| "isProtocolValue optionalProperty (JNum n) = True"
| "isProtocolValue optionalProperty (JStr s) = True"
| "isProtocolValue optionalProperty (JBytes bs) = False"
| "isProtocolValue optionalProperty (JArr vs) = slots_protocol vs"
| "isProtocolValue optionalProperty (JObj p sy ps) = (p = ProtoObject \<and> props_protocol ps)"
| "isProtocolValue optionalProperty JBackRef = False"
| "isProtocolValue optionalProperty (JOther t) = False"
| "slots_protocol [] = True"
| "slots_protocol (slot # slots) =
     ((case slot of None \<Rightarrow> True | Some v \<Rightarrow> isProtocolValue False v) \<and> slots_protocol slots)"
| "props_protocol [] = True"
| "props_protocol ((k, v) # ps) = (isProtocolValue True v \<and> props_protocol ps)"

definition parseMessage :: "string \<Rightarrow> (jsval \<Rightarrow> bool) \<Rightarrow> jsval \<Rightarrow> protocol_exn + jsval" where
  "parseMessage kind check v =
     (if \<not> isProtocolValue False v \<or> \<not> check v
      then Inl (ProtocolValidationError (''Invalid '' @ kind @ '' protocol message''))
      else Inr v)"

definition parseClientMessage :: "(jsval \<Rightarrow> bool) \<Rightarrow> jsval \<Rightarrow> protocol_exn + jsval" where
  "parseClientMessage check v = parseMessage ''client'' check v"

definition parseServerMessage :: "(jsval \<Rightarrow> bool) \<Rightarrow> jsval \<Rightarrow> protocol_exn + jsval" where
  "parseServerMessage check v = parseMessage ''server'' check v"

fun error_message :: "protocol_exn \<Rightarrow> string" where
  "error_message (CborError m) = m"
| "error_message (FrameError m) = m"
| "error_message (RangeError m) = m"
| "error_message (TypeError m) = m"
| "error_message (ProtocolValidationError m) = m"

definition boundedErrorMessage :: "protocol_exn \<Rightarrow> string" where
  "boundedErrorMessage e =
     (if length (error_message e) \<le> 500 then error_message e
      else take 497 (error_message e) @ ''...'')"

fun is_validation_error :: "protocol_exn \<Rightarrow> bool" where
  "is_validation_error (ProtocolValidationError m) = True"
| "is_validation_error _ = False"

section \<open>Encoding\<close>

definition configured_length :: "frame_options option \<Rightarrow> jsnum" where
  "configured_length options =
     or_default (case options of None \<Rightarrow> None | Some opts \<Rightarrow> opt_maxFrameLength opts) DEFAULT_MAX_FRAME_LENGTH"

definition cbor_limit :: "jsnum \<Rightarrow> cbor_options option" where
  "cbor_limit n = Some \<lparr>opt_maxByteLength = Some n, opt_maxContainerLength = None, opt_maxDepth = None\<rparr>"

definition encodeProtocolMessage ::
  "jsval \<Rightarrow> (jsval \<Rightarrow> protocol_exn + jsval) \<Rightarrow> string \<Rightarrow> frame_options option \<Rightarrow> protocol_exn + byte list" where
  "encodeProtocolMessage v parse kind options =
     bindE (parse v) (\<lambda>validated.
     let maxLength = configured_length options;
         result =
           bindE (encodeCbor validated (cbor_limit maxLength)) (\<lambda>payload.
           bindE (encodeFrame (JBytes payload)) (\<lambda>frame.
           bindE (assertCompleteFrame (JBytes frame) (Some \<lparr>opt_maxFrameLength = Some maxLength\<rparr>)) (\<lambda>_.
           Inr frame))) in
     case result of
       Inr frame \<Rightarrow> Inr frame
     | Inl e \<Rightarrow>
         if is_validation_error e then Inl e
         else Inl (ProtocolValidationError
                (''Unable to encode '' @ kind @ '' protocol message: '' @ boundedErrorMessage e)))"

definition encodeClientMessage :: "(jsval \<Rightarrow> bool) \<Rightarrow> jsval \<Rightarrow> frame_options option \<Rightarrow> protocol_exn + byte list" where
  "encodeClientMessage check m options = encodeProtocolMessage m (parseClientMessage check) ''client'' options"

definition encodeServerMessage :: "(jsval \<Rightarrow> bool) \<Rightarrow> jsval \<Rightarrow> frame_options option \<Rightarrow> protocol_exn + byte list" where
  "encodeServerMessage check m options = encodeProtocolMessage m (parseServerMessage check) ''server'' options"

section \<open>The validated decoder\<close>

record message_decoder =
  md_failed :: bool
  md_frames :: frame_decoder
  md_kind :: string
  md_maxFrameLength :: jsnum

definition new_message_decoder :: "string \<Rightarrow> frame_options option \<Rightarrow> protocol_exn + message_decoder" where
  "new_message_decoder kind options =
     bindE (new_frame_decoder options) (\<lambda>fd.
     Inr \<lparr>md_failed = False, md_frames = fd, md_kind = kind, md_maxFrameLength = configured_length options\<rparr>)"

definition decoder_failed :: "message_decoder \<Rightarrow> protocol_exn" where
  "decoder_failed d = ProtocolValidationError (md_kind d @ '' message decoder has failed'')"

primrec decode_frames ::
  "(jsval \<Rightarrow> protocol_exn + jsval) \<Rightarrow> jsnum \<Rightarrow> byte list list \<Rightarrow> protocol_exn + jsval list" where
  "decode_frames parse limit [] = Inr []"
| "decode_frames parse limit (frame # frames) =
     bindE (decodeCbor (JBytes frame) (cbor_limit limit)) (\<lambda>v.
     bindE (parse v) (\<lambda>m.
     bindE (decode_frames parse limit frames) (\<lambda>ms. Inr (m # ms))))"

definition push_messages ::
  "(jsval \<Rightarrow> protocol_exn + jsval) \<Rightarrow> jsval \<Rightarrow> message_decoder \<Rightarrow>
   ((protocol_exn + jsval list) \<times> message_decoder) option" where
  "push_messages parse chunk d =
     (if md_failed d then Some (Inl (decoder_failed d), d)
      else map_option (\<lambda>(r, fd).
        case bindE r (decode_frames parse (md_maxFrameLength d)) of
          Inr messages \<Rightarrow> (Inr messages, d\<lparr>md_frames := fd\<rparr>)
        | Inl e \<Rightarrow>
            (Inl (if is_validation_error e then e
                  else ProtocolValidationError
                    (''Invalid '' @ md_kind d @ '' protocol frame: '' @ boundedErrorMessage e)),
             d\<lparr>md_frames := fd, md_failed := True\<rparr>)) (push chunk (md_frames d)))"

definition end_messages :: "message_decoder \<Rightarrow> (protocol_exn + unit) \<times> message_decoder" where
  "end_messages d =
     (if md_failed d then (Inl (decoder_failed d), d)
      else case end_decoder (md_frames d) of
        (Inr u, fd) \<Rightarrow> (Inr (), d\<lparr>md_frames := fd\<rparr>)
      | (Inl e, fd) \<Rightarrow>
          (Inl (ProtocolValidationError
             (''Invalid '' @ md_kind d @ '' protocol framing: '' @ boundedErrorMessage e)),
           d\<lparr>md_frames := fd, md_failed := True\<rparr>))"

definition createClientMessageDecoder :: "frame_options option \<Rightarrow> protocol_exn + message_decoder" where
  "createClientMessageDecoder options = new_message_decoder ''client'' options"

definition createServerMessageDecoder :: "frame_options option \<Rightarrow> protocol_exn + message_decoder" where
  "createServerMessageDecoder options = new_message_decoder ''server'' options"

definition PROTOCOL_VERSION :: jsnum where "PROTOCOL_VERSION = Integral 1"

definition isSupportedProtocolVersion :: "jsnum \<Rightarrow> bool" where
  "isSupportedProtocolVersion version \<longleftrightarrow> is_integer_num version \<and> version = PROTOCOL_VERSION"


section \<open>Messages survive the wire\<close>

lemma normal_protocol:
  "isProtocolValue opt v \<Longrightarrow> isProtocolValue opt (normal v)"
  "slots_protocol vs \<Longrightarrow> slots_protocol (normal_slots vs)"
  "props_protocol ps \<Longrightarrow> props_protocol (normal_props ps)"
  by (induction opt v and vs and ps rule: isProtocolValue_slots_protocol_props_protocol.induct)
    (auto split: option.splits)

definition encodes :: "jsval \<Rightarrow> frame_options option \<Rightarrow> byte list \<Rightarrow> bool" where
  "encodes v options payload \<longleftrightarrow>
     encodeCbor v (cbor_limit (configured_length options)) = Inr payload \<and>
     (\<exists>limit. resolveMaxFrameLength options = Inr limit \<and> length payload \<le> limit)"

lemma resolve_configured:
  "resolveMaxFrameLength (Some \<lparr>opt_maxFrameLength = Some (configured_length options)\<rparr>) = resolveMaxFrameLength options"
  by (simp add: resolveMaxFrameLength_def configured_length_def or_default_def)

lemma resolve_le: "resolveMaxFrameLength options = Inr limit \<Longrightarrow> limit \<le> MAX_UINT32"
  by (auto simp: resolveMaxFrameLength_def Let_def split: if_splits)

lemma encode_message_frame:
  assumes "encodeProtocolMessage v (parseMessage kind check) kind options = Inr frame"
  obtains payload where "encodes v options payload" "frame = frame_bytes payload"
    "isProtocolValue False v" "check v"
proof -
  let ?L = "configured_length options"
  from assms have ok: "isProtocolValue False v" "check v"
    by (auto simp: encodeProtocolMessage_def parseMessage_def split: if_splits)
  from assms ok obtain payload where p: "encodeCbor v (cbor_limit ?L) = Inr payload"
    "encodeFrame (JBytes payload) = Inr frame"
    "assertCompleteFrame (JBytes frame) (Some \<lparr>opt_maxFrameLength = Some ?L\<rparr>) = Inr ()"
    by (auto simp: encodeProtocolMessage_def parseMessage_def Let_def bindE_eq_Inr split: sum.splits if_splits)
  then have len: "length payload \<le> MAX_UINT32" by (auto split: if_splits)
  with p(2) have frame: "frame = frame_bytes payload" by (simp add: encodeFrame_bytes del: encodeFrame.simps)
  have "header_value frame = length payload"
  proof -
    have "header_value frame = header_value (be_bytes 4 (length payload))"
      by (simp add: frame header_value_def frame_bytes_def nth_append)
    then show ?thesis using len by (simp add: header_value_be_nat be_nat_header)
  qed
  with p(3) obtain limit where "resolveMaxFrameLength options = Inr limit" "length payload \<le> limit"
    by (auto simp: bindE_eq_Inr Let_def resolve_configured split: if_splits)
  with p(1) have "encodes v options payload" by (auto simp: encodes_def)
  then show ?thesis using that frame ok by blast
qed

lemma decode_frames_encoded:
  assumes "list_all2 (\<lambda>m p. encodes m options p \<and> wf_val m \<and> isProtocolValue False m \<and> check (normal m)) ms ps"
  shows "decode_frames (parseMessage kind check) (configured_length options) ps = Inr (map normal ms)"
  using assms
proof (induction ms ps rule: list_all2_induct)
  case (Cons m ms p ps)
  then have "decodeCbor (JBytes p) (cbor_limit (configured_length options)) = Inr (normal m)"
    unfolding encodes_def by (blast intro: decode_encode)
  with Cons show ?case by (simp add: parseMessage_def normal_protocol del: decodeCbor.simps)
qed simp

lemma decode_frames_append:
  "decode_frames parse limit (as @ bs) =
     bindE (decode_frames parse limit as) (\<lambda>xs. bindE (decode_frames parse limit bs) (\<lambda>ys. Inr (xs @ ys)))"
  by (induction as) (simp_all add: bindE_assoc del: decodeCbor.simps,
      cases "decode_frames parse limit bs", simp_all)

lemma map_sum_Inr_elim:
  assumes "map_sum id f x = Inr y"
  obtains z where "x = Inr z" "y = f z"
  using assms by (cases x) auto

text \<open>Feeding the message decoder is feeding its frame decoder and decoding what comes out.\<close>

lemma feed_messages:
  assumes "feed_chunks (\<lambda>c. push (JBytes c)) chunks (md_frames d) = Some (Inr fs, fd)"
    "decode_frames parse (md_maxFrameLength d) fs = Inr ms" "\<not> md_failed d"
  shows "feed_chunks (\<lambda>c. push_messages parse (JBytes c)) chunks d = Some (Inr ms, d\<lparr>md_frames := fd\<rparr>)"
  using assms
proof (induction chunks arbitrary: d fs ms)
  case (Cons c cs)
  from Cons.prems(1) obtain r fd1 where push: "push (JBytes c) (md_frames d) = Some (r, fd1)"
    by (cases "push (JBytes c) (md_frames d)") auto
  with Cons.prems(1) obtain f1 where r: "r = Inr f1" by (cases r) auto
  with push Cons.prems(1) obtain f2 where rest:
    "feed_chunks (\<lambda>c. push (JBytes c)) cs fd1 = Some (Inr f2, fd)" "fs = f1 @ f2"
    by (auto split: sum.splits elim!: map_sum_Inr_elim)
  from Cons.prems(2) rest(2) obtain m1 m2 where
    m: "decode_frames parse (md_maxFrameLength d) f1 = Inr m1"
      "decode_frames parse (md_maxFrameLength d) f2 = Inr m2" "ms = m1 @ m2"
    by (auto simp: decode_frames_append bindE_eq_Inr)
  have "feed_chunks (\<lambda>c. push_messages parse (JBytes c)) cs (d\<lparr>md_frames := fd1\<rparr>) =
      Some (Inr m2, d\<lparr>md_frames := fd\<rparr>)"
    using Cons.IH [of "d\<lparr>md_frames := fd1\<rparr>" f2 m2] rest(1) m(2) Cons.prems(3) by simp
  moreover have "push_messages parse (JBytes c) d = Some (Inr m1, d\<lparr>md_frames := fd1\<rparr>)"
    using push r m(1) Cons.prems(3) by (simp add: push_messages_def)
  ultimately show ?case using m(3) by simp
qed (auto)


section \<open>Properties\<close>

text \<open>
  C1: messages encoded for one side and cut into arbitrary chunks are decoded by the peer's
  validated decoder, with the same frame-length option, to the same messages in the same order (in
  normal form: undefined properties dropped), and the stream then ends cleanly. The schema check is
  a parameter; the property asks that it accepts the messages without their undefined properties.
\<close>

theorem messages_round_trip:
  assumes d: "new_message_decoder kind options = Inr d"
    and enc: "list_all2 (\<lambda>m f. encodeProtocolMessage m (parseMessage kind check) kind options = Inr f \<and>
       wf_val m \<and> check (normal m)) ms frames"
    and stream: "concat chunks = concat frames"
  shows "\<exists>d'. feed_chunks (\<lambda>c. push_messages (parseMessage kind check) (JBytes c)) chunks d =
      Some (Inr (map normal ms), d') \<and> fst (end_messages d') = Inr ()"
proof -
  from d obtain fd where fd: "new_frame_decoder options = Inr fd" "md_frames d = fd" "\<not> md_failed d"
    "md_maxFrameLength d = configured_length options"
    by (auto simp: new_message_decoder_def bindE_eq_Inr)
  have limit: "resolveMaxFrameLength options = Inr (maxFrameLength fd)"
    using fd(1) by (auto simp: new_frame_decoder_def bindE_eq_Inr)
  have "\<exists>ps. list_all2 (\<lambda>m p. encodes m options p \<and> wf_val m \<and> isProtocolValue False m \<and> check (normal m)) ms ps \<and>
      frames = map frame_bytes ps"
    using enc
  proof (induction ms frames rule: list_all2_induct)
    case (Cons m ms f fs)
    from Cons obtain ps where "list_all2 (\<lambda>m p. encodes m options p \<and> wf_val m \<and> isProtocolValue False m \<and>
        check (normal m)) ms ps" "fs = map frame_bytes ps" by blast
    moreover from Cons.hyps(1) obtain p where "encodes m options p" "f = frame_bytes p" "isProtocolValue False m"
      by (auto elim: encode_message_frame)
    ultimately show ?case using Cons.hyps(1) by (intro exI [of _ "p # ps"]) auto
  qed simp
  then obtain ps where ps: "list_all2 (\<lambda>m p. encodes m options p \<and> wf_val m \<and> isProtocolValue False m \<and>
      check (normal m)) ms ps" "frames = map frame_bytes ps" by blast
  then have "\<forall>p \<in> set ps. length p \<le> maxFrameLength fd"
    using limit by (auto simp: list_all2_conv_all_nth in_set_conv_nth encodes_def)
  then obtain fd' where fd': "feed_chunks (\<lambda>c. push (JBytes c)) chunks fd = Some (Inr ps, fd')"
    "fst (end_decoder fd') = Inr ()"
    using stream_accepts [OF fd(1), of chunks ps] stream ps(2) by auto
  have "feed_chunks (\<lambda>c. push_messages (parseMessage kind check) (JBytes c)) chunks d =
      Some (Inr (map normal ms), d\<lparr>md_frames := fd'\<rparr>)"
    using feed_messages [of chunks d ps fd' "parseMessage kind check"] fd fd'(1) decode_frames_encoded [OF ps(1)]
    by simp
  moreover have "fst (end_messages (d\<lparr>md_frames := fd'\<rparr>)) = Inr ()"
    using fd(3) fd'(2) by (auto simp: end_messages_def split: prod.splits sum.splits)
  ultimately show ?thesis by blast
qed


definition sample_check :: "jsval \<Rightarrow> bool" where
  "sample_check v = (case v of JObj p sy ps \<Rightarrow> map_has ps [116] | _ \<Rightarrow> False)"

definition sample_message :: jsval where
  "sample_message = JObj ProtoObject False [([116], JStr [112]), ([117], JUndefined)]"

definition sample_limit :: "frame_options option" where
  "sample_limit = Some \<lparr>opt_maxFrameLength = Some (Integral 100)\<rparr>"

lemma sample_cbor:
  "encodeCbor sample_message (cbor_limit (configured_length sample_limit)) = Inr [0xa1, 0x61, 116, 0x61, 112]"
proof -
  have r: "resolveOptions (cbor_limit (configured_length sample_limit)) =
      Inr \<lparr>maxByteLength = 100, maxContainerLength = 1000000, maxDepth = 64\<rparr>"
    by (simp add: resolveOptions_def cbor_limit_def configured_length_def sample_limit_def resolveLimit_def
        or_default_def max_safe_integer_def MAX_UINT32_def MAX_CONFIGURED_DEPTH_def
        DEFAULT_MAX_CBOR_CONTAINER_LENGTH_def DEFAULT_MAX_CBOR_DEPTH_def)
  show ?thesis
    unfolding encodeCbor_resolved [OF r]
    by (simp add: sample_message_def admissible.simps is_undefined_def text_ok_def text_bytes_def
        utf8_encode_def utf8_of_cp_def lone_code_point_def is_high_surrogate_def is_low_surrogate_def
        arg_bytes_def)
qed

lemma sample_message_frame:
  "encodeProtocolMessage sample_message (parseMessage ''client'' sample_check) ''client'' sample_limit =
     Inr [0, 0, 0, 5, 0xa1, 0x61, 116, 0x61, 112]"
proof -
  have frame: "encodeFrame (JBytes [0xa1, 0x61, 116, 0x61, 112]) = Inr [0, 0, 0, 5, 0xa1, 0x61, 116, 0x61, 112]"
    by (simp add: encodeFrame_bytes frame_bytes_def be_bytes_4 MAX_UINT32_def del: encodeFrame.simps)
  have parse: "parseMessage ''client'' sample_check sample_message = Inr sample_message"
    by (simp add: parseMessage_def sample_check_def sample_message_def)
  have accept: "assertCompleteFrame (JBytes [0, 0, 0, 5, 0xa1, 0x61, 116, 0x61, 112])
      (Some \<lparr>opt_maxFrameLength = Some (configured_length sample_limit)\<rparr>) = Inr ()"
    by (simp add: FRAME_HEADER_LENGTH_def header_value_def Let_def resolve_configured)
      (simp add: resolveMaxFrameLength_def sample_limit_def or_default_def max_safe_integer_def MAX_UINT32_def)
  show ?thesis
    unfolding encodeProtocolMessage_def parse bindE_simps Let_def sample_cbor frame accept by simp
qed

theorem messages_round_trip_witness:
  "\<exists>d d'. new_message_decoder ''client'' sample_limit = Inr d \<and>
     feed_chunks (\<lambda>c. push_messages (parseMessage ''client'' sample_check) (JBytes c))
       [[0, 0, 0, 5, 0xa1], [], [0x61, 116, 0x61, 112]] d =
       Some (Inr [JObj ProtoObject False [([116], JStr [112])]], d') \<and> fst (end_messages d') = Inr ()"
proof -
  obtain d where d: "new_message_decoder ''client'' sample_limit = Inr d"
    by (auto simp: new_message_decoder_def new_frame_decoder_def resolveMaxFrameLength_def sample_limit_def
        or_default_def max_safe_integer_def MAX_UINT32_def)
  have norm: "normal sample_message = JObj ProtoObject False [([116], JStr [112])]"
    by (simp add: sample_message_def is_undefined_def)
  have m: "wf_val sample_message" "sample_check (normal sample_message)"
    by (simp_all add: norm sample_check_def)
      (simp add: sample_message_def props_ordered_def key_before_def array_index_def is_digit_def)
  from messages_round_trip [OF d, of sample_check "[sample_message]" "[[0, 0, 0, 5, 0xa1, 0x61, 116, 0x61, 112]]"
      "[[0, 0, 0, 5, 0xa1], [], [0x61, 116, 0x61, 112]]"]
  show ?thesis using d m norm sample_message_frame by auto
qed

end
