(* ===== verification/Session_Types.thy ===== *)
theory Session_Types
  imports Js_Value
begin

text \<open>
  The data of the session core (packages/agent/src/harness/session/types.ts and the message
  types it refers to): entries of the conversation tree, operation records, queries, log items
  and errors. The common part of an entry or record is a record, its variant part a datatype
  with one constructor per member of the union. Payloads the session code never looks into
  (tool arguments, details, provider data) stay JavaScript values. A value copied by
  \<open>structuredClone\<close> is the same value of the model.
\<close>

section \<open>Messages\<close>

datatype stop_reason = StopPending | StopStop | StopLength | StopToolUse | StopError | StopAborted | StopDeferred

text \<open>
  Token counts are integers. Costs are doubles that are only ever added up: the model keeps the
  bit pattern of each cost.
\<close>

record usage =
  u_input :: int
  u_output :: int
  u_cacheRead :: int
  u_cacheWrite :: int
  u_totalTokens :: int
  u_costTotal :: "64 word"
  u_rest :: props

record deferred_handle =
  dh_provider :: string
  dh_modelId :: string
  dh_api :: string
  dh_id :: string
  dh_rest :: props

record tool_call =
  tc_id :: string
  tc_name :: string
  tc_arguments :: jsval
  tc_rest :: props

datatype assistant_content =
    TextPart string props
  | ThinkingPart string props
  | ToolCallPart tool_call

record assistant_message =
  am_content :: "assistant_content list"
  am_api :: string
  am_provider :: string
  am_model :: string
  am_usage :: usage
  am_stopReason :: stop_reason
  am_deferred :: "deferred_handle option"
  am_errorMessage :: "string option"
  am_timestamp :: int
  am_rest :: props

datatype message_role =
    RoleUser | RoleAssistant | RoleToolResult | RoleBashExecution | RoleCustom
  | RoleBranchSummary | RoleCompactionSummary

datatype agent_message =
    UserMessage (user_content: jsval) (user_timestamp: int)
  | AssistantMessage assistant_message
  | ToolResultMessage (tr_toolCallId: string) (tr_toolName: string) (tr_content: jsval)
      (tr_isError: bool) (tr_timestamp: int) (tr_rest: props)
  | BashExecutionMessage (be_command: string) (be_output: string) (be_exitCode: "int option")
      (be_cancelled: bool) (be_truncated: bool) (be_fullOutputPath: "string option")
      (be_timestamp: int) (be_excludeFromContext: bool)
  | CustomMessage (cm_customType: string) (cm_content: jsval) (cm_display: bool)
      (cm_details: "jsval option") (cm_timestamp: int)
  | BranchSummaryMessage (bs_summary: string) (bs_fromId: string) (bs_timestamp: int)
  | CompactionSummaryMessage (cs_summary: string) (cs_tokensBefore: int) (cs_timestamp: int)

fun role_of :: "agent_message \<Rightarrow> message_role" where
  "role_of (UserMessage c t) = RoleUser"
| "role_of (AssistantMessage m) = RoleAssistant"
| "role_of (ToolResultMessage i n c e t r) = RoleToolResult"
| "role_of (BashExecutionMessage c out x ca tr p t ex) = RoleBashExecution"
| "role_of (CustomMessage ct c d de t) = RoleCustom"
| "role_of (BranchSummaryMessage s f t) = RoleBranchSummary"
| "role_of (CompactionSummaryMessage s n t) = RoleCompactionSummary"

section \<open>Entries\<close>

datatype entry_type =
    TypeMessage | TypeModelChange | TypeThinkingLevelChange | TypeActiveToolsChange
  | TypeCompaction | TypeBranchSummary | TypeCustom

datatype entry_data =
    MessageEntry agent_message bool
  | ModelChangeEntry string string
  | ThinkingLevelEntry string
  | ActiveToolsEntry "string list"
  | CompactionEntry string "agent_message list" int "jsval option" "usage option"
  | BranchSummaryEntry string string "jsval option" "usage option"
  | CustomEntry string "jsval option"

fun entry_type_of :: "entry_data \<Rightarrow> entry_type" where
  "entry_type_of (MessageEntry m t) = TypeMessage"
| "entry_type_of (ModelChangeEntry p i) = TypeModelChange"
| "entry_type_of (ThinkingLevelEntry l) = TypeThinkingLevelChange"
| "entry_type_of (ActiveToolsEntry ns) = TypeActiveToolsChange"
| "entry_type_of (CompactionEntry s r t d u) = TypeCompaction"
| "entry_type_of (BranchSummaryEntry f s d u) = TypeBranchSummary"
| "entry_type_of (CustomEntry t d) = TypeCustom"

record entry =
  e_id :: string
  e_seq :: nat
  e_parentId :: "string option"
  e_timestamp :: int
  e_data :: entry_data

abbreviation e_type :: "entry \<Rightarrow> entry_type" where
  "e_type e \<equiv> entry_type_of (e_data e)"

record provisioned_entry =
  p_id :: string
  p_data :: entry_data

section \<open>Operation records\<close>

datatype operation_intent =
    RunIntent (originalPrompt: "agent_message list") (initialMessages: "provisioned_entry list")
      (systemPromptOverride: "string option") (resumeData: "jsval option")
  | CompactionIntent (compactionInstructions: "string option") (compactionResultId: string)
  | NavigationIntent (navTargetId: "string option") (navSummarize: bool)
      (navInstructions: "string option") (navLabel: "string option") (navSummaryEntryId: "string option")

datatype operation_kind = KindRun | KindCompaction | KindNavigation

fun intent_kind :: "operation_intent \<Rightarrow> operation_kind" where
  "intent_kind (RunIntent a b c d) = KindRun"
| "intent_kind (CompactionIntent a b) = KindCompaction"
| "intent_kind (NavigationIntent a b c d e) = KindNavigation"

datatype operation_outcome = OutcomeCompleted | OutcomeAborted | OutcomeFailed | OutcomeDeclined

datatype step_kind = StepAssistant | StepCompaction | StepBranchSummary

datatype queue_kind = QueueSteer | QueueFollowUp | QueueNextRun

datatype replay_mode = ReplayNever | ReplaySafe

datatype usage_cause =
    StepUsage (su_cause: string) (su_runId: string) (su_entryId: string) (su_attempt: nat) (su_stop: stop_reason)
  | ToolUsage (tu_runId: string) (tu_entryId: string) (tu_toolCallId: string)
  | HookUsage (hu_runId: string) (hu_entryId: string)
  | AdjustmentUsage (au_runId: "string option") (au_entryId: "string option") (au_details: "jsval option")

datatype record_data =
    OperationStarted (os_sourceLeafId: "string option") (os_intent: operation_intent)
  | AbortRequested (ar_runId: string)
  | OperationFinished (of_runId: string) (of_outcome: operation_outcome) (of_error: "(string \<times> string) option")
  | StepAttempt (sa_runId: string) (sa_step: step_kind) (sa_attempt: nat) (sa_resultEntryId: string)
      (sa_compactionReason: "string option")
  | ToolStarted (ts_runId: string) (ts_assistantEntryId: string) (ts_toolIndex: nat) (ts_toolCallId: string)
      (ts_toolName: string) (ts_effectiveArgs: jsval) (ts_resultEntryId: string) (ts_replay: replay_mode)
  | QueueEnqueued (qe_queue: queue_kind) (qe_runId: "string option") (qe_target: provisioned_entry)
  | QueueCancelled (qc_runId: "string option") (qc_entryId: string)
  | WriteDeferred (wd_runId: string) (wd_target: provisioned_entry)
  | UsageRecord (ur_cause: usage_cause) (ur_usage: usage)

datatype record_type =
    TypeOperationStarted | TypeAbortRequested | TypeOperationFinished | TypeStepAttempt
  | TypeToolStarted | TypeQueueEnqueued | TypeQueueCancelled | TypeWriteDeferred | TypeUsage

fun record_type_of :: "record_data \<Rightarrow> record_type" where
  "record_type_of (OperationStarted a b) = TypeOperationStarted"
| "record_type_of (AbortRequested a) = TypeAbortRequested"
| "record_type_of (OperationFinished a b c) = TypeOperationFinished"
| "record_type_of (StepAttempt a b c d e) = TypeStepAttempt"
| "record_type_of (ToolStarted a b c d e f g h) = TypeToolStarted"
| "record_type_of (QueueEnqueued a b c) = TypeQueueEnqueued"
| "record_type_of (QueueCancelled a b) = TypeQueueCancelled"
| "record_type_of (WriteDeferred a b) = TypeWriteDeferred"
| "record_type_of (UsageRecord a b) = TypeUsage"

fun cause_run_id :: "usage_cause \<Rightarrow> string option" where
  "cause_run_id (StepUsage c r e a s) = Some r"
| "cause_run_id (ToolUsage r e t) = Some r"
| "cause_run_id (HookUsage r e) = Some r"
| "cause_run_id (AdjustmentUsage r e d) = r"

text \<open>The \<open>runId\<close> property of a record, when it has one; an operation start has none.\<close>

fun run_id_of :: "record_data \<Rightarrow> string option" where
  "run_id_of (OperationStarted a b) = None"
| "run_id_of (AbortRequested r) = Some r"
| "run_id_of (OperationFinished r b c) = Some r"
| "run_id_of (StepAttempt r b c d e) = Some r"
| "run_id_of (ToolStarted r b c d e f g h) = Some r"
| "run_id_of (QueueEnqueued q r t) = r"
| "run_id_of (QueueCancelled r e) = r"
| "run_id_of (WriteDeferred r t) = Some r"
| "run_id_of (UsageRecord c u) = cause_run_id c"

record lane_record =
  r_id :: string
  r_seq :: nat
  r_lane :: string
  r_timestamp :: int
  r_data :: record_data

record new_record =
  n_id :: string
  n_lane :: string
  n_data :: record_data

section \<open>Queries, log and metadata\<close>

datatype entry_order = NewestFirst | OldestFirst

record entry_query =
  q_type :: "entry_type option"
  q_customType :: "string option"
  q_order :: "entry_order option"
  q_limit :: "jsnum option"
  q_cursor :: "jsnum option"

record branch_bounds =
  b_stopAtType :: "entry_type option"
  b_stopAtId :: "string option"

record record_query =
  rq_lane :: "string option"
  rq_type :: "record_type option"
  rq_runId :: "string option"
  rq_operationKind :: "operation_kind option"
  rq_afterSeq :: "jsnum option"
  rq_order :: "entry_order option"
  rq_limit :: "jsnum option"

record log_options =
  lo_afterSeq :: "jsnum option"
  lo_limit :: "jsnum option"

record session_metadata =
  md_id :: string
  md_createdAt :: int
  md_parentSessionId :: "string option"

text \<open>\<open>costSummands\<close> lists the costs in the order in which they are added to \<open>costTotal\<close>.\<close>

record session_stats =
  messageCount :: nat
  cachedTokens :: int
  uncachedTokens :: int
  totalTokens :: int
  costSummands :: "64 word list"

datatype log_item =
    LogEntry nat entry
  | LogRecord nat lane_record
  | LogLane nat string "string option"
  | LogName nat "string option"
  | LogLabel nat string "string option"

fun log_seq :: "log_item \<Rightarrow> nat" where
  "log_seq (LogEntry s e) = s"
| "log_seq (LogRecord s r) = s"
| "log_seq (LogLane s l i) = s"
| "log_seq (LogName s n) = s"
| "log_seq (LogLabel s t l) = s"

datatype fork_position = ForkBefore | ForkAt

datatype fork_options =
    ForkBranch (forkEntryId: "string option") (forkPosition: "fork_position option")
  | ForkTree

datatype session_error_code =
    NotFound | AlreadyExists | InvalidEntry | InvalidPayload | InvalidLane | InvalidQuery
  | InvalidForkTarget | StorageError

datatype session_exn = SessionError session_error_code string

section \<open>Empty queries\<close>

definition any_entry :: entry_query where
  "any_entry = \<lparr>q_type = None, q_customType = None, q_order = None, q_limit = None, q_cursor = None\<rparr>"

definition no_bounds :: branch_bounds where
  "no_bounds = \<lparr>b_stopAtType = None, b_stopAtId = None\<rparr>"

end
