(* ===== verification/Session_State.thy ===== *)
theory Session_State
  imports Session_Types
begin

text \<open>
  The in-memory state of a session (packages/agent/src/harness/session/state.ts): the class
  \<open>SessionState\<close> as a record, \<open>applyMutation\<close> as the only operation that changes it, the
  queries, the walk from an entry to the root and the mutations of a fork.
\<close>

section \<open>State and mutations\<close>

datatype session_mutation =
    MutEntry "string option" entry
  | MutRecord lane_record
  | MutLane nat string "string option"
  | MutName nat "string option"
  | MutLabel nat string "string option"

record session_state =
  sequence :: nat
  usedIds :: "string list"
  entries :: "entry list"
  entriesById :: "(string \<times> entry) list"
  records :: "lane_record list"
  openOperationsByLane :: "(string \<times> (string \<times> lane_record) list) list"
  lanes :: "(string \<times> string option) list"
  log :: "log_item list"
  stats :: session_stats
  sessionName :: "string option"
  labels :: "(string \<times> string) list"

definition empty_stats :: session_stats where
  "empty_stats = \<lparr>messageCount = 0, cachedTokens = 0, uncachedTokens = 0, totalTokens = 0, costSummands = []\<rparr>"

definition new_state :: session_state where
  "new_state = \<lparr>sequence = 0, usedIds = [], entries = [], entriesById = [], records = [],
     openOperationsByLane = [], lanes = [(''main'', None)], log = [], stats = empty_stats,
     sessionName = None, labels = []\<rparr>"

definition nextSequence :: "session_state \<Rightarrow> nat" where
  "nextSequence s = sequence s + 1"

definition invalidMutation :: "string \<Rightarrow> session_exn" where
  "invalidMutation msg = SessionError InvalidEntry (''Invalid session mutation: '' @ msg)"

definition requireLane :: "string \<Rightarrow> session_state \<Rightarrow> session_exn + string option" where
  "requireLane lane s =
     (case map_of (lanes s) lane of
        None \<Rightarrow> Inl (SessionError InvalidLane (''Lane not found: '' @ lane))
      | Some leafId \<Rightarrow> Inr leafId)"

definition validateNewLane :: "string \<Rightarrow> session_state \<Rightarrow> session_exn + unit" where
  "validateNewLane lane s =
     guardE (map_has (lanes s) lane) (SessionError AlreadyExists (''Lane already exists: '' @ lane))"

definition validateTarget :: "string option \<Rightarrow> session_state \<Rightarrow> session_exn + unit" where
  "validateTarget targetId s =
     (case targetId of
        None \<Rightarrow> Inr ()
      | Some i \<Rightarrow> guardE (map_of (entriesById s) i = None) (SessionError NotFound (''Entry not found: '' @ i)))"

definition validateUnusedId :: "string \<Rightarrow> session_state \<Rightarrow> session_exn + unit" where
  "validateUnusedId i s =
     guardE (i \<in> set (usedIds s)) (SessionError AlreadyExists (''Session id already exists: '' @ i))"

fun mutation_seq :: "session_mutation \<Rightarrow> nat" where
  "mutation_seq (MutEntry lane e) = e_seq e"
| "mutation_seq (MutRecord r) = r_seq r"
| "mutation_seq (MutLane s l i) = s"
| "mutation_seq (MutName s n) = s"
| "mutation_seq (MutLabel s t l) = s"

definition check_lane_leaf :: "(string \<Rightarrow> session_exn) \<Rightarrow> string option \<Rightarrow> entry \<Rightarrow> session_state \<Rightarrow> session_exn + unit" where
  "check_lane_leaf invalid lane e s =
     (case lane of
        None \<Rightarrow> Inr ()
      | Some l \<Rightarrow>
          (case map_of (lanes s) l of
             None \<Rightarrow> Inl (invalid (''references missing lane '' @ l))
           | Some leafId \<Rightarrow> guardE (e_parentId e \<noteq> leafId) (invalid ''does not chain to the lane leaf'')))"

definition check_parent :: "(string \<Rightarrow> session_exn) \<Rightarrow> entry \<Rightarrow> session_state \<Rightarrow> session_exn + unit" where
  "check_parent invalid e s =
     (case e_parentId e of
        None \<Rightarrow> Inr ()
      | Some p \<Rightarrow> guardE (map_of (entriesById s) p = None) (invalid (''references missing parent '' @ p)))"

definition add_entry :: "string option \<Rightarrow> entry \<Rightarrow> session_state \<Rightarrow> session_state" where
  "add_entry lane e s =
     s\<lparr>sequence := e_seq e, usedIds := usedIds s @ [e_id e], entries := entries s @ [e],
       entriesById := map_put (e_id e) e (entriesById s),
       lanes := (case lane of None \<Rightarrow> lanes s | Some l \<Rightarrow> map_put l (Some (e_id e)) (lanes s)),
       log := log s @ [LogEntry (e_seq e) e],
       stats := (if e_type e = TypeMessage then (stats s)\<lparr>messageCount := messageCount (stats s) + 1\<rparr> else stats s)\<rparr>"

definition open_ops :: "string \<Rightarrow> session_state \<Rightarrow> (string \<times> lane_record) list" where
  "open_ops lane s = (case map_of (openOperationsByLane s) lane of None \<Rightarrow> [] | Some m \<Rightarrow> m)"

definition track_operation ::
  "lane_record \<Rightarrow> session_state \<Rightarrow> (string \<times> (string \<times> lane_record) list) list" where
  "track_operation r s =
     (case r_data r of
        OperationStarted l i \<Rightarrow>
          map_put (r_lane r) (map_put (r_id r) r (open_ops (r_lane r) s)) (openOperationsByLane s)
      | OperationFinished runId out err \<Rightarrow>
          (case map_of (openOperationsByLane s) (r_lane r) of
             None \<Rightarrow> openOperationsByLane s
           | Some m \<Rightarrow> map_put (r_lane r) (map_del runId m) (openOperationsByLane s))
      | _ \<Rightarrow> openOperationsByLane s)"

definition add_usage :: "record_data \<Rightarrow> session_stats \<Rightarrow> session_stats" where
  "add_usage d st =
     (case d of
        UsageRecord c u \<Rightarrow>
          st\<lparr>cachedTokens := cachedTokens st + u_cacheRead u,
             uncachedTokens := uncachedTokens st + (u_input u + u_cacheWrite u),
             totalTokens := totalTokens st + u_totalTokens u,
             costSummands := costSummands st @ [u_costTotal u]\<rparr>
      | _ \<Rightarrow> st)"

definition add_record :: "lane_record \<Rightarrow> session_state \<Rightarrow> session_state" where
  "add_record r s =
     s\<lparr>sequence := r_seq r, usedIds := usedIds s @ [r_id r], records := records s @ [r],
       openOperationsByLane := track_operation r s,
       log := log s @ [LogRecord (r_seq r) r], stats := add_usage (r_data r) (stats s)\<rparr>"

definition applyMutation ::
  "(string \<Rightarrow> session_exn) \<Rightarrow> session_mutation \<Rightarrow> session_state \<Rightarrow> session_exn + session_state" where
  "applyMutation invalid mutation s =
     bindE (guardE (mutation_seq mutation \<noteq> sequence s + 1)
       (invalid (''has non-consecutive seq '' @ show_nat (mutation_seq mutation)))) (\<lambda>_.
     case mutation of
       MutEntry lane e \<Rightarrow>
         bindE (guardE (e_id e \<in> set (usedIds s)) (invalid (''contains duplicate id '' @ e_id e))) (\<lambda>_.
         bindE (check_lane_leaf invalid lane e s) (\<lambda>_.
         bindE (check_parent invalid e s) (\<lambda>_.
         Inr (add_entry lane e s))))
     | MutRecord r \<Rightarrow>
         bindE (guardE (\<not> map_has (lanes s) (r_lane r)) (invalid (''references missing lane '' @ r_lane r))) (\<lambda>_.
         bindE (guardE (r_id r \<in> set (usedIds s)) (invalid (''contains duplicate id '' @ r_id r))) (\<lambda>_.
         Inr (add_record r s)))
     | MutLane q lane leafId \<Rightarrow>
         bindE (case leafId of None \<Rightarrow> Inr ()
                | Some i \<Rightarrow> guardE (map_of (entriesById s) i = None) (invalid (''references missing lane target '' @ i))) (\<lambda>_.
         Inr (s\<lparr>sequence := q, lanes := map_put lane leafId (lanes s), log := log s @ [LogLane q lane leafId]\<rparr>))
     | MutName q n \<Rightarrow>
         Inr (s\<lparr>sequence := q, sessionName := n, log := log s @ [LogName q n]\<rparr>)
     | MutLabel q t l \<Rightarrow>
         bindE (guardE (map_of (entriesById s) t = None) (invalid (''references missing label target '' @ t))) (\<lambda>_.
         Inr (s\<lparr>sequence := q, labels := (case l of None \<Rightarrow> map_del t (labels s) | Some x \<Rightarrow> map_put t x (labels s)),
                log := log s @ [LogLabel q t l]\<rparr>)))"

section \<open>Queries\<close>

definition assertValidLimit :: "jsnum option \<Rightarrow> session_exn + unit" where
  "assertValidLimit limit =
     guardE (case limit of None \<Rightarrow> False | Some n \<Rightarrow> \<not> is_integer_num n \<or> num_value n \<le> 0)
       (SessionError InvalidQuery ''limit must be a positive integer'')"

definition assertValidCursor :: "jsnum option \<Rightarrow> session_exn + unit" where
  "assertValidCursor afterSeq =
     guardE (case afterSeq of None \<Rightarrow> False | Some n \<Rightarrow> \<not> is_integer_num n \<or> num_value n < 0)
       (SessionError InvalidQuery ''cursor sequence must be a non-negative integer'')"

definition ordered :: "'a list \<Rightarrow> entry_order option \<Rightarrow> 'a list" where
  "ordered items order = (if order = Some OldestFirst then items else rev items)"

definition at_limit :: "'a list \<Rightarrow> jsnum option \<Rightarrow> bool" where
  "at_limit results limit = (case limit of None \<Rightarrow> False | Some n \<Rightarrow> is_integer_num n \<and> int (length results) = num_value n)"

primrec collect_until :: "('a \<Rightarrow> bool) \<Rightarrow> jsnum option \<Rightarrow> 'a list \<Rightarrow> 'a list \<Rightarrow> 'a list" where
  "collect_until matches limit results [] = results"
| "collect_until matches limit results (x # xs) =
     (if \<not> matches x then collect_until matches limit results xs
      else if at_limit (results @ [x]) limit then results @ [x]
      else collect_until matches limit (results @ [x]) xs)"

definition matchesEntryQuery :: "entry_query \<Rightarrow> entry \<Rightarrow> bool" where
  "matchesEntryQuery query e \<longleftrightarrow>
     (case q_type query of None \<Rightarrow> True | Some t \<Rightarrow> e_type e = t) \<and>
     (case q_customType query of None \<Rightarrow> True
      | Some ct \<Rightarrow> (case e_data e of CustomEntry t d \<Rightarrow> t = ct | _ \<Rightarrow> False)) \<and>
     (case q_cursor query of None \<Rightarrow> True
      | Some c \<Rightarrow> if q_order query = Some OldestFirst then int (e_seq e) > num_value c
                 else int (e_seq e) < num_value c)"

definition matchesRecordQuery :: "record_query \<Rightarrow> lane_record \<Rightarrow> bool" where
  "matchesRecordQuery query r \<longleftrightarrow>
     (case rq_lane query of None \<Rightarrow> True | Some l \<Rightarrow> r_lane r = l) \<and>
     (case rq_type query of None \<Rightarrow> True | Some t \<Rightarrow> record_type_of (r_data r) = t) \<and>
     (case rq_runId query of None \<Rightarrow> True
      | Some i \<Rightarrow> (case r_data r of OperationStarted l it \<Rightarrow> r_id r = i | _ \<Rightarrow> run_id_of (r_data r) = Some i)) \<and>
     (case rq_operationKind query of None \<Rightarrow> True
      | Some k \<Rightarrow> (case r_data r of OperationStarted l it \<Rightarrow> intent_kind it = k | _ \<Rightarrow> False)) \<and>
     (case rq_afterSeq query of None \<Rightarrow> True | Some c \<Rightarrow> int (r_seq r) > num_value c)"

definition getEntry :: "string \<Rightarrow> session_state \<Rightarrow> entry option" where
  "getEntry i s = map_of (entriesById s) i"

definition findEntries :: "entry_query \<Rightarrow> session_state \<Rightarrow> session_exn + entry list" where
  "findEntries query s =
     bindE (assertValidLimit (q_limit query)) (\<lambda>_.
     bindE (assertValidCursor (q_cursor query)) (\<lambda>_.
     Inr (collect_until (matchesEntryQuery query) (q_limit query) [] (ordered (entries s) (q_order query)))))"

text \<open>
  The generator \<open>walkToRoot\<close>: the entries it yields and the exception it throws when it is
  resumed after the last of them, if any. A consumer that stops early never sees the exception.
\<close>

function walk_from :: "(string \<times> entry) list \<Rightarrow> branch_bounds \<Rightarrow> string list \<Rightarrow> entry \<Rightarrow> entry list \<times> session_exn option" where
  "walk_from byId bounds visited current =
     (if e_id current \<in> set visited
      then ([], Some (SessionError InvalidEntry (''Session branch contains a cycle at '' @ e_id current)))
      else if b_stopAtId bounds = Some (e_id current) \<or> b_stopAtType bounds = Some (e_type current)
      then ([current], None)
      else case e_parentId current of
        None \<Rightarrow> ([current], None)
      | Some parentId \<Rightarrow>
          (case map_of byId parentId of
             None \<Rightarrow> ([current], Some (SessionError InvalidEntry (''Entry not found: '' @ parentId)))
           | Some parent \<Rightarrow>
               (case walk_from byId bounds (visited @ [e_id current]) parent of
                  (rest, err) \<Rightarrow> (current # rest, err))))"
  by pat_completeness auto
termination
proof (relation "measure (\<lambda>(byId, bounds, visited, current).
    card (insert (e_id current) (e_id ` snd ` set byId) - set visited))")
  fix byId :: "(string \<times> entry) list" and bounds :: branch_bounds and visited and current parent :: entry
    and parentId
  assume *: "e_id current \<notin> set visited" "map_of byId parentId = Some parent"
  let ?ids = "e_id ` snd ` set byId"
  have "e_id parent \<in> ?ids" using map_of_SomeD [OF *(2)] by force
  then have "insert (e_id parent) ?ids - set (visited @ [e_id current]) \<subset>
      insert (e_id current) ?ids - set visited"
    using *(1) by auto
  then show "((byId, bounds, visited @ [e_id current], parent), byId, bounds, visited, current) \<in>
      measure (\<lambda>(byId, bounds, visited, current).
        card (insert (e_id current) (e_id ` snd ` set byId) - set visited))"
    by (simp add: psubset_card_mono)
qed auto

declare walk_from.simps [simp del]

definition walkToRoot :: "string option \<Rightarrow> branch_bounds \<Rightarrow> session_state \<Rightarrow> entry list \<times> session_exn option" where
  "walkToRoot start bounds s =
     (case start of
        None \<Rightarrow> ([], None)
      | Some i \<Rightarrow>
          (case map_of (entriesById s) i of
             None \<Rightarrow> ([], Some (SessionError NotFound (''Entry not found: '' @ i)))
           | Some e \<Rightarrow> walk_from (entriesById s) bounds [] e))"

text \<open>Consuming the generator with a limit: the exception surfaces only if the loop reaches it.\<close>

fun take_walk :: "(entry \<Rightarrow> bool) \<Rightarrow> jsnum option \<Rightarrow> entry list \<Rightarrow> entry list \<times> session_exn option \<Rightarrow> session_exn + entry list" where
  "take_walk matches limit results ([], None) = Inr results"
| "take_walk matches limit results ([], Some e) = Inl e"
| "take_walk matches limit results (x # xs, err) =
     (let results' = (if matches x then results @ [x] else results) in
      if at_limit results' limit then Inr results' else take_walk matches limit results' (xs, err))"

fun take_reversed :: "(entry \<Rightarrow> bool) \<Rightarrow> branch_bounds \<Rightarrow> jsnum option \<Rightarrow> entry list \<Rightarrow> entry list \<Rightarrow> entry list" where
  "take_reversed matches bounds limit results [] = results"
| "take_reversed matches bounds limit results (x # xs) =
     (let reached = (b_stopAtId bounds = Some (e_id x) \<or> b_stopAtType bounds = Some (e_type x));
          results' = (if matches x then results @ [x] else results) in
      if reached \<or> at_limit results' limit then results'
      else take_reversed matches bounds limit results' xs)"

definition findEntriesOnBranch ::
  "entry_query \<Rightarrow> branch_bounds \<Rightarrow> string \<Rightarrow> session_state \<Rightarrow> session_exn + entry list" where
  "findEntriesOnBranch query bounds start s =
     bindE (assertValidLimit (q_limit query)) (\<lambda>_.
     bindE (assertValidCursor (q_cursor query)) (\<lambda>_.
     if q_order query = Some OldestFirst
     then (case walkToRoot (Some start) no_bounds s of
             (path, Some e) \<Rightarrow> Inl e
           | (path, None) \<Rightarrow> Inr (take_reversed (matchesEntryQuery query) bounds (q_limit query) [] (rev path)))
     else take_walk (matchesEntryQuery query) (q_limit query) [] (walkToRoot (Some start) bounds s)))"

definition findRecords :: "record_query \<Rightarrow> session_state \<Rightarrow> session_exn + lane_record list" where
  "findRecords query s =
     bindE (assertValidLimit (rq_limit query)) (\<lambda>_.
     bindE (assertValidCursor (rq_afterSeq query)) (\<lambda>_.
     Inr (collect_until (matchesRecordQuery query) (rq_limit query) [] (ordered (records s) (rq_order query)))))"

definition findOpenOperations :: "string \<Rightarrow> jsnum option \<Rightarrow> session_state \<Rightarrow> session_exn + lane_record list" where
  "findOpenOperations lane limit s =
     bindE (assertValidLimit limit) (\<lambda>_.
     let openOperations = rev (map snd (open_ops lane s)) in
     Inr (case limit of None \<Rightarrow> openOperations | Some n \<Rightarrow> take (nat (num_value n)) openOperations))"

definition getLog :: "log_options \<Rightarrow> session_state \<Rightarrow> session_exn + log_item list" where
  "getLog options s =
     bindE (assertValidLimit (lo_limit options)) (\<lambda>_.
     bindE (assertValidCursor (lo_afterSeq options)) (\<lambda>_.
     Inr (collect_until (\<lambda>i. case lo_afterSeq options of None \<Rightarrow> True | Some a \<Rightarrow> \<not> int (log_seq i) \<le> num_value a)
            (lo_limit options) [] (log s))))"

definition getLabel :: "string \<Rightarrow> session_state \<Rightarrow> string option" where
  "getLabel i s = map_of (labels s) i"

section \<open>Forks\<close>

definition fork_from :: "fork_options \<Rightarrow> string \<Rightarrow> session_state \<Rightarrow> session_exn + string option" where
  "fork_from options i s =
     (case getEntry i s of
        None \<Rightarrow> Inl (SessionError InvalidForkTarget (''Fork target is not a message entry: '' @ i))
      | Some e \<Rightarrow>
          if e_type e \<noteq> TypeMessage
          then Inl (SessionError InvalidForkTarget (''Fork target is not a message entry: '' @ i))
          else let position = (case forkPosition options of Some p \<Rightarrow> p
                     | None \<Rightarrow> if forkEntryId options = None then ForkAt else ForkBefore) in
            Inr (if position = ForkAt then Some (e_id e) else e_parentId e))"

definition fork_target :: "fork_options \<Rightarrow> session_state \<Rightarrow> session_exn + string option" where
  "fork_target options s =
     bindE (case forkEntryId options of Some i \<Rightarrow> Inr (Some i) | None \<Rightarrow> requireLane ''main'' s) (\<lambda>selected.
     case selected of None \<Rightarrow> Inr None | Some i \<Rightarrow> fork_from options i s)"

definition fork_selection :: "fork_options \<Rightarrow> session_state \<Rightarrow> session_exn + (entry list \<times> (string \<times> string option) list)" where
  "fork_selection options s =
     (case options of
        ForkTree \<Rightarrow>
          bindE (findEntries (any_entry\<lparr>q_order := Some OldestFirst\<rparr>) s) (\<lambda>es. Inr (es, lanes s))
      | ForkBranch i p \<Rightarrow>
          bindE (fork_target options s) (\<lambda>targetId.
          bindE (case targetId of None \<Rightarrow> Inr []
                 | Some t \<Rightarrow> findEntriesOnBranch (any_entry\<lparr>q_order := Some OldestFirst\<rparr>) no_bounds t s) (\<lambda>es.
          Inr (es, [(''main'', targetId)]))))"

fun copy_entries :: "nat \<Rightarrow> entry list \<Rightarrow> session_mutation list" where
  "copy_entries q [] = []"
| "copy_entries q (e # es) = MutEntry None (e\<lparr>e_seq := q\<rparr>) # copy_entries (q + 1) es"

fun copy_lanes :: "nat \<Rightarrow> (string \<times> string option) list \<Rightarrow> session_mutation list" where
  "copy_lanes q [] = []"
| "copy_lanes q ((lane, leafId) # ls) = MutLane q lane leafId # copy_lanes (q + 1) ls"

fun copy_labels :: "nat \<Rightarrow> (string \<times> string) list \<Rightarrow> entry list \<Rightarrow> session_mutation list" where
  "copy_labels q ls [] = []"
| "copy_labels q ls (e # es) =
     (case map_of ls (e_id e) of
        None \<Rightarrow> copy_labels q ls es
      | Some label \<Rightarrow> MutLabel q (e_id e) (Some label) # copy_labels (q + 1) ls es)"

definition createForkMutations :: "fork_options \<Rightarrow> session_state \<Rightarrow> session_exn + session_mutation list" where
  "createForkMutations options s =
     bindE (fork_selection options s) (\<lambda>(copied, forkLanes).
     let q1 = 1 + length copied; q2 = q1 + length forkLanes;
         nameMut = (case sessionName s of None \<Rightarrow> [] | Some n \<Rightarrow> [MutName q2 (Some n)]);
         q3 = q2 + length nameMut in
     Inr (copy_entries 1 copied @ copy_lanes q1 forkLanes @ nameMut @ copy_labels q3 (labels s) copied))"

section \<open>Invariant\<close>

primrec parents_in :: "string set \<Rightarrow> entry list \<Rightarrow> bool" where
  "parents_in seen [] = True"
| "parents_in seen (e # es) =
     ((case e_parentId e of None \<Rightarrow> True | Some p \<Rightarrow> p \<in> seen) \<and> parents_in (insert (e_id e) seen) es)"

definition entry_ids :: "session_state \<Rightarrow> string set" where
  "entry_ids s = e_id ` set (entries s)"

definition log_ok :: "session_state \<Rightarrow> bool" where
  "log_ok s \<longleftrightarrow> sequence s = length (log s) \<and> map log_seq (log s) = [1..<Suc (length (log s))]"

definition ids_ok :: "session_state \<Rightarrow> bool" where
  "ids_ok s \<longleftrightarrow> distinct (map e_id (entries s)) \<and> distinct (map r_id (records s)) \<and>
     entry_ids s \<inter> r_id ` set (records s) = {} \<and> set (usedIds s) = entry_ids s \<union> r_id ` set (records s)"

definition tree_ok :: "session_state \<Rightarrow> bool" where
  "tree_ok s \<longleftrightarrow> entriesById s = map (\<lambda>e. (e_id e, e)) (entries s) \<and> parents_in {} (entries s) \<and>
     sorted_wrt (<) (map e_seq (entries s)) \<and> (\<forall>e \<in> set (entries s). e_seq e \<le> sequence s)"

definition lanes_ok :: "session_state \<Rightarrow> bool" where
  "lanes_ok s \<longleftrightarrow> map_wf (lanes s) \<and> map_has (lanes s) ''main'' \<and>
     (\<forall>lane i. map_of (lanes s) lane = Some (Some i) \<longrightarrow> i \<in> entry_ids s)"

definition labels_ok :: "session_state \<Rightarrow> bool" where
  "labels_ok s \<longleftrightarrow> map_wf (labels s) \<and> (\<forall>i. map_has (labels s) i \<longrightarrow> i \<in> entry_ids s)"

text \<open>
  The open operations of a lane, read off the record log: the starts that no later record of the
  lane finishes.
\<close>

definition is_start :: "lane_record \<Rightarrow> bool" where
  "is_start r \<longleftrightarrow> (\<exists>l i. r_data r = OperationStarted l i)"

definition finishes :: "string \<Rightarrow> string \<Rightarrow> lane_record \<Rightarrow> bool" where
  "finishes lane runId r \<longleftrightarrow> r_lane r = lane \<and> (\<exists>out err. r_data r = OperationFinished runId out err)"

primrec open_of :: "string \<Rightarrow> lane_record list \<Rightarrow> lane_record list" where
  "open_of lane [] = []"
| "open_of lane (r # rs) =
     (if r_lane r = lane \<and> is_start r \<and> \<not> (\<exists>f \<in> set rs. finishes lane (r_id r) f)
      then r # open_of lane rs else open_of lane rs)"

definition ops_ok :: "session_state \<Rightarrow> bool" where
  "ops_ok s \<longleftrightarrow> (\<forall>lane. open_ops lane s = map (\<lambda>r. (r_id r, r)) (open_of lane (records s)))"

definition stats_of :: "entry list \<Rightarrow> lane_record list \<Rightarrow> session_stats" where
  "stats_of es rs =
     (let us = concat (map (\<lambda>r. case r_data r of UsageRecord c u \<Rightarrow> [u] | _ \<Rightarrow> []) rs) in
      \<lparr>messageCount = length (filter (\<lambda>e. e_type e = TypeMessage) es),
       cachedTokens = sum_list (map u_cacheRead us),
       uncachedTokens = sum_list (map (\<lambda>u. u_input u + u_cacheWrite u) us),
       totalTokens = sum_list (map u_totalTokens us), costSummands = map u_costTotal us\<rparr>)"

definition state_ok :: "session_state \<Rightarrow> bool" where
  "state_ok s \<longleftrightarrow> log_ok s \<and> ids_ok s \<and> tree_ok s \<and> lanes_ok s \<and> labels_ok s \<and> ops_ok s \<and>
     stats s = stats_of (entries s) (records s)"

lemma parents_in_snoc:
  "parents_in seen (es @ [e]) \<longleftrightarrow> parents_in seen es \<and>
     (case e_parentId e of None \<Rightarrow> True | Some p \<Rightarrow> p \<in> seen \<union> e_id ` set es)"
  by (induction es arbitrary: seen) (auto split: option.splits)

lemma open_of_snoc:
  "open_of lane (rs @ [r]) =
     filter (\<lambda>x. \<not> finishes lane (r_id x) r) (open_of lane rs) @
     (if r_lane r = lane \<and> is_start r then [r] else [])"
  by (induction rs) auto

lemma open_of_subset: "set (open_of lane rs) \<subseteq> set rs"
  by (induction rs) auto

lemma byId_lookup:
  assumes "tree_ok s"
  shows "map_of (entriesById s) i \<noteq> None \<longleftrightarrow> i \<in> entry_ids s"
  using assms by (force simp: tree_ok_def entry_ids_def map_of_eq_None_iff image_image)

lemma byId_lookup_None:
  assumes "tree_ok s"
  shows "map_of (entriesById s) i = None \<longleftrightarrow> i \<notin> entry_ids s"
  using byId_lookup [OF assms, of i] by auto

lemma byId_get:
  assumes "tree_ok s" "ids_ok s" "e \<in> set (entries s)"
  shows "map_of (entriesById s) (e_id e) = Some e"
proof -
  have "distinct (map fst (entriesById s))"
    using assms(1,2) by (simp add: tree_ok_def ids_ok_def comp_def)
  moreover have "(e_id e, e) \<in> set (entriesById s)" using assms(1,3) by (auto simp: tree_ok_def)
  ultimately show ?thesis by simp
qed

lemma byId_SomeD:
  assumes "tree_ok s" "map_of (entriesById s) i = Some e"
  shows "e \<in> set (entries s)" "e_id e = i"
  using map_of_SomeD [OF assms(2)] assms(1) by (auto simp: tree_ok_def)

section \<open>Every mutation keeps the invariant\<close>

lemma new_state_ok: "state_ok new_state"
  by (simp add: state_ok_def new_state_def log_ok_def ids_ok_def tree_ok_def lanes_ok_def labels_ok_def
      ops_ok_def open_ops_def stats_of_def empty_stats_def entry_ids_def map_wf_def)

lemma log_ok_extend:
  "log_ok s \<Longrightarrow> q = sequence s + 1 \<Longrightarrow> log_seq item = q \<Longrightarrow> sequence s' = q \<Longrightarrow>
   log s' = log s @ [item] \<Longrightarrow> log_ok s'"
  by (simp add: log_ok_def)

lemma state_ok_frame:
  assumes "state_ok s" "log_ok s'" "lanes_ok s'" "labels_ok s'" "sequence s \<le> sequence s'"
    "entries s' = entries s" "entriesById s' = entriesById s" "records s' = records s" "usedIds s' = usedIds s"
    "openOperationsByLane s' = openOperationsByLane s" "stats s' = stats s"
  shows "state_ok s'"
proof -
  have "ids_ok s'" using assms by (simp add: state_ok_def ids_ok_def entry_ids_def)
  moreover have "tree_ok s'" using assms by (auto simp: state_ok_def tree_ok_def)
  moreover have "ops_ok s'" using assms by (simp add: state_ok_def ops_ok_def open_ops_def)
  ultimately show ?thesis using assms by (simp add: state_ok_def)
qed

lemma state_okD:
  assumes "state_ok s"
  shows "log_ok s" "ids_ok s" "tree_ok s" "lanes_ok s" "labels_ok s" "ops_ok s"
    "stats s = stats_of (entries s) (records s)"
  using assms by (simp_all add: state_ok_def)

lemma state_ok_lane:
  assumes "state_ok s" "q = sequence s + 1" "\<And>i. leafId = Some i \<Longrightarrow> i \<in> entry_ids s"
  shows "state_ok (s\<lparr>sequence := q, lanes := map_put lane leafId (lanes s), log := log s @ [LogLane q lane leafId]\<rparr>)"
proof (rule state_ok_frame [OF assms(1)])
  let ?s = "s\<lparr>sequence := q, lanes := map_put lane leafId (lanes s), log := log s @ [LogLane q lane leafId]\<rparr>"
  show "log_ok ?s" using state_okD(1) [OF assms(1)] assms(2) by (rule log_ok_extend) auto
  show "lanes_ok ?s" using state_okD(4) [OF assms(1)] assms(3) by (auto simp: lanes_ok_def entry_ids_def)
  show "labels_ok ?s" using state_okD(5) [OF assms(1)] by (simp add: labels_ok_def entry_ids_def)
qed (use assms(2) in simp_all)

lemma state_ok_name:
  assumes "state_ok s" "q = sequence s + 1"
  shows "state_ok (s\<lparr>sequence := q, sessionName := n, log := log s @ [LogName q n]\<rparr>)"
proof (rule state_ok_frame [OF assms(1)])
  let ?s = "s\<lparr>sequence := q, sessionName := n, log := log s @ [LogName q n]\<rparr>"
  show "log_ok ?s" using state_okD(1) [OF assms(1)] assms(2) by (rule log_ok_extend) auto
  show "lanes_ok ?s" using state_okD(4) [OF assms(1)] by (simp add: lanes_ok_def entry_ids_def)
  show "labels_ok ?s" using state_okD(5) [OF assms(1)] by (simp add: labels_ok_def entry_ids_def)
qed (use assms(2) in simp_all)

lemma state_ok_label:
  assumes "state_ok s" "q = sequence s + 1" "t \<in> entry_ids s"
  shows "state_ok (s\<lparr>sequence := q,
     labels := (case l of None \<Rightarrow> map_del t (labels s) | Some x \<Rightarrow> map_put t x (labels s)),
     log := log s @ [LogLabel q t l]\<rparr>)"
proof (rule state_ok_frame [OF assms(1)])
  let ?s = "s\<lparr>sequence := q,
     labels := (case l of None \<Rightarrow> map_del t (labels s) | Some x \<Rightarrow> map_put t x (labels s)),
     log := log s @ [LogLabel q t l]\<rparr>"
  show "log_ok ?s" using state_okD(1) [OF assms(1)] assms(2) by (rule log_ok_extend) auto
  show "lanes_ok ?s" using state_okD(4) [OF assms(1)] by (simp add: lanes_ok_def entry_ids_def)
  show "labels_ok ?s" using state_okD(5) [OF assms(1)] assms(3)
    by (auto simp: labels_ok_def entry_ids_def split: option.splits)
qed (use assms(2) in simp_all)

lemma map_put_new: "map_of m k = None \<Longrightarrow> map_put k v m = m @ [(k, v)]"
  by (induction m) auto

lemma state_ok_entry:
  assumes ok: "state_ok s" and seq: "e_seq e = sequence s + 1" and new: "e_id e \<notin> set (usedIds s)"
    and parent: "\<And>p. e_parentId e = Some p \<Longrightarrow> p \<in> entry_ids s"
  shows "state_ok (add_entry lane e s)"
proof -
  let ?s = "add_entry lane e s"
  note k = state_okD [OF ok]
  have es: "entries ?s = entries s @ [e]" "records ?s = records s" "entry_ids ?s = insert (e_id e) (entry_ids s)"
    "lanes ?s = (case lane of None \<Rightarrow> lanes s | Some l \<Rightarrow> map_put l (Some (e_id e)) (lanes s))" "labels ?s = labels s"
    by (auto simp: add_entry_def entry_ids_def)
  have fresh: "e_id e \<notin> entry_ids s" "e_id e \<notin> r_id ` set (records s)"
    using new k(2) by (auto simp: ids_ok_def)
  have "log_ok ?s" using k(1) seq by (rule log_ok_extend) (auto simp: add_entry_def seq)
  moreover have "ids_ok ?s"
    using k(2) fresh by (auto simp: ids_ok_def es add_entry_def entry_ids_def)
  moreover have "map_of (entriesById s) (e_id e) = None" using byId_lookup_None [OF k(3)] fresh by simp
  then have "tree_ok ?s"
    using k(3) seq parent
    by (fastforce simp: tree_ok_def es(1) parents_in_snoc add_entry_def map_put_new sorted_wrt_append entry_ids_def
        split: option.splits)
  moreover have "lanes_ok ?s"
    using k(4) unfolding lanes_ok_def es(3,4) by (auto split: option.splits)
  moreover have "labels_ok ?s" using k(5) unfolding labels_ok_def es(3,5) by auto
  moreover have "ops_ok ?s" using k(6) by (simp add: ops_ok_def open_ops_def add_entry_def)
  moreover have "stats ?s = stats_of (entries ?s) (records ?s)"
    using k(7) by (simp add: add_entry_def stats_of_def Let_def)
  ultimately show ?thesis by (simp add: state_ok_def)
qed

lemma open_ops_track:
  assumes "ops_ok s" "r_id r \<notin> r_id ` set (records s)"
  shows "open_ops lane (add_record r s) = map (\<lambda>r. (r_id r, r)) (open_of lane (records s @ [r]))"
proof -
  have ops: "open_ops lane s = map (\<lambda>r. (r_id r, r)) (open_of lane (records s))" for lane
    using assms(1) by (simp add: ops_ok_def)
  have fresh: "map_of (open_ops lane s) (r_id r) = None" for lane
    unfolding ops using assms(2) open_of_subset [of lane "records s"] by (auto simp: map_of_eq_None_iff)
  consider (start) l i where "r_data r = OperationStarted l i"
    | (fin) run out err where "r_data r = OperationFinished run out err"
    | (other) "\<not> is_start r" "\<And>lane i. \<not> finishes lane i r" "track_operation r s = openOperationsByLane s"
    by (cases "r_data r") (auto simp: is_start_def finishes_def track_operation_def)
  then show ?thesis
  proof cases
    case start
    then have "open_ops lane (add_record r s) =
        (if lane = r_lane r then open_ops lane s @ [(r_id r, r)] else open_ops lane s)"
      using fresh [of lane] by (auto simp: open_ops_def add_record_def track_operation_def map_put_new split: option.splits)
    then show ?thesis using start ops [of lane] by (auto simp: open_of_snoc is_start_def finishes_def)
  next
    case fin
    then have "open_ops lane (add_record r s) =
        (if lane = r_lane r then map_del run (open_ops lane s) else open_ops lane s)"
      by (auto simp: open_ops_def add_record_def track_operation_def map_del_def split: option.splits)
    then show ?thesis
      using fin ops [of lane] by (auto simp: open_of_snoc is_start_def finishes_def map_del_def filter_map comp_def
          eq_commute [of run])
  next
    case other
    then show ?thesis using ops [of lane] by (simp add: open_of_snoc open_ops_def add_record_def)
  qed
qed


lemma state_ok_record:
  assumes ok: "state_ok s" and seq: "r_seq r = sequence s + 1" and new: "r_id r \<notin> set (usedIds s)"
  shows "state_ok (add_record r s)"
proof -
  let ?s = "add_record r s"
  note k = state_okD [OF ok]
  have rs: "entries ?s = entries s" "records ?s = records s @ [r]" "entry_ids ?s = entry_ids s"
    "entriesById ?s = entriesById s" "lanes ?s = lanes s" "labels ?s = labels s"
    "usedIds ?s = usedIds s @ [r_id r]" "sequence ?s = r_seq r"
    by (auto simp: add_record_def entry_ids_def)
  have fresh: "r_id r \<notin> entry_ids s" "r_id r \<notin> r_id ` set (records s)"
    using new k(2) by (auto simp: ids_ok_def)
  have "log_ok ?s" using k(1) seq by (rule log_ok_extend) (auto simp: add_record_def seq)
  moreover have "ids_ok ?s" using k(2) fresh by (auto simp: ids_ok_def rs)
  moreover have "tree_ok ?s" using k(3) seq by (fastforce simp: tree_ok_def rs)
  moreover have "lanes_ok ?s" "labels_ok ?s" using k(4,5) by (simp_all add: lanes_ok_def labels_ok_def rs)
  moreover have "ops_ok ?s" using open_ops_track [OF k(6) fresh(2)] by (simp add: ops_ok_def rs)
  moreover have "stats ?s = stats_of (entries ?s) (records ?s)"
    using k(7) by (cases "r_data r") (simp_all add: add_record_def add_usage_def stats_of_def Let_def)
  ultimately show ?thesis by (simp add: state_ok_def)
qed

text \<open>When a mutation is accepted, and what it changes.\<close>

definition mutation_valid :: "session_mutation \<Rightarrow> session_state \<Rightarrow> bool" where
  "mutation_valid m s \<longleftrightarrow> mutation_seq m = sequence s + 1 \<and>
     (case m of
        MutEntry lane e \<Rightarrow> e_id e \<notin> set (usedIds s) \<and>
          (case lane of None \<Rightarrow> True | Some l \<Rightarrow> map_of (lanes s) l = Some (e_parentId e)) \<and>
          (case e_parentId e of None \<Rightarrow> True | Some p \<Rightarrow> map_has (entriesById s) p)
      | MutRecord r \<Rightarrow> map_has (lanes s) (r_lane r) \<and> r_id r \<notin> set (usedIds s)
      | MutLane q lane leafId \<Rightarrow> (case leafId of None \<Rightarrow> True | Some i \<Rightarrow> map_has (entriesById s) i)
      | MutName q n \<Rightarrow> True
      | MutLabel q t l \<Rightarrow> map_has (entriesById s) t)"

fun mutate :: "session_mutation \<Rightarrow> session_state \<Rightarrow> session_state" where
  "mutate (MutEntry lane e) s = add_entry lane e s"
| "mutate (MutRecord r) s = add_record r s"
| "mutate (MutLane q lane leafId) s =
     s\<lparr>sequence := q, lanes := map_put lane leafId (lanes s), log := log s @ [LogLane q lane leafId]\<rparr>"
| "mutate (MutName q n) s = s\<lparr>sequence := q, sessionName := n, log := log s @ [LogName q n]\<rparr>"
| "mutate (MutLabel q t l) s =
     s\<lparr>sequence := q, labels := (case l of None \<Rightarrow> map_del t (labels s) | Some x \<Rightarrow> map_put t x (labels s)),
       log := log s @ [LogLabel q t l]\<rparr>"

lemma applyMutation_iff:
  "applyMutation invalid m s = Inr s' \<longleftrightarrow> mutation_valid m s \<and> s' = mutate m s"
  by (cases m) (auto simp: applyMutation_def mutation_valid_def bindE_eq_Inr check_lane_leaf_def check_parent_def
      split: option.splits)

lemma mutate_ok:
  assumes "state_ok s" "mutation_valid m s"
  shows "state_ok (mutate m s)"
proof -
  have has: "map_has (entriesById s) i \<Longrightarrow> i \<in> entry_ids s" for i
    using byId_lookup [OF state_okD(3) [OF assms(1)]] by blast
  show ?thesis
  proof (cases m)
    case (MutEntry lane e)
    then show ?thesis
      using assms has by (auto simp: mutation_valid_def split: option.splits intro!: state_ok_entry)
  next
    case (MutRecord r)
    then show ?thesis using assms by (auto simp: mutation_valid_def intro!: state_ok_record)
  next
    case (MutLane q lane leafId)
    then show ?thesis
      using assms has state_ok_lane [of s q leafId lane] by (cases leafId) (auto simp: mutation_valid_def)
  next
    case (MutName q n)
    then show ?thesis using assms state_ok_name [of s q n] by (auto simp: mutation_valid_def)
  next
    case (MutLabel q t l)
    then show ?thesis using assms has state_ok_label [of s q t l] by (auto simp: mutation_valid_def)
  qed
qed

lemma applyMutation_ok: "state_ok s \<Longrightarrow> applyMutation invalid m s = Inr s' \<Longrightarrow> state_ok s'"
  by (simp add: applyMutation_iff mutate_ok)

lemma apply_all_ok: "state_ok s \<Longrightarrow> foldE (applyMutation invalid) ms s = Inr s' \<Longrightarrow> state_ok s'"
  by (rule foldE_invariant [where P = state_ok]) (auto intro: applyMutation_ok)


section \<open>Walking to the root\<close>

lemma parents_in_before:
  assumes "parents_in seen es" "sorted_wrt (<) (map e_seq es)" "e \<in> set es" "e_parentId e = Some p" "p \<notin> seen"
  shows "\<exists>q \<in> set es. e_id q = p \<and> e_seq q < e_seq e"
  using assms
proof (induction es arbitrary: seen)
  case (Cons x es)
  then show ?case
  proof (cases "e = x")
    case False
    then have e: "e \<in> set es" using Cons.prems(3) by simp
    show ?thesis
    proof (cases "p = e_id x")
      case True
      then show ?thesis using Cons.prems(2) e by auto
    next
      case False
      then show ?thesis using Cons.IH [of "insert (e_id x) seen"] Cons.prems e by auto
    qed
  qed auto
qed simp

lemma parent_before:
  assumes "state_ok s" "e \<in> set (entries s)" "e_parentId e = Some p"
  obtains q where "q \<in> set (entries s)" "e_id q = p" "e_seq q < e_seq e" "map_of (entriesById s) p = Some q"
proof -
  note k = state_okD [OF assms(1)]
  obtain q where q: "q \<in> set (entries s)" "e_id q = p" "e_seq q < e_seq e"
    using parents_in_before [of "{}" "entries s" e p] k(3) assms(2,3) by (auto simp: tree_ok_def)
  with byId_get [OF k(3,2) q(1)] that show ?thesis by auto
qed

text \<open>A path: every entry is followed by its parent, and the last one satisfies \<open>stop\<close>.\<close>

fun path_to :: "(entry \<Rightarrow> bool) \<Rightarrow> entry list \<Rightarrow> bool" where
  "path_to stop [] = False"
| "path_to stop [e] = stop e"
| "path_to stop (e # e' # es) = (\<not> stop e \<and> e_parentId e = Some (e_id e') \<and> path_to stop (e' # es))"

definition bound_reached :: "branch_bounds \<Rightarrow> entry \<Rightarrow> bool" where
  "bound_reached bounds e \<longleftrightarrow>
     b_stopAtId bounds = Some (e_id e) \<or> b_stopAtType bounds = Some (e_type e) \<or> e_parentId e = None"

lemma unique_id:
  assumes "ids_ok s" "e \<in> set (entries s)" "e' \<in> set (entries s)" "e_id e = e_id e'"
  shows "e = e'"
  using assms by (auto simp: ids_ok_def distinct_map inj_on_def)

lemma walk_from_ok:
  assumes "state_ok s" "e \<in> set (entries s)"
    "\<forall>v \<in> set visited. \<exists>x \<in> set (entries s). e_id x = v \<and> e_seq e < e_seq x"
  shows "\<exists>path. walk_from (entriesById s) bounds visited e = (path, None) \<and> path_to (bound_reached bounds) path \<and>
    hd path = e \<and> set path \<subseteq> set (entries s) \<and> sorted_wrt (\<lambda>a b. e_seq b < e_seq a) path"
  using assms(2,3)
proof (induction "e_seq e" arbitrary: e visited rule: less_induct)
  case less
  have fresh: "e_id e \<notin> set visited"
    using less.prems unique_id [OF state_okD(2) [OF assms(1)]] by force
  show ?case
  proof (cases "bound_reached bounds e")
    case True
    then show ?thesis
      using fresh less.prems(1)
      by (subst walk_from.simps) (auto simp: bound_reached_def)
  next
    case False
    then obtain p where p: "e_parentId e = Some p" by (auto simp: bound_reached_def)
    obtain q where q: "q \<in> set (entries s)" "e_id q = p" "e_seq q < e_seq e" "map_of (entriesById s) p = Some q"
      by (rule parent_before [OF assms(1) less.prems(1) p])
    obtain path where path: "walk_from (entriesById s) bounds (visited @ [e_id e]) q = (path, None)"
      "path_to (bound_reached bounds) path" "hd path = q" "set path \<subseteq> set (entries s)"
      "sorted_wrt (\<lambda>a b. e_seq b < e_seq a) path"
      using less.hyps [OF q(3,1), of "visited @ [e_id e]"] less.prems q(3) by fastforce
    then obtain rest where rest: "path = q # rest" by (cases path) auto
    have "walk_from (entriesById s) bounds visited e = (e # path, None)"
      using fresh False p q(4) path(1) by (subst walk_from.simps) (auto simp: bound_reached_def)
    then show ?thesis using path rest False p q less.prems(1) by (intro exI [of _ "e # path"]) auto
  qed
qed

lemma walkToRoot_ok:
  assumes "state_ok s" "map_of (entriesById s) i = Some e"
  obtains path where "walkToRoot (Some i) bounds s = (path, None)" "path_to (bound_reached bounds) path"
    "hd path = e" "set path \<subseteq> set (entries s)" "sorted_wrt (\<lambda>a b. e_seq b < e_seq a) path"
  using walk_from_ok [OF assms(1) byId_SomeD(1) [OF state_okD(3) [OF assms(1)] assms(2)], of "[]" bounds] assms(2)
  by (auto simp: walkToRoot_def)

lemma path_unique:
  assumes "ids_ok s" "path_to stop p" "path_to stop q" "hd p = hd q" "set p \<subseteq> set (entries s)" "set q \<subseteq> set (entries s)"
  shows "p = q"
  using assms(2-6)
proof (induction stop p arbitrary: q rule: path_to.induct)
  case (2 stop e)
  then show ?case by (cases "(stop, q)" rule: path_to.cases) auto
next
  case (3 stop e e' es)
  then obtain x xs where q: "q = e # x # xs" "e_id x = e_id e'" "path_to stop (x # xs)"
    by (cases "(stop, q)" rule: path_to.cases) auto
  then have "x = e'" using unique_id [OF assms(1), of x e'] 3 by auto
  moreover have "e' # es = x # xs" using 3 q calculation by (intro 3(1)) auto
  ultimately show ?case using q by simp
qed simp


section \<open>Queries return what their filters describe\<close>

definition limited :: "jsnum option \<Rightarrow> 'a list \<Rightarrow> 'a list" where
  "limited limit xs = (case limit of None \<Rightarrow> xs | Some n \<Rightarrow> take (nat (num_value n)) xs)"

definition limit_ok :: "jsnum option \<Rightarrow> bool" where
  "limit_ok limit \<longleftrightarrow> (case limit of None \<Rightarrow> True | Some n \<Rightarrow> is_integer_num n \<and> 0 < num_value n)"

definition cursor_ok :: "jsnum option \<Rightarrow> bool" where
  "cursor_ok c \<longleftrightarrow> (case c of None \<Rightarrow> True | Some n \<Rightarrow> is_integer_num n \<and> 0 \<le> num_value n)"

lemma assertValidLimit_iff: "assertValidLimit limit = Inr u \<longleftrightarrow> limit_ok limit"
  by (auto simp: assertValidLimit_def limit_ok_def split: option.splits)

lemma assertValidCursor_iff: "assertValidCursor c = Inr u \<longleftrightarrow> cursor_ok c"
  by (auto simp: assertValidCursor_def cursor_ok_def split: option.splits)

definition room :: "jsnum option \<Rightarrow> 'a list \<Rightarrow> bool" where
  "room limit results \<longleftrightarrow> (case limit of None \<Rightarrow> True | Some n \<Rightarrow> int (length results) < num_value n)"

lemma below_limit:
  assumes "limit_ok limit"
  shows "room limit results \<Longrightarrow>
      at_limit (results @ [x]) limit \<Longrightarrow> limited limit (results @ x # ys) = results @ [x]"
    "room limit results \<Longrightarrow>
      \<not> at_limit (results @ [x]) limit \<Longrightarrow>
      room limit (results @ [x])"
    "room limit results \<Longrightarrow>
      limited limit results = results"
    "room limit results \<Longrightarrow> \<not> at_limit results limit"
  using assms
  by (auto simp: room_def at_limit_def limited_def limit_ok_def nat_eq_iff2 take_Cons' split: option.splits)

lemma collect_until_eq:
  assumes "limit_ok limit" "room limit results"
  shows "collect_until matches limit results xs = limited limit (results @ filter matches xs)"
  using assms(2)
proof (induction xs arbitrary: results)
  case Nil
  then show ?case using below_limit(3) [OF assms(1) Nil.prems] by simp
next
  case (Cons x xs)
  then show ?case
    using below_limit(1,2) [OF assms(1) Cons.prems, of x] by simp
qed

lemma start_below: "limit_ok limit \<Longrightarrow> room limit []"
  by (auto simp: limit_ok_def room_def split: option.splits)

lemma findEntries_eq:
  "findEntries query s = Inr es \<longleftrightarrow>
     limit_ok (q_limit query) \<and> cursor_ok (q_cursor query) \<and>
     es = limited (q_limit query) (filter (matchesEntryQuery query) (ordered (entries s) (q_order query)))"
  using collect_until_eq [OF _ start_below, of "q_limit query" "matchesEntryQuery query"]
  by (auto simp: findEntries_def bindE_eq_Inr assertValidLimit_iff assertValidCursor_iff)

lemma take_walk_eq:
  assumes "limit_ok limit" "room limit results"
  shows "take_walk matches limit results (path, None) = Inr (limited limit (results @ filter matches path))"
  using assms(2)
proof (induction path arbitrary: results)
  case Nil
  then show ?case using below_limit(3) [OF assms(1) Nil.prems] by simp
next
  case (Cons x xs)
  then show ?case
    using below_limit(1,2) [OF assms(1) Cons.prems, of x] below_limit(4) [OF assms(1) Cons.prems]
    by (simp add: Let_def)
qed

primrec upto_bound :: "('a \<Rightarrow> bool) \<Rightarrow> 'a list \<Rightarrow> 'a list" where
  "upto_bound stop [] = []"
| "upto_bound stop (x # xs) = (if stop x then [x] else x # upto_bound stop xs)"

definition at_bound :: "branch_bounds \<Rightarrow> entry \<Rightarrow> bool" where
  "at_bound bounds e \<longleftrightarrow> b_stopAtId bounds = Some (e_id e) \<or> b_stopAtType bounds = Some (e_type e)"

lemma take_reversed_eq:
  assumes "limit_ok limit" "room limit results"
  shows "take_reversed matches bounds limit results xs =
    limited limit (results @ filter matches (upto_bound (at_bound bounds) xs))"
  using assms(2)
proof (induction xs arbitrary: results)
  case Nil
  then show ?case using below_limit(3) [OF assms(1) Nil.prems] by simp
next
  case (Cons x xs)
  then show ?case
    using below_limit(1,2) [OF assms(1) Cons.prems, of x] below_limit(3,4) [OF assms(1) Cons.prems]
      below_limit(3) [OF assms(1), of "results @ [x]"]
    by (cases "at_limit (results @ [x]) limit") (auto simp: Let_def at_bound_def)
qed

lemma branch_query_eq:
  assumes "state_ok s" "map_of (entriesById s) start = Some e" "limit_ok (q_limit query)" "cursor_ok (q_cursor query)"
  obtains path where "path_to (bound_reached (if q_order query = Some OldestFirst then no_bounds else bounds)) path"
    "hd path = e" "set path \<subseteq> set (entries s)" "sorted_wrt (\<lambda>a b. e_seq b < e_seq a) path"
    "findEntriesOnBranch query bounds start s =
      Inr (limited (q_limit query) (filter (matchesEntryQuery query)
        (if q_order query = Some OldestFirst then upto_bound (at_bound bounds) (rev path) else path)))"
proof -
  let ?b = "if q_order query = Some OldestFirst then no_bounds else bounds"
  obtain path where path: "walkToRoot (Some start) ?b s = (path, None)" "path_to (bound_reached ?b) path"
    "hd path = e" "set path \<subseteq> set (entries s)" "sorted_wrt (\<lambda>a b. e_seq b < e_seq a) path"
    by (rule walkToRoot_ok [OF assms(1,2)])
  have v: "assertValidLimit (q_limit query) = Inr ()" "assertValidCursor (q_cursor query) = Inr ()"
    using assms(3,4) by (simp_all add: assertValidLimit_iff assertValidCursor_iff)
  show ?thesis
    using that [OF path(2-5)] path(1) v take_walk_eq [OF assms(3) start_below [OF assms(3)]]
      take_reversed_eq [OF assms(3) start_below [OF assms(3)]]
    by (auto simp: findEntriesOnBranch_def split: if_splits)
qed


section \<open>Forks\<close>

fun renumber :: "nat \<Rightarrow> entry list \<Rightarrow> entry list" where
  "renumber q [] = []"
| "renumber q (e # es) = e\<lparr>e_seq := q\<rparr> # renumber (q + 1) es"

lemma renumber_ids [simp]: "map e_id (renumber q es) = map e_id es"
  by (induction es arbitrary: q) auto

lemma renumber_id_set: "e_id ` set (renumber q es) = e_id ` set es"
  by (metis list.set_map renumber_ids)

lemma foldE_mutate:
  "foldE (applyMutation invalid) (m # ms) s = Inr s' \<longleftrightarrow>
     mutation_valid m s \<and> foldE (applyMutation invalid) ms (mutate m s) = Inr s'"
  by (auto simp: bindE_eq_Inr applyMutation_iff)

lemma copy_entries_apply:
  assumes "state_ok s" "q = sequence s + 1" "distinct (map e_id es)" "e_id ` set es \<inter> set (usedIds s) = {}"
    "parents_in (entry_ids s) es"
  shows "\<exists>s'. foldE (applyMutation invalid) (copy_entries q es) s = Inr s' \<and> entries s' = entries s @ renumber q es \<and>
    records s' = records s \<and> sequence s' = sequence s + length es \<and> lanes s' = lanes s \<and> labels s' = labels s \<and>
    sessionName s' = sessionName s"
  using assms
proof (induction es arbitrary: q s)
  case (Cons e es)
  let ?m = "MutEntry None (e\<lparr>e_seq := q\<rparr>)"
  have valid: "mutation_valid ?m s"
    using Cons.prems byId_lookup [OF state_okD(3) [OF Cons.prems(1)]]
    by (auto simp: mutation_valid_def split: option.splits)
  have next_ok: "state_ok (mutate ?m s)" by (rule mutate_ok [OF Cons.prems(1) valid])
  have "\<exists>s'. foldE (applyMutation invalid) (copy_entries (q + 1) es) (mutate ?m s) = Inr s' \<and>
      entries s' = entries (mutate ?m s) @ renumber (q + 1) es \<and> records s' = records (mutate ?m s) \<and>
      sequence s' = sequence (mutate ?m s) + length es \<and> lanes s' = lanes (mutate ?m s) \<and>
      labels s' = labels (mutate ?m s) \<and> sessionName s' = sessionName (mutate ?m s)"
    using Cons.prems by (intro Cons.IH next_ok) (auto simp: add_entry_def entry_ids_def)
  then show ?case using valid Cons.prems(2) by (auto simp: applyMutation_iff add_entry_def bindE_eq_Inr)
qed simp

lemma copy_lanes_apply:
  assumes "state_ok s" "q = sequence s + 1" "\<forall>p \<in> set ls. \<forall>i. snd p = Some i \<longrightarrow> i \<in> entry_ids s"
  shows "\<exists>s'. foldE (applyMutation invalid) (copy_lanes q ls) s = Inr s' \<and> entries s' = entries s \<and>
    records s' = records s \<and> sequence s' = sequence s + length ls \<and> lanes s' = map_put_all ls (lanes s) \<and>
    labels s' = labels s \<and> sessionName s' = sessionName s"
  using assms
proof (induction q ls arbitrary: s rule: copy_lanes.induct)
  case (2 q lane leafId ls)
  let ?m = "MutLane q lane leafId"
  have valid: "mutation_valid ?m s"
    using "2.prems" byId_lookup [OF state_okD(3) [OF "2.prems"(1)]]
    by (auto simp: mutation_valid_def split: option.splits)
  have next_ok: "state_ok (mutate ?m s)" by (rule mutate_ok [OF "2.prems"(1) valid])
  have ids: "entry_ids (mutate ?m s) = entry_ids s" by (simp add: entry_ids_def)
  have "\<exists>s'. foldE (applyMutation invalid) (copy_lanes (q + 1) ls) (mutate ?m s) = Inr s' \<and>
      entries s' = entries (mutate ?m s) \<and> records s' = records (mutate ?m s) \<and>
      sequence s' = sequence (mutate ?m s) + length ls \<and> lanes s' = map_put_all ls (lanes (mutate ?m s)) \<and>
      labels s' = labels (mutate ?m s) \<and> sessionName s' = sessionName (mutate ?m s)"
    using "2.prems" ids by (intro "2.IH" next_ok) auto
  then show ?case using valid "2.prems"(2) by (auto simp: applyMutation_iff bindE_eq_Inr map_put_all_def)
qed (simp add: map_put_all_def)

lemma copy_labels_apply:
  assumes "state_ok s" "q = sequence s + 1" "e_id ` set es \<subseteq> entry_ids s" "distinct (map e_id es)"
  shows "\<exists>s'. foldE (applyMutation invalid) (copy_labels q ls es) s = Inr s' \<and> entries s' = entries s \<and>
    records s' = records s \<and> lanes s' = lanes s \<and> sessionName s' = sessionName s \<and>
    (\<forall>i. map_of (labels s') i = (if i \<in> e_id ` set es \<and> map_has ls i then map_of ls i else map_of (labels s) i))"
  using assms
proof (induction q ls es arbitrary: s rule: copy_labels.induct)
  case (2 q ls e es)
  show ?case
  proof (cases "map_of ls (e_id e)")
    case None
    then show ?thesis using 2 by fastforce
  next
    case (Some label)
    let ?m = "MutLabel q (e_id e) (Some label)"
    have valid: "mutation_valid ?m s"
      using "2.prems" byId_lookup [OF state_okD(3) [OF "2.prems"(1)]] by (auto simp: mutation_valid_def)
    have next_ok: "state_ok (mutate ?m s)" by (rule mutate_ok [OF "2.prems"(1) valid])
    have "\<exists>s'. foldE (applyMutation invalid) (copy_labels (q + 1) ls es) (mutate ?m s) = Inr s' \<and>
        entries s' = entries (mutate ?m s) \<and> records s' = records (mutate ?m s) \<and>
        lanes s' = lanes (mutate ?m s) \<and> sessionName s' = sessionName (mutate ?m s) \<and>
        (\<forall>i. map_of (labels s') i = (if i \<in> e_id ` set es \<and> map_has ls i then map_of ls i
          else map_of (labels (mutate ?m s)) i))"
      using "2.prems" by (intro "2.IH"(2) [OF Some next_ok]) (auto simp: entry_ids_def)
    then show ?thesis
      using valid Some "2.prems"(4) by (auto simp: applyMutation_iff bindE_eq_Inr)
  qed
qed simp

lemma parents_in_append:
  "parents_in seen (as @ bs) \<longleftrightarrow> parents_in seen as \<and> parents_in (seen \<union> e_id ` set as) bs"
  by (induction as arbitrary: seen) auto

lemma path_parents:
  "path_to (\<lambda>e. e_parentId e = None) path \<Longrightarrow> parents_in {} (rev path)"
  by (induction "\<lambda>e :: entry. e_parentId e = None" path rule: path_to.induct) (auto simp: parents_in_append)

lemma bound_reached_no_bounds: "bound_reached no_bounds = (\<lambda>e. e_parentId e = None)"
  by (auto simp: fun_eq_iff bound_reached_def no_bounds_def)

lemma upto_no_bounds: "upto_bound (at_bound no_bounds) xs = xs"
  by (induction xs) (auto simp: at_bound_def no_bounds_def)


lemma whole_query [simp]:
  "q_limit any_entry = None" "q_cursor any_entry = None" "limit_ok None" "cursor_ok None" "limited None xs = xs"
  "matchesEntryQuery (any_entry\<lparr>q_order := ord\<rparr>) e"
  by (simp_all add: any_entry_def limit_ok_def cursor_ok_def limited_def matchesEntryQuery_def)

lemma path_nonempty: "path_to stop path \<Longrightarrow> path \<noteq> []"
  by (cases path) auto

lemma branch_path:
  assumes "state_ok s" "map_of (entriesById s) t = Some e"
  obtains path where "path_to (\<lambda>e. e_parentId e = None) path" "hd path = e" "set path \<subseteq> set (entries s)"
    "distinct (map e_id path)"
    "findEntriesOnBranch (any_entry\<lparr>q_order := Some OldestFirst\<rparr>) no_bounds t s = Inr (rev path)"
proof -
  obtain path where path: "path_to (bound_reached no_bounds) path" "hd path = e" "set path \<subseteq> set (entries s)"
    "sorted_wrt (\<lambda>a b. e_seq b < e_seq a) path"
    "findEntriesOnBranch (any_entry\<lparr>q_order := Some OldestFirst\<rparr>) no_bounds t s = Inr (rev path)"
    using branch_query_eq [OF assms, of "any_entry\<lparr>q_order := Some OldestFirst\<rparr>" no_bounds]
    by (auto simp: upto_no_bounds)
  have "distinct path" using path(4) by (induction path) auto
  moreover have "inj_on e_id (set path)"
    using unique_id [OF state_okD(2) [OF assms(1)]] path(3) by (meson inj_onI subsetD)
  ultimately have "distinct (map e_id path)" by (simp add: distinct_map)
  then show ?thesis using that path by (simp add: bound_reached_no_bounds)
qed

lemma fork_target_cases:
  assumes "state_ok s" "fork_target options s = Inr (Some t)"
  obtains e where "map_of (entriesById s) t = Some e"
proof -
  obtain sel where "(case sel of None \<Rightarrow> Inr None | Some i \<Rightarrow> fork_from options i s) = Inr (Some t)"
    using assms(2) unfolding fork_target_def bindE_eq_Inr by blast
  then obtain i where "fork_from options i s = Inr (Some t)" by (cases sel) auto
  then obtain e where e: "map_of (entriesById s) i = Some e" "t = e_id e \<or> e_parentId e = Some t"
    by (cases "getEntry i s") (auto simp: fork_from_def getEntry_def Let_def split: if_splits)
  from e(2) show ?thesis
  proof
    assume "e_parentId e = Some t"
    then show ?thesis
      using parent_before [OF assms(1) byId_SomeD(1) [OF state_okD(3) [OF assms(1)] e(1)]] that by blast
  qed (use that e(1) byId_SomeD(2) [OF state_okD(3) [OF assms(1)] e(1)] in simp)
qed

lemma fork_selection_ok:
  assumes "state_ok s" "fork_selection options s = Inr (copied, ls)"
  shows "distinct (map e_id copied)" "parents_in {} copied" "set copied \<subseteq> set (entries s)"
    "\<forall>p \<in> set ls. \<forall>i. snd p = Some i \<longrightarrow> i \<in> e_id ` set copied"
proof -
  note k = state_okD [OF assms(1)]
  have "distinct (map e_id copied) \<and> parents_in {} copied \<and> set copied \<subseteq> set (entries s) \<and>
    (\<forall>p \<in> set ls. \<forall>i. snd p = Some i \<longrightarrow> i \<in> e_id ` set copied)"
  proof (cases options)
    case ForkTree
    then have "copied = entries s" "ls = lanes s"
      using assms(2) by (auto simp: fork_selection_def bindE_eq_Inr findEntries_eq ordered_def)
    moreover have "i \<in> entry_ids s" if "p \<in> set (lanes s)" "snd p = Some i" for p i
    proof -
      have "(fst p, Some i) \<in> set (lanes s)" using that by (metis prod.collapse)
      then have "map_of (lanes s) (fst p) = Some (Some i)" using k(4) by (simp add: lanes_ok_def map_wf_def)
      then show ?thesis using k(4) by (simp add: lanes_ok_def)
    qed
    ultimately show ?thesis
      using k(2,3) by (simp add: ids_ok_def tree_ok_def entry_ids_def)
  next
    case (ForkBranch i p)
    with assms(2) obtain target where t: "fork_target options s = Inr target" "ls = [(''main'', target)]"
      "(case target of None \<Rightarrow> Inr [] | Some t \<Rightarrow>
         findEntriesOnBranch (any_entry\<lparr>q_order := Some OldestFirst\<rparr>) no_bounds t s) = Inr copied"
      by (auto simp: fork_selection_def bindE_eq_Inr)
    show ?thesis
    proof (cases target)
      case None
      then show ?thesis using t by simp
    next
      case (Some x)
      obtain e where e: "map_of (entriesById s) x = Some e"
        using fork_target_cases [OF assms(1)] t(1) Some by blast
      obtain path where path: "path_to (\<lambda>e. e_parentId e = None) path" "hd path = e" "set path \<subseteq> set (entries s)"
        "distinct (map e_id path)" "copied = rev path"
        using branch_path [OF assms(1) e] t(3) Some by auto
      have "e \<in> set path" using path(1,2) path_nonempty by fastforce
      then show ?thesis
        using path path_parents [OF path(1)] byId_SomeD(2) [OF k(3) e] t(2) Some by (auto simp: rev_map [symmetric])
    qed
  qed
  then show "distinct (map e_id copied)" "parents_in {} copied" "set copied \<subseteq> set (entries s)"
    "\<forall>p \<in> set ls. \<forall>i. snd p = Some i \<longrightarrow> i \<in> e_id ` set copied" by blast+
qed

lemma fork_apply:
  assumes "state_ok s" "fork_selection options s = Inr (copied, ls)" "createForkMutations options s = Inr ms"
  shows "\<exists>s'. foldE (applyMutation invalid) ms new_state = Inr s' \<and> entries s' = renumber 1 copied \<and>
    lanes s' = map_put_all ls [(''main'', None)] \<and> sessionName s' = sessionName s \<and> records s' = [] \<and>
    (\<forall>e \<in> set copied. map_of (labels s') (e_id e) = map_of (labels s) (e_id e))"
proof -
  note f = fork_selection_ok [OF assms(1,2)]
  have new: "sequence new_state = 0" "entries new_state = []" "usedIds new_state = []" "entry_ids new_state = {}"
    "lanes new_state = [(''main'', None)]" "labels new_state = []" "sessionName new_state = None" "records new_state = []"
    by (simp_all add: new_state_def entry_ids_def)
  obtain s1 where s1: "foldE (applyMutation invalid) (copy_entries 1 copied) new_state = Inr s1"
    "entries s1 = renumber 1 copied" "records s1 = []" "sequence s1 = length copied" "lanes s1 = [(''main'', None)]"
    "labels s1 = []" "sessionName s1 = None"
    using copy_entries_apply [OF new_state_ok, of 1 copied invalid] f(1,2) new by auto
  have ids1: "entry_ids s1 = e_id ` set copied" by (simp add: entry_ids_def s1(2) renumber_id_set)
  obtain s2 where s2: "foldE (applyMutation invalid) (copy_lanes (1 + length copied) ls) s1 = Inr s2"
    "entries s2 = renumber 1 copied" "records s2 = []" "sequence s2 = length copied + length ls"
    "lanes s2 = map_put_all ls [(''main'', None)]" "labels s2 = []" "sessionName s2 = None"
    using copy_lanes_apply [OF apply_all_ok [OF new_state_ok s1(1)], of "1 + length copied" ls invalid] f(4) ids1 s1
    by auto
  let ?q = "1 + length copied + length ls"
  let ?nm = "case sessionName s of None \<Rightarrow> [] | Some n \<Rightarrow> [MutName ?q (Some n)]"
  obtain s3 where s3: "foldE (applyMutation invalid) ?nm s2 = Inr s3" "entries s3 = renumber 1 copied"
    "records s3 = []" "sequence s3 = length copied + length ls + length ?nm" "lanes s3 = map_put_all ls [(''main'', None)]"
    "labels s3 = []" "sessionName s3 = sessionName s"
    using s2 by (cases "sessionName s") (auto simp: applyMutation_def)
  have s3_ok: "state_ok s3"
    by (rule apply_all_ok [OF apply_all_ok [OF apply_all_ok [OF new_state_ok s1(1)] s2(1)] s3(1)])
  obtain s4 where s4: "foldE (applyMutation invalid) (copy_labels (?q + length ?nm) (labels s) copied) s3 = Inr s4"
    "entries s4 = entries s3" "records s4 = []" "lanes s4 = lanes s3" "sessionName s4 = sessionName s"
    "\<forall>i. map_of (labels s4) i = (if i \<in> e_id ` set copied \<and> map_has (labels s) i then map_of (labels s) i else None)"
    using copy_labels_apply [OF s3_ok, of "?q + length ?nm" copied invalid "labels s"] f(1) s3
    by (auto simp: entry_ids_def renumber_id_set)
  have "ms = copy_entries 1 copied @ copy_lanes (1 + length copied) ls @ ?nm @
      copy_labels (?q + length ?nm) (labels s) copied"
    using assms(2,3) by (cases "sessionName s") (simp_all add: createForkMutations_def Let_def)
  then have "foldE (applyMutation invalid) ms new_state = Inr s4"
    using s1(1) s2(1) s3(1) s4(1) by (simp add: foldE_append)
  then show ?thesis using s4 s3 by (intro exI [of _ s4]) auto
qed


section \<open>Properties\<close>

text \<open>
  C6: every state reached from a fresh session by accepted mutations satisfies the session
  invariant: consecutive sequence numbers, unique ids, parents that precede their children, lane
  leaves and labels that name existing entries, open-operation index and statistics that agree with
  the log.
\<close>

theorem session_invariant:
  assumes "foldE (applyMutation invalid) ms new_state = Inr s"
  shows "state_ok s"
  using new_state_ok assms by (rule apply_all_ok)

definition sample_user_entry :: "string \<Rightarrow> nat \<Rightarrow> string option \<Rightarrow> entry" where
  "sample_user_entry i q parent = \<lparr>e_id = i, e_seq = q, e_parentId = parent, e_timestamp = 0,
     e_data = MessageEntry (UserMessage JNull 0) False\<rparr>"

definition sample_start :: lane_record where
  "sample_start = \<lparr>r_id = ''op'', r_seq = 3, r_lane = ''main'', r_timestamp = 0,
     r_data = OperationStarted None (CompactionIntent None ''c'')\<rparr>"

definition sample_mutations :: "session_mutation list" where
  "sample_mutations = [MutEntry (Some ''main'') (sample_user_entry ''a'' 1 None),
     MutEntry (Some ''main'') (sample_user_entry ''b'' 2 (Some ''a'')), MutRecord sample_start,
     MutLabel 4 ''a'' (Some ''x'')]"

definition sample_state :: session_state where
  "sample_state = fold mutate sample_mutations new_state"

lemmas sample_defs = sample_state_def sample_mutations_def sample_user_entry_def sample_start_def new_state_def
  add_entry_def add_record_def

lemma sample_reached: "foldE (applyMutation invalidMutation) sample_mutations new_state = Inr sample_state"
  by (simp add: applyMutation_iff mutation_valid_def bindE_eq_Inr sample_defs)

theorem session_invariant_witness: "state_ok sample_state \<and> map e_id (entries sample_state) = [''a'', ''b'']"
  using session_invariant [OF sample_reached] by (simp add: sample_defs)


text \<open>
  C8: in a valid state a branch query from an existing entry never throws for valid limits and
  cursors. Newest-first it returns the matching entries of the path from the entry to the first
  bound (or the root), each followed by its parent; the path is the only one.
\<close>

theorem branch_query_path:
  assumes "state_ok s" "getEntry start s = Some e" "limit_ok (q_limit query)" "cursor_ok (q_cursor query)"
    "q_order query \<noteq> Some OldestFirst"
  shows "\<exists>!path. path_to (bound_reached bounds) path \<and> hd path = e \<and> set path \<subseteq> set (entries s) \<and>
    findEntriesOnBranch query bounds start s =
      Inr (limited (q_limit query) (filter (matchesEntryQuery query) path))"
proof -
  obtain path where path: "path_to (bound_reached bounds) path" "hd path = e" "set path \<subseteq> set (entries s)"
    "findEntriesOnBranch query bounds start s =
      Inr (limited (q_limit query) (filter (matchesEntryQuery query) path))"
    using branch_query_eq [OF assms(1) _ assms(3,4), of start e bounds] assms(2,5) by (auto simp: getEntry_def)
  then show ?thesis
    using path_unique [OF state_okD(2) [OF assms(1)]] by (intro ex1I [of _ path]) auto
qed

theorem branch_query_path_witness:
  "\<exists>!path. path_to (bound_reached no_bounds) path \<and> hd path = sample_user_entry ''b'' 2 (Some ''a'') \<and>
    set path \<subseteq> set (entries sample_state) \<and>
    findEntriesOnBranch any_entry no_bounds ''b'' sample_state =
      Inr (limited (q_limit any_entry) (filter (matchesEntryQuery any_entry) path))"
proof (rule branch_query_path)
  show "state_ok sample_state" using apply_all_ok [OF new_state_ok sample_reached] .
qed (simp_all add: sample_defs getEntry_def any_entry_def)



text \<open>
  C10: the mutations of a fork apply without error to a fresh session. The result is a valid session
  with the selected entries renumbered from one, the selected lanes, the source's name and labels
  and no operation records.
\<close>

theorem fork_faithful:
  assumes "state_ok s" "createForkMutations options s = Inr ms"
  shows "\<exists>copied ls s'. fork_selection options s = Inr (copied, ls) \<and>
    foldE (applyMutation invalidMutation) ms new_state = Inr s' \<and> state_ok s' \<and>
    entries s' = renumber 1 copied \<and> set copied \<subseteq> set (entries s) \<and>
    lanes s' = map_put_all ls [(''main'', None)] \<and> sessionName s' = sessionName s \<and> records s' = [] \<and>
    (\<forall>e \<in> set copied. getLabel (e_id e) s' = getLabel (e_id e) s)"
proof -
  obtain copied ls where sel: "fork_selection options s = Inr (copied, ls)"
    using assms(2) by (auto simp: createForkMutations_def bindE_eq_Inr)
  obtain s' where s': "foldE (applyMutation invalidMutation) ms new_state = Inr s'" "entries s' = renumber 1 copied"
    "lanes s' = map_put_all ls [(''main'', None)]" "sessionName s' = sessionName s" "records s' = []"
    "\<forall>e \<in> set copied. map_of (labels s') (e_id e) = map_of (labels s) (e_id e)"
    using fork_apply [OF assms(1) sel assms(2), of invalidMutation] by blast
  then show ?thesis
    using sel fork_selection_ok(3) [OF assms(1) sel] apply_all_ok [OF new_state_ok s'(1)] by (auto simp: getLabel_def)
qed

theorem fork_faithful_witness:
  "\<exists>s'. foldE (applyMutation invalidMutation)
      [MutEntry None (sample_user_entry ''a'' 1 None), MutLane 2 ''main'' (Some ''a''), MutLabel 3 ''a'' (Some ''x'')]
      new_state = Inr s' \<and> state_ok s' \<and> getLabel ''a'' s' = Some ''x''"
proof -
  let ?opt = "ForkBranch (Some ''b'') None"
  have ok: "state_ok sample_state" by (rule apply_all_ok [OF new_state_ok sample_reached])
  have sel: "fork_selection ?opt sample_state = Inr ([sample_user_entry ''a'' 1 None], [(''main'', Some ''a'')])"
    by (simp add: fork_selection_def fork_target_def fork_from_def getEntry_def sample_defs findEntriesOnBranch_def
        assertValidLimit_def assertValidCursor_def walkToRoot_def walk_from.simps no_bounds_def at_limit_def)
  have ms: "createForkMutations ?opt sample_state =
      Inr [MutEntry None (sample_user_entry ''a'' 1 None), MutLane 2 ''main'' (Some ''a''), MutLabel 3 ''a'' (Some ''x'')]"
    by (simp add: createForkMutations_def sel) (simp add: sample_defs)
  from fork_faithful [OF ok ms] sel show ?thesis
    by (auto simp: sample_user_entry_def getLabel_def) (simp add: sample_defs)
qed

end
