(* ===== verification/Session_Memory.thy ===== *)
theory Session_Memory
  imports Session_State
begin

text \<open>
  Session storage (packages/agent/src/harness/session/memory.ts). The write operations of the
  interface \<open>SessionStorage\<close> validate their arguments against the session state, build one
  mutation and apply it; the locale \<open>session_storage\<close> states what a backend promises about them
  and what follows for every client. \<open>InMemorySessionStorage\<close> and \<open>InMemorySessionRepo\<close> are
  modelled in full; storages live in an address space, so that a session handle keeps working on
  the storage it was opened on. The clock and the id source are arguments.
\<close>

section \<open>Write requests\<close>

datatype storage_request =
    CreateLane string "string option"
  | MoveLane string "string option"
  | AppendEntry provisioned_entry string
  | AppendRecord new_record
  | SetName "string option"
  | SetLabel string "string option"

definition new_entry :: "int \<Rightarrow> provisioned_entry \<Rightarrow> string option \<Rightarrow> session_state \<Rightarrow> entry" where
  "new_entry now pe parentId s = \<lparr>e_id = p_id pe, e_seq = nextSequence s, e_parentId = parentId,
     e_timestamp = now, e_data = p_data pe\<rparr>"

definition stamp_record :: "int \<Rightarrow> new_record \<Rightarrow> session_state \<Rightarrow> lane_record" where
  "stamp_record now nr s = \<lparr>r_id = n_id nr, r_seq = nextSequence s, r_lane = n_lane nr,
     r_timestamp = now, r_data = n_data nr\<rparr>"

definition currentOpenOperationId :: "string \<Rightarrow> session_state \<Rightarrow> session_exn + string option" where
  "currentOpenOperationId lane s =
     bindE (findOpenOperations lane (Some (Integral 1)) s) (\<lambda>ops.
     Inr (case ops of [] \<Rightarrow> None | r # _ \<Rightarrow> Some (r_id r)))"

definition rejectSecondOperation :: "new_record \<Rightarrow> string option \<Rightarrow> session_exn + unit" where
  "rejectSecondOperation nr current =
     (case current of
        None \<Rightarrow> Inr ()
      | Some i \<Rightarrow> guardE (record_type_of (n_data nr) = TypeOperationStarted)
          (SessionError StorageError (''Lane '' @ n_lane nr @ '' already has an open operation '' @ i)))"

fun request_mutation :: "int \<Rightarrow> storage_request \<Rightarrow> session_state \<Rightarrow> session_exn + session_mutation" where
  "request_mutation now (CreateLane lane at) s =
     bindE (validateNewLane lane s) (\<lambda>_.
     bindE (validateTarget at s) (\<lambda>_.
     Inr (MutLane (nextSequence s) lane at)))"
| "request_mutation now (MoveLane lane to) s =
     bindE (requireLane lane s) (\<lambda>_.
     bindE (validateTarget to s) (\<lambda>_.
     Inr (MutLane (nextSequence s) lane to)))"
| "request_mutation now (AppendEntry pe lane) s =
     bindE (requireLane lane s) (\<lambda>parentId.
     bindE (validateUnusedId (p_id pe) s) (\<lambda>_.
     Inr (MutEntry (Some lane) (new_entry now pe parentId s))))"
| "request_mutation now (AppendRecord nr) s =
     bindE (requireLane (n_lane nr) s) (\<lambda>_.
     bindE (validateUnusedId (n_id nr) s) (\<lambda>_.
     bindE (currentOpenOperationId (n_lane nr) s) (\<lambda>current.
     bindE (rejectSecondOperation nr current) (\<lambda>_.
     Inr (MutRecord (stamp_record now nr s))))))"
| "request_mutation now (SetName n) s = Inr (MutName (nextSequence s) n)"
| "request_mutation now (SetLabel i l) s =
     bindE (validateTarget (Some i) s) (\<lambda>_.
     Inr (MutLabel (nextSequence s) i l))"

definition perform :: "int \<Rightarrow> storage_request \<Rightarrow> session_state \<Rightarrow> session_exn + session_state" where
  "perform now req s = bindE (request_mutation now req s) (\<lambda>m. applyMutation invalidMutation m s)"

section \<open>At most one open operation per lane\<close>

definition single_open :: "session_state \<Rightarrow> bool" where
  "single_open s \<longleftrightarrow> (\<forall>lane. length (open_of lane (records s)) \<le> 1)"

definition session_ok :: "session_state \<Rightarrow> bool" where
  "session_ok s \<longleftrightarrow> state_ok s \<and> single_open s"

lemma new_session_ok: "session_ok new_state"
  by (simp add: session_ok_def new_state_ok single_open_def) (simp add: new_state_def)

lemma request_valid:
  assumes "request_mutation now req s = Inr m" "state_ok s"
  shows "mutation_valid m s"
proof -
  have leaf: "map_has (entriesById s) i" if "map_of (lanes s) lane = Some (Some i)" for lane i
    using state_okD(4) [OF assms(2)] byId_lookup [OF state_okD(3) [OF assms(2)]] that by (auto simp: lanes_ok_def)
  show ?thesis
    using assms(1)
  proof (cases req)
    case (AppendEntry pe lane)
    then show ?thesis
      using assms(1) leaf
      by (auto simp: mutation_valid_def bindE_eq_Inr requireLane_def validateUnusedId_def new_entry_def
          nextSequence_def split: option.splits)
  qed (auto simp: mutation_valid_def bindE_eq_Inr requireLane_def validateUnusedId_def validateTarget_def
      stamp_record_def nextSequence_def split: option.splits)
qed

lemma perform_iff:
  assumes "state_ok s"
  shows "perform now req s = Inr s' \<longleftrightarrow> (\<exists>m. request_mutation now req s = Inr m \<and> s' = mutate m s)"
  using request_valid [OF _ assms] by (auto simp: perform_def bindE_eq_Inr applyMutation_iff)

lemma perform_error:
  assumes "state_ok s"
  shows "perform now req s = Inl e \<longleftrightarrow> request_mutation now req s = Inl e"
proof
  assume "perform now req s = Inl e"
  then consider "request_mutation now req s = Inl e"
    | m where "request_mutation now req s = Inr m" "applyMutation invalidMutation m s = Inl e"
    by (auto simp: perform_def bindE_eq_Inl)
  then show "request_mutation now req s = Inl e"
  proof cases
    case 2
    then have "applyMutation invalidMutation m s = Inr (mutate m s)"
      using request_valid [OF 2(1) assms] applyMutation_iff by blast
    with 2 show ?thesis by simp
  qed
qed (simp add: perform_def)

lemma open_id_None:
  assumes "state_ok s" "currentOpenOperationId lane s = Inr None"
  shows "open_of lane (records s) = []"
proof -
  have "map snd (open_ops lane s) = open_of lane (records s)"
    using state_okD(6) [OF assms(1)] by (simp add: ops_ok_def comp_def)
  then have "findOpenOperations lane (Some (Integral 1)) s = Inr (take 1 (rev (open_of lane (records s))))"
    by (simp add: findOpenOperations_def assertValidLimit_def rev_map)
  then show ?thesis
    using assms(2) by (cases "rev (open_of lane (records s))") (auto simp: currentOpenOperationId_def)
qed

lemma open_of_other:
  "\<not> is_start r \<Longrightarrow> length (open_of lane (rs @ [r])) \<le> length (open_of lane rs)"
  by (simp add: open_of_snoc)

lemma single_open_record:
  assumes "single_open s" "is_start r \<Longrightarrow> open_of (r_lane r) (records s) = []"
  shows "single_open (add_record r s)"
proof -
  have "length (open_of lane (records s @ [r])) \<le> 1" for lane
  proof (cases "is_start r \<and> r_lane r = lane")
    case True
    then show ?thesis using assms(2) by (simp add: open_of_snoc)
  next
    case False
    then have "length (open_of lane (records s @ [r])) \<le> length (open_of lane (records s))"
      by (auto simp: open_of_snoc)
    also have "\<dots> \<le> 1" using assms(1) by (simp add: single_open_def)
    finally show ?thesis .
  qed
  then show ?thesis by (simp add: single_open_def add_record_def)
qed

lemma request_single_open:
  assumes "request_mutation now req s = Inr m" "state_ok s" "single_open s"
  shows "single_open (mutate m s)"
proof (cases req)
  case (AppendRecord nr)
  then obtain current where m: "m = MutRecord (stamp_record now nr s)"
    and cur: "currentOpenOperationId (n_lane nr) s = Inr current" "rejectSecondOperation nr current = Inr ()"
    using assms(1) by (auto simp: bindE_eq_Inr)
  have "open_of (n_lane nr) (records s) = []" if "is_start (stamp_record now nr s)"
  proof -
    have "record_type_of (n_data nr) = TypeOperationStarted"
      using that by (auto simp: is_start_def stamp_record_def)
    with cur(2) have "current = None" by (auto simp: rejectSecondOperation_def split: option.splits)
    with cur(1) show ?thesis using open_id_None [OF assms(2)] by blast
  qed
  then show ?thesis using m single_open_record [OF assms(3)] by (simp add: stamp_record_def)
qed (use assms in \<open>auto simp: bindE_eq_Inr single_open_def add_entry_def\<close>)

lemma perform_ok:
  assumes "session_ok s" "perform now req s = Inr s'"
  shows "session_ok s'"
proof -
  from assms obtain m where m: "request_mutation now req s = Inr m" "s' = mutate m s"
    by (auto simp: session_ok_def perform_iff)
  then show ?thesis
    using assms(1) request_valid [OF m(1)] request_single_open [OF m(1)] by (auto simp: session_ok_def intro: mutate_ok)
qed

section \<open>The storage interface\<close>

text \<open>A client's requests in the order in which they run, whatever they return.\<close>

primrec submit_all ::
  "(int \<Rightarrow> storage_request \<Rightarrow> 's \<Rightarrow> 'r \<times> 's) \<Rightarrow> (int \<times> storage_request) list \<Rightarrow> 's \<Rightarrow> 's" where
  "submit_all submit [] st = st"
| "submit_all submit (r # rs) st = submit_all submit rs (snd (submit (fst r) (snd r) st))"

text \<open>
  What a backend promises: a write request either performs the abstract step on the session
  state it shows, or fails and leaves that state alone; a request the session state rejects
  always fails, with the validation's error. A backend may fail for reasons of its own (\<open>works\<close>
  describes the states of the backend in which it does not).
\<close>

locale session_storage =
  fixes submit :: "int \<Rightarrow> storage_request \<Rightarrow> 's \<Rightarrow> (session_exn + unit) \<times> 's"
    and shows_state :: "'s \<Rightarrow> session_state"
    and invar :: "'s \<Rightarrow> bool"
    and works :: "'s \<Rightarrow> bool"
  assumes invar_session: "invar st \<Longrightarrow> session_ok (shows_state st)"
    and submit_done: "invar st \<Longrightarrow> submit now req st = (Inr (), st') \<Longrightarrow>
      invar st' \<and> perform now req (shows_state st) = Inr (shows_state st')"
    and submit_failed: "invar st \<Longrightarrow> submit now req st = (Inl e, st') \<Longrightarrow>
      invar st' \<and> shows_state st' = shows_state st"
    and submit_rejects: "invar st \<Longrightarrow> perform now req (shows_state st) = Inl e \<Longrightarrow> fst (submit now req st) = Inl e"
    and submit_works: "invar st \<Longrightarrow> works st \<Longrightarrow> perform now req (shows_state st) = Inr s' \<Longrightarrow>
      fst (submit now req st) = Inr ()"
begin

lemma submit_invar:
  assumes "invar st"
  shows "invar (snd (submit now req st))"
  using submit_done [OF assms] submit_failed [OF assms] by (cases "submit now req st"; cases "fst (submit now req st)") auto

lemma submit_all_invar: "invar st \<Longrightarrow> invar (submit_all submit rs st)"
  by (induction rs arbitrary: st) (auto simp: submit_invar)

lemma one_open_operation:
  assumes "invar st"
  shows "length (open_of lane (records (shows_state (submit_all submit rs st)))) \<le> 1"
  using invar_session [OF submit_all_invar [OF assms]] by (simp add: session_ok_def single_open_def)

lemma accepted_iff:
  assumes "invar st" "works st"
  shows "fst (submit now req st) = Inr () \<longleftrightarrow> (\<exists>m. request_mutation now req (shows_state st) = Inr m)"
proof
  assume "fst (submit now req st) = Inr ()"
  then have "perform now req (shows_state st) = Inr (shows_state (snd (submit now req st)))"
    using submit_done [OF assms(1), of now req "snd (submit now req st)"] by (cases "submit now req st") auto
  then show "\<exists>m. request_mutation now req (shows_state st) = Inr m"
    using perform_iff invar_session [OF assms(1)] by (auto simp: session_ok_def)
next
  assume "\<exists>m. request_mutation now req (shows_state st) = Inr m"
  then obtain s' where "perform now req (shows_state st) = Inr s'"
    using perform_iff invar_session [OF assms(1)] by (auto simp: session_ok_def)
  then show "fst (submit now req st) = Inr ()" by (rule submit_works [OF assms])
qed

lemma entries_grow:
  assumes "invar st"
  shows "\<exists>es. entries (shows_state (submit_all submit rs st)) = entries (shows_state st) @ es"
  using assms
proof (induction rs arbitrary: st)
  case Nil
  then show ?case by simp
next
  case (Cons r rs)
  let ?st = "snd (submit (fst r) (snd r) st)"
  have "\<exists>es. entries (shows_state ?st) = entries (shows_state st) @ es"
  proof (cases "fst (submit (fst r) (snd r) st)")
    case (Inl e)
    then show ?thesis
      using submit_failed [OF Cons.prems, of "fst r" "snd r" e ?st] by (cases "submit (fst r) (snd r) st") auto
  next
    case (Inr u)
    then have "perform (fst r) (snd r) (shows_state st) = Inr (shows_state ?st)"
      using submit_done [OF Cons.prems, of "fst r" "snd r" ?st] by (cases "submit (fst r) (snd r) st") auto
    then obtain m where "shows_state ?st = mutate m (shows_state st)"
      using perform_iff invar_session [OF Cons.prems] by (auto simp: session_ok_def)
    then show ?thesis by (cases m) (auto simp: add_entry_def add_record_def)
  qed
  then show ?case using Cons.IH [OF submit_invar [OF Cons.prems, of "fst r" "snd r"]] by auto
qed

end

section \<open>In-memory storage\<close>

record memory_storage =
  ms_metadata :: session_metadata
  ms_state :: session_state

definition new_memory_storage :: "session_metadata \<Rightarrow> memory_storage" where
  "new_memory_storage metadata = \<lparr>ms_metadata = metadata, ms_state = new_state\<rparr>"

definition apply_memory :: "session_mutation \<Rightarrow> memory_storage \<Rightarrow> session_exn + memory_storage" where
  "apply_memory m st = bindE (applyMutation invalidMutation m (ms_state st)) (\<lambda>s. Inr (st\<lparr>ms_state := s\<rparr>))"

definition fork_memory :: "session_metadata \<Rightarrow> fork_options \<Rightarrow> memory_storage \<Rightarrow> session_exn + memory_storage" where
  "fork_memory metadata options st =
     bindE (createForkMutations options (ms_state st)) (\<lambda>ms.
     foldE apply_memory ms (new_memory_storage metadata))"

definition mem_createLane :: "string \<Rightarrow> string option \<Rightarrow> memory_storage \<Rightarrow> session_exn + memory_storage" where
  "mem_createLane lane at st =
     bindE (validateNewLane lane (ms_state st)) (\<lambda>_.
     bindE (validateTarget at (ms_state st)) (\<lambda>_.
     apply_memory (MutLane (nextSequence (ms_state st)) lane at) st))"

definition mem_moveLane :: "string \<Rightarrow> string option \<Rightarrow> memory_storage \<Rightarrow> session_exn + memory_storage" where
  "mem_moveLane lane to st =
     bindE (requireLane lane (ms_state st)) (\<lambda>_.
     bindE (validateTarget to (ms_state st)) (\<lambda>_.
     apply_memory (MutLane (nextSequence (ms_state st)) lane to) st))"

definition mem_appendEntry ::
  "int \<Rightarrow> provisioned_entry \<Rightarrow> string \<Rightarrow> memory_storage \<Rightarrow> session_exn + (entry \<times> memory_storage)" where
  "mem_appendEntry now pe lane st =
     bindE (requireLane lane (ms_state st)) (\<lambda>parentId.
     bindE (validateUnusedId (p_id pe) (ms_state st)) (\<lambda>_.
     let e = \<lparr>e_id = p_id pe, e_seq = nextSequence (ms_state st), e_parentId = parentId,
              e_timestamp = now, e_data = p_data pe\<rparr> in
     bindE (apply_memory (MutEntry (Some lane) e) st) (\<lambda>st'.
     Inr (e, st'))))"

definition mem_appendRecord ::
  "int \<Rightarrow> new_record \<Rightarrow> memory_storage \<Rightarrow> session_exn + (lane_record \<times> memory_storage)" where
  "mem_appendRecord now nr st =
     bindE (requireLane (n_lane nr) (ms_state st)) (\<lambda>_.
     bindE (validateUnusedId (n_id nr) (ms_state st)) (\<lambda>_.
     bindE (findOpenOperations (n_lane nr) (Some (Integral 1)) (ms_state st)) (\<lambda>ops.
     let current = (case ops of [] \<Rightarrow> None | r # _ \<Rightarrow> Some (r_id r)) in
     bindE (case current of
              None \<Rightarrow> Inr ()
            | Some i \<Rightarrow> guardE (record_type_of (n_data nr) = TypeOperationStarted)
                (SessionError StorageError (''Lane '' @ n_lane nr @ '' already has an open operation '' @ i))) (\<lambda>_.
     let r = \<lparr>r_id = n_id nr, r_seq = nextSequence (ms_state st), r_lane = n_lane nr,
              r_timestamp = now, r_data = n_data nr\<rparr> in
     bindE (apply_memory (MutRecord r) st) (\<lambda>st'.
     Inr (r, st'))))))"

definition mem_setName :: "string option \<Rightarrow> memory_storage \<Rightarrow> session_exn + memory_storage" where
  "mem_setName n st = apply_memory (MutName (nextSequence (ms_state st)) n) st"

definition mem_setLabel :: "string \<Rightarrow> string option \<Rightarrow> memory_storage \<Rightarrow> session_exn + memory_storage" where
  "mem_setLabel i l st =
     bindE (validateTarget (Some i) (ms_state st)) (\<lambda>_.
     apply_memory (MutLabel (nextSequence (ms_state st)) i l) st)"

text \<open>A request to the in-memory backend; a rejected call leaves the object as it was.\<close>

definition keep_on_error :: "'s \<Rightarrow> session_exn + 's \<Rightarrow> (session_exn + unit) \<times> 's" where
  "keep_on_error st r = (case r of Inl e \<Rightarrow> (Inl e, st) | Inr st' \<Rightarrow> (Inr (), st'))"

fun mem_submit :: "int \<Rightarrow> storage_request \<Rightarrow> memory_storage \<Rightarrow> (session_exn + unit) \<times> memory_storage" where
  "mem_submit now (CreateLane lane at) st = keep_on_error st (mem_createLane lane at st)"
| "mem_submit now (MoveLane lane to) st = keep_on_error st (mem_moveLane lane to st)"
| "mem_submit now (AppendEntry pe lane) st =
     keep_on_error st (bindE (mem_appendEntry now pe lane st) (\<lambda>(e, st'). Inr st'))"
| "mem_submit now (AppendRecord nr) st =
     keep_on_error st (bindE (mem_appendRecord now nr st) (\<lambda>(r, st'). Inr st'))"
| "mem_submit now (SetName n) st = keep_on_error st (mem_setName n st)"
| "mem_submit now (SetLabel i l) st = keep_on_error st (mem_setLabel i l st)"

lemmas mem_ops = mem_createLane_def mem_moveLane_def mem_appendEntry_def mem_appendRecord_def mem_setName_def
  mem_setLabel_def

lemma mem_submit_perform:
  "mem_submit now req st =
     keep_on_error st (bindE (perform now req (ms_state st)) (\<lambda>s. Inr (st\<lparr>ms_state := s\<rparr>)))"
  by (cases req)
    (simp_all add: mem_ops perform_def apply_memory_def bindE_assoc new_entry_def stamp_record_def Let_def
      currentOpenOperationId_def rejectSecondOperation_def)

lemma keep_on_error_eq [simp]:
  "keep_on_error st r = (Inr u, st') \<longleftrightarrow> r = Inr st'"
  "keep_on_error st r = (Inl e, st') \<longleftrightarrow> r = Inl e \<and> st' = st"
  by (auto simp: keep_on_error_def split: sum.splits)

interpretation mem: session_storage mem_submit ms_state "\<lambda>st. session_ok (ms_state st)" "\<lambda>_. True"
proof unfold_locales
  fix st now req st'
  assume "session_ok (ms_state st)" "mem_submit now req st = (Inr (), st')"
  then show "session_ok (ms_state st') \<and> perform now req (ms_state st) = Inr (ms_state st')"
    using perform_ok by (auto simp: mem_submit_perform bindE_eq_Inr)
qed (auto simp: mem_submit_perform, simp_all add: keep_on_error_def)

section \<open>In-memory repository\<close>

text \<open>
  \<open>sessions\<close> maps a session id to the address of its storage object. The addresses handed out
  in \<open>Session\<close> objects stay valid when a session is deleted.
\<close>

record memory_repo =
  storages :: "memory_storage list"
  sessions :: "(string \<times> nat) list"

record create_options =
  co_id :: "string option"
  co_parentSessionId :: "string option"

definition new_memory_repo :: memory_repo where
  "new_memory_repo = \<lparr>storages = [], sessions = []\<rparr>"

definition add_storage :: "string \<Rightarrow> memory_storage \<Rightarrow> memory_repo \<Rightarrow> nat \<times> memory_repo" where
  "add_storage i st repo = (length (storages repo),
     repo\<lparr>storages := storages repo @ [st], sessions := map_put i (length (storages repo)) (sessions repo)\<rparr>)"

definition requireStorage :: "string \<Rightarrow> memory_repo \<Rightarrow> session_exn + nat" where
  "requireStorage i repo =
     (case map_of (sessions repo) i of
        None \<Rightarrow> Inl (SessionError NotFound (''Session not found: '' @ i))
      | Some a \<Rightarrow> Inr a)"

definition chosen_id :: "string option \<Rightarrow> string \<Rightarrow> string" where
  "chosen_id given uuid = (case given of None \<Rightarrow> uuid | Some i \<Rightarrow> i)"

definition rejectExisting :: "string \<Rightarrow> memory_repo \<Rightarrow> session_exn + unit" where
  "rejectExisting i repo =
     guardE (map_has (sessions repo) i) (SessionError AlreadyExists (''Session already exists: '' @ i))"

definition repo_create :: "string \<Rightarrow> int \<Rightarrow> create_options \<Rightarrow> memory_repo \<Rightarrow> session_exn + (nat \<times> memory_repo)" where
  "repo_create uuid now options repo =
     (let i = chosen_id (co_id options) uuid in
      bindE (rejectExisting i repo) (\<lambda>_.
      Inr (add_storage i (new_memory_storage
        \<lparr>md_id = i, md_createdAt = now, md_parentSessionId = co_parentSessionId options\<rparr>) repo)))"

definition repo_open :: "session_metadata \<Rightarrow> memory_repo \<Rightarrow> session_exn + nat" where
  "repo_open metadata repo = requireStorage (md_id metadata) repo"

definition repo_list :: "memory_repo \<Rightarrow> session_metadata list" where
  "repo_list repo = map (\<lambda>(i, a). ms_metadata (storages repo ! a)) (sessions repo)"

definition repo_delete :: "session_metadata \<Rightarrow> memory_repo \<Rightarrow> memory_repo" where
  "repo_delete metadata repo = repo\<lparr>sessions := map_del (md_id metadata) (sessions repo)\<rparr>"

definition repo_fork ::
  "string \<Rightarrow> int \<Rightarrow> session_metadata \<Rightarrow> fork_options \<Rightarrow> create_options \<Rightarrow> memory_repo \<Rightarrow>
   session_exn + (nat \<times> memory_repo)" where
  "repo_fork uuid now source fopts options repo =
     bindE (requireStorage (md_id source) repo) (\<lambda>a.
     let i = chosen_id (co_id options) uuid in
     bindE (rejectExisting i repo) (\<lambda>_.
     bindE (fork_memory \<lparr>md_id = i, md_createdAt = now,
              md_parentSessionId = (case co_parentSessionId options of None \<Rightarrow> Some (md_id source) | Some p \<Rightarrow> Some p)\<rparr>
            fopts (storages repo ! a)) (\<lambda>st.
     Inr (add_storage i st repo))))"

text \<open>A write through a \<open>Session\<close> handle: the storage object at the handle's address changes.\<close>

definition repo_submit :: "int \<Rightarrow> storage_request \<Rightarrow> nat \<Rightarrow> memory_repo \<Rightarrow> (session_exn + unit) \<times> memory_repo" where
  "repo_submit now req a repo =
     (case mem_submit now req (storages repo ! a) of
        (res, st) \<Rightarrow> (res, repo\<lparr>storages := (storages repo)[a := st]\<rparr>))"

definition repo_ok :: "memory_repo \<Rightarrow> bool" where
  "repo_ok repo \<longleftrightarrow> map_wf (sessions repo) \<and> inj_on snd (set (sessions repo)) \<and>
     (\<forall>(i, a) \<in> set (sessions repo). a < length (storages repo) \<and> md_id (ms_metadata (storages repo ! a)) = i) \<and>
     (\<forall>st \<in> set (storages repo). session_ok (ms_state st))"

lemma fork_session_ok:
  assumes "session_ok (ms_state st)" "fork_memory metadata options st = Inr st'"
  shows "session_ok (ms_state st') \<and> ms_metadata st' = metadata"
proof -
  obtain ms where ms: "createForkMutations options (ms_state st) = Inr ms"
    "foldE apply_memory ms (new_memory_storage metadata) = Inr st'"
    using assms(2) by (auto simp: fork_memory_def bindE_eq_Inr)
  have lift: "foldE apply_memory ms t = bindE (foldE (applyMutation invalidMutation) ms (ms_state t))
      (\<lambda>s. Inr (t\<lparr>ms_state := s\<rparr>))" for t
  proof (induction ms arbitrary: t)
    case (Cons m ms)
    then show ?case by (cases "applyMutation invalidMutation m (ms_state t)") (simp_all add: apply_memory_def)
  qed simp
  obtain s where s: "foldE (applyMutation invalidMutation) ms new_state = Inr s" "st' = \<lparr>ms_metadata = metadata, ms_state = s\<rparr>"
    using ms(2) unfolding lift by (auto simp: bindE_eq_Inr new_memory_storage_def)
  obtain copied ls where "fork_selection options (ms_state st) = Inr (copied, ls)"
    using ms(1) by (auto simp: createForkMutations_def bindE_eq_Inr)
  then have "records s = []"
    using fork_apply [OF _ _ ms(1), of copied ls invalidMutation] assms(1) s(1) by (auto simp: session_ok_def)
  then show ?thesis
    using s apply_all_ok [OF new_state_ok s(1)] by (simp add: session_ok_def single_open_def)
qed

inductive repo_reachable :: "memory_repo \<Rightarrow> bool" where
  Empty: "repo_reachable new_memory_repo"
| Create: "repo_reachable repo \<Longrightarrow> repo_create uuid now options repo = Inr (a, repo') \<Longrightarrow> repo_reachable repo'"
| Fork: "repo_reachable repo \<Longrightarrow> repo_fork uuid now source fopts options repo = Inr (a, repo') \<Longrightarrow> repo_reachable repo'"
| Delete: "repo_reachable repo \<Longrightarrow> repo_reachable (repo_delete metadata repo)"
| Write: "repo_reachable repo \<Longrightarrow> a < length (storages repo) \<Longrightarrow> repo_submit now req a repo = (res, repo') \<Longrightarrow>
    repo_reachable repo'"

lemma map_put_fresh_set: "map_of m k = None \<Longrightarrow> set (map_put k v m) = insert (k, v) (set m)"
  by (simp add: map_put_new)

lemma add_storage_ok:
  assumes "repo_ok repo" "rejectExisting i repo = Inr u" "session_ok (ms_state st)" "md_id (ms_metadata st) = i"
    "add_storage i st repo = (a, repo')"
  shows "repo_ok repo'"
proof -
  have fresh: "map_of (sessions repo) i = None" using assms(2) by (simp add: rejectExisting_def)
  have r: "storages repo' = storages repo @ [st]" "sessions repo' = map_put i (length (storages repo)) (sessions repo)"
    using assms(5) by (auto simp: add_storage_def)
  have "inj_on snd (set (sessions repo'))"
    using assms(1) unfolding r map_put_fresh_set [OF fresh] by (auto simp: repo_ok_def inj_on_def)
  then show ?thesis
    using assms(1,3,4) unfolding repo_ok_def r map_put_fresh_set [OF fresh] by (auto simp: nth_append)
qed

lemma mem_submit_metadata: "ms_metadata (snd (mem_submit now req st)) = ms_metadata st"
  by (cases "perform now req (ms_state st)") (simp_all add: mem_submit_perform keep_on_error_def)

lemma repo_submit_ok:
  assumes "repo_ok repo" "a < length (storages repo)" "repo_submit now req a repo = (res, repo')"
  shows "repo_ok repo'"
proof -
  let ?st = "snd (mem_submit now req (storages repo ! a))"
  have r: "repo' = repo\<lparr>storages := (storages repo)[a := ?st]\<rparr>"
    using assms(3) by (auto simp: repo_submit_def split: prod.splits)
  have "session_ok (ms_state ?st)"
    using assms(1,2) by (intro mem.submit_invar) (simp add: repo_ok_def)
  moreover have "ms_metadata ((storages repo)[a := ?st] ! x) = ms_metadata (storages repo ! x)" for x
    using assms(2) by (cases "x = a") (simp_all add: mem_submit_metadata)
  ultimately show ?thesis
    using assms(1) set_update_subset_insert [of "storages repo" a ?st] by (auto simp: repo_ok_def r)
qed

lemma repo_reachable_ok: "repo_reachable repo \<Longrightarrow> repo_ok repo"
proof (induction rule: repo_reachable.induct)
  case Empty
  then show ?case by (simp add: repo_ok_def new_memory_repo_def)
next
  case (Create repo uuid now options a repo')
  then show ?case
    by (auto simp: repo_create_def Let_def bindE_eq_Inr new_memory_storage_def new_session_ok
        intro!: add_storage_ok [of repo "chosen_id (co_id options) uuid" "()"])
next
  case (Fork repo uuid now source fopts options a repo')
  then obtain addr st where st: "map_of (sessions repo) (md_id source) = Some addr"
    "rejectExisting (chosen_id (co_id options) uuid) repo = Inr ()"
    "fork_memory \<lparr>md_id = chosen_id (co_id options) uuid, md_createdAt = now,
        md_parentSessionId = (case co_parentSessionId options of None \<Rightarrow> Some (md_id source) | Some p \<Rightarrow> Some p)\<rparr>
      fopts (storages repo ! addr) = Inr st"
    "add_storage (chosen_id (co_id options) uuid) st repo = (a, repo')"
    by (auto simp: repo_fork_def Let_def bindE_eq_Inr requireStorage_def split: option.splits)
  have "session_ok (ms_state (storages repo ! addr))"
    using Fork.IH map_of_SomeD [OF st(1)] by (auto simp: repo_ok_def)
  from fork_session_ok [OF this st(3)] add_storage_ok [OF Fork.IH st(2) _ _ st(4)] show ?case by simp
next
  case (Delete repo metadata)
  have sub: "set (map_del (md_id metadata) (sessions repo)) \<subseteq> set (sessions repo)" by (auto simp: map_del_def)
  then have "inj_on snd (set (map_del (md_id metadata) (sessions repo)))"
    using Delete.IH by (auto simp: repo_ok_def intro: inj_on_subset)
  with sub Delete.IH show ?case by (auto simp: repo_ok_def repo_delete_def dest: subsetD)
next
  case (Write repo a now req res repo')
  then show ?case by (blast intro: repo_submit_ok)
qed

section \<open>When a request is refused\<close>

definition target_missing :: "string option \<Rightarrow> session_state \<Rightarrow> bool" where
  "target_missing t s \<longleftrightarrow> (case t of None \<Rightarrow> False | Some i \<Rightarrow> i \<notin> entry_ids s)"

definition id_taken :: "string \<Rightarrow> session_state \<Rightarrow> bool" where
  "id_taken i s \<longleftrightarrow> i \<in> entry_ids s \<union> r_id ` set (records s)"

fun request_error :: "storage_request \<Rightarrow> session_state \<Rightarrow> session_error_code option" where
  "request_error (CreateLane lane at) s =
     (if map_has (lanes s) lane then Some AlreadyExists else if target_missing at s then Some NotFound else None)"
| "request_error (MoveLane lane to) s =
     (if \<not> map_has (lanes s) lane then Some InvalidLane else if target_missing to s then Some NotFound else None)"
| "request_error (AppendEntry pe lane) s =
     (if \<not> map_has (lanes s) lane then Some InvalidLane else if id_taken (p_id pe) s then Some AlreadyExists else None)"
| "request_error (AppendRecord nr) s =
     (if \<not> map_has (lanes s) (n_lane nr) then Some InvalidLane
      else if id_taken (n_id nr) s then Some AlreadyExists
      else if record_type_of (n_data nr) = TypeOperationStarted \<and> open_of (n_lane nr) (records s) \<noteq> []
      then Some StorageError else None)"
| "request_error (SetName n) s = None"
| "request_error (SetLabel i l) s = (if target_missing (Some i) s then Some NotFound else None)"

lemma validateTarget_eq:
  assumes "tree_ok s"
  shows "validateTarget t s = (if target_missing t s then Inl (SessionError NotFound (''Entry not found: '' @ the t)) else Inr ())"
  using byId_lookup_None [OF assms] by (auto simp: validateTarget_def target_missing_def split: option.splits)

lemma validateUnusedId_eq:
  assumes "ids_ok s"
  shows "validateUnusedId i s =
    (if id_taken i s then Inl (SessionError AlreadyExists (''Session id already exists: '' @ i)) else Inr ())"
  using assms by (simp add: validateUnusedId_def id_taken_def ids_ok_def)

lemma currentOpenOperationId_eq:
  assumes "ops_ok s"
  shows "currentOpenOperationId lane s =
    Inr (case rev (open_of lane (records s)) of [] \<Rightarrow> None | r # _ \<Rightarrow> Some (r_id r))"
proof -
  have "map snd (open_ops lane s) = open_of lane (records s)" using assms by (simp add: ops_ok_def comp_def)
  then show ?thesis
    by (cases "rev (open_of lane (records s))")
      (simp_all add: currentOpenOperationId_def findOpenOperations_def assertValidLimit_def)
qed

lemma request_error_correct:
  assumes "state_ok s"
  shows "case request_mutation now req s of
      Inl (SessionError code msg) \<Rightarrow> request_error req s = Some code
    | Inr m \<Rightarrow> request_error req s = None"
  using state_okD(2,3,6) [OF assms]
  by (cases req)
    (auto simp: validateTarget_eq validateUnusedId_eq currentOpenOperationId_eq requireLane_def validateNewLane_def
      rejectSecondOperation_def guardE_def bindE_def target_missing_def split: option.splits list.splits)

text \<open>
  C12: a write to a valid in-memory session fails exactly when \<open>request_error\<close> names a reason (lane
  missing or already there, target entry missing, id taken, second open operation), with that
  error code, and then leaves the session as it was.
\<close>

theorem memory_write_errors:
  assumes "session_ok (ms_state st)"
  shows "case mem_submit now req st of
      (Inl (SessionError code msg), st') \<Rightarrow> request_error req (ms_state st) = Some code \<and> st' = st
    | (Inr u, st') \<Rightarrow> request_error req (ms_state st) = None"
proof -
  have ok: "state_ok (ms_state st)" using assms by (simp add: session_ok_def)
  show ?thesis
  proof (cases "request_mutation now req (ms_state st)")
    case (Inl e)
    then show ?thesis
      using request_error_correct [OF ok, where now = now and req = req] perform_error [OF ok, of now req e]
      by (cases e) (simp add: mem_submit_perform keep_on_error_def)
  next
    case (Inr m)
    then have "perform now req (ms_state st) = Inr (mutate m (ms_state st))" using perform_iff [OF ok] by blast
    then show ?thesis
      using request_error_correct [OF ok, where now = now and req = req] Inr by (simp add: mem_submit_perform keep_on_error_def)
  qed
qed

definition sample_storage :: memory_storage where
  "sample_storage = \<lparr>ms_metadata = \<lparr>md_id = ''s'', md_createdAt = 0, md_parentSessionId = None\<rparr>, ms_state = sample_state\<rparr>"

lemma sample_session_ok: "session_ok (ms_state sample_storage)"
proof -
  have "single_open sample_state" by (simp add: single_open_def sample_defs is_start_def)
  then show ?thesis
    using apply_all_ok [OF new_state_ok sample_reached] by (simp add: session_ok_def sample_storage_def)
qed

theorem memory_write_errors_witness:
  "\<exists>msg. mem_submit 0 (AppendRecord \<lparr>n_id = ''z'', n_lane = ''main'', n_data = r_data sample_start\<rparr>) sample_storage =
    (Inl (SessionError StorageError msg), sample_storage)"
proof -
  have "request_error (AppendRecord \<lparr>n_id = ''z'', n_lane = ''main'', n_data = r_data sample_start\<rparr>)
      (ms_state sample_storage) = Some StorageError"
    by (simp add: sample_storage_def sample_defs id_taken_def entry_ids_def is_start_def)
  with memory_write_errors [OF sample_session_ok, where now = 0 and
    req = "AppendRecord \<lparr>n_id = ''z'', n_lane = ''main'', n_data = r_data sample_start\<rparr>"]
  show ?thesis by (auto split: prod.splits sum.splits session_exn.splits)
qed

text \<open>
  C11: whatever requests are sent to a fresh in-memory session, the session stays valid and no lane
  ever has two open operations.
\<close>

theorem memory_one_open_operation:
  "length (open_of lane (records (ms_state (submit_all mem_submit reqs (new_memory_storage md))))) \<le> 1 \<and>
   state_ok (ms_state (submit_all mem_submit reqs (new_memory_storage md)))"
proof -
  have "session_ok (ms_state (new_memory_storage md))" by (simp add: new_memory_storage_def new_session_ok)
  from mem.submit_all_invar [OF this, of reqs] mem.one_open_operation [OF this, of lane reqs]
  show ?thesis by (simp add: session_ok_def)
qed

text \<open>
  in every repository reached by creating, forking, deleting and writing sessions, each listed
  id leads to its own storage object whose metadata carries that id, and every storage object ever
  handed out, deleted or not, holds a valid session.
\<close>

theorem memory_repo_safe:
  assumes "repo_reachable repo"
  shows "repo_ok repo \<and> map md_id (repo_list repo) = map fst (sessions repo)"
proof -
  have ok: "repo_ok repo" by (rule repo_reachable_ok [OF assms])
  then have "\<forall>p \<in> set (sessions repo). md_id (case p of (i, a) \<Rightarrow> ms_metadata (storages repo ! a)) = fst p"
    by (auto simp: repo_ok_def)
  with ok show ?thesis by (simp add: repo_list_def comp_def)
qed

theorem memory_repo_safe_witness:
  "\<exists>a repo. repo_create ''u'' 0 \<lparr>co_id = None, co_parentSessionId = None\<rparr> new_memory_repo = Inr (a, repo) \<and>
     map md_id (repo_list repo) = [''u'']"
proof -
  obtain a repo where r: "repo_create ''u'' 0 \<lparr>co_id = None, co_parentSessionId = None\<rparr> new_memory_repo = Inr (a, repo)"
    "map fst (sessions repo) = [''u'']"
    by (simp add: repo_create_def rejectExisting_def new_memory_repo_def chosen_id_def add_storage_def Let_def)
  then have "repo_reachable repo" by (blast intro: repo_reachable.intros)
  from memory_repo_safe [OF this] r show ?thesis by auto
qed

end
