(* ===== verification/Json_Payload.thy ===== *)
theory Json_Payload
  imports Session_Types "HOL-Library.Multiset"
begin

text \<open>
  \<open>assertJsonSerializable\<close> of packages/agent/src/harness/session/session.ts, which every entry and
  record passes before it is stored. The value is an object graph: references into a heap of
  objects with prototypes, symbol keys, property attributes and accessors, so that sharing and
  cycles are visible. The explicit stack with its exit frames is modelled as written; the loop
  ends on every graph, and accepts exactly the graphs that unfold to a finite JSON tree.
\<close>

section \<open>Object graphs\<close>

datatype js_ref =
    RUndefined | RNull | RBool bool | RNum jsnum | RStr jsstr | RObj nat | ROther string

datatype own_property = DataProperty js_ref | AccessorProperty

datatype prototype = ArrayPrototype | PlainPrototype obj_proto | OtherPrototype

text \<open>
  \<open>o_length\<close> is the length of an array and \<open>None\<close> for other objects; \<open>o_props\<close> lists the own
  string-keyed properties other than an array's \<open>length\<close>, each with its \<open>enumerable\<close> attribute.
  An address past the end of the heap stands for an empty plain object.
\<close>

record js_object =
  o_length :: "nat option"
  o_prototype :: prototype
  o_symbols :: nat
  o_props :: "(jsstr \<times> bool \<times> own_property) list"

type_synonym js_heap = "js_object list"

definition fresh_object :: js_object where
  "fresh_object = \<lparr>o_length = None, o_prototype = PlainPrototype ProtoObject, o_symbols = 0, o_props = []\<rparr>"

definition deref :: "js_heap \<Rightarrow> nat \<Rightarrow> js_object" where
  "deref h a = (if a < length h then h ! a else fresh_object)"

definition own_names_count :: "js_object \<Rightarrow> nat" where
  "own_names_count ob = length (o_props ob) + (case o_length ob of None \<Rightarrow> 0 | Some n \<Rightarrow> 1)"

definition object_keys :: "js_object \<Rightarrow> jsstr list" where
  "object_keys ob = map fst (filter (\<lambda>(k, e, p). e) (o_props ob))"

section \<open>The validation loop\<close>

definition invalidPayload :: "string \<Rightarrow> session_exn" where
  "invalidPayload reason = SessionError InvalidPayload (''Durable payload '' @ reason)"

datatype validation_frame = ValueFrame js_ref | ExitFrame nat

fun is_plain_proto :: "prototype \<Rightarrow> bool" where
  "is_plain_proto (PlainPrototype p) = True"
| "is_plain_proto q = False"

text \<open>
  The two loops that push the children of an array and of an object. They run from the last
  index down, so the accumulated list has the first child on top of the stack.
\<close>

fun push_elements :: "js_object \<Rightarrow> nat \<Rightarrow> js_ref list \<Rightarrow> session_exn + js_ref list" where
  "push_elements ob 0 pushed = Inr pushed"
| "push_elements ob (Suc i) pushed =
     (case map_of (o_props ob) (js_of (show_nat i)) of
        None \<Rightarrow> Inl (invalidPayload ''contains a sparse array'')
      | Some (e, AccessorProperty) \<Rightarrow> Inl (invalidPayload ''contains an array accessor'')
      | Some (e, DataProperty v) \<Rightarrow> push_elements ob i (v # pushed))"

fun push_members :: "js_object \<Rightarrow> jsstr list \<Rightarrow> js_ref list \<Rightarrow> session_exn + js_ref list" where
  "push_members ob [] pushed = Inr pushed"
| "push_members ob (k # ks) pushed =
     (case map_of (o_props ob) k of
        Some (e, DataProperty v) \<Rightarrow> push_members ob ks (v # pushed)
      | _ \<Rightarrow> Inl (invalidPayload ''contains an accessor''))"

definition object_children :: "js_object \<Rightarrow> session_exn + js_ref list" where
  "object_children ob =
     (case o_length ob of
        Some n \<Rightarrow>
          bindE (guardE (o_prototype ob \<noteq> ArrayPrototype) (invalidPayload ''contains a non-standard array'')) (\<lambda>_.
          bindE (guardE (o_symbols ob > 0 \<or> own_names_count ob \<noteq> n + 1)
            (invalidPayload ''contains an array with unsupported properties'')) (\<lambda>_.
          push_elements ob n []))
      | None \<Rightarrow>
          bindE (guardE (\<not> is_plain_proto (o_prototype ob)) (invalidPayload ''contains a non-plain object'')) (\<lambda>_.
          bindE (guardE (o_symbols ob > 0) (invalidPayload ''contains a symbol-keyed property'')) (\<lambda>_.
          bindE (guardE (own_names_count ob \<noteq> length (object_keys ob))
            (invalidPayload ''contains a non-enumerable property'')) (\<lambda>_.
          push_members ob (rev (object_keys ob)) []))))"

primrec weights :: "nat \<Rightarrow> nat set \<Rightarrow> validation_frame list \<Rightarrow> nat multiset" where
  "weights n active [] = {#}"
| "weights n active (f # fs) =
     (case f of
        ExitFrame a \<Rightarrow> weights n (active - {a}) fs
      | ValueFrame v \<Rightarrow> add_mset (card ({..<n} - active)) (weights n active fs))"

lemma weights_children:
  "weights n active (map ValueFrame cs @ fs) =
     replicate_mset (length cs) (card ({..<n} - active)) + weights n active fs"
  by (induction cs) auto

lemma deref_children:
  "\<not> a < length h \<Longrightarrow> object_children (deref h a) = Inr []"
  by (simp add: deref_def fresh_object_def object_children_def own_names_count_def object_keys_def)

lemma push_object_decreases:
  assumes "a \<notin> active" "object_children (deref h a) = Inr cs"
  shows "(weights (length h) (insert a active) (map ValueFrame cs @ ExitFrame a # fs),
          weights (length h) active (ValueFrame v # fs)) \<in> mult less_than"
proof -
  let ?w = "\<lambda>A. card ({..<length h} - A)"
  have "a < length h" if "cs \<noteq> []" using that deref_children [of a h] assms(2) by (cases "a < length h") auto
  then have less: "?w (insert a active) < ?w active" if "cs \<noteq> []"
    using assms(1) that by (intro psubset_card_mono) auto
  have "(weights (length h) active fs + replicate_mset (length cs) (?w (insert a active)),
      weights (length h) active fs + {# ?w active #}) \<in> mult less_than"
    by (rule one_step_implies_mult) (use less in \<open>auto split: if_splits\<close>)
  then show ?thesis using assms(1) by (simp add: weights_children add.commute)
qed

lemma drop_decreases: "(M, add_mset x M) \<in> mult less_than"
  using one_step_implies_mult [of "{#x#}" "{#}" less_than M] by simp

function json_loop :: "js_heap \<Rightarrow> nat set \<Rightarrow> validation_frame list \<Rightarrow> session_exn + unit" where
  "json_loop h active [] = Inr ()"
| "json_loop h active (ExitFrame a # fs) = json_loop h (active - {a}) fs"
| "json_loop h active (ValueFrame v # fs) =
     (case v of
        RNull \<Rightarrow> json_loop h active fs
      | RStr s \<Rightarrow> json_loop h active fs
      | RBool b \<Rightarrow> json_loop h active fs
      | RNum x \<Rightarrow>
          bindE (guardE (\<not> is_finite_num x) (invalidPayload ''contains a non-finite number'')) (\<lambda>_.
          json_loop h active fs)
      | RUndefined \<Rightarrow> Inl (invalidPayload ''contains undefined'')
      | ROther t \<Rightarrow> Inl (invalidPayload (''contains '' @ t))
      | RObj a \<Rightarrow>
          bindE (guardE (a \<in> active) (invalidPayload ''contains a cycle'')) (\<lambda>_.
          bindE (object_children (deref h a)) (\<lambda>cs.
          json_loop h (insert a active) (map ValueFrame cs @ ExitFrame a # fs))))"
  by pat_completeness auto
termination
proof (relation "inv_image (mult less_than <*lex*> less_than)
    (\<lambda>(h, active, fs). (weights (length h) active fs, length fs))")
  show "wf (inv_image (mult less_than <*lex*> less_than)
      (\<lambda>(h, active, fs). (weights (length h) active fs, length fs)))"
    by (intro wf_inv_image wf_lex_prod wf_mult wf_less_than)
qed (use push_object_decreases drop_decreases in auto)

definition assertJsonSerializable :: "js_heap \<Rightarrow> js_ref \<Rightarrow> session_exn + unit" where
  "assertJsonSerializable h v = json_loop h {} [ValueFrame v]"

section \<open>The JSON tree of a graph\<close>

definition array_elements :: "js_object \<Rightarrow> js_ref list \<Rightarrow> bool" where
  "array_elements ob cs \<longleftrightarrow> o_length ob = Some (length cs) \<and> o_prototype ob = ArrayPrototype \<and> o_symbols ob = 0 \<and>
     length (o_props ob) = length cs \<and>
     (\<forall>i < length cs. \<exists>e. map_of (o_props ob) (js_of (show_nat i)) = Some (e, DataProperty (cs ! i)))"

definition object_members :: "js_object \<Rightarrow> obj_proto \<Rightarrow> (jsstr \<times> js_ref) list \<Rightarrow> bool" where
  "object_members ob p kcs \<longleftrightarrow> o_length ob = None \<and> o_prototype ob = PlainPrototype p \<and> o_symbols ob = 0 \<and>
     list_all (\<lambda>(k, e, q). e) (o_props ob) \<and> map fst kcs = map fst (o_props ob) \<and>
     (\<forall>(k, c) \<in> set kcs. map_of (o_props ob) k = Some (True, DataProperty c))"

text \<open>\<open>denotes h v t\<close>: the graph reached from \<open>v\<close> unfolds to the finite tree \<open>t\<close> of plain JSON data.\<close>

inductive denotes :: "js_heap \<Rightarrow> js_ref \<Rightarrow> jsval \<Rightarrow> bool" for h where
  "denotes h RNull JNull"
| "denotes h (RBool b) (JBool b)"
| "denotes h (RStr s) (JStr s)"
| "is_finite_num x \<Longrightarrow> denotes h (RNum x) (JNum x)"
| "array_elements (deref h a) cs \<Longrightarrow> list_all2 (denotes h) cs ts \<Longrightarrow> denotes h (RObj a) (JArr (map Some ts))"
| "object_members (deref h a) p (zip ks cs) \<Longrightarrow> length ks = length cs \<Longrightarrow> list_all2 (denotes h) cs ts \<Longrightarrow>
    denotes h (RObj a) (JObj p False (zip ks ts))"

inductive_cases denotes_obj: "denotes h (RObj a) t"

text \<open>The same with the objects that are still active on the path from the root.\<close>

inductive denotes_in :: "js_heap \<Rightarrow> nat set \<Rightarrow> js_ref \<Rightarrow> jsval \<Rightarrow> bool" for h where
  "denotes_in h A RNull JNull"
| "denotes_in h A (RBool b) (JBool b)"
| "denotes_in h A (RStr s) (JStr s)"
| "is_finite_num x \<Longrightarrow> denotes_in h A (RNum x) (JNum x)"
| "a \<notin> A \<Longrightarrow> array_elements (deref h a) cs \<Longrightarrow> list_all2 (denotes_in h (insert a A)) cs ts \<Longrightarrow>
    denotes_in h A (RObj a) (JArr (map Some ts))"
| "a \<notin> A \<Longrightarrow> object_members (deref h a) p (zip ks cs) \<Longrightarrow> length ks = length cs \<Longrightarrow>
    list_all2 (denotes_in h (insert a A)) cs ts \<Longrightarrow> denotes_in h A (RObj a) (JObj p False (zip ks ts))"

inductive_simps denotes_in_simps:
  "denotes_in h A RNull t" "denotes_in h A (RBool b) t" "denotes_in h A (RStr s) t" "denotes_in h A (RNum x) t"
  "denotes_in h A RUndefined t" "denotes_in h A (ROther n) t" "denotes_in h A (RObj a) t"

lemma push_elements_eq:
  "push_elements ob n pushed = Inr cs \<longleftrightarrow> (\<exists>vs. cs = vs @ pushed \<and> length vs = n \<and>
     (\<forall>i < n. \<exists>e. map_of (o_props ob) (js_of (show_nat i)) = Some (e, DataProperty (vs ! i))))"
proof (induction n arbitrary: pushed)
  case (Suc n)
  show ?case (is "?L \<longleftrightarrow> ?R")
  proof
    assume ?L
    then obtain e v where m: "map_of (o_props ob) (js_of (show_nat n)) = Some (e, DataProperty v)"
      "push_elements ob n (v # pushed) = Inr cs" by (auto split: option.splits own_property.splits)
    then obtain vs where vs: "cs = vs @ v # pushed" "length vs = n"
      "\<forall>i < n. \<exists>e. map_of (o_props ob) (js_of (show_nat i)) = Some (e, DataProperty (vs ! i))"
      using Suc.IH by auto
    with m(1) show ?R by (intro exI [of _ "vs @ [v]"]) (auto simp: nth_append less_Suc_eq)
  next
    assume ?R
    then obtain vs where vs: "cs = vs @ pushed" "length vs = Suc n"
      "\<forall>i < Suc n. \<exists>e. map_of (o_props ob) (js_of (show_nat i)) = Some (e, DataProperty (vs ! i))" by blast
    then obtain ws v where ws: "vs = ws @ [v]" by (cases vs rule: rev_cases) auto
    have "\<exists>e. map_of (o_props ob) (js_of (show_nat i)) = Some (e, DataProperty (ws ! i))" if "i < n" for i
      using vs(2,3) ws that by (auto simp: nth_append dest!: spec [of _ i])
    moreover have "\<exists>e. map_of (o_props ob) (js_of (show_nat n)) = Some (e, DataProperty v)"
      using vs(2,3) ws by (auto simp: nth_append dest!: spec [of _ n])
    ultimately show ?L using Suc.IH [of "v # pushed"] vs(1,2) ws by auto
  qed
qed auto

lemma push_members_eq:
  "push_members ob ks pushed = Inr cs \<longleftrightarrow> (\<exists>vs. cs = rev vs @ pushed \<and>
     list_all2 (\<lambda>k v. \<exists>e. map_of (o_props ob) k = Some (e, DataProperty v)) ks vs)"
proof (induction ks arbitrary: pushed)
  case (Cons k ks)
  let ?P = "\<lambda>k v. \<exists>e. map_of (o_props ob) k = Some (e, DataProperty v)"
  have "(\<exists>vs. cs = rev vs @ pushed \<and> list_all2 ?P (k # ks) vs) \<longleftrightarrow>
      (\<exists>v ws. ?P k v \<and> cs = rev ws @ v # pushed \<and> list_all2 ?P ks ws)"
    (is "?L \<longleftrightarrow> ?R")
  proof
    assume ?L
    then show ?R by (auto simp: list_all2_Cons1)
  next
    assume ?R
    then obtain v ws where "?P k v" "cs = rev ws @ v # pushed" "list_all2 ?P ks ws" by blast
    then show ?L by (intro exI [of _ "v # ws"]) auto
  qed
  with Cons.IH show ?case by (auto split: option.splits own_property.splits)
qed auto

lemma is_plain_proto_iff: "is_plain_proto q \<longleftrightarrow> (\<exists>p. q = PlainPrototype p)"
  by (cases q) auto

lemma all_enumerable:
  "length (filter (\<lambda>(k, e, q). e) ps) = length ps \<longleftrightarrow> list_all (\<lambda>(k, e, q). e) ps"
proof (induction ps)
  case (Cons p ps)
  have "length (filter (\<lambda>(k, e, q). e) ps) \<noteq> Suc (length ps)"
    using length_filter_le [of "\<lambda>(k, e, q). e" ps] by linarith
  with Cons show ?case by auto
qed simp

lemma map_of_enumerable:
  "list_all (\<lambda>(k, e, q). e) ps \<Longrightarrow> map_of ps k = Some (e, q) \<Longrightarrow> e"
  by (induction ps) (auto split: if_splits)

lemma object_children_eq:
  "object_children ob = Inr cs \<longleftrightarrow>
     array_elements ob cs \<or> (\<exists>p ks. length ks = length cs \<and> object_members ob p (zip ks cs))"
proof (cases "o_length ob")
  case (Some n)
  then show ?thesis
    by (auto simp: object_children_def bindE_eq_Inr push_elements_eq array_elements_def object_members_def
        own_names_count_def)
next
  case None
  let ?P = "\<lambda>k v. \<exists>e. map_of (o_props ob) k = Some (e, DataProperty v)"
  let ?ks = "map fst (o_props ob)"
  have keys: "object_keys ob = ?ks" if "list_all (\<lambda>(k, e, q). e) (o_props ob)"
    using that by (simp add: object_keys_def filter_id_conv list_all_iff)
  have members: "(\<exists>vs. cs = rev vs \<and> list_all2 ?P (rev ?ks) vs) \<longleftrightarrow>
      (\<exists>ks. length ks = length cs \<and> map fst (zip ks cs) = ?ks \<and>
        (\<forall>(k, c) \<in> set (zip ks cs). map_of (o_props ob) k = Some (True, DataProperty c)))"
    if en: "list_all (\<lambda>(k, e, q). e) (o_props ob)"
  proof -
    have P: "?P k v \<longleftrightarrow> map_of (o_props ob) k = Some (True, DataProperty v)" for k v
      using map_of_enumerable [OF en, of k] by auto
    have "(\<exists>vs. cs = rev vs \<and> list_all2 ?P (rev ?ks) vs) \<longleftrightarrow> list_all2 ?P ?ks cs"
    proof
      assume "list_all2 ?P ?ks cs"
      then show "\<exists>vs. cs = rev vs \<and> list_all2 ?P (rev ?ks) vs"
        by (intro exI [of _ "rev cs"]) (simp only: rev_rev_ident list_all2_rev simp_thms)
    next
      assume "\<exists>vs. cs = rev vs \<and> list_all2 ?P (rev ?ks) vs"
      then obtain vs where "cs = rev vs" "list_all2 ?P (rev ?ks) (rev (rev vs))" by auto
      then show "list_all2 ?P ?ks cs" by (simp only: list_all2_rev)
    qed
    also have "\<dots> \<longleftrightarrow> (\<exists>ks. length ks = length cs \<and> ks = ?ks \<and> list_all2 ?P ks cs)"
      by (auto dest: list_all2_lengthD)
    also have "\<dots> \<longleftrightarrow> (\<exists>ks. length ks = length cs \<and> map fst (zip ks cs) = ?ks \<and> list_all2 ?P ks cs)"
      by (rule ex_cong1) (auto simp: map_fst_zip)
    finally show ?thesis unfolding P list_all2_iff by blast
  qed
  show ?thesis
  proof (cases "list_all (\<lambda>(k, e, q). e) (o_props ob)")
    case True
    then show ?thesis
      using None members [OF True] keys [OF True]
      by (auto simp: object_children_def bindE_eq_Inr push_members_eq array_elements_def object_members_def
          own_names_count_def is_plain_proto_iff)
  next
    case False
    then have "own_names_count ob \<noteq> length (object_keys ob)"
      using None all_enumerable [of "o_props ob"] by (simp add: own_names_count_def object_keys_def)
    then show ?thesis
      using None False by (auto simp: object_children_def bindE_eq_Inr array_elements_def object_members_def)
  qed
qed

section \<open>The loop accepts exactly the finite JSON trees\<close>

lemma denotes_in_obj:
  "(\<exists>t. denotes_in h A (RObj a) t) \<longleftrightarrow> a \<notin> A \<and>
     (\<exists>cs. object_children (deref h a) = Inr cs \<and> (\<forall>c \<in> set cs. \<exists>t. denotes_in h (insert a A) c t))"
proof -
  have all2: "(\<exists>ts. list_all2 P cs ts) \<longleftrightarrow> (\<forall>c \<in> set cs. \<exists>t. P c t)" for P :: "js_ref \<Rightarrow> jsval \<Rightarrow> bool" and cs
    by (induction cs) (auto simp: list_all2_Cons1)
  show ?thesis unfolding denotes_in_simps object_children_eq all2 [symmetric] by blast
qed

primrec frames_ok :: "js_heap \<Rightarrow> nat set \<Rightarrow> validation_frame list \<Rightarrow> bool" where
  "frames_ok h A [] = True"
| "frames_ok h A (f # fs) =
     (case f of
        ExitFrame a \<Rightarrow> frames_ok h (A - {a}) fs
      | ValueFrame v \<Rightarrow> (\<exists>t. denotes_in h A v t) \<and> frames_ok h A fs)"

lemma frames_ok_children:
  "frames_ok h A (map ValueFrame cs @ fs) \<longleftrightarrow> (\<forall>c \<in> set cs. \<exists>t. denotes_in h A c t) \<and> frames_ok h A fs"
  by (induction cs) auto

lemma json_loop_iff: "json_loop h A fs = Inr u \<longleftrightarrow> frames_ok h A fs"
proof (induction h A fs rule: json_loop.induct)
  case (3 h A v fs)
  show ?case
  proof (cases v)
    case (RObj a)
    have "json_loop h A (ValueFrame v # fs) = Inr u \<longleftrightarrow> a \<notin> A \<and> (\<exists>cs. object_children (deref h a) = Inr cs \<and>
        frames_ok h (insert a A) (map ValueFrame cs @ ExitFrame a # fs))"
      using 3(5) [OF RObj] RObj by (auto simp: bindE_eq_Inr)
    also have "\<dots> \<longleftrightarrow> frames_ok h A (ValueFrame v # fs)"
      using RObj by (auto simp: frames_ok_children denotes_in_obj)
    finally show ?thesis .
  qed (use 3 in \<open>auto simp: bindE_eq_Inr denotes_in_simps\<close>)
qed auto

lemma list_all2_unique:
  assumes "list_all2 (\<lambda>c t. P c t \<and> (\<forall>t'. P c t' \<longrightarrow> t = t')) cs ts" "list_all2 P cs ts'"
  shows "ts = ts'"
  using assms by (induction cs arbitrary: ts ts') (auto simp: list_all2_Cons1)

lemma array_elements_unique: "array_elements ob cs \<Longrightarrow> array_elements ob cs' \<Longrightarrow> cs = cs'"
  by (intro nth_equalityI) (fastforce simp: array_elements_def)+

lemma object_members_unique:
  assumes "object_members ob p kcs" "object_members ob p' kcs'"
  shows "p = p' \<and> kcs = kcs'"
proof -
  have "kcs ! i = kcs' ! i" if "i < length kcs" for i
  proof -
    have k: "fst (kcs ! i) = fst (kcs' ! i)" "i < length kcs'"
      using assms that by (auto simp: object_members_def) (metis length_map nth_map)+
    have "map_of (o_props ob) (fst (kcs ! i)) = Some (True, DataProperty (snd (kcs ! i)))"
      using assms(1) nth_mem [OF that] by (auto simp: object_members_def split: prod.splits)
    moreover have "map_of (o_props ob) (fst (kcs' ! i)) = Some (True, DataProperty (snd (kcs' ! i)))"
      using assms(2) nth_mem [OF k(2)] by (auto simp: object_members_def split: prod.splits)
    ultimately show ?thesis using k by (simp add: prod_eq_iff)
  qed
  moreover have "length kcs = length kcs'" using assms by (auto simp: object_members_def) (metis length_map)
  ultimately show ?thesis using assms by (auto simp: object_members_def intro: nth_equalityI)
qed

lemma array_not_object: "array_elements ob cs \<Longrightarrow> object_members ob p kcs \<Longrightarrow> False"
  by (simp add: array_elements_def object_members_def)

lemma denotes_unique: "denotes h v t \<Longrightarrow> denotes h v t' \<Longrightarrow> t = t'"
proof (induction arbitrary: t' rule: denotes.induct)
  case (5 a cs ts)
  obtain cs' ts' where t': "t' = JArr (map Some ts')" "array_elements (deref h a) cs'" "list_all2 (denotes h) cs' ts'"
    using 5(3,1) by (auto elim: denotes_obj dest: array_not_object)
  then have "cs' = cs" using array_elements_unique 5(1) by blast
  then show ?case using list_all2_unique [OF 5(2)] t' by blast
next
  case (6 a p ks cs ts)
  obtain p' ks' cs' ts' where t': "t' = JObj p' False (zip ks' ts')" "object_members (deref h a) p' (zip ks' cs')"
    "length ks' = length cs'" "list_all2 (denotes h) cs' ts'"
    using 6(4,1) by (auto elim: denotes_obj dest: array_not_object)
  then have eq: "p' = p" "zip ks' cs' = zip ks cs" using object_members_unique 6(1) by blast+
  then have "ks' = ks" "cs' = cs" using t'(3) 6(2) by (metis map_fst_zip map_snd_zip)+
  then show ?case using list_all2_unique [OF 6(3)] t' eq by blast
qed (auto elim: denotes.cases)

lemma size_element: "t \<in> set ts \<Longrightarrow> size t < size (JArr (map Some ts))"
  by (induction ts) auto

lemma size_member: "(k, t) \<in> set ps \<Longrightarrow> size t < size (JObj p s ps)"
  by (induction ps) auto

lemma denotes_in_denotes: "denotes_in h A v t \<Longrightarrow> denotes h v t"
proof (induction rule: denotes_in.induct)
  case (5 a A cs ts)
  then show ?case by (auto intro!: denotes.intros elim: list_all2_mono)
next
  case (6 a A p ks cs ts)
  then show ?case by (auto intro!: denotes.intros elim: list_all2_mono)
qed (auto intro: denotes.intros)

text \<open>
  A tree below an object is smaller than the object's own tree, and a graph has only one tree:
  no object on a path of a finite tree can come back.
\<close>

lemma denotes_avoids:
  "denotes h v t \<Longrightarrow> (\<And>a t'. a \<in> A \<Longrightarrow> denotes h (RObj a) t' \<Longrightarrow> size t < size t') \<Longrightarrow> denotes_in h A v t"
proof (induction arbitrary: A rule: denotes.induct)
  case (5 a cs ts)
  have self: "denotes h (RObj a) (JArr (map Some ts))"
    using 5 by (auto intro!: denotes.intros elim: list_all2_mono)
  have "a \<notin> A" using 5(3) [OF _ self] by blast
  moreover have "list_all2 (denotes_in h (insert a A)) cs ts"
  proof (rule list_all2_all_nthI)
    fix i
    assume i: "i < length cs"
    have t: "size (ts ! i) < size (JArr (map Some ts))" using list_all2_lengthD [OF 5(2)] i by (intro size_element) simp
    have "size (ts ! i) < size t'" if "b \<in> insert a A" "denotes h (RObj b) t'" for b t'
      using that t 5(3) [of b t'] denotes_unique [OF self, of t'] by (auto intro: less_trans)
    then show "denotes_in h (insert a A) (cs ! i) (ts ! i)" using list_all2_nthD [OF 5(2) i] by blast
  qed (use list_all2_lengthD [OF 5(2)] in simp)
  ultimately show ?case using 5(1) by (intro denotes_in.intros)
next
  case (6 a p ks cs ts)
  have self: "denotes h (RObj a) (JObj p False (zip ks ts))"
    using 6 by (auto intro!: denotes.intros elim: list_all2_mono)
  have "a \<notin> A" using 6(4) [OF _ self] by blast
  moreover have "list_all2 (denotes_in h (insert a A)) cs ts"
  proof (rule list_all2_all_nthI)
    fix i
    assume i: "i < length cs"
    have "(ks ! i, ts ! i) \<in> set (zip ks ts)" using list_all2_lengthD [OF 6(3)] 6(2) i by (auto simp: in_set_zip)
    then have t: "size (ts ! i) < size (JObj p False (zip ks ts))" by (rule size_member)
    have "size (ts ! i) < size t'" if "b \<in> insert a A" "denotes h (RObj b) t'" for b t'
      using that t 6(4) [of b t'] denotes_unique [OF self, of t'] by (auto intro: less_trans)
    then show "denotes_in h (insert a A) (cs ! i) (ts ! i)" using list_all2_nthD [OF 6(3) i] by blast
  qed (use list_all2_lengthD [OF 6(3)] in simp)
  ultimately show ?case using 6(1,2) by (intro denotes_in.intros)
qed (auto intro: denotes_in.intros)

lemma json_payload_accepts: "assertJsonSerializable h v = Inr () \<longleftrightarrow> (\<exists>t. denotes h v t)"
proof -
  have "assertJsonSerializable h v = Inr () \<longleftrightarrow> (\<exists>t. denotes_in h {} v t)"
    unfolding assertJsonSerializable_def json_loop_iff by simp
  also have "\<dots> \<longleftrightarrow> (\<exists>t. denotes h v t)"
    using denotes_in_denotes denotes_avoids [of h v _ "{}"] by blast
  finally show ?thesis .
qed

text \<open>
  C21: \<open>assertJsonSerializable\<close> returns on every object graph, and accepts a value exactly when the
  graph it reaches unfolds to one finite tree of plain JSON data: no cycle, no hole, accessor,
  symbol key, hidden property, foreign prototype or non-finite number anywhere in it.
\<close>

theorem payload_is_json_tree:
  "assertJsonSerializable h v = Inr () \<longleftrightarrow> (\<exists>!t. denotes h v t)"
  using json_payload_accepts [of h v] denotes_unique [of h v] by blast

end
