(* ===== verification/Session_View.thy ===== *)
theory Session_View
  imports Session_Memory Json_Payload
begin

text \<open>
  The class \<open>Session\<close> of packages/agent/src/harness/session/session.ts: the queries and writes a
  lane view offers on top of a storage backend. The interface \<open>SessionStorage\<close> is a record of
  operations; the locale \<open>session_backend\<close> states that a backend reads the session state it shows
  and writes through the requests of \<open>session_storage\<close>, and the in-memory backend satisfies it.
  Ids come from the argument that stands for the id generator; \<open>graph\<close> gives the object graph a
  payload has in the JavaScript heap.
\<close>

section \<open>The backend interface\<close>

record 's backend =
  bk_getLanes :: "'s \<Rightarrow> (string \<times> string option) list"
  bk_findEntries :: "entry_query \<Rightarrow> 's \<Rightarrow> session_exn + entry list"
  bk_findEntriesOnBranch :: "entry_query \<Rightarrow> branch_bounds \<Rightarrow> string \<Rightarrow> 's \<Rightarrow> session_exn + entry list"
  bk_findRecords :: "record_query \<Rightarrow> 's \<Rightarrow> session_exn + lane_record list"
  bk_findOpenOperations :: "string \<Rightarrow> jsnum option \<Rightarrow> 's \<Rightarrow> session_exn + lane_record list"
  bk_getLog :: "log_options \<Rightarrow> 's \<Rightarrow> session_exn + log_item list"
  bk_appendEntry :: "int \<Rightarrow> provisioned_entry \<Rightarrow> string \<Rightarrow> 's \<Rightarrow> (session_exn + entry) \<times> 's"
  bk_appendRecord :: "int \<Rightarrow> new_record \<Rightarrow> 's \<Rightarrow> (session_exn + lane_record) \<times> 's"

section \<open>Queries of a lane view\<close>

definition getLeafIdForLane :: "'s backend \<Rightarrow> string \<Rightarrow> 's \<Rightarrow> session_exn + string option" where
  "getLeafIdForLane bk lane st =
     (case find (\<lambda>p. fst p = lane) (bk_getLanes bk st) of
        None \<Rightarrow> Inl (SessionError InvalidLane (''Lane not found: '' @ lane))
      | Some p \<Rightarrow> Inr (snd p))"

definition queryEntries :: "'s backend \<Rightarrow> entry_query \<Rightarrow> jsnum option \<Rightarrow> 's \<Rightarrow> session_exn + entry list" where
  "queryEntries bk query resultLimit st =
     bindE (assertValidLimit (q_limit query)) (\<lambda>_.
     bindE (assertValidCursor (q_cursor query)) (\<lambda>_.
     bk_findEntries bk (if resultLimit = q_limit query then query else query\<lparr>q_limit := resultLimit\<rparr>) st))"

definition queryBranchEntries ::
  "'s backend \<Rightarrow> string \<Rightarrow> entry_query \<Rightarrow> branch_bounds \<Rightarrow> string option \<Rightarrow> jsnum option \<Rightarrow> 's \<Rightarrow> session_exn + entry list" where
  "queryBranchEntries bk defaultLane query bounds start resultLimit st =
     bindE (assertValidLimit (q_limit query)) (\<lambda>_.
     bindE (assertValidCursor (q_cursor query)) (\<lambda>_.
     bindE (case start of Some i \<Rightarrow> Inr (Some i) | None \<Rightarrow> getLeafIdForLane bk defaultLane st) (\<lambda>from.
     case from of
       None \<Rightarrow> Inr []
     | Some i \<Rightarrow> bk_findEntriesOnBranch bk
         (if resultLimit = q_limit query then query else query\<lparr>q_limit := resultLimit\<rparr>) bounds i st)))"

definition queryRecords :: "'s backend \<Rightarrow> record_query \<Rightarrow> 's \<Rightarrow> session_exn + lane_record list" where
  "queryRecords bk query st =
     bindE (assertValidLimit (rq_limit query)) (\<lambda>_.
     bindE (assertValidCursor (rq_afterSeq query)) (\<lambda>_.
     bindE (guardE (rq_operationKind query \<noteq> None \<and> rq_type query \<noteq> Some TypeOperationStarted)
       (SessionError InvalidQuery ''operationKind requires type \"operation_started\"'')) (\<lambda>_.
     bk_findRecords bk query st)))"

definition queryLog :: "'s backend \<Rightarrow> log_options \<Rightarrow> 's \<Rightarrow> session_exn + log_item list" where
  "queryLog bk options st =
     bindE (assertValidLimit (lo_limit options)) (\<lambda>_.
     bindE (assertValidCursor (lo_afterSeq options)) (\<lambda>_.
     bk_getLog bk options st))"

definition session_findOpenOperations :: "'s backend \<Rightarrow> string \<Rightarrow> jsnum option \<Rightarrow> 's \<Rightarrow> session_exn + lane_record list" where
  "session_findOpenOperations bk lane limit st =
     bindE (assertValidLimit limit) (\<lambda>_. bk_findOpenOperations bk lane limit st)"

definition first_of :: "session_exn + 'a list \<Rightarrow> session_exn + 'a option" where
  "first_of r = bindE r (\<lambda>xs. Inr (case xs of [] \<Rightarrow> None | x # _ \<Rightarrow> Some x))"

definition view_findEntries :: "'s backend \<Rightarrow> entry_query \<Rightarrow> 's \<Rightarrow> session_exn + entry list" where
  "view_findEntries bk query st = queryEntries bk query (q_limit query) st"

definition view_findEntry :: "'s backend \<Rightarrow> entry_query \<Rightarrow> 's \<Rightarrow> session_exn + entry option" where
  "view_findEntry bk query st = first_of (queryEntries bk query (Some (Integral 1)) st)"

definition view_findEntriesOnBranch ::
  "'s backend \<Rightarrow> string \<Rightarrow> entry_query \<Rightarrow> branch_bounds \<Rightarrow> string option \<Rightarrow> 's \<Rightarrow> session_exn + entry list" where
  "view_findEntriesOnBranch bk lane query bounds start st =
     queryBranchEntries bk lane query bounds start (q_limit query) st"

definition view_findEntryOnBranch ::
  "'s backend \<Rightarrow> string \<Rightarrow> entry_query \<Rightarrow> branch_bounds \<Rightarrow> string option \<Rightarrow> 's \<Rightarrow> session_exn + entry option" where
  "view_findEntryOnBranch bk lane query bounds start st =
     first_of (queryBranchEntries bk lane query bounds start (Some (Integral 1)) st)"

section \<open>Writes of a lane view\<close>

definition commitEntry ::
  "'s backend \<Rightarrow> (provisioned_entry \<Rightarrow> js_heap \<times> js_ref) \<Rightarrow> int \<Rightarrow> provisioned_entry \<Rightarrow> string \<Rightarrow> 's \<Rightarrow>
   (session_exn + entry) \<times> 's" where
  "commitEntry bk graph now e lane st =
     (case assertJsonSerializable (fst (graph e)) (snd (graph e)) of
        Inl err \<Rightarrow> (Inl err, st)
      | Inr _ \<Rightarrow> bk_appendEntry bk now e lane st)"

definition commitRecord ::
  "'s backend \<Rightarrow> (new_record \<Rightarrow> js_heap \<times> js_ref) \<Rightarrow> int \<Rightarrow> new_record \<Rightarrow> 's \<Rightarrow> (session_exn + lane_record) \<times> 's" where
  "commitRecord bk graph now r st =
     (case assertJsonSerializable (fst (graph r)) (snd (graph r)) of
        Inl err \<Rightarrow> (Inl err, st)
      | Inr _ \<Rightarrow> bk_appendRecord bk now r st)"

definition result_id :: "(session_exn + entry) \<times> 's \<Rightarrow> (session_exn + string) \<times> 's" where
  "result_id r = (bindE (fst r) (\<lambda>e. Inr (e_id e)), snd r)"

definition appendMessageToLane ::
  "'s backend \<Rightarrow> (provisioned_entry \<Rightarrow> js_heap \<times> js_ref) \<Rightarrow> int \<Rightarrow> string \<Rightarrow> string \<Rightarrow> agent_message \<Rightarrow> 's \<Rightarrow>
   (session_exn + string) \<times> 's" where
  "appendMessageToLane bk graph now nextId lane msg st =
     result_id (commitEntry bk graph now \<lparr>p_id = nextId, p_data = MessageEntry msg False\<rparr> lane st)"

definition appendCustomEntryToLane ::
  "'s backend \<Rightarrow> (provisioned_entry \<Rightarrow> js_heap \<times> js_ref) \<Rightarrow> int \<Rightarrow> string \<Rightarrow> string \<Rightarrow> string \<Rightarrow> jsval option \<Rightarrow> 's \<Rightarrow>
   (session_exn + string) \<times> 's" where
  "appendCustomEntryToLane bk graph now nextId lane customType data st =
     result_id (commitEntry bk graph now \<lparr>p_id = nextId, p_data = CustomEntry customType data\<rparr> lane st)"

section \<open>What a view relies on\<close>

lemma matches_limit [simp]: "matchesEntryQuery (query\<lparr>q_limit := l\<rparr>) = matchesEntryQuery query"
  by (auto simp: fun_eq_iff matchesEntryQuery_def split: option.splits)

text \<open>All results of a branch query are prefixes of one list, cut at the limit.\<close>

lemma branch_query_limits:
  assumes "state_ok s" "cursor_ok (q_cursor query)"
  shows "\<exists>r. \<forall>l. limit_ok l \<longrightarrow>
    findEntriesOnBranch (query\<lparr>q_limit := l\<rparr>) bounds start s = bindE r (\<lambda>es. Inr (limited l es))"
proof (cases "map_of (entriesById s) start")
  case None
  have "findEntriesOnBranch (query\<lparr>q_limit := l\<rparr>) bounds start s = Inl (SessionError NotFound (''Entry not found: '' @ start))"
    if "limit_ok l" for l
  proof -
    have "assertValidLimit l = Inr ()" "assertValidCursor (q_cursor query) = Inr ()"
      using assms(2) that by (simp_all add: assertValidLimit_iff assertValidCursor_iff)
    then show ?thesis using None by (simp add: findEntriesOnBranch_def walkToRoot_def)
  qed
  then show ?thesis by (intro exI [of _ "Inl (SessionError NotFound (''Entry not found: '' @ start))"]) simp
next
  case (Some e)
  let ?b = "if q_order query = Some OldestFirst then no_bounds else bounds"
  obtain path where path: "walkToRoot (Some start) ?b s = (path, None)"
    by (rule walkToRoot_ok [OF assms(1) Some])
  let ?all = "filter (matchesEntryQuery query)
    (if q_order query = Some OldestFirst then upto_bound (at_bound bounds) (rev path) else path)"
  have "findEntriesOnBranch (query\<lparr>q_limit := l\<rparr>) bounds start s = Inr (limited l ?all)" if "limit_ok l" for l
  proof -
    have "assertValidLimit l = Inr ()" "assertValidCursor (q_cursor query) = Inr ()"
      using assms(2) that by (simp_all add: assertValidLimit_iff assertValidCursor_iff)
    then show ?thesis
      using path take_walk_eq [OF that start_below [OF that]] take_reversed_eq [OF that start_below [OF that]]
      by (auto simp: findEntriesOnBranch_def split: if_splits)
  qed
  then show ?thesis by (intro exI [of _ "Inr ?all"]) simp
qed

locale session_backend = session_storage +
  fixes bk :: "'a backend"
  assumes reads_lanes: "bk_getLanes bk st = lanes (shows_state st)"
    and reads_entries: "bk_findEntries bk query st = findEntries query (shows_state st)"
    and reads_branch: "bk_findEntriesOnBranch bk query bounds start st = findEntriesOnBranch query bounds start (shows_state st)"
    and writes_entry: "bk_appendEntry bk now pe lane st =
      (case submit now (AppendEntry pe lane) st of
         (Inl e, st') \<Rightarrow> (Inl e, st')
       | (Inr u, st') \<Rightarrow>
           (Inr (new_entry now pe (the (map_of (lanes (shows_state st)) lane)) (shows_state st)), st'))"
begin

lemma leaf_lookup:
  "getLeafIdForLane bk lane st = requireLane lane (shows_state st)"
proof -
  have "find (\<lambda>p. fst p = lane) ls = (case map_of ls lane of None \<Rightarrow> None | Some i \<Rightarrow> Some (lane, i))"
    for ls :: "(string \<times> string option) list"
    by (induction ls) auto
  then show ?thesis
    by (cases "map_of (lanes (shows_state st)) lane") (simp_all add: getLeafIdForLane_def reads_lanes requireLane_def)
qed

lemma single_is_first:
  assumes "invar st" "limit_ok (q_limit query)"
  shows "view_findEntryOnBranch bk lane query bounds start st =
    first_of (view_findEntriesOnBranch bk lane query bounds start st)"
proof (cases "cursor_ok (q_cursor query)")
  case True
  have ok: "state_ok (shows_state st)" using invar_session [OF assms(1)] by (simp add: session_ok_def)
  have one: "limit_ok (Some (Integral 1))" by (simp add: limit_ok_def)
  have valid: "assertValidLimit (q_limit query) = Inr ()" "assertValidCursor (q_cursor query) = Inr ()"
    using assms(2) True by (simp_all add: assertValidLimit_iff assertValidCursor_iff)
  have first: "first_of (Inr (limited (Some (Integral 1)) es)) = first_of (Inr (limited (q_limit query) es))" for es
    using assms(2) by (cases es) (auto simp: first_of_def limited_def limit_ok_def take_Cons' split: option.splits)
  have same: "first_of (findEntriesOnBranch (query\<lparr>q_limit := Some (Integral 1)\<rparr>) bounds i (shows_state st)) =
      first_of (findEntriesOnBranch (query\<lparr>q_limit := q_limit query\<rparr>) bounds i (shows_state st))" for i
  proof -
    obtain r where "\<forall>l. limit_ok l \<longrightarrow>
        findEntriesOnBranch (query\<lparr>q_limit := l\<rparr>) bounds i (shows_state st) = bindE r (\<lambda>es. Inr (limited l es))"
      using branch_query_limits [OF ok True] by blast
    then have "findEntriesOnBranch (query\<lparr>q_limit := Some (Integral 1)\<rparr>) bounds i (shows_state st) =
        bindE r (\<lambda>es. Inr (limited (Some (Integral 1)) es))"
      "findEntriesOnBranch (query\<lparr>q_limit := q_limit query\<rparr>) bounds i (shows_state st) =
        bindE r (\<lambda>es. Inr (limited (q_limit query) es))"
      using one assms(2) by blast+
    then show ?thesis using first by (cases r) (simp_all only: bindE_simps)
  qed
  have id: "query\<lparr>q_limit := q_limit query\<rparr> = query" by simp
  show ?thesis
    using same unfolding id
    by (auto simp: view_findEntryOnBranch_def view_findEntriesOnBranch_def queryBranchEntries_def valid reads_branch
        first_of_def bindE_def split: option.splits sum.splits)
next
  case False
  then obtain e where "assertValidCursor (q_cursor query) = Inl e"
    using assertValidCursor_iff [of "q_cursor query" "()"] by (cases "assertValidCursor (q_cursor query)") auto
  moreover have "assertValidLimit (q_limit query) = Inr ()" using assms(2) by (simp add: assertValidLimit_iff)
  ultimately show ?thesis
    by (simp add: view_findEntryOnBranch_def view_findEntriesOnBranch_def queryBranchEntries_def first_of_def)
qed

lemma commit_entry:
  assumes "invar st" "works st" "assertJsonSerializable (fst (graph pe)) (snd (graph pe)) = Inr ()"
    "request_error (AppendEntry pe lane) (shows_state st) = None"
  obtains e st' where "commitEntry bk graph now pe lane st = (Inr e, st')" "invar st'"
    "e = new_entry now pe (the (map_of (lanes (shows_state st)) lane)) (shows_state st)"
    "shows_state st' = add_entry (Some lane) e (shows_state st)"
proof -
  let ?s = "shows_state st"
  have ok: "state_ok ?s" using invar_session [OF assms(1)] by (simp add: session_ok_def)
  obtain m where m: "request_mutation now (AppendEntry pe lane) ?s = Inr m"
    using request_error_correct [OF ok, where req = "AppendEntry pe lane" and now = now] assms(4)
    by (auto split: sum.splits session_exn.splits)
  then have m_eq: "m = MutEntry (Some lane) (new_entry now pe (the (map_of (lanes ?s) lane)) ?s)"
    by (auto simp: bindE_eq_Inr requireLane_def split: option.splits)
  have p: "perform now (AppendEntry pe lane) ?s = Inr (mutate m ?s)" using perform_iff [OF ok] m by blast
  obtain st' where st': "submit now (AppendEntry pe lane) st = (Inr (), st')"
    using submit_works [OF assms(1,2) p] by (cases "submit now (AppendEntry pe lane) st") auto
  then have res: "invar st'" "shows_state st' = mutate m ?s" using submit_done [OF assms(1) st'] p by auto
  show ?thesis
    by (rule that [of "new_entry now pe (the (map_of (lanes ?s) lane)) ?s" st'])
      (use st' res m_eq assms(3) in \<open>simp_all add: commitEntry_def writes_entry\<close>)
qed

lemma newest_on_branch:
  assumes "invar st" "requireLane lane (shows_state st) = Inr (Some i)" "getEntry i (shows_state st) = Some e"
  shows "view_findEntryOnBranch bk lane any_entry no_bounds None st = Inr (Some e)"
proof -
  have ok: "state_ok (shows_state st)" using invar_session [OF assms(1)] by (simp add: session_ok_def)
  obtain path where path: "path_to (bound_reached no_bounds) path" "hd path = e"
    "findEntriesOnBranch any_entry no_bounds i (shows_state st) = Inr path"
    using branch_query_eq [OF ok, of i e any_entry no_bounds] assms(3)
    by (auto simp: getEntry_def any_entry_def matchesEntryQuery_def limited_def limit_ok_def cursor_ok_def)
  have "view_findEntriesOnBranch bk lane any_entry no_bounds None st = Inr path"
    using path(3) assms(2)
    by (simp add: view_findEntriesOnBranch_def queryBranchEntries_def leaf_lookup reads_branch any_entry_def
        assertValidLimit_def assertValidCursor_def)
  then show ?thesis
    using single_is_first [OF assms(1), of any_entry lane no_bounds None] path_nonempty [OF path(1)] path(2)
    by (cases path) (simp_all add: first_of_def)
qed

end

section \<open>The in-memory backend\<close>

definition memory_backend :: "memory_storage backend" where
  "memory_backend =
     \<lparr>bk_getLanes = (\<lambda>st. lanes (ms_state st)),
      bk_findEntries = (\<lambda>query st. findEntries query (ms_state st)),
      bk_findEntriesOnBranch = (\<lambda>query bounds start st. findEntriesOnBranch query bounds start (ms_state st)),
      bk_findRecords = (\<lambda>query st. findRecords query (ms_state st)),
      bk_findOpenOperations = (\<lambda>lane limit st. findOpenOperations lane limit (ms_state st)),
      bk_getLog = (\<lambda>options st. getLog options (ms_state st)),
      bk_appendEntry = (\<lambda>now pe lane st.
        case mem_appendEntry now pe lane st of Inl e \<Rightarrow> (Inl e, st) | Inr (e, st') \<Rightarrow> (Inr e, st')),
      bk_appendRecord = (\<lambda>now nr st.
        case mem_appendRecord now nr st of Inl e \<Rightarrow> (Inl e, st) | Inr (r, st') \<Rightarrow> (Inr r, st'))\<rparr>"

lemma mem_appendEntry_submit:
  "(case mem_appendEntry now pe lane st of Inl e \<Rightarrow> (Inl e, st) | Inr (e, st') \<Rightarrow> (Inr e, st')) =
   (case mem_submit now (AppendEntry pe lane) st of
      (Inl e, st') \<Rightarrow> (Inl e, st')
    | (Inr u, st') \<Rightarrow> (Inr (new_entry now pe (the (map_of (lanes (ms_state st)) lane)) (ms_state st)), st'))"
proof (cases "mem_appendEntry now pe lane st")
  case (Inr r)
  then show ?thesis
    by (auto simp: keep_on_error_def mem_appendEntry_def bindE_eq_Inr requireLane_def new_entry_def Let_def
        split: option.splits)
qed (simp add: keep_on_error_def)

interpretation mem_view: session_backend mem_submit ms_state "\<lambda>st. session_ok (ms_state st)" "\<lambda>_. True" memory_backend
  by unfold_locales (simp_all add: memory_backend_def mem_appendEntry_submit)

section \<open>Properties of a view\<close>

text \<open>
  appending a JSON-serializable message with an unused id to an existing lane of a valid
  session returns that id; the new entry's parent is the lane's former leaf, it is the lane's new
  leaf and the newest entry on its branch, and the leaves of the other lanes stay.
\<close>

theorem append_message_visible:
  assumes "session_ok (ms_state st)" "map_of (lanes (ms_state st)) lane = Some leaf" "\<not> id_taken nextId (ms_state st)"
    "graph \<lparr>p_id = nextId, p_data = MessageEntry msg False\<rparr> = (h, v)" "denotes h v tree"
  shows "\<exists>st' e. appendMessageToLane memory_backend graph now nextId lane msg st = (Inr nextId, st') \<and>
    e_id e = nextId \<and> e_data e = MessageEntry msg False \<and> e_parentId e = leaf \<and>
    view_findEntryOnBranch memory_backend lane any_entry no_bounds None st' = Inr (Some e) \<and>
    getLeafIdForLane memory_backend lane st' = Inr (Some nextId) \<and>
    (\<forall>other. other \<noteq> lane \<longrightarrow>
      getLeafIdForLane memory_backend other st' = getLeafIdForLane memory_backend other st)"
proof -
  let ?pe = "\<lparr>p_id = nextId, p_data = MessageEntry msg False\<rparr>"
  have json: "assertJsonSerializable (fst (graph ?pe)) (snd (graph ?pe)) = Inr ()"
    using assms(4,5) denotes_unique json_payload_accepts by auto
  have free: "request_error (AppendEntry ?pe lane) (ms_state st) = None" using assms(2,3) by simp
  obtain e st' where e: "commitEntry memory_backend graph now ?pe lane st = (Inr e, st')" "session_ok (ms_state st')"
    "e = new_entry now ?pe (the (map_of (lanes (ms_state st)) lane)) (ms_state st)"
    "ms_state st' = add_entry (Some lane) e (ms_state st)"
    by (rule mem_view.commit_entry [where graph = graph and now = now, OF assms(1) TrueI json free])
  have leaf: "requireLane lane (ms_state st') = Inr (Some nextId)" "getEntry nextId (ms_state st') = Some e"
    using e(3,4) by (simp_all add: requireLane_def add_entry_def getEntry_def new_entry_def)
  have "view_findEntryOnBranch memory_backend lane any_entry no_bounds None st' = Inr (Some e)"
    by (rule mem_view.newest_on_branch [OF e(2) leaf])
  moreover have "requireLane other (ms_state st') = requireLane other (ms_state st)" if "other \<noteq> lane" for other
    using that e(4) by (simp add: requireLane_def add_entry_def)
  ultimately show ?thesis
    using e(1,3) leaf(1) assms(2)
    by (intro exI [of _ st'] exI [of _ e]) (auto simp: appendMessageToLane_def result_id_def mem_view.leaf_lookup new_entry_def)
qed

theorem append_message_visible_witness:
  "\<exists>st' e. appendMessageToLane memory_backend (\<lambda>_. ([], RNull)) 7 ''m'' ''main'' (UserMessage JNull 0) sample_storage = (Inr ''m'', st') \<and>
     e_id e = ''m'' \<and> e_parentId e = Some ''b'' \<and>
     view_findEntryOnBranch memory_backend ''main'' any_entry no_bounds None st' = Inr (Some e)"
proof -
  have "map_of (lanes (ms_state sample_storage)) ''main'' = Some (Some ''b'')"
    by (simp add: sample_storage_def sample_defs)
  moreover have "\<not> id_taken ''m'' (ms_state sample_storage)"
    by (simp add: id_taken_def entry_ids_def sample_storage_def sample_defs)
  ultimately show ?thesis
    using append_message_visible [OF sample_session_ok, of "''main''" "Some ''b''" "''m''" "\<lambda>_. ([], RNull)"
        "UserMessage JNull 0" "[]" RNull JNull 7] denotes.intros(1) by blast
qed

text \<open>
  Asking a lane view for one entry of a branch gives the first entry of the full answer, for
  every query with a valid limit, in either order, errors included.
\<close>

theorem find_one_is_first:
  assumes "session_ok (ms_state st)" "limit_ok (q_limit query)"
  shows "view_findEntryOnBranch memory_backend lane query bounds start st =
    first_of (view_findEntriesOnBranch memory_backend lane query bounds start st)"
  using assms by (rule mem_view.single_is_first)

theorem find_one_is_first_witness:
  "view_findEntryOnBranch memory_backend ''main'' (any_entry\<lparr>q_order := Some OldestFirst\<rparr>) no_bounds None sample_storage =
   Inr (Some (sample_user_entry ''a'' 1 None))"
proof -
  have "requireLane ''main'' (ms_state sample_storage) = Inr (Some ''b'')"
    by (simp add: requireLane_def sample_storage_def sample_defs)
  moreover have "findEntriesOnBranch (any_entry\<lparr>q_order := Some OldestFirst\<rparr>) no_bounds ''b'' (ms_state sample_storage) =
      Inr [sample_user_entry ''a'' 1 None, sample_user_entry ''b'' 2 (Some ''a'')]"
    by (simp add: findEntriesOnBranch_def sample_storage_def sample_defs assertValidLimit_def assertValidCursor_def
        walkToRoot_def walk_from.simps no_bounds_def at_limit_def)
  ultimately have "view_findEntriesOnBranch memory_backend ''main'' (any_entry\<lparr>q_order := Some OldestFirst\<rparr>) no_bounds None
      sample_storage = Inr [sample_user_entry ''a'' 1 None, sample_user_entry ''b'' 2 (Some ''a'')]"
    by (simp add: view_findEntriesOnBranch_def queryBranchEntries_def mem_view.leaf_lookup mem_view.reads_branch
        assertValidLimit_def assertValidCursor_def)
  then show ?thesis
    using find_one_is_first [OF sample_session_ok, of "any_entry\<lparr>q_order := Some OldestFirst\<rparr>" "''main''" no_bounds None]
    by (simp add: first_of_def)
qed

end
