(* ===== verification/Json_Text.thy ===== *)
theory Json_Text
  imports Js_Value
begin

text \<open>
  \<open>JSON.stringify\<close> and \<open>JSON.parse\<close>, as the JSONL session files use them: one compact text per
  value, without replacer or indentation, read back by the grammar of the language. The decimal
  text of a number that is not a safe integer, and its reading, are the arguments \<open>nt\<close> and \<open>nr\<close>
  (the language fixes them by a shortest-round-trip rule); everything else is spelled out. Two
  facts carry the storage proofs: a JSON value is read back from its text whatever follows it,
  and no proper prefix of the text of an object is a JSON text.
\<close>

section \<open>Writing\<close>

definition hex_unit :: "nat \<Rightarrow> code_unit" where
  "hex_unit n = word_of_nat (if n < 10 then 48 + n else 87 + n)"

definition unicode_escape :: "code_unit \<Rightarrow> jsstr" where
  "unicode_escape u =
     [92, 117, hex_unit (unat u div 4096), hex_unit (unat u div 256 mod 16),
      hex_unit (unat u div 16 mod 16), hex_unit (unat u mod 16)]"

definition quote_unit :: "code_unit \<Rightarrow> jsstr" where
  "quote_unit u =
     (if u = 34 \<or> u = 92 then [92, u]
      else if u = 8 then [92, 98] else if u = 9 then [92, 116] else if u = 10 then [92, 110]
      else if u = 12 then [92, 102] else if u = 13 then [92, 114]
      else if unat u < 32 \<or> is_surrogate u then unicode_escape u
      else [u])"

fun quote_units :: "jsstr \<Rightarrow> jsstr" where
  "quote_units [] = []"
| "quote_units [u] = quote_unit u"
| "quote_units (u # v # s) =
     (if is_high_surrogate u \<and> is_low_surrogate v then u # v # quote_units s
      else quote_unit u @ quote_units (v # s))"

definition quote :: "jsstr \<Rightarrow> jsstr" where
  "quote s = 34 # quote_units s @ [34]"

definition number_text :: "(jsnum \<Rightarrow> jsstr) \<Rightarrow> jsnum \<Rightarrow> jsstr" where
  "number_text nt n =
     (if is_safe_integer n then js_of (show_int (num_value n))
      else if is_finite_num n then nt n else js_of ''null'')"

text \<open>
  The text of a tree of data values. Properties whose value is \<open>undefined\<close> are left out and
  \<open>undefined\<close> elements and holes become \<open>null\<close>; the values of the last equation have no JSON text.
\<close>

fun json_text :: "(jsnum \<Rightarrow> jsstr) \<Rightarrow> jsval \<Rightarrow> jsstr"
  and elements_text :: "(jsnum \<Rightarrow> jsstr) \<Rightarrow> jsval option list \<Rightarrow> jsstr"
  and members_text :: "(jsnum \<Rightarrow> jsstr) \<Rightarrow> bool \<Rightarrow> (jsstr \<times> jsval) list \<Rightarrow> jsstr" where
  "json_text nt v =
     (case v of
        JNull \<Rightarrow> js_of ''null''
      | JBool b \<Rightarrow> js_of (if b then ''true'' else ''false'')
      | JNum n \<Rightarrow> number_text nt n
      | JStr s \<Rightarrow> quote s
      | JArr vs \<Rightarrow> 91 # elements_text nt vs @ [93]
      | JObj p symbols ps \<Rightarrow> 123 # members_text nt True ps @ [125]
      | _ \<Rightarrow> [])"
| "elements_text nt vs =
     (case vs of
        [] \<Rightarrow> []
      | ov # rest \<Rightarrow>
          (case ov of None \<Rightarrow> js_of ''null'' | Some v \<Rightarrow> if v = JUndefined then js_of ''null'' else json_text nt v) @
          (if rest = [] then [] else 44 # elements_text nt rest))"
| "members_text nt first ps =
     (case ps of
        [] \<Rightarrow> []
      | (k, v) # rest \<Rightarrow>
          (if v = JUndefined then members_text nt first rest
           else (if first then [] else [44]) @ quote k @ 58 # json_text nt v @ members_text nt False rest))"

declare json_text.simps [simp del] elements_text.simps [simp del] members_text.simps [simp del]

section \<open>Reading\<close>

definition is_space :: "code_unit \<Rightarrow> bool" where
  "is_space u \<longleftrightarrow> u = 32 \<or> u = 9 \<or> u = 10 \<or> u = 13"

abbreviation skip_space :: "jsstr \<Rightarrow> jsstr" where
  "skip_space s \<equiv> dropWhile is_space s"

definition hex_value :: "code_unit \<Rightarrow> nat option" where
  "hex_value u =
     (if is_digit u then Some (unat u - 48)
      else if 97 \<le> unat u \<and> unat u \<le> 102 then Some (unat u - 87)
      else if 65 \<le> unat u \<and> unat u \<le> 70 then Some (unat u - 55)
      else None)"

definition hex_quad :: "code_unit \<Rightarrow> code_unit \<Rightarrow> code_unit \<Rightarrow> code_unit \<Rightarrow> code_unit option" where
  "hex_quad a b c d =
     (case (hex_value a, hex_value b, hex_value c, hex_value d) of
        (Some w, Some x, Some y, Some z) \<Rightarrow> Some (word_of_nat (((w * 16 + x) * 16 + y) * 16 + z))
      | _ \<Rightarrow> None)"

definition short_escape :: "code_unit \<Rightarrow> code_unit option" where
  "short_escape u =
     (if u = 34 \<or> u = 92 \<or> u = 47 then Some u
      else map_of [(98, 8), (102, 12), (110, 10), (114, 13), (116, 9)] u)"

definition cons_unit :: "code_unit \<Rightarrow> (jsstr \<times> jsstr) option \<Rightarrow> (jsstr \<times> jsstr) option" where
  "cons_unit u r = map_option (\<lambda>(t, rest). (u # t, rest)) r"

text \<open>The rest of a string literal after its opening quote: its value and what follows it.\<close>

fun parse_string :: "jsstr \<Rightarrow> (jsstr \<times> jsstr) option" where
  "parse_string [] = None"
| "parse_string (u # s) =
     (if u = 34 then Some ([], s)
      else if unat u < 32 then None
      else if u \<noteq> 92 then cons_unit u (parse_string s)
      else case s of
        [] \<Rightarrow> None
      | e # r \<Rightarrow>
          if e \<noteq> 117 then (case short_escape e of None \<Rightarrow> None | Some w \<Rightarrow> cons_unit w (parse_string r))
          else (case r of
            a # b # c # d # rest \<Rightarrow>
              (case hex_quad a b c d of None \<Rightarrow> None | Some w \<Rightarrow> cons_unit w (parse_string rest))
          | _ \<Rightarrow> None))"

text \<open>
  Numbers: a literal is the longest run of characters that occur in numbers, which must match the
  grammar; nothing that may follow a number in a JSON text is such a character.
\<close>

definition is_number_unit :: "code_unit \<Rightarrow> bool" where
  "is_number_unit u \<longleftrightarrow> is_digit u \<or> u \<in> {43, 45, 46, 69, 101}"

definition digits1 :: "jsstr \<Rightarrow> bool" where
  "digits1 s \<longleftrightarrow> s \<noteq> [] \<and> list_all is_digit s"

definition exponent_ok :: "jsstr \<Rightarrow> bool" where
  "exponent_ok s =
     (case s of
        [] \<Rightarrow> True
      | e # r \<Rightarrow> (e = 69 \<or> e = 101) \<and> digits1 (case r of c # t \<Rightarrow> if c = 43 \<or> c = 45 then t else r | [] \<Rightarrow> []))"

definition fraction_ok :: "jsstr \<Rightarrow> bool" where
  "fraction_ok s =
     (case s of
        c # r \<Rightarrow> if c = 46 then takeWhile is_digit r \<noteq> [] \<and> exponent_ok (dropWhile is_digit r) else exponent_ok s
      | [] \<Rightarrow> True)"

definition unsigned_part :: "jsstr \<Rightarrow> jsstr" where
  "unsigned_part s = (case s of c # r \<Rightarrow> if c = 45 then r else s | [] \<Rightarrow> [])"

definition number_ok :: "jsstr \<Rightarrow> bool" where
  "number_ok s \<longleftrightarrow>
     (let t = unsigned_part s; i = takeWhile is_digit t in
      i \<noteq> [] \<and> (i = [48] \<or> hd i \<noteq> 48) \<and> fraction_ok (dropWhile is_digit t))"

definition is_safe_literal :: "jsstr \<Rightarrow> bool" where
  "is_safe_literal s \<longleftrightarrow>
     list_all is_digit (unsigned_part s) \<and> int (digits_value (unsigned_part s)) \<le> max_safe_integer"

definition number_value :: "(jsstr \<Rightarrow> jsnum) \<Rightarrow> jsstr \<Rightarrow> jsnum" where
  "number_value nr s =
     (if \<not> is_safe_literal s then nr s
      else let n = int (digits_value (unsigned_part s)) in
        if unsigned_part s = s then Integral n
        else if n = 0 then Fractional neg_zero else Integral (- n))"

definition parse_number :: "(jsstr \<Rightarrow> jsnum) \<Rightarrow> jsstr \<Rightarrow> (jsval \<times> jsstr) option" where
  "parse_number nr s =
     (let t = takeWhile is_number_unit s in
      if number_ok t then Some (JNum (number_value nr t), dropWhile is_number_unit s) else None)"

definition parse_word :: "string \<Rightarrow> jsval \<Rightarrow> jsstr \<Rightarrow> (jsval \<times> jsstr) option" where
  "parse_word w v s =
     (if take (length w) s = js_of w then Some (v, drop (length w) s) else None)"

lemma skip_space_less: "skip_space s = c # r \<Longrightarrow> length r < length s"
  using length_dropWhile_le [of is_space s] by simp

text \<open>
  The recursive descent. The length tests only make the recursion well founded: by
  \<open>parse_shorter\<close> below they always hold.
\<close>

function parse_value :: "(jsstr \<Rightarrow> jsnum) \<Rightarrow> jsstr \<Rightarrow> (jsval \<times> jsstr) option"
  and parse_elements :: "(jsstr \<Rightarrow> jsnum) \<Rightarrow> jsval option list \<Rightarrow> jsstr \<Rightarrow> (jsval \<times> jsstr) option"
  and parse_members :: "(jsstr \<Rightarrow> jsnum) \<Rightarrow> props \<Rightarrow> jsstr \<Rightarrow> (jsval \<times> jsstr) option" where
  "parse_value nr s =
     (case skip_space s of
        [] \<Rightarrow> None
      | c # r \<Rightarrow>
          if c = 123 then
            (case skip_space r of
               [] \<Rightarrow> None
             | d # r' \<Rightarrow> if d = 125 then Some (JObj ProtoObject False [], r') else parse_members nr [] r)
          else if c = 91 then
            (case skip_space r of
               [] \<Rightarrow> None
             | d # r' \<Rightarrow> if d = 93 then Some (JArr [], r') else parse_elements nr [] r)
          else if c = 34 then map_option (\<lambda>(t, r'). (JStr t, r')) (parse_string r)
          else if c = 110 then parse_word ''null'' JNull (c # r)
          else if c = 116 then parse_word ''true'' (JBool True) (c # r)
          else if c = 102 then parse_word ''false'' (JBool False) (c # r)
          else parse_number nr (c # r))"
| "parse_elements nr acc s =
     (case parse_value nr s of
        None \<Rightarrow> None
      | Some (v, r) \<Rightarrow>
          if length r < length s then
            (case skip_space r of
               [] \<Rightarrow> None
             | c # r' \<Rightarrow>
                 if c = 44 then parse_elements nr (acc @ [Some v]) r'
                 else if c = 93 then Some (JArr (acc @ [Some v]), r') else None)
          else None)"
| "parse_members nr acc s =
     (case skip_space s of
        [] \<Rightarrow> None
      | q # r \<Rightarrow>
          if q \<noteq> 34 then None
          else case parse_string r of
            None \<Rightarrow> None
          | Some (k, r1) \<Rightarrow>
              (case skip_space r1 of
                 [] \<Rightarrow> None
               | c # r2 \<Rightarrow>
                   if c \<noteq> 58 \<or> \<not> length r2 < length s then None
                   else case parse_value nr r2 of
                     None \<Rightarrow> None
                   | Some (v, r3) \<Rightarrow>
                       if length r3 < length r2 then
                         (case skip_space r3 of
                            [] \<Rightarrow> None
                          | d # r4 \<Rightarrow>
                              if d = 44 then parse_members nr (define_property k v acc) r4
                              else if d = 125 then Some (JObj ProtoObject False (define_property k v acc), r4) else None)
                       else None))"
  by pat_completeness auto
termination
  by (relation "measure (\<lambda>x. case x of Inl (nr, s) \<Rightarrow> 2 * length s
      | Inr (Inl (nr, acc, s)) \<Rightarrow> 2 * length s + 1 | Inr (Inr (nr, acc, s)) \<Rightarrow> 2 * length s + 1)")
    (auto dest!: skip_space_less)

declare parse_value.simps [simp del] parse_elements.simps [simp del] parse_members.simps [simp del]

definition json_parse :: "(jsstr \<Rightarrow> jsnum) \<Rightarrow> jsstr \<Rightarrow> jsval option" where
  "json_parse nr s =
     (case parse_value nr s of
        None \<Rightarrow> None
      | Some (v, r) \<Rightarrow> if skip_space r = [] then Some v else None)"

section \<open>The length tests of the reader\<close>

lemma cons_unit_Some: "cons_unit u r = Some x \<longleftrightarrow> (\<exists>t rest. r = Some (t, rest) \<and> x = (u # t, rest))"
  by (auto simp: cons_unit_def)

lemma parse_string_shorter: "parse_string s = Some (t, r) \<Longrightarrow> length r < length s"
  by (induction s arbitrary: t r rule: parse_string.induct)
    (fastforce simp: cons_unit_Some split: if_splits list.splits option.splits)+

lemma parse_number_shorter:
  assumes "parse_number nr s = Some (v, r)"
  shows "length r < length s"
proof -
  have "0 < length (takeWhile is_number_unit s)"
    using assms by (auto simp: parse_number_def number_ok_def unsigned_part_def Let_def split: if_splits)
  moreover have "length (takeWhile is_number_unit s) + length (dropWhile is_number_unit s) = length s"
    by (metis length_append takeWhile_dropWhile_id)
  moreover have "length r = length (dropWhile is_number_unit s)" using assms by (auto simp: parse_number_def Let_def split: if_splits)
  ultimately show ?thesis by linarith
qed

lemma parse_word_shorter: "parse_word w v s = Some (v', r) \<Longrightarrow> w \<noteq> [] \<Longrightarrow> length r < length s"
  by (cases s) (auto simp: parse_word_def js_of_def split: if_splits)

lemma parse_elements_Some:
  assumes "parse_elements nr acc s = Some (v, r)"
  obtains w t r' where "parse_value nr s = Some (w, t)" "length t < length s"
    "skip_space t = 44 # r' \<and> parse_elements nr (acc @ [Some w]) r' = Some (v, r) \<or>
     skip_space t = 93 # r \<and> v = JArr (acc @ [Some w])"
proof (cases "parse_value nr s")
  case None
  then show ?thesis using assms by (simp add: parse_elements.simps [of nr acc s])
next
  case (Some p)
  obtain w t where "p = (w, t)" by (cases p)
  then show ?thesis
    using assms Some that [of w t "tl (skip_space t)"]
    by (cases "skip_space t") (auto simp: parse_elements.simps [of nr acc s] simp del: dropWhile_eq_Nil_conv split: if_splits)
qed

lemma parse_members_Some:
  assumes "parse_members nr acc s = Some (v, r)"
  obtains k r0 r1 r2 w t r' where "skip_space s = 34 # r0" "parse_string r0 = Some (k, r1)" "skip_space r1 = 58 # r2"
    "length r2 < length s" "parse_value nr r2 = Some (w, t)" "length t < length r2"
    "skip_space t = 44 # r' \<and> parse_members nr (define_property k w acc) r' = Some (v, r) \<or>
     skip_space t = 125 # r \<and> v = JObj ProtoObject False (define_property k w acc)"
proof -
  obtain r0 where 0: "skip_space s = 34 # r0"
    using assms by (auto simp: parse_members.simps [of nr acc s] split: list.splits if_splits)
  obtain k r1 where 1: "parse_string r0 = Some (k, r1)"
    using assms 0 by (auto simp: parse_members.simps [of nr acc s] split: option.splits)
  obtain r2 where 2: "skip_space r1 = 58 # r2" "length r2 < length s"
    using assms 0 1 by (auto simp: parse_members.simps [of nr acc s] split: list.splits if_splits)
  obtain w t where 3: "parse_value nr r2 = Some (w, t)" "length t < length r2"
    using assms 0 1 2 by (auto simp: parse_members.simps [of nr acc s] split: option.splits if_splits)
  show ?thesis
    using that [OF 0 1 2 3, of "tl (skip_space t)"] assms 0 1 2 3
    by (cases "skip_space t") (auto simp: parse_members.simps [of nr acc s] simp del: dropWhile_eq_Nil_conv split: if_splits)
qed

definition json_words :: "(code_unit \<times> string \<times> jsval) set" where
  "json_words = {(110, ''null'', JNull), (116, ''true'', JBool True), (102, ''false'', JBool False)}"

lemma parse_value_Some:
  assumes "parse_value nr s = Some (v, r)"
  obtains (empty_object) t where "skip_space s = 123 # t" "skip_space t = 125 # r" "v = JObj ProtoObject False []"
  | (object) t d u where "skip_space s = 123 # t" "skip_space t = d # u" "d \<noteq> 125" "parse_members nr [] t = Some (v, r)"
  | (empty_array) t where "skip_space s = 91 # t" "skip_space t = 93 # r" "v = JArr []"
  | (array) t d u where "skip_space s = 91 # t" "skip_space t = d # u" "d \<noteq> 93" "parse_elements nr [] t = Some (v, r)"
  | (string) t x where "skip_space s = 34 # t" "parse_string t = Some (x, r)" "v = JStr x"
  | (word) w x c t where "skip_space s = c # t" "(c, w, x) \<in> json_words" "parse_word w x (c # t) = Some (v, r)"
  | (number) c t where "skip_space s = c # t" "c \<notin> {123, 91, 34, 110, 116, 102}" "parse_number nr (c # t) = Some (v, r)"
proof -
  obtain c t where c: "skip_space s = c # t" using assms by (cases "skip_space s") (auto simp: parse_value.simps)
  show ?thesis
    using assms c that
    by (auto simp: parse_value.simps [of nr s] json_words_def split: if_splits list.splits)
qed

lemma parse_shorter:
  "parse_value nr s = Some (v, r) \<Longrightarrow> length r < length s"
  "parse_elements nr acc s = Some (v, r) \<Longrightarrow> length r < length s"
  "parse_members nr ps s = Some (v, r) \<Longrightarrow> length r < length s"
proof (induction nr s and nr acc s and nr ps s arbitrary: v r and v r and v r
    rule: parse_value_parse_elements_parse_members.induct)
  case (1 nr s)
  obtain c t where c: "skip_space s = c # t" using 1(3) by (cases "skip_space s") (auto simp: parse_value.simps)
  then have less: "length (c # t) \<le> length s" by (metis length_dropWhile_le)
  have "length r < length (c # t)"
    using 1(3) 1(1,2)[OF c] c
    by (auto simp: parse_value.simps [of nr s] split: if_splits list.splits
        dest: parse_string_shorter parse_word_shorter parse_number_shorter dest!: skip_space_less intro: less_SucI)
  then show ?case using less by linarith
next
  case (2 nr acc s)
  from 2(3) show ?case
  proof (rule parse_elements_Some)
    fix w t r'
    assume w: "parse_value nr s = Some (w, t)" "length t < length s"
      "skip_space t = 44 # r' \<and> parse_elements nr (acc @ [Some w]) r' = Some (v, r) \<or>
       skip_space t = 93 # r \<and> v = JArr (acc @ [Some w])"
    then show ?thesis
      using 2(2) [OF w(1) refl w(2), of 44 r'] by (fastforce dest: skip_space_less)
  qed
next
  case (3 nr ps s)
  from 3(3) show ?case
  proof (rule parse_members_Some)
    fix k r0 r1 r2 w t r'
    assume w: "skip_space s = 34 # r0" "parse_string r0 = Some (k, r1)" "skip_space r1 = 58 # r2"
      "length r2 < length s" "parse_value nr r2 = Some (w, t)" "length t < length r2"
      and "skip_space t = 44 # r' \<and> parse_members nr (define_property k w ps) r' = Some (v, r) \<or>
       skip_space t = 125 # r \<and> v = JObj ProtoObject False (define_property k w ps)"
    then show ?thesis
      using 3(2) [OF w(1) _ w(2) refl w(3) _ w(5) refl w(6), of 44 r'] by (fastforce dest: skip_space_less)
  qed
qed

section \<open>Reading is stable under what follows\<close>

lemma skip_space_append: "skip_space s = c # r \<Longrightarrow> skip_space (s @ x) = c # r @ x"
  by (induction s) auto

lemma parse_string_append: "parse_string s = Some (t, r) \<Longrightarrow> parse_string (s @ x) = Some (t, r @ x)"
proof (induction s arbitrary: t r rule: parse_string.induct)
  case 1
  then show ?case by simp
next
  case (2 u s)
  show ?case
  proof (cases "u = 92")
    case False
    then show ?thesis using 2(1,4) by (auto simp: cons_unit_Some split: if_splits)
  next
    case True
    then obtain e q where s: "s = e # q" using 2(4) by (cases s) auto
    show ?thesis
    proof (cases "e = 117")
      case False
      then show ?thesis using 2(2,4) True s by (auto simp: cons_unit_Some split: option.splits)
    next
      case unicode: True
      then obtain a b c d rest where "q = a # b # c # d # rest" using 2(4) True s by (auto split: list.splits)
      then show ?thesis using 2(3,4) True s unicode by (auto simp: cons_unit_Some split: option.splits)
    qed
  qed
qed

lemma parse_word_append:
  assumes "parse_word w v s = Some (u, r)"
  shows "parse_word w v (s @ x) = Some (u, r @ x)"
proof -
  have w: "take (length w) s = js_of w" using assms by (auto simp: parse_word_def split: if_splits)
  then have "min (length s) (length w) = length w" by (metis js_of_def length_map length_take)
  then have "length w \<le> length s" by linarith
  then show ?thesis using assms w by (auto simp: parse_word_def)
qed

lemma parse_number_append:
  assumes "parse_number nr s = Some (v, r)" "r \<noteq> []"
  shows "parse_number nr (s @ x) = Some (v, r @ x)"
proof -
  have r: "r = dropWhile is_number_unit s" using assms(1) by (auto simp: parse_number_def Let_def split: if_splits)
  with assms(2) obtain u where "u \<in> set s" "\<not> is_number_unit u" by (auto simp: dropWhile_eq_Nil_conv)
  then have "takeWhile is_number_unit (s @ x) = takeWhile is_number_unit s"
    "dropWhile is_number_unit (s @ x) = dropWhile is_number_unit s @ x"
    by (auto simp: takeWhile_append1 dropWhile_append1)
  then show ?thesis using assms(1) by (auto simp: parse_number_def Let_def split: if_splits)
qed

fun is_number_value :: "jsval \<Rightarrow> bool" where
  "is_number_value (JNum n) = True"
| "is_number_value _ = False"

lemma parse_append:
  "parse_value nr s = Some (v, r) \<Longrightarrow> r \<noteq> [] \<or> \<not> is_number_value v \<Longrightarrow> parse_value nr (s @ x) = Some (v, r @ x)"
  "parse_elements nr acc s = Some (v, r) \<Longrightarrow> parse_elements nr acc (s @ x) = Some (v, r @ x)"
  "parse_members nr ps s = Some (v, r) \<Longrightarrow> parse_members nr ps (s @ x) = Some (v, r @ x)"
proof (induction nr s and nr acc s and nr ps s arbitrary: v r and v r and v r
    rule: parse_value_parse_elements_parse_members.induct)
  case (1 nr s)
  from 1(3) show ?case
  proof (cases rule: parse_value_Some)
    case (object t d u)
    then show ?thesis
      using 1(1) [OF object(1) _ object(2,3,4)] by (simp add: parse_value.simps [of nr "s @ x"] skip_space_append)
  next
    case (array t d u)
    then show ?thesis
      using 1(2) [OF array(1) _ _ array(2,3,4)] by (simp add: parse_value.simps [of nr "s @ x"] skip_space_append)
  next
    case (word w y c t)
    then show ?thesis
      using parse_word_append [of w y "c # t" v r x]
      by (auto simp: parse_value.simps [of nr "s @ x"] skip_space_append json_words_def)
  next
    case (number c t)
    have "is_number_value v" using number(3) by (auto simp: parse_number_def Let_def split: if_splits)
    then have "parse_number nr ((c # t) @ x) = Some (v, r @ x)" using 1(4) number(3) by (intro parse_number_append) auto
    then show ?thesis using number by (simp add: parse_value.simps [of nr "s @ x"] skip_space_append)
  qed (simp_all add: parse_value.simps [of nr "s @ x"] skip_space_append parse_string_append)
next
  case (2 nr acc s)
  from 2(3) show ?case
  proof (rule parse_elements_Some)
    fix w t r'
    assume w: "parse_value nr s = Some (w, t)" "length t < length s"
      "skip_space t = 44 # r' \<and> parse_elements nr (acc @ [Some w]) r' = Some (v, r) \<or>
       skip_space t = 93 # r \<and> v = JArr (acc @ [Some w])"
    then have "t \<noteq> []" by auto
    then have "parse_value nr (s @ x) = Some (w, t @ x)" using 2(1) [OF w(1)] by simp
    with w show ?thesis
      using 2(2) [OF w(1) refl w(2), of 44 r' v r]
      by (auto simp: parse_elements.simps [of nr acc "s @ x"] skip_space_append)
  qed
next
  case (3 nr ps s)
  from 3(3) show ?case
  proof (rule parse_members_Some)
    fix k r0 r1 r2 w t r'
    assume w: "skip_space s = 34 # r0" "parse_string r0 = Some (k, r1)" "skip_space r1 = 58 # r2"
      "length r2 < length s" "parse_value nr r2 = Some (w, t)" "length t < length r2"
      and t: "skip_space t = 44 # r' \<and> parse_members nr (define_property k w ps) r' = Some (v, r) \<or>
       skip_space t = 125 # r \<and> v = JObj ProtoObject False (define_property k w ps)"
    then have "t \<noteq> []" by auto
    then have "parse_value nr (r2 @ x) = Some (w, t @ x)" using 3(1) [OF w(1) _ w(2) refl w(3) _ w(5)] w(4) by simp
    with w t show ?thesis
      using 3(2) [OF w(1) _ w(2) refl w(3) _ w(5) refl w(6), of 44 r' v r]
      by (auto simp: parse_members.simps [of nr ps "s @ x"] skip_space_append parse_string_append)
  qed
qed

section \<open>JSON values\<close>

text \<open>
  The values \<open>JSON.parse\<close> can return, which are those the payload check of a session accepts, but
  for objects without a prototype and for minus zero, whose text is that of zero.
\<close>

fun json_number :: "jsnum \<Rightarrow> bool" where
  "json_number n = (is_finite_num n \<and> wf_num n \<and> n \<noteq> Fractional neg_zero)"

fun json_tree :: "jsval \<Rightarrow> bool"
  and json_elements :: "jsval option list \<Rightarrow> bool"
  and json_members :: "(jsstr \<times> jsval) list \<Rightarrow> bool" where
  "json_tree v =
     (case v of
        JNull \<Rightarrow> True
      | JBool b \<Rightarrow> True
      | JNum n \<Rightarrow> json_number n
      | JStr s \<Rightarrow> True
      | JArr vs \<Rightarrow> json_elements vs
      | JObj p symbols ps \<Rightarrow> p = ProtoObject \<and> \<not> symbols \<and> props_ordered ps \<and> json_members ps
      | _ \<Rightarrow> False)"
| "json_elements vs =
     (case vs of
        [] \<Rightarrow> True
      | ov # rest \<Rightarrow> (case ov of None \<Rightarrow> False | Some v \<Rightarrow> json_tree v) \<and> json_elements rest)"
| "json_members ps =
     (case ps of
        [] \<Rightarrow> True
      | (k, v) # rest \<Rightarrow> json_tree v \<and> json_members rest)"

declare json_tree.simps [simp del] json_elements.simps [simp del] json_members.simps [simp del]

text \<open>What the language promises about the decimal text of the other numbers.\<close>

definition number_format :: "(jsnum \<Rightarrow> jsstr) \<Rightarrow> (jsstr \<Rightarrow> jsnum) \<Rightarrow> bool" where
  "number_format nt nr \<longleftrightarrow>
     (\<forall>n. json_number n \<and> \<not> is_safe_integer n \<longrightarrow>
        list_all is_number_unit (nt n) \<and> number_ok (nt n) \<and> \<not> is_safe_literal (nt n) \<and> nr (nt n) = n)"

lemma js_of_append [simp]: "js_of (a @ b) = js_of a @ js_of b"
  by (simp add: js_of_def)

lemma show_nat_digits: "list_all is_digit (js_of (show_nat n)) \<and> digits_value (js_of (show_nat n)) = n
    \<and> show_nat n \<noteq> [] \<and> (js_of (show_nat n) = [48] \<or> hd (js_of (show_nat n)) \<noteq> 48)"
proof (induction n rule: less_induct)
  case (less n)
  have digit: "unat (word_of_nat (of_char (char_of (48 + d) :: char)) :: 16 word) = 48 + d" if "d < 10" for d :: nat
    using that by (simp add: unat_of_nat del: of_nat_add)
  show ?case
  proof (cases "n < 10")
    case True
    then show ?thesis
      using digit [OF True]
      by (auto simp: show_nat.simps [of n] js_of_def is_digit_def digits_value_def word_unat_eq_iff)
  next
    case False
    define d u where "d = js_of (show_nat (n div 10))" and
      "u = (word_of_nat (of_char (char_of (48 + n mod 10) :: char)) :: code_unit)"
    have IH: "list_all is_digit d" "digits_value d = n div 10" "d \<noteq> []" "d = [48] \<or> hd d \<noteq> 48"
      using less [of "n div 10"] False by (auto simp: js_of_def d_def)
    have u: "unat u = 48 + n mod 10" using digit [of "n mod 10"] by (simp add: u_def)
    have "js_of (show_nat n) = d @ [u]"
      using False by (subst show_nat.simps) (simp add: d_def u_def js_of_def)
    moreover have "d \<noteq> [48]" using IH(2) False digits_value_zero by auto
    moreover have "show_nat n \<noteq> []" using False by (subst show_nat.simps) simp
    ultimately show ?thesis using IH u by (auto simp: is_digit_def [of u] digits_value_snoc)
  qed
qed

lemma takeWhile_digits: "list_all is_digit s \<Longrightarrow> takeWhile is_digit s = s \<and> dropWhile is_digit s = []"
  by (simp add: list_all_iff takeWhile_eq_all_conv)

lemma js_of_Cons: "js_of (c # s) = word_of_nat (of_char c) # js_of s"
  by (simp add: js_of_def)

lemma safe_number_read:
  assumes "is_safe_integer n" "n \<noteq> Fractional neg_zero"
  defines "t \<equiv> js_of (show_int (num_value n))"
  shows "list_all is_number_unit t \<and> number_ok t \<and> number_value nr t = n"
proof -
  obtain i where n: "n = Integral i" "\<bar>i\<bar> \<le> max_safe_integer" using assms(1,2) by (cases n) auto
  define d where "d = js_of (show_nat (nat \<bar>i\<bar>))"
  have d: "list_all is_digit d" "int (digits_value d) = \<bar>i\<bar>" "d \<noteq> []" "d = [48] \<or> hd d \<noteq> 48"
    using show_nat_digits [of "nat \<bar>i\<bar>"] by (auto simp: d_def js_of_def)
  have units: "list_all is_number_unit d" using d(1) by (auto simp: list_all_iff is_number_unit_def)
  have plain: "unsigned_part d = d"
    using d(1,3) by (cases d) (auto simp: unsigned_part_def is_digit_def)
  have minus: "unsigned_part (45 # d) = d" "(45 :: code_unit) # d \<noteq> d" by (simp_all add: unsigned_part_def)
  have ok: "number_ok s" "is_safe_literal s" if "unsigned_part s = d" for s
    unfolding number_ok_def is_safe_literal_def fraction_ok_def Let_def that
    using d n takeWhile_digits [OF d(1)] by (simp_all only: list.case) simp_all
  show ?thesis
  proof (cases "i < 0")
    case True
    then have "t = 45 # d" by (simp add: t_def n show_int_def js_of_Cons d_def)
    then show ?thesis
      using units ok [OF minus(1)] minus d(2) n True by (auto simp: number_value_def is_number_unit_def Let_def)
  next
    case False
    then have "t = d" by (simp add: t_def n show_int_def d_def)
    then show ?thesis using units ok [OF plain] plain d(2) n False by (simp add: number_value_def Let_def)
  qed
qed

lemma number_text_ok:
  assumes "number_format nt nr" "json_number n"
  shows "list_all is_number_unit (number_text nt n) \<and> number_ok (number_text nt n) \<and> number_value nr (number_text nt n) = n"
proof (cases "is_safe_integer n")
  case True
  then show ?thesis using safe_number_read [of n nr] assms(2) by (simp add: number_text_def)
next
  case False
  then show ?thesis using assms by (auto simp: number_text_def number_format_def number_value_def)
qed

lemma number_read:
  assumes "number_format nt nr" "json_number n" "rest = [] \<or> \<not> is_number_unit (hd rest)"
  shows "parse_number nr (number_text nt n @ rest) = Some (JNum n, rest)"
proof -
  let ?t = "number_text nt n"
  note t = number_text_ok [OF assms(1,2)]
  then have "takeWhile is_number_unit (?t @ rest) = ?t" "dropWhile is_number_unit (?t @ rest) = rest"
    using assms(3) by (cases rest; auto simp: list_all_iff takeWhile_append2 dropWhile_append2)+
  with t show ?thesis by (simp add: parse_number_def)
qed

section \<open>Round trip\<close>

lemma hex_read: "n < 16 \<Longrightarrow> hex_value (hex_unit n) = Some n"
  by (auto simp: hex_value_def hex_unit_def is_digit_def unat_of_nat simp del: of_nat_add)

lemma hex_quad_escape:
  "hex_quad (hex_unit (unat u div 4096)) (hex_unit (unat u div 256 mod 16)) (hex_unit (unat u div 16 mod 16))
     (hex_unit (unat u mod 16)) = Some u"
proof -
  have "unat u < 65536" using unsigned_less [of u, where ?'a = nat] by simp
  then have less: "unat u div 4096 < 16" by auto
  have "unat u div 4096 * 16 + unat u div 256 mod 16 = unat u div 256"
    "unat u div 256 * 16 + unat u div 16 mod 16 = unat u div 16" "unat u div 16 * 16 + unat u mod 16 = unat u"
    using div_mult_mod_eq [of "unat u div 256" 16] div_mult_mod_eq [of "unat u div 16" 16] div_mult_mod_eq [of "unat u" 16]
    by (simp_all add: div_mult2_eq [symmetric])
  then have "((unat u div 4096 * 16 + unat u div 256 mod 16) * 16 + unat u div 16 mod 16) * 16 + unat u mod 16 = unat u"
    by simp
  then show ?thesis using less by (simp add: hex_quad_def hex_read)
qed

lemma quote_unit_read: "parse_string (quote_unit u @ r) = cons_unit u (parse_string r)"
  by (auto simp: quote_unit_def unicode_escape_def hex_quad_escape short_escape_def)

lemma surrogate_plain: "is_surrogate u \<Longrightarrow> \<not> unat u < 32 \<and> u \<noteq> 34 \<and> u \<noteq> 92"
  by (auto simp: is_high_surrogate_def is_low_surrogate_def)

lemma quote_read: "parse_string (quote_units s @ 34 # r) = Some (s, r)"
proof (induction s rule: quote_units.induct)
  case (3 u v s)
  then show ?case using surrogate_plain [of u] surrogate_plain [of v] by (auto simp: quote_unit_read cons_unit_def)
qed (simp_all add: quote_unit_read cons_unit_def)

lemma json_text_cases [simp]:
  "json_text nt JNull = js_of ''null''"
  "json_text nt (JBool b) = js_of (if b then ''true'' else ''false'')"
  "json_text nt (JNum n) = number_text nt n"
  "json_text nt (JStr s) = quote s"
  "json_text nt (JArr vs) = 91 # elements_text nt vs @ [93]"
  "json_text nt (JObj p symbols ps) = 123 # members_text nt True ps @ [125]"
  by (simp_all add: json_text.simps)

lemma json_tree_cases [simp]:
  "json_tree (JNum n) = json_number n"
  "json_tree (JArr vs) = json_elements vs"
  "json_tree (JObj p symbols ps) = (p = ProtoObject \<and> \<not> symbols \<and> props_ordered ps \<and> json_members ps)"
  "json_tree JUndefined = False" "json_tree JNull" "json_tree (JBool b)" "json_tree (JStr s)"
  "json_tree (JBytes bs) = False" "json_tree JBackRef = False" "json_tree (JOther t) = False"
  "json_elements []" "json_elements (Some v # vs) = (json_tree v \<and> json_elements vs)" "json_elements (None # vs) = False"
  "json_members []" "json_members ((k, v) # ps) = (json_tree v \<and> json_members ps)"
  by (simp_all add: json_tree.simps json_elements.simps json_members.simps)

lemma json_tree_defined [simp]: "json_tree v \<Longrightarrow> v \<noteq> JUndefined"
  by auto

lemma composite_text [simp]:
  "elements_text nt [] = []"
  "v \<noteq> JUndefined \<Longrightarrow>
     elements_text nt (Some v # vs) = json_text nt v @ (if vs = [] then [] else 44 # elements_text nt vs)"
  "members_text nt first [] = []"
  "v \<noteq> JUndefined \<Longrightarrow> members_text nt first ((k, v) # ps) =
     (if first then [] else [44]) @ quote k @ 58 # json_text nt v @ members_text nt False ps"
  by (simp_all add: elements_text.simps members_text.simps)

lemma number_unit_plain:
  assumes "is_number_unit c"
  shows "\<not> is_space c" "c \<notin> {123, 91, 34, 110, 116, 102, 93, 125}" "32 \<le> unat c"
  using assms by (auto simp: is_number_unit_def is_digit_def is_space_def)

lemma json_text_starts:
  assumes "number_format nt nr" "json_tree v"
  obtains c t where "json_text nt v = c # t" "\<not> is_space c" "c \<noteq> 93" "c \<noteq> 125"
proof (cases v)
  case (JNum n)
  have n: "number_ok (number_text nt n)" "list_all is_number_unit (number_text nt n)"
    using number_text_ok [OF assms(1)] assms(2) JNum by auto
  then have "number_text nt n \<noteq> []" by (auto simp: number_ok_def unsigned_part_def Let_def)
  then obtain c t where c: "number_text nt n = c # t" by (cases "number_text nt n") auto
  with n(2) show ?thesis using number_unit_plain [of c] JNum by (intro that [of c t]) auto
next
  case (JBool b)
  then show ?thesis using that by (cases b) (simp_all add: is_space_def js_of_Cons)
qed (use assms that in \<open>auto simp: is_space_def quote_def js_of_Cons\<close>)

lemma members_text_rest:
  "json_members ps \<Longrightarrow> members_text nt False ps = (if ps = [] then [] else 44 # members_text nt True ps)"
  by (cases ps) auto

lemma skip_nonspace: "\<not> is_space c \<Longrightarrow> skip_space (c # s) = c # s"
  by simp

lemma punctuation [simp]:
  "\<not> is_space 123" "\<not> is_space 125" "\<not> is_space 91" "\<not> is_space 93" "\<not> is_space 34" "\<not> is_space 58" "\<not> is_space 44"
  "\<not> is_space 110" "\<not> is_space 116" "\<not> is_space 102"
  "\<not> is_number_unit 93" "\<not> is_number_unit 125" "\<not> is_number_unit 44"
  by (simp_all add: is_space_def is_number_unit_def is_digit_def)

lemma word_read: "parse_word w v (js_of w @ rest) = Some (v, rest)"
  by (simp add: parse_word_def js_of_def)

lemma json_read:
  "number_format nt nr \<Longrightarrow> json_tree v \<Longrightarrow> (is_number_value v \<longrightarrow> rest = [] \<or> \<not> is_number_unit (hd rest)) \<Longrightarrow>
     parse_value nr (json_text nt v @ rest) = Some (v, rest)"
  "number_format nt nr \<Longrightarrow> json_elements vs \<Longrightarrow> vs \<noteq> [] \<Longrightarrow>
     parse_elements nr acc (elements_text nt vs @ 93 # rest) = Some (JArr (acc @ vs), rest)"
  "number_format nt nr \<Longrightarrow> json_members ps \<Longrightarrow> ps \<noteq> [] \<Longrightarrow> props_ordered (qs @ ps) \<Longrightarrow>
     parse_members nr qs (members_text nt True ps @ 125 # rest) = Some (JObj ProtoObject False (qs @ ps), rest)"
proof (induction v and vs and ps arbitrary: rest and acc rest and qs rest rule: json_tree_json_elements_json_members.induct)
  case (1 v)
  show ?case
  proof (cases v)
    case JNull
    then show ?thesis using word_read [of "''null''" JNull rest] by (simp add: parse_value.simps js_of_Cons)
  next
    case (JBool b)
    then show ?thesis
      using word_read [of "''true''" "JBool True" rest] word_read [of "''false''" "JBool False" rest]
      by (cases b) (simp_all add: parse_value.simps js_of_Cons)
  next
    case (JNum n)
    then have n: "parse_number nr (number_text nt n @ rest) = Some (JNum n, rest)"
      using 1(3-5) by (intro number_read) auto
    obtain c t where c: "number_text nt n = c # t"
      using json_text_starts [OF 1(3,4)] JNum by (metis json_text_cases(3))
    then have "is_number_unit c" using number_text_ok [OF 1(3), of n] 1(4) JNum by auto
    then show ?thesis using number_unit_plain [of c] n c JNum by (simp add: parse_value.simps)
  next
    case (JStr s)
    then show ?thesis by (simp add: parse_value.simps quote_def quote_read)
  next
    case (JArr vs)
    show ?thesis
    proof (cases vs)
      case Nil
      then show ?thesis using JArr by (simp add: parse_value.simps)
    next
      case (Cons ov us)
      then obtain u where u: "ov = Some u" "json_tree u" using 1(4) JArr by (cases ov) auto
      have "u \<noteq> JUndefined" using u(2) by auto
      obtain c t where c: "json_text nt u = c # t" "\<not> is_space c" "c \<noteq> 93"
        using json_text_starts [OF 1(3) u(2)] by blast
      then obtain t' where "elements_text nt vs = c # t'"
        using Cons u \<open>u \<noteq> JUndefined\<close> by simp
      then show ?thesis
        using c 1(1) [OF JArr 1(3), of "[]" rest] 1(4) JArr Cons by (simp add: parse_value.simps)
    qed
  next
    case (JObj p symbols ps)
    show ?thesis
    proof (cases ps)
      case Nil
      then show ?thesis using JObj 1(4) by (simp add: parse_value.simps)
    next
      case (Cons kv us)
      obtain k u where kv: "kv = (k, u)" by (cases kv)
      have "u \<noteq> JUndefined" using 1(4) JObj Cons kv by auto
      then obtain t' where "members_text nt True ps = 34 # t'"
        using Cons kv by (simp add: quote_def)
      then show ?thesis
        using 1(2) [OF JObj 1(3), of "[]" rest] 1(4) JObj Cons by (simp add: parse_value.simps)
    qed
  qed (use 1(4) in auto)
next
  case (2 vs)
  then obtain v us where vs: "vs = Some v # us" "json_tree v" "json_elements us"
    by (cases vs rule: list.exhaust; cases "hd vs") auto
  let ?tail = "if us = [] then 93 # rest else 44 # elements_text nt us @ 93 # rest"
  have "v \<noteq> JUndefined" using vs by auto
  then have line: "elements_text nt vs @ 93 # rest = json_text nt v @ ?tail"
    using vs by simp
  have v: "parse_value nr (json_text nt v @ ?tail) = Some (v, ?tail)"
    using vs 2(3) by (intro 2(1)) auto
  have "length ?tail < length (json_text nt v @ ?tail)" by (rule parse_shorter(1) [OF v])
  then show ?case
    unfolding line using v vs 2(2) [OF vs(1), of "acc @ [Some v]" rest] 2(3)
    by (auto simp: parse_elements.simps [of nr acc])
next
  case (3 ps)
  then obtain k v us where ps: "ps = (k, v) # us" "json_tree v" "json_members us"
    by (cases ps) auto
  let ?tail = "if us = [] then 125 # rest else 44 # members_text nt True us @ 125 # rest"
  have "v \<noteq> JUndefined" using ps by auto
  then have line: "members_text nt True ps @ 125 # rest = quote k @ 58 # json_text nt v @ ?tail"
    using ps members_text_rest [OF ps(3), of nt] by simp
  have v: "parse_value nr (json_text nt v @ ?tail) = Some (v, ?tail)"
    using ps 3(3) by (intro 3(1)) auto
  have "length ?tail < length (json_text nt v @ ?tail)" by (rule parse_shorter(1) [OF v])
  moreover have "define_property k v qs = qs @ [(k, v)]"
    using 3(6) ps props_ordered_appendD [of "qs @ [(k, v)]" us] by (intro define_property_last) simp
  ultimately show ?case
    unfolding line using v ps 3(2) [OF ps(1) refl, of "qs @ [(k, v)]" rest] 3(3,6)
    by (auto simp: parse_members.simps [of nr qs] quote_def quote_read)
qed

lemma json_round_trip: "number_format nt nr \<Longrightarrow> json_tree v \<Longrightarrow> json_parse nr (json_text nt v) = Some v"
  using json_read(1) [of nt nr v "[]"] by (simp add: json_parse_def)

text \<open>A text that was cut off is never a JSON text.\<close>

lemma parse_members_object: "parse_members nr ps s = Some (v, r) \<Longrightarrow> \<not> is_number_value v"
proof (induction s arbitrary: ps rule: length_induct)
  case (1 s)
  from 1(2) show ?case
  proof (rule parse_members_Some)
    fix k r0 r1 r2 w t r'
    assume "length r2 < length s" "length t < length r2"
      "skip_space t = 44 # r' \<and> parse_members nr (define_property k w ps) r' = Some (v, r) \<or>
       skip_space t = 125 # r \<and> v = JObj ProtoObject False (define_property k w ps)"
    then show ?thesis
      using 1(1) [rule_format, of r' "define_property k w ps"] skip_space_less [of t 44 r'] by auto
  qed
qed

lemma cut_object_rejected:
  assumes "number_format nt nr" "json_tree (JObj p symbols ps)" "json_text nt (JObj p symbols ps) = a @ b" "b \<noteq> []"
  shows "json_parse nr a = None"
proof (rule ccontr)
  assume "json_parse nr a \<noteq> None"
  then obtain v r where v: "parse_value nr a = Some (v, r)"
    by (auto simp: json_parse_def split: option.splits)
  have "a \<noteq> []" using v by (auto simp: parse_value.simps)
  then obtain t where a: "a = 123 # t" using assms(3) by (cases a) auto
  have "\<not> is_number_value v"
    using v by (cases rule: parse_value_Some) (auto simp: a json_words_def parse_members_object)
  then have "parse_value nr (a @ b) = Some (v, r @ b)" by (intro parse_append(1) [OF v]) simp
  moreover have "parse_value nr (a @ b) = Some (JObj p symbols ps, [])"
    using json_read(1) [OF assms(1,2), of "[]"] assms(3) by simp
  ultimately show False using assms(4) by simp
qed

text \<open>A JSON text has no control characters, so it stays on one line.\<close>

abbreviation printable :: "jsstr \<Rightarrow> bool" where
  "printable s \<equiv> list_all (\<lambda>u. 32 \<le> unat u) s"

lemma hex_unit_printable: "n < 16 \<Longrightarrow> 32 \<le> unat (hex_unit n)"
  by (simp add: hex_unit_def unat_of_nat del: of_nat_add)

lemma quote_units_printable: "printable (quote_units s)"
proof (induction s rule: quote_units.induct)
  have *: "printable (quote_unit u)" for u
    using unsigned_less [of u, where ?'a = nat]
    by (auto simp: quote_unit_def unicode_escape_def hex_unit_printable less_mult_imp_div_less)
  {
    case (2 u)
    then show ?case using * by simp
  next
    case (3 u v s)
    then show ?case using * [of u] surrogate_plain [of u] surrogate_plain [of v] by auto
  }
qed simp

lemma json_text_printable:
  "number_format nt nr \<Longrightarrow> json_tree v \<Longrightarrow> printable (json_text nt v)"
  "number_format nt nr \<Longrightarrow> json_elements vs \<Longrightarrow> printable (elements_text nt vs)"
  "number_format nt nr \<Longrightarrow> json_members ps \<Longrightarrow> printable (members_text nt first ps)"
proof (induction v and vs and ps arbitrary: and and first rule: json_tree_json_elements_json_members.induct)
  case (1 v)
  show ?case
  proof (cases v)
    case (JNum n)
    then have "list_all is_number_unit (number_text nt n)" using number_text_ok [OF 1(3)] 1(4) by simp
    then show ?thesis using JNum number_unit_plain(3) by (auto simp: list_all_iff)
  qed (use 1 in \<open>auto simp: js_of_Cons js_of_def quote_def quote_units_printable\<close>)
next
  case (2 vs)
  then show ?case by (auto simp: elements_text.simps [of nt vs] js_of_def split: list.splits option.splits)
next
  case (3 ps)
  then show ?case by (auto simp: members_text.simps [of nt _ ps] quote_def quote_units_printable split: list.splits)
qed

end
