(* ===== verification/Session_Json.thy ===== *)
theory Session_Json
  imports Session_Types Json_Text "HOL-Library.Monad_Syntax"
begin

text \<open>
  The JavaScript objects behind the session types (packages/agent/src/harness/session/types.ts,
  packages/ai/src/types.ts, packages/agent/src/harness/messages.ts). TypeScript's types are erased
  at run time: an entry or record of the model stands for one object, \<open>json_of_\<dots>\<close> is that object
  and \<open>\<dots>_of_json\<close> the reading of an object of the declared shape, \<open>None\<close> for an object that does
  not have it (the source casts such an object without looking). The theorem is that reading the
  object of a value gives the value back.
\<close>

section \<open>Properties of objects\<close>

definition field :: "string \<Rightarrow> jsval option \<Rightarrow> props \<Rightarrow> props" where
  "field k v ps = (case v of None \<Rightarrow> ps | Some x \<Rightarrow> (js_of k, x) # ps)"

abbreviation obj :: "props \<Rightarrow> jsval" where
  "obj ps \<equiv> JObj ProtoObject False ps"

text \<open>Reading a property: \<open>undefined\<close> when there is none.\<close>

definition property :: "props \<Rightarrow> string \<Rightarrow> jsval" where
  "property ps k = (case map_of ps (js_of k) of None \<Rightarrow> JUndefined | Some v \<Rightarrow> v)"

definition without :: "string list \<Rightarrow> props \<Rightarrow> props" where
  "without ks ps = filter (\<lambda>p. fst p \<notin> js_of ` set ks) ps"

definition lacks :: "string list \<Rightarrow> props \<Rightarrow> bool" where
  "lacks ks ps \<longleftrightarrow> list_all (\<lambda>k. map_of ps (js_of k) = None) ks"

lemma char_unit_mod [simp]: "of_char c mod 65536 = (of_char c :: nat)"
  using nat_of_char_less_256 [of c] by (intro mod_less) linarith

lemma unat_char_unit: "unat (word_of_nat (of_char c) :: code_unit) = of_char c"
  by (simp add: unat_of_nat)

lemma js_of_inject [simp]: "js_of s = js_of t \<longleftrightarrow> s = t"
proof -
  have "inj (\<lambda>c. word_of_nat (of_char c) :: code_unit)"
    by (rule injI) (metis unat_char_unit of_char_eq_iff)
  then show ?thesis by (auto simp: js_of_def inj_map_eq_map)
qed

definition present_or :: "'a option \<Rightarrow> 'a \<Rightarrow> 'a" where
  "present_or v d = (case v of None \<Rightarrow> d | Some x \<Rightarrow> x)"

lemma present_or_simps [simp]: "present_or None d = d" "present_or (Some x) d = x"
  by (simp_all add: present_or_def)

lemma property_field [simp]: "property (field k v ps) k' = (if k = k' then present_or v (property ps k') else property ps k')"
  by (auto simp: property_def field_def split: option.splits)

lemma property_Nil [simp]: "property [] k = JUndefined"
  by (simp add: property_def)

lemma property_lacks: "lacks ks ps \<Longrightarrow> k \<in> set ks \<Longrightarrow> property ps k = JUndefined"
  by (auto simp: property_def lacks_def list_all_iff)

lemma without_field [simp]: "k \<in> set ks \<Longrightarrow> without ks (field k v ps) = without ks ps"
  by (auto simp: without_def field_def split: option.splits)

lemma without_lacks [simp]: "lacks ks ps \<Longrightarrow> without ks ps = ps"
  by (induction ps) (auto simp: without_def lacks_def list_all_iff filter_id_conv split: if_splits)

section \<open>Plain values\<close>

definition string_of :: "jsstr \<Rightarrow> string option" where
  "string_of s = (if list_all (\<lambda>u. unat u < 256) s then Some (map (\<lambda>u. char_of (unat u)) s) else None)"

abbreviation str :: "string \<Rightarrow> jsval" where
  "str s \<equiv> JStr (js_of s)"

abbreviation num :: "int \<Rightarrow> jsval" where
  "num i \<equiv> JNum (Integral i)"

fun str_of_json :: "jsval \<Rightarrow> string option" where
  "str_of_json (JStr s) = string_of s"
| "str_of_json _ = None"

fun int_of_json :: "jsval \<Rightarrow> int option" where
  "int_of_json (JNum (Integral i)) = Some i"
| "int_of_json _ = None"

definition nat_of_json :: "jsval \<Rightarrow> nat option" where
  "nat_of_json v = do {i \<leftarrow> int_of_json v; if i < 0 then None else Some (nat i)}"

fun bool_of_json :: "jsval \<Rightarrow> bool option" where
  "bool_of_json (JBool b) = Some b"
| "bool_of_json _ = None"

fun props_of_json :: "jsval \<Rightarrow> props option" where
  "props_of_json (JObj p symbols ps) = Some ps"
| "props_of_json _ = None"

definition optional :: "(jsval \<Rightarrow> 'a option) \<Rightarrow> jsval \<Rightarrow> 'a option option" where
  "optional dec v = (if v = JUndefined then Some None else map_option Some (dec v))"

definition nullable :: "(jsval \<Rightarrow> 'a option) \<Rightarrow> jsval \<Rightarrow> 'a option option" where
  "nullable dec v = (if v = JNull then Some None else map_option Some (dec v))"

definition flag_of_json :: "jsval \<Rightarrow> bool option" where
  "flag_of_json v = map_option (\<lambda>b. b = Some True) (optional bool_of_json v)"

definition null_or :: "string option \<Rightarrow> jsval" where
  "null_or x = (case x of None \<Rightarrow> JNull | Some s \<Rightarrow> str s)"

definition arr :: "('a \<Rightarrow> jsval) \<Rightarrow> 'a list \<Rightarrow> jsval" where
  "arr enc xs = JArr (map (\<lambda>x. Some (enc x)) xs)"

fun arr_of_json :: "(jsval \<Rightarrow> 'a option) \<Rightarrow> jsval \<Rightarrow> 'a list option" where
  "arr_of_json dec (JArr vs) = those (map (\<lambda>v. Option.bind v dec) vs)"
| "arr_of_json dec _ = None"

definition name_of_json :: "(string \<times> 'a) list \<Rightarrow> jsval \<Rightarrow> 'a option" where
  "name_of_json names v = Option.bind (str_of_json v) (map_of names)"

lemma string_of_js_of [simp]: "string_of (js_of s) = Some s"
  by (auto simp: string_of_def js_of_def list_all_iff comp_def)

lemma plain_read [simp]:
  "nat_of_json (num (int n)) = Some n"
  "optional dec JUndefined = Some None"
  "v \<noteq> JUndefined \<Longrightarrow> optional dec v = map_option Some (dec v)"
  "nullable str_of_json (null_or x) = Some x"
  "name_of_json names (str s) = map_of names s"
  by (simp_all add: nat_of_json_def optional_def nullable_def null_or_def name_of_json_def split: option.split)

lemma arr_read [simp]: "(\<And>x. x \<in> set xs \<Longrightarrow> dec (enc x) = Some x) \<Longrightarrow> arr_of_json dec (arr enc xs) = Some xs"
  by (induction xs) (auto simp: arr_def)

section \<open>Usage\<close>

fun bit_length :: "nat \<Rightarrow> nat" where
  "bit_length n = (if n = 0 then 0 else Suc (bit_length (n div 2)))"

declare bit_length.simps [simp del]

text \<open>The double that holds a number.\<close>

definition int_bits :: "int \<Rightarrow> 64 word" where
  "int_bits i =
     (if i = 0 then 0
      else let n = nat \<bar>i\<bar>; e = bit_length n - 1;
               f = (if e \<le> 52 then n * 2 ^ (52 - e) else n div 2 ^ (e - 52)) in
        word_of_nat ((if i < 0 then 2 ^ 63 else 0) + (e + 1023) * 2 ^ 52 + (f - 2 ^ 52)))"

fun number_bits :: "jsval \<Rightarrow> 64 word option" where
  "number_bits (JNum (Integral i)) = Some (int_bits i)"
| "number_bits (JNum (Fractional b)) = Some b"
| "number_bits _ = None"

definition cost_total :: "props \<Rightarrow> 64 word option" where
  "cost_total ps = do {c \<leftarrow> props_of_json (property ps ''cost''); number_bits (property c ''total'')}"

abbreviation usage_keys :: "string list" where
  "usage_keys \<equiv> [''input'', ''output'', ''cacheRead'', ''cacheWrite'', ''totalTokens'']"

text \<open>\<open>u_rest\<close> holds the other properties, \<open>cost\<close> among them; \<open>u_costTotal\<close> is its \<open>total\<close>.\<close>

definition json_of_usage :: "usage \<Rightarrow> jsval" where
  "json_of_usage u = obj (field ''input'' (Some (num (u_input u))) (field ''output'' (Some (num (u_output u)))
     (field ''cacheRead'' (Some (num (u_cacheRead u))) (field ''cacheWrite'' (Some (num (u_cacheWrite u)))
     (field ''totalTokens'' (Some (num (u_totalTokens u))) (u_rest u))))))"

definition usage_of_json :: "jsval \<Rightarrow> usage option" where
  "usage_of_json v = do {
     ps \<leftarrow> props_of_json v;
     i \<leftarrow> int_of_json (property ps ''input'');
     out \<leftarrow> int_of_json (property ps ''output'');
     cr \<leftarrow> int_of_json (property ps ''cacheRead'');
     cw \<leftarrow> int_of_json (property ps ''cacheWrite'');
     total \<leftarrow> int_of_json (property ps ''totalTokens'');
     cost \<leftarrow> cost_total ps;
     Some \<lparr>u_input = i, u_output = out, u_cacheRead = cr, u_cacheWrite = cw, u_totalTokens = total, u_costTotal = cost,
       u_rest = without usage_keys ps\<rparr>}"

definition usage_ok :: "usage \<Rightarrow> bool" where
  "usage_ok u \<longleftrightarrow> lacks usage_keys (u_rest u) \<and> cost_total (u_rest u) = Some (u_costTotal u)"

lemma cost_total_field [simp]: "k \<noteq> ''cost'' \<Longrightarrow> cost_total (field k v ps) = cost_total ps"
  by (simp add: cost_total_def)

lemma usage_read [simp]: "usage_ok u \<Longrightarrow> usage_of_json (json_of_usage u) = Some u"
  by (simp add: usage_of_json_def json_of_usage_def usage_ok_def)

section \<open>Messages\<close>

abbreviation stop_names :: "(string \<times> stop_reason) list" where
  "stop_names \<equiv> [(''pending'', StopPending), (''stop'', StopStop), (''length'', StopLength), (''toolUse'', StopToolUse),
     (''error'', StopError), (''aborted'', StopAborted), (''deferred'', StopDeferred)]"

fun stop_name :: "stop_reason \<Rightarrow> string" where
  "stop_name StopPending = ''pending''"
| "stop_name StopStop = ''stop''"
| "stop_name StopLength = ''length''"
| "stop_name StopToolUse = ''toolUse''"
| "stop_name StopError = ''error''"
| "stop_name StopAborted = ''aborted''"
| "stop_name StopDeferred = ''deferred''"

definition stop_of_json :: "jsval \<Rightarrow> stop_reason option" where
  "stop_of_json v = name_of_json stop_names v"

lemma stop_read [simp]: "stop_of_json (str (stop_name r)) = Some r"
  by (cases r) (simp_all add: stop_of_json_def)

abbreviation handle_keys :: "string list" where
  "handle_keys \<equiv> [''provider'', ''modelId'', ''api'', ''id'']"

definition json_of_handle :: "deferred_handle \<Rightarrow> jsval" where
  "json_of_handle h = obj (field ''provider'' (Some (str (dh_provider h))) (field ''modelId'' (Some (str (dh_modelId h)))
     (field ''api'' (Some (str (dh_api h))) (field ''id'' (Some (str (dh_id h))) (dh_rest h)))))"

definition handle_of_json :: "jsval \<Rightarrow> deferred_handle option" where
  "handle_of_json v = do {
     ps \<leftarrow> props_of_json v;
     p \<leftarrow> str_of_json (property ps ''provider'');
     m \<leftarrow> str_of_json (property ps ''modelId'');
     a \<leftarrow> str_of_json (property ps ''api'');
     i \<leftarrow> str_of_json (property ps ''id'');
     Some \<lparr>dh_provider = p, dh_modelId = m, dh_api = a, dh_id = i, dh_rest = without handle_keys ps\<rparr>}"

lemma handle_read [simp]: "lacks handle_keys (dh_rest h) \<Longrightarrow> handle_of_json (json_of_handle h) = Some h"
  by (simp add: handle_of_json_def json_of_handle_def)

abbreviation call_keys :: "string list" where
  "call_keys \<equiv> [''type'', ''id'', ''name'', ''arguments'']"

fun json_of_content :: "assistant_content \<Rightarrow> jsval" where
  "json_of_content (TextPart t rest) = obj (field ''type'' (Some (str ''text'')) (field ''text'' (Some (str t)) rest))"
| "json_of_content (ThinkingPart t rest) =
     obj (field ''type'' (Some (str ''thinking'')) (field ''thinking'' (Some (str t)) rest))"
| "json_of_content (ToolCallPart c) =
     obj (field ''type'' (Some (str ''toolCall'')) (field ''id'' (Some (str (tc_id c)))
       (field ''name'' (Some (str (tc_name c))) (field ''arguments'' (Some (tc_arguments c)) (tc_rest c)))))"

definition content_of_json :: "jsval \<Rightarrow> assistant_content option" where
  "content_of_json v = do {
     ps \<leftarrow> props_of_json v;
     type \<leftarrow> str_of_json (property ps ''type'');
     if type = ''text'' then do {
       t \<leftarrow> str_of_json (property ps ''text'');
       Some (TextPart t (without [''type'', ''text''] ps))}
     else if type = ''thinking'' then do {
       t \<leftarrow> str_of_json (property ps ''thinking'');
       Some (ThinkingPart t (without [''type'', ''thinking''] ps))}
     else if type = ''toolCall'' then do {
       i \<leftarrow> str_of_json (property ps ''id'');
       n \<leftarrow> str_of_json (property ps ''name'');
       Some (ToolCallPart \<lparr>tc_id = i, tc_name = n, tc_arguments = property ps ''arguments'', tc_rest = without call_keys ps\<rparr>)}
     else None}"

fun content_ok :: "assistant_content \<Rightarrow> bool" where
  "content_ok (TextPart t rest) = lacks [''type'', ''text''] rest"
| "content_ok (ThinkingPart t rest) = lacks [''type'', ''thinking''] rest"
| "content_ok (ToolCallPart c) = lacks call_keys (tc_rest c)"

lemma content_read [simp]: "content_ok c \<Longrightarrow> content_of_json (json_of_content c) = Some c"
  by (cases c) (simp_all add: content_of_json_def)

abbreviation assistant_keys :: "string list" where
  "assistant_keys \<equiv> [''role'', ''content'', ''api'', ''provider'', ''model'', ''usage'', ''stopReason'', ''deferred'',
     ''errorMessage'', ''timestamp'']"

abbreviation result_keys :: "string list" where
  "result_keys \<equiv> [''role'', ''toolCallId'', ''toolName'', ''content'', ''isError'', ''timestamp'']"

definition flag :: "bool \<Rightarrow> jsval option" where
  "flag b = (if b then Some (JBool True) else None)"

definition assistant_props :: "assistant_message \<Rightarrow> props" where
  "assistant_props m = (field ''role'' (Some (str ''assistant'')) (field ''content'' (Some (arr json_of_content (am_content m)))
     (field ''api'' (Some (str (am_api m))) (field ''provider'' (Some (str (am_provider m))) (field ''model'' (Some (str (am_model m)))
     (field ''usage'' (Some (json_of_usage (am_usage m))) (field ''stopReason'' (Some (str (stop_name (am_stopReason m))))
     (field ''deferred'' (map_option json_of_handle (am_deferred m)) (field ''errorMessage'' (map_option str (am_errorMessage m))
     (field ''timestamp'' (Some (num (am_timestamp m))) (am_rest m)))))))))))"

definition assistant_of_props :: "props \<Rightarrow> assistant_message option" where
  "assistant_of_props ps = do {
     content \<leftarrow> arr_of_json content_of_json (property ps ''content'');
     api \<leftarrow> str_of_json (property ps ''api'');
     provider \<leftarrow> str_of_json (property ps ''provider'');
     model \<leftarrow> str_of_json (property ps ''model'');
     usage \<leftarrow> usage_of_json (property ps ''usage'');
     stop \<leftarrow> stop_of_json (property ps ''stopReason'');
     deferred \<leftarrow> optional handle_of_json (property ps ''deferred'');
     errorMessage \<leftarrow> optional str_of_json (property ps ''errorMessage'');
     timestamp \<leftarrow> int_of_json (property ps ''timestamp'');
     Some \<lparr>am_content = content, am_api = api, am_provider = provider, am_model = model, am_usage = usage,
       am_stopReason = stop, am_deferred = deferred, am_errorMessage = errorMessage, am_timestamp = timestamp,
       am_rest = without assistant_keys ps\<rparr>}"

definition assistant_ok :: "assistant_message \<Rightarrow> bool" where
  "assistant_ok m \<longleftrightarrow> list_all content_ok (am_content m) \<and> usage_ok (am_usage m) \<and> lacks assistant_keys (am_rest m) \<and>
     (case am_deferred m of None \<Rightarrow> True | Some h \<Rightarrow> lacks handle_keys (dh_rest h))"

lemma json_defined [simp]:
  "json_of_usage u \<noteq> JUndefined" "json_of_handle h \<noteq> JUndefined" "arr enc xs \<noteq> JUndefined"
  by (simp_all add: json_of_usage_def json_of_handle_def arr_def)

lemma optional_read [simp]:
  "(\<And>y. x = Some y \<Longrightarrow> dec (enc y) = Some y) \<Longrightarrow> (\<And>y. x = Some y \<Longrightarrow> enc y \<noteq> JUndefined) \<Longrightarrow>
     optional dec (present_or (map_option enc x) JUndefined) = Some x"
  by (cases x) simp_all

lemma assistant_read [simp]:
  assumes "assistant_ok m"
  shows "assistant_of_props (assistant_props m) = Some m"
proof -
  have none: "property (am_rest m) ''deferred'' = JUndefined" "property (am_rest m) ''errorMessage'' = JUndefined"
    using assms by (auto simp: assistant_ok_def intro: property_lacks [where ks = assistant_keys])
  have ok: "\<And>c. c \<in> set (am_content m) \<Longrightarrow> content_ok c" "usage_ok (am_usage m)" "lacks assistant_keys (am_rest m)"
    "\<And>h. am_deferred m = Some h \<Longrightarrow> lacks handle_keys (dh_rest h)"
    using assms by (auto simp: assistant_ok_def list_all_iff)
  show ?thesis by (simp add: assistant_of_props_def assistant_props_def none ok)
qed

lemma assistant_role [simp]: "property (assistant_props m) ''role'' = str ''assistant''"
  by (simp add: assistant_props_def)

fun message_props :: "agent_message \<Rightarrow> props" where
  "message_props (UserMessage c t) =
     field ''role'' (Some (str ''user'')) (field ''content'' (Some c) (field ''timestamp'' (Some (num t)) []))"
| "message_props (AssistantMessage m) = assistant_props m"
| "message_props (ToolResultMessage i n c e t rest) =
     field ''role'' (Some (str ''toolResult'')) (field ''toolCallId'' (Some (str i)) (field ''toolName'' (Some (str n))
       (field ''content'' (Some c) (field ''isError'' (Some (JBool e)) (field ''timestamp'' (Some (num t)) rest)))))"
| "message_props (BashExecutionMessage c out x ca tr p t ex) =
     field ''role'' (Some (str ''bashExecution'')) (field ''command'' (Some (str c)) (field ''output'' (Some (str out))
       (field ''exitCode'' (map_option num x) (field ''cancelled'' (Some (JBool ca)) (field ''truncated'' (Some (JBool tr))
       (field ''fullOutputPath'' (map_option str p) (field ''timestamp'' (Some (num t))
       (field ''excludeFromContext'' (flag ex) []))))))))"
| "message_props (CustomMessage ct c d de t) =
     field ''role'' (Some (str ''custom'')) (field ''customType'' (Some (str ct)) (field ''content'' (Some c)
       (field ''display'' (Some (JBool d)) (field ''details'' de (field ''timestamp'' (Some (num t)) [])))))"
| "message_props (BranchSummaryMessage s f t) =
     field ''role'' (Some (str ''branchSummary'')) (field ''summary'' (Some (str s)) (field ''fromId'' (Some (str f))
       (field ''timestamp'' (Some (num t)) [])))"
| "message_props (CompactionSummaryMessage s n t) =
     field ''role'' (Some (str ''compactionSummary'')) (field ''summary'' (Some (str s)) (field ''tokensBefore'' (Some (num n))
       (field ''timestamp'' (Some (num t)) [])))"

abbreviation json_of_message :: "agent_message \<Rightarrow> jsval" where
  "json_of_message m \<equiv> obj (message_props m)"

definition message_of_json :: "jsval \<Rightarrow> agent_message option" where
  "message_of_json v = do {
     ps \<leftarrow> props_of_json v;
     role \<leftarrow> str_of_json (property ps ''role'');
     t \<leftarrow> int_of_json (property ps ''timestamp'');
     if role = ''user'' then Some (UserMessage (property ps ''content'') t)
     else if role = ''assistant'' then map_option AssistantMessage (assistant_of_props ps)
     else if role = ''toolResult'' then do {
       i \<leftarrow> str_of_json (property ps ''toolCallId'');
       n \<leftarrow> str_of_json (property ps ''toolName'');
       e \<leftarrow> bool_of_json (property ps ''isError'');
       Some (ToolResultMessage i n (property ps ''content'') e t (without result_keys ps))}
     else if role = ''bashExecution'' then do {
       c \<leftarrow> str_of_json (property ps ''command'');
       out \<leftarrow> str_of_json (property ps ''output'');
       x \<leftarrow> optional int_of_json (property ps ''exitCode'');
       ca \<leftarrow> bool_of_json (property ps ''cancelled'');
       tr \<leftarrow> bool_of_json (property ps ''truncated'');
       p \<leftarrow> optional str_of_json (property ps ''fullOutputPath'');
       ex \<leftarrow> flag_of_json (property ps ''excludeFromContext'');
       Some (BashExecutionMessage c out x ca tr p t ex)}
     else if role = ''custom'' then do {
       ct \<leftarrow> str_of_json (property ps ''customType'');
       d \<leftarrow> bool_of_json (property ps ''display'');
       de \<leftarrow> optional Some (property ps ''details'');
       Some (CustomMessage ct (property ps ''content'') d de t)}
     else if role = ''branchSummary'' then do {
       s \<leftarrow> str_of_json (property ps ''summary'');
       f \<leftarrow> str_of_json (property ps ''fromId'');
       Some (BranchSummaryMessage s f t)}
     else if role = ''compactionSummary'' then do {
       s \<leftarrow> str_of_json (property ps ''summary'');
       n \<leftarrow> int_of_json (property ps ''tokensBefore'');
       Some (CompactionSummaryMessage s n t)}
     else None}"

fun message_ok :: "agent_message \<Rightarrow> bool" where
  "message_ok (AssistantMessage m) = assistant_ok m"
| "message_ok (ToolResultMessage i n c e t rest) = lacks result_keys rest"
| "message_ok (CustomMessage ct c d de t) = (de \<noteq> Some JUndefined)"
| "message_ok _ = True"

lemma assistant_time [simp]: "property (assistant_props m) ''timestamp'' = num (am_timestamp m)"
  by (simp add: assistant_props_def)

lemma flag_read [simp]: "flag_of_json (present_or (flag b) JUndefined) = Some b"
  by (simp add: flag_of_json_def flag_def)

lemma details_read [simp]: "d \<noteq> Some JUndefined \<Longrightarrow> optional Some (present_or d JUndefined) = Some d"
  by (cases d) simp_all

lemma message_read [simp]: "message_ok m \<Longrightarrow> message_of_json (json_of_message m) = Some m"
  by (cases m) (simp_all add: message_of_json_def)

section \<open>Entries\<close>

abbreviation entry_type_names :: "(string \<times> entry_type) list" where
  "entry_type_names \<equiv> [(''message'', TypeMessage), (''model_change'', TypeModelChange),
     (''thinking_level_change'', TypeThinkingLevelChange), (''active_tools_change'', TypeActiveToolsChange),
     (''compaction'', TypeCompaction), (''branch_summary'', TypeBranchSummary), (''custom'', TypeCustom)]"

fun entry_type_name :: "entry_type \<Rightarrow> string" where
  "entry_type_name TypeMessage = ''message''"
| "entry_type_name TypeModelChange = ''model_change''"
| "entry_type_name TypeThinkingLevelChange = ''thinking_level_change''"
| "entry_type_name TypeActiveToolsChange = ''active_tools_change''"
| "entry_type_name TypeCompaction = ''compaction''"
| "entry_type_name TypeBranchSummary = ''branch_summary''"
| "entry_type_name TypeCustom = ''custom''"

text \<open>The properties of an entry besides \<open>id\<close>, \<open>type\<close>, \<open>parentId\<close>, \<open>seq\<close> and \<open>timestamp\<close>.\<close>

fun entry_data_props :: "entry_data \<Rightarrow> props \<Rightarrow> props" where
  "entry_data_props (MessageEntry m t) ps = field ''message'' (Some (json_of_message m)) (field ''terminate'' (flag t) ps)"
| "entry_data_props (ModelChangeEntry p i) ps = field ''provider'' (Some (str p)) (field ''modelId'' (Some (str i)) ps)"
| "entry_data_props (ThinkingLevelEntry l) ps = field ''thinkingLevel'' (Some (str l)) ps"
| "entry_data_props (ActiveToolsEntry ns) ps = field ''activeToolNames'' (Some (arr str ns)) ps"
| "entry_data_props (CompactionEntry s r t d u) ps =
     field ''summary'' (Some (str s)) (field ''retainedTail'' (Some (arr json_of_message r)) (field ''tokensBefore'' (Some (num t))
       (field ''details'' d (field ''usage'' (map_option json_of_usage u) ps))))"
| "entry_data_props (BranchSummaryEntry f s d u) ps =
     field ''fromId'' (Some (str f)) (field ''summary'' (Some (str s)) (field ''details'' d
       (field ''usage'' (map_option json_of_usage u) ps)))"
| "entry_data_props (CustomEntry t d) ps = field ''customType'' (Some (str t)) (field ''data'' d ps)"

definition entry_data_of :: "entry_type \<Rightarrow> props \<Rightarrow> entry_data option" where
  "entry_data_of type ps =
     (case type of
        TypeMessage \<Rightarrow> do {
          m \<leftarrow> message_of_json (property ps ''message'');
          t \<leftarrow> flag_of_json (property ps ''terminate'');
          Some (MessageEntry m t)}
      | TypeModelChange \<Rightarrow> do {
          p \<leftarrow> str_of_json (property ps ''provider'');
          i \<leftarrow> str_of_json (property ps ''modelId'');
          Some (ModelChangeEntry p i)}
      | TypeThinkingLevelChange \<Rightarrow> map_option ThinkingLevelEntry (str_of_json (property ps ''thinkingLevel''))
      | TypeActiveToolsChange \<Rightarrow> map_option ActiveToolsEntry (arr_of_json str_of_json (property ps ''activeToolNames''))
      | TypeCompaction \<Rightarrow> do {
          s \<leftarrow> str_of_json (property ps ''summary'');
          r \<leftarrow> arr_of_json message_of_json (property ps ''retainedTail'');
          t \<leftarrow> int_of_json (property ps ''tokensBefore'');
          d \<leftarrow> optional Some (property ps ''details'');
          u \<leftarrow> optional usage_of_json (property ps ''usage'');
          Some (CompactionEntry s r t d u)}
      | TypeBranchSummary \<Rightarrow> do {
          f \<leftarrow> str_of_json (property ps ''fromId'');
          s \<leftarrow> str_of_json (property ps ''summary'');
          d \<leftarrow> optional Some (property ps ''details'');
          u \<leftarrow> optional usage_of_json (property ps ''usage'');
          Some (BranchSummaryEntry f s d u)}
      | TypeCustom \<Rightarrow> do {
          t \<leftarrow> str_of_json (property ps ''customType'');
          d \<leftarrow> optional Some (property ps ''data'');
          Some (CustomEntry t d)})"

fun entry_data_ok :: "entry_data \<Rightarrow> bool" where
  "entry_data_ok (MessageEntry m t) = message_ok m"
| "entry_data_ok (CompactionEntry s r t d u) = (list_all message_ok r \<and> d \<noteq> Some JUndefined \<and> pred_option usage_ok u)"
| "entry_data_ok (BranchSummaryEntry f s d u) = (d \<noteq> Some JUndefined \<and> pred_option usage_ok u)"
| "entry_data_ok (CustomEntry t d) = (d \<noteq> Some JUndefined)"
| "entry_data_ok _ = True"

abbreviation data_keys :: "string list" where
  "data_keys \<equiv> [''terminate'', ''details'', ''usage'', ''data'']"

lemma usage_option_read [simp]:
  "pred_option usage_ok u \<Longrightarrow> optional usage_of_json (present_or (map_option json_of_usage u) JUndefined) = Some u"
  by (cases u) simp_all

lemma entry_data_read [simp]:
  assumes "entry_data_ok d" "lacks data_keys ps"
  shows "entry_data_of (entry_type_of d) (entry_data_props d ps) = Some d"
proof -
  have "\<And>k. k \<in> set data_keys \<Longrightarrow> property ps k = JUndefined" using property_lacks [OF assms(2)] by blast
  then show ?thesis using assms(1) by (cases d) (simp_all add: entry_data_of_def list_all_iff)
qed

abbreviation entry_keys :: "string list" where
  "entry_keys \<equiv> [''message'', ''terminate'', ''provider'', ''modelId'', ''thinkingLevel'', ''activeToolNames'', ''summary'',
     ''retainedTail'', ''tokensBefore'', ''details'', ''usage'', ''fromId'', ''customType'', ''data'']"

lemma entry_data_base [simp]: "k \<notin> set entry_keys \<Longrightarrow> property (entry_data_props d ps) k = property ps k"
  by (cases d) auto

lemma entry_data_of_base [simp]: "k \<notin> set entry_keys \<Longrightarrow> entry_data_of type (field k v ps) = entry_data_of type ps"
  by (cases type) (simp_all add: entry_data_of_def)

lemma lacks_simps [simp]: "lacks ks []" "k \<notin> set ks \<Longrightarrow> lacks ks (field k v ps) = lacks ks ps"
  by (auto simp: lacks_def field_def list_all_iff split: option.split)

lemma entry_type_read [simp]: "map_of entry_type_names (entry_type_name t) = Some t"
  by (cases t) simp_all

definition json_of_provisioned :: "provisioned_entry \<Rightarrow> jsval" where
  "json_of_provisioned pe =
     obj (field ''id'' (Some (str (p_id pe))) (field ''type'' (Some (str (entry_type_name (entry_type_of (p_data pe)))))
       (entry_data_props (p_data pe) [])))"

definition provisioned_of_json :: "jsval \<Rightarrow> provisioned_entry option" where
  "provisioned_of_json v = do {
     ps \<leftarrow> props_of_json v;
     i \<leftarrow> str_of_json (property ps ''id'');
     name \<leftarrow> str_of_json (property ps ''type'');
     type \<leftarrow> map_of entry_type_names name;
     d \<leftarrow> entry_data_of type ps;
     Some \<lparr>p_id = i, p_data = d\<rparr>}"

lemma provisioned_read [simp]: "entry_data_ok (p_data pe) \<Longrightarrow> provisioned_of_json (json_of_provisioned pe) = Some pe"
  by (simp add: provisioned_of_json_def json_of_provisioned_def del: map_of.simps)

section \<open>Operation records\<close>

fun json_of_intent :: "operation_intent \<Rightarrow> jsval" where
  "json_of_intent (RunIntent ps es o1 r) =
     obj (field ''kind'' (Some (str ''run'')) (field ''originalPrompt'' (Some (arr json_of_message ps))
       (field ''initialMessages'' (Some (arr json_of_provisioned es)) (field ''systemPromptOverride'' (map_option str o1)
       (field ''resumeData'' r [])))))"
| "json_of_intent (CompactionIntent ci r) =
     obj (field ''kind'' (Some (str ''compaction'')) (field ''customInstructions'' (map_option str ci)
       (field ''resultEntryId'' (Some (str r)) [])))"
| "json_of_intent (NavigationIntent t s ci l e) =
     obj (field ''kind'' (Some (str ''navigation'')) (field ''targetId'' (Some (null_or t)) (field ''summarize'' (Some (JBool s))
       (field ''customInstructions'' (map_option str ci) (field ''label'' (map_option str l)
       (field ''summaryEntryId'' (map_option str e) []))))))"

definition intent_of_json :: "jsval \<Rightarrow> operation_intent option" where
  "intent_of_json v = do {
     ps \<leftarrow> props_of_json v;
     kind \<leftarrow> str_of_json (property ps ''kind'');
     if kind = ''run'' then do {
       ms \<leftarrow> arr_of_json message_of_json (property ps ''originalPrompt'');
       es \<leftarrow> arr_of_json provisioned_of_json (property ps ''initialMessages'');
       o1 \<leftarrow> optional str_of_json (property ps ''systemPromptOverride'');
       r \<leftarrow> optional Some (property ps ''resumeData'');
       Some (RunIntent ms es o1 r)}
     else if kind = ''compaction'' then do {
       ci \<leftarrow> optional str_of_json (property ps ''customInstructions'');
       r \<leftarrow> str_of_json (property ps ''resultEntryId'');
       Some (CompactionIntent ci r)}
     else if kind = ''navigation'' then do {
       t \<leftarrow> nullable str_of_json (property ps ''targetId'');
       s \<leftarrow> bool_of_json (property ps ''summarize'');
       ci \<leftarrow> optional str_of_json (property ps ''customInstructions'');
       l \<leftarrow> optional str_of_json (property ps ''label'');
       e \<leftarrow> optional str_of_json (property ps ''summaryEntryId'');
       Some (NavigationIntent t s ci l e)}
     else None}"

fun intent_ok :: "operation_intent \<Rightarrow> bool" where
  "intent_ok (RunIntent ps es o1 r) =
     (list_all message_ok ps \<and> list_all (\<lambda>e. entry_data_ok (p_data e)) es \<and> r \<noteq> Some JUndefined)"
| "intent_ok _ = True"

lemma provisioned_defined [simp]: "json_of_provisioned e \<noteq> JUndefined" "null_or x \<noteq> JUndefined"
  by (simp_all add: json_of_provisioned_def null_or_def split: option.split)

lemma intent_read [simp]: "intent_ok i \<Longrightarrow> intent_of_json (json_of_intent i) = Some i"
  by (cases i) (simp_all add: intent_of_json_def list_all_iff)

definition outcome_of_json :: "jsval \<Rightarrow> operation_outcome option" where
  "outcome_of_json v = name_of_json [(''completed'', OutcomeCompleted), (''aborted'', OutcomeAborted), (''failed'', OutcomeFailed),
     (''declined'', OutcomeDeclined)] v"

fun outcome_name :: "operation_outcome \<Rightarrow> string" where
  "outcome_name OutcomeCompleted = ''completed''"
| "outcome_name OutcomeAborted = ''aborted''"
| "outcome_name OutcomeFailed = ''failed''"
| "outcome_name OutcomeDeclined = ''declined''"

definition step_of_json :: "jsval \<Rightarrow> step_kind option" where
  "step_of_json v = name_of_json [(''assistant'', StepAssistant), (''compaction'', StepCompaction), (''branch_summary'', StepBranchSummary)] v"

fun step_name :: "step_kind \<Rightarrow> string" where
  "step_name StepAssistant = ''assistant''"
| "step_name StepCompaction = ''compaction''"
| "step_name StepBranchSummary = ''branch_summary''"

definition queue_of_json :: "jsval \<Rightarrow> queue_kind option" where
  "queue_of_json v = name_of_json [(''steer'', QueueSteer), (''followUp'', QueueFollowUp), (''nextRun'', QueueNextRun)] v"

fun queue_name :: "queue_kind \<Rightarrow> string" where
  "queue_name QueueSteer = ''steer''"
| "queue_name QueueFollowUp = ''followUp''"
| "queue_name QueueNextRun = ''nextRun''"

definition replay_of_json :: "jsval \<Rightarrow> replay_mode option" where
  "replay_of_json v = name_of_json [(''never'', ReplayNever), (''safe'', ReplaySafe)] v"

fun replay_name :: "replay_mode \<Rightarrow> string" where
  "replay_name ReplayNever = ''never''"
| "replay_name ReplaySafe = ''safe''"

lemma names_read [simp]:
  "outcome_of_json (str (outcome_name x)) = Some x" "step_of_json (str (step_name y)) = Some y"
  "queue_of_json (str (queue_name z)) = Some z" "replay_of_json (str (replay_name w)) = Some w"
  by (cases x; cases y; cases z; cases w; simp add: outcome_of_json_def step_of_json_def queue_of_json_def replay_of_json_def)+

definition json_of_error :: "string \<times> string \<Rightarrow> jsval" where
  "json_of_error e = obj (field ''code'' (Some (str (fst e))) (field ''message'' (Some (str (snd e))) []))"

definition error_of_json :: "jsval \<Rightarrow> (string \<times> string) option" where
  "error_of_json v = do {
     ps \<leftarrow> props_of_json v;
     c \<leftarrow> str_of_json (property ps ''code'');
     m \<leftarrow> str_of_json (property ps ''message'');
     Some (c, m)}"

lemma error_read [simp]: "error_of_json (json_of_error e) = Some e" "json_of_error e \<noteq> JUndefined"
  by (simp_all add: error_of_json_def json_of_error_def)

fun cause_props :: "usage_cause \<Rightarrow> props \<Rightarrow> props" where
  "cause_props (StepUsage c r e a s) ps =
     field ''cause'' (Some (str c)) (field ''runId'' (Some (str r)) (field ''entryId'' (Some (str e))
       (field ''attempt'' (Some (num (int a))) (field ''stopReason'' (Some (str (stop_name s))) ps))))"
| "cause_props (ToolUsage r e t) ps =
     field ''cause'' (Some (str ''tool'')) (field ''runId'' (Some (str r)) (field ''entryId'' (Some (str e))
       (field ''toolCallId'' (Some (str t)) ps)))"
| "cause_props (HookUsage r e) ps =
     field ''cause'' (Some (str ''hook'')) (field ''runId'' (Some (str r)) (field ''entryId'' (Some (str e)) ps))"
| "cause_props (AdjustmentUsage r e d) ps =
     field ''cause'' (Some (str ''adjustment'')) (field ''runId'' (map_option str r) (field ''entryId'' (map_option str e)
       (field ''details'' d ps)))"

abbreviation step_causes :: "string list" where
  "step_causes \<equiv> [''assistant'', ''compaction'', ''branch_summary'', ''deferred_fetch'']"

definition cause_of :: "props \<Rightarrow> usage_cause option" where
  "cause_of ps = do {
     cause \<leftarrow> str_of_json (property ps ''cause'');
     if cause \<in> set step_causes then do {
       r \<leftarrow> str_of_json (property ps ''runId'');
       e \<leftarrow> str_of_json (property ps ''entryId'');
       a \<leftarrow> nat_of_json (property ps ''attempt'');
       s \<leftarrow> stop_of_json (property ps ''stopReason'');
       Some (StepUsage cause r e a s)}
     else if cause = ''tool'' then do {
       r \<leftarrow> str_of_json (property ps ''runId'');
       e \<leftarrow> str_of_json (property ps ''entryId'');
       t \<leftarrow> str_of_json (property ps ''toolCallId'');
       Some (ToolUsage r e t)}
     else if cause = ''hook'' then do {
       r \<leftarrow> str_of_json (property ps ''runId'');
       e \<leftarrow> str_of_json (property ps ''entryId'');
       Some (HookUsage r e)}
     else if cause = ''adjustment'' then do {
       r \<leftarrow> optional str_of_json (property ps ''runId'');
       e \<leftarrow> optional str_of_json (property ps ''entryId'');
       d \<leftarrow> optional Some (property ps ''details'');
       Some (AdjustmentUsage r e d)}
     else None}"

fun cause_ok :: "usage_cause \<Rightarrow> bool" where
  "cause_ok (StepUsage c r e a s) = (c \<in> set step_causes)"
| "cause_ok (AdjustmentUsage r e d) = (d \<noteq> Some JUndefined)"
| "cause_ok _ = True"

fun record_data_props :: "record_data \<Rightarrow> props \<Rightarrow> props" where
  "record_data_props (OperationStarted l i) ps = field ''sourceLeafId'' (Some (null_or l)) (field ''intent'' (Some (json_of_intent i)) ps)"
| "record_data_props (AbortRequested r) ps = field ''runId'' (Some (str r)) ps"
| "record_data_props (OperationFinished r out e) ps =
     field ''runId'' (Some (str r)) (field ''outcome'' (Some (str (outcome_name out))) (field ''error'' (map_option json_of_error e) ps))"
| "record_data_props (StepAttempt r s a e c) ps =
     field ''runId'' (Some (str r)) (field ''step'' (Some (str (step_name s))) (field ''attempt'' (Some (num (int a)))
       (field ''resultEntryId'' (Some (str e)) (field ''compactionReason'' (map_option str c) ps))))"
| "record_data_props (ToolStarted r ae n tc tn args e re) ps =
     field ''runId'' (Some (str r)) (field ''assistantEntryId'' (Some (str ae)) (field ''toolIndex'' (Some (num (int n)))
       (field ''toolCallId'' (Some (str tc)) (field ''toolName'' (Some (str tn)) (field ''effectiveArgs'' (Some args)
       (field ''resultEntryId'' (Some (str e)) (field ''replay'' (Some (str (replay_name re))) ps)))))))"
| "record_data_props (QueueEnqueued q r t) ps =
     field ''queue'' (Some (str (queue_name q))) (field ''runId'' (map_option str r) (field ''target'' (Some (json_of_provisioned t)) ps))"
| "record_data_props (QueueCancelled r e) ps = field ''runId'' (map_option str r) (field ''entryId'' (Some (str e)) ps)"
| "record_data_props (WriteDeferred r t) ps = field ''runId'' (Some (str r)) (field ''target'' (Some (json_of_provisioned t)) ps)"
| "record_data_props (UsageRecord c u) ps = cause_props c (field ''usage'' (Some (json_of_usage u)) ps)"

definition record_data_of :: "record_type \<Rightarrow> props \<Rightarrow> record_data option" where
  "record_data_of type ps =
     (case type of
        TypeOperationStarted \<Rightarrow> do {
          l \<leftarrow> nullable str_of_json (property ps ''sourceLeafId'');
          i \<leftarrow> intent_of_json (property ps ''intent'');
          Some (OperationStarted l i)}
      | TypeAbortRequested \<Rightarrow> map_option AbortRequested (str_of_json (property ps ''runId''))
      | TypeOperationFinished \<Rightarrow> do {
          r \<leftarrow> str_of_json (property ps ''runId'');
          out \<leftarrow> outcome_of_json (property ps ''outcome'');
          e \<leftarrow> optional error_of_json (property ps ''error'');
          Some (OperationFinished r out e)}
      | TypeStepAttempt \<Rightarrow> do {
          r \<leftarrow> str_of_json (property ps ''runId'');
          s \<leftarrow> step_of_json (property ps ''step'');
          a \<leftarrow> nat_of_json (property ps ''attempt'');
          e \<leftarrow> str_of_json (property ps ''resultEntryId'');
          c \<leftarrow> optional str_of_json (property ps ''compactionReason'');
          Some (StepAttempt r s a e c)}
      | TypeToolStarted \<Rightarrow> do {
          r \<leftarrow> str_of_json (property ps ''runId'');
          ae \<leftarrow> str_of_json (property ps ''assistantEntryId'');
          n \<leftarrow> nat_of_json (property ps ''toolIndex'');
          tc \<leftarrow> str_of_json (property ps ''toolCallId'');
          tn \<leftarrow> str_of_json (property ps ''toolName'');
          e \<leftarrow> str_of_json (property ps ''resultEntryId'');
          re \<leftarrow> replay_of_json (property ps ''replay'');
          Some (ToolStarted r ae n tc tn (property ps ''effectiveArgs'') e re)}
      | TypeQueueEnqueued \<Rightarrow> do {
          q \<leftarrow> queue_of_json (property ps ''queue'');
          r \<leftarrow> optional str_of_json (property ps ''runId'');
          t \<leftarrow> provisioned_of_json (property ps ''target'');
          Some (QueueEnqueued q r t)}
      | TypeQueueCancelled \<Rightarrow> do {
          r \<leftarrow> optional str_of_json (property ps ''runId'');
          e \<leftarrow> str_of_json (property ps ''entryId'');
          Some (QueueCancelled r e)}
      | TypeWriteDeferred \<Rightarrow> do {
          r \<leftarrow> str_of_json (property ps ''runId'');
          t \<leftarrow> provisioned_of_json (property ps ''target'');
          Some (WriteDeferred r t)}
      | TypeUsage \<Rightarrow> do {
          c \<leftarrow> cause_of ps;
          u \<leftarrow> usage_of_json (property ps ''usage'');
          Some (UsageRecord c u)})"

fun record_data_ok :: "record_data \<Rightarrow> bool" where
  "record_data_ok (OperationStarted l i) = intent_ok i"
| "record_data_ok (QueueEnqueued q r t) = entry_data_ok (p_data t)"
| "record_data_ok (WriteDeferred r t) = entry_data_ok (p_data t)"
| "record_data_ok (UsageRecord c u) = (cause_ok c \<and> usage_ok u)"
| "record_data_ok _ = True"

abbreviation record_optional_keys :: "string list" where
  "record_optional_keys \<equiv> [''error'', ''compactionReason'', ''runId'', ''entryId'', ''details'']"

lemma cause_read [simp]:
  assumes "cause_ok c" "lacks record_optional_keys ps"
  shows "cause_of (cause_props c ps) = Some c" "property (cause_props c ps) ''usage'' = property ps ''usage''"
proof -
  have "\<And>k. k \<in> set record_optional_keys \<Longrightarrow> property ps k = JUndefined" using property_lacks [OF assms(2)] by blast
  then show "cause_of (cause_props c ps) = Some c" "property (cause_props c ps) ''usage'' = property ps ''usage''"
    using assms(1) by (cases c; auto simp: cause_of_def)+
qed

lemma record_data_read [simp]:
  assumes "record_data_ok d" "lacks record_optional_keys ps"
  shows "record_data_of (record_type_of d) (record_data_props d ps) = Some d"
proof -
  have "\<And>k. k \<in> set record_optional_keys \<Longrightarrow> property ps k = JUndefined" using property_lacks [OF assms(2)] by blast
  then show ?thesis using assms by (cases d) (simp_all add: record_data_of_def)
qed

abbreviation record_keys :: "string list" where
  "record_keys \<equiv> [''sourceLeafId'', ''intent'', ''runId'', ''outcome'', ''error'', ''step'', ''attempt'', ''resultEntryId'',
     ''compactionReason'', ''assistantEntryId'', ''toolIndex'', ''toolCallId'', ''toolName'', ''effectiveArgs'', ''replay'',
     ''queue'', ''target'', ''entryId'', ''cause'', ''stopReason'', ''details'', ''usage'']"

lemma cause_base [simp]: "k \<notin> set record_keys \<Longrightarrow> property (cause_props c ps) k = property ps k"
  by (cases c) auto

lemma record_data_base [simp]: "k \<notin> set record_keys \<Longrightarrow> property (record_data_props d ps) k = property ps k"
  by (cases d) auto

lemma cause_of_base [simp]: "k \<notin> set record_keys \<Longrightarrow> cause_of (field k v ps) = cause_of ps"
  by (simp add: cause_of_def cong: if_cong)

lemma record_data_of_base [simp]: "k \<notin> set record_keys \<Longrightarrow> record_data_of type (field k v ps) = record_data_of type ps"
  by (cases type) (simp_all add: record_data_of_def)

end
