(* ===== verification/Jsonl_Codec.thy ===== *)
theory Jsonl_Codec
  imports Session_Json Session_State
begin

text \<open>
  The line format of JSONL session files (packages/agent/src/harness/session/jsonl/codec.ts,
  types.ts and errors.ts): the header line, one line per session mutation, and the checks made
  when a line is read. The source ends its checks by casting the object it read to the declared
  type; where the object does not have the declared shape the model has no value for it and
  reports \<open>UntypedData\<close>, which is no error of the source. Strings of the session types are
  strings of 8-bit characters here, so text outside Latin-1 is \<open>UntypedData\<close> too.
\<close>

section \<open>Errors and checks\<close>

datatype decode_kind = SyntaxKind | SchemaKind

datatype decode_error = JsonlDecodeError decode_kind string | UntypedData

abbreviation schema :: "string \<Rightarrow> decode_error + 'a" where
  "schema msg \<equiv> Inl (JsonlDecodeError SchemaKind msg)"

definition cast :: "'a option \<Rightarrow> decode_error + 'a" where
  "cast x = (case x of None \<Rightarrow> Inl UntypedData | Some y \<Rightarrow> Inr y)"

fun isObject :: "jsval \<Rightarrow> bool" where
  "isObject (JObj p symbols ps) = True"
| "isObject _ = False"

definition parseObject :: "(jsstr \<Rightarrow> jsnum) \<Rightarrow> jsstr \<Rightarrow> decode_error + props" where
  "parseObject nr line =
     (case json_parse nr line of
        None \<Rightarrow> Inl (JsonlDecodeError SyntaxKind ''is not valid JSON'')
      | Some (JObj p symbols ps) \<Rightarrow> Inr ps
      | Some _ \<Rightarrow> schema ''is not a JSON object'')"

fun requireString :: "jsval \<Rightarrow> string \<Rightarrow> decode_error + string" where
  "requireString (JStr s) name = cast (string_of s)"
| "requireString _ name = schema (''has invalid '' @ name)"

fun requireSequence :: "jsval \<Rightarrow> decode_error + nat" where
  "requireSequence (JNum n) =
     (if \<not> is_safe_integer n \<or> num_value n \<le> 0 then schema ''has invalid seq'' else Inr (nat (num_value n)))"
| "requireSequence _ = schema ''has invalid seq''"

fun requireTimestamp :: "jsval \<Rightarrow> decode_error + int" where
  "requireTimestamp (JNum n) =
     (if \<not> is_safe_integer n \<or> num_value n < 0 then schema ''has invalid timestamp'' else Inr (num_value n))"
| "requireTimestamp _ = schema ''has invalid timestamp''"

fun requireNullableId :: "jsval \<Rightarrow> string \<Rightarrow> decode_error + string option" where
  "requireNullableId JNull name = Inr None"
| "requireNullableId (JStr s) name = bindE (cast (string_of s)) (\<lambda>i. Inr (Some i))"
| "requireNullableId _ name = schema (''has invalid '' @ name)"

text \<open>\<open>value !== undefined && typeof value !== "string"\<close>, then the value itself.\<close>

definition optionalString :: "jsval \<Rightarrow> string \<Rightarrow> decode_error + string option" where
  "optionalString v name =
     (if v = JUndefined then Inr None else bindE (requireString v name) (\<lambda>s. Inr (Some s)))"

section \<open>Header\<close>

record jsonl_header =
  h_id :: string
  h_createdAt :: int
  h_cwd :: string
  h_parentSessionId :: "string option"
  h_legacyParentSessionPath :: "string option"
  h_metadata :: "props option"

record jsonl_metadata =
  jm_id :: string
  jm_createdAt :: int
  jm_cwd :: string
  jm_path :: string
  jm_modifiedAt :: int
  jm_sourceFormat :: nat
  jm_parentSessionId :: "string option"
  jm_legacyParentSessionPath :: "string option"
  jm_metadata :: "props option"

definition decodeHeader :: "(jsstr \<Rightarrow> jsnum) \<Rightarrow> jsstr \<Rightarrow> decode_error + jsonl_header" where
  "decodeHeader nr line =
     bindE (parseObject nr line) (\<lambda>value.
     bindE (guardE (property value ''kind'' \<noteq> str ''header'') (JsonlDecodeError SchemaKind ''is not a header'')) (\<lambda>_.
     bindE (guardE (property value ''version'' \<noteq> num 4)
       (JsonlDecodeError SchemaKind ''has unsupported session version'')) (\<lambda>_.
     bindE (optionalString (property value ''parentSessionId'') ''parentSessionId'') (\<lambda>parent.
     bindE (optionalString (property value ''legacyParentSessionPath'') ''legacyParentSessionPath'') (\<lambda>legacy.
     bindE (guardE (parent \<noteq> None \<and> legacy \<noteq> None)
       (JsonlDecodeError SchemaKind ''has both parentSessionId and legacyParentSessionPath'')) (\<lambda>_.
     bindE (guardE (property value ''metadata'' \<noteq> JUndefined \<and> \<not> isObject (property value ''metadata''))
       (JsonlDecodeError SchemaKind ''has invalid metadata'')) (\<lambda>_.
     bindE (requireString (property value ''id'') ''id'') (\<lambda>i.
     bindE (requireTimestamp (property value ''createdAt'')) (\<lambda>createdAt.
     bindE (requireString (property value ''cwd'') ''cwd'') (\<lambda>cwd.
     Inr \<lparr>h_id = i, h_createdAt = createdAt, h_cwd = cwd, h_parentSessionId = parent,
       h_legacyParentSessionPath = legacy, h_metadata = props_of_json (property value ''metadata'')\<rparr>))))))))))"

text \<open>Results carry the error as a value, so reading a header is decoding it.\<close>

abbreviation parseHeader :: "(jsstr \<Rightarrow> jsnum) \<Rightarrow> jsstr \<Rightarrow> decode_error + jsonl_header" where
  "parseHeader \<equiv> decodeHeader"

definition header_object :: "jsonl_header \<Rightarrow> jsval" where
  "header_object h =
     obj (field ''kind'' (Some (str ''header'')) (field ''version'' (Some (num 4)) (field ''id'' (Some (str (h_id h)))
       (field ''createdAt'' (Some (num (h_createdAt h))) (field ''cwd'' (Some (str (h_cwd h)))
       (field ''parentSessionId'' (map_option str (h_parentSessionId h))
       (field ''legacyParentSessionPath'' (map_option str (h_legacyParentSessionPath h))
       (field ''metadata'' (map_option obj (h_metadata h)) []))))))))"

definition encodeHeader :: "(jsnum \<Rightarrow> jsstr) \<Rightarrow> jsonl_header \<Rightarrow> jsstr" where
  "encodeHeader nt h = json_text nt (header_object h) @ [10]"

definition metadataFromHeader :: "jsonl_header \<Rightarrow> string \<Rightarrow> int \<Rightarrow> jsonl_metadata" where
  "metadataFromHeader h path modifiedAt =
     \<lparr>jm_id = h_id h, jm_createdAt = h_createdAt h, jm_cwd = h_cwd h, jm_path = path, jm_modifiedAt = modifiedAt,
       jm_sourceFormat = 4, jm_parentSessionId = h_parentSessionId h,
       jm_legacyParentSessionPath = h_legacyParentSessionPath h, jm_metadata = h_metadata h\<rparr>"

section \<open>Mutations\<close>

abbreviation record_type_names :: "(string \<times> record_type) list" where
  "record_type_names \<equiv> [(''operation_started'', TypeOperationStarted), (''abort_requested'', TypeAbortRequested),
     (''operation_finished'', TypeOperationFinished), (''step_attempt'', TypeStepAttempt),
     (''tool_started'', TypeToolStarted), (''queue_enqueued'', TypeQueueEnqueued),
     (''queue_cancelled'', TypeQueueCancelled), (''write_deferred'', TypeWriteDeferred), (''usage'', TypeUsage)]"

fun record_type_name :: "record_type \<Rightarrow> string" where
  "record_type_name TypeOperationStarted = ''operation_started''"
| "record_type_name TypeAbortRequested = ''abort_requested''"
| "record_type_name TypeOperationFinished = ''operation_finished''"
| "record_type_name TypeStepAttempt = ''step_attempt''"
| "record_type_name TypeToolStarted = ''tool_started''"
| "record_type_name TypeQueueEnqueued = ''queue_enqueued''"
| "record_type_name TypeQueueCancelled = ''queue_cancelled''"
| "record_type_name TypeWriteDeferred = ''write_deferred''"
| "record_type_name TypeUsage = ''usage''"

definition ENTRY_TYPES :: "string \<Rightarrow> entry_type option" where
  "ENTRY_TYPES name = map_of entry_type_names name"

definition RECORD_TYPES :: "string \<Rightarrow> record_type option" where
  "RECORD_TYPES name = map_of record_type_names name"

definition OPERATION_KINDS :: "string list" where
  "OPERATION_KINDS = [''run'', ''compaction'', ''navigation'']"

definition known :: "'a option \<Rightarrow> string \<Rightarrow> decode_error + 'a" where
  "known x msg = (case x of None \<Rightarrow> schema msg | Some t \<Rightarrow> Inr t)"

definition parseEntryMutation :: "props \<Rightarrow> nat \<Rightarrow> decode_error + session_mutation" where
  "parseEntryMutation value sq =
     bindE (optionalString (property value ''lane'') ''lane'') (\<lambda>lane.
     bindE (requireString (property value ''id'') ''id'') (\<lambda>i.
     bindE (requireString (property value ''type'') ''entry type'') (\<lambda>name.
     bindE (known (ENTRY_TYPES name) (''has unknown entry type '' @ name)) (\<lambda>type.
     bindE (requireNullableId (property value ''parentId'') ''parentId'') (\<lambda>parentId.
     bindE (requireTimestamp (property value ''timestamp'')) (\<lambda>timestamp.
     bindE (if type = TypeCustom then requireString (property value ''customType'') ''customType'' else Inr []) (\<lambda>_.
     bindE (cast (entry_data_of type value)) (\<lambda>d.
     Inr (MutEntry lane \<lparr>e_id = i, e_seq = sq, e_parentId = parentId, e_timestamp = timestamp, e_data = d\<rparr>)))))))))"

definition check_intent :: "jsval \<Rightarrow> decode_error + unit" where
  "check_intent intent =
     (case intent of
        JObj p symbols ps \<Rightarrow>
          bindE (requireString (property ps ''kind'') ''operation kind'') (\<lambda>kind.
          guardE (kind \<notin> set OPERATION_KINDS) (JsonlDecodeError SchemaKind (''has unknown operation kind '' @ kind)))
      | _ \<Rightarrow> schema ''has invalid intent'')"

definition parseRecordMutation :: "props \<Rightarrow> nat \<Rightarrow> decode_error + session_mutation" where
  "parseRecordMutation value sq =
     bindE (requireString (property value ''id'') ''id'') (\<lambda>i.
     bindE (requireString (property value ''lane'') ''lane'') (\<lambda>lane.
     bindE (requireString (property value ''type'') ''record type'') (\<lambda>name.
     bindE (known (RECORD_TYPES name) (''has unknown record type '' @ name)) (\<lambda>type.
     bindE (requireTimestamp (property value ''timestamp'')) (\<lambda>timestamp.
     bindE (if type = TypeOperationStarted then check_intent (property value ''intent'') else Inr ()) (\<lambda>_.
     bindE (if type = TypeOperationFinished then requireString (property value ''runId'') ''runId'' else Inr []) (\<lambda>_.
     bindE (cast (record_data_of type value)) (\<lambda>d.
     Inr (MutRecord \<lparr>r_id = i, r_seq = sq, r_lane = lane, r_timestamp = timestamp, r_data = d\<rparr>)))))))))"

definition parseLaneMutation :: "props \<Rightarrow> nat \<Rightarrow> decode_error + session_mutation" where
  "parseLaneMutation value sq =
     bindE (requireString (property value ''lane'') ''lane'') (\<lambda>lane.
     bindE (requireNullableId (property value ''leafId'') ''leafId'') (\<lambda>leafId.
     Inr (MutLane sq lane leafId)))"

definition parseFactMutation :: "props \<Rightarrow> nat \<Rightarrow> decode_error + session_mutation" where
  "parseFactMutation value sq =
     (if property value ''fact'' = str ''name'' then
        bindE (optionalString (property value ''name'') ''name'') (\<lambda>n. Inr (MutName sq n))
      else if property value ''fact'' = str ''label'' then
        bindE (optionalString (property value ''label'') ''label'') (\<lambda>l.
        bindE (requireString (property value ''targetId'') ''targetId'') (\<lambda>t. Inr (MutLabel sq t l)))
      else schema ''has unknown fact type'')"

definition decodeMutation :: "(jsstr \<Rightarrow> jsnum) \<Rightarrow> jsstr \<Rightarrow> decode_error + session_mutation" where
  "decodeMutation nr line =
     bindE (parseObject nr line) (\<lambda>value.
     bindE (requireSequence (property value ''seq'')) (\<lambda>sq.
     if property value ''kind'' = str ''entry'' then parseEntryMutation value sq
     else if property value ''kind'' = str ''record'' then parseRecordMutation value sq
     else if property value ''kind'' = str ''lane'' then parseLaneMutation value sq
     else if property value ''kind'' = str ''fact'' then parseFactMutation value sq
     else schema ''has unknown mutation kind''))"

abbreviation parseMutation :: "(jsstr \<Rightarrow> jsnum) \<Rightarrow> jsstr \<Rightarrow> decode_error + session_mutation" where
  "parseMutation \<equiv> decodeMutation"

text \<open>The objects that are written; a storage builds entries from the caller's properties followed by its own.\<close>

fun mutation_object :: "session_mutation \<Rightarrow> jsval" where
  "mutation_object (MutEntry lane e) =
     obj (field ''kind'' (Some (str ''entry'')) (field ''lane'' (map_option str lane) (field ''id'' (Some (str (e_id e)))
       (field ''type'' (Some (str (entry_type_name (e_type e)))) (entry_data_props (e_data e)
       (field ''parentId'' (Some (null_or (e_parentId e))) (field ''seq'' (Some (num (int (e_seq e))))
       (field ''timestamp'' (Some (num (e_timestamp e))) []))))))))"
| "mutation_object (MutRecord r) =
     obj (field ''kind'' (Some (str ''record'')) (field ''id'' (Some (str (r_id r))) (field ''lane'' (Some (str (r_lane r)))
       (field ''type'' (Some (str (record_type_name (record_type_of (r_data r))))) (record_data_props (r_data r)
       (field ''seq'' (Some (num (int (r_seq r)))) (field ''timestamp'' (Some (num (r_timestamp r))) [])))))))"
| "mutation_object (MutLane q lane leafId) =
     obj (field ''kind'' (Some (str ''lane'')) (field ''seq'' (Some (num (int q))) (field ''lane'' (Some (str lane))
       (field ''leafId'' (Some (null_or leafId)) []))))"
| "mutation_object (MutName q n) =
     obj (field ''kind'' (Some (str ''fact'')) (field ''seq'' (Some (num (int q))) (field ''fact'' (Some (str ''name''))
       (field ''name'' (map_option str n) []))))"
| "mutation_object (MutLabel q t l) =
     obj (field ''kind'' (Some (str ''fact'')) (field ''seq'' (Some (num (int q))) (field ''fact'' (Some (str ''label''))
       (field ''targetId'' (Some (str t)) (field ''label'' (map_option str l) [])))))"

definition encodeMutation :: "(jsnum \<Rightarrow> jsstr) \<Rightarrow> session_mutation \<Rightarrow> jsstr" where
  "encodeMutation nt m = json_text nt (mutation_object m) @ [10]"

section \<open>Round trip\<close>

text \<open>
  A mutation the storage can write: its object is a JSON value (the payload check of a session
  sees to that), its extra properties do not repeat declared ones, and its numbers are in the
  range the reader accepts.
\<close>

definition clock_ok :: "int \<Rightarrow> bool" where
  "clock_ok t \<longleftrightarrow> 0 \<le> t \<and> t \<le> max_safe_integer"

fun mutation_typed :: "session_mutation \<Rightarrow> bool" where
  "mutation_typed (MutEntry lane e) = (entry_data_ok (e_data e) \<and> clock_ok (e_timestamp e))"
| "mutation_typed (MutRecord r) = (record_data_ok (r_data r) \<and> clock_ok (r_timestamp r))"
| "mutation_typed _ = True"

definition storable :: "session_mutation \<Rightarrow> bool" where
  "storable m \<longleftrightarrow> json_tree (mutation_object m) \<and> mutation_typed m \<and> 0 < mutation_seq m \<and> int (mutation_seq m) \<le> max_safe_integer"

definition header_ok :: "jsonl_header \<Rightarrow> bool" where
  "header_ok h \<longleftrightarrow> json_tree (header_object h) \<and> clock_ok (h_createdAt h) \<and>
     (h_parentSessionId h = None \<or> h_legacyParentSessionPath h = None)"

lemma check_read [simp]:
  "requireString (str s) name = Inr s"
  "requireNullableId (null_or x) name = Inr x"
  "optionalString (present_or (map_option str y) JUndefined) name = Inr y"
  "optionalString JUndefined name = Inr None"
  "0 < q \<Longrightarrow> int q \<le> max_safe_integer \<Longrightarrow> requireSequence (num (int q)) = Inr q"
  "clock_ok t \<Longrightarrow> requireTimestamp (num t) = Inr t"
  "cast (Some z) = Inr z" "known (Some z) msg = Inr z"
  by (cases x; cases y; simp add: cast_def known_def null_or_def optionalString_def clock_ok_def)+

declare requireString.simps [simp del] requireSequence.simps [simp del] requireTimestamp.simps [simp del]
  requireNullableId.simps [simp del]

lemma types_read [simp]: "ENTRY_TYPES (entry_type_name t) = Some t" "RECORD_TYPES (record_type_name u) = Some u"
  by (cases t; simp add: ENTRY_TYPES_def) (cases u; simp add: RECORD_TYPES_def)

lemma object_read:
  assumes "number_format nt nr" "json_tree (obj ps)"
  shows "parseObject nr (json_text nt (obj ps)) = Inr ps"
  using json_round_trip [OF assms] by (simp add: parseObject_def)

lemma header_read:
  assumes "number_format nt nr" "header_ok h"
  shows "decodeHeader nr (json_text nt (header_object h)) = Inr h"
proof -
  obtain ps where ps: "header_object h = obj ps" by (simp add: header_object_def)
  then have "parseObject nr (json_text nt (header_object h)) = Inr ps"
    using assms object_read [of nt nr ps] by (simp add: header_ok_def)
  moreover obtain i c w p l m where "h = \<lparr>h_id = i, h_createdAt = c, h_cwd = w, h_parentSessionId = p,
      h_legacyParentSessionPath = l, h_metadata = m\<rparr>"
    by (cases h)
  ultimately show ?thesis
    using assms(2) ps by (cases m) (auto simp: decodeHeader_def header_object_def header_ok_def)
qed

lemma intent_checked [simp]: "check_intent (json_of_intent i) = Inr ()"
  by (cases i) (simp_all add: check_intent_def OPERATION_KINDS_def)

lemma type_custom: "entry_type_of d = TypeCustom \<longleftrightarrow> (\<exists>t x. d = CustomEntry t x)"
  by (cases d) simp_all

lemma entry_read:
  assumes "entry_data_ok (e_data e)" "clock_ok (e_timestamp e)" "mutation_object (MutEntry lane e) = obj ps"
  shows "parseEntryMutation ps (e_seq e) = Inr (MutEntry lane e)"
proof -
  have "(if e_type e = TypeCustom then requireString (property ps ''customType'') ''customType'' else Inr []) \<in> range Inr"
    using assms(3) by (auto simp: type_custom)
  then obtain c where "(if e_type e = TypeCustom then requireString (property ps ''customType'') ''customType'' else Inr []) = Inr c"
    by blast
  then show ?thesis using assms by (auto simp: parseEntryMutation_def)
qed

lemma record_read:
  assumes "record_data_ok (r_data r)" "clock_ok (r_timestamp r)" "mutation_object (MutRecord r) = obj ps"
  shows "parseRecordMutation ps (r_seq r) = Inr (MutRecord r)"
proof -
  let ?type = "record_type_of (r_data r)"
  have "(if ?type = TypeOperationStarted then check_intent (property ps ''intent'') else Inr ()) = Inr ()"
    using assms(3) by (cases "r_data r") auto
  moreover obtain c where "(if ?type = TypeOperationFinished then requireString (property ps ''runId'') ''runId'' else Inr []) = Inr c"
    using assms(3) by (cases "r_data r") auto
  ultimately show ?thesis using assms by (auto simp: parseRecordMutation_def)
qed

lemma mutation_read:
  assumes "number_format nt nr" "storable m"
  shows "decodeMutation nr (json_text nt (mutation_object m)) = Inr m"
proof -
  obtain ps where ps: "mutation_object m = obj ps" by (cases m) simp_all
  then have "parseObject nr (json_text nt (mutation_object m)) = Inr ps"
    using assms object_read [of nt nr ps] by (simp add: storable_def)
  then show ?thesis
    using assms(2) ps
    by (cases m) (auto simp: decodeMutation_def storable_def entry_read record_read parseLaneMutation_def parseFactMutation_def)
qed

end
