(* ===== verification/Session_Jsonl.thy ===== *)
theory Session_Jsonl
  imports Session_Memory Session_View Jsonl_Codec
begin

text \<open>
  Sessions stored in JSONL files (packages/agent/src/harness/session/jsonl/storage.ts): a header
  line and one line per mutation, appended before the mutation is applied in memory. The file
  system is a map from paths to texts; every call takes the next outcome from a list the
  environment chose, so that any call can fail and a failing write can leave a part of its text
  behind. Operations of one storage run one after the other (\<open>enqueue\<close> chains them), each on the
  state the previous one left. Shown: a session reopened from its file has the state it was left
  in, a write cut off by a crash is either there or not and is repaired, a fork appears whole or
  not at all, and the backend keeps the contract of \<open>session_storage\<close> whatever fails.
\<close>

section \<open>File system\<close>

datatype file_code =
    FileAborted | FileNotFound | PermissionDenied | NotDirectory | IsDirectory | FileInvalid | NotSupported | FileUnknown

datatype file_error = FileError file_code string

text \<open>A failing call did nothing, or it had written the given number of characters.\<close>

datatype fs_outcome = Works | Fails file_error "nat option"

record text_file =
  fl_content :: jsstr
  fl_mtime :: int

record disk =
  dk_files :: "(string \<times> text_file) list"
  dk_dirs :: "string list"
  dk_clock :: int
  dk_outcomes :: "fs_outcome list"

type_synonym ('e, 'a) io = "disk \<Rightarrow> ('e + 'a) \<times> disk"

definition returnIO :: "'a \<Rightarrow> ('e, 'a) io" where
  "returnIO x d = (Inr x, d)"

definition sumIO :: "'e + 'a \<Rightarrow> ('e, 'a) io" where
  "sumIO r d = (r, d)"

definition bindIO :: "('e, 'a) io \<Rightarrow> ('a \<Rightarrow> ('e, 'b) io) \<Rightarrow> ('e, 'b) io" where
  "bindIO m f d = (case m d of (Inl e, d') \<Rightarrow> (Inl e, d') | (Inr x, d') \<Rightarrow> f x d')"

definition mapIO :: "('e \<Rightarrow> 'f) \<Rightarrow> ('e, 'a) io \<Rightarrow> ('f, 'a) io" where
  "mapIO f m d = (case m d of (Inl e, d') \<Rightarrow> (Inl (f e), d') | (Inr x, d') \<Rightarrow> (Inr x, d'))"

definition fs_call :: "(file_error, 'a) io \<Rightarrow> (nat \<Rightarrow> disk \<Rightarrow> disk) \<Rightarrow> (file_error, 'a) io" where
  "fs_call complete partial d =
     (let d' = d\<lparr>dk_outcomes := tl (dk_outcomes d)\<rparr> in
      case dk_outcomes d of
        Fails e None # _ \<Rightarrow> (Inl e, d')
      | Fails e (Some n) # _ \<Rightarrow> (Inl e, partial n d')
      | _ \<Rightarrow> complete d')"

definition put_file :: "string \<Rightarrow> jsstr \<Rightarrow> disk \<Rightarrow> disk" where
  "put_file path t d = d\<lparr>dk_files := map_put path \<lparr>fl_content = t, fl_mtime = dk_clock d\<rparr> (dk_files d)\<rparr>"

definition file_content :: "string \<Rightarrow> disk \<Rightarrow> jsstr option" where
  "file_content path d = map_option fl_content (map_of (dk_files d) path)"

definition old_content :: "string \<Rightarrow> disk \<Rightarrow> jsstr" where
  "old_content path d = (case file_content path d of None \<Rightarrow> [] | Some t \<Rightarrow> t)"

definition missing :: "string \<Rightarrow> file_error" where
  "missing path = FileError FileNotFound (''no such file: '' @ path)"

definition readTextFile :: "string \<Rightarrow> (file_error, jsstr) io" where
  "readTextFile path = fs_call (\<lambda>d. (case file_content path d of None \<Rightarrow> Inl (missing path) | Some t \<Rightarrow> Inr t, d)) (\<lambda>n d. d)"

definition fileInfo :: "string \<Rightarrow> (file_error, int) io" where
  "fileInfo path =
     fs_call (\<lambda>d. (case map_of (dk_files d) path of None \<Rightarrow> Inl (missing path) | Some f \<Rightarrow> Inr (fl_mtime f), d)) (\<lambda>n d. d)"

definition writeFile :: "string \<Rightarrow> jsstr \<Rightarrow> (file_error, unit) io" where
  "writeFile path t = fs_call (\<lambda>d. (Inr (), put_file path t d)) (\<lambda>n d. put_file path (take n t) d)"

definition appendFile :: "string \<Rightarrow> jsstr \<Rightarrow> (file_error, unit) io" where
  "appendFile path t =
     fs_call (\<lambda>d. (Inr (), put_file path (old_content path d @ t) d))
       (\<lambda>n d. put_file path (old_content path d @ take n t) d)"

definition renameFile :: "string \<Rightarrow> string \<Rightarrow> (file_error, unit) io" where
  "renameFile source dest =
     fs_call (\<lambda>d. case map_of (dk_files d) source of
         None \<Rightarrow> (Inl (missing source), d)
       | Some f \<Rightarrow> (Inr (), d\<lparr>dk_files := map_put dest f (map_del source (dk_files d))\<rparr>)) (\<lambda>n d. d)"

definition removeFile :: "string \<Rightarrow> (file_error, unit) io" where
  "removeFile path = fs_call (\<lambda>d. (Inr (), d\<lparr>dk_files := map_del path (dk_files d)\<rparr>)) (\<lambda>n d. d)"

section \<open>Errors\<close>

fun file_exn :: "string \<Rightarrow> file_error \<Rightarrow> session_exn" where
  "file_exn msg (FileError c t) =
     SessionError (if c = FileNotFound then NotFound else StorageError) (msg @ '': '' @ t)"

definition fileResult :: "(file_error, 'a) io \<Rightarrow> string \<Rightarrow> (session_exn, 'a) io" where
  "fileResult m msg = mapIO (file_exn msg) m"

definition invalidFile :: "string \<Rightarrow> nat \<Rightarrow> string \<Rightarrow> session_exn" where
  "invalidFile path line msg =
     SessionError InvalidEntry (''Invalid JSONL v4 session '' @ path @ '': line '' @ show_nat line @ '' '' @ msg)"

text \<open>Reading a file can meet data the session types of the model have no value for.\<close>

datatype load_exn = LoadError session_exn | UntypedLine nat

definition publishFileAtomically :: "string \<Rightarrow> (string \<Rightarrow> (session_exn, unit) io) \<Rightarrow> (session_exn, unit) io" where
  "publishFileAtomically dest populate d =
     (let temp = dest @ ''.tmp'' in
      case bindIO (populate temp)
        (\<lambda>_. fileResult (renameFile temp dest) (''Failed to publish staged file '' @ dest)) d of
        (Inl e, d') \<Rightarrow> (Inl e, snd (removeFile temp d'))
      | r \<Rightarrow> r)"

section \<open>The storage\<close>

record jsonl_storage =
  jl_metadata :: jsonl_metadata
  jl_state :: session_state

definition new_jsonl_storage :: "jsonl_metadata \<Rightarrow> jsonl_storage" where
  "new_jsonl_storage metadata = \<lparr>jl_metadata = metadata, jl_state = new_state\<rparr>"

definition jsonl_create :: "(jsnum \<Rightarrow> jsstr) \<Rightarrow> string \<Rightarrow> jsonl_header \<Rightarrow> (session_exn, jsonl_storage) io" where
  "jsonl_create nt path header =
     bindIO (fileResult (writeFile path (encodeHeader nt header)) (''Failed to initialize session '' @ path)) (\<lambda>_.
     bindIO (fileResult (fileInfo path) (''Failed to read session metadata '' @ path)) (\<lambda>mtime.
     returnIO (new_jsonl_storage (metadataFromHeader header path mtime))))"

definition appendMutation :: "(jsnum \<Rightarrow> jsstr) \<Rightarrow> session_mutation \<Rightarrow> jsonl_storage \<Rightarrow> (session_exn, unit) io" where
  "appendMutation nt m st =
     fileResult (appendFile (jm_path (jl_metadata st)) (encodeMutation nt m))
       (''Failed to append session '' @ jm_path (jl_metadata st))"

definition jl_applyMutation :: "session_mutation \<Rightarrow> jsonl_storage \<Rightarrow> session_exn + jsonl_storage" where
  "jl_applyMutation m st = bindE (applyMutation invalidMutation m (jl_state st)) (\<lambda>s. Inr (st\<lparr>jl_state := s\<rparr>))"

definition append_and_apply :: "(jsnum \<Rightarrow> jsstr) \<Rightarrow> session_mutation \<Rightarrow> jsonl_storage \<Rightarrow> (session_exn, jsonl_storage) io" where
  "append_and_apply nt m st = bindIO (appendMutation nt m st) (\<lambda>_. sumIO (jl_applyMutation m st))"

text \<open>The lines of a file: \<open>split\<close> at line feeds, \<open>join\<close> with them.\<close>

fun split_newlines :: "jsstr \<Rightarrow> jsstr list" where
  "split_newlines [] = [[]]"
| "split_newlines (u # s) = (if u = 10 then [] # split_newlines s
     else case split_newlines s of [] \<Rightarrow> [[u]] | l # ls \<Rightarrow> (u # l) # ls)"

fun join_newlines :: "jsstr list \<Rightarrow> jsstr" where
  "join_newlines [] = []"
| "join_newlines [l] = l"
| "join_newlines (l # k # ls) = l @ 10 # join_newlines (k # ls)"

definition physical_lines :: "jsstr \<Rightarrow> jsstr list" where
  "physical_lines t = (let ls = split_newlines t in if last ls = [] then butlast ls else ls)"

datatype replay = Replayed session_state | TornTail nat session_state | ReplayFailed load_exn

fun replay_lines :: "(jsstr \<Rightarrow> jsnum) \<Rightarrow> string \<Rightarrow> nat \<Rightarrow> jsstr list \<Rightarrow> session_state \<Rightarrow> replay" where
  "replay_lines nr path index [] s = Replayed s"
| "replay_lines nr path index (l # ls) s =
     (case parseMutation nr l of
        Inl UntypedData \<Rightarrow> ReplayFailed (UntypedLine (index + 1))
      | Inl (JsonlDecodeError kind msg) \<Rightarrow>
          if ls = [] \<and> kind = SyntaxKind then TornTail index s
          else ReplayFailed (LoadError (invalidFile path (index + 1) msg))
      | Inr m \<Rightarrow>
          (case applyMutation invalidMutation m s of
             Inl (SessionError code msg) \<Rightarrow>
               ReplayFailed (LoadError (if code = InvalidEntry then invalidFile path (index + 1) msg else SessionError code msg))
           | Inr s' \<Rightarrow> replay_lines nr path (index + 1) ls s'))"

fun decode_exn :: "string \<Rightarrow> decode_error \<Rightarrow> load_exn" where
  "decode_exn path UntypedData = UntypedLine 1"
| "decode_exn path (JsonlDecodeError kind msg) = LoadError (invalidFile path 1 msg)"

definition jsonl_load :: "(jsstr \<Rightarrow> jsnum) \<Rightarrow> string \<Rightarrow> (load_exn, jsonl_storage) io" where
  "jsonl_load nr path =
     bindIO (mapIO LoadError (fileResult (readTextFile path) (''Failed to read session '' @ path))) (\<lambda>text.
     let ls = physical_lines text in
     if ls = [] \<or> hd ls = [] then sumIO (Inl (LoadError (invalidFile path 1 ''is missing a header'')))
     else
       bindIO (mapIO (decode_exn path) (sumIO (parseHeader nr (hd ls)))) (\<lambda>header.
       bindIO (mapIO LoadError (fileResult (fileInfo path) (''Failed to read session metadata '' @ path))) (\<lambda>mtime.
       let storage = new_jsonl_storage (metadataFromHeader header path mtime) in
       case replay_lines nr path 1 (tl ls) (jl_state storage) of
         ReplayFailed e \<Rightarrow> sumIO (Inl e)
       | TornTail index s \<Rightarrow>
           bindIO (mapIO LoadError (publishFileAtomically path (\<lambda>temp.
             fileResult (writeFile temp (join_newlines (take index ls) @ [10])) (''Failed to stage torn-tail repair '' @ path)))) (\<lambda>_.
           returnIO (storage\<lparr>jl_state := s\<rparr>))
       | Replayed s \<Rightarrow>
           if last text = 10 then returnIO (storage\<lparr>jl_state := s\<rparr>)
           else bindIO (mapIO LoadError (fileResult (appendFile path [10]) (''Failed to repair unterminated session tail '' @ path)))
             (\<lambda>_. returnIO (storage\<lparr>jl_state := s\<rparr>)))))"

primrec append_all :: "(jsnum \<Rightarrow> jsstr) \<Rightarrow> session_mutation list \<Rightarrow> jsonl_storage \<Rightarrow> (session_exn, jsonl_storage) io" where
  "append_all nt [] st = returnIO st"
| "append_all nt (m # ms) st = bindIO (append_and_apply nt m st) (append_all nt ms)"

definition jsonl_fork ::
  "(jsnum \<Rightarrow> jsstr) \<Rightarrow> (jsstr \<Rightarrow> jsnum) \<Rightarrow> string \<Rightarrow> jsonl_header \<Rightarrow> fork_options \<Rightarrow> jsonl_storage \<Rightarrow> (load_exn, jsonl_storage) io" where
  "jsonl_fork nt nr path header options st =
     bindIO (mapIO LoadError (sumIO (createForkMutations options (jl_state st)))) (\<lambda>ms.
     bindIO (mapIO LoadError (publishFileAtomically path (\<lambda>temp.
       bindIO (jsonl_create nt temp header) (\<lambda>target. bindIO (append_all nt ms target) (\<lambda>_. returnIO ()))))) (\<lambda>_.
     jsonl_load nr path))"

section \<open>Writes\<close>

definition jl_createLane :: "(jsnum \<Rightarrow> jsstr) \<Rightarrow> string \<Rightarrow> string option \<Rightarrow> jsonl_storage \<Rightarrow> (session_exn, jsonl_storage) io" where
  "jl_createLane nt lane at st =
     bindIO (sumIO (validateNewLane lane (jl_state st))) (\<lambda>_.
     bindIO (sumIO (validateTarget at (jl_state st))) (\<lambda>_.
     append_and_apply nt (MutLane (nextSequence (jl_state st)) lane at) st))"

definition jl_moveLane :: "(jsnum \<Rightarrow> jsstr) \<Rightarrow> string \<Rightarrow> string option \<Rightarrow> jsonl_storage \<Rightarrow> (session_exn, jsonl_storage) io" where
  "jl_moveLane nt lane to st =
     bindIO (sumIO (requireLane lane (jl_state st))) (\<lambda>_.
     bindIO (sumIO (validateTarget to (jl_state st))) (\<lambda>_.
     append_and_apply nt (MutLane (nextSequence (jl_state st)) lane to) st))"

definition jl_appendEntry ::
  "(jsnum \<Rightarrow> jsstr) \<Rightarrow> int \<Rightarrow> provisioned_entry \<Rightarrow> string \<Rightarrow> jsonl_storage \<Rightarrow> (session_exn, entry \<times> jsonl_storage) io" where
  "jl_appendEntry nt now pe lane st =
     bindIO (sumIO (requireLane lane (jl_state st))) (\<lambda>parentId.
     bindIO (sumIO (validateUnusedId (p_id pe) (jl_state st))) (\<lambda>_.
     let e = new_entry now pe parentId (jl_state st) in
     bindIO (append_and_apply nt (MutEntry (Some lane) e) st) (\<lambda>st'. returnIO (e, st'))))"

definition jl_appendRecord ::
  "(jsnum \<Rightarrow> jsstr) \<Rightarrow> int \<Rightarrow> new_record \<Rightarrow> jsonl_storage \<Rightarrow> (session_exn, lane_record \<times> jsonl_storage) io" where
  "jl_appendRecord nt now nr st =
     bindIO (sumIO (requireLane (n_lane nr) (jl_state st))) (\<lambda>_.
     bindIO (sumIO (validateUnusedId (n_id nr) (jl_state st))) (\<lambda>_.
     bindIO (sumIO (currentOpenOperationId (n_lane nr) (jl_state st))) (\<lambda>current.
     bindIO (sumIO (rejectSecondOperation nr current)) (\<lambda>_.
     let r = stamp_record now nr (jl_state st) in
     bindIO (append_and_apply nt (MutRecord r) st) (\<lambda>st'. returnIO (r, st'))))))"

definition jl_setName :: "(jsnum \<Rightarrow> jsstr) \<Rightarrow> string option \<Rightarrow> jsonl_storage \<Rightarrow> (session_exn, jsonl_storage) io" where
  "jl_setName nt n st = append_and_apply nt (MutName (nextSequence (jl_state st)) n) st"

definition jl_setLabel :: "(jsnum \<Rightarrow> jsstr) \<Rightarrow> string \<Rightarrow> string option \<Rightarrow> jsonl_storage \<Rightarrow> (session_exn, jsonl_storage) io" where
  "jl_setLabel nt i l st =
     bindIO (sumIO (validateTarget (Some i) (jl_state st))) (\<lambda>_.
     append_and_apply nt (MutLabel (nextSequence (jl_state st)) i l) st)"

fun jl_write :: "(jsnum \<Rightarrow> jsstr) \<Rightarrow> int \<Rightarrow> storage_request \<Rightarrow> jsonl_storage \<Rightarrow> (session_exn, jsonl_storage) io" where
  "jl_write nt now (CreateLane lane at) st = jl_createLane nt lane at st"
| "jl_write nt now (MoveLane lane to) st = jl_moveLane nt lane to st"
| "jl_write nt now (AppendEntry pe lane) st = bindIO (jl_appendEntry nt now pe lane st) (\<lambda>r. returnIO (snd r))"
| "jl_write nt now (AppendRecord nr) st = bindIO (jl_appendRecord nt now nr st) (\<lambda>r. returnIO (snd r))"
| "jl_write nt now (SetName n) st = jl_setName nt n st"
| "jl_write nt now (SetLabel i l) st = jl_setLabel nt i l st"

text \<open>One queued operation: a failing one leaves the storage object as it was, whatever it did to the file.\<close>

definition enqueue :: "(session_exn, jsonl_storage) io \<Rightarrow> jsonl_storage \<times> disk \<Rightarrow> (session_exn + unit) \<times> jsonl_storage \<times> disk" where
  "enqueue operation session =
     (case operation (snd session) of
        (Inl e, d) \<Rightarrow> (Inl e, fst session, d)
      | (Inr st, d) \<Rightarrow> (Inr (), st, d))"

definition jl_submit ::
  "(jsnum \<Rightarrow> jsstr) \<Rightarrow> int \<Rightarrow> storage_request \<Rightarrow> jsonl_storage \<times> disk \<Rightarrow> (session_exn + unit) \<times> jsonl_storage \<times> disk" where
  "jl_submit nt now req session = enqueue (jl_write nt now req (fst session)) session"

section \<open>The storage contract\<close>

lemma io_simps [simp]:
  "bindIO (sumIO (Inr x)) f = f x" "bindIO (sumIO (Inl e)) f = sumIO (Inl e)" "bindIO (returnIO x) f = f x"
  "bindIO (bindIO m f) g = bindIO m (\<lambda>x. bindIO (f x) g)" "bindIO m returnIO = m"
  "mapIO h (sumIO (Inr x)) = sumIO (Inr x)" "mapIO h (sumIO (Inl e)) = sumIO (Inl (h e))"
  by (auto simp: fun_eq_iff bindIO_def sumIO_def returnIO_def mapIO_def split: prod.splits sum.splits)

lemma sumIO_bindE: "bindIO (sumIO r) (\<lambda>x. bindIO (sumIO (f x)) g) = bindIO (sumIO (bindE r f)) g"
  by (cases r) simp_all

text \<open>Every write validates, builds its mutation, appends it and applies it.\<close>

lemma jl_write_eq:
  "jl_write nt now req st = bindIO (sumIO (request_mutation now req (jl_state st))) (\<lambda>m. append_and_apply nt m st)"
proof (cases req)
  case (CreateLane lane at)
  then show ?thesis
    by (cases "validateNewLane lane (jl_state st)"; cases "validateTarget at (jl_state st)") (simp_all add: jl_createLane_def)
next
  case (MoveLane lane to)
  then show ?thesis
    by (cases "requireLane lane (jl_state st)"; cases "validateTarget to (jl_state st)") (simp_all add: jl_moveLane_def)
next
  case (AppendEntry pe lane)
  then show ?thesis
    by (cases "requireLane lane (jl_state st)"; cases "validateUnusedId (p_id pe) (jl_state st)")
      (simp_all add: jl_appendEntry_def Let_def)
next
  case (AppendRecord nr)
  show ?thesis
  proof (cases "currentOpenOperationId (n_lane nr) (jl_state st)")
    case (Inr current)
    with AppendRecord show ?thesis
      by (cases "requireLane (n_lane nr) (jl_state st)"; cases "validateUnusedId (n_id nr) (jl_state st)";
          cases "rejectSecondOperation nr current") (simp_all add: jl_appendRecord_def Let_def)
  qed (use AppendRecord in \<open>cases "requireLane (n_lane nr) (jl_state st)"; cases "validateUnusedId (n_id nr) (jl_state st)";
      simp add: jl_appendRecord_def\<close>)
next
  case (SetLabel i l)
  then show ?thesis by (cases "validateTarget (Some i) (jl_state st)") (simp_all add: jl_setLabel_def)
qed (simp add: jl_setName_def)

fun next_works :: "disk \<Rightarrow> bool" where
  "next_works d = (case dk_outcomes d of Fails e n # _ \<Rightarrow> False | _ \<Rightarrow> True)"

definition after_call :: "disk \<Rightarrow> disk" where
  "after_call d = d\<lparr>dk_outcomes := tl (dk_outcomes d)\<rparr>"

text \<open>What a failing append leaves: the file as it was, or with a part of the text added.\<close>

definition partial_append :: "string \<Rightarrow> jsstr \<Rightarrow> disk \<Rightarrow> disk" where
  "partial_append path t d =
     (case dk_outcomes d of
        Fails e (Some n) # _ \<Rightarrow> put_file path (old_content path (after_call d) @ take n t) (after_call d)
      | _ \<Rightarrow> after_call d)"

lemma fs_call_cases:
  "fs_call complete partial d =
     (case dk_outcomes d of
        Fails e None # _ \<Rightarrow> (Inl e, after_call d)
      | Fails e (Some n) # _ \<Rightarrow> (Inl e, partial n (after_call d))
      | _ \<Rightarrow> complete (after_call d))"
  unfolding fs_call_def after_call_def Let_def by (rule refl)

lemma append_works:
  assumes "next_works d"
  shows "appendFile path t d = (Inr (), put_file path (old_content path d @ t) (after_call d))"
  using assms
  by (auto simp: appendFile_def fs_call_cases after_call_def old_content_def file_content_def split: list.splits fs_outcome.splits)

lemma append_fails:
  assumes "\<not> next_works d"
  obtains e where "appendFile path t d = (Inl e, partial_append path t d)"
proof -
  obtain e n os where "dk_outcomes d = Fails e n # os" using assms by (auto split: list.splits fs_outcome.splits)
  then show ?thesis
    using that [of e] by (cases n) (simp_all add: appendFile_def fs_call_cases partial_append_def)
qed

lemma jl_submit_cases:
  "jl_submit nt now req (st, d) =
     (case request_mutation now req (jl_state st) of
        Inl e \<Rightarrow> (Inl e, st, d)
      | Inr m \<Rightarrow>
          let path = jm_path (jl_metadata st); line = encodeMutation nt m in
          (case appendFile path line d of
             (Inl e, d') \<Rightarrow> (Inl (file_exn (''Failed to append session '' @ path) e), st, d')
           | (Inr _, d') \<Rightarrow>
               (case applyMutation invalidMutation m (jl_state st) of
                  Inl e \<Rightarrow> (Inl e, st, d')
                | Inr s \<Rightarrow> (Inr (), st\<lparr>jl_state := s\<rparr>, d'))))"
  by (auto simp: jl_submit_def enqueue_def jl_write_eq append_and_apply_def appendMutation_def bindIO_def sumIO_def
      fileResult_def mapIO_def jl_applyMutation_def bindE_def Let_def split: sum.splits prod.splits)

lemma accepted_applies:
  assumes "session_ok s" "request_mutation now req s = Inr m"
  shows "applyMutation invalidMutation m s = Inr (mutate m s)" "perform now req s = Inr (mutate m s)"
  using request_valid [OF assms(2)] assms
  by (auto simp: session_ok_def applyMutation_iff perform_iff)

lemma jl_submit_succeeds:
  assumes "session_ok (jl_state st)" "request_mutation now req (jl_state st) = Inr m" "next_works d"
  shows "jl_submit nt now req (st, d) =
    (Inr (), st\<lparr>jl_state := mutate m (jl_state st)\<rparr>,
     put_file (jm_path (jl_metadata st)) (old_content (jm_path (jl_metadata st)) d @ encodeMutation nt m) (after_call d))"
  using accepted_applies(1) [OF assms(1,2)] assms(2,3)
  by (simp add: jl_submit_cases append_works Let_def del: next_works.simps)

lemma jl_submit_fails:
  assumes "request_mutation now req (jl_state st) = Inr m" "\<not> next_works d"
  obtains e where
    "jl_submit nt now req (st, d) = (Inl e, st, partial_append (jm_path (jl_metadata st)) (encodeMutation nt m) d)"
proof -
  obtain e where "appendFile (jm_path (jl_metadata st)) (encodeMutation nt m) d =
      (Inl e, partial_append (jm_path (jl_metadata st)) (encodeMutation nt m) d)"
    using append_fails [OF assms(2)] by blast
  then show ?thesis using assms(1) that by (simp add: jl_submit_cases Let_def)
qed

lemma jl_submit_rejected: "request_mutation now req (jl_state st) = Inl e \<Longrightarrow> jl_submit nt now req (st, d) = (Inl e, st, d)"
  by (simp add: jl_submit_cases)

interpretation jl: session_storage "jl_submit nt" "\<lambda>session. jl_state (fst session)" "\<lambda>session. session_ok (jl_state (fst session))"
  "\<lambda>session. next_works (snd session)" for nt
proof unfold_locales
  fix now req and session session' :: "jsonl_storage \<times> disk" and e
  assume ok: "session_ok (jl_state (fst session))"
  obtain st d where session: "session = (st, d)" by (cases session)
  show "session_ok (jl_state (fst session')) \<and> perform now req (jl_state (fst session)) = Inr (jl_state (fst session'))"
    if ran: "jl_submit nt now req session = (Inr (), session')"
  proof (cases "request_mutation now req (jl_state st)")
    case (Inr m)
    have "next_works d"
    proof (rule ccontr)
      assume "\<not> next_works d"
      then show False using jl_submit_fails [OF Inr, of d nt] ran session by (metis Pair_inject sum.distinct(1))
    qed
    then have "jl_state (fst session') = mutate m (jl_state st)"
      using jl_submit_succeeds [OF _ Inr, of d nt] ok session ran by (auto simp del: next_works.simps)
    then show ?thesis using accepted_applies(2) [OF _ Inr] perform_ok [of "jl_state st" now req] ok session by simp
  qed (use ran session jl_submit_rejected in auto)
  show "session_ok (jl_state (fst session')) \<and> jl_state (fst session') = jl_state (fst session)"
    if failed: "jl_submit nt now req session = (Inl e, session')"
  proof (cases "request_mutation now req (jl_state st)")
    case (Inr m)
    have "\<not> next_works d" using jl_submit_succeeds [OF _ Inr, of d nt] ok session failed by (auto simp del: next_works.simps)
    then show ?thesis using jl_submit_fails [OF Inr, of d nt] failed ok session by (metis Pair_inject fst_conv)
  qed (use failed session jl_submit_rejected ok in force)
  show "fst (jl_submit nt now req session) = Inl e" if "perform now req (jl_state (fst session)) = Inl e"
    using that perform_error [of "jl_state st" now req e] ok session jl_submit_rejected by (auto simp: session_ok_def)
  show "fst (jl_submit nt now req session) = Inr ()"
    if works: "next_works (snd session)" and performed: "perform now req (jl_state (fst session)) = Inr s'" for s'
  proof -
    obtain m where "request_mutation now req (jl_state st) = Inr m"
      using performed perform_iff [of "jl_state st" now req s'] ok session by (auto simp: session_ok_def)
    then show ?thesis using jl_submit_succeeds [of st now req m d nt] ok session works by (simp del: next_works.simps)
  qed
qed simp

text \<open>The whole interface \<open>SessionStorage\<close>: reads come from the state in memory.\<close>

definition jsonl_backend :: "(jsnum \<Rightarrow> jsstr) \<Rightarrow> (jsonl_storage \<times> disk) backend" where
  "jsonl_backend nt =
     \<lparr>bk_getLanes = (\<lambda>session. lanes (jl_state (fst session))),
      bk_findEntries = (\<lambda>query session. findEntries query (jl_state (fst session))),
      bk_findEntriesOnBranch = (\<lambda>query bounds start session. findEntriesOnBranch query bounds start (jl_state (fst session))),
      bk_findRecords = (\<lambda>query session. findRecords query (jl_state (fst session))),
      bk_findOpenOperations = (\<lambda>lane limit session. findOpenOperations lane limit (jl_state (fst session))),
      bk_getLog = (\<lambda>options session. getLog options (jl_state (fst session))),
      bk_appendEntry = (\<lambda>now pe lane session.
        case jl_appendEntry nt now pe lane (fst session) (snd session) of
          (Inl e, d) \<Rightarrow> (Inl e, fst session, d)
        | (Inr (e, st), d) \<Rightarrow> (Inr e, st, d)),
      bk_appendRecord = (\<lambda>now nr session.
        case jl_appendRecord nt now nr (fst session) (snd session) of
          (Inl e, d) \<Rightarrow> (Inl e, fst session, d)
        | (Inr (r, st), d) \<Rightarrow> (Inr r, st, d))\<rparr>"

lemma jl_appendEntry_submit:
  "(case jl_appendEntry nt now pe lane (fst session) (snd session) of
      (Inl e, d) \<Rightarrow> (Inl e, fst session, d) | (Inr (e, st), d) \<Rightarrow> (Inr e, st, d)) =
   (case jl_submit nt now (AppendEntry pe lane) session of
      (Inl e, session') \<Rightarrow> (Inl e, session')
    | (Inr u, session') \<Rightarrow>
        (Inr (new_entry now pe (the (map_of (lanes (jl_state (fst session))) lane)) (jl_state (fst session))), session'))"
proof (cases "requireLane lane (jl_state (fst session))")
  case (Inr parentId)
  then have "map_of (lanes (jl_state (fst session))) lane = Some parentId"
    by (auto simp: requireLane_def split: option.splits)
  with Inr show ?thesis
    by (cases "validateUnusedId (p_id pe) (jl_state (fst session))")
      (auto simp: jl_submit_def enqueue_def jl_appendEntry_def Let_def bindIO_def returnIO_def sumIO_def
        split: prod.splits sum.splits)
qed (simp add: jl_submit_def enqueue_def jl_appendEntry_def sumIO_def)

interpretation jl_view: session_backend "jl_submit nt" "\<lambda>session. jl_state (fst session)"
  "\<lambda>session. session_ok (jl_state (fst session))" "\<lambda>session. next_works (snd session)" "jsonl_backend nt" for nt
  by unfold_locales (simp_all add: jsonl_backend_def jl_appendEntry_submit)

section \<open>Lines\<close>

definition unlines :: "jsstr list \<Rightarrow> jsstr" where
  "unlines ls = concat (map (\<lambda>l. l @ [10]) ls)"

lemma unlines_simps [simp]: "unlines [] = []" "unlines (l # ls) = l @ 10 # unlines ls" "unlines (ls @ ks) = unlines ls @ unlines ks"
  by (simp_all add: unlines_def)

lemma split_line: "10 \<notin> set l \<Longrightarrow> split_newlines (l @ 10 # s) = l # split_newlines s"
  by (induction l) auto

lemma split_rest: "10 \<notin> set l \<Longrightarrow> split_newlines l = [l]"
  by (induction l) auto

lemma split_unlines: "list_all (\<lambda>l. 10 \<notin> set l) ls \<Longrightarrow> split_newlines (unlines ls @ t) = ls @ split_newlines t"
  by (induction ls) (simp_all add: split_line)

lemma physical_unlines:
  assumes "list_all (\<lambda>l. 10 \<notin> set l) ls"
  shows "physical_lines (unlines ls) = ls" "10 \<notin> set t \<Longrightarrow> t \<noteq> [] \<Longrightarrow> physical_lines (unlines ls @ t) = ls @ [t]"
  using split_unlines [OF assms, of "[]"] split_unlines [OF assms, of t]
  by (simp_all add: physical_lines_def split_rest)

lemma join_unlines: "ls \<noteq> [] \<Longrightarrow> join_newlines ls @ [10] = unlines ls"
  by (induction ls rule: join_newlines.induct) simp_all

lemma printable_no_newline: "printable s \<Longrightarrow> 10 \<notin> set s"
  by (auto simp: list_all_iff)

section \<open>Files\<close>

abbreviation mutation_text :: "(jsnum \<Rightarrow> jsstr) \<Rightarrow> session_mutation \<Rightarrow> jsstr" where
  "mutation_text nt m \<equiv> json_text nt (mutation_object m)"

abbreviation header_text :: "(jsnum \<Rightarrow> jsstr) \<Rightarrow> jsonl_header \<Rightarrow> jsstr" where
  "header_text nt h \<equiv> json_text nt (header_object h)"

definition file_of :: "(jsnum \<Rightarrow> jsstr) \<Rightarrow> jsonl_header \<Rightarrow> session_mutation list \<Rightarrow> jsstr" where
  "file_of nt h ms = unlines (header_text nt h # map (mutation_text nt) ms)"

lemma file_of_snoc: "file_of nt h (ms @ [m]) = file_of nt h ms @ encodeMutation nt m"
  by (simp add: file_of_def encodeMutation_def)

lemma mutation_text_starts: "\<exists>t. mutation_text nt m = 123 # t"
  by (cases m) simp_all

lemma text_lines:
  assumes "number_format nt nr" "header_ok h" "list_all storable ms"
  shows "list_all (\<lambda>l. 10 \<notin> set l) (header_text nt h # map (mutation_text nt) ms)"
  using assms json_text_printable(1) [OF assms(1)]
  by (auto simp: list_all_iff header_ok_def storable_def intro!: printable_no_newline)

abbreviation replays_to :: "session_mutation list \<Rightarrow> session_state \<Rightarrow> session_state \<Rightarrow> bool" where
  "replays_to ms s s' \<equiv> foldE (applyMutation invalidMutation) ms s = Inr s'"

lemma replay_mutations:
  assumes "number_format nt nr" "list_all storable ms" "replays_to ms s s'"
  shows "replay_lines nr path i (map (mutation_text nt) ms @ ls) s = replay_lines nr path (i + length ms) ls s'"
  using assms(2,3)
proof (induction ms arbitrary: s i)
  case (Cons m ms)
  then obtain t where "applyMutation invalidMutation m s = Inr t" "replays_to ms t s'" by (auto simp: bindE_eq_Inr)
  with Cons show ?case using mutation_read [OF assms(1), of m] by simp
qed simp

section \<open>Reopening a file\<close>

text \<open>A disk on which every further call works.\<close>

abbreviation quiet :: "disk \<Rightarrow> bool" where
  "quiet d \<equiv> dk_outcomes d = []"

lemma content_put [simp]: "file_content p (put_file path t d) = (if p = path then Some t else file_content p d)"
  by (simp add: file_content_def put_file_def)

lemma quiet_put [simp]: "dk_outcomes (put_file path t d) = dk_outcomes d"
  by (simp add: put_file_def)

lemma quiet_after [simp]: "quiet d \<Longrightarrow> after_call d = d"
  by (cases d) (simp add: after_call_def)

lemma quiet_read: "quiet d \<Longrightarrow> file_content path d = Some t \<Longrightarrow> readTextFile path d = (Inr t, d)"
  by (simp add: readTextFile_def fs_call_cases)

lemma quiet_info: "quiet d \<Longrightarrow> file_content path d = Some t \<Longrightarrow> \<exists>mtime. fileInfo path d = (Inr mtime, d)"
  by (auto simp: fileInfo_def fs_call_cases file_content_def)

lemma quiet_append: "quiet d \<Longrightarrow> file_content path d = Some t \<Longrightarrow> appendFile path x d = (Inr (), put_file path (t @ x) d)"
  by (simp add: append_works old_content_def)

lemma quiet_write: "quiet d \<Longrightarrow> writeFile path x d = (Inr (), put_file path x d)"
  by (simp add: writeFile_def fs_call_cases)

lemma quiet_publish:
  assumes "quiet d"
  obtains d' where "\<And>msg. publishFileAtomically path (\<lambda>temp. fileResult (writeFile temp t) msg) d = (Inr (), d')" "quiet d'"
    "file_content path d' = Some t" "\<And>p. p \<noteq> path \<Longrightarrow> p \<noteq> path @ ''.tmp'' \<Longrightarrow> file_content p d' = file_content p d"
proof -
  let ?temp = "path @ ''.tmp''"
  let ?f = "\<lparr>fl_content = t, fl_mtime = dk_clock d\<rparr>"
  let ?d = "d\<lparr>dk_files := map_put path ?f (map_del ?temp (map_put ?temp ?f (dk_files d)))\<rparr>"
  have "publishFileAtomically path (\<lambda>temp. fileResult (writeFile temp t) msg) d = (Inr (), ?d)" for msg
    using assms
    by (simp add: publishFileAtomically_def Let_def bindIO_def fileResult_def mapIO_def quiet_write renameFile_def fs_call_cases put_file_def)
  then show ?thesis using that [of ?d] assms by (auto simp: file_content_def)
qed

lemma load_step:
  assumes "number_format nt nr" "header_ok h" "quiet d" "file_content path d = Some t"
    "physical_lines t = header_text nt h # ls"
  obtains mtime where "jsonl_load nr path d =
    (let st = \<lparr>jl_metadata = metadataFromHeader h path mtime, jl_state = new_state\<rparr> in
     case replay_lines nr path 1 ls new_state of
       ReplayFailed e \<Rightarrow> (Inl e, d)
     | TornTail index s \<Rightarrow>
         bindIO (mapIO LoadError (publishFileAtomically path (\<lambda>temp.
           fileResult (writeFile temp (join_newlines (take index (header_text nt h # ls)) @ [10]))
             (''Failed to stage torn-tail repair '' @ path)))) (\<lambda>_. returnIO (st\<lparr>jl_state := s\<rparr>)) d
     | Replayed s \<Rightarrow>
         if last t = 10 then (Inr (st\<lparr>jl_state := s\<rparr>), d) else (Inr (st\<lparr>jl_state := s\<rparr>), put_file path (t @ [10]) d))"
proof -
  obtain mtime where info: "fileInfo path d = (Inr mtime, d)" using quiet_info [OF assms(3,4)] by blast
  have "header_text nt h \<noteq> []" by (simp add: header_object_def)
  then show ?thesis
    using assms(3-5) header_read [OF assms(1,2)] info quiet_read [OF assms(3,4)] quiet_append [OF assms(3,4), of "[10]"]
    by (intro that [of mtime])
      (auto simp: jsonl_load_def bindIO_def mapIO_def fileResult_def sumIO_def returnIO_def new_jsonl_storage_def Let_def
        split: replay.splits)
qed

lemma last_unlines: "ls \<noteq> [] \<Longrightarrow> last (unlines ls) = 10"
  by (induction ls rule: rev_induct) simp_all

lemma load_complete:
  assumes "number_format nt nr" "header_ok h" "list_all storable ms" "replays_to ms new_state s"
    "quiet d" "file_content path d = Some (file_of nt h ms)"
  obtains mtime where "jsonl_load nr path d = (Inr \<lparr>jl_metadata = metadataFromHeader h path mtime, jl_state = s\<rparr>, d)"
proof -
  have "physical_lines (file_of nt h ms) = header_text nt h # map (mutation_text nt) ms"
    using physical_unlines(1) [OF text_lines [OF assms(1-3)]] by (simp add: file_of_def)
  then show ?thesis
    by (rule load_step [OF assms(1,2,5,6)])
      (rule that, use replay_mutations [OF assms(1,3,4), of path 1 "[]"] in \<open>simp add: file_of_def last_unlines Let_def del: unlines_simps\<close>)
qed

lemma load_torn:
  assumes "number_format nt nr" "header_ok h" "list_all storable ms" "replays_to ms new_state s"
    "quiet d" "file_content path d = Some (file_of nt h ms @ t)" "t \<noteq> []" "10 \<notin> set t"
    "decodeMutation nr t = Inl (JsonlDecodeError SyntaxKind msg)"
  obtains mtime d' where "jsonl_load nr path d = (Inr \<lparr>jl_metadata = metadataFromHeader h path mtime, jl_state = s\<rparr>, d')"
    "quiet d'" "file_content path d' = Some (file_of nt h ms)"
    "\<And>p. p \<noteq> path \<Longrightarrow> p \<noteq> path @ ''.tmp'' \<Longrightarrow> file_content p d' = file_content p d"
proof -
  have lines: "physical_lines (file_of nt h ms @ t) = header_text nt h # (map (mutation_text nt) ms @ [t])"
    using physical_unlines(2) [OF text_lines [OF assms(1-3)] assms(8,7)] by (simp add: file_of_def)
  have replay: "replay_lines nr path 1 (map (mutation_text nt) ms @ [t]) new_state = TornTail (Suc (length ms)) s"
    using replay_mutations [OF assms(1,3,4), of path 1 "[t]"] assms(9) by simp
  have prefix: "join_newlines (take (Suc (length ms)) (header_text nt h # (map (mutation_text nt) ms @ [t]))) @ [10] = file_of nt h ms"
    by (simp add: file_of_def join_unlines del: join_newlines.simps unlines_simps(2))
  obtain d' where d': "\<And>msg. publishFileAtomically path (\<lambda>temp. fileResult (writeFile temp (file_of nt h ms)) msg) d = (Inr (), d')"
    "quiet d'" "file_content path d' = Some (file_of nt h ms)"
    "\<And>p. p \<noteq> path \<Longrightarrow> p \<noteq> path @ ''.tmp'' \<Longrightarrow> file_content p d' = file_content p d"
    using quiet_publish [OF assms(5)] by blast
  show ?thesis
    by (rule load_step [OF assms(1,2,5,6) lines])
      (rule that [OF _ d'(2-4)], erule trans,
        simp only: replay prefix replay.case Let_def d'(1) bindIO_def mapIO_def returnIO_def prod.case sum.case
          jsonl_storage.update_convs)
qed

lemma load_unterminated:
  assumes "number_format nt nr" "header_ok h" "list_all storable (ms @ [m])" "replays_to (ms @ [m]) new_state s"
    "quiet d" "file_content path d = Some (file_of nt h ms @ mutation_text nt m)"
  obtains mtime where "jsonl_load nr path d =
    (Inr \<lparr>jl_metadata = metadataFromHeader h path mtime, jl_state = s\<rparr>, put_file path (file_of nt h (ms @ [m])) d)"
proof -
  have line: "10 \<notin> set (mutation_text nt m)" "mutation_text nt m \<noteq> []"
    using text_lines [OF assms(1-3)] mutation_text_starts [of nt m] by auto
  have lines: "physical_lines (file_of nt h ms @ mutation_text nt m) = header_text nt h # map (mutation_text nt) (ms @ [m])"
    using physical_unlines(2) [OF text_lines [OF assms(1,2)], of ms] line assms(3) by (simp add: file_of_def)
  have replay: "replay_lines nr path 1 (map (mutation_text nt) (ms @ [m])) new_state = Replayed s"
    using replay_mutations [OF assms(1,3,4), of path 1 "[]"] by simp
  have "(last (file_of nt h ms @ mutation_text nt m) = 10) = False" using line last_in_set by fastforce
  note replay = replay this
  show ?thesis
    by (rule load_step [OF assms(1,2,5,6) lines])
      (rule that, erule trans, simp only: replay Let_def replay.case if_False jsonl_storage.update_convs file_of_snoc
        encodeMutation_def append_assoc)
qed

section \<open>Runs without partial writes\<close>

text \<open>The file holds the header and the mutations that lead to the state in memory.\<close>

definition stored :: "(jsnum \<Rightarrow> jsstr) \<Rightarrow> string \<Rightarrow> jsonl_header \<Rightarrow> session_mutation list \<Rightarrow> jsonl_storage \<times> disk \<Rightarrow> bool" where
  "stored nt path h ms session \<longleftrightarrow>
     jm_path (jl_metadata (fst session)) = path \<and> session_ok (jl_state (fst session)) \<and>
     file_content path (snd session) = Some (file_of nt h ms) \<and> list_all storable ms \<and>
     replays_to ms new_state (jl_state (fst session))"

fun clean_outcome :: "fs_outcome \<Rightarrow> bool" where
  "clean_outcome (Fails e (Some n)) = False"
| "clean_outcome _ = True"

abbreviation clean :: "disk \<Rightarrow> bool" where
  "clean d \<equiv> list_all clean_outcome (dk_outcomes d)"

primrec all_storable :: "(jsnum \<Rightarrow> jsstr) \<Rightarrow> (int \<times> storage_request) list \<Rightarrow> jsonl_storage \<times> disk \<Rightarrow> bool" where
  "all_storable nt [] session = True"
| "all_storable nt (r # rs) session =
     ((case request_mutation (fst r) (snd r) (jl_state (fst session)) of Inl e \<Rightarrow> True | Inr m \<Rightarrow> storable m) \<and>
      all_storable nt rs (snd (jl_submit nt (fst r) (snd r) session)))"

lemma content_after_call [simp]: "file_content p (after_call d) = file_content p d" "clean d \<Longrightarrow> clean (after_call d)"
  by (simp_all add: file_content_def after_call_def) (cases "dk_outcomes d"; simp)

lemma clean_put [simp]: "clean (put_file path t d) = clean d"
  by simp

lemma partial_append_clean: "clean d \<Longrightarrow> partial_append path t d = after_call d"
  by (cases "dk_outcomes d" rule: list.exhaust; cases "hd (dk_outcomes d)"; cases "dk_outcomes d")
    (auto simp: partial_append_def split: option.splits fs_outcome.splits list.splits)

lemma stored_step:
  assumes "stored nt path h ms (st, d)" "clean d"
    "case request_mutation now req (jl_state st) of Inl e \<Rightarrow> True | Inr m \<Rightarrow> storable m"
  shows "\<exists>ms'. stored nt path h ms' (snd (jl_submit nt now req (st, d)))" "clean (snd (snd (jl_submit nt now req (st, d))))"
proof -
  note st = assms(1) [unfolded stored_def, simplified]
  have "(\<exists>ms'. stored nt path h ms' (snd (jl_submit nt now req (st, d)))) \<and> clean (snd (snd (jl_submit nt now req (st, d))))"
  proof (cases "request_mutation now req (jl_state st)")
    case (Inl e)
    then show ?thesis using jl_submit_rejected assms by auto
  next
    case (Inr m)
    show ?thesis
    proof (cases "next_works d")
      case True
      have "old_content path d = file_of nt h ms" using st by (simp add: old_content_def)
      moreover have "session_ok (mutate m (jl_state st))"
        using perform_ok accepted_applies(2) [OF _ Inr] st by blast
      moreover have "replays_to (ms @ [m]) new_state (mutate m (jl_state st))"
        using st accepted_applies(1) [OF _ Inr] by (simp add: foldE_append)
      ultimately have "stored nt path h (ms @ [m]) (snd (jl_submit nt now req (st, d)))"
        using jl_submit_succeeds [OF _ Inr True] st assms(3) Inr by (simp add: stored_def file_of_snoc)
      then show ?thesis using jl_submit_succeeds [OF _ Inr True, of nt] st assms(2) by auto
    next
      case False
      then obtain e where "jl_submit nt now req (st, d) = (Inl e, st, after_call d)"
        using jl_submit_fails [OF Inr False, of nt] partial_append_clean [OF assms(2)] st by metis
      then show ?thesis using assms(1,2) by (auto simp: stored_def)
    qed
  qed
  then show "\<exists>ms'. stored nt path h ms' (snd (jl_submit nt now req (st, d)))" "clean (snd (snd (jl_submit nt now req (st, d))))"
    by auto
qed

lemma stored_run:
  assumes "stored nt path h ms session" "clean (snd session)" "all_storable nt rs session"
  shows "\<exists>ms'. stored nt path h ms' (submit_all (jl_submit nt) rs session)"
  using assms
proof (induction rs arbitrary: ms session)
  case (Cons r rs)
  obtain st d where session: "session = (st, d)" by (cases session)
  obtain ms' where "stored nt path h ms' (snd (jl_submit nt (fst r) (snd r) session))"
    "clean (snd (snd (jl_submit nt (fst r) (snd r) session)))"
    using stored_step [of nt path h ms st d "fst r" "snd r"] Cons.prems session by auto
  then show ?case using Cons.IH Cons.prems(3) by simp
qed auto

lemma create_stored:
  assumes "jsonl_create nt path h d = (Inr st, d')"
  shows "stored nt path h [] (st, d')"
proof -
  have "file_content path d' = Some (encodeHeader nt h)" "jm_path (jl_metadata st) = path" "jl_state st = new_state"
    using assms
    by (auto simp: jsonl_create_def bindIO_def fileResult_def mapIO_def writeFile_def fileInfo_def fs_call_cases returnIO_def
        new_jsonl_storage_def metadataFromHeader_def split: prod.splits sum.splits list.splits fs_outcome.splits option.splits)
  then show ?thesis by (simp add: stored_def new_session_ok file_of_def encodeHeader_def)
qed

lemma quiet_load_stored:
  assumes "number_format nt nr" "header_ok h" "stored nt path h ms (st, d)"
  obtains mtime where "jsonl_load nr path (d\<lparr>dk_outcomes := []\<rparr>) =
    (Inr \<lparr>jl_metadata = metadataFromHeader h path mtime, jl_state = jl_state st\<rparr>, d\<lparr>dk_outcomes := []\<rparr>)"
  using load_complete [OF assms(1,2), of ms "jl_state st" "d\<lparr>dk_outcomes := []\<rparr>" path] assms(3) that
  by (auto simp: stored_def file_content_def)

section \<open>Crashes\<close>

lemma cut_line_is_torn:
  assumes "number_format nt nr" "storable m" "k < length (mutation_text nt m)"
  shows "\<exists>msg. decodeMutation nr (take k (mutation_text nt m)) = Inl (JsonlDecodeError SyntaxKind msg)"
proof -
  obtain ps where ps: "mutation_object m = obj ps" by (cases m) simp_all
  have "json_parse nr (take k (mutation_text nt m)) = None"
    using cut_object_rejected [OF assms(1), of ProtoObject False ps _ "drop k (mutation_text nt m)"] assms(2,3) ps
    by (simp add: storable_def)
  then show ?thesis by (simp add: decodeMutation_def parseObject_def)
qed

lemma crash_reload:
  assumes "number_format nt nr" "header_ok h" "stored nt path h ms (st, d)"
    "request_mutation now req (jl_state st) = Inr m" "storable m"
    "quiet c" "file_content path c = Some (file_of nt h ms @ take k (encodeMutation nt m))"
  defines "s \<equiv> if k < length (mutation_text nt m) then jl_state st else mutate m (jl_state st)"
  shows "\<exists>c' mtime ms'. jsonl_load nr path c = (Inr \<lparr>jl_metadata = metadataFromHeader h path mtime, jl_state = s\<rparr>, c') \<and>
    quiet c' \<and> file_content path c' = Some (file_of nt h ms') \<and> list_all storable ms' \<and> replays_to ms' new_state s"
proof -
  let ?t = "mutation_text nt m"
  have ms: "list_all storable ms" "replays_to ms new_state (jl_state st)" using assms(3) by (simp_all add: stored_def)
  have "session_ok (jl_state st)" using assms(3) by (simp add: stored_def)
  then have m: "list_all storable (ms @ [m])" "replays_to (ms @ [m]) new_state (mutate m (jl_state st))"
    using ms assms(5) accepted_applies(1) [OF _ assms(4)] by (simp_all add: foldE_append)
  consider (none) "k = 0" | (cut) "0 < k" "k < length ?t" | (all) "k = length ?t" | (newline) "length ?t < k" by linarith
  then show ?thesis
  proof cases
    case none
    have "?t \<noteq> []" using mutation_text_starts [of nt m] by auto
    then have "s = jl_state st" using none by (simp add: s_def)
    moreover obtain mtime where "jsonl_load nr path c = (Inr \<lparr>jl_metadata = metadataFromHeader h path mtime, jl_state = jl_state st\<rparr>, c)"
      using load_complete [OF assms(1,2) ms assms(6), of path] assms(7) none by auto
    ultimately show ?thesis using ms assms(6,7) none by auto
  next
    case cut
    have t: "take k (encodeMutation nt m) = take k ?t" "take k ?t \<noteq> []" "10 \<notin> set (take k ?t)"
      using cut text_lines [OF assms(1,2) m(1)] by (auto simp: encodeMutation_def dest: in_set_takeD)
    obtain msg where "decodeMutation nr (take k ?t) = Inl (JsonlDecodeError SyntaxKind msg)"
      using cut_line_is_torn [OF assms(1,5) cut(2)] by blast
    then obtain mtime c' where "jsonl_load nr path c = (Inr \<lparr>jl_metadata = metadataFromHeader h path mtime, jl_state = jl_state st\<rparr>, c')"
      "quiet c'" "file_content path c' = Some (file_of nt h ms)"
      using load_torn [OF assms(1,2) ms assms(6), of path "take k ?t" msg] assms(7) t by metis
    then show ?thesis using ms cut by (auto simp: s_def)
  next
    case all
    then obtain mtime where "jsonl_load nr path c =
        (Inr \<lparr>jl_metadata = metadataFromHeader h path mtime, jl_state = mutate m (jl_state st)\<rparr>, put_file path (file_of nt h (ms @ [m])) c)"
      using load_unterminated [OF assms(1,2) m assms(6), of path] assms(7) by (auto simp: encodeMutation_def)
    then show ?thesis using m assms(6) all
      by (intro exI [of _ "put_file path (file_of nt h (ms @ [m])) c"] exI [of _ mtime] exI [of _ "ms @ [m]"]) (simp add: s_def)
  next
    case newline
    then have whole: "file_content path c = Some (file_of nt h (ms @ [m]))"
      using assms(7) by (simp add: encodeMutation_def file_of_snoc)
    obtain mtime where
      "jsonl_load nr path c = (Inr \<lparr>jl_metadata = metadataFromHeader h path mtime, jl_state = mutate m (jl_state st)\<rparr>, c)"
      using load_complete [OF assms(1,2) m assms(6) whole] by blast
    then show ?thesis using whole m assms(6) newline
      by (intro exI [of _ c] exI [of _ mtime] exI [of _ "ms @ [m]"]) (simp add: s_def)
  qed
qed

section \<open>Forks\<close>

text \<open>Calls on one file leave the others alone, whatever the outcomes.\<close>

definition only_touches :: "string \<Rightarrow> disk \<Rightarrow> disk \<Rightarrow> bool" where
  "only_touches path d d' \<longleftrightarrow> (\<forall>p. p \<noteq> path \<longrightarrow> file_content p d' = file_content p d)"

lemma only_touches_trans: "only_touches path d d' \<Longrightarrow> only_touches path d' d'' \<Longrightarrow> only_touches path d d''"
  by (simp add: only_touches_def)

lemma touches_calls:
  "appendFile path t d = (r, d') \<Longrightarrow> only_touches path d d'"
  "writeFile path t d = (r, d') \<Longrightarrow> only_touches path d d'"
  "fileInfo path d = (i, d') \<Longrightarrow> only_touches path d d' \<and> file_content path d' = file_content path d"
  "removeFile path d = (r, d') \<Longrightarrow> only_touches path d d'"
  by (auto simp: appendFile_def writeFile_def fileInfo_def removeFile_def fs_call_cases only_touches_def
      file_content_def put_file_def after_call_def split: list.splits fs_outcome.splits option.splits prod.splits)

lemma append_all_touches:
  "append_all nt ms st d = (r, d') \<Longrightarrow> only_touches (jm_path (jl_metadata st)) d d' \<and>
     (\<forall>st'. r = Inr st' \<longrightarrow> (\<forall>t. file_content (jm_path (jl_metadata st)) d = Some t \<longrightarrow>
        file_content (jm_path (jl_metadata st)) d' = Some (t @ concat (map (encodeMutation nt) ms))))"
proof (induction ms arbitrary: st d)
  case Nil
  then show ?case by (auto simp: returnIO_def only_touches_def)
next
  case (Cons m ms)
  let ?path = "jm_path (jl_metadata st)"
  obtain a d1 where a: "appendFile ?path (encodeMutation nt m) d = (a, d1)" by fastforce
  have touch: "only_touches ?path d d1" by (rule touches_calls(1) [OF a])
  have grow: "file_content ?path d1 = Some (t @ encodeMutation nt m)" if "a = Inr ()" "file_content ?path d = Some t" for t
    using a that
    by (auto simp: appendFile_def fs_call_cases old_content_def file_content_def put_file_def after_call_def
        split: list.splits fs_outcome.splits option.splits)
  show ?case
  proof (cases "\<exists>s. a = Inr () \<and> applyMutation invalidMutation m (jl_state st) = Inr s")
    case True
    then obtain s where s: "a = Inr ()" "applyMutation invalidMutation m (jl_state st) = Inr s" by blast
    then have "append_all nt ms (st\<lparr>jl_state := s\<rparr>) d1 = (r, d')"
      using Cons.prems a
      by (simp add: append_and_apply_def appendMutation_def fileResult_def mapIO_def bindIO_def sumIO_def jl_applyMutation_def)
    from Cons.IH [OF this] show ?thesis using touch grow s(1) by (auto intro: only_touches_trans)
  next
    case False
    then have "\<exists>e. r = Inl e" "d' = d1"
      using Cons.prems a
      by (auto simp: append_and_apply_def appendMutation_def fileResult_def mapIO_def bindIO_def sumIO_def jl_applyMutation_def bindE_def
          split: sum.splits prod.splits)
    then show ?thesis using touch by auto
  qed
qed

lemma rename_effect:
  assumes "renameFile a b d = (r, d')" "a \<noteq> b"
  shows "r = Inr u \<Longrightarrow> file_content b d' = file_content a d" "r = Inl e \<Longrightarrow> file_content b d' = file_content b d"
    "p \<noteq> a \<Longrightarrow> p \<noteq> b \<Longrightarrow> file_content p d' = file_content p d"
  using assms
  by (auto simp: renameFile_def fs_call_cases file_content_def after_call_def
      split: list.splits fs_outcome.splits option.splits)

lemma publish_effect:
  assumes "publishFileAtomically path populate d = (r, d')" "populate (path @ ''.tmp'') d = (r1, d1)"
    "only_touches (path @ ''.tmp'') d d1"
  shows "r = Inl e \<Longrightarrow> file_content path d' = file_content path d"
    "r = Inr u \<Longrightarrow> r1 = Inr () \<and> file_content path d' = file_content (path @ ''.tmp'') d1"
    "p \<noteq> path \<Longrightarrow> p \<noteq> path @ ''.tmp'' \<Longrightarrow> file_content p d' = file_content p d"
proof -
  let ?temp = "path @ ''.tmp''"
  obtain r2 d2 where r2: "renameFile ?temp path d1 = (r2, d2)" by fastforce
  obtain r3 d3 where r3: "removeFile ?temp (if r1 = Inr () then d2 else d1) = (r3, d3)" by fastforce
  have temp: "?temp \<noteq> path" by simp
  note rename = rename_effect [OF r2 temp]
  have *: "(r = Inl e \<longrightarrow> file_content path d' = file_content path d) \<and>
      (r = Inr u \<longrightarrow> r1 = Inr () \<and> file_content path d' = file_content ?temp d1) \<and>
      (p \<noteq> path \<and> p \<noteq> ?temp \<longrightarrow> file_content p d' = file_content p d)" for e u p
  proof (cases "r1")
    case (Inl x)
    then have "d' = d3" "r = Inl x"
      using assms(1,2) r3 by (auto simp: publishFileAtomically_def Let_def bindIO_def)
    then show ?thesis using touches_calls(4) [OF r3] assms(3) Inl by (auto simp: only_touches_def)
  next
    case (Inr x)
    show ?thesis
    proof (cases r2)
      case (Inl y)
      then have "d' = d3" "\<exists>x. r = Inl x"
        using assms(1,2) r2 r3 Inr by (auto simp: publishFileAtomically_def Let_def bindIO_def fileResult_def mapIO_def)
      then show ?thesis
        using touches_calls(4) [OF r3] assms(3) Inr rename(2) [OF Inl] rename(3) [of p] by (auto simp: only_touches_def)
    next
      case ok: (Inr y)
      then have "d' = d2" "r = Inr ()"
        using assms(1,2) r2 Inr by (auto simp: publishFileAtomically_def Let_def bindIO_def fileResult_def mapIO_def)
      then show ?thesis using assms(3) Inr rename(1) [OF ok] rename(3) [of p] by (auto simp: only_touches_def)
    qed
  qed
  show "r = Inl e \<Longrightarrow> file_content path d' = file_content path d"
    "r = Inr u \<Longrightarrow> r1 = Inr () \<and> file_content path d' = file_content (path @ ''.tmp'') d1"
    "p \<noteq> path \<Longrightarrow> p \<noteq> path @ ''.tmp'' \<Longrightarrow> file_content p d' = file_content p d"
    using * by blast+
qed

lemma load_complete_any:
  assumes "number_format nt nr" "header_ok h" "list_all storable ms" "replays_to ms new_state s"
    "file_content path d = Some (file_of nt h ms)" "jsonl_load nr path d = (r, d')"
  shows "file_content p d' = file_content p d" "r = Inr st \<Longrightarrow> jl_state st = s"
proof -
  have lines: "physical_lines (file_of nt h ms) = header_text nt h # map (mutation_text nt) ms"
    using physical_unlines(1) [OF text_lines [OF assms(1-3)]] by (simp add: file_of_def)
  have last: "last (file_of nt h ms) = 10" by (simp add: file_of_def last_unlines del: unlines_simps)
  have "header_text nt h \<noteq> []" by (simp add: header_object_def)
  moreover obtain r1 d1 where r1: "readTextFile path d = (r1, d1)" by fastforce
  moreover obtain r2 d2 where r2: "fileInfo path d1 = (r2, d2)" by fastforce
  moreover have c: "file_content p d1 = file_content p d" "file_content p d2 = file_content p d1" for p
    using r1 r2 by (auto simp: readTextFile_def fileInfo_def fs_call_cases file_content_def after_call_def
        split: list.splits fs_outcome.splits option.splits)
  moreover have "r1 = Inr (file_of nt h ms) \<or> (\<exists>e. r1 = Inl e)"
    using r1 assms(5) by (auto simp: readTextFile_def fs_call_cases split: list.splits fs_outcome.splits option.splits)
  ultimately have "(d' = d1 \<or> d' = d2) \<and> (\<forall>st. r = Inr st \<longrightarrow> jl_state st = s)"
    using assms(6) lines last header_read [OF assms(1,2)] replay_mutations [OF assms(1,3,4), of path 1 "[]"]
    by (cases r2) (auto simp: jsonl_load_def bindIO_def mapIO_def fileResult_def sumIO_def returnIO_def new_jsonl_storage_def Let_def)
  then show "file_content p d' = file_content p d" "r = Inr st \<Longrightarrow> jl_state st = s" using c by auto
qed

lemma create_effect:
  assumes "jsonl_create nt path h d = (r, d')"
  shows "only_touches path d d'"
    "r = Inr st \<Longrightarrow> file_content path d' = Some (encodeHeader nt h) \<and> jm_path (jl_metadata st) = path \<and> jl_state st = new_state"
proof -
  obtain a d1 where a: "writeFile path (encodeHeader nt h) d = (a, d1)" by fastforce
  obtain b d2 where b: "fileInfo path d1 = (b, d2)" by fastforce
  have "a = Inr () \<Longrightarrow> file_content path d1 = Some (encodeHeader nt h)"
    using a by (auto simp: writeFile_def fs_call_cases split: list.splits fs_outcome.splits option.splits)
  moreover have "d' = (if a = Inr () then d2 else d1)" "r = Inr st \<Longrightarrow> a = Inr () \<and> jm_path (jl_metadata st) = path \<and> jl_state st = new_state"
    using assms a b
    by (auto simp: jsonl_create_def bindIO_def fileResult_def mapIO_def returnIO_def new_jsonl_storage_def metadataFromHeader_def
        split: sum.splits prod.splits)
  ultimately show "only_touches path d d'"
    "r = Inr st \<Longrightarrow> file_content path d' = Some (encodeHeader nt h) \<and> jm_path (jl_metadata st) = path \<and> jl_state st = new_state"
    using touches_calls(2) [OF a] touches_calls(3) [OF b] by (auto intro: only_touches_trans)
qed

lemma populate_effect:
  assumes "bindIO (jsonl_create nt temp h) (\<lambda>target. bindIO (append_all nt ms target) (\<lambda>_. returnIO ())) d = (r, d')"
  shows "only_touches temp d d'" "r = Inr u \<Longrightarrow> file_content temp d' = Some (file_of nt h ms)"
proof -
  obtain a d1 where a: "jsonl_create nt temp h d = (a, d1)" by fastforce
  note created = create_effect [OF a]
  have whole: "encodeHeader nt h @ concat (map (encodeMutation nt) ms) = file_of nt h ms"
    by (simp add: file_of_def encodeHeader_def encodeMutation_def [abs_def] unlines_def comp_def)
  have "only_touches temp d d' \<and> (\<forall>u. r = Inr u \<longrightarrow> file_content temp d' = Some (file_of nt h ms))"
  proof (cases a)
    case (Inl e)
    then show ?thesis using assms a created(1) by (auto simp: bindIO_def)
  next
    case (Inr target)
    obtain b d2 where b: "append_all nt ms target d1 = (b, d2)" by fastforce
    have "d' = d2" "r = Inr u \<Longrightarrow> b \<in> range Inr" for u
      using assms a b Inr by (auto simp: bindIO_def returnIO_def split: sum.splits)
    then show ?thesis
      using append_all_touches [OF b] created(1) created(2) [OF Inr] whole by (auto intro: only_touches_trans)
  qed
  then show "only_touches temp d d'" "r = Inr u \<Longrightarrow> file_content temp d' = Some (file_of nt h ms)" by auto
qed

section \<open>Example\<close>

text \<open>A text for the numbers that are not safe integers, of the form the language promises.\<close>

definition plain_nt :: "jsnum \<Rightarrow> jsstr" where
  "plain_nt n =
     (case n of Integral i \<Rightarrow> js_of (show_int i) @ [101, 48] | Fractional b \<Rightarrow> js_of (show_nat (unat b)) @ [101, 49])"

definition plain_nr :: "jsstr \<Rightarrow> jsnum" where
  "plain_nr s =
     (let t = butlast (butlast s); v = digits_value (unsigned_part t) in
      if last s = 49 then Fractional (word_of_nat v)
      else Integral (if unsigned_part t = t then int v else - int v))"

lemma plain_text:
  assumes "list_all is_digit d" "d \<noteq> []" "d = [48] \<or> hd d \<noteq> 48" "x = 48 \<or> x = 49" "s = d \<or> s = 45 # d"
  defines "t \<equiv> s @ [101, x]"
  shows "list_all is_number_unit t" "number_ok t" "\<not> is_safe_literal t" "butlast (butlast t) = s" "unsigned_part s = d"
    "(unsigned_part s = s) = (s = d)"
proof -
  have d: "hd d \<noteq> 45" using assms(1,2) by (cases d) (auto simp: is_digit_def)
  then show u: "unsigned_part s = d" using assms(2,5) by (cases d) (auto simp: unsigned_part_def)
  have ut: "unsigned_part t = d @ [101, x]" using d assms(2,5) by (cases d) (auto simp: t_def unsigned_part_def)
  have e: "\<not> is_digit 101" "is_digit x" "is_number_unit 101" "is_number_unit 45"
    using assms(4) by (auto simp: is_digit_def is_number_unit_def)
  then show "list_all is_number_unit t"
    using assms(1,5) by (auto simp: t_def list_all_iff is_number_unit_def)
  have "takeWhile is_digit (d @ [101, x]) = d" "dropWhile is_digit (d @ [101, x]) = [101, x]"
    using assms(1) e(1) by (auto simp: list_all_iff takeWhile_append2 dropWhile_append2)
  then show "number_ok t"
    using assms(2,3,4) e unfolding number_ok_def ut Let_def by (auto simp: fraction_ok_def exponent_ok_def digits1_def)
  show "\<not> is_safe_literal t" unfolding is_safe_literal_def ut using e by simp
  show "butlast (butlast t) = s" by (simp add: t_def butlast_append)
  show "(unsigned_part s = s) = (s = d)" using u by auto
qed

lemma plain_format: "number_format plain_nt plain_nr"
proof -
  have "list_all is_number_unit (plain_nt n) \<and> number_ok (plain_nt n) \<and> \<not> is_safe_literal (plain_nt n) \<and> plain_nr (plain_nt n) = n" for n
  proof (cases n)
    case (Integral i)
    define d where "d = js_of (show_nat (nat \<bar>i\<bar>))"
    have d: "list_all is_digit d" "d \<noteq> []" "d = [48] \<or> hd d \<noteq> 48" "int (digits_value d) = \<bar>i\<bar>"
      using show_nat_digits [of "nat \<bar>i\<bar>"] by (auto simp: d_def js_of_def)
    define s where "s = js_of (show_int i)"
    have s: "s = d \<or> s = 45 # d" "(s = d) = (0 \<le> i)"
      by (auto simp: s_def d_def show_int_def js_of_Cons)
    note t = plain_text [OF d(1-3) _ s(1), of 48]
    show ?thesis
      using t d(4) s Integral by (auto simp: plain_nt_def plain_nr_def s_def [symmetric] Let_def)
  next
    case (Fractional b)
    define d where "d = js_of (show_nat (unat b))"
    have d: "list_all is_digit d" "d \<noteq> []" "d = [48] \<or> hd d \<noteq> 48" "digits_value d = unat b"
      using show_nat_digits [of "unat b"] by (auto simp: d_def js_of_def)
    note t = plain_text [OF d(1-3) _, of 49 d]
    show ?thesis
      using t d(4) Fractional by (auto simp: plain_nt_def plain_nr_def d_def [symmetric] Let_def)
  qed
  then show ?thesis by (simp add: number_format_def)
qed

definition sample_header :: jsonl_header where
  "sample_header = \<lparr>h_id = ''s'', h_createdAt = 5, h_cwd = ''/w'', h_parentSessionId = None, h_legacyParentSessionPath = None,
     h_metadata = None\<rparr>"

definition blank_disk :: disk where
  "blank_disk = \<lparr>dk_files = [], dk_dirs = [], dk_clock = 9, dk_outcomes = [Works, Works, Works, Fails (FileError FileUnknown ''busy'') None]\<rparr>"

definition sample_requests :: "(int \<times> storage_request) list" where
  "sample_requests = [(7, SetName (Some ''n'')), (8, SetName None),
     (9, AppendEntry \<lparr>p_id = ''a'', p_data = MessageEntry (UserMessage (str ''hi'') 6) False\<rparr> ''main'')]"

definition sample_session :: "jsonl_storage \<times> disk" where
  "sample_session =
     (\<lparr>jl_metadata = metadataFromHeader sample_header ''s.jsonl'' 9, jl_state = new_state\<rparr>,
      put_file ''s.jsonl'' (encodeHeader plain_nt sample_header) (blank_disk\<lparr>dk_outcomes := drop 2 (dk_outcomes blank_disk)\<rparr>))"

lemma sample_created: "jsonl_create plain_nt ''s.jsonl'' sample_header blank_disk = (Inr (fst sample_session), snd sample_session)"
  by (simp add: jsonl_create_def bindIO_def fileResult_def mapIO_def writeFile_def fileInfo_def fs_call_cases returnIO_def
      after_call_def put_file_def blank_disk_def sample_session_def new_jsonl_storage_def)

text \<open>Objects whose keys start with no digit enumerate them in the order in which they were written.\<close>

definition plain_props :: "props \<Rightarrow> bool" where
  "plain_props ps \<longleftrightarrow> distinct (map fst ps) \<and> list_all (\<lambda>p. array_index (fst p) = None) ps"

lemma plain_Nil: "plain_props []"
  by (simp add: plain_props_def)

lemma plain_ordered: "plain_props ps \<Longrightarrow> props_ordered ps"
  by (induction ps) (auto simp: plain_props_def props_ordered_def key_before_def list_all_iff)

lemma plain_field:
  assumes "k \<noteq> []" "\<not> (48 \<le> (of_char (hd k) :: nat) \<and> of_char (hd k) \<le> (57 :: nat))" "lacks [k] ps"
  shows "plain_props (field k v ps) = plain_props ps"
proof -
  have "array_index (js_of k) = None" using assms(1,2) by (cases k) (auto simp: array_index_def js_of_Cons is_digit_def)
  moreover have "js_of k \<notin> fst ` set ps" using assms(3) by (simp add: lacks_def map_of_eq_None_iff)
  ultimately show ?thesis by (auto simp: plain_props_def field_def split: option.split)
qed

lemma field_members: "json_members (field k v ps) = (pred_option json_tree v \<and> json_members ps)"
  by (cases v) (simp_all add: field_def)

lemma plain_object: "plain_props ps \<Longrightarrow> json_members ps \<Longrightarrow> json_tree (obj ps)"
  by (simp add: plain_ordered)

lemmas object_simps = plain_Nil plain_field field_members

lemma sample_header_ok: "header_ok sample_header"
proof -
  have "json_tree (header_object sample_header)"
    unfolding header_object_def sample_header_def
    by (rule plain_object) (simp_all add: object_simps)
  then show ?thesis by (simp add: header_ok_def sample_header_def clock_ok_def max_safe_integer_def)
qed

lemma sample_storable: "all_storable plain_nt sample_requests sample_session"
proof -
  have name: "storable (MutName q n)" if "q \<in> {1, 2}" for q n
  proof -
    have "json_tree (mutation_object (MutName q n))"
      unfolding mutation_object.simps by (rule plain_object) (cases n; simp add: object_simps)+
    then show ?thesis using that by (auto simp: storable_def max_safe_integer_def)
  qed
  have entry: "storable (MutEntry (Some ''main'') \<lparr>e_id = ''a'', e_seq = 2, e_parentId = None, e_timestamp = 9,
      e_data = MessageEntry (UserMessage (str ''hi'') 6) False\<rparr>)" (is "storable ?m")
  proof -
    have msg: "json_tree (json_of_message (UserMessage (str ''hi'') 6))"
      by (rule plain_object) (simp_all add: object_simps)
    have "json_tree (mutation_object ?m)"
      unfolding mutation_object.simps
      by (rule plain_object) (use msg in \<open>simp_all add: object_simps flag_def null_or_def\<close>)
    then show ?thesis by (simp add: storable_def max_safe_integer_def clock_ok_def)
  qed
  show ?thesis
    using name [of 1 "Some ''n''"] name [of 2 None] entry
    by (simp add: sample_requests_def sample_session_def jl_submit_cases appendFile_def fs_call_cases after_call_def put_file_def
        blank_disk_def applyMutation_def nextSequence_def new_state_def Let_def requireLane_def validateUnusedId_def new_entry_def numeral_2_eq_2)
qed

section \<open>Properties\<close>

text \<open>
  C13: a session file written without partial writes reopens to the state the session was left in:
  after creating a session and any sequence of writes, rejected and failed ones included, reading
  the file back gives exactly the state in memory and does not touch the file.
\<close>

theorem jsonl_reopen_same:
  assumes "number_format nt nr" "header_ok h" "jsonl_create nt path h d0 = (Inr st, d)" "clean d"
    "all_storable nt rs (st, d)" "submit_all (jl_submit nt) rs (st, d) = (st', d')"
  shows "\<exists>mtime. jsonl_load nr path (d'\<lparr>dk_outcomes := []\<rparr>) =
    (Inr \<lparr>jl_metadata = metadataFromHeader h path mtime, jl_state = jl_state st'\<rparr>, d'\<lparr>dk_outcomes := []\<rparr>)"
proof -
  obtain ms where "stored nt path h ms (st', d')"
    using stored_run [OF create_stored [OF assms(3)]] assms(4-6) by force
  then show ?thesis using quiet_load_stored [OF assms(1,2)] by blast
qed

theorem jsonl_reopen_same_witness:
  "\<exists>st d mtime. submit_all (jl_submit plain_nt) sample_requests sample_session = (st, d) \<and>
     jsonl_load plain_nr ''s.jsonl'' (d\<lparr>dk_outcomes := []\<rparr>) =
       (Inr \<lparr>jl_metadata = metadataFromHeader sample_header ''s.jsonl'' mtime, jl_state = jl_state st\<rparr>, d\<lparr>dk_outcomes := []\<rparr>)"
proof -
  obtain st d where run: "submit_all (jl_submit plain_nt) sample_requests sample_session = (st, d)"
    by (cases "submit_all (jl_submit plain_nt) sample_requests sample_session")
  have "clean (snd sample_session)" by (simp add: sample_session_def blank_disk_def)
  then show ?thesis
    using jsonl_reopen_same [OF plain_format sample_header_ok sample_created] sample_storable run by auto
qed

text \<open>
  C14: a crash in the middle of a write loses at most that write. Whatever part of the line had
  reached the file, reopening it succeeds: with the state after the write if the whole JSON text
  was there, else with the state before it; and it leaves a file that reopens to the same state.
\<close>

theorem jsonl_crash_atomic:
  assumes "number_format nt nr" "header_ok h" "jsonl_create nt path h d0 = (Inr st, d)" "clean d"
    "all_storable nt rs (st, d)" "submit_all (jl_submit nt) rs (st, d) = (st', d')"
    "request_mutation now req (jl_state st') = Inr m" "storable m"
    "quiet c" "file_content path c = Some (old_content path d' @ take k (encodeMutation nt m))"
  defines "s \<equiv> if k < length (mutation_text nt m) then jl_state st' else mutate m (jl_state st')"
  shows "\<exists>c' mtime mtime'.
    jsonl_load nr path c = (Inr \<lparr>jl_metadata = metadataFromHeader h path mtime, jl_state = s\<rparr>, c') \<and>
    jsonl_load nr path c' = (Inr \<lparr>jl_metadata = metadataFromHeader h path mtime', jl_state = s\<rparr>, c')"
proof -
  obtain ms where ms: "stored nt path h ms (st', d')"
    using stored_run [OF create_stored [OF assms(3)]] assms(4-6) by force
  then have "old_content path d' = file_of nt h ms" by (simp add: stored_def old_content_def)
  then obtain c' mtime ms' where c': "jsonl_load nr path c = (Inr \<lparr>jl_metadata = metadataFromHeader h path mtime, jl_state = s\<rparr>, c')"
    "quiet c'" "file_content path c' = Some (file_of nt h ms')" "list_all storable ms'" "replays_to ms' new_state s"
    using crash_reload [OF assms(1,2) ms assms(7-9), of k] assms(10) unfolding s_def by auto
  then obtain mtime' where "jsonl_load nr path c' = (Inr \<lparr>jl_metadata = metadataFromHeader h path mtime', jl_state = s\<rparr>, c')"
    using load_complete [OF assms(1,2) c'(4,5,2,3)] by blast
  with c'(1) show ?thesis by blast
qed

theorem jsonl_crash_atomic_witness:
  "\<exists>st' d' c' mtime. submit_all (jl_submit plain_nt) sample_requests sample_session = (st', d') \<and>
     jsonl_load plain_nr ''s.jsonl''
       (put_file ''s.jsonl'' (old_content ''s.jsonl'' d' @ [123]) (blank_disk\<lparr>dk_outcomes := []\<rparr>)) =
       (Inr \<lparr>jl_metadata = metadataFromHeader sample_header ''s.jsonl'' mtime, jl_state = jl_state st'\<rparr>, c')"
proof -
  obtain st d where run: "submit_all (jl_submit plain_nt) sample_requests sample_session = (st, d)"
    by (cases "submit_all (jl_submit plain_nt) sample_requests sample_session")
  have clean: "clean (snd sample_session)" by (simp add: sample_session_def blank_disk_def)
  let ?m = "MutName (nextSequence (jl_state st)) None"
  have st: "sequence (jl_state st) = 2"
    using arg_cong [OF run, of "\<lambda>x. sequence (jl_state (fst x))"]
    by (simp add: sample_requests_def sample_session_def jl_submit_cases appendFile_def fs_call_cases after_call_def put_file_def
        blank_disk_def applyMutation_def nextSequence_def new_state_def Let_def requireLane_def validateUnusedId_def new_entry_def
        check_lane_leaf_def check_parent_def add_entry_def)
  have "json_tree (mutation_object ?m)"
    unfolding mutation_object.simps by (rule plain_object) (simp_all add: object_simps)
  then have "storable ?m" using st by (simp add: storable_def nextSequence_def max_safe_integer_def)
  moreover obtain t where t: "mutation_text plain_nt ?m = 123 # t" using mutation_text_starts by blast
  moreover have "t \<noteq> []" using t by auto
  ultimately show ?thesis
    using jsonl_crash_atomic [OF plain_format sample_header_ok sample_created clean _ _, of sample_requests st d 0 "SetName None" ?m
        "put_file ''s.jsonl'' (old_content ''s.jsonl'' d @ [123]) (blank_disk\<lparr>dk_outcomes := []\<rparr>)" 1]
      sample_storable run
    by (auto simp: encodeMutation_def)
qed

text \<open>
  C15: a fork appears whole or not at all. Whatever calls fail, the file at the destination is as
  before and the fork reports an error, or it holds the complete fork; a fork that succeeds has
  the state the fork's mutations build; and no file but the destination and its temporary
  sibling changes.
\<close>

theorem jsonl_fork_atomic:
  assumes "number_format nt nr" "header_ok h" "session_ok (jl_state st)"
    "createForkMutations options (jl_state st) = Inr ms" "list_all storable ms"
    "jsonl_fork nt nr path h options st d = (r, d')"
  shows "((file_content path d' = file_content path d \<and> (\<exists>e. r = Inl e)) \<or>
      (file_content path d' = Some (file_of nt h ms) \<and> (\<forall>st'. r = Inr st' \<longrightarrow> replays_to ms new_state (jl_state st')))) \<and>
    (\<forall>p. p \<noteq> path \<and> p \<noteq> path @ ''.tmp'' \<longrightarrow> file_content p d' = file_content p d)"
proof -
  let ?populate = "\<lambda>temp. bindIO (jsonl_create nt temp h) (\<lambda>target. bindIO (append_all nt ms target) (\<lambda>_. returnIO ()))"
  obtain r1 d1 where r1: "?populate (path @ ''.tmp'') d = (r1, d1)" by fastforce
  note populated = populate_effect [OF r1]
  obtain r2 d2 where r2: "publishFileAtomically path ?populate d = (r2, d2)" by fastforce
  note published = publish_effect [OF r2 r1 populated(1)]
  have state: "state_ok (jl_state st)" using assms(3) by (simp add: session_ok_def)
  obtain copied ls where sel: "fork_selection options (jl_state st) = Inr (copied, ls)"
    using assms(4) by (auto simp: createForkMutations_def bindE_eq_Inr)
  obtain s where s: "replays_to ms new_state s" using fork_apply [OF state sel assms(4)] by blast
  have "((file_content path d' = file_content path d \<and> (\<exists>e. r = Inl e)) \<or>
      (file_content path d' = Some (file_of nt h ms) \<and> (\<forall>st'. r = Inr st' \<longrightarrow> replays_to ms new_state (jl_state st')))) \<and>
      (p \<noteq> path \<and> p \<noteq> path @ ''.tmp'' \<longrightarrow> file_content p d' = file_content p d)" for p
  proof (cases r2)
    case (Inl e)
    then have "d' = d2" "\<exists>e. r = Inl e"
      using assms(4,6) r2 by (auto simp: jsonl_fork_def bindIO_def mapIO_def)
    then show ?thesis using published(1) [OF Inl] published(3) [of p] by blast
  next
    case (Inr u)
    then have load: "jsonl_load nr path d2 = (r, d')"
      using assms(4,6) r2 by (auto simp: jsonl_fork_def bindIO_def mapIO_def)
    have whole: "file_content path d2 = Some (file_of nt h ms)" using published(2) [OF Inr] populated(2) by auto
    show ?thesis
      using load_complete_any [OF assms(1,2,5) s whole load] published(3) [of p] whole s by auto
  qed
  then show ?thesis by blast
qed

theorem jsonl_fork_atomic_witness:
  "\<exists>r d'. jsonl_fork plain_nt plain_nr ''f.jsonl'' sample_header ForkTree (fst sample_session) (snd sample_session) = (r, d') \<and>
     file_content ''s.jsonl'' d' = file_content ''s.jsonl'' (snd sample_session) \<and>
     (file_content ''f.jsonl'' d' = None \<or> (\<exists>ms. file_content ''f.jsonl'' d' = Some (file_of plain_nt sample_header ms)))"
proof -
  obtain r d' where fork: "jsonl_fork plain_nt plain_nr ''f.jsonl'' sample_header ForkTree (fst sample_session) (snd sample_session) = (r, d')"
    by fastforce
  let ?m = "MutLane 1 ''main'' None"
  have state: "jl_state (fst sample_session) = new_state" by (simp add: sample_session_def)
  have ms: "createForkMutations ForkTree (jl_state (fst sample_session)) = Inr [?m]"
    by (simp add: state createForkMutations_def fork_selection_def findEntries_def assertValidLimit_def assertValidCursor_def
        any_entry_def ordered_def new_state_def Let_def)
  have "json_tree (mutation_object ?m)"
    unfolding mutation_object.simps by (rule plain_object) (simp_all add: object_simps null_or_def)
  then have "list_all storable [?m]" by (simp add: storable_def max_safe_integer_def)
  moreover have "session_ok (jl_state (fst sample_session))" by (simp add: state new_session_ok)
  moreover have "file_content ''f.jsonl'' (snd sample_session) = None"
    by (simp add: sample_session_def file_content_def put_file_def blank_disk_def)
  ultimately show ?thesis
    using jsonl_fork_atomic [OF plain_format sample_header_ok _ ms _ fork] fork by auto
qed

section \<open>A lost write\<close>

text \<open>
  An append that fails after the JSON text but before its line feed reached the file is reported
  as failed and the session goes on. The next write is acknowledged, but its line continues the
  leftover, is no JSON text, and is dropped as a torn tail when the session is reopened.
\<close>

lemma glued_lines_rejected:
  assumes "number_format nt nr" "storable m"
  shows "\<exists>msg. decodeMutation nr (mutation_text nt m @ mutation_text nt n) = Inl (JsonlDecodeError SyntaxKind msg)"
proof -
  obtain ps where ps: "mutation_object m = obj ps" by (cases m) simp_all
  obtain t where "mutation_text nt n = 123 # t" using mutation_text_starts by blast
  moreover have "parse_value nr (mutation_text nt m @ mutation_text nt n) = Some (mutation_object m, mutation_text nt n)"
    using assms ps by (intro json_read(1)) (auto simp: storable_def)
  ultimately show ?thesis by (simp add: decodeMutation_def parseObject_def json_parse_def)
qed

theorem acknowledged_write_lost:
  assumes "number_format nt nr" "header_ok h" "stored nt path h ms (st, d)" "request_mutation now req (jl_state st) = Inr m"
    "storable m" "request_mutation now' req' (jl_state st) = Inr m'" "storable m'"
    "dk_outcomes d = [Fails e (Some (length (mutation_text nt m)))]"
  shows "\<exists>e d1 st2 d2 mtime d3. jl_submit nt now req (st, d) = (Inl e, st, d1) \<and>
    jl_submit nt now' req' (st, d1) = (Inr (), st2, d2) \<and> jl_state st2 = mutate m' (jl_state st) \<and>
    jsonl_load nr path d2 = (Inr \<lparr>jl_metadata = metadataFromHeader h path mtime, jl_state = jl_state st\<rparr>, d3)"
proof -
  let ?t = "mutation_text nt m" and ?u = "mutation_text nt m'"
  have st: "jm_path (jl_metadata st) = path" "session_ok (jl_state st)" "file_content path d = Some (file_of nt h ms)"
    "list_all storable ms" "replays_to ms new_state (jl_state st)"
    using assms(3) by (simp_all add: stored_def)
  let ?d1 = "put_file path (file_of nt h ms @ ?t) (after_call d)"
  have q1: "quiet ?d1" using assms(8) by (simp add: after_call_def)
  have "partial_append path (encodeMutation nt m) d = ?d1"
    using assms(8) st(3) by (simp add: partial_append_def old_content_def encodeMutation_def)
  then obtain err where one: "jl_submit nt now req (st, d) = (Inl err, st, ?d1)"
    using jl_submit_fails [OF assms(4), of d nt] assms(8) st(1) by auto
  let ?d2 = "put_file path (file_of nt h ms @ ?t @ ?u @ [10]) ?d1"
  have two: "jl_submit nt now' req' (st, ?d1) = (Inr (), st\<lparr>jl_state := mutate m' (jl_state st)\<rparr>, ?d2)"
    using jl_submit_succeeds [OF st(2) assms(6), of ?d1 nt] q1 st(1) by (simp add: old_content_def encodeMutation_def)
  have all: "list_all storable (ms @ [m, m'])" using st(4) assms(5,7) by simp
  have none: "10 \<notin> set (?t @ ?u)" "?t @ ?u \<noteq> []"
    using text_lines [OF assms(1,2) all] mutation_text_starts [of nt m] by auto
  have lines: "physical_lines (file_of nt h ms @ ?t @ ?u @ [10]) = header_text nt h # (map (mutation_text nt) ms @ [?t @ ?u])"
    using physical_unlines(1) [of "header_text nt h # (map (mutation_text nt) ms @ [?t @ ?u])"] text_lines [OF assms(1,2) st(4)] none
    by (simp add: file_of_def)
  obtain msg where "decodeMutation nr (?t @ ?u) = Inl (JsonlDecodeError SyntaxKind msg)"
    using glued_lines_rejected [OF assms(1,5)] by blast
  then have replay: "replay_lines nr path 1 (map (mutation_text nt) ms @ [?t @ ?u]) new_state = TornTail (Suc (length ms)) (jl_state st)"
    using replay_mutations [OF assms(1) st(4,5), of path 1 "[?t @ ?u]"] by simp
  have q2: "quiet ?d2" "file_content path ?d2 = Some (file_of nt h ms @ ?t @ ?u @ [10])" using q1 by simp_all
  obtain mtime d3 where
    "jsonl_load nr path ?d2 = (Inr \<lparr>jl_metadata = metadataFromHeader h path mtime, jl_state = jl_state st\<rparr>, d3)"
  proof (rule load_step [OF assms(1,2) q2 lines])
    fix mtime
    assume load: "jsonl_load nr path ?d2 =
      (let st = \<lparr>jl_metadata = metadataFromHeader h path mtime, jl_state = new_state\<rparr> in
       case replay_lines nr path 1 (map (mutation_text nt) ms @ [?t @ ?u]) new_state of
         ReplayFailed e \<Rightarrow> (Inl e, ?d2)
       | TornTail index s \<Rightarrow>
           bindIO (mapIO LoadError (publishFileAtomically path (\<lambda>temp.
             fileResult (writeFile temp (join_newlines (take index (header_text nt h # (map (mutation_text nt) ms @ [?t @ ?u]))) @ [10]))
               (''Failed to stage torn-tail repair '' @ path)))) (\<lambda>_. returnIO (st\<lparr>jl_state := s\<rparr>)) ?d2
       | Replayed s \<Rightarrow>
           if last (file_of nt h ms @ ?t @ ?u @ [10]) = 10 then (Inr (st\<lparr>jl_state := s\<rparr>), ?d2)
           else (Inr (st\<lparr>jl_state := s\<rparr>), put_file path ((file_of nt h ms @ ?t @ ?u @ [10]) @ [10]) ?d2))"
    let ?prefix = "join_newlines (take (Suc (length ms)) (header_text nt h # (map (mutation_text nt) ms @ [?t @ ?u]))) @ [10]"
    obtain d3 where d3: "\<And>msg. publishFileAtomically path (\<lambda>temp. fileResult (writeFile temp ?prefix) msg) ?d2 = (Inr (), d3)"
      using quiet_publish [OF q2(1), of path ?prefix] by metis
    show ?thesis
      by (rule that, rule trans [OF load])
        (simp only: replay replay.case Let_def d3 bindIO_def mapIO_def returnIO_def prod.case sum.case jsonl_storage.update_convs)
  qed
  with one two show ?thesis by (intro exI conjI) (assumption | simp)+
qed

end
