(* ===== verification/Session_Context.thy ===== *)
theory Session_Context
  imports Session_Types
begin

text \<open>
  From a branch of the session to the messages of a model request
  (packages/agent/src/harness/session/context.ts and packages/agent/src/harness/messages.ts).
  Entry transforms and projectors of custom entries are callbacks of the caller and stay
  arguments; \<open>projectors\<close> is the lookup by custom type.
\<close>

section \<open>Messages derived from entries\<close>

definition newline :: string where "newline = [CHR 0x0A]"

definition COMPACTION_SUMMARY_PREFIX :: string where
  "COMPACTION_SUMMARY_PREFIX =
     ''The conversation history before this point was compacted into the following summary:'' @ newline @ newline @
     ''<summary>'' @ newline"

definition COMPACTION_SUMMARY_SUFFIX :: string where
  "COMPACTION_SUMMARY_SUFFIX = newline @ ''</summary>''"

definition BRANCH_SUMMARY_PREFIX :: string where
  "BRANCH_SUMMARY_PREFIX =
     ''The following is a summary of a branch that this conversation came back from:'' @ newline @ newline @
     ''<summary>'' @ newline"

definition BRANCH_SUMMARY_SUFFIX :: string where
  "BRANCH_SUMMARY_SUFFIX = ''</summary>''"

definition bash_status :: "bool \<Rightarrow> int option \<Rightarrow> string" where
  "bash_status cancelled exitCode =
     (if cancelled then newline @ newline @ ''(command cancelled)''
      else case exitCode of
        None \<Rightarrow> []
      | Some c \<Rightarrow> if c \<noteq> 0 then newline @ newline @ ''Command exited with code '' @ show_int c else [])"

definition bashExecutionToText :: "string \<Rightarrow> string \<Rightarrow> int option \<Rightarrow> bool \<Rightarrow> bool \<Rightarrow> string option \<Rightarrow> string" where
  "bashExecutionToText command output exitCode cancelled truncated fullOutputPath =
     ''Ran `'' @ command @ ''`'' @ newline @
     (if output \<noteq> [] then ''```'' @ newline @ output @ newline @ ''```'' else ''(no output)'') @
     bash_status cancelled exitCode @
     (case fullOutputPath of
        None \<Rightarrow> []
      | Some p \<Rightarrow> if truncated \<and> p \<noteq> [] then newline @ newline @ ''[Output truncated. Full output: '' @ p @ '']'' else [])"

definition createBranchSummaryMessage :: "string \<Rightarrow> string \<Rightarrow> int \<Rightarrow> agent_message" where
  "createBranchSummaryMessage summary fromId timestamp = BranchSummaryMessage summary fromId timestamp"

definition createCompactionSummaryMessage :: "string \<Rightarrow> int \<Rightarrow> int \<Rightarrow> agent_message" where
  "createCompactionSummaryMessage summary tokensBefore timestamp = CompactionSummaryMessage summary tokensBefore timestamp"

definition createCustomMessage :: "string \<Rightarrow> jsval \<Rightarrow> bool \<Rightarrow> jsval option \<Rightarrow> int \<Rightarrow> agent_message" where
  "createCustomMessage customType content display details timestamp =
     CustomMessage customType content display details timestamp"

definition text_content :: "string \<Rightarrow> jsval" where
  "text_content t = JArr [Some (JObj ProtoObject False
     [(js_of ''type'', JStr (js_of ''text'')), (js_of ''text'', JStr (js_of t))])]"

definition string_content :: "jsval \<Rightarrow> jsval" where
  "string_content c =
     (case c of
        JStr t \<Rightarrow> JArr [Some (JObj ProtoObject False [(js_of ''type'', JStr (js_of ''text'')), (js_of ''text'', JStr t)])]
      | _ \<Rightarrow> c)"

text \<open>One message for the model, or none when it is left out.\<close>

fun llm_message :: "agent_message \<Rightarrow> agent_message option" where
  "llm_message (BashExecutionMessage cmd out code cancelled truncated path t exclude) =
     (if exclude then None
      else Some (UserMessage (text_content (bashExecutionToText cmd out code cancelled truncated path)) t))"
| "llm_message (CustomMessage ct content disp details t) = Some (UserMessage (string_content content) t)"
| "llm_message (BranchSummaryMessage summary from t) =
     Some (UserMessage (text_content (BRANCH_SUMMARY_PREFIX @ summary @ BRANCH_SUMMARY_SUFFIX)) t)"
| "llm_message (CompactionSummaryMessage summary n t) =
     Some (UserMessage (text_content (COMPACTION_SUMMARY_PREFIX @ summary @ COMPACTION_SUMMARY_SUFFIX)) t)"
| "llm_message (UserMessage c t) = Some (UserMessage c t)"
| "llm_message (AssistantMessage m) = Some (AssistantMessage m)"
| "llm_message (ToolResultMessage i n c e t r) = Some (ToolResultMessage i n c e t r)"

definition convertToLlm :: "agent_message list \<Rightarrow> agent_message list" where
  "convertToLlm messages = List.map_filter llm_message messages"

section \<open>The context of a branch\<close>

record context_state =
  thinkingLevel :: string
  model :: "(string \<times> string) option"
  activeToolNames :: "string list option"

record session_context = context_state +
  messages :: "agent_message list"

definition context_step :: "entry \<Rightarrow> context_state \<Rightarrow> context_state" where
  "context_step e c =
     (case e_data e of
        ThinkingLevelEntry l \<Rightarrow> c\<lparr>thinkingLevel := l\<rparr>
      | ModelChangeEntry p i \<Rightarrow> c\<lparr>model := Some (p, i)\<rparr>
      | MessageEntry (AssistantMessage m) t \<Rightarrow> c\<lparr>model := Some (am_provider m, am_model m)\<rparr>
      | ActiveToolsEntry ns \<Rightarrow> c\<lparr>activeToolNames := Some ns\<rparr>
      | _ \<Rightarrow> c)"

definition deriveSessionContextState :: "entry list \<Rightarrow> context_state" where
  "deriveSessionContextState pathEntries =
     fold context_step pathEntries \<lparr>thinkingLevel = ''off'', model = None, activeToolNames = None\<rparr>"

text \<open>The scan for the newest compaction runs from the last index down.\<close>

fun newest_compaction :: "entry list \<Rightarrow> nat \<Rightarrow> nat option" where
  "newest_compaction es 0 = None"
| "newest_compaction es (Suc i) = (if e_type (es ! i) = TypeCompaction then Some i else newest_compaction es i)"

definition defaultContextEntryTransform :: "entry list \<Rightarrow> entry list" where
  "defaultContextEntryTransform pathEntries =
     (case newest_compaction pathEntries (length pathEntries) of
        None \<Rightarrow> pathEntries
      | Some i \<Rightarrow> pathEntries ! i # drop (i + 1) pathEntries)"

type_synonym entry_projector = "entry \<Rightarrow> nat \<Rightarrow> entry list \<Rightarrow> agent_message list option"

record context_options =
  entryTransforms :: "(entry list \<Rightarrow> entry list) list"
  projectors :: "string \<Rightarrow> entry_projector option"

definition no_context_options :: context_options where
  "no_context_options = \<lparr>entryTransforms = [], projectors = (\<lambda>_. None)\<rparr>"

definition buildContextEntries :: "entry list \<Rightarrow> context_options \<Rightarrow> entry list" where
  "buildContextEntries pathEntries options =
     fold (\<lambda>transform es. transform es) (entryTransforms options) (defaultContextEntryTransform pathEntries)"

definition sessionEntryToContextMessages ::
  "entry \<Rightarrow> nat \<Rightarrow> entry list \<Rightarrow> context_options \<Rightarrow> agent_message list" where
  "sessionEntryToContextMessages e index es options =
     (case e_data e of
        MessageEntry msg t \<Rightarrow>
          (case msg of
             AssistantMessage m \<Rightarrow> if am_stopReason m = StopDeferred then [] else [msg]
           | _ \<Rightarrow> [msg])
      | CompactionEntry summary tail tokens d u \<Rightarrow>
          createCompactionSummaryMessage summary tokens (e_timestamp e) # tail
      | BranchSummaryEntry from summary d u \<Rightarrow>
          if summary \<noteq> [] then [createBranchSummaryMessage summary from (e_timestamp e)] else []
      | CustomEntry ct d \<Rightarrow>
          (case projectors options ct of
             None \<Rightarrow> []
           | Some f \<Rightarrow> (case f e index es of None \<Rightarrow> [] | Some ms \<Rightarrow> ms))
      | _ \<Rightarrow> [])"

definition buildSessionContext :: "entry list \<Rightarrow> context_options \<Rightarrow> session_context" where
  "buildSessionContext pathEntries options =
     (let state = deriveSessionContextState pathEntries;
          contextEntries = buildContextEntries pathEntries options;
          ms = concat (map (\<lambda>(index, e). sessionEntryToContextMessages e index contextEntries options)
                 (zip [0..<length contextEntries] contextEntries)) in
      \<lparr>thinkingLevel = thinkingLevel state, model = model state, activeToolNames = activeToolNames state, messages = ms\<rparr>)"

section \<open>What a model request sees\<close>

definition is_compaction :: "entry \<Rightarrow> bool" where
  "is_compaction e \<longleftrightarrow> e_type e = TypeCompaction"

lemma newest_compaction_None: "newest_compaction es n = None \<longleftrightarrow> (\<forall>i < n. \<not> is_compaction (es ! i))"
  by (induction n) (auto simp: is_compaction_def less_Suc_eq)

lemma newest_compaction_Some:
  "newest_compaction es n = Some i \<longleftrightarrow> i < n \<and> is_compaction (es ! i) \<and> (\<forall>j. i < j \<and> j < n \<longrightarrow> \<not> is_compaction (es ! j))"
proof (induction n)
  case (Suc n)
  then show ?case by (auto simp: is_compaction_def less_Suc_eq)
qed simp


lemma transform_compacted:
  assumes "is_compaction c" "\<not> list_ex is_compaction post"
  shows "defaultContextEntryTransform (pre @ c # post) = c # post"
proof -
  have "newest_compaction (pre @ c # post) (length (pre @ c # post)) = Some (length pre)"
    unfolding newest_compaction_Some using assms by (auto simp: nth_append nth_Cons' list_ex_iff)
  then show ?thesis by (simp add: defaultContextEntryTransform_def)
qed

lemma transform_uncompacted:
  assumes "\<not> list_ex is_compaction es"
  shows "defaultContextEntryTransform es = es"
proof -
  have "newest_compaction es (length es) = None"
    unfolding newest_compaction_None using assms by (auto simp: list_ex_iff)
  then show ?thesis by (simp add: defaultContextEntryTransform_def)
qed

text \<open>The setting an entry makes, for each setting of the context.\<close>

fun thinking_of :: "entry_data \<Rightarrow> string option" where
  "thinking_of (ThinkingLevelEntry l) = Some l"
| "thinking_of d = None"

fun model_of :: "entry_data \<Rightarrow> (string \<times> string) option" where
  "model_of (ModelChangeEntry p i) = Some (p, i)"
| "model_of (MessageEntry (AssistantMessage m) t) = Some (am_provider m, am_model m)"
| "model_of d = None"

fun tools_of :: "entry_data \<Rightarrow> string list option" where
  "tools_of (ActiveToolsEntry ns) = Some ns"
| "tools_of d = None"

definition newest :: "(entry_data \<Rightarrow> 'a option) \<Rightarrow> entry list \<Rightarrow> 'a option" where
  "newest f es = (case List.map_filter (\<lambda>e. f (e_data e)) (rev es) of [] \<Rightarrow> None | x # _ \<Rightarrow> Some x)"

lemma newest_snoc: "newest f (es @ [e]) = (case f (e_data e) of Some x \<Rightarrow> Some x | None \<Rightarrow> newest f es)"
  by (simp add: newest_def List.map_filter_simps split: option.splits)

lemma newest_Nil: "newest f [] = None"
  by (simp add: newest_def List.map_filter_simps)

lemma context_step_eq:
  "context_step e c = c\<lparr>thinkingLevel := (case thinking_of (e_data e) of None \<Rightarrow> thinkingLevel c | Some l \<Rightarrow> l),
     model := (case model_of (e_data e) of None \<Rightarrow> model c | Some m \<Rightarrow> Some m),
     activeToolNames := (case tools_of (e_data e) of None \<Rightarrow> activeToolNames c | Some ns \<Rightarrow> Some ns)\<rparr>"
  by (cases "e_data e") (auto simp: context_step_def split: agent_message.splits)

lemma derive_state_newest:
  "deriveSessionContextState es = \<lparr>thinkingLevel = (case newest thinking_of es of None \<Rightarrow> ''off'' | Some l \<Rightarrow> l),
     model = newest model_of es, activeToolNames = newest tools_of es\<rparr>"
  by (induction es rule: rev_induct)
    (simp_all add: deriveSessionContextState_def newest_Nil newest_snoc context_step_eq split: option.splits)

text \<open>
  The settings of a context are the newest ones on the whole branch, compacted or not (an
  assistant message counts as a model change); the thinking level is \<open>off\<close> and the others absent
  when the branch never set them.
\<close>

theorem context_settings_newest:
  "thinkingLevel (buildSessionContext es options) = (case newest thinking_of es of None \<Rightarrow> ''off'' | Some l \<Rightarrow> l) \<and>
   model (buildSessionContext es options) = newest model_of es \<and>
   activeToolNames (buildSessionContext es options) = newest tools_of es"
  by (simp add: buildSessionContext_def derive_state_newest Let_def)

lemma compacted_context:
  assumes "e_data c = CompactionEntry summary tail tokens details use" "\<not> list_ex is_compaction post"
    "entryTransforms options = []"
  shows "messages (buildSessionContext (pre @ c # post) options) =
    CompactionSummaryMessage summary tokens (e_timestamp c) # tail @
    concat (map (\<lambda>(index, e). sessionEntryToContextMessages e index (c # post) options)
      (zip [1..<Suc (length post)] post))"
proof -
  have "buildContextEntries (pre @ c # post) options = c # post"
    using assms transform_compacted [of c post pre] by (simp add: buildContextEntries_def is_compaction_def)
  moreover have "[0..<Suc (length post)] = 0 # [1..<Suc (length post)]" by (simp add: upt_conv_Cons del: upt_Suc)
  ultimately show ?thesis
    using assms(1)
    by (simp add: buildSessionContext_def Let_def sessionEntryToContextMessages_def createCompactionSummaryMessage_def
        del: upt_Suc)
qed

text \<open>
  without custom transforms, the messages of a branch whose newest compaction is \<open>c\<close> are
  the compaction's summary, the tail it retained and the messages of the entries after it;
  nothing before the compaction reaches the model.
\<close>

theorem context_from_compaction:
  assumes "e_data c = CompactionEntry summary tail tokens details use" "\<not> list_ex is_compaction post"
    "entryTransforms options = []"
  shows "messages (buildSessionContext (pre @ c # post) options) =
    CompactionSummaryMessage summary tokens (e_timestamp c) # tail @
    concat (map (\<lambda>(index, e). sessionEntryToContextMessages e index (c # post) options)
      (zip [1..<Suc (length post)] post))"
  using assms by (rule compacted_context)

definition sample_entry :: "string \<Rightarrow> entry_data \<Rightarrow> entry" where
  "sample_entry i d = \<lparr>e_id = i, e_seq = 1, e_parentId = None, e_timestamp = 5, e_data = d\<rparr>"

theorem context_from_compaction_witness:
  "messages (buildSessionContext
      [sample_entry ''a'' (MessageEntry (UserMessage JNull 0) False),
       sample_entry ''c'' (CompactionEntry ''s'' [UserMessage JNull 3] 9 None None),
       sample_entry ''b'' (MessageEntry (UserMessage JNull 7) False)] no_context_options) =
   [CompactionSummaryMessage ''s'' 9 5, UserMessage JNull 3, UserMessage JNull 7]"
  using context_from_compaction [of "sample_entry ''c'' (CompactionEntry ''s'' [UserMessage JNull 3] 9 None None)"
      "''s''" "[UserMessage JNull 3]" 9 None None "[sample_entry ''b'' (MessageEntry (UserMessage JNull 7) False)]"
      no_context_options "[sample_entry ''a'' (MessageEntry (UserMessage JNull 0) False)]"]
  by (simp add: sample_entry_def is_compaction_def no_context_options_def sessionEntryToContextMessages_def)

definition left_out :: "agent_message \<Rightarrow> bool" where
  "left_out msg \<longleftrightarrow> (case msg of BashExecutionMessage cmd out code ca tr path t exclude \<Rightarrow> exclude | _ \<Rightarrow> False)"

lemma llm_message_cases:
  "llm_message msg = None \<longleftrightarrow> left_out msg"
  "llm_message msg = Some m' \<Longrightarrow> role_of m' \<in> {RoleUser, RoleAssistant, RoleToolResult} \<and> llm_message m' = Some m'"
  by (cases msg; auto simp: left_out_def split: if_splits)+


end
