(* ===== verification/Agent_Loop.thy ===== *)
theory Agent_Loop
  imports Session_Context "HOL-Library.Multiset"
begin

text \<open>
  The agent loop (packages/agent/src/agent-loop.ts, with the types of packages/agent/src/types.ts):
  turns of a model response followed by the tool calls it asks for, until nothing is left to do.

  The provider, the tools, the hooks of the configuration and the event sink are code of the caller. They
  act on a world \<open>'w\<close> of which the loop knows nothing: a callback is a function from the world to its
  result and the next world, an exception is the left side of a sum, and the abort signal is a function of
  the world, so that any callback can abort the run. A callback that is awaited returns; the event sink
  does not throw. The validation of arguments against the schema of a tool belongs to the tool here.

  Tool calls that run at the same time are tasks, each a sequence of steps, and the scheduler, an argument
  too, picks the task that makes the next step; every interleaving of the runtime is one of its choices.

  The state of a run also records each call of \<open>tool.execute\<close> with the arguments passed, which the code
  does not keep: it is what the theorems on executed calls speak of.
\<close>

section \<open>Types\<close>

datatype execution_mode = ExecSequential | ExecParallel

text \<open>\<open>AgentToolResult\<close>; content that an untyped tool leaves out is None.\<close>

record tool_result =
  res_content :: "jsval option"
  res_details :: jsval
  res_usage :: "jsval option"
  res_addedToolNames :: "string list option"
  res_terminate :: "bool option"

text \<open>
  What one call of \<open>execute\<close> does: the partial results it reports before it returns, and its result or
  exception. Partial results reported later are dropped by the code and left out here.
\<close>

record tool_run =
  run_updates :: "jsval list"
  run_outcome :: "string + tool_result"

record 'w agent_tool =
  tool_name :: string
  tool_mode :: "execution_mode option"
  tool_prepareArguments :: "(jsval \<Rightarrow> string + jsval) option"
  tool_validate :: "tool_call \<Rightarrow> string + jsval"
  tool_execute :: "string \<Rightarrow> jsval \<Rightarrow> 'w \<Rightarrow> tool_run \<times> 'w"

record 'w agent_context =
  ctx_systemPrompt :: string
  ctx_messages :: "agent_message list"
  ctx_tools :: "'w agent_tool list"

record agent_model =
  md_provider :: string
  md_api :: string
  md_id :: string
  md_rest :: props

record before_result =
  bef_block :: bool
  bef_reason :: "string option"
  bef_terminate :: bool

record after_result =
  aft_content :: "jsval option"
  aft_details :: "jsval option"
  aft_isError :: "bool option"
  aft_usage :: "jsval option"
  aft_terminate :: "bool option"

record 'w turn_update =
  upd_context :: "'w agent_context option"
  upd_model :: "agent_model option"
  upd_thinkingLevel :: "string option"

text \<open>The events of a streamed response; the middle one stands for the start, delta and end of a block.\<close>

datatype block_event = TextStart | TextDelta | TextEnd | ThinkingStart | ThinkingDelta | ThinkingEnd
  | ToolcallStart | ToolcallDelta | ToolcallEnd

datatype stream_event =
    StreamStart assistant_message
  | StreamBlock block_event assistant_message props
  | StreamDone
  | StreamError

text \<open>
  A response: its events, whether the iteration throws after them, and what \<open>result()\<close> gives.
\<close>

record llm_response =
  rsp_events :: "stream_event list"
  rsp_failure :: "string option"
  rsp_result :: "string + assistant_message"

datatype loop_event =
    AgentStart
  | AgentEnd "agent_message list"
  | TurnStart
  | TurnEnd assistant_message "agent_message list"
  | MessageStart agent_message
  | MessageUpdate assistant_message stream_event
  | MessageEnd agent_message
  | ToolExecutionStart string string jsval
  | ToolExecutionUpdate string string jsval jsval
  | ToolExecutionEnd string string tool_result bool

text \<open>The message, tool results, context and new messages passed to the hooks between turns.\<close>

record 'w turn_context =
  tc_message :: assistant_message
  tc_toolResults :: "agent_message list"
  tc_context :: "'w agent_context"
  tc_newMessages :: "agent_message list"

text \<open>The configuration of a run. A hook that is not set is None.\<close>

record 'w loop_config =
  cfg_model :: agent_model
  cfg_reasoning :: "string option"
  cfg_apiKey :: "string option"
  cfg_options :: props
  cfg_toolExecution :: "execution_mode option"
  cfg_transformContext :: "(agent_message list \<Rightarrow> 'w \<Rightarrow> (string + agent_message list) \<times> 'w) option"
  cfg_convertToLlm :: "agent_message list \<Rightarrow> 'w \<Rightarrow> (string + agent_message list) \<times> 'w"
  cfg_getApiKey :: "(string \<Rightarrow> 'w \<Rightarrow> (string + string option) \<times> 'w) option"
  cfg_shouldStopAfterTurn :: "('w turn_context \<Rightarrow> 'w \<Rightarrow> (string + bool) \<times> 'w) option"
  cfg_prepareNextTurn :: "('w turn_context \<Rightarrow> 'w \<Rightarrow> (string + 'w turn_update option) \<times> 'w) option"
  cfg_getSteeringMessages :: "('w \<Rightarrow> (string + agent_message list) \<times> 'w) option"
  cfg_getFollowUpMessages :: "('w \<Rightarrow> (string + agent_message list) \<times> 'w) option"
  cfg_beforeToolCall ::
    "(assistant_message \<Rightarrow> tool_call \<Rightarrow> jsval \<Rightarrow> 'w agent_context \<Rightarrow> 'w \<Rightarrow> (string + before_result option) \<times> 'w) option"
  cfg_afterToolCall ::
    "(assistant_message \<Rightarrow> tool_call \<Rightarrow> jsval \<Rightarrow> tool_result \<Rightarrow> bool \<Rightarrow> 'w agent_context \<Rightarrow> 'w \<Rightarrow>
      (string + after_result option) \<times> 'w) option"

text \<open>What surrounds a run: the event sink, the abort signal, the clock, the scheduler of concurrent tool
  calls (given how many are unfinished) and the stream function of the provider.\<close>

record 'w surroundings =
  env_sink :: "loop_event \<Rightarrow> 'w \<Rightarrow> 'w"
  env_aborted :: "'w \<Rightarrow> bool"
  env_now :: "'w \<Rightarrow> int"
  env_schedule :: "nat \<Rightarrow> 'w \<Rightarrow> nat \<times> 'w"
  env_stream :: "'w loop_config \<Rightarrow> 'w agent_context \<Rightarrow> string option \<Rightarrow> 'w \<Rightarrow> (string + llm_response) \<times> 'w"

text \<open>The state of a run: the new messages, the events emitted, the executed calls and the world.\<close>

record 'w run =
  run_new :: "agent_message list"
  run_events :: "loop_event list"
  run_executed :: "(tool_call \<times> jsval) list"
  run_world :: 'w

definition emit :: "'w surroundings \<Rightarrow> loop_event \<Rightarrow> 'w run \<Rightarrow> 'w run" where
  "emit E ev s = s\<lparr>run_events := run_events s @ [ev], run_world := env_sink E ev (run_world s)\<rparr>"

definition aborted :: "'w surroundings \<Rightarrow> 'w run \<Rightarrow> bool" where
  "aborted E s = env_aborted E (run_world s)"

text \<open>A callback acts on the world only.\<close>

definition callback :: "('w \<Rightarrow> 'a \<times> 'w) \<Rightarrow> 'w run \<Rightarrow> 'a \<times> 'w run" where
  "callback f s = (case f (run_world s) of (a, w) \<Rightarrow> (a, s\<lparr>run_world := w\<rparr>))"

section \<open>Tool results\<close>

definition toolCalls :: "assistant_message \<Rightarrow> tool_call list" where
  "toolCalls m = List.map_filter (\<lambda>c. case c of ToolCallPart tc \<Rightarrow> Some tc | _ \<Rightarrow> None) (am_content m)"

record finalized_call =
  fin_toolCall :: tool_call
  fin_result :: tool_result
  fin_isError :: bool

record 'w prepared_call =
  prep_toolCall :: tool_call
  prep_tool :: "'w agent_tool"
  prep_args :: jsval

datatype 'w call_preparation =
    Immediate tool_result bool
  | Prepared "'w prepared_call"

definition createErrorToolResult :: "string \<Rightarrow> tool_result" where
  "createErrorToolResult message =
     \<lparr>res_content = Some (text_content message), res_details = JObj ProtoObject False [], res_usage = None,
      res_addedToolNames = None, res_terminate = None\<rparr>"

definition or_undefined :: "jsval option \<Rightarrow> jsval" where
  "or_undefined v = (case v of None \<Rightarrow> JUndefined | Some x \<Rightarrow> x)"

definition createToolResultMessage :: "int \<Rightarrow> finalized_call \<Rightarrow> agent_message" where
  "createToolResultMessage now fin =
     (let r = fin_result fin in
      ToolResultMessage (tc_id (fin_toolCall fin)) (tc_name (fin_toolCall fin))
        (case res_content r of None \<Rightarrow> JArr [] | Some c \<Rightarrow> c)
        (fin_isError fin) now
        ([(js_of ''details'', res_details r), (js_of ''usage'', or_undefined (res_usage r))] @
         (case res_addedToolNames r of
            None \<Rightarrow> []
          | Some ns \<Rightarrow> if ns = [] then []
                       else [(js_of ''addedToolNames'', JArr (map (\<lambda>n. Some (JStr (js_of n))) ns))])))"

definition emitToolExecutionStart :: "'w surroundings \<Rightarrow> tool_call \<Rightarrow> 'w run \<Rightarrow> 'w run" where
  "emitToolExecutionStart E tc = emit E (ToolExecutionStart (tc_id tc) (tc_name tc) (tc_arguments tc))"

definition emitToolExecutionEnd :: "'w surroundings \<Rightarrow> finalized_call \<Rightarrow> 'w run \<Rightarrow> 'w run" where
  "emitToolExecutionEnd E fin =
     emit E (ToolExecutionEnd (tc_id (fin_toolCall fin)) (tc_name (fin_toolCall fin)) (fin_result fin) (fin_isError fin))"

definition emitToolResultMessage :: "'w surroundings \<Rightarrow> agent_message \<Rightarrow> 'w run \<Rightarrow> 'w run" where
  "emitToolResultMessage E m s = emit E (MessageEnd m) (emit E (MessageStart m) s)"

text \<open>Building the result message and emitting it, as the three places that do so have it.\<close>

definition report_result :: "'w surroundings \<Rightarrow> finalized_call \<Rightarrow> 'w run \<Rightarrow> agent_message \<times> 'w run" where
  "report_result E fin s =
     (let m = createToolResultMessage (env_now E (run_world s)) fin in (m, emitToolResultMessage E m s))"

definition shouldTerminateToolBatch :: "finalized_call list \<Rightarrow> bool" where
  "shouldTerminateToolBatch fins \<longleftrightarrow> fins \<noteq> [] \<and> (\<forall>fin \<in> set fins. res_terminate (fin_result fin) = Some True)"

section \<open>One tool call\<close>

definition find_tool :: "'w agent_context \<Rightarrow> string \<Rightarrow> 'w agent_tool option" where
  "find_tool ctx name = find (\<lambda>t. tool_name t = name) (ctx_tools ctx)"

definition prepareToolCallArguments :: "'w agent_tool \<Rightarrow> tool_call \<Rightarrow> string + tool_call" where
  "prepareToolCallArguments tool toolCall =
     (case tool_prepareArguments tool of
        None \<Rightarrow> Inr toolCall
      | Some f \<Rightarrow> bindE (f (tc_arguments toolCall)) (\<lambda>args.
          if args = tc_arguments toolCall then Inr toolCall else Inr (toolCall\<lparr>tc_arguments := args\<rparr>)))"

definition validated_arguments :: "'w agent_tool \<Rightarrow> tool_call \<Rightarrow> string + jsval" where
  "validated_arguments tool toolCall = bindE (prepareToolCallArguments tool toolCall) (tool_validate tool)"

definition error_outcome :: "string \<Rightarrow> 'w call_preparation" where
  "error_outcome message = Immediate (createErrorToolResult message) True"

definition blocked_outcome :: "before_result \<Rightarrow> 'w call_preparation" where
  "blocked_outcome b =
     (let result = createErrorToolResult (case bef_reason b of
                     None \<Rightarrow> ''Tool execution was blocked''
                   | Some r \<Rightarrow> if r = [] then ''Tool execution was blocked'' else r) in
      Immediate (if bef_terminate b then result\<lparr>res_terminate := Some True\<rparr> else result) True)"

definition prepareToolCall ::
  "'w surroundings \<Rightarrow> 'w agent_context \<Rightarrow> assistant_message \<Rightarrow> tool_call \<Rightarrow> 'w loop_config \<Rightarrow> 'w run \<Rightarrow>
     'w call_preparation \<times> 'w run" where
  "prepareToolCall E ctx m toolCall cfg s =
     (case find_tool ctx (tc_name toolCall) of
        None \<Rightarrow> (error_outcome (''Tool '' @ tc_name toolCall @ '' not found''), s)
      | Some tool \<Rightarrow>
          (case validated_arguments tool toolCall of
             Inl e \<Rightarrow> (error_outcome e, s)
           | Inr args \<Rightarrow>
               (let prepared = \<lparr>prep_toolCall = toolCall, prep_tool = tool, prep_args = args\<rparr> in
                case cfg_beforeToolCall cfg of
                  None \<Rightarrow> (if aborted E s then error_outcome ''Operation aborted'' else Prepared prepared, s)
                | Some hook \<Rightarrow>
                    (case callback (hook m toolCall args ctx) s of
                       (Inl e, s) \<Rightarrow> (error_outcome e, s)
                     | (Inr before, s) \<Rightarrow>
                         if aborted E s then (error_outcome ''Operation aborted'', s)
                         else (case before of
                                 None \<Rightarrow> (Prepared prepared, s)
                               | Some b \<Rightarrow> (if bef_block b then blocked_outcome b else Prepared prepared, s))))))"

text \<open>Calling \<open>execute\<close>: the call is recorded with its arguments.\<close>

definition call_tool :: "'w prepared_call \<Rightarrow> 'w run \<Rightarrow> tool_run \<times> 'w run" where
  "call_tool p s =
     callback (tool_execute (prep_tool p) (tc_id (prep_toolCall p)) (prep_args p))
       (s\<lparr>run_executed := run_executed s @ [(prep_toolCall p, prep_args p)]\<rparr>)"

definition emit_update :: "'w surroundings \<Rightarrow> 'w prepared_call \<Rightarrow> jsval \<Rightarrow> 'w run \<Rightarrow> 'w run" where
  "emit_update E p partialResult =
     (let tc = prep_toolCall p in
      emit E (ToolExecutionUpdate (tc_id tc) (tc_name tc) (tc_arguments tc) partialResult))"

definition executed_outcome :: "string + tool_result \<Rightarrow> tool_result \<times> bool" where
  "executed_outcome outcome =
     (case outcome of Inl e \<Rightarrow> (createErrorToolResult e, True) | Inr result \<Rightarrow> (result, False))"

definition executePreparedToolCall ::
  "'w surroundings \<Rightarrow> 'w prepared_call \<Rightarrow> 'w run \<Rightarrow> (tool_result \<times> bool) \<times> 'w run" where
  "executePreparedToolCall E p s =
     (case call_tool p s of
        (r, s) \<Rightarrow> (executed_outcome (run_outcome r), fold (emit_update E p) (run_updates r) s))"

definition first_given :: "'a option \<Rightarrow> 'a option \<Rightarrow> 'a option" where
  "first_given a b = (case a of None \<Rightarrow> b | Some x \<Rightarrow> Some x)"

definition finalizeExecutedToolCall ::
  "'w agent_context \<Rightarrow> assistant_message \<Rightarrow> 'w prepared_call \<Rightarrow> tool_result \<times> bool \<Rightarrow> 'w loop_config \<Rightarrow> 'w run \<Rightarrow>
     finalized_call \<times> 'w run" where
  "finalizeExecutedToolCall ctx m p executed cfg s =
     (case executed of (result, isError) \<Rightarrow>
        (case cfg_afterToolCall cfg of
           None \<Rightarrow> (\<lparr>fin_toolCall = prep_toolCall p, fin_result = result, fin_isError = isError\<rparr>, s)
         | Some hook \<Rightarrow>
             (case callback (hook m (prep_toolCall p) (prep_args p) result isError ctx) s of
                (Inl e, s) \<Rightarrow>
                  (\<lparr>fin_toolCall = prep_toolCall p, fin_result = createErrorToolResult e, fin_isError = True\<rparr>, s)
              | (Inr None, s) \<Rightarrow>
                  (\<lparr>fin_toolCall = prep_toolCall p, fin_result = result, fin_isError = isError\<rparr>, s)
              | (Inr (Some a), s) \<Rightarrow>
                  (\<lparr>fin_toolCall = prep_toolCall p,
                    fin_result = result\<lparr>res_content := first_given (aft_content a) (res_content result),
                      res_details := (case aft_details a of None \<Rightarrow> res_details result | Some d \<Rightarrow> d),
                      res_usage := first_given (aft_usage a) (res_usage result),
                      res_terminate := first_given (aft_terminate a) (res_terminate result)\<rparr>,
                    fin_isError = (case aft_isError a of None \<Rightarrow> isError | Some b \<Rightarrow> b)\<rparr>, s))))"

section \<open>A batch of tool calls\<close>

record tool_batch =
  batch_messages :: "agent_message list"
  batch_terminate :: bool

definition truncated_text :: "string \<Rightarrow> string" where
  "truncated_text name =
     ''Tool call \"'' @ name @ ''\" was not executed: the response hit the output token limit, so its arguments may be truncated. Re-issue the tool call with complete arguments.''"

fun fail_each :: "'w surroundings \<Rightarrow> tool_call list \<Rightarrow> 'w run \<Rightarrow> agent_message list \<times> 'w run" where
  "fail_each E [] s = ([], s)"
| "fail_each E (tc # tcs) s =
     (let fin = \<lparr>fin_toolCall = tc, fin_result = createErrorToolResult (truncated_text (tc_name tc)), fin_isError = True\<rparr>;
          (msg, s1) = report_result E fin (emitToolExecutionEnd E fin (emitToolExecutionStart E tc s));
          (msgs, s2) = fail_each E tcs s1 in
      (msg # msgs, s2))"

definition failToolCallsFromTruncatedMessage ::
  "'w surroundings \<Rightarrow> tool_call list \<Rightarrow> 'w run \<Rightarrow> tool_batch \<times> 'w run" where
  "failToolCallsFromTruncatedMessage E tcs s =
     (case fail_each E tcs s of (msgs, s) \<Rightarrow> (\<lparr>batch_messages = msgs, batch_terminate = False\<rparr>, s))"

definition immediate_call :: "tool_call \<Rightarrow> tool_result \<Rightarrow> bool \<Rightarrow> finalized_call" where
  "immediate_call tc result isError = \<lparr>fin_toolCall = tc, fin_result = result, fin_isError = isError\<rparr>"

definition run_call ::
  "'w surroundings \<Rightarrow> 'w agent_context \<Rightarrow> assistant_message \<Rightarrow> 'w loop_config \<Rightarrow> tool_call \<Rightarrow> 'w run \<Rightarrow>
     finalized_call \<times> 'w run" where
  "run_call E ctx m cfg tc s =
     (case prepareToolCall E ctx m tc cfg (emitToolExecutionStart E tc s) of
        (Immediate result isError, s) \<Rightarrow> (immediate_call tc result isError, s)
      | (Prepared p, s) \<Rightarrow>
          (case executePreparedToolCall E p s of
             (executed, s) \<Rightarrow> finalizeExecutedToolCall ctx m p executed cfg s))"

fun sequential_calls ::
  "'w surroundings \<Rightarrow> 'w agent_context \<Rightarrow> assistant_message \<Rightarrow> 'w loop_config \<Rightarrow> tool_call list \<Rightarrow> 'w run \<Rightarrow>
     (finalized_call \<times> agent_message) list \<times> 'w run" where
  "sequential_calls E ctx m cfg [] s = ([], s)"
| "sequential_calls E ctx m cfg (tc # tcs) s =
     (let (fin, s1) = run_call E ctx m cfg tc s;
          (msg, s2) = report_result E fin (emitToolExecutionEnd E fin s1) in
      if aborted E s2 then ([(fin, msg)], s2)
      else (let (rest, s3) = sequential_calls E ctx m cfg tcs s2 in ((fin, msg) # rest, s3)))"

definition executeToolCallsSequential ::
  "'w surroundings \<Rightarrow> 'w agent_context \<Rightarrow> assistant_message \<Rightarrow> tool_call list \<Rightarrow> 'w loop_config \<Rightarrow> 'w run \<Rightarrow>
     tool_batch \<times> 'w run" where
  "executeToolCallsSequential E ctx m tcs cfg s =
     (case sequential_calls E ctx m cfg tcs s of
        (done_calls, s) \<Rightarrow>
          (\<lparr>batch_messages = map snd done_calls, batch_terminate = shouldTerminateToolBatch (map fst done_calls)\<rparr>, s))"

text \<open>
  The entries of \<open>finalizedCalls\<close> in the parallel routine: a finished call, or a closure at one of its
  points: not yet called, waiting for the tool with some partial results still to come, and finalized but
  not yet reported.
\<close>

datatype 'w tool_task =
    TaskFinished finalized_call
  | TaskReady "'w prepared_call"
  | TaskRunning "'w prepared_call" "jsval list" "tool_result \<times> bool"
  | TaskFinalized finalized_call

fun preflight ::
  "'w surroundings \<Rightarrow> 'w agent_context \<Rightarrow> assistant_message \<Rightarrow> 'w loop_config \<Rightarrow> tool_call list \<Rightarrow> 'w run \<Rightarrow>
     'w tool_task list \<times> 'w run" where
  "preflight E ctx m cfg [] s = ([], s)"
| "preflight E ctx m cfg (tc # tcs) s =
     (let (task, s2) =
            (case prepareToolCall E ctx m tc cfg (emitToolExecutionStart E tc s) of
               (Immediate result isError, s1) \<Rightarrow>
                 (let fin = immediate_call tc result isError in (TaskFinished fin, emitToolExecutionEnd E fin s1))
             | (Prepared p, s1) \<Rightarrow> (TaskReady p, s1)) in
      if aborted E s2 then ([task], s2)
      else (let (rest, s3) = preflight E ctx m cfg tcs s2 in (task # rest, s3)))"

fun task_step ::
  "'w surroundings \<Rightarrow> 'w agent_context \<Rightarrow> assistant_message \<Rightarrow> 'w loop_config \<Rightarrow> 'w tool_task \<Rightarrow> 'w run \<Rightarrow>
     'w tool_task \<times> 'w run" where
  "task_step E ctx m cfg (TaskReady p) s =
     (case call_tool p s of (r, s) \<Rightarrow> (TaskRunning p (run_updates r) (executed_outcome (run_outcome r)), s))"
| "task_step E ctx m cfg (TaskRunning p (u # us) executed) s = (TaskRunning p us executed, emit_update E p u s)"
| "task_step E ctx m cfg (TaskRunning p [] executed) s =
     (case finalizeExecutedToolCall ctx m p executed cfg s of (fin, s) \<Rightarrow> (TaskFinalized fin, s))"
| "task_step E ctx m cfg (TaskFinalized fin) s = (TaskFinished fin, emitToolExecutionEnd E fin s)"
| "task_step E ctx m cfg (TaskFinished fin) s = (TaskFinished fin, s)"

fun task_done :: "'w tool_task \<Rightarrow> bool" where
  "task_done (TaskFinished fin) = True"
| "task_done _ = False"

definition unfinished :: "'w tool_task list \<Rightarrow> nat list" where
  "unfinished ts = filter (\<lambda>i. \<not> task_done (ts ! i)) [0..<length ts]"

fun not_called :: "'w tool_task \<Rightarrow> nat" where
  "not_called (TaskReady p) = 1"
| "not_called _ = 0"

fun steps_left :: "'w tool_task \<Rightarrow> nat" where
  "steps_left (TaskFinished fin) = 0"
| "steps_left (TaskFinalized fin) = 1"
| "steps_left (TaskRunning p us executed) = length us + 2"
| "steps_left (TaskReady p) = 0"

lemma sum_update_less:
  fixes f :: "'a \<Rightarrow> nat"
  assumes "i < length xs" "f y < f (xs ! i)"
  shows "sum_list (map f (xs[i := y])) < sum_list (map f xs)"
proof -
  have "f (xs ! i) \<le> sum_list (map f xs)"
    using assms(1) elem_le_sum_list [of i "map f xs"] by simp
  then show ?thesis using assms by (simp add: map_update sum_list_update)
qed

lemma sum_update_same:
  fixes f :: "'a \<Rightarrow> nat"
  assumes "i < length xs" "f y = f (xs ! i)"
  shows "sum_list (map f (xs[i := y])) = sum_list (map f xs)"
  using assms by (metis length_map list_update_id map_update nth_map)

lemma task_step_decreases:
  assumes "\<not> task_done t" "task_step E ctx m cfg t s = (t', s')"
  shows "not_called t' < not_called t \<or> (not_called t' = not_called t \<and> steps_left t' < steps_left t)"
  using assms by (induction E ctx m cfg t s rule: task_step.induct) (auto split: prod.splits)

lemma unfinished_pick:
  assumes "unfinished ts \<noteq> []"
  shows "unfinished ts ! (k mod length (unfinished ts)) < length ts"
    and "\<not> task_done (ts ! (unfinished ts ! (k mod length (unfinished ts))))"
proof -
  have "unfinished ts ! (k mod length (unfinished ts)) \<in> set (unfinished ts)"
    using assms by (intro nth_mem) simp
  then show "unfinished ts ! (k mod length (unfinished ts)) < length ts"
    and "\<not> task_done (ts ! (unfinished ts ! (k mod length (unfinished ts))))"
    by (auto simp: unfinished_def)
qed

function run_tasks ::
  "'w surroundings \<Rightarrow> 'w agent_context \<Rightarrow> assistant_message \<Rightarrow> 'w loop_config \<Rightarrow> 'w tool_task list \<Rightarrow> 'w run \<Rightarrow>
     'w tool_task list \<times> 'w run" where
  "run_tasks E ctx m cfg ts s =
     (if unfinished ts = [] then (ts, s)
      else (let (k, s1) = callback (env_schedule E (length (unfinished ts))) s;
                i = unfinished ts ! (k mod length (unfinished ts));
                (t, s2) = task_step E ctx m cfg (ts ! i) s1 in
            run_tasks E ctx m cfg (ts[i := t]) s2))"
  by pat_completeness auto
termination
proof (relation "measures [\<lambda>(E, ctx, m, cfg, ts, s). sum_list (map not_called ts),
                           \<lambda>(E, ctx, m, cfg, ts, s). sum_list (map steps_left ts)]")
  fix E :: "'w surroundings" and ctx :: "'w agent_context" and m cfg ts s x k s1 i y t s2
  assume *: "unfinished ts \<noteq> []" "i = unfinished ts ! (k mod length (unfinished ts))"
    and y: "y = task_step E ctx m cfg (ts ! i) s1" "(t, s2) = y"
  have "i < length ts" "\<not> task_done (ts ! i)" using unfinished_pick [OF *(1)] *(2) by auto
  moreover have "not_called t < not_called (ts ! i) \<or>
      (not_called t = not_called (ts ! i) \<and> steps_left t < steps_left (ts ! i))"
    using task_step_decreases [OF \<open>\<not> task_done (ts ! i)\<close>, of E ctx m cfg s1 t s2] y by simp
  ultimately show "((E, ctx, m, cfg, ts[i := t], s2), E, ctx, m, cfg, ts, s)
     \<in> measures [\<lambda>(E, ctx, m, cfg, ts, s). sum_list (map not_called ts),
                 \<lambda>(E, ctx, m, cfg, ts, s). sum_list (map steps_left ts)]"
    by (auto simp: sum_update_less sum_update_same)
qed simp

declare run_tasks.simps [simp del]

fun task_result :: "'w tool_task \<Rightarrow> finalized_call option" where
  "task_result (TaskFinished fin) = Some fin"
| "task_result _ = None"

fun report_results :: "'w surroundings \<Rightarrow> finalized_call list \<Rightarrow> 'w run \<Rightarrow> agent_message list \<times> 'w run" where
  "report_results E [] s = ([], s)"
| "report_results E (fin # fins) s =
     (let (msg, s1) = report_result E fin s; (msgs, s2) = report_results E fins s1 in (msg # msgs, s2))"

definition executeToolCallsParallel ::
  "'w surroundings \<Rightarrow> 'w agent_context \<Rightarrow> assistant_message \<Rightarrow> tool_call list \<Rightarrow> 'w loop_config \<Rightarrow> 'w run \<Rightarrow>
     tool_batch \<times> 'w run" where
  "executeToolCallsParallel E ctx m tcs cfg s =
     (let (entries, s1) = preflight E ctx m cfg tcs s;
          (tasks, s2) = run_tasks E ctx m cfg entries s1;
          orderedFinalizedCalls = List.map_filter task_result tasks;
          (msgs, s3) = report_results E orderedFinalizedCalls s2 in
      (\<lparr>batch_messages = msgs, batch_terminate = shouldTerminateToolBatch orderedFinalizedCalls\<rparr>, s3))"

definition executeToolCalls ::
  "'w surroundings \<Rightarrow> 'w agent_context \<Rightarrow> assistant_message \<Rightarrow> 'w loop_config \<Rightarrow> 'w run \<Rightarrow> tool_batch \<times> 'w run" where
  "executeToolCalls E ctx m cfg s =
     (let tcs = toolCalls m;
          hasSequentialToolCall =
            (\<exists>tc \<in> set tcs. case find_tool ctx (tc_name tc) of
                             None \<Rightarrow> False | Some t \<Rightarrow> tool_mode t = Some ExecSequential) in
      if cfg_toolExecution cfg = Some ExecSequential \<or> hasSequentialToolCall
      then executeToolCallsSequential E ctx m tcs cfg s
      else executeToolCallsParallel E ctx m tcs cfg s)"

section \<open>The response of the model\<close>

definition finish_response ::
  "'w surroundings \<Rightarrow> llm_response \<Rightarrow> bool \<Rightarrow> agent_message list \<Rightarrow> 'w run \<Rightarrow>
     (string + assistant_message) \<times> agent_message list \<times> 'w run" where
  "finish_response E rsp addedPartial msgs s =
     (case rsp_result rsp of
        Inl e \<Rightarrow> (Inl e, msgs, s)
      | Inr m \<Rightarrow>
          if addedPartial then (Inr m, butlast msgs @ [AssistantMessage m], emit E (MessageEnd (AssistantMessage m)) s)
          else (Inr m, msgs @ [AssistantMessage m],
                emit E (MessageEnd (AssistantMessage m)) (emit E (MessageStart (AssistantMessage m)) s)))"

fun consume ::
  "'w surroundings \<Rightarrow> llm_response \<Rightarrow> stream_event list \<Rightarrow> bool \<Rightarrow> agent_message list \<Rightarrow> 'w run \<Rightarrow>
     (string + assistant_message) \<times> agent_message list \<times> 'w run" where
  "consume E rsp [] added msgs s =
     (case rsp_failure rsp of Some e \<Rightarrow> (Inl e, msgs, s) | None \<Rightarrow> finish_response E rsp added msgs s)"
| "consume E rsp (StreamStart m # evs) added msgs s =
     consume E rsp evs True (msgs @ [AssistantMessage m]) (emit E (MessageStart (AssistantMessage m)) s)"
| "consume E rsp (StreamBlock k m ps # evs) added msgs s =
     (if added then consume E rsp evs True (butlast msgs @ [AssistantMessage m]) (emit E (MessageUpdate m (StreamBlock k m ps)) s)
      else consume E rsp evs added msgs s)"
| "consume E rsp (StreamDone # evs) added msgs s = finish_response E rsp added msgs s"
| "consume E rsp (StreamError # evs) added msgs s = finish_response E rsp added msgs s"

definition resolvedApiKey :: "'w loop_config \<Rightarrow> 'w run \<Rightarrow> (string + string option) \<times> 'w run" where
  "resolvedApiKey cfg s =
     (case cfg_getApiKey cfg of
        None \<Rightarrow> (Inr (cfg_apiKey cfg), s)
      | Some f \<Rightarrow>
          (case callback (f (md_provider (cfg_model cfg))) s of
             (Inl e, s) \<Rightarrow> (Inl e, s)
           | (Inr None, s) \<Rightarrow> (Inr (cfg_apiKey cfg), s)
           | (Inr (Some key), s) \<Rightarrow> (Inr (if key = [] then cfg_apiKey cfg else Some key), s)))"

definition transformed_messages :: "'w loop_config \<Rightarrow> agent_message list \<Rightarrow> 'w run \<Rightarrow> (string + agent_message list) \<times> 'w run" where
  "transformed_messages cfg msgs s =
     (case cfg_transformContext cfg of None \<Rightarrow> (Inr msgs, s) | Some f \<Rightarrow> callback (f msgs) s)"

text \<open>The response object, before its events are read.\<close>

definition request_response :: "'w surroundings \<Rightarrow> 'w agent_context \<Rightarrow> 'w loop_config \<Rightarrow> 'w run \<Rightarrow> (string + llm_response) \<times> 'w run" where
  "request_response E ctx cfg s =
     (case transformed_messages cfg (ctx_messages ctx) s of
        (Inl e, s) \<Rightarrow> (Inl e, s)
      | (Inr msgs, s) \<Rightarrow>
          (case callback (cfg_convertToLlm cfg msgs) s of
             (Inl e, s) \<Rightarrow> (Inl e, s)
           | (Inr llmMessages, s) \<Rightarrow>
               (case resolvedApiKey cfg s of
                  (Inl e, s) \<Rightarrow> (Inl e, s)
                | (Inr key, s) \<Rightarrow> callback (env_stream E cfg (ctx\<lparr>ctx_messages := llmMessages\<rparr>) key) s)))"

definition streamAssistantResponse ::
  "'w surroundings \<Rightarrow> 'w agent_context \<Rightarrow> 'w loop_config \<Rightarrow> 'w run \<Rightarrow>
     (string + assistant_message) \<times> agent_message list \<times> 'w run" where
  "streamAssistantResponse E ctx cfg s =
     (case request_response E ctx cfg s of
        (Inl e, s) \<Rightarrow> (Inl e, ctx_messages ctx, s)
      | (Inr rsp, s) \<Rightarrow> consume E rsp (rsp_events rsp) False (ctx_messages ctx) s)"

section \<open>The loop\<close>

text \<open>Messages that enter the conversation without a response: prompts and pending messages.\<close>

definition emit_message :: "'w surroundings \<Rightarrow> agent_message \<Rightarrow> 'w run \<Rightarrow> 'w run" where
  "emit_message E m s = emit E (MessageEnd m) (emit E (MessageStart m) s)"

definition inject :: "'w surroundings \<Rightarrow> agent_message \<Rightarrow> 'w run \<Rightarrow> 'w run" where
  "inject E m s = (let s = emit_message E m s in s\<lparr>run_new := run_new s @ [m]\<rparr>)"

definition poll :: "('w \<Rightarrow> (string + agent_message list) \<times> 'w) option \<Rightarrow> 'w run \<Rightarrow> (string + agent_message list) \<times> 'w run" where
  "poll f s = (case f of None \<Rightarrow> (Inr [], s) | Some g \<Rightarrow> callback g s)"

datatype 'w turn_outcome =
    TurnThrew string
  | TurnStopped
  | TurnContinues "'w loop_config" "'w agent_context" "agent_message list" bool

definition updated_config :: "'w turn_update \<Rightarrow> 'w loop_config \<Rightarrow> 'w loop_config" where
  "updated_config u cfg =
     cfg\<lparr>cfg_model := (case upd_model u of None \<Rightarrow> cfg_model cfg | Some md \<Rightarrow> md),
         cfg_reasoning := (case upd_thinkingLevel u of
            None \<Rightarrow> cfg_reasoning cfg
          | Some l \<Rightarrow> if l = ''off'' then None else Some l)\<rparr>"

definition next_turn_snapshot ::
  "'w loop_config \<Rightarrow> 'w turn_context \<Rightarrow> 'w run \<Rightarrow> (string + 'w loop_config \<times> 'w agent_context) \<times> 'w run" where
  "next_turn_snapshot cfg tc s =
     (case cfg_prepareNextTurn cfg of
        None \<Rightarrow> (Inr (cfg, tc_context tc), s)
      | Some f \<Rightarrow>
          (case callback (f tc) s of
             (Inl e, s) \<Rightarrow> (Inl e, s)
           | (Inr None, s) \<Rightarrow> (Inr (cfg, tc_context tc), s)
           | (Inr (Some u), s) \<Rightarrow>
               (Inr (updated_config u cfg, case upd_context u of None \<Rightarrow> tc_context tc | Some c \<Rightarrow> c), s)))"

definition stop_requested :: "'w loop_config \<Rightarrow> 'w turn_context \<Rightarrow> 'w run \<Rightarrow> (string + bool) \<times> 'w run" where
  "stop_requested cfg tc s =
     (case cfg_shouldStopAfterTurn cfg of None \<Rightarrow> (Inr False, s) | Some f \<Rightarrow> callback (f tc) s)"

definition emit_agent_end :: "'w surroundings \<Rightarrow> 'w run \<Rightarrow> 'w run" where
  "emit_agent_end E s = emit E (AgentEnd (run_new s)) s"

text \<open>From the \<open>turn_end\<close> event to the next round of the inner loop.\<close>

definition after_turn ::
  "'w surroundings \<Rightarrow> 'w loop_config \<Rightarrow> 'w agent_context \<Rightarrow> assistant_message \<Rightarrow> agent_message list \<Rightarrow> bool \<Rightarrow> 'w run \<Rightarrow>
     'w turn_outcome \<times> 'w run" where
  "after_turn E cfg ctx m results hasMore s =
     (case next_turn_snapshot cfg \<lparr>tc_message = m, tc_toolResults = results, tc_context = ctx, tc_newMessages = run_new s\<rparr> s of
        (Inl e, s) \<Rightarrow> (TurnThrew e, s)
      | (Inr (cfg, ctx), s) \<Rightarrow>
          (case stop_requested cfg \<lparr>tc_message = m, tc_toolResults = results, tc_context = ctx, tc_newMessages = run_new s\<rparr> s of
             (Inl e, s) \<Rightarrow> (TurnThrew e, s)
           | (Inr True, s) \<Rightarrow> (TurnStopped, emit_agent_end E s)
           | (Inr False, s) \<Rightarrow>
               (case poll (cfg_getSteeringMessages cfg) s of
                  (Inl e, s) \<Rightarrow> (TurnThrew e, s)
                | (Inr pending, s) \<Rightarrow> (TurnContinues cfg ctx pending hasMore, s))))"

definition tool_phase ::
  "'w surroundings \<Rightarrow> 'w agent_context \<Rightarrow> assistant_message \<Rightarrow> 'w loop_config \<Rightarrow> 'w run \<Rightarrow> tool_batch \<times> 'w run" where
  "tool_phase E ctx m cfg s =
     (if toolCalls m = [] then (\<lparr>batch_messages = [], batch_terminate = True\<rparr>, s)
      else if am_stopReason m = StopLength then failToolCallsFromTruncatedMessage E (toolCalls m) s
      else executeToolCalls E ctx m cfg s)"

definition failed_message :: "assistant_message \<Rightarrow> bool" where
  "failed_message m \<longleftrightarrow> am_stopReason m = StopError \<or> am_stopReason m = StopAborted"

definition turn ::
  "'w surroundings \<Rightarrow> 'w loop_config \<Rightarrow> 'w agent_context \<Rightarrow> agent_message list \<Rightarrow> bool \<Rightarrow> 'w run \<Rightarrow>
     'w turn_outcome \<times> 'w run" where
  "turn E cfg ctx pending firstTurn s =
     (let s = fold (inject E) pending (if firstTurn then s else emit E TurnStart s);
          ctx = ctx\<lparr>ctx_messages := ctx_messages ctx @ pending\<rparr> in
      case streamAssistantResponse E ctx cfg s of
        (Inl e, msgs, s) \<Rightarrow> (TurnThrew e, s)
      | (Inr m, msgs, s) \<Rightarrow>
          (let s = s\<lparr>run_new := run_new s @ [AssistantMessage m]\<rparr>; ctx = ctx\<lparr>ctx_messages := msgs\<rparr> in
           if failed_message m then (TurnStopped, emit_agent_end E (emit E (TurnEnd m []) s))
           else (case tool_phase E ctx m cfg s of
                   (batch, s) \<Rightarrow>
                     (let results = batch_messages batch;
                          s = emit E (TurnEnd m results) (s\<lparr>run_new := run_new s @ results\<rparr>) in
                      after_turn E cfg (ctx\<lparr>ctx_messages := ctx_messages ctx @ results\<rparr>) m results
                        (\<not> batch_terminate batch) s))))"

text \<open>
  The two nested loops as one function: a turn while there is something to do, else the follow-up messages.
  It is None when the run never ends.
\<close>

partial_function (option) loop_rounds ::
  "'w surroundings \<Rightarrow> 'w loop_config \<Rightarrow> 'w agent_context \<Rightarrow> agent_message list \<Rightarrow> bool \<Rightarrow> bool \<Rightarrow> 'w run \<Rightarrow>
     (string option \<times> 'w run) option" where
  "loop_rounds E cfg ctx pending hasMore firstTurn s =
     (if hasMore \<or> pending \<noteq> []
      then (case turn E cfg ctx pending firstTurn s of
              (TurnThrew e, s) \<Rightarrow> Some (Some e, s)
            | (TurnStopped, s) \<Rightarrow> Some (None, s)
            | (TurnContinues cfg ctx pending goOn, s) \<Rightarrow> loop_rounds E cfg ctx pending goOn False s)
      else (case poll (cfg_getFollowUpMessages cfg) s of
              (Inl e, s) \<Rightarrow> Some (Some e, s)
            | (Inr followUps, s) \<Rightarrow>
                if followUps \<noteq> [] then loop_rounds E cfg ctx followUps True firstTurn s
                else Some (None, emit_agent_end E s)))"

declare loop_rounds.simps [code]

definition runLoop ::
  "'w surroundings \<Rightarrow> 'w agent_context \<Rightarrow> 'w loop_config \<Rightarrow> 'w run \<Rightarrow> (string option \<times> 'w run) option" where
  "runLoop E ctx cfg s =
     (case poll (cfg_getSteeringMessages cfg) s of
        (Inl e, s) \<Rightarrow> Some (Some e, s)
      | (Inr pending, s) \<Rightarrow> loop_rounds E cfg ctx pending True True s)"

definition start_run :: "'w surroundings \<Rightarrow> agent_message list \<Rightarrow> 'w \<Rightarrow> 'w run" where
  "start_run E prompts w =
     fold (emit_message E) prompts
       (emit E TurnStart (emit E AgentStart \<lparr>run_new = prompts, run_events = [], run_executed = [], run_world = w\<rparr>))"

text \<open>The error thrown, if any, and the state of the run, whose \<open>run_new\<close> is what a normal run returns.\<close>

definition runAgentLoop ::
  "'w surroundings \<Rightarrow> agent_message list \<Rightarrow> 'w agent_context \<Rightarrow> 'w loop_config \<Rightarrow> 'w \<Rightarrow> (string option \<times> 'w run) option" where
  "runAgentLoop E prompts ctx cfg w =
     runLoop E (ctx\<lparr>ctx_messages := ctx_messages ctx @ prompts\<rparr>) cfg (start_run E prompts w)"

definition runAgentLoopContinue ::
  "'w surroundings \<Rightarrow> 'w agent_context \<Rightarrow> 'w loop_config \<Rightarrow> 'w \<Rightarrow> string + (string option \<times> 'w run) option" where
  "runAgentLoopContinue E ctx cfg w =
     (if ctx_messages ctx = [] then Inl ''Cannot continue: no messages in context''
      else if role_of (last (ctx_messages ctx)) = RoleAssistant then Inl ''Cannot continue from message role: assistant''
      else Inr (runLoop E ctx cfg (start_run E [] w)))"

end
