(* ===== verification/Agent_Tools.thy ===== *)
theory Agent_Tools
  imports Agent_Loop
begin

text \<open>
  What the tool calls of one response do to a run of the agent loop, whether they run one after another
  or at the same time: which messages and calls they start and end, which tools they execute.
\<close>

section \<open>What the steps leave alone\<close>

text \<open>A callback changes the world and nothing else of a run.\<close>

definition only_world :: "'w run \<Rightarrow> 'w run \<Rightarrow> bool" where
  "only_world s s' \<longleftrightarrow> run_new s' = run_new s \<and> run_events s' = run_events s \<and> run_executed s' = run_executed s"

lemma quiet_refl: "only_world s s" by (simp add: only_world_def)

lemma quiet_trans: "only_world s1 s2 \<Longrightarrow> only_world s2 s3 \<Longrightarrow> only_world s1 s3" by (simp add: only_world_def)

lemma callback_quiet: "callback f s = (a, s') \<Longrightarrow> only_world s s'"
  by (auto simp: callback_def only_world_def split: prod.splits)

lemma prepareToolCall_quiet: "prepareToolCall E ctx m tc cfg s = (p, s') \<Longrightarrow> only_world s s'"
  by (auto simp: prepareToolCall_def Let_def intro: quiet_refl dest: callback_quiet
        split: option.splits sum.splits prod.splits if_splits)

lemma finalize_quiet: "finalizeExecutedToolCall ctx m p x cfg s = (fin, s') \<Longrightarrow> only_world s s'"
  by (auto simp: finalizeExecutedToolCall_def intro: quiet_refl dest: callback_quiet
        split: option.splits sum.splits prod.splits)

lemma finalize_call: "finalizeExecutedToolCall ctx m p x cfg s = (fin, s') \<Longrightarrow> fin_toolCall fin = prep_toolCall p"
  by (auto simp: finalizeExecutedToolCall_def split: option.splits sum.splits prod.splits)

text \<open>A call is only prepared when its tool exists and accepts the arguments.\<close>

definition valid_call :: "'w agent_context \<Rightarrow> tool_call \<times> jsval \<Rightarrow> bool" where
  "valid_call ctx c =
     (case find_tool ctx (tc_name (fst c)) of
        None \<Rightarrow> False
      | Some tool \<Rightarrow> validated_arguments tool (fst c) = Inr (snd c))"

lemma prepareToolCall_prepared:
  "prepareToolCall E ctx m tc cfg s = (Prepared p, s') \<Longrightarrow>
     prep_toolCall p = tc \<and> valid_call ctx (tc, prep_args p) \<and> find_tool ctx (tc_name tc) = Some (prep_tool p)"
  by (auto simp: prepareToolCall_def valid_call_def Let_def error_outcome_def blocked_outcome_def
        split: option.splits sum.splits prod.splits if_splits)

section \<open>Events and messages\<close>

definition ended :: "loop_event list \<Rightarrow> agent_message list" where
  "ended evs = List.map_filter (\<lambda>ev. case ev of MessageEnd m \<Rightarrow> Some m | _ \<Rightarrow> None) evs"

definition started_calls :: "loop_event list \<Rightarrow> (string \<times> string) list" where
  "started_calls evs = List.map_filter (\<lambda>ev. case ev of ToolExecutionStart i n a \<Rightarrow> Some (i, n) | _ \<Rightarrow> None) evs"

definition ended_calls :: "loop_event list \<Rightarrow> (string \<times> string) list" where
  "ended_calls evs = List.map_filter (\<lambda>ev. case ev of ToolExecutionEnd i n r e \<Rightarrow> Some (i, n) | _ \<Rightarrow> None) evs"

definition call_key :: "tool_call \<Rightarrow> string \<times> string" where
  "call_key tc = (tc_id tc, tc_name tc)"

fun result_key :: "agent_message \<Rightarrow> (string \<times> string) option" where
  "result_key (ToolResultMessage i n c e t r) = Some (i, n)"
| "result_key _ = None"

lemma event_readers [simp]:
  "ended [] = []" "started_calls [] = []" "ended_calls [] = []"
  "ended (es @ fs) = ended es @ ended fs"
  "started_calls (es @ fs) = started_calls es @ started_calls fs"
  "ended_calls (es @ fs) = ended_calls es @ ended_calls fs"
  "ended (ev # es) = (case ev of MessageEnd m \<Rightarrow> [m] | _ \<Rightarrow> []) @ ended es"
  "started_calls (ev # es) = (case ev of ToolExecutionStart i n a \<Rightarrow> [(i, n)] | _ \<Rightarrow> []) @ started_calls es"
  "ended_calls (ev # es) = (case ev of ToolExecutionEnd i n r e \<Rightarrow> [(i, n)] | _ \<Rightarrow> []) @ ended_calls es"
  by (auto simp: ended_def started_calls_def ended_calls_def List.map_filter_def split: loop_event.splits)

lemma emit_parts [simp]:
  "run_new (emit E ev s) = run_new s" "run_executed (emit E ev s) = run_executed s"
  "run_events (emit E ev s) = run_events s @ [ev]"
  by (simp_all add: emit_def)

lemma result_key_created [simp]:
  "result_key (createToolResultMessage now fin) = Some (call_key (fin_toolCall fin))"
  by (simp add: createToolResultMessage_def call_key_def Let_def)

lemma report_result_parts:
  assumes "report_result E fin s = (msg, s')"
  shows "run_new s' = run_new s" "run_executed s' = run_executed s"
    "run_events s' = run_events s @ [MessageStart msg, MessageEnd msg]"
    "result_key msg = Some (call_key (fin_toolCall fin))"
  using assms by (auto simp: report_result_def emitToolResultMessage_def Let_def)

text \<open>
  What a part of the tool phase does to a run: the messages it ends, the calls it starts and ends, the
  calls it executes; new messages are left to the loop.
\<close>

definition phase ::
  "'w run \<Rightarrow> 'w run \<Rightarrow> agent_message list \<Rightarrow> (string \<times> string) multiset \<Rightarrow> (string \<times> string) multiset \<Rightarrow>
     (tool_call \<times> jsval) multiset \<Rightarrow> bool" where
  "phase s s' msgs st en ex \<longleftrightarrow>
     run_new s' = run_new s \<and> ended (run_events s') = ended (run_events s) @ msgs \<and>
     mset (started_calls (run_events s')) = mset (started_calls (run_events s)) + st \<and>
     mset (ended_calls (run_events s')) = mset (ended_calls (run_events s)) + en \<and>
     mset (run_executed s') = mset (run_executed s) + ex"

lemma phase_quiet: "only_world s s' \<Longrightarrow> phase s s' [] {#} {#} {#}"
  by (simp add: phase_def only_world_def)

lemma phase_trans:
  "phase s1 s2 m1 st1 en1 ex1 \<Longrightarrow> phase s2 s3 m2 st2 en2 ex2 \<Longrightarrow>
     phase s1 s3 (m1 @ m2) (st1 + st2) (en1 + en2) (ex1 + ex2)"
  by (simp add: phase_def ac_simps)

lemma phase_start: "phase s (emitToolExecutionStart E tc s) [] {#call_key tc#} {#} {#}"
  by (simp add: phase_def emitToolExecutionStart_def call_key_def)

lemma phase_end: "phase s (emitToolExecutionEnd E fin s) [] {#} {#call_key (fin_toolCall fin)#} {#}"
  by (simp add: phase_def emitToolExecutionEnd_def call_key_def)

lemma phase_update: "phase s (emit_update E p u s) [] {#} {#} {#}"
  by (simp add: phase_def emit_update_def Let_def)

lemma phase_updates: "phase s (fold (emit_update E p) us s) [] {#} {#} {#}"
proof (induction us arbitrary: s)
  case Nil then show ?case by (simp add: phase_def)
next
  case (Cons u us)
  show ?case using phase_trans [OF phase_update Cons.IH] by simp
qed

lemma phase_call:
  "call_tool p s = (r, s') \<Longrightarrow> phase s s' [] {#} {#} {#(prep_toolCall p, prep_args p)#}"
  using callback_quiet by (fastforce simp: call_tool_def phase_def only_world_def)

lemma phase_report:
  "report_result E fin s = (msg, s') \<Longrightarrow> phase s s' [msg] {#} {#} {#}"
  using report_result_parts [of E fin s msg s'] by (simp add: phase_def)

section \<open>Batches\<close>

text \<open>
  What a batch promises: its results answer a prefix of the calls in their order, all of them unless the
  signal is aborted, and at least one; every call of that prefix is started and ended once; the executed
  calls are among them, each at most once and with validated arguments.
\<close>

definition batch_ok ::
  "'w surroundings \<Rightarrow> 'w agent_context \<Rightarrow> tool_call list \<Rightarrow> 'w run \<Rightarrow> agent_message list \<Rightarrow> 'w run \<Rightarrow> bool" where
  "batch_ok E ctx tcs s msgs s' \<longleftrightarrow>
     (\<exists>k ex. k \<le> length tcs \<and> (tcs \<noteq> [] \<longrightarrow> 0 < k) \<and> ((\<forall>w. \<not> env_aborted E w) \<longrightarrow> k = length tcs) \<and>
        map result_key msgs = map (\<lambda>tc. Some (call_key tc)) (take k tcs) \<and>
        phase s s' msgs (mset (map call_key (take k tcs))) (mset (map call_key (take k tcs))) ex \<and>
        image_mset fst ex \<subseteq># mset (take k tcs) \<and> (\<forall>c \<in># ex. valid_call ctx c))"

lemma batch_nil: "batch_ok E ctx [] s [] s"
  by (auto simp: batch_ok_def phase_def)

text \<open>One call with its result: started, ended and reported, executed at most once.\<close>

definition call_ok :: "'w agent_context \<Rightarrow> tool_call \<Rightarrow> 'w run \<Rightarrow> agent_message \<Rightarrow> 'w run \<Rightarrow> bool" where
  "call_ok ctx tc s msg s' \<longleftrightarrow> result_key msg = Some (call_key tc) \<and>
     (\<exists>ex. phase s s' [msg] {#call_key tc#} {#call_key tc#} ex \<and>
        image_mset fst ex \<subseteq># {#tc#} \<and> (\<forall>c \<in># ex. valid_call ctx c))"

lemma batch_cons:
  assumes "call_ok ctx tc s msg s1" "batch_ok E ctx tcs s1 msgs s2"
  shows "batch_ok E ctx (tc # tcs) s (msg # msgs) s2"
proof -
  obtain ex where ex: "result_key msg = Some (call_key tc)" "phase s s1 [msg] {#call_key tc#} {#call_key tc#} ex"
    "image_mset fst ex \<subseteq># {#tc#}" "\<forall>c \<in># ex. valid_call ctx c"
    using assms(1) by (auto simp: call_ok_def)
  obtain k ex' where k: "k \<le> length tcs" "(\<forall>w. \<not> env_aborted E w) \<longrightarrow> k = length tcs"
    "map result_key msgs = map (\<lambda>tc. Some (call_key tc)) (take k tcs)"
    "phase s1 s2 msgs (mset (map call_key (take k tcs))) (mset (map call_key (take k tcs))) ex'"
    "image_mset fst ex' \<subseteq># mset (take k tcs)" "\<forall>c \<in># ex'. valid_call ctx c"
    using assms(2) by (auto simp: batch_ok_def)
  have "phase s s2 (msg # msgs) (mset (map call_key (take (Suc k) (tc # tcs)))) (mset (map call_key (take (Suc k) (tc # tcs)))) (ex + ex')"
    using phase_trans [OF ex(2) k(4)] by simp
  moreover have "image_mset fst (ex + ex') \<subseteq># mset (take (Suc k) (tc # tcs))"
    using subset_mset.add_mono [OF ex(3) k(5)] by simp
  ultimately show ?thesis unfolding batch_ok_def
    using k ex by (intro exI [of _ "Suc k"] exI [of _ "ex + ex'"]) auto
qed

lemma batch_stop:
  assumes "call_ok ctx tc s msg s1" "aborted E s1"
  shows "batch_ok E ctx (tc # tcs) s [msg] s1"
  using assms unfolding batch_ok_def call_ok_def aborted_def by (intro exI [of _ 1]) auto

lemma call_ok_report:
  assumes "report_result E fin (emitToolExecutionEnd E fin s1) = (msg, s2)" "fin_toolCall fin = tc"
    "phase s s1 [] {#call_key tc#} {#} ex" "image_mset fst ex \<subseteq># {#tc#}" "\<forall>c \<in># ex. valid_call ctx c"
  shows "call_ok ctx tc s msg s2"
  using phase_trans [OF phase_trans [OF assms(3) phase_end [of s1 E fin]] phase_report [OF assms(1)]]
    report_result_parts(4) [OF assms(1)] assms(2,4,5)
  by (auto simp: call_ok_def)

lemma fail_each_batch: "fail_each E tcs s = (msgs, s') \<Longrightarrow> batch_ok E ctx tcs s msgs s'"
proof (induction E tcs s arbitrary: msgs s' rule: fail_each.induct)
  case (1 E s) then show ?case by (simp add: batch_nil)
next
  case (2 E tc tcs s)
  show ?case using 2(2)
    by (auto simp: Let_def split: prod.splits intro!: batch_cons call_ok_report phase_start 2(1))
qed

lemma run_call_phase:
  assumes "run_call E ctx m cfg tc s = (fin, s')"
  shows "fin_toolCall fin = tc \<and> (\<exists>ex. phase s s' [] {#call_key tc#} {#} ex \<and>
     image_mset fst ex \<subseteq># {#tc#} \<and> (\<forall>c \<in># ex. valid_call ctx c))"
proof -
  obtain p s1 where p: "prepareToolCall E ctx m tc cfg (emitToolExecutionStart E tc s) = (p, s1)" by fastforce
  have 1: "phase s s1 [] {#call_key tc#} {#} {#}"
    using phase_trans [OF phase_start phase_quiet [OF prepareToolCall_quiet [OF p]]] by simp
  show ?thesis
  proof (cases p)
    case (Immediate r e)
    then show ?thesis using assms p 1 by (auto simp: run_call_def immediate_call_def intro!: exI [of _ "{#}"])
  next
    case (Prepared q)
    obtain r s2 where r: "call_tool q s1 = (r, s2)" by fastforce
    let ?s3 = "fold (emit_update E q) (run_updates r) s2"
    have fin: "finalizeExecutedToolCall ctx m q (executed_outcome (run_outcome r)) cfg ?s3 = (fin, s')"
      using assms p Prepared r by (simp add: run_call_def executePreparedToolCall_def)
    have "phase s s' [] {#call_key tc#} {#} {#(prep_toolCall q, prep_args q)#}"
      using phase_trans [OF phase_trans [OF phase_trans [OF 1 phase_call [OF r]] phase_updates]
        phase_quiet [OF finalize_quiet [OF fin]]] by simp
    then show ?thesis
      using prepareToolCall_prepared [of E ctx m tc cfg "emitToolExecutionStart E tc s" q s1] p Prepared finalize_call [OF fin] by auto
  qed
qed

lemma sequential_batch:
  "sequential_calls E ctx m cfg tcs s = (ds, s') \<Longrightarrow> batch_ok E ctx tcs s (map snd ds) s'"
proof (induction E ctx m cfg tcs s arbitrary: ds s' rule: sequential_calls.induct)
  case (1 E ctx m cfg s) then show ?case by (simp add: batch_nil)
next
  case (2 E ctx m cfg tc tcs s)
  obtain fin s1 where r: "run_call E ctx m cfg tc s = (fin, s1)" by fastforce
  obtain msg s2 where m: "report_result E fin (emitToolExecutionEnd E fin s1) = (msg, s2)" by fastforce
  have ok: "call_ok ctx tc s msg s2" using run_call_phase [OF r] call_ok_report [OF m] by blast
  show ?case
  proof (cases "aborted E s2")
    case True then show ?thesis using 2(2) r m batch_stop [OF ok True] by auto
  next
    case False
    then show ?thesis
      using 2(2) r m 2(1) [OF _ refl _ refl False] by (auto simp: Let_def split: prod.splits intro!: batch_cons [OF ok])
  qed
qed

section \<open>Concurrent tool calls\<close>

fun task_call :: "'w tool_task \<Rightarrow> tool_call" where
  "task_call (TaskFinished fin) = fin_toolCall fin"
| "task_call (TaskReady p) = prep_toolCall p"
| "task_call (TaskRunning p us executed) = prep_toolCall p"
| "task_call (TaskFinalized fin) = fin_toolCall fin"

text \<open>The calls a task still has to execute and to end.\<close>

fun to_execute :: "'w tool_task \<Rightarrow> (tool_call \<times> jsval) multiset" where
  "to_execute (TaskReady p) = {#(prep_toolCall p, prep_args p)#}"
| "to_execute _ = {#}"

definition to_end :: "'w tool_task \<Rightarrow> (string \<times> string) multiset" where
  "to_end t = (if task_done t then {#} else {#call_key (task_call t)#})"

lemma sum_update_multiset:
  fixes f :: "'a \<Rightarrow> 'b multiset"
  assumes "i < length xs"
  shows "sum_list (map f (xs[i := y])) + f (xs ! i) = sum_list (map f xs) + f y"
  using assms
proof (induction xs arbitrary: i)
  case Nil then show ?case by simp
next
  case (Cons x xs)
  then show ?case by (cases i) (auto simp: ac_simps)
qed

text \<open>One step of a task moves what it still had to do into the run.\<close>

lemma task_step_phase:
  assumes "\<not> task_done t" "task_step E ctx m cfg t s = (t', s')"
  shows "task_call t' = task_call t \<and> (\<exists>en ex. phase s s' [] {#} en ex \<and>
    en + to_end t' = to_end t \<and> ex + to_execute t' = to_execute t)"
proof (cases t)
  case (TaskFinished fin) then show ?thesis using assms by simp
next
  case (TaskReady p)
  then show ?thesis using assms phase_call by (fastforce simp: to_end_def split: prod.splits)
next
  case (TaskRunning p us x)
  show ?thesis
  proof (cases us)
    case Nil
    then show ?thesis using assms TaskRunning
      by (auto simp: to_end_def split: prod.splits dest: finalize_quiet finalize_call intro!: phase_quiet)
  next
    case (Cons u vs)
    then show ?thesis using assms TaskRunning phase_update by (auto simp: to_end_def)
  qed
next
  case (TaskFinalized fin)
  then show ?thesis using assms phase_end [of s E fin] by (auto simp: to_end_def)
qed

lemma unfinished_none: "unfinished ts = [] \<longleftrightarrow> (\<forall>t \<in> set ts. task_done t)"
  by (fastforce simp: unfinished_def filter_empty_conv in_set_conv_nth all_set_conv_all_nth)

lemma task_done_nothing: "task_done t \<Longrightarrow> to_end t = {#} \<and> to_execute t = {#}"
  by (cases t) (auto simp: to_end_def)

lemma run_tasks_phase:
  assumes "run_tasks E ctx m cfg ts s = (ts', s')"
  shows "map task_call ts' = map task_call ts \<and> (\<forall>t \<in> set ts'. task_done t) \<and>
    phase s s' [] {#} (sum_list (map to_end ts)) (sum_list (map to_execute ts))"
  using assms
proof (induction E ctx m cfg ts s arbitrary: ts' s' rule: run_tasks.induct)
  case (1 E ctx m cfg ts s)
  show ?case
  proof (cases "unfinished ts = []")
    case True
    then have d: "\<forall>t \<in> set ts. task_done t" by (simp add: unfinished_none)
    then have "sum_list (map to_end ts) = {#}" "sum_list (map to_execute ts) = {#}"
      using task_done_nothing by (induction ts) auto
    then show ?thesis using True d 1(2) by (simp add: run_tasks.simps phase_quiet [OF quiet_refl])
  next
    case False
    obtain k s1 where k: "callback (env_schedule E (length (unfinished ts))) s = (k, s1)" by fastforce
    define i where "i = unfinished ts ! (k mod length (unfinished ts))"
    obtain t s2 where t: "task_step E ctx m cfg (ts ! i) s1 = (t, s2)" by fastforce
    have i: "i < length ts" "\<not> task_done (ts ! i)" using unfinished_pick [OF False] by (auto simp: i_def)
    have rest: "run_tasks E ctx m cfg (ts[i := t]) s2 = (ts', s')"
      using 1(2) False k t by (simp add: run_tasks.simps [of E ctx m cfg ts s] i_def)
    have IH: "map task_call ts' = map task_call (ts[i := t])" "\<forall>t \<in> set ts'. task_done t"
      "phase s2 s' [] {#} (sum_list (map to_end (ts[i := t]))) (sum_list (map to_execute (ts[i := t])))"
      using 1(1) [OF False k [symmetric] refl i_def t [symmetric] refl rest] by auto
    obtain en ex where st: "task_call t = task_call (ts ! i)" "phase s1 s2 [] {#} en ex"
      "en + to_end t = to_end (ts ! i)" "ex + to_execute t = to_execute (ts ! i)"
      using task_step_phase [OF i(2) t] by auto
    have "sum_list (map to_end (ts[i := t])) + en = sum_list (map to_end ts)"
      using sum_update_multiset [OF i(1), of to_end t] st(3) by (metis add.assoc add_right_cancel)
    moreover have "sum_list (map to_execute (ts[i := t])) + ex = sum_list (map to_execute ts)"
      using sum_update_multiset [OF i(1), of to_execute t] st(4) by (metis add.assoc add_right_cancel)
    ultimately have "phase s s' [] {#} (sum_list (map to_end ts)) (sum_list (map to_execute ts))"
      using phase_trans [OF phase_trans [OF phase_quiet [OF callback_quiet [OF k]] st(2)] IH(3)]
      by (simp add: ac_simps)
    moreover have "map task_call (ts[i := t]) = map task_call ts"
      using st(1) i(1) by (metis length_map list_update_id map_update nth_map)
    ultimately show ?thesis using IH by simp
  qed
qed

text \<open>The sequential part before: starts, and ends of the calls that were refused.\<close>

definition preflight_ok ::
  "'w surroundings \<Rightarrow> 'w agent_context \<Rightarrow> tool_call list \<Rightarrow> 'w run \<Rightarrow> 'w tool_task list \<Rightarrow> 'w run \<Rightarrow> bool" where
  "preflight_ok E ctx tcs s ts s' \<longleftrightarrow>
     (tcs \<noteq> [] \<longrightarrow> ts \<noteq> []) \<and> ((\<forall>w. \<not> env_aborted E w) \<longrightarrow> length ts = length tcs) \<and>
     length ts \<le> length tcs \<and> map task_call ts = take (length ts) tcs \<and>
     (\<forall>t \<in> set ts. image_mset fst (to_execute t) \<subseteq># {#task_call t#} \<and> (\<forall>c \<in># to_execute t. valid_call ctx c)) \<and>
     (\<exists>en. phase s s' [] (mset (map call_key (map task_call ts))) en {#} \<and>
        en + sum_list (map to_end ts) = mset (map call_key (map task_call ts)))"

lemma preflight_task:
  assumes "(case prepareToolCall E ctx m tc cfg (emitToolExecutionStart E tc s) of
               (Immediate result isError, s1) \<Rightarrow>
                 (let fin = immediate_call tc result isError in (TaskFinished fin, emitToolExecutionEnd E fin s1))
             | (Prepared p, s1) \<Rightarrow> (TaskReady p, s1)) = (t, s')"
  shows "task_call t = tc \<and> image_mset fst (to_execute t) \<subseteq># {#tc#} \<and> (\<forall>c \<in># to_execute t. valid_call ctx c) \<and>
    (\<exists>en. phase s s' [] {#call_key tc#} en {#} \<and> en + to_end t = {#call_key tc#})"
proof -
  obtain p s1 where p: "prepareToolCall E ctx m tc cfg (emitToolExecutionStart E tc s) = (p, s1)" by fastforce
  have 1: "phase s s1 [] {#call_key tc#} {#} {#}"
    using phase_trans [OF phase_start phase_quiet [OF prepareToolCall_quiet [OF p]]] by simp
  show ?thesis
  proof (cases p)
    case (Immediate r e)
    then show ?thesis
      using assms p phase_trans [OF 1 phase_end, of E "immediate_call tc r e"]
      by (auto simp: Let_def to_end_def immediate_call_def)
  next
    case (Prepared q)
    then show ?thesis
      using assms p 1 prepareToolCall_prepared [of E ctx m tc cfg "emitToolExecutionStart E tc s" q s1]
      by (auto simp: to_end_def)
  qed
qed

lemma preflight_phase: "preflight E ctx m cfg tcs s = (ts, s') \<Longrightarrow> preflight_ok E ctx tcs s ts s'"
proof (induction E ctx m cfg tcs s arbitrary: ts s' rule: preflight.induct)
  case (1 E ctx m cfg s) then show ?case by (simp add: preflight_ok_def phase_quiet [OF quiet_refl])
next
  case (2 E ctx m cfg tc tcs s)
  let ?c = "case prepareToolCall E ctx m tc cfg (emitToolExecutionStart E tc s) of
               (Immediate result isError, s1) \<Rightarrow>
                 (let fin = immediate_call tc result isError in (TaskFinished fin, emitToolExecutionEnd E fin s1))
             | (Prepared p, s1) \<Rightarrow> (TaskReady p, s1)"
  obtain t s2 where t: "?c = (t, s2)" by fastforce
  obtain en where en: "task_call t = tc" "image_mset fst (to_execute t) \<subseteq># {#tc#}" "\<forall>c \<in># to_execute t. valid_call ctx c"
    "phase s s2 [] {#call_key tc#} en {#}" "en + to_end t = {#call_key tc#}"
    using preflight_task [OF t] by auto
  show ?case
  proof (cases "aborted E s2")
    case True
    then show ?thesis using 2(2) t en by (auto simp: preflight_ok_def aborted_def)
  next
    case False
    obtain rest s3 where r: "preflight E ctx m cfg tcs s2 = (rest, s3)" by fastforce
    have IH: "preflight_ok E ctx tcs s2 rest s3" using 2(1) [OF t [symmetric] refl False r] .
    have ts: "ts = t # rest" "s' = s3" using 2(2) t False r by auto
    obtain en' where en': "phase s2 s3 [] (mset (map call_key (map task_call rest))) en' {#}"
      "en' + sum_list (map to_end rest) = mset (map call_key (map task_call rest))"
      using IH by (auto simp: preflight_ok_def)
    have "phase s s3 [] (mset (map call_key (map task_call ts))) (en + en') {#}"
      using phase_trans [OF en(4) en'(1)] en(1) ts by simp
    moreover have "(en + en') + sum_list (map to_end ts) = (en + to_end t) + (en' + sum_list (map to_end rest))"
      using ts by (simp add: ac_simps)
    then have "(en + en') + sum_list (map to_end ts) = mset (map call_key (map task_call ts))"
      unfolding en(5) en'(2) using ts en(1) by simp
    ultimately show ?thesis using IH en ts unfolding preflight_ok_def by auto
  qed
qed

lemma report_results_phase:
  "report_results E fins s = (msgs, s') \<Longrightarrow>
     phase s s' msgs {#} {#} {#} \<and> map result_key msgs = map (\<lambda>fin. Some (call_key (fin_toolCall fin))) fins"
proof (induction E fins s arbitrary: msgs s' rule: report_results.induct)
  case (1 E s) then show ?case by (simp add: phase_quiet [OF quiet_refl])
next
  case (2 E fin fins s)
  obtain msg s1 where m: "report_result E fin s = (msg, s1)" by fastforce
  obtain ms s2 where r: "report_results E fins s1 = (ms, s2)" by fastforce
  show ?case
    using 2(2) m r phase_trans [OF phase_report [OF m]] 2(1) [OF m [symmetric] refl r] report_result_parts(4) [OF m] by fastforce
qed

lemma task_results:
  "(\<forall>t \<in> set ts. task_done t) \<Longrightarrow>
     map fin_toolCall (List.map_filter task_result ts) = map task_call ts"
proof (induction ts)
  case Nil then show ?case by (simp add: List.map_filter_def)
next
  case (Cons t ts)
  then show ?case by (cases t) (auto simp: List.map_filter_def)
qed

lemma executed_of_tasks:
  "(\<forall>t \<in> set ts. image_mset fst (to_execute t) \<subseteq># {#task_call t#}) \<Longrightarrow>
     image_mset fst (sum_list (map to_execute ts)) \<subseteq># mset (map task_call ts)"
proof (induction ts)
  case Nil then show ?case by simp
next
  case (Cons t ts)
  then show ?case using subset_mset.add_mono [of "image_mset fst (to_execute t)" "{#task_call t#}"] by fastforce
qed

lemma in_sum_list_mset: "c \<in># sum_list (map f ts) \<longleftrightarrow> (\<exists>t \<in> set ts. c \<in># f t)"
  by (induction ts) auto

lemma parallel_batch:
  assumes "executeToolCallsParallel E ctx m tcs cfg s = (b, s')"
  shows "batch_ok E ctx tcs s (batch_messages b) s'"
proof -
  obtain ts s1 where p: "preflight E ctx m cfg tcs s = (ts, s1)" by fastforce
  obtain ds s2 where r: "run_tasks E ctx m cfg ts s1 = (ds, s2)" by fastforce
  let ?fins = "List.map_filter task_result ds"
  obtain msgs s3 where q: "report_results E ?fins s2 = (msgs, s3)" by fastforce
  have b: "batch_messages b = msgs" "s' = s3"
    using assms p r q by (auto simp: executeToolCallsParallel_def)
  have pre: "preflight_ok E ctx tcs s ts s1" by (rule preflight_phase [OF p])
  obtain en where en: "phase s s1 [] (mset (map call_key (map task_call ts))) en {#}"
    "en + sum_list (map to_end ts) = mset (map call_key (map task_call ts))"
    using pre by (auto simp: preflight_ok_def)
  have run: "map task_call ds = map task_call ts" "\<forall>t \<in> set ds. task_done t"
    "phase s1 s2 [] {#} (sum_list (map to_end ts)) (sum_list (map to_execute ts))"
    using run_tasks_phase [OF r] by auto
  have rep: "phase s2 s3 msgs {#} {#} {#}" "map result_key msgs = map (\<lambda>fin. Some (call_key (fin_toolCall fin))) ?fins"
    using report_results_phase [OF q] by auto
  have "map result_key msgs = map (\<lambda>tc. Some (call_key tc)) (map task_call ts)"
    using rep(2) task_results [OF run(2)] run(1) by (metis (no_types, lifting) comp_apply map_eq_conv map_map)
  moreover have "phase s s3 msgs (mset (map call_key (map task_call ts))) (mset (map call_key (map task_call ts)))
      (sum_list (map to_execute ts))"
    using phase_trans [OF phase_trans [OF en(1) run(3)] rep(1)] en(2) by simp
  moreover have "map task_call ts = take (length ts) tcs" using pre by (simp add: preflight_ok_def)
  moreover have "image_mset fst (sum_list (map to_execute ts)) \<subseteq># mset (map task_call ts)"
    using pre executed_of_tasks unfolding preflight_ok_def by blast
  moreover have "\<forall>c \<in># sum_list (map to_execute ts). valid_call ctx c"
    using pre by (auto simp: preflight_ok_def in_sum_list_mset)
  ultimately show ?thesis using pre unfolding b batch_ok_def preflight_ok_def
    by (intro exI [of _ "length ts"] exI [of _ "sum_list (map to_execute ts)"]) auto
qed

lemma executeToolCalls_batch:
  assumes "executeToolCalls E ctx m cfg s = (b, s')"
  shows "batch_ok E ctx (toolCalls m) s (batch_messages b) s'"
  using assms parallel_batch sequential_batch
  by (fastforce simp: executeToolCalls_def executeToolCallsSequential_def Let_def split: if_splits prod.splits)

end
