(* ===== verification/Agent_Turns.thy ===== *)
theory Agent_Turns
  imports Agent_Tools
begin

text \<open>
  Runs of the agent loop as sequences of turns: the transcript and the events of a run, the independence of
  results from the schedule of concurrent tools, and runs that end.
\<close>

section \<open>Turns\<close>

text \<open>The calls of a response that the loop may execute: none when the response failed or was cut off.\<close>

definition runnable_calls :: "assistant_message \<Rightarrow> tool_call list" where
  "runnable_calls m = (if failed_message m \<or> am_stopReason m = StopLength then [] else toolCalls m)"

text \<open>A turn as the transcript has it: the messages taken in, the response, the tool results.\<close>

type_synonym turn_record = "agent_message list \<times> assistant_message \<times> agent_message list"

definition turn_messages :: "turn_record \<Rightarrow> agent_message list" where
  "turn_messages t = (case t of (taken, m, results) \<Rightarrow> taken @ AssistantMessage m # results)"

definition turn_calls :: "turn_record \<Rightarrow> tool_call list" where
  "turn_calls t = runnable_calls (fst (snd t))"

text \<open>
  The results answer the calls of the response: a prefix in their order, not empty, and the whole list
  when \<open>whole\<close>; a failed response has none.
\<close>

definition answered :: "bool \<Rightarrow> turn_record \<Rightarrow> bool" where
  "answered whole t =
     (case t of (taken, m, results) \<Rightarrow>
        if failed_message m then results = []
        else map result_key results = map (\<lambda>tc. Some (call_key tc)) (take (length results) (toolCalls m)) \<and>
             (toolCalls m \<noteq> [] \<longrightarrow> results \<noteq> []) \<and> (whole \<longrightarrow> length results = length (toolCalls m)))"

lemma fail_each_executes_none: "fail_each E tcs s = (msgs, s') \<Longrightarrow> run_executed s' = run_executed s"
  by (induction E tcs s arbitrary: msgs s' rule: fail_each.induct)
    (auto simp: Let_def emitToolExecutionEnd_def emitToolExecutionStart_def report_result_parts(2) split: prod.splits)

lemma batch_answered:
  assumes "batch_ok E ctx (toolCalls m) s msgs s'" "\<not> failed_message m" "whole \<longrightarrow> (\<forall>w. \<not> env_aborted E w)"
  shows "answered whole (taken, m, msgs)"
proof -
  obtain k where k: "k \<le> length (toolCalls m)" "toolCalls m \<noteq> [] \<longrightarrow> 0 < k"
    "(\<forall>w. \<not> env_aborted E w) \<longrightarrow> k = length (toolCalls m)"
    "map result_key msgs = map (\<lambda>tc. Some (call_key tc)) (take k (toolCalls m))"
    using assms(1) by (auto simp: batch_ok_def)
  have "length msgs = k" using arg_cong [OF k(4), of length] k(1) by simp
  then show ?thesis using k assms(2,3) by (auto simp: answered_def)
qed

lemma tool_phase_batch:
  assumes "tool_phase E ctx m cfg s = (b, s')"
  shows "batch_ok E ctx (toolCalls m) s (batch_messages b) s'"
  using assms executeToolCalls_batch [of E ctx m cfg s b s'] fail_each_batch [of E "toolCalls m" s]
  by (auto simp: tool_phase_def failToolCallsFromTruncatedMessage_def batch_nil split: if_splits prod.splits)

lemma tool_phase_executes:
  assumes "tool_phase E ctx m cfg s = (b, s')" "\<not> failed_message m"
  shows "\<exists>k ex. phase s s' (batch_messages b) k k ex \<and> image_mset fst ex \<subseteq># mset (runnable_calls m)"
proof -
  obtain k ex where k: "phase s s' (batch_messages b) k k ex" and ex: "image_mset fst ex \<subseteq># mset (toolCalls m)"
    using tool_phase_batch [OF assms(1)] unfolding batch_ok_def
    by (metis append_take_drop_id mset_append mset_subset_eq_add_left subset_mset.order_trans)
  show ?thesis
  proof (cases "am_stopReason m = StopLength")
    case True
    then have "run_executed s' = run_executed s"
      using assms(1) fail_each_executes_none
      by (fastforce simp: tool_phase_def failToolCallsFromTruncatedMessage_def split: if_splits prod.splits)
    then have "ex = {#}" using k by (simp add: phase_def)
    then show ?thesis using k by (intro exI [of _ k] exI [of _ "{#}"]) simp
  next
    case False
    then show ?thesis using k ex assms(2) by (auto simp: runnable_calls_def)
  qed
qed

lemma request_quiet: "request_response E ctx cfg s = (r, s') \<Longrightarrow> only_world s s'"
  by (auto simp: request_response_def transformed_messages_def resolvedApiKey_def
        intro: quiet_refl dest!: callback_quiet elim: quiet_trans split: option.splits sum.splits prod.splits)
    (simp_all add: only_world_def)

lemma phase_emit_other:
  "ended [ev] = [] \<Longrightarrow> started_calls [ev] = [] \<Longrightarrow> ended_calls [ev] = [] \<Longrightarrow> phase s (emit E ev s) [] {#} {#} {#}"
  by (simp add: phase_def del: event_readers(7-9))

lemma consume_phase:
  "consume E rsp evs added msgs s = (r, msgs', s') \<Longrightarrow>
     phase s s' (case r of Inl e \<Rightarrow> [] | Inr m \<Rightarrow> [AssistantMessage m]) {#} {#} {#}"
  by (induction E rsp evs added msgs s arbitrary: r msgs' s' rule: consume.induct)
    (fastforce simp: finish_response_def phase_def split: option.splits sum.splits if_splits)+

lemma stream_phase:
  assumes "streamAssistantResponse E ctx cfg s = (r, msgs, s')"
  shows "phase s s' (case r of Inl e \<Rightarrow> [] | Inr m \<Rightarrow> [AssistantMessage m]) {#} {#} {#}"
proof -
  obtain q s1 where q: "request_response E ctx cfg s = (q, s1)" by fastforce
  have "phase s s1 [] {#} {#} {#}" by (rule phase_quiet [OF request_quiet [OF q]])
  then show ?thesis using assms q
    by (auto simp: streamAssistantResponse_def split: sum.splits dest!: consume_phase dest: phase_trans)
qed

text \<open>
  How a run grows by turns and, at the end, by messages taken in that no response followed. The messages
  ended by events are the new messages; every started call is ended; executed calls belong to the turns.
\<close>

definition grown :: "bool \<Rightarrow> 'w run \<Rightarrow> 'w run \<Rightarrow> turn_record list \<Rightarrow> agent_message list \<Rightarrow> bool" where
  "grown whole s s' turns rest \<longleftrightarrow>
     run_new s' = run_new s @ concat (map turn_messages turns) @ rest \<and>
     ended (run_events s') = ended (run_events s) @ concat (map turn_messages turns) @ rest \<and>
     (\<exists>k. mset (started_calls (run_events s')) = mset (started_calls (run_events s)) + k \<and>
          mset (ended_calls (run_events s')) = mset (ended_calls (run_events s)) + k) \<and>
     (\<exists>ex. mset (run_executed s') = mset (run_executed s) + ex \<and>
           image_mset fst ex \<subseteq># mset (concat (map turn_calls turns))) \<and>
     (\<forall>t \<in> set turns. answered whole t) \<and> (\<forall>t \<in> set (butlast turns). \<not> failed_message (fst (snd t)))"

lemma grown_quiet: "only_world s s' \<Longrightarrow> grown whole s s' [] []"
  by (simp add: grown_def only_world_def)

lemma grown_trans:
  assumes "grown whole s1 s2 ts []" "grown whole s2 s3 us rest" "\<forall>t \<in> set ts. \<not> failed_message (fst (snd t))"
  shows "grown whole s1 s3 (ts @ us) rest"
proof -
  obtain ex where ex: "mset (run_executed s2) = mset (run_executed s1) + ex" "image_mset fst ex \<subseteq># mset (concat (map turn_calls ts))"
    using assms(1) by (auto simp: grown_def)
  obtain ey where ey: "mset (run_executed s3) = mset (run_executed s2) + ey" "image_mset fst ey \<subseteq># mset (concat (map turn_calls us))"
    using assms(2) by (auto simp: grown_def)
  have "mset (run_executed s3) = mset (run_executed s1) + (ex + ey)" "image_mset fst (ex + ey) \<subseteq># mset (concat (map turn_calls (ts @ us)))"
    using ex ey subset_mset.add_mono [OF ex(2) ey(2)] by auto
  moreover have "\<exists>k. mset (started_calls (run_events s3)) = mset (started_calls (run_events s1)) + k \<and>
      mset (ended_calls (run_events s3)) = mset (ended_calls (run_events s1)) + k"
    using assms(1,2) unfolding grown_def by (metis add.assoc)
  moreover have "\<forall>t \<in> set (butlast (ts @ us)). \<not> failed_message (fst (snd t))"
    using assms by (auto simp: grown_def butlast_append dest: in_set_butlastD)
  ultimately show ?thesis using assms(1,2) unfolding grown_def by auto
qed

lemma grown_finish:
  assumes "grown whole s s1 ts rest" "phase s1 s2 [] {#} {#} {#}"
  shows "grown whole s s2 ts rest"
  using assms by (auto simp: grown_def phase_def)

lemma phase_emits: "phase s (emit_agent_end E s) [] {#} {#} {#}" "phase s (emit E (TurnEnd m rs) s) [] {#} {#} {#}"
  "phase s (emit E TurnStart s) [] {#} {#} {#}" "phase s (emit E AgentStart s) [] {#} {#} {#}"
  by (simp_all add: phase_def emit_agent_end_def)

lemma inject_grown: "phase s s0 [] {#} {#} {#} \<Longrightarrow> grown whole s (fold (inject E) pending s0) [] pending"
proof (induction pending rule: rev_induct)
  case Nil then show ?case by (auto simp: grown_def phase_def)
next
  case (snoc m ms)
  then show ?case by (auto simp: grown_def inject_def emit_message_def Let_def)
qed

text \<open>A response and the results of its calls, after the messages taken in.\<close>

lemma grown_turn:
  assumes "grown whole s s1 [] pending" "phase s1 s2 [AssistantMessage m] {#} {#} {#}"
    and "phase (s2\<lparr>run_new := run_new s2 @ [AssistantMessage m]\<rparr>) s3 results k k ex"
    and "image_mset fst ex \<subseteq># mset (runnable_calls m)" "answered whole (pending, m, results)"
  shows "grown whole s (s3\<lparr>run_new := run_new s3 @ results\<rparr>) [(pending, m, results)] []"
  using assms unfolding grown_def phase_def by (auto simp: turn_messages_def turn_calls_def)

lemma poll_quiet: "poll f s = (r, s') \<Longrightarrow> only_world s s'"
  by (auto simp: poll_def intro: quiet_refl dest: callback_quiet split: option.splits)

lemma snapshot_quiet: "next_turn_snapshot cfg tc s = (r, s') \<Longrightarrow> only_world s s'"
  by (auto simp: next_turn_snapshot_def intro: quiet_refl dest: callback_quiet split: option.splits sum.splits prod.splits)

lemma stop_quiet: "stop_requested cfg tc s = (r, s') \<Longrightarrow> only_world s s'"
  by (auto simp: stop_requested_def intro: quiet_refl dest: callback_quiet split: option.splits)

lemma after_turn_cases:
  assumes "after_turn E cfg ctx m results hasMore s = (out, s')"
  shows "(only_world s s' \<and> out \<noteq> TurnStopped) \<or> (\<exists>s1. only_world s s1 \<and> out = TurnStopped \<and> s' = emit_agent_end E s1)"
  using assms
  by (auto simp: after_turn_def dest!: snapshot_quiet stop_quiet poll_quiet elim: quiet_trans
        split: prod.splits sum.splits bool.splits)

text \<open>What one turn adds: nothing but the messages taken in when no response came, else one turn.\<close>

lemma turn_grown:
  assumes "turn E cfg ctx pending first s = (out, s')" "whole \<longrightarrow> (\<forall>w. \<not> env_aborted E w)"
  shows "(grown whole s s' [] pending \<and> (\<exists>e. out = TurnThrew e)) \<or>
    (\<exists>m results. grown whole s s' [(pending, m, results)] [] \<and> (out \<noteq> TurnStopped \<longrightarrow> \<not> failed_message m) \<and>
       (out = TurnStopped \<longrightarrow> run_events s' \<noteq> [] \<and> last (run_events s') = AgentEnd (run_new s')))"
proof -
  let ?s0 = "if first then s else emit E TurnStart s"
  let ?s1 = "fold (inject E) pending ?s0"
  let ?ctx = "ctx\<lparr>ctx_messages := ctx_messages ctx @ pending\<rparr>"
  have g1: "grown whole s ?s1 [] pending"
    using phase_emits(3) [of s E] phase_quiet [OF quiet_refl, of s] by (intro inject_grown) auto
  obtain r msgs s2 where r: "streamAssistantResponse E ?ctx cfg ?s1 = (r, msgs, s2)" by (cases "streamAssistantResponse E ?ctx cfg ?s1") auto
  have p: "phase ?s1 s2 (case r of Inl e \<Rightarrow> [] | Inr m \<Rightarrow> [AssistantMessage m]) {#} {#} {#}" by (rule stream_phase [OF r])
  show ?thesis
  proof (cases r)
    case (Inl e)
    then show ?thesis using assms(1) r grown_finish [OF g1] p by (auto simp: turn_def Let_def)
  next
    case (Inr m)
    let ?s3 = "s2\<lparr>run_new := run_new s2 @ [AssistantMessage m]\<rparr>"
    have pm: "phase ?s1 s2 [AssistantMessage m] {#} {#} {#}" using p Inr by simp
    show ?thesis
    proof (cases "failed_message m")
      case True
      then have s': "out = TurnStopped" "s' = emit_agent_end E (emit E (TurnEnd m []) ?s3)"
        using assms(1) r Inr by (auto simp: turn_def Let_def)
      have "grown whole s (?s3\<lparr>run_new := run_new ?s3 @ []\<rparr>) [(pending, m, [])] []"
        using grown_turn [OF g1 pm phase_quiet [OF quiet_refl]] True by (simp add: answered_def)
      then have "grown whole s s' [(pending, m, [])] []"
        unfolding s'(2) by (intro grown_finish [OF grown_finish [OF _ phase_emits(2)] phase_emits(1)]) simp
      then show ?thesis using s' by (auto simp: emit_agent_end_def)
    next
      case False
      obtain b s4 where b: "tool_phase E (?ctx\<lparr>ctx_messages := msgs\<rparr>) m cfg ?s3 = (b, s4)" by fastforce
      let ?s5 = "emit E (TurnEnd m (batch_messages b)) (s4\<lparr>run_new := run_new s4 @ batch_messages b\<rparr>)"
      obtain k ex where k: "phase ?s3 s4 (batch_messages b) k k ex" "image_mset fst ex \<subseteq># mset (runnable_calls m)"
        using tool_phase_executes [OF b False] by auto
      have g5: "grown whole s ?s5 [(pending, m, batch_messages b)] []"
        using grown_turn [OF g1 pm k] batch_answered [OF tool_phase_batch [OF b] False assms(2)]
        by (blast intro: grown_finish [OF _ phase_emits(2)])
      have a: "after_turn E cfg (?ctx\<lparr>ctx_messages := msgs @ batch_messages b\<rparr>) m (batch_messages b) (\<not> batch_terminate b) ?s5 = (out, s')"
        using assms(1) r Inr False b by (simp add: turn_def Let_def)
      have "grown whole s s' [(pending, m, batch_messages b)] []"
        using after_turn_cases [OF a] grown_finish [OF g5 phase_quiet] grown_finish [OF grown_finish [OF g5 phase_quiet] phase_emits(1)]
        by blast
      moreover have "out = TurnStopped \<longrightarrow> run_events s' \<noteq> [] \<and> last (run_events s') = AgentEnd (run_new s')"
        using after_turn_cases [OF a] by (auto simp: emit_agent_end_def)
      ultimately show ?thesis using False by blast
    qed
  qed
qed

section \<open>Runs\<close>

definition run_summary :: "bool \<Rightarrow> 'w run \<Rightarrow> string option \<Rightarrow> 'w run \<Rightarrow> bool" where
  "run_summary whole s err s' \<longleftrightarrow>
     (\<exists>turns rest. grown whole s s' turns rest \<and>
        (err = None \<longrightarrow> rest = [] \<and> run_events s' \<noteq> [] \<and> last (run_events s') = AgentEnd (run_new s')))"

lemma run_summary_threw: "grown whole s s' turns rest \<Longrightarrow> run_summary whole s (Some e) s'"
  by (auto simp: run_summary_def)

lemma run_summary_returned:
  "grown whole s s' turns [] \<Longrightarrow> run_events s' \<noteq> [] \<Longrightarrow> last (run_events s') = AgentEnd (run_new s') \<Longrightarrow>
     run_summary whole s None s'"
  by (auto simp: run_summary_def)

lemma run_summary_continue:
  assumes "grown whole s s1 ts []" "\<forall>t \<in> set ts. \<not> failed_message (fst (snd t))" "run_summary whole s1 err s2"
  shows "run_summary whole s err s2"
  using assms grown_trans unfolding run_summary_def by blast

lemma loop_summary:
  assumes "loop_rounds E cfg ctx pending hasMore first s = Some (err, s')" "whole \<longrightarrow> (\<forall>w. \<not> env_aborted E w)"
  shows "run_summary whole s err s'"
proof -
  have "(whole \<longrightarrow> (\<forall>w. \<not> env_aborted E w)) \<longrightarrow> run_summary whole s (fst (err, s')) (snd (err, s'))"
  proof (rule loop_rounds.raw_induct
      [where P = "\<lambda>E cfg ctx pending hasMore first s r. (whole \<longrightarrow> (\<forall>w. \<not> env_aborted E w)) \<longrightarrow> run_summary whole s (fst r) (snd r)",
       OF _ assms(1)])
    fix f E cfg ctx pending hasMore first s r
    assume 1: "\<And>E cfg ctx pending hasMore first s r. f E cfg ctx pending hasMore first s = Some r \<Longrightarrow>
        (whole \<longrightarrow> (\<forall>w. \<not> env_aborted E w)) \<longrightarrow> run_summary whole s (fst r) (snd r)"
      "(if hasMore \<or> pending \<noteq> []
      then (case turn E cfg ctx pending first s of
              (TurnThrew e, s) \<Rightarrow> Some (Some e, s)
            | (TurnStopped, s) \<Rightarrow> Some (None, s)
            | (TurnContinues cfg ctx pending goOn, s) \<Rightarrow> f E cfg ctx pending goOn False s)
      else (case poll (cfg_getFollowUpMessages cfg) s of
              (Inl e, s) \<Rightarrow> Some (Some e, s)
            | (Inr followUps, s) \<Rightarrow>
                if followUps \<noteq> [] then f E cfg ctx followUps True first s
                else Some (None, emit_agent_end E s))) = Some r"
    show "(whole \<longrightarrow> (\<forall>w. \<not> env_aborted E w)) \<longrightarrow> run_summary whole s (fst r) (snd r)"
    proof
      assume w: "whole \<longrightarrow> (\<forall>w. \<not> env_aborted E w)"
      show "run_summary whole s (fst r) (snd r)"
      proof (cases "hasMore \<or> pending \<noteq> []")
        case True
        obtain out s1 where t: "turn E cfg ctx pending first s = (out, s1)" by fastforce
        show ?thesis
        proof (cases out)
          case (TurnThrew e)
          then show ?thesis using 1(2) True t turn_grown [OF t w] by (auto intro: run_summary_threw)
        next
          case TurnStopped
          then show ?thesis using 1(2) True t turn_grown [OF t w] by (auto intro: run_summary_returned)
        next
          case (TurnContinues cfg1 ctx1 pending1 goOn)
          then have "f E cfg1 ctx1 pending1 goOn False s1 = Some r" using 1(2) True t by simp
          then have "run_summary whole s1 (fst r) (snd r)" using 1(1) w by blast
          then show ?thesis using turn_grown [OF t w] TurnContinues by (auto intro: run_summary_continue)
        qed
      next
        case False
        obtain q s1 where q: "poll (cfg_getFollowUpMessages cfg) s = (q, s1)" by fastforce
        have g: "grown whole s s1 [] []" by (rule grown_quiet [OF poll_quiet [OF q]])
        show ?thesis
        proof (cases "\<exists>ms. q = Inr ms \<and> ms \<noteq> []")
          case True
          then obtain ms where "q = Inr ms" "ms \<noteq> []" by auto
          then have "f E cfg ctx ms True first s1 = Some r" using 1(2) False q by simp
          then have "run_summary whole s1 (fst r) (snd r)" using 1(1) w by blast
          then show ?thesis using run_summary_continue [OF g] by simp
        next
          case none: False
          have "grown whole s (emit_agent_end E s1) [] []" by (rule grown_finish [OF g phase_emits(1)])
          then have "run_summary whole s None (emit_agent_end E s1)"
            by (rule run_summary_returned) (simp_all add: emit_agent_end_def)
          then show ?thesis using 1(2) False q none g by (auto split: sum.splits intro: run_summary_threw)
        qed
      qed
    qed
  qed
  then show ?thesis using assms(2) by simp
qed

lemma start_run_parts:
  "run_new (start_run E prompts w) = prompts" "ended (run_events (start_run E prompts w)) = prompts"
  "started_calls (run_events (start_run E prompts w)) = []" "ended_calls (run_events (start_run E prompts w)) = []"
  "run_executed (start_run E prompts w) = []"
proof -
  have "run_new (fold (emit_message E) ms s) = run_new s \<and> run_executed (fold (emit_message E) ms s) = run_executed s \<and>
     ended (run_events (fold (emit_message E) ms s)) = ended (run_events s) @ ms \<and>
     started_calls (run_events (fold (emit_message E) ms s)) = started_calls (run_events s) \<and>
     ended_calls (run_events (fold (emit_message E) ms s)) = ended_calls (run_events s)" for ms s
    by (induction ms arbitrary: s) (simp_all add: emit_message_def)
  then show "run_new (start_run E prompts w) = prompts" "ended (run_events (start_run E prompts w)) = prompts"
    "started_calls (run_events (start_run E prompts w)) = []" "ended_calls (run_events (start_run E prompts w)) = []"
    "run_executed (start_run E prompts w) = []"
    by (simp_all add: start_run_def)
qed

lemma runLoop_summary:
  assumes "runLoop E ctx cfg s = Some (err, s')" "whole \<longrightarrow> (\<forall>w. \<not> env_aborted E w)"
  shows "run_summary whole s err s'"
proof -
  obtain q s1 where q: "poll (cfg_getSteeringMessages cfg) s = (q, s1)" by fastforce
  have g: "grown whole s s1 [] []" by (rule grown_quiet [OF poll_quiet [OF q]])
  show ?thesis
  proof (cases q)
    case (Inl e) then show ?thesis using assms q g by (auto simp: runLoop_def intro: run_summary_threw)
  next
    case (Inr ms)
    then have "run_summary whole s1 err s'" using assms q loop_summary by (fastforce simp: runLoop_def)
    then show ?thesis using run_summary_continue [OF g] by simp
  qed
qed

lemma runAgentLoop_summary:
  assumes "runAgentLoop E prompts ctx cfg w = Some (err, s)" "whole \<longrightarrow> (\<forall>w. \<not> env_aborted E w)"
  shows "run_summary whole (start_run E prompts w) err s"
  using assms runLoop_summary unfolding runAgentLoop_def by blast

text \<open>
  A provider and a tool to run the loop on: the world counts the requests, the first response asks for the
  tool \<open>echo\<close>, the second ends the run.
\<close>

definition demo_usage :: usage where
  "demo_usage = \<lparr>u_input = 0, u_output = 0, u_cacheRead = 0, u_cacheWrite = 0, u_totalTokens = 0, u_costTotal = 0, u_rest = []\<rparr>"

definition demo_call :: "string \<Rightarrow> string \<Rightarrow> tool_call" where
  "demo_call i n = \<lparr>tc_id = i, tc_name = n, tc_arguments = JObj ProtoObject False [], tc_rest = []\<rparr>"

definition demo_response :: "assistant_content list \<Rightarrow> stop_reason \<Rightarrow> assistant_message" where
  "demo_response content stop =
     \<lparr>am_content = content, am_api = ''a'', am_provider = ''p'', am_model = ''m'', am_usage = demo_usage,
      am_stopReason = stop, am_deferred = None, am_errorMessage = None, am_timestamp = 0, am_rest = []\<rparr>"

definition demo_first :: assistant_message where
  "demo_first = demo_response [ToolCallPart (demo_call ''1'' ''echo'')] StopToolUse"

definition demo_last :: assistant_message where
  "demo_last = demo_response [TextPart ''done'' []] StopStop"

definition demo_stream :: "nat \<Rightarrow> llm_response" where
  "demo_stream n = \<lparr>rsp_events = [StreamStart demo_last, StreamDone], rsp_failure = None,
                    rsp_result = Inr (if n = 0 then demo_first else demo_last)\<rparr>"

definition demo_tool :: "nat agent_tool" where
  "demo_tool = \<lparr>tool_name = ''echo'', tool_mode = None, tool_prepareArguments = None,
     tool_validate = (\<lambda>tc. Inr (tc_arguments tc)),
     tool_execute = (\<lambda>i a w. (\<lparr>run_updates = [], run_outcome = Inr (createErrorToolResult [])\<rparr>, w))\<rparr>"

definition demo_surroundings :: "nat surroundings" where
  "demo_surroundings = \<lparr>env_sink = (\<lambda>ev w. w), env_aborted = (\<lambda>w. False), env_now = (\<lambda>w. 0),
     env_schedule = (\<lambda>n w. (n - 1, w)), env_stream = (\<lambda>cfg ctx key w. (Inr (demo_stream w), w + 1))\<rparr>"

definition demo_config :: "nat loop_config" where
  "demo_config = \<lparr>cfg_model = \<lparr>md_provider = ''p'', md_api = ''a'', md_id = ''m'', md_rest = []\<rparr>, cfg_reasoning = None,
     cfg_apiKey = None, cfg_options = [], cfg_toolExecution = None, cfg_transformContext = None,
     cfg_convertToLlm = (\<lambda>ms w. (Inr (convertToLlm ms), w)), cfg_getApiKey = None, cfg_shouldStopAfterTurn = None,
     cfg_prepareNextTurn = None, cfg_getSteeringMessages = None, cfg_getFollowUpMessages = None,
     cfg_beforeToolCall = None, cfg_afterToolCall = None\<rparr>"

definition demo_context :: "nat agent_context" where
  "demo_context = \<lparr>ctx_systemPrompt = [], ctx_messages = [], ctx_tools = [demo_tool]\<rparr>"

definition demo_prompt :: agent_message where
  "demo_prompt = UserMessage JNull 0"

lemma demo_run:
  "map_option (\<lambda>(err, s). (err, length (run_new s), map fst (run_executed s)))
     (runAgentLoop demo_surroundings [demo_prompt] demo_context demo_config 0) =
   Some (None, 4, [demo_call ''1'' ''echo''])"
  by code_simp

lemma demo_returns: "\<exists>s. runAgentLoop demo_surroundings [demo_prompt] demo_context demo_config 0 = Some (None, s)"
  using demo_run by (auto simp: map_option_case split: option.splits)

section \<open>Theorems on runs\<close>

text \<open>
  C16: a run that returns adds to the conversation the prompts and then whole turns: the messages taken
  in, one response, and the results of its tool calls, a non-empty prefix of the calls in their order and
  all of them when the run is never aborted. A failed response has no results and ends the run. A tool is
  executed at most once for each call, and never for a response that failed or was cut off by the token
  limit.
\<close>

theorem run_of_turns:
  assumes "runAgentLoop E prompts ctx cfg w = Some (None, s)" "whole \<longrightarrow> (\<forall>w. \<not> env_aborted E w)"
  shows "\<exists>turns. run_new s = prompts @ concat (map turn_messages turns) \<and>
    (\<forall>t \<in> set turns. answered whole t) \<and> (\<forall>t \<in> set (butlast turns). \<not> failed_message (fst (snd t))) \<and>
    mset (map fst (run_executed s)) \<subseteq># mset (concat (map turn_calls turns))"
proof -
  obtain turns where g: "grown whole (start_run E prompts w) s turns []"
    using runAgentLoop_summary [OF assms] by (auto simp: run_summary_def)
  then show ?thesis unfolding grown_def by (intro exI [of _ turns]) (auto simp: start_run_parts)
qed

theorem run_of_turns_witness:
  "\<exists>s turns. runAgentLoop demo_surroundings [demo_prompt] demo_context demo_config 0 = Some (None, s) \<and>
    run_new s = [demo_prompt] @ concat (map turn_messages turns) \<and> (\<forall>t \<in> set turns. answered True t)"
proof -
  obtain s where s: "runAgentLoop demo_surroundings [demo_prompt] demo_context demo_config 0 = Some (None, s)"
    using demo_returns by auto
  show ?thesis using run_of_turns [OF s, of True] s by (auto simp: demo_surroundings_def)
qed



section \<open>Concurrency does not change results\<close>

text \<open>
  Tools and hooks whose results do not depend on the world, a clock that stands still and no abort: what
  is left to differ between runs is the order of steps.
\<close>

definition unaffected_by_world :: "'w surroundings \<Rightarrow> 'w agent_context \<Rightarrow> 'w loop_config \<Rightarrow> bool" where
  "unaffected_by_world E ctx cfg \<longleftrightarrow>
     (\<forall>t \<in> set (ctx_tools ctx). \<forall>i a w w'. fst (tool_execute t i a w) = fst (tool_execute t i a w')) \<and>
     (\<forall>h m tc a w w'. cfg_beforeToolCall cfg = Some h \<longrightarrow> fst (h m tc a ctx w) = fst (h m tc a ctx w')) \<and>
     (\<forall>h m tc a r e w w'. cfg_afterToolCall cfg = Some h \<longrightarrow> fst (h m tc a r e ctx w) = fst (h m tc a r e ctx w')) \<and>
     (\<forall>w w'. env_now E w = env_now E w') \<and> (\<forall>w. \<not> env_aborted E w)"

lemma fst_callback: "fst (callback f s) = fst (f (run_world s))"
  by (simp add: callback_def split: prod.splits)

lemma callback_same_result:
  assumes "callback f s = (a, s1)" "callback f s' = (a', s1')" "\<And>w w'. fst (f w) = fst (f w')"
  shows "a = a'"
  using assms fst_callback by (metis fst_conv)

lemma prepare_unaffected:
  assumes "unaffected_by_world E ctx cfg"
  shows "fst (prepareToolCall E ctx m tc cfg s) = fst (prepareToolCall E ctx m tc cfg s')"
proof (cases "cfg_beforeToolCall cfg")
  case None
  then show ?thesis using assms
    by (auto simp: prepareToolCall_def Let_def aborted_def unaffected_by_world_def split: option.splits sum.splits)
next
  case (Some h)
  have "fst (callback (h m tc a ctx) s) = fst (callback (h m tc a ctx) s')" for a
    using assms Some unfolding fst_callback unaffected_by_world_def by blast
  then have "callback (h m tc a ctx) s = (x, u) \<Longrightarrow> callback (h m tc a ctx) s' = (y, v) \<Longrightarrow> x = y" for a x y u v
    by (metis fst_conv)
  moreover have "\<not> aborted E r" for r using assms by (simp add: aborted_def unaffected_by_world_def)
  ultimately show ?thesis using Some
    by (fastforce simp: prepareToolCall_def Let_def split: option.splits sum.splits prod.splits)
qed

lemma finalize_unaffected:
  assumes "unaffected_by_world E ctx cfg"
  shows "fst (finalizeExecutedToolCall ctx m p x cfg s) = fst (finalizeExecutedToolCall ctx m p x cfg s')"
proof (cases "cfg_afterToolCall cfg")
  case None then show ?thesis by (simp add: finalizeExecutedToolCall_def split: prod.splits)
next
  case (Some h)
  obtain r e where x: "x = (r, e)" by fastforce
  let ?f = "h m (prep_toolCall p) (prep_args p) r e ctx"
  have same: "fst (callback ?f s) = fst (callback ?f s')"
    using assms Some unfolding fst_callback unaffected_by_world_def by blast
  obtain a u where a: "callback ?f s = (a, u)" by fastforce
  obtain b v where b: "callback ?f s' = (b, v)" by fastforce
  have "a = b" using same a b by simp
  then show ?thesis using Some x a b by (auto simp: finalizeExecutedToolCall_def split: option.splits sum.splits)
qed

lemma call_unaffected:
  assumes "unaffected_by_world E ctx cfg" "prep_tool p \<in> set (ctx_tools ctx)"
  shows "fst (call_tool p s) = fst (call_tool p s')"
proof -
  have "\<forall>i a w w'. fst (tool_execute (prep_tool p) i a w) = fst (tool_execute (prep_tool p) i a w')"
    using assms(1) [unfolded unaffected_by_world_def, THEN conjunct1] assms(2) by (rule bspec)
  then show ?thesis unfolding call_tool_def fst_callback by metis
qed

text \<open>The outcome every task is heading for, with the world of a reference state.\<close>

definition prepared_outcome ::
  "'w agent_context \<Rightarrow> assistant_message \<Rightarrow> 'w loop_config \<Rightarrow> 'w run \<Rightarrow> 'w prepared_call \<Rightarrow> finalized_call" where
  "prepared_outcome ctx m cfg s p =
     fst (finalizeExecutedToolCall ctx m p (executed_outcome (run_outcome (fst (call_tool p s)))) cfg s)"

definition call_outcome ::
  "'w surroundings \<Rightarrow> 'w agent_context \<Rightarrow> assistant_message \<Rightarrow> 'w loop_config \<Rightarrow> 'w run \<Rightarrow> tool_call \<Rightarrow> finalized_call" where
  "call_outcome E ctx m cfg s tc =
     (case fst (prepareToolCall E ctx m tc cfg s) of
        Immediate r e \<Rightarrow> immediate_call tc r e
      | Prepared p \<Rightarrow> prepared_outcome ctx m cfg s p)"

fun task_outcome ::
  "'w agent_context \<Rightarrow> assistant_message \<Rightarrow> 'w loop_config \<Rightarrow> 'w run \<Rightarrow> 'w tool_task \<Rightarrow> finalized_call" where
  "task_outcome ctx m cfg s (TaskFinished fin) = fin"
| "task_outcome ctx m cfg s (TaskFinalized fin) = fin"
| "task_outcome ctx m cfg s (TaskRunning p us x) = fst (finalizeExecutedToolCall ctx m p x cfg s)"
| "task_outcome ctx m cfg s (TaskReady p) = prepared_outcome ctx m cfg s p"

lemma prepared_tool:
  "prepareToolCall E ctx m tc cfg s = (Prepared p, s') \<Longrightarrow> prep_tool p \<in> set (ctx_tools ctx)"
  by (auto dest!: prepareToolCall_prepared simp: find_tool_def find_Some_iff)

fun task_known :: "'w agent_context \<Rightarrow> 'w tool_task \<Rightarrow> bool" where
  "task_known ctx (TaskReady p) \<longleftrightarrow> prep_tool p \<in> set (ctx_tools ctx)"
| "task_known ctx _ \<longleftrightarrow> True"

lemma task_step_outcome:
  assumes "unaffected_by_world E ctx cfg" "task_known ctx t" "task_step E ctx m cfg t s = (t', s')"
  shows "task_known ctx t' \<and> task_outcome ctx m cfg r t' = task_outcome ctx m cfg r t"
proof (cases t)
  case (TaskReady p)
  obtain q u where q: "call_tool p s = (q, u)" by fastforce
  have "fst (call_tool p r) = q" using call_unaffected [OF assms(1), of p r s] assms(2) q TaskReady by simp
  then show ?thesis using assms(3) TaskReady q by (auto simp: prepared_outcome_def)
next
  case (TaskRunning p us x)
  then show ?thesis using assms(3) finalize_unaffected [OF assms(1), of m p x r s]
    by (cases us) (auto split: prod.splits)
qed (use assms in auto)

lemma run_tasks_outcome:
  assumes "unaffected_by_world E ctx cfg"
  shows "run_tasks E ctx m cfg ts s = (ts', s') \<Longrightarrow> \<forall>t \<in> set ts. task_known ctx t \<Longrightarrow>
     map (task_outcome ctx m cfg r) ts' = map (task_outcome ctx m cfg r) ts"
  using assms
proof (induction E ctx m cfg ts s arbitrary: ts' s' rule: run_tasks.induct)
  case (1 E ctx m cfg ts s)
  show ?case
  proof (cases "unfinished ts = []")
    case True then show ?thesis using 1(2) by (simp add: run_tasks.simps)
  next
    case False
    obtain k s1 where k: "callback (env_schedule E (length (unfinished ts))) s = (k, s1)" by fastforce
    define i where "i = unfinished ts ! (k mod length (unfinished ts))"
    obtain t s2 where t: "task_step E ctx m cfg (ts ! i) s1 = (t, s2)" by fastforce
    have i: "i < length ts" using unfinished_pick [OF False] by (auto simp: i_def)
    have st: "task_known ctx t" "task_outcome ctx m cfg r t = task_outcome ctx m cfg r (ts ! i)"
      using task_step_outcome [OF 1(4) _ t] 1(3) i by auto
    have rest: "run_tasks E ctx m cfg (ts[i := t]) s2 = (ts', s')"
      using 1(2) False k t by (simp add: run_tasks.simps [of E ctx m cfg ts s] i_def)
    have "\<forall>u \<in> set (ts[i := t]). task_known ctx u" using 1(3) st(1) set_update_subset_insert [of ts i t] by blast
    then have "map (task_outcome ctx m cfg r) ts' = map (task_outcome ctx m cfg r) (ts[i := t])"
      using 1(1) [OF False k [symmetric] refl i_def t [symmetric] refl rest _ 1(4)] by blast
    then show ?thesis using st(2) i by (metis length_map list_update_id map_update nth_map)
  qed
qed

lemma preflight_outcome:
  assumes "unaffected_by_world E ctx cfg"
  shows "preflight E ctx m cfg tcs s = (ts, s') \<Longrightarrow>
    (\<forall>t \<in> set ts. task_known ctx t) \<and> map (task_outcome ctx m cfg r) ts = map (call_outcome E ctx m cfg r) tcs"
  using assms
proof (induction E ctx m cfg tcs s arbitrary: ts s' rule: preflight.induct)
  case (1 E ctx m cfg s) then show ?case by simp
next
  case (2 E ctx m cfg tc tcs s)
  obtain p s1 where p: "prepareToolCall E ctx m tc cfg (emitToolExecutionStart E tc s) = (p, s1)" by fastforce
  let ?c = "case prepareToolCall E ctx m tc cfg (emitToolExecutionStart E tc s) of
               (Immediate result isError, s1) \<Rightarrow>
                 (let fin = immediate_call tc result isError in (TaskFinished fin, emitToolExecutionEnd E fin s1))
             | (Prepared p, s1) \<Rightarrow> (TaskReady p, s1)"
  obtain t s2 where t: "?c = (t, s2)" by fastforce
  have out: "fst (prepareToolCall E ctx m tc cfg r) = p"
    using prepare_unaffected [OF 2(3), of m tc r "emitToolExecutionStart E tc s"] p by simp
  have "task_known ctx t \<and> task_outcome ctx m cfg r t = call_outcome E ctx m cfg r tc"
  proof (cases p)
    case (Immediate x e)
    then show ?thesis using p t out by (auto simp: call_outcome_def Let_def)
  next
    case (Prepared q)
    then show ?thesis using p t out prepared_tool [of E ctx m tc cfg "emitToolExecutionStart E tc s" q s1]
      by (auto simp: call_outcome_def)
  qed
  moreover have na: "\<not> aborted E s2" using 2(3) by (simp add: aborted_def unaffected_by_world_def)
  moreover obtain rest s3 where rest: "preflight E ctx m cfg tcs s2 = (rest, s3)" by fastforce
  ultimately show ?case using 2(2) 2(1) [OF t [symmetric] refl na rest 2(3)] t by auto
qed

lemma run_call_outcome:
  assumes "unaffected_by_world E ctx cfg"
  shows "fst (run_call E ctx m cfg tc s) = call_outcome E ctx m cfg r tc"
proof -
  obtain p s1 where p: "prepareToolCall E ctx m tc cfg (emitToolExecutionStart E tc s) = (p, s1)" by fastforce
  have out: "fst (prepareToolCall E ctx m tc cfg r) = p"
    using prepare_unaffected [OF assms, of m tc r "emitToolExecutionStart E tc s"] p by simp
  show ?thesis
  proof (cases p)
    case (Immediate x e) then show ?thesis using p out by (simp add: run_call_def call_outcome_def)
  next
    case (Prepared q)
    obtain x u where x: "call_tool q s1 = (x, u)" by fastforce
    have "fst (call_tool q r) = x"
      using call_unaffected [OF assms, of q r s1] prepared_tool [of E ctx m tc cfg _ q s1] p Prepared x by auto
    then show ?thesis
      using p Prepared x out finalize_unaffected [OF assms, of m q "executed_outcome (run_outcome x)" "fold (emit_update E q) (run_updates x) u" r]
      by (simp add: run_call_def executePreparedToolCall_def call_outcome_def prepared_outcome_def)
  qed
qed

lemma report_message: "report_result E fin s = (msg, s') \<Longrightarrow> msg = createToolResultMessage (env_now E (run_world s)) fin"
  by (simp add: report_result_def Let_def)

lemma same_clock: "unaffected_by_world E ctx cfg \<Longrightarrow> env_now E w = env_now E w'"
  unfolding unaffected_by_world_def by blast

lemma sequential_outcome:
  assumes "unaffected_by_world E ctx cfg"
  shows "sequential_calls E ctx m cfg tcs s = (ds, s') \<Longrightarrow>
     map fst ds = map (call_outcome E ctx m cfg r) tcs \<and>
     map snd ds = map (createToolResultMessage (env_now E (run_world r))) (map fst ds)"
  using assms
proof (induction E ctx m cfg tcs s arbitrary: ds s' rule: sequential_calls.induct)
  case (1 E ctx m cfg s) then show ?case by simp
next
  case (2 E ctx m cfg tc tcs s)
  obtain fin s1 where f: "run_call E ctx m cfg tc s = (fin, s1)" by fastforce
  obtain msg s2 where m: "report_result E fin (emitToolExecutionEnd E fin s1) = (msg, s2)" by fastforce
  obtain rest s3 where rest: "sequential_calls E ctx m cfg tcs s2 = (rest, s3)" by fastforce
  have na: "\<not> aborted E s2" using 2(3) by (simp add: aborted_def unaffected_by_world_def)
  have "fin = call_outcome E ctx m cfg r tc" using run_call_outcome [OF 2(3), of m tc s r] f by simp
  moreover have "msg = createToolResultMessage (env_now E (run_world r)) fin"
    using report_message [OF m] same_clock [OF 2(3)] by metis
  ultimately show ?case
    using 2(2) f m na rest 2(1) [OF f [symmetric] refl m [symmetric] refl na rest 2(3)] by auto
qed

lemma report_results_outcome:
  assumes "unaffected_by_world E ctx cfg"
  shows "report_results E fins s = (msgs, s') \<Longrightarrow> msgs = map (createToolResultMessage (env_now E (run_world r))) fins"
  using assms
proof (induction E fins s arbitrary: msgs s' rule: report_results.induct)
  case (1 E s) then show ?case by simp
next
  case (2 E fin fins s)
  obtain msg s1 where m: "report_result E fin s = (msg, s1)" by fastforce
  obtain ms s2 where q: "report_results E fins s1 = (ms, s2)" by fastforce
  show ?case
    using 2(2) m q 2(1) [OF m [symmetric] refl q 2(3)] report_message [OF m] same_clock [OF 2(3)] by (simp, metis)
qed

lemma finished_outcomes:
  "(\<forall>t \<in> set ts. task_done t) \<Longrightarrow> List.map_filter task_result ts = map (task_outcome ctx m cfg r) ts"
proof (induction ts)
  case Nil then show ?case by (simp add: List.map_filter_def)
next
  case (Cons t ts) then show ?case by (cases t) (auto simp: List.map_filter_def)
qed



section \<open>Runs that end\<close>

text \<open>
  A measure of what is still to be delivered that no callback raises and every poll that returns messages
  lowers, and a provider that asks for no tools: such a run winds down.
\<close>

definition not_raised :: "('w \<Rightarrow> nat) \<Rightarrow> ('w \<Rightarrow> 'a \<times> 'w) \<Rightarrow> bool" where
  "not_raised \<mu> f \<longleftrightarrow> (\<forall>w. \<mu> (snd (f w)) \<le> \<mu> w)"

definition lowered_by_messages :: "('w \<Rightarrow> nat) \<Rightarrow> ('w \<Rightarrow> (string + agent_message list) \<times> 'w) \<Rightarrow> bool" where
  "lowered_by_messages \<mu> f \<longleftrightarrow> not_raised \<mu> f \<and> (\<forall>w ms. fst (f w) = Inr ms \<and> ms \<noteq> [] \<longrightarrow> \<mu> (snd (f w)) < \<mu> w)"

definition winding_down :: "('w \<Rightarrow> nat) \<Rightarrow> 'w surroundings \<Rightarrow> 'w loop_config \<Rightarrow> bool" where
  "winding_down \<mu> E cfg \<longleftrightarrow>
     (\<forall>ev w. \<mu> (env_sink E ev w) \<le> \<mu> w) \<and>
     (\<forall>f ms. cfg_transformContext cfg = Some f \<longrightarrow> not_raised \<mu> (f ms)) \<and>
     (\<forall>ms. not_raised \<mu> (cfg_convertToLlm cfg ms)) \<and>
     (\<forall>f p. cfg_getApiKey cfg = Some f \<longrightarrow> not_raised \<mu> (f p)) \<and>
     (\<forall>f tc. cfg_shouldStopAfterTurn cfg = Some f \<longrightarrow> not_raised \<mu> (f tc)) \<and>
     cfg_prepareNextTurn cfg = None \<and>
     (\<forall>ctx key. not_raised \<mu> (env_stream E cfg ctx key)) \<and>
     (\<forall>ctx key w rsp m. fst (env_stream E cfg ctx key w) = Inr rsp \<and> rsp_result rsp = Inr m \<longrightarrow> toolCalls m = []) \<and>
     (\<forall>f. cfg_getSteeringMessages cfg = Some f \<longrightarrow> lowered_by_messages \<mu> f) \<and>
     (\<forall>f. cfg_getFollowUpMessages cfg = Some f \<longrightarrow> lowered_by_messages \<mu> f)"

lemma callback_world: "run_world (snd (callback f s)) = snd (f (run_world s))"
  by (simp add: callback_def split: prod.splits)

lemma callback_not_raised:
  "not_raised \<mu> f \<Longrightarrow> callback f s = (a, s') \<Longrightarrow> \<mu> (run_world s') \<le> \<mu> (run_world s)"
  using callback_world [of f s] by (simp add: not_raised_def)

lemma emit_not_raised: "winding_down \<mu> E cfg \<Longrightarrow> \<mu> (run_world (emit E ev s)) \<le> \<mu> (run_world s)"
  by (simp add: winding_down_def emit_def)

lemma emit_chain: "winding_down \<mu> E cfg \<Longrightarrow> \<mu> (run_world s) \<le> n \<Longrightarrow> \<mu> (run_world (emit E ev s)) \<le> n"
  using emit_not_raised le_trans by blast

lemma emit_agent_end_chain: "winding_down \<mu> E cfg \<Longrightarrow> \<mu> (run_world s) \<le> n \<Longrightarrow> \<mu> (run_world (emit_agent_end E s)) \<le> n"
  by (simp add: emit_agent_end_def emit_chain)

lemma inject_chain:
  "winding_down \<mu> E cfg \<Longrightarrow> \<mu> (run_world s) \<le> n \<Longrightarrow> \<mu> (run_world (fold (inject E) ms s)) \<le> n"
  by (induction ms arbitrary: s) (simp_all add: inject_def emit_message_def Let_def emit_chain)

lemma consume_chain:
  "consume E rsp evs added msgs s = (r, msgs', s') \<Longrightarrow> winding_down \<mu> E cfg \<Longrightarrow> \<mu> (run_world s) \<le> n \<Longrightarrow>
     \<mu> (run_world s') \<le> n \<and> (\<forall>m. r = Inr m \<longrightarrow> rsp_result rsp = Inr m)"
  by (induction E rsp evs added msgs s arbitrary: r msgs' s' rule: consume.induct)
    (auto simp: finish_response_def emit_chain split: option.splits sum.splits if_splits)

lemma request_chain:
  assumes "request_response E ctx cfg s = (q, s')" "winding_down \<mu> E cfg"
  shows "\<mu> (run_world s') \<le> \<mu> (run_world s) \<and> (\<forall>rsp m. q = Inr rsp \<and> rsp_result rsp = Inr m \<longrightarrow> toolCalls m = [])"
proof -
  have tr: "transformed_messages cfg ms s = (a, s1) \<Longrightarrow> \<mu> (run_world s1) \<le> \<mu> (run_world s)" for ms s a s1
    using assms(2) by (auto simp: transformed_messages_def winding_down_def split: option.splits dest: callback_not_raised)
  have cv: "callback (cfg_convertToLlm cfg ms) s = (a, s1) \<Longrightarrow> \<mu> (run_world s1) \<le> \<mu> (run_world s)" for ms s a s1
    using assms(2) by (auto simp: winding_down_def dest: callback_not_raised)
  have ak: "resolvedApiKey cfg s = (a, s1) \<Longrightarrow> \<mu> (run_world s1) \<le> \<mu> (run_world s)" for s a s1
    using assms(2) by (auto simp: resolvedApiKey_def winding_down_def dest: callback_not_raised
        split: option.splits sum.splits prod.splits)
  have st: "callback (env_stream E cfg c k) s = (a, s1) \<Longrightarrow> \<mu> (run_world s1) \<le> \<mu> (run_world s)" for c k s a s1
    using assms(2) callback_not_raised [of \<mu> "env_stream E cfg c k" s a s1] by (simp add: winding_down_def)
  have nt: "callback (env_stream E cfg c k) s = (Inr rsp, s1) \<Longrightarrow> rsp_result rsp = Inr m \<Longrightarrow> toolCalls m = []" for c k s rsp s1 m
    using assms(2) fst_callback [of "env_stream E cfg c k" s] unfolding winding_down_def by (metis fst_conv)
  show ?thesis using assms(1)
    by (auto simp: request_response_def split: sum.splits prod.splits dest!: tr cv ak dest: nt st)
qed

lemma poll_chain:
  assumes "poll f s = (r, s')" "\<forall>g. f = Some g \<longrightarrow> lowered_by_messages \<mu> g"
  shows "\<mu> (run_world s') \<le> \<mu> (run_world s) \<and> (\<forall>ms. r = Inr ms \<and> ms \<noteq> [] \<longrightarrow> \<mu> (run_world s') < \<mu> (run_world s))"
proof (cases f)
  case None then show ?thesis using assms(1) by (auto simp: poll_def)
next
  case (Some g)
  then have "callback g s = (r, s')" using assms(1) by (simp add: poll_def)
  then show ?thesis using assms(2) Some fst_callback [of g s] callback_world [of g s]
    by (auto simp: lowered_by_messages_def not_raised_def)
qed

definition wound :: "('w \<Rightarrow> nat) \<Rightarrow> 'w loop_config \<Rightarrow> bool \<Rightarrow> nat \<Rightarrow> 'w turn_outcome \<Rightarrow> 'w run \<Rightarrow> bool" where
  "wound \<mu> cfg hasMore n out s' \<longleftrightarrow> \<mu> (run_world s') \<le> n \<and>
     (case out of
        TurnContinues cfg' ctx' ms goOn \<Rightarrow> cfg' = cfg \<and> goOn = hasMore \<and> (ms \<noteq> [] \<longrightarrow> \<mu> (run_world s') < n)
      | _ \<Rightarrow> True)"

lemma wound_mono: "wound \<mu> cfg hasMore k out s' \<Longrightarrow> k \<le> n \<Longrightarrow> wound \<mu> cfg hasMore n out s'"
  by (cases out) (auto simp: wound_def)

lemma after_turn_chain:
  assumes "after_turn E cfg ctx m results hasMore s = (out, s')" "winding_down \<mu> E cfg"
  shows "wound \<mu> cfg hasMore (\<mu> (run_world s)) out s'"
proof -
  let ?tc = "\<lparr>tc_message = m, tc_toolResults = results, tc_context = ctx, tc_newMessages = run_new s\<rparr>"
  obtain b s1 where b: "stop_requested cfg ?tc s = (b, s1)" by fastforce
  have 1: "\<mu> (run_world s1) \<le> \<mu> (run_world s)"
    using b assms(2) by (auto simp: stop_requested_def winding_down_def split: option.splits dest: callback_not_raised)
  obtain q s2 where q: "poll (cfg_getSteeringMessages cfg) s1 = (q, s2)" by fastforce
  have 2: "\<mu> (run_world s2) \<le> \<mu> (run_world s1) \<and> (\<forall>ms. q = Inr ms \<and> ms \<noteq> [] \<longrightarrow> \<mu> (run_world s2) < \<mu> (run_world s1))"
    using poll_chain [OF q] assms(2) by (simp add: winding_down_def)
  have "next_turn_snapshot cfg ?tc s = (Inr (cfg, ctx), s)"
    using assms(2) by (simp add: next_turn_snapshot_def winding_down_def)
  then show ?thesis using assms(1) b q 1 2 emit_agent_end_chain [OF assms(2) 1]
    by (auto simp: after_turn_def wound_def split: sum.splits bool.splits)
qed

lemma turn_chain:
  assumes "turn E cfg ctx pending first s = (out, s')" "winding_down \<mu> E cfg"
  shows "wound \<mu> cfg False (\<mu> (run_world s)) out s'"
proof -
  let ?n = "\<mu> (run_world s)"
  let ?s1 = "fold (inject E) pending (if first then s else emit E TurnStart s)"
  let ?ctx = "ctx\<lparr>ctx_messages := ctx_messages ctx @ pending\<rparr>"
  have 1: "\<mu> (run_world ?s1) \<le> ?n" by (intro inject_chain [OF assms(2)]) (simp add: emit_not_raised [OF assms(2)])
  obtain r msgs s2 where r: "streamAssistantResponse E ?ctx cfg ?s1 = (r, msgs, s2)" by (cases "streamAssistantResponse E ?ctx cfg ?s1") auto
  obtain q s1 where q: "request_response E ?ctx cfg ?s1 = (q, s1)" by fastforce
  have rq: "\<mu> (run_world s1) \<le> ?n" "\<forall>rsp m. q = Inr rsp \<and> rsp_result rsp = Inr m \<longrightarrow> toolCalls m = []"
    using request_chain [OF q assms(2)] 1 by auto
  have 2: "\<mu> (run_world s2) \<le> ?n \<and> (\<forall>m. r = Inr m \<longrightarrow> toolCalls m = [])"
    using r q rq consume_chain [OF _ assms(2) rq(1)]
    by (cases q) (fastforce simp: streamAssistantResponse_def)+
  show ?thesis
  proof (cases r)
    case (Inl e) then show ?thesis using assms(1) r 2 by (auto simp: turn_def Let_def wound_def)
  next
    case (Inr m)
    let ?s3 = "s2\<lparr>run_new := run_new s2 @ [AssistantMessage m]\<rparr>"
    have t: "toolCalls m = []" using 2 Inr by simp
    show ?thesis
    proof (cases "failed_message m")
      case True
      have "\<mu> (run_world (emit_agent_end E (emit E (TurnEnd m []) ?s3))) \<le> ?n"
        using 2 by (intro emit_agent_end_chain [OF assms(2)] emit_chain [OF assms(2)]) simp
      then show ?thesis using assms(1) r Inr True by (auto simp: turn_def Let_def wound_def)
    next
      case False
      define s4 where "s4 = emit E (TurnEnd m []) ?s3"
      have n: "\<mu> (run_world s4) \<le> ?n" unfolding s4_def using 2 by (intro emit_chain [OF assms(2)]) simp
      have a: "after_turn E cfg (?ctx\<lparr>ctx_messages := msgs\<rparr>) m [] False s4 = (out, s')"
        unfolding s4_def using assms(1) r Inr False t by (simp add: turn_def Let_def tool_phase_def)
      show ?thesis by (rule wound_mono [OF after_turn_chain [OF a assms(2)] n])
    qed
  qed
qed

lemma loop_returns:
  assumes "winding_down \<mu> E cfg"
  shows "\<exists>r. loop_rounds E cfg ctx pending hasMore first s = Some r"
proof (induction "\<mu> (run_world s)" arbitrary: ctx pending hasMore first s rule: less_induct)
  case less
  have idle: "\<exists>r. loop_rounds E cfg ctx [] False first' s' = Some r" if "\<mu> (run_world s') \<le> \<mu> (run_world s)" for ctx first' s'
  proof -
    obtain q s1 where q: "poll (cfg_getFollowUpMessages cfg) s' = (q, s1)" by fastforce
    have "\<forall>g. cfg_getFollowUpMessages cfg = Some g \<longrightarrow> lowered_by_messages \<mu> g"
      using assms by (simp add: winding_down_def)
    from poll_chain [OF q this] that
    have "\<forall>ms. q = Inr ms \<and> ms \<noteq> [] \<longrightarrow> \<mu> (run_world s1) < \<mu> (run_world s)" by (metis less_le_trans)
    then show ?thesis using less q by (auto simp: loop_rounds.simps [of E cfg ctx "[]" False] split: sum.splits)
  qed
  show ?case
  proof (cases "hasMore \<or> pending \<noteq> []")
    case True
    obtain out s1 where t: "turn E cfg ctx pending first s = (out, s1)" by fastforce
    show ?thesis
    proof (cases out)
      case (TurnContinues cfg' ctx' ms goOn)
      then have c: "cfg' = cfg" "\<not> goOn" "ms \<noteq> [] \<longrightarrow> \<mu> (run_world s1) < \<mu> (run_world s)" "\<mu> (run_world s1) \<le> \<mu> (run_world s)"
        using turn_chain [OF t assms] by (auto simp: wound_def)
      then have "\<exists>r. loop_rounds E cfg ctx' ms False False s1 = Some r"
        using less idle [of s1] by (cases "ms = []") auto
      then show ?thesis using True t TurnContinues c by (simp add: loop_rounds.simps [of E cfg ctx pending hasMore])
    qed (use True t in \<open>simp_all add: loop_rounds.simps [of E cfg ctx pending hasMore]\<close>)
  next
    case False then show ?thesis using idle [of s] by simp
  qed
qed

end
