(* ===== verification/Agent_Run.thy ===== *)
theory Agent_Run
  imports Agent_Turns
begin

text \<open>
  The stateful agent around the loop (packages/agent/src/agent.ts): the transcript and runtime state that
  the events of a run are reduced into, the queues of steering and follow-up messages, and the operations
  of the class.

  The world of a run holds the two queues, the abort signal of the run and an outside of which nothing is
  known; tools, hooks and listeners act on it, so that they can queue messages and abort. They do not
  assign to the transcript while a run is active. Tools and hooks are options of the agent, not part of
  its state. A run that never ends is None.
\<close>

section \<open>Queues\<close>

datatype queue_mode = QueueAll | QueueOneAtATime

record pending_queue =
  pq_messages :: "agent_message list"
  pq_mode :: queue_mode

definition pq_enqueue :: "agent_message \<Rightarrow> pending_queue \<Rightarrow> pending_queue" where
  "pq_enqueue m q = q\<lparr>pq_messages := pq_messages q @ [m]\<rparr>"

definition pq_hasItems :: "pending_queue \<Rightarrow> bool" where
  "pq_hasItems q \<longleftrightarrow> 0 < length (pq_messages q)"

definition pq_drain :: "pending_queue \<Rightarrow> agent_message list \<times> pending_queue" where
  "pq_drain q =
     (if pq_mode q = QueueAll then (pq_messages q, q\<lparr>pq_messages := []\<rparr>)
      else case pq_messages q of
        [] \<Rightarrow> ([], q)
      | m # ms \<Rightarrow> ([m], q\<lparr>pq_messages := ms\<rparr>))"

definition pq_clear :: "pending_queue \<Rightarrow> pending_queue" where
  "pq_clear q = q\<lparr>pq_messages := []\<rparr>"

lemma drain_splits: "pq_drain q = (ms, q') \<Longrightarrow> ms @ pq_messages q' = pq_messages q \<and> pq_mode q' = pq_mode q"
  by (auto simp: pq_drain_def split: if_splits list.splits)

lemma drain_nothing: "pq_drain q = ([], q') \<Longrightarrow> pq_messages q = [] \<and> pq_messages q' = []"
  by (auto simp: pq_drain_def split: if_splits list.splits)

section \<open>State\<close>

record mutable_agent_state =
  st_systemPrompt :: string
  st_model :: agent_model
  st_thinkingLevel :: string
  st_messages :: "agent_message list"
  st_isStreaming :: bool
  st_streamingMessage :: "agent_message option"
  st_pendingToolCalls :: "string list"
  st_errorMessage :: "string option"

record 'v agent_world =
  aw_steering :: pending_queue
  aw_followUp :: pending_queue
  aw_aborted :: bool
  aw_skipPoll :: bool
  aw_outside :: 'v

record 'v agent =
  ag_state :: mutable_agent_state
  ag_active :: bool
  ag_world :: "'v agent_world"

text \<open>The tools, hooks, listeners and provider of an agent.\<close>

record 'v agent_options =
  opt_tools :: "'v agent_world agent_tool list"
  opt_convertToLlm :: "(agent_message list \<Rightarrow> 'v agent_world \<Rightarrow> (string + agent_message list) \<times> 'v agent_world) option"
  opt_transformContext :: "(agent_message list \<Rightarrow> 'v agent_world \<Rightarrow> (string + agent_message list) \<times> 'v agent_world) option"
  opt_getApiKey :: "(string \<Rightarrow> 'v agent_world \<Rightarrow> (string + string option) \<times> 'v agent_world) option"
  opt_beforeToolCall ::
    "(assistant_message \<Rightarrow> tool_call \<Rightarrow> jsval \<Rightarrow> 'v agent_world agent_context \<Rightarrow> 'v agent_world \<Rightarrow>
      (string + before_result option) \<times> 'v agent_world) option"
  opt_afterToolCall ::
    "(assistant_message \<Rightarrow> tool_call \<Rightarrow> jsval \<Rightarrow> tool_result \<Rightarrow> bool \<Rightarrow> 'v agent_world agent_context \<Rightarrow> 'v agent_world \<Rightarrow>
      (string + after_result option) \<times> 'v agent_world) option"
  opt_shouldStopAfterTurn :: "('v agent_world turn_context \<Rightarrow> 'v agent_world \<Rightarrow> (string + bool) \<times> 'v agent_world) option"
  opt_prepareNextTurn :: "('v agent_world \<Rightarrow> (string + 'v agent_world turn_update option) \<times> 'v agent_world) option"
  opt_prepareNextTurnWithContext ::
    "('v agent_world turn_context \<Rightarrow> 'v agent_world \<Rightarrow> (string + 'v agent_world turn_update option) \<times> 'v agent_world) option"
  opt_streamOptions :: props
  opt_toolExecution :: execution_mode
  opt_listeners :: "(loop_event \<Rightarrow> 'v agent_world \<Rightarrow> 'v agent_world) list"
  opt_now :: "'v agent_world \<Rightarrow> int"
  opt_schedule :: "nat \<Rightarrow> 'v agent_world \<Rightarrow> nat \<times> 'v agent_world"
  opt_stream :: "'v agent_world loop_config \<Rightarrow> 'v agent_world agent_context \<Rightarrow> string option \<Rightarrow> 'v agent_world \<Rightarrow>
      (string + llm_response) \<times> 'v agent_world"

definition DEFAULT_MODEL :: agent_model where
  "DEFAULT_MODEL = \<lparr>md_provider = ''unknown'', md_api = ''unknown'', md_id = ''unknown'', md_rest = []\<rparr>"

definition EMPTY_USAGE :: usage where
  "EMPTY_USAGE = \<lparr>u_input = 0, u_output = 0, u_cacheRead = 0, u_cacheWrite = 0, u_totalTokens = 0, u_costTotal = 0, u_rest = []\<rparr>"

definition defaultConvertToLlm :: "agent_message list \<Rightarrow> agent_message list" where
  "defaultConvertToLlm msgs =
     filter (\<lambda>m. role_of m = RoleUser \<or> role_of m = RoleAssistant \<or> role_of m = RoleToolResult) msgs"

definition createMutableAgentState ::
  "string option \<Rightarrow> agent_model option \<Rightarrow> string option \<Rightarrow> agent_message list option \<Rightarrow> mutable_agent_state" where
  "createMutableAgentState systemPrompt mdl level msgs =
     \<lparr>st_systemPrompt = (case systemPrompt of None \<Rightarrow> [] | Some p \<Rightarrow> p),
      st_model = (case mdl of None \<Rightarrow> DEFAULT_MODEL | Some m \<Rightarrow> m),
      st_thinkingLevel = (case level of None \<Rightarrow> ''off'' | Some l \<Rightarrow> l),
      st_messages = (case msgs of None \<Rightarrow> [] | Some ms \<Rightarrow> ms),
      st_isStreaming = False, st_streamingMessage = None, st_pendingToolCalls = [], st_errorMessage = None\<rparr>"

definition new_agent :: "mutable_agent_state \<Rightarrow> queue_mode option \<Rightarrow> queue_mode option \<Rightarrow> 'v \<Rightarrow> 'v agent" where
  "new_agent st steeringMode followUpMode outside =
     \<lparr>ag_state = st, ag_active = False,
      ag_world = \<lparr>aw_steering = \<lparr>pq_messages = [], pq_mode = (case steeringMode of None \<Rightarrow> QueueOneAtATime | Some m \<Rightarrow> m)\<rparr>,
                  aw_followUp = \<lparr>pq_messages = [], pq_mode = (case followUpMode of None \<Rightarrow> QueueOneAtATime | Some m \<Rightarrow> m)\<rparr>,
                  aw_aborted = False, aw_skipPoll = False, aw_outside = outside\<rparr>\<rparr>"

section \<open>Operations outside a run\<close>

definition steer :: "agent_message \<Rightarrow> 'v agent_world \<Rightarrow> 'v agent_world" where
  "steer m w = w\<lparr>aw_steering := pq_enqueue m (aw_steering w)\<rparr>"

definition followUp :: "agent_message \<Rightarrow> 'v agent_world \<Rightarrow> 'v agent_world" where
  "followUp m w = w\<lparr>aw_followUp := pq_enqueue m (aw_followUp w)\<rparr>"

definition set_steeringMode :: "queue_mode \<Rightarrow> 'v agent_world \<Rightarrow> 'v agent_world" where
  "set_steeringMode md w = w\<lparr>aw_steering := (aw_steering w)\<lparr>pq_mode := md\<rparr>\<rparr>"

definition set_followUpMode :: "queue_mode \<Rightarrow> 'v agent_world \<Rightarrow> 'v agent_world" where
  "set_followUpMode md w = w\<lparr>aw_followUp := (aw_followUp w)\<lparr>pq_mode := md\<rparr>\<rparr>"

definition clearSteeringQueue :: "'v agent_world \<Rightarrow> 'v agent_world" where
  "clearSteeringQueue w = w\<lparr>aw_steering := pq_clear (aw_steering w)\<rparr>"

definition clearFollowUpQueue :: "'v agent_world \<Rightarrow> 'v agent_world" where
  "clearFollowUpQueue w = w\<lparr>aw_followUp := pq_clear (aw_followUp w)\<rparr>"

definition clearAllQueues :: "'v agent_world \<Rightarrow> 'v agent_world" where
  "clearAllQueues w = clearFollowUpQueue (clearSteeringQueue w)"

definition hasQueuedMessages :: "'v agent_world \<Rightarrow> bool" where
  "hasQueuedMessages w \<longleftrightarrow> pq_hasItems (aw_steering w) \<or> pq_hasItems (aw_followUp w)"

text \<open>\<open>abort()\<close> as a listener or hook calls it during a run.\<close>

definition abort :: "'v agent_world \<Rightarrow> 'v agent_world" where
  "abort w = w\<lparr>aw_aborted := True\<rparr>"

definition reset :: "'v agent \<Rightarrow> string + 'v agent" where
  "reset a =
     (if ag_active a then Inl ''Agent is already processing. Wait for completion before resetting.''
      else Inr (a\<lparr>ag_state := (ag_state a)\<lparr>st_messages := [], st_isStreaming := False, st_streamingMessage := None,
                     st_pendingToolCalls := [], st_errorMessage := None\<rparr>,
                  ag_world := clearSteeringQueue (clearFollowUpQueue (ag_world a))\<rparr>))"

section \<open>Events\<close>

text \<open>The part of \<open>processEvents\<close> that updates the state.\<close>

definition reduce_event :: "loop_event \<Rightarrow> mutable_agent_state \<Rightarrow> mutable_agent_state" where
  "reduce_event ev st =
     (case ev of
        MessageStart m \<Rightarrow> st\<lparr>st_streamingMessage := Some m\<rparr>
      | MessageUpdate m e \<Rightarrow> st\<lparr>st_streamingMessage := Some (AssistantMessage m)\<rparr>
      | MessageEnd m \<Rightarrow> st\<lparr>st_streamingMessage := None, st_messages := st_messages st @ [m]\<rparr>
      | ToolExecutionStart i n a \<Rightarrow> st\<lparr>st_pendingToolCalls :=
          (if i \<in> set (st_pendingToolCalls st) then st_pendingToolCalls st else st_pendingToolCalls st @ [i])\<rparr>
      | ToolExecutionEnd i n r e \<Rightarrow> st\<lparr>st_pendingToolCalls := removeAll i (st_pendingToolCalls st)\<rparr>
      | TurnEnd m rs \<Rightarrow>
          (case am_errorMessage m of
             None \<Rightarrow> st
           | Some e \<Rightarrow> if e = [] then st else st\<lparr>st_errorMessage := Some e\<rparr>)
      | AgentEnd ms \<Rightarrow> st\<lparr>st_streamingMessage := None\<rparr>
      | _ \<Rightarrow> st)"

definition notify :: "'v agent_options \<Rightarrow> loop_event \<Rightarrow> 'v agent_world \<Rightarrow> 'v agent_world" where
  "notify opts ev w = fold (\<lambda>listener. listener ev) (opt_listeners opts) w"

definition processEvents :: "'v agent_options \<Rightarrow> loop_event \<Rightarrow> 'v agent \<Rightarrow> 'v agent" where
  "processEvents opts ev a = a\<lparr>ag_state := reduce_event ev (ag_state a), ag_world := notify opts ev (ag_world a)\<rparr>"

section \<open>Runs\<close>

definition createContextSnapshot :: "'v agent_options \<Rightarrow> mutable_agent_state \<Rightarrow> 'v agent_world agent_context" where
  "createContextSnapshot opts st =
     \<lparr>ctx_systemPrompt = st_systemPrompt st, ctx_messages = st_messages st, ctx_tools = opt_tools opts\<rparr>"

definition getSteeringMessages :: "'v agent_world \<Rightarrow> (string + agent_message list) \<times> 'v agent_world" where
  "getSteeringMessages w =
     (if aw_skipPoll w then (Inr [], w\<lparr>aw_skipPoll := False\<rparr>)
      else (case pq_drain (aw_steering w) of (ms, q) \<Rightarrow> (Inr ms, w\<lparr>aw_steering := q\<rparr>)))"

definition getFollowUpMessages :: "'v agent_world \<Rightarrow> (string + agent_message list) \<times> 'v agent_world" where
  "getFollowUpMessages w = (case pq_drain (aw_followUp w) of (ms, q) \<Rightarrow> (Inr ms, w\<lparr>aw_followUp := q\<rparr>))"

definition createLoopConfig :: "'v agent_options \<Rightarrow> mutable_agent_state \<Rightarrow> 'v agent_world loop_config" where
  "createLoopConfig opts st =
     \<lparr>cfg_model = st_model st,
      cfg_reasoning = (if st_thinkingLevel st = ''off'' then None else Some (st_thinkingLevel st)),
      cfg_apiKey = None, cfg_options = opt_streamOptions opts, cfg_toolExecution = Some (opt_toolExecution opts),
      cfg_transformContext = opt_transformContext opts,
      cfg_convertToLlm = (case opt_convertToLlm opts of
         None \<Rightarrow> (\<lambda>ms w. (Inr (defaultConvertToLlm ms), w)) | Some f \<Rightarrow> f),
      cfg_getApiKey = opt_getApiKey opts, cfg_shouldStopAfterTurn = opt_shouldStopAfterTurn opts,
      cfg_prepareNextTurn = (case opt_prepareNextTurnWithContext opts of
         Some f \<Rightarrow> Some f
       | None \<Rightarrow> (case opt_prepareNextTurn opts of None \<Rightarrow> None | Some f \<Rightarrow> Some (\<lambda>tc. f))),
      cfg_getSteeringMessages = Some getSteeringMessages, cfg_getFollowUpMessages = Some getFollowUpMessages,
      cfg_beforeToolCall = opt_beforeToolCall opts, cfg_afterToolCall = opt_afterToolCall opts\<rparr>"

definition agent_surroundings :: "'v agent_options \<Rightarrow> 'v agent_world surroundings" where
  "agent_surroundings opts =
     \<lparr>env_sink = notify opts, env_aborted = aw_aborted, env_now = opt_now opts,
      env_schedule = opt_schedule opts, env_stream = opt_stream opts\<rparr>"

definition failure_message :: "'v agent_options \<Rightarrow> string \<Rightarrow> 'v agent \<Rightarrow> assistant_message" where
  "failure_message opts e a =
     \<lparr>am_content = [TextPart [] []], am_api = md_api (st_model (ag_state a)),
      am_provider = md_provider (st_model (ag_state a)), am_model = md_id (st_model (ag_state a)),
      am_usage = EMPTY_USAGE, am_stopReason = (if aw_aborted (ag_world a) then StopAborted else StopError),
      am_deferred = None, am_errorMessage = Some e, am_timestamp = opt_now opts (ag_world a), am_rest = []\<rparr>"

definition handleRunFailure :: "'v agent_options \<Rightarrow> string \<Rightarrow> 'v agent \<Rightarrow> 'v agent" where
  "handleRunFailure opts e a =
     (let m = failure_message opts e a in
      processEvents opts (AgentEnd [AssistantMessage m])
        (processEvents opts (TurnEnd m [])
          (processEvents opts (MessageEnd (AssistantMessage m))
            (processEvents opts (MessageStart (AssistantMessage m)) a))))"

definition finishRun :: "'v agent \<Rightarrow> 'v agent" where
  "finishRun a =
     a\<lparr>ag_state := (ag_state a)\<lparr>st_isStreaming := False, st_streamingMessage := None, st_pendingToolCalls := []\<rparr>,
       ag_active := False\<rparr>"

definition begin_run :: "'v agent \<Rightarrow> 'v agent" where
  "begin_run a =
     a\<lparr>ag_active := True,
       ag_state := (ag_state a)\<lparr>st_isStreaming := True, st_streamingMessage := None, st_errorMessage := None\<rparr>,
       ag_world := (ag_world a)\<lparr>aw_aborted := False\<rparr>\<rparr>"

text \<open>The executor is given the agent at the start of the run; its events are reduced into the state.\<close>

definition runWithLifecycle ::
  "'v agent_options \<Rightarrow> ('v agent \<Rightarrow> (string option \<times> 'v agent_world run) option) \<Rightarrow> 'v agent \<Rightarrow> string + 'v agent option" where
  "runWithLifecycle opts executor a =
     (if ag_active a then Inl ''Agent is already processing.''
      else Inr (let a = begin_run a in
        case executor a of
          None \<Rightarrow> None
        | Some (err, r) \<Rightarrow>
            (let a = a\<lparr>ag_state := fold reduce_event (run_events r) (ag_state a), ag_world := run_world r\<rparr> in
             Some (finishRun (case err of None \<Rightarrow> a | Some e \<Rightarrow> handleRunFailure opts e a)))))"

definition runPromptMessages :: "'v agent_options \<Rightarrow> agent_message list \<Rightarrow> bool \<Rightarrow> 'v agent \<Rightarrow> string + 'v agent option" where
  "runPromptMessages opts msgs skipInitialSteeringPoll =
     runWithLifecycle opts (\<lambda>a.
       runAgentLoop (agent_surroundings opts) msgs (createContextSnapshot opts (ag_state a))
         (createLoopConfig opts (ag_state a)) ((ag_world a)\<lparr>aw_skipPoll := skipInitialSteeringPoll\<rparr>))"

text \<open>An error thrown by the loop before its first event is a failure of the run too.\<close>

definition runContinuation :: "'v agent_options \<Rightarrow> 'v agent \<Rightarrow> string + 'v agent option" where
  "runContinuation opts =
     runWithLifecycle opts (\<lambda>a.
       (let w = (ag_world a)\<lparr>aw_skipPoll := False\<rparr> in
        case runAgentLoopContinue (agent_surroundings opts) (createContextSnapshot opts (ag_state a))
               (createLoopConfig opts (ag_state a)) w of
          Inl e \<Rightarrow> Some (Some e, \<lparr>run_new = [], run_events = [], run_executed = [], run_world = w\<rparr>)
        | Inr r \<Rightarrow> r))"

datatype prompt_input =
    TextInput string "jsval list"
  | MessageInput agent_message
  | MessagesInput "agent_message list"

definition prompt_content :: "string \<Rightarrow> jsval list \<Rightarrow> jsval" where
  "prompt_content t images =
     JArr (Some (JObj ProtoObject False [(js_of ''type'', JStr (js_of ''text'')), (js_of ''text'', JStr (js_of t))]) #
           map Some images)"

fun normalizePromptInput :: "int \<Rightarrow> prompt_input \<Rightarrow> agent_message list" where
  "normalizePromptInput now (MessagesInput ms) = ms"
| "normalizePromptInput now (MessageInput m) = [m]"
| "normalizePromptInput now (TextInput t images) = [UserMessage (prompt_content t images) now]"

definition prompt :: "'v agent_options \<Rightarrow> prompt_input \<Rightarrow> 'v agent \<Rightarrow> string + 'v agent option" where
  "prompt opts input a =
     (if ag_active a
      then Inl ''Agent is already processing a prompt. Use steer() or followUp() to queue messages, or wait for completion.''
      else runPromptMessages opts (normalizePromptInput (opt_now opts (ag_world a)) input) False a)"

definition continue_run :: "'v agent_options \<Rightarrow> 'v agent \<Rightarrow> string + 'v agent option" where
  "continue_run opts a =
     (if ag_active a then Inl ''Agent is already processing. Wait for completion before continuing.''
      else if st_messages (ag_state a) = [] then Inl ''No messages to continue from''
      else if role_of (last (st_messages (ag_state a))) = RoleAssistant then
        (case pq_drain (aw_steering (ag_world a)) of
           (steering, q) \<Rightarrow>
             if steering \<noteq> [] then runPromptMessages opts steering True (a\<lparr>ag_world := (ag_world a)\<lparr>aw_steering := q\<rparr>\<rparr>)
             else (case pq_drain (aw_followUp (ag_world a)) of
                     (followUps, q) \<Rightarrow>
                       if followUps \<noteq> [] then runPromptMessages opts followUps False (a\<lparr>ag_world := (ag_world a)\<lparr>aw_followUp := q\<rparr>\<rparr>)
                       else Inl ''Cannot continue from message role: assistant''))
      else runContinuation opts a)"

section \<open>The transcript\<close>

lemma reduce_messages: "st_messages (fold reduce_event evs st) = st_messages st @ ended evs"
  by (induction evs arbitrary: st) (auto simp: reduce_event_def split: loop_event.splits option.splits)

lemma failure_messages:
  "st_messages (ag_state (handleRunFailure opts e a)) =
     st_messages (ag_state a) @ [AssistantMessage (failure_message opts e a)]"
  by (auto simp: handleRunFailure_def processEvents_def reduce_event_def Let_def split: option.splits)

definition idle :: "'v agent \<Rightarrow> bool" where
  "idle a \<longleftrightarrow> \<not> ag_active a \<and> \<not> st_isStreaming (ag_state a) \<and> st_streamingMessage (ag_state a) = None \<and>
     st_pendingToolCalls (ag_state a) = []"

lemma finishRun_idle: "idle (finishRun a)"
  by (simp add: idle_def finishRun_def)

lemma begin_run_messages: "st_messages (ag_state (begin_run a)) = st_messages (ag_state a)"
  by (simp add: begin_run_def)

lemma lifecycle_transcript:
  assumes "runWithLifecycle opts executor a = Inr (Some a')"
  shows "\<exists>err r. executor (begin_run a) = Some (err, r) \<and> idle a' \<and>
     (case err of
        None \<Rightarrow> st_messages (ag_state a') = st_messages (ag_state a) @ ended (run_events r)
      | Some e \<Rightarrow> \<exists>m. failed_message m \<and> am_errorMessage m = Some e \<and>
          st_messages (ag_state a') = st_messages (ag_state a) @ ended (run_events r) @ [AssistantMessage m])"
proof -
  obtain err r where r: "executor (begin_run a) = Some (err, r)"
    using assms by (auto simp: runWithLifecycle_def Let_def split: if_splits option.splits)
  let ?a = "(begin_run a)\<lparr>ag_state := fold reduce_event (run_events r) (ag_state (begin_run a)), ag_world := run_world r\<rparr>"
  have a': "a' = finishRun (case err of None \<Rightarrow> ?a | Some e \<Rightarrow> handleRunFailure opts e ?a)"
    using assms r by (auto simp: runWithLifecycle_def Let_def split: if_splits)
  have m: "st_messages (ag_state ?a) = st_messages (ag_state a) @ ended (run_events r)"
    by (simp add: reduce_messages begin_run_messages)
  have i: "idle a'" unfolding a' by (rule finishRun_idle)
  show ?thesis
  proof (cases err)
    case None
    then have "st_messages (ag_state a') = st_messages (ag_state a) @ ended (run_events r)"
      using a' m by (simp add: finishRun_def)
    then show ?thesis using r i None by (intro exI [of _ err] exI [of _ r]) simp
  next
    case (Some e)
    have "failed_message (failure_message opts e ?a)" "am_errorMessage (failure_message opts e ?a) = Some e"
      by (simp_all add: failed_message_def failure_message_def)
    moreover have "st_messages (ag_state a') = st_messages (ag_state a) @ ended (run_events r) @ [AssistantMessage (failure_message opts e ?a)]"
      using a' Some m failure_messages [of opts e ?a] by (simp add: finishRun_def)
    ultimately show ?thesis using r i Some by (intro exI [of _ err] exI [of _ r]) auto
  qed
qed

lemma run_new_of_prompts:
  assumes "runAgentLoop E prompts ctx cfg w = Some (err, s)"
  shows "\<exists>more. run_new s = prompts @ more \<and> ended (run_events s) = run_new s"
  using runAgentLoop_summary [OF assms, of False]
  by (auto simp: run_summary_def grown_def start_run_parts)

section \<open>Runs that end\<close>

definition queued_messages :: "'v agent_world \<Rightarrow> nat" where
  "queued_messages w = length (pq_messages (aw_steering w)) + length (pq_messages (aw_followUp w))"

text \<open>Listeners and hooks that queue nothing, and a provider that asks for no tools.\<close>

definition quiet_options :: "'v agent_options \<Rightarrow> bool" where
  "quiet_options opts \<longleftrightarrow>
     (\<forall>l \<in> set (opt_listeners opts). \<forall>ev w. queued_messages (l ev w) \<le> queued_messages w) \<and>
     (\<forall>f ms. opt_transformContext opts = Some f \<longrightarrow> not_raised queued_messages (f ms)) \<and>
     (\<forall>f ms. opt_convertToLlm opts = Some f \<longrightarrow> not_raised queued_messages (f ms)) \<and>
     (\<forall>f p. opt_getApiKey opts = Some f \<longrightarrow> not_raised queued_messages (f p)) \<and>
     (\<forall>f tc. opt_shouldStopAfterTurn opts = Some f \<longrightarrow> not_raised queued_messages (f tc)) \<and>
     opt_prepareNextTurn opts = None \<and> opt_prepareNextTurnWithContext opts = None \<and>
     (\<forall>cfg ctx key. not_raised queued_messages (opt_stream opts cfg ctx key)) \<and>
     (\<forall>cfg ctx key w rsp m. fst (opt_stream opts cfg ctx key w) = Inr rsp \<and> rsp_result rsp = Inr m \<longrightarrow> toolCalls m = [])"

lemma notify_queued:
  "(\<forall>l \<in> set ls. \<forall>ev w. queued_messages (l ev w) \<le> queued_messages w) \<Longrightarrow> queued_messages (fold (\<lambda>l. l ev) ls w) \<le> queued_messages w"
proof (induction ls arbitrary: w)
  case Nil then show ?case by simp
next
  case (Cons l ls)
  have "queued_messages (fold (\<lambda>l. l ev) ls (l ev w)) \<le> queued_messages (l ev w)" using Cons by simp
  also have "\<dots> \<le> queued_messages w" using Cons(2) by simp
  finally show ?case by simp
qed

lemma polls_lower: "lowered_by_messages queued_messages getSteeringMessages" "lowered_by_messages queued_messages getFollowUpMessages"
  by (auto simp: lowered_by_messages_def not_raised_def getSteeringMessages_def getFollowUpMessages_def queued_messages_def
        pq_drain_def split: prod.splits list.splits if_splits)

lemma quiet_winding_down:
  assumes "quiet_options opts"
  shows "winding_down queued_messages (agent_surroundings opts) (createLoopConfig opts st)"
proof -
  have "not_raised queued_messages (cfg_convertToLlm (createLoopConfig opts st) ms)" for ms
    using assms by (cases "opt_convertToLlm opts") (auto simp: quiet_options_def createLoopConfig_def not_raised_def)
  then show ?thesis
    using assms notify_queued [of "opt_listeners opts"] polls_lower unfolding winding_down_def
    by (simp add: quiet_options_def agent_surroundings_def createLoopConfig_def notify_def)
qed

lemma loop_run_returns:
  assumes "winding_down \<mu> E cfg" shows "\<exists>r. runLoop E ctx cfg s = Some r"
  using loop_returns [OF assms] by (auto simp: runLoop_def split: prod.splits sum.splits)

lemma prompt_result:
  assumes "\<not> ag_active a" "quiet_options opts"
  shows "\<exists>a'. prompt opts input a = Inr (Some a')"
proof -
  have "\<exists>r. runAgentLoop (agent_surroundings opts) ms ctx (createLoopConfig opts st) w = Some r" for ms ctx st w
    unfolding runAgentLoop_def by (rule loop_run_returns [OF quiet_winding_down [OF assms(2)]])
  then show ?thesis using assms(1)
    by (auto simp: prompt_def runPromptMessages_def runWithLifecycle_def Let_def split: option.splits)
qed

text \<open>An agent whose provider answers every prompt with one message, and one listener that aborts.\<close>

definition demo_options :: "nat agent_options" where
  "demo_options =
     \<lparr>opt_tools = [], opt_convertToLlm = None, opt_transformContext = None, opt_getApiKey = None,
      opt_beforeToolCall = None, opt_afterToolCall = None, opt_shouldStopAfterTurn = None, opt_prepareNextTurn = None,
      opt_prepareNextTurnWithContext = None, opt_streamOptions = [], opt_toolExecution = ExecParallel,
      opt_listeners = [\<lambda>ev. abort], opt_now = (\<lambda>w. 0), opt_schedule = (\<lambda>n w. (0, w)),
      opt_stream = (\<lambda>cfg ctx key w. (Inr \<lparr>rsp_events = [], rsp_failure = None, rsp_result = Inr demo_last\<rparr>, w))\<rparr>"

lemma demo_quiet: "quiet_options demo_options"
  by (simp add: quiet_options_def demo_options_def not_raised_def queued_messages_def abort_def demo_last_def demo_response_def
        toolCalls_def List.map_filter_def)

definition demo_agent :: "nat agent" where
  "demo_agent = (let a = new_agent (createMutableAgentState None None None None) None None 0 in
     a\<lparr>ag_world := followUp demo_prompt (ag_world a)\<rparr>)"

lemma demo_agent_idle: "\<not> ag_active demo_agent"
  by (simp add: demo_agent_def new_agent_def Let_def)





end
