(* ===== verification/Lane_Reducer.thy ===== *)
theory Lane_Reducer
  imports Session_State "HOL-Library.Multiset"
begin

text \<open>
  Recovery of a lane (packages/agent/src/harness/reducer.ts): \<open>validateRecordLog\<close> rejects a record
  log that the single-writer protocol cannot produce, \<open>reduceLaneState\<close> rebuilds the
  orchestration state of the lane from its records and entries. The deep-equality test of the
  typebox library is the argument \<open>deep_equal\<close>.
\<close>

section \<open>Corruption\<close>

datatype corruption_reason =
    MultipleOpenOperations | UnknownOperation | RecordAfterFinish | NonConsecutiveAttempt
  | InvalidCompactionReason | QueueAfterAbort | InvalidQueueCancellation | InconsistentStep
  | ToolCallMismatch | DuplicateToolInvocation | ProvisionedEntryMismatch | InvalidDeferredHandle

datatype record_log_corruption = RecordLogCorruption corruption_reason string

type_synonym 'a checked = "record_log_corruption + 'a"
type_synonym entry_map = "(string \<times> entry) list"
type_synonym deep_equality = "provisioned_entry \<Rightarrow> provisioned_entry \<Rightarrow> bool"

record record_log_slice =
  sl_lane :: string
  sl_openOperations :: "lane_record list"
  sl_records :: "lane_record list"
  sl_entries :: "entry list"

definition corrupt :: "corruption_reason \<Rightarrow> string \<Rightarrow> record_log_corruption" where
  "corrupt reason message = RecordLogCorruption reason message"

definition entry_map_of :: "entry list \<Rightarrow> entry_map" where
  "entry_map_of es = map_put_all (map (\<lambda>e. (e_id e, e)) es) []"

section \<open>Checks of single records\<close>

definition matchesProvisionedEntry :: "deep_equality \<Rightarrow> entry \<Rightarrow> provisioned_entry \<Rightarrow> bool" where
  "matchesProvisionedEntry deep_equal e target = deep_equal \<lparr>p_id = e_id e, p_data = e_data e\<rparr> target"

definition validateExactProvisionedEntry :: "deep_equality \<Rightarrow> entry_map \<Rightarrow> provisioned_entry \<Rightarrow> unit checked" where
  "validateExactProvisionedEntry deep_equal byId target =
     (case map_of byId (p_id target) of
        None \<Rightarrow> Inr ()
      | Some e \<Rightarrow> guardE (\<not> matchesProvisionedEntry deep_equal e target)
          (corrupt ProvisionedEntryMismatch
             (''Provisioned entry '' @ p_id target @ '' exists with content different from its intent'')))"

definition validateResultEntry :: "entry_map \<Rightarrow> string \<Rightarrow> (entry \<Rightarrow> bool) \<Rightarrow> string \<Rightarrow> unit checked" where
  "validateResultEntry byId resultEntryId matches description =
     (case map_of byId resultEntryId of
        None \<Rightarrow> Inr ()
      | Some e \<Rightarrow> guardE (\<not> matches e)
          (corrupt ProvisionedEntryMismatch
             (''Provisioned '' @ description @ '' entry '' @ resultEntryId @ '' exists with different content'')))"

fun step_text :: "step_kind \<Rightarrow> string" where
  "step_text StepAssistant = ''assistant''"
| "step_text StepCompaction = ''compaction''"
| "step_text StepBranchSummary = ''branch_summary''"

definition validateAttemptReason :: "string \<Rightarrow> step_kind \<Rightarrow> string option \<Rightarrow> unit checked" where
  "validateAttemptReason recordId step reason =
     (if step = StepCompaction
      then guardE (reason \<noteq> Some ''manual'' \<and> reason \<noteq> Some ''threshold'' \<and> reason \<noteq> Some ''overflow'')
        (corrupt InvalidCompactionReason (''Compaction attempt '' @ recordId @ '' has no valid compaction reason''))
      else guardE (reason \<noteq> None)
        (corrupt InvalidCompactionReason (step_text step @ '' attempt '' @ recordId @ '' has a compaction reason'')))"

record attempt =
  at_id :: string
  at_seq :: nat
  at_step :: step_kind
  at_attempt :: nat
  at_resultEntryId :: string
  at_reason :: "string option"

text \<open>An attempt continues the latest series of the run when the step is the same and its result did not exist yet.\<close>

definition continuesSeries :: "attempt \<Rightarrow> attempt option \<Rightarrow> entry_map \<Rightarrow> bool" where
  "continuesSeries a previous byId =
     (case previous of
        None \<Rightarrow> False
      | Some p \<Rightarrow> at_step p = at_step a \<and>
          (case map_of byId (at_resultEntryId p) of None \<Rightarrow> True | Some e \<Rightarrow> e_seq e \<ge> at_seq a))"

definition validateAttemptSequence :: "attempt \<Rightarrow> attempt option \<Rightarrow> entry_map \<Rightarrow> unit checked" where
  "validateAttemptSequence a previous byId =
     (let continues = continuesSeries a previous byId;
          expected = (case previous of Some p \<Rightarrow> if continues then at_attempt p + 1 else 1 | None \<Rightarrow> 1) in
      bindE (guardE (at_attempt a \<noteq> expected)
        (corrupt NonConsecutiveAttempt (step_text (at_step a) @ '' attempt '' @ at_id a @ '' is '' @
           show_nat (at_attempt a) @ ''; expected '' @ show_nat expected))) (\<lambda>_.
      case previous of
        None \<Rightarrow> Inr ()
      | Some p \<Rightarrow>
          if \<not> continues \<or> at_step a = StepAssistant then Inr ()
          else bindE (guardE (at_resultEntryId a \<noteq> at_resultEntryId p)
                 (corrupt InconsistentStep (step_text (at_step a) @ '' attempts disagree on their result entry id''))) (\<lambda>_.
               guardE (at_reason a \<noteq> at_reason p)
                 (corrupt InconsistentStep (step_text (at_step a) @ '' attempts disagree on their compaction reason'')))))"

definition is_assistant_entry :: "entry \<Rightarrow> bool" where
  "is_assistant_entry e = (case e_data e of MessageEntry (AssistantMessage m) t \<Rightarrow> True | _ \<Rightarrow> False)"

fun validateAttemptResult :: "entry_map \<Rightarrow> step_kind \<Rightarrow> string \<Rightarrow> unit checked" where
  "validateAttemptResult byId StepAssistant resultEntryId =
     validateResultEntry byId resultEntryId is_assistant_entry ''assistant result''"
| "validateAttemptResult byId StepCompaction resultEntryId =
     validateResultEntry byId resultEntryId (\<lambda>e. e_type e = TypeCompaction) ''compaction result''"
| "validateAttemptResult byId StepBranchSummary resultEntryId =
     validateResultEntry byId resultEntryId (\<lambda>e. e_type e = TypeBranchSummary) ''branch-summary result''"

definition tool_calls :: "assistant_message \<Rightarrow> tool_call list" where
  "tool_calls m = List.map_filter (\<lambda>c. case c of ToolCallPart tc \<Rightarrow> Some tc | _ \<Rightarrow> None) (am_content m)"

definition invocation_key :: "string \<Rightarrow> nat \<Rightarrow> string" where
  "invocation_key assistantEntryId toolIndex = assistantEntryId @ [CHR 0x00] @ show_nat toolIndex"

definition is_tool_result_for :: "string \<Rightarrow> string \<Rightarrow> entry \<Rightarrow> bool" where
  "is_tool_result_for toolCallId toolName e =
     (case e_data e of
        MessageEntry (ToolResultMessage i n c err ts rest) t \<Rightarrow> i = toolCallId \<and> n = toolName
      | _ \<Rightarrow> False)"

definition assistant_of :: "entry option \<Rightarrow> assistant_message option" where
  "assistant_of e =
     (case e of None \<Rightarrow> None | Some x \<Rightarrow> (case e_data x of MessageEntry (AssistantMessage m) t \<Rightarrow> Some m | _ \<Rightarrow> None))"

definition nth_opt :: "'a list \<Rightarrow> nat \<Rightarrow> 'a option" where
  "nth_opt xs i = (if i < length xs then Some (xs ! i) else None)"

definition validateToolStart ::
  "string \<Rightarrow> string \<Rightarrow> nat \<Rightarrow> string \<Rightarrow> string \<Rightarrow> string \<Rightarrow> entry_map \<Rightarrow> string list \<Rightarrow> (string list) checked" where
  "validateToolStart recordId assistantEntryId toolIndex toolCallId toolName resultEntryId byId invocations =
     bindE (guardE (invocation_key assistantEntryId toolIndex \<in> set invocations)
       (corrupt DuplicateToolInvocation
          (''Tool invocation '' @ assistantEntryId @ '':'' @ show_nat toolIndex @ '' is duplicated''))) (\<lambda>_.
     case assistant_of (map_of byId assistantEntryId) of
       None \<Rightarrow> Inl (corrupt ToolCallMismatch (''Tool start '' @ recordId @ '' does not reference an assistant entry''))
     | Some m \<Rightarrow>
         bindE (guardE (case nth_opt (tool_calls m) toolIndex of
                          None \<Rightarrow> True | Some tc \<Rightarrow> tc_id tc \<noteq> toolCallId \<or> tc_name tc \<noteq> toolName)
           (corrupt ToolCallMismatch (''Tool start '' @ recordId @ '' does not match its assistant tool-call ordinal''))) (\<lambda>_.
         bindE (validateResultEntry byId resultEntryId (is_tool_result_for toolCallId toolName) ''tool result'') (\<lambda>_.
         Inr (invocations @ [invocation_key assistantEntryId toolIndex]))))"

definition lacks_handle :: "entry \<Rightarrow> bool" where
  "lacks_handle e =
     (case e_data e of
        MessageEntry (AssistantMessage m) t \<Rightarrow> am_stopReason m = StopDeferred \<and> am_deferred m = None
      | _ \<Rightarrow> False)"

fun validateDeferredHandles :: "entry list \<Rightarrow> unit checked" where
  "validateDeferredHandles [] = Inr ()"
| "validateDeferredHandles (e # es) =
     bindE (guardE (lacks_handle e)
       (corrupt InvalidDeferredHandle (''Deferred assistant entry '' @ e_id e @ '' does not carry a handle''))) (\<lambda>_.
     validateDeferredHandles es)"

fun validate_targets :: "deep_equality \<Rightarrow> entry_map \<Rightarrow> provisioned_entry list \<Rightarrow> unit checked" where
  "validate_targets deep_equal byId [] = Inr ()"
| "validate_targets deep_equal byId (t # ts) =
     bindE (validateExactProvisionedEntry deep_equal byId t) (\<lambda>_. validate_targets deep_equal byId ts)"

fun validateOperationResult :: "deep_equality \<Rightarrow> entry_map \<Rightarrow> operation_intent \<Rightarrow> unit checked" where
  "validateOperationResult deep_equal byId (RunIntent prompt initial override resume) =
     validate_targets deep_equal byId initial"
| "validateOperationResult deep_equal byId (CompactionIntent instructions resultEntryId) =
     validateResultEntry byId resultEntryId (\<lambda>e. e_type e = TypeCompaction) ''manual compaction''"
| "validateOperationResult deep_equal byId (NavigationIntent target summarize instructions label summaryEntryId) =
     (case summaryEntryId of
        None \<Rightarrow> Inr ()
      | Some i \<Rightarrow>
          if i = [] then Inr ()
          else validateResultEntry byId i (\<lambda>e. e_type e = TypeBranchSummary) ''navigation summary'')"

section \<open>The record log\<close>

record validation_state =
  vs_starts :: "(string \<times> lane_record) list"
  vs_finishedAt :: "(string \<times> nat) list"
  vs_abortedAt :: "(string \<times> nat) list"
  vs_queueEnqueues :: "(string \<times> lane_record) list"
  vs_latestAttempt :: "(string \<times> attempt) list"
  vs_toolInvocations :: "string list"

definition empty_validation :: validation_state where
  "empty_validation = \<lparr>vs_starts = [], vs_finishedAt = [], vs_abortedAt = [], vs_queueEnqueues = [],
     vs_latestAttempt = [], vs_toolInvocations = []\<rparr>"

definition validateRunId :: "lane_record \<Rightarrow> validation_state \<Rightarrow> unit checked" where
  "validateRunId r vs =
     (case run_id_of (r_data r) of
        None \<Rightarrow> Inr ()
      | Some run \<Rightarrow>
          bindE (guardE (\<not> map_has (vs_starts vs) run)
            (corrupt UnknownOperation (''Record '' @ r_id r @ '' references unknown operation '' @ run))) (\<lambda>_.
          guardE (case map_of (vs_finishedAt vs) run of None \<Rightarrow> False | Some q \<Rightarrow> r_seq r > q)
            (corrupt RecordAfterFinish (''Record '' @ r_id r @ '' follows the finish of operation '' @ run))))"

fun queue_text :: "queue_kind \<Rightarrow> string" where
  "queue_text QueueSteer = ''steer''"
| "queue_text QueueFollowUp = ''followUp''"
| "queue_text QueueNextRun = ''nextRun''"

definition enqueued_after_abort :: "queue_kind \<Rightarrow> string option \<Rightarrow> nat \<Rightarrow> validation_state \<Rightarrow> bool" where
  "enqueued_after_abort queue run seq vs \<longleftrightarrow> queue \<noteq> QueueNextRun \<and>
     (case run of None \<Rightarrow> False
      | Some i \<Rightarrow> (case map_of (vs_abortedAt vs) i of None \<Rightarrow> False | Some q \<Rightarrow> seq > q))"

definition bad_cancellation :: "lane_record \<Rightarrow> string option \<Rightarrow> string \<Rightarrow> entry_map \<Rightarrow> validation_state \<Rightarrow> bool" where
  "bad_cancellation r run entryId byId vs =
     (case map_of (vs_queueEnqueues vs) entryId of
        None \<Rightarrow> True
      | Some enq \<Rightarrow> r_seq enq \<ge> r_seq r \<or> run_id_of (r_data enq) \<noteq> run \<or> map_has byId entryId)"

definition validateRecord ::
  "deep_equality \<Rightarrow> entry_map \<Rightarrow> lane_record \<Rightarrow> validation_state \<Rightarrow> validation_state checked" where
  "validateRecord deep_equal byId r vs =
     (case r_data r of
        OperationStarted source intent \<Rightarrow>
          bindE (validateOperationResult deep_equal byId intent) (\<lambda>_.
          Inr (vs\<lparr>vs_starts := map_put (r_id r) r (vs_starts vs)\<rparr>))
      | _ \<Rightarrow>
          bindE (validateRunId r vs) (\<lambda>_.
          case r_data r of
            OperationFinished run outcome err \<Rightarrow> Inr (vs\<lparr>vs_finishedAt := map_put run (r_seq r) (vs_finishedAt vs)\<rparr>)
          | AbortRequested run \<Rightarrow> Inr (vs\<lparr>vs_abortedAt := map_put run (r_seq r) (vs_abortedAt vs)\<rparr>)
          | StepAttempt run step att resultEntryId reason \<Rightarrow>
              (let a = \<lparr>at_id = r_id r, at_seq = r_seq r, at_step = step, at_attempt = att,
                        at_resultEntryId = resultEntryId, at_reason = reason\<rparr> in
               bindE (validateAttemptReason (r_id r) step reason) (\<lambda>_.
               bindE (validateAttemptSequence a (map_of (vs_latestAttempt vs) run) byId) (\<lambda>_.
               bindE (validateAttemptResult byId step resultEntryId) (\<lambda>_.
               Inr (vs\<lparr>vs_latestAttempt := map_put run a (vs_latestAttempt vs)\<rparr>)))))
          | ToolStarted run assistantEntryId toolIndex toolCallId toolName args resultEntryId replay \<Rightarrow>
              bindE (validateToolStart (r_id r) assistantEntryId toolIndex toolCallId toolName resultEntryId byId
                       (vs_toolInvocations vs)) (\<lambda>invocations.
              Inr (vs\<lparr>vs_toolInvocations := invocations\<rparr>))
          | QueueEnqueued queue run target \<Rightarrow>
              bindE (guardE (enqueued_after_abort queue run (r_seq r) vs)
                (corrupt QueueAfterAbort (queue_text queue @ '' item '' @ p_id target @ '' was enqueued after abort''))) (\<lambda>_.
              bindE (validateExactProvisionedEntry deep_equal byId target) (\<lambda>_.
              Inr (vs\<lparr>vs_queueEnqueues := map_put (p_id target) r (vs_queueEnqueues vs)\<rparr>)))
          | QueueCancelled run entryId \<Rightarrow>
              bindE (guardE (bad_cancellation r run entryId byId vs)
                (corrupt InvalidQueueCancellation
                   (''Queue cancellation '' @ r_id r @ '' has no pending matching enqueue''))) (\<lambda>_.
              Inr vs)
          | WriteDeferred run target \<Rightarrow>
              bindE (validateExactProvisionedEntry deep_equal byId target) (\<lambda>_. Inr vs)
          | _ \<Rightarrow> Inr vs))"

definition bySequence :: "('a \<Rightarrow> nat) \<Rightarrow> 'a list \<Rightarrow> 'a list" where
  "bySequence seq xs = sort_key seq xs"

definition validateRecordLog :: "deep_equality \<Rightarrow> record_log_slice \<Rightarrow> unit checked" where
  "validateRecordLog deep_equal input =
     bindE (guardE (length (sl_openOperations input) > 1)
       (corrupt MultipleOpenOperations (''Lane '' @ sl_lane input @ '' has at least two open operations''))) (\<lambda>_.
     let byId = entry_map_of (sl_entries input) in
     bindE (validateDeferredHandles (map snd byId)) (\<lambda>_.
     bindE (foldE (validateRecord deep_equal byId) (bySequence r_seq (sl_records input)) empty_validation) (\<lambda>_.
     Inr ())))"

section \<open>The reduced state\<close>

record lane_configuration =
  cfg_model :: "string \<times> string"
  cfg_thinkingLevel :: string
  cfg_activeToolNames :: "string list"

datatype failure_source = FromStep | FromDeferredFetch

record terminal_failure =
  tf_entryId :: string
  tf_source :: failure_source
  tf_message :: assistant_message

record tool_call_state =
  tcs_toolIndex :: nat
  tcs_toolCall :: tool_call
  tcs_started :: "lane_record option"
  tcs_resultExists :: bool
  tcs_terminate :: bool

record tool_batch_state =
  tb_assistantEntryId :: string
  tb_calls :: "tool_call_state list"
  tb_truncated :: bool
  tb_unresolved :: bool

record step_state =
  ss_kind :: step_kind
  ss_attempts :: nat
  ss_resultEntryId :: string
  ss_compactionReason :: "string option"

record newest_own =
  no_entryId :: string
  no_type :: entry_type
  no_role :: "message_role option"
  no_stopReason :: "stop_reason option"

record operation_state =
  op_id :: string
  op_kind :: operation_kind
  op_intent :: operation_intent
  op_aborting :: bool
  op_step :: "step_state option"
  op_toolBatch :: "tool_batch_state option"
  op_missingInitialMessages :: "provisioned_entry list"
  op_pendingSteer :: "provisioned_entry list"
  op_pendingFollowUp :: "provisioned_entry list"
  op_pendingWrites :: "provisioned_entry list"
  op_deferred :: "deferred_handle option"
  op_overflowRecoveryUsed :: bool
  op_newestOwn :: "newest_own option"
  op_targetResult :: "bool option"
  op_targetSummary :: "bool option"

record lane_state =
  ls_lane :: string
  ls_leafId :: "string option"
  ls_operation :: "operation_state option"
  ls_pendingNextRun :: "provisioned_entry list"

record lane_reduction_input = record_log_slice +
  in_leafId :: "string option"
  in_ownEntries :: "entry list"
  in_configurationEntries :: "entry list"
  in_defaults :: lane_configuration

record lane_reduction_result =
  lr_laneState :: lane_state
  lr_effectiveConfiguration :: lane_configuration
  lr_terminalFailure :: "terminal_failure option"

definition configuration_step :: "entry \<Rightarrow> lane_configuration \<Rightarrow> lane_configuration" where
  "configuration_step e cfg =
     (case e_data e of
        ModelChangeEntry p i \<Rightarrow> cfg\<lparr>cfg_model := (p, i)\<rparr>
      | ThinkingLevelEntry l \<Rightarrow> cfg\<lparr>cfg_thinkingLevel := l\<rparr>
      | ActiveToolsEntry ns \<Rightarrow> cfg\<lparr>cfg_activeToolNames := ns\<rparr>
      | MessageEntry (AssistantMessage m) t \<Rightarrow> cfg\<lparr>cfg_model := (am_provider m, am_model m)\<rparr>
      | _ \<Rightarrow> cfg)"

definition deriveEffectiveConfiguration :: "('z) lane_reduction_input_scheme \<Rightarrow> lane_configuration" where
  "deriveEffectiveConfiguration input =
     fold configuration_step
       (bySequence e_seq (map snd (entry_map_of (in_configurationEntries input @ in_ownEntries input))))
       (in_defaults input)"

definition last_opt :: "'a list \<Rightarrow> 'a option" where
  "last_opt xs = (if xs = [] then None else Some (last xs))"

definition deriveNewestOwn :: "entry option \<Rightarrow> newest_own option" where
  "deriveNewestOwn e =
     (case e of
        None \<Rightarrow> None
      | Some x \<Rightarrow> Some
          (case e_data x of
             MessageEntry msg t \<Rightarrow>
               (case msg of
                  AssistantMessage m \<Rightarrow> \<lparr>no_entryId = e_id x, no_type = e_type x, no_role = Some (role_of msg),
                    no_stopReason = Some (am_stopReason m)\<rparr>
                | _ \<Rightarrow> \<lparr>no_entryId = e_id x, no_type = e_type x, no_role = Some (role_of msg), no_stopReason = None\<rparr>)
           | _ \<Rightarrow> \<lparr>no_entryId = e_id x, no_type = e_type x, no_role = None, no_stopReason = None\<rparr>))"

definition has_tool_calls :: "entry \<Rightarrow> bool" where
  "has_tool_calls e = (case assistant_of (Some e) of None \<Rightarrow> False | Some m \<Rightarrow> tool_calls m \<noteq> [])"

definition tool_starts :: "string \<Rightarrow> string \<Rightarrow> lane_record list \<Rightarrow> (nat \<times> lane_record) list" where
  "tool_starts operationId assistantEntryId rs =
     fold (\<lambda>r m. case r_data r of
         ToolStarted run a i c n args res replay \<Rightarrow>
           if run = operationId \<and> a = assistantEntryId then map_put i r m else m
       | _ \<Rightarrow> m) rs []"

fun result_entry_id :: "record_data \<Rightarrow> string" where
  "result_entry_id (ToolStarted run a i c n args res replay) = res"
| "result_entry_id (StepAttempt run step att res reason) = res"
| "result_entry_id _ = []"

definition is_blocked_result :: "entry \<Rightarrow> string list \<Rightarrow> string \<Rightarrow> entry \<Rightarrow> bool" where
  "is_blocked_result assistantEntry deferredWriteIds callId e \<longleftrightarrow>
     e_seq e > e_seq assistantEntry \<and> e_id e \<notin> set deferredWriteIds \<and>
     (case e_data e of MessageEntry (ToolResultMessage i n c err ts rest) t \<Rightarrow> i = callId | _ \<Rightarrow> False)"

definition terminates :: "entry option \<Rightarrow> bool" where
  "terminates e = (case e of Some x \<Rightarrow> (case e_data x of MessageEntry msg t \<Rightarrow> t | _ \<Rightarrow> False) | None \<Rightarrow> False)"

definition tool_call_state_of ::
  "entry \<Rightarrow> (nat \<times> lane_record) list \<Rightarrow> entry list \<Rightarrow> entry_map \<Rightarrow> string list \<Rightarrow> nat \<Rightarrow> tool_call \<Rightarrow> tool_call_state" where
  "tool_call_state_of assistantEntry starts ownEntries byId deferredWriteIds toolIndex tc =
     (let started = map_of starts toolIndex;
          startedResult = (case started of None \<Rightarrow> None | Some r \<Rightarrow> map_of byId (result_entry_id (r_data r)));
          blockedResult = find (is_blocked_result assistantEntry deferredWriteIds (tc_id tc)) ownEntries;
          result = (case startedResult of None \<Rightarrow> blockedResult | Some e \<Rightarrow> Some e) in
      \<lparr>tcs_toolIndex = toolIndex, tcs_toolCall = tc, tcs_started = started, tcs_resultExists = (result \<noteq> None),
       tcs_terminate = terminates result\<rparr>)"

definition deriveToolBatch ::
  "string \<Rightarrow> lane_record list \<Rightarrow> entry list \<Rightarrow> entry_map \<Rightarrow> string list \<Rightarrow> tool_batch_state option" where
  "deriveToolBatch operationId rs ownEntries byId deferredWriteIds =
     (case find has_tool_calls (rev ownEntries) of
        None \<Rightarrow> None
      | Some a \<Rightarrow>
          (case assistant_of (Some a) of
             None \<Rightarrow> None
           | Some m \<Rightarrow>
               (let starts = tool_starts operationId (e_id a) rs;
                    calls = map (\<lambda>(i, tc). tool_call_state_of a starts ownEntries byId deferredWriteIds i tc)
                              (zip [0..<length (tool_calls m)] (tool_calls m)) in
                Some \<lparr>tb_assistantEntryId = e_id a, tb_calls = calls, tb_truncated = (am_stopReason m = StopLength),
                      tb_unresolved = list_ex (\<lambda>c. \<not> tcs_resultExists c) calls\<rparr>)))"

section \<open>Reduction\<close>

definition cancelled_ids :: "lane_record list \<Rightarrow> string list" where
  "cancelled_ids rs = List.map_filter (\<lambda>r. case r_data r of QueueCancelled run i \<Rightarrow> Some i | _ \<Rightarrow> None) rs"

definition is_pending :: "entry_map \<Rightarrow> string list \<Rightarrow> lane_record \<Rightarrow> bool" where
  "is_pending byId cancelled r =
     (case r_data r of
        QueueEnqueued queue run target \<Rightarrow> \<not> map_has byId (p_id target) \<and> p_id target \<notin> set cancelled
      | _ \<Rightarrow> False)"

definition queued_targets :: "(queue_kind \<Rightarrow> string option \<Rightarrow> string \<Rightarrow> bool) \<Rightarrow> lane_record list \<Rightarrow> provisioned_entry list" where
  "queued_targets keep rs =
     List.map_filter (\<lambda>r. case r_data r of
         QueueEnqueued queue run target \<Rightarrow> if keep queue run (p_id target) then Some target else None
       | _ \<Rightarrow> None) rs"

fun initial_targets :: "operation_intent \<Rightarrow> provisioned_entry list" where
  "initial_targets (RunIntent prompt initial override resume) = initial"
| "initial_targets _ = []"

definition belongs_to :: "string \<Rightarrow> lane_record \<Rightarrow> bool" where
  "belongs_to operationId r =
     (case r_data r of OperationStarted s i \<Rightarrow> r_id r = operationId | d \<Rightarrow> run_id_of d = Some operationId)"

definition deferred_targets :: "lane_record list \<Rightarrow> provisioned_entry list" where
  "deferred_targets rs = List.map_filter (\<lambda>r. case r_data r of WriteDeferred run t \<Rightarrow> Some t | _ \<Rightarrow> None) rs"

definition is_abort :: "lane_record \<Rightarrow> bool" where
  "is_abort r = (case r_data r of AbortRequested run \<Rightarrow> True | _ \<Rightarrow> False)"

definition is_attempt :: "lane_record \<Rightarrow> bool" where
  "is_attempt r = (case r_data r of StepAttempt run step att res reason \<Rightarrow> True | _ \<Rightarrow> False)"

definition derive_step :: "entry_map \<Rightarrow> lane_record list \<Rightarrow> step_state option" where
  "derive_step byId ops =
     (case last_opt (filter is_attempt ops) of
        None \<Rightarrow> None
      | Some r \<Rightarrow>
          (case r_data r of
             StepAttempt run step att res reason \<Rightarrow>
               if map_has byId res then None
               else Some \<lparr>ss_kind = step, ss_attempts = att, ss_resultEntryId = res,
                 ss_compactionReason = (if step = StepCompaction then reason else None)\<rparr>
           | _ \<Rightarrow> None))"

definition consumed_input_ids :: "operation_intent \<Rightarrow> lane_record list \<Rightarrow> string list" where
  "consumed_input_ids intent ops =
     map p_id (initial_targets intent) @ map p_id (queued_targets (\<lambda>queue run i. queue \<noteq> QueueNextRun) ops)"

text \<open>\<open>None\<close> stands for negative infinity.\<close>

definition newest_consumed :: "entry_map \<Rightarrow> string list \<Rightarrow> nat option" where
  "newest_consumed byId ids =
     fold (\<lambda>i best. case map_of byId i of
         None \<Rightarrow> best
       | Some e \<Rightarrow> if e_type e = TypeMessage then Some (case best of None \<Rightarrow> e_seq e | Some b \<Rightarrow> max b (e_seq e)) else best)
       ids None"

definition overflow_recovery_used :: "nat option \<Rightarrow> lane_record list \<Rightarrow> bool" where
  "overflow_recovery_used newest ops =
     list_ex (\<lambda>r. case r_data r of
         StepAttempt run step att res reason \<Rightarrow> step = StepCompaction \<and> reason = Some ''overflow'' \<and>
           (case newest of None \<Rightarrow> True | Some q \<Rightarrow> r_seq r > q)
       | _ \<Rightarrow> False) ops"

definition deferred_handle_of :: "entry option \<Rightarrow> deferred_handle option" where
  "deferred_handle_of e =
     (case assistant_of e of None \<Rightarrow> None | Some m \<Rightarrow> if am_stopReason m = StopDeferred then am_deferred m else None)"

definition produced_by_step :: "string \<Rightarrow> lane_record list \<Rightarrow> bool" where
  "produced_by_step i ops =
     list_ex (\<lambda>r. case r_data r of StepAttempt run step att res reason \<Rightarrow> res = i | _ \<Rightarrow> False) ops"

definition fetched_usage :: "string \<Rightarrow> lane_record \<Rightarrow> bool" where
  "fetched_usage i r =
     (case r_data r of
        UsageRecord (StepUsage cause run entryId att stop) u \<Rightarrow> cause = ''deferred_fetch'' \<and> entryId = i
      | _ \<Rightarrow> False)"

definition produced_by_fetch :: "string \<Rightarrow> entry list \<Rightarrow> lane_record list \<Rightarrow> bool" where
  "produced_by_fetch i ownEntries ops \<longleftrightarrow> list_ex (fetched_usage i) ops \<or>
     (case assistant_of (last_opt (butlast ownEntries)) of None \<Rightarrow> False | Some m \<Rightarrow> am_stopReason m = StopDeferred)"

definition derive_failure :: "entry list \<Rightarrow> lane_record list \<Rightarrow> string list \<Rightarrow> terminal_failure option" where
  "derive_failure ownEntries ops deferredWriteIds =
     (case last_opt ownEntries of
        None \<Rightarrow> None
      | Some e \<Rightarrow>
          (case assistant_of (Some e) of
             None \<Rightarrow> None
           | Some m \<Rightarrow>
               if am_stopReason m = StopError \<and> e_id e \<notin> set deferredWriteIds \<and>
                  (produced_by_step (e_id e) ops \<or> produced_by_fetch (e_id e) ownEntries ops)
               then Some \<lparr>tf_entryId = e_id e,
                 tf_source = (if produced_by_step (e_id e) ops then FromStep else FromDeferredFetch), tf_message = m\<rparr>
               else None))"

fun target_result :: "entry_map \<Rightarrow> operation_intent \<Rightarrow> bool option" where
  "target_result byId (CompactionIntent instructions i) = Some (map_has byId i)"
| "target_result byId _ = None"

fun target_summary :: "entry_map \<Rightarrow> operation_intent \<Rightarrow> bool option" where
  "target_summary byId (NavigationIntent t s instructions l (Some i)) = (if i = [] then None else Some (map_has byId i))"
| "target_summary byId _ = None"

definition derive_operation ::
  "lane_record \<Rightarrow> operation_intent \<Rightarrow> entry_map \<Rightarrow> lane_record list \<Rightarrow> entry list \<Rightarrow> lane_record list \<Rightarrow> operation_state" where
  "derive_operation started intent byId ops ownEntries pending =
     (let aborting = list_ex is_abort ops; run = r_id started;
          deferredWriteIds = map p_id (deferred_targets ops) in
      \<lparr>op_id = run, op_kind = intent_kind intent, op_intent = intent, op_aborting = aborting,
       op_step = derive_step byId ops,
       op_toolBatch = deriveToolBatch run ops ownEntries byId deferredWriteIds,
       op_missingInitialMessages = filter (\<lambda>t. \<not> map_has byId (p_id t)) (initial_targets intent),
       op_pendingSteer = (if aborting then [] else queued_targets (\<lambda>q r i. q = QueueSteer \<and> r = Some run) pending),
       op_pendingFollowUp = (if aborting then [] else queued_targets (\<lambda>q r i. q = QueueFollowUp \<and> r = Some run) pending),
       op_pendingWrites = filter (\<lambda>t. \<not> map_has byId (p_id t)) (deferred_targets ops),
       op_deferred = deferred_handle_of (last_opt ownEntries),
       op_overflowRecoveryUsed =
         overflow_recovery_used (newest_consumed byId (consumed_input_ids intent ops)) ops,
       op_newestOwn = deriveNewestOwn (last_opt ownEntries),
       op_targetResult = target_result byId intent, op_targetSummary = target_summary byId intent\<rparr>)"

definition reduceLaneState :: "deep_equality \<Rightarrow> lane_reduction_input \<Rightarrow> lane_reduction_result checked" where
  "reduceLaneState deep_equal input =
     bindE (validateRecordLog deep_equal (record_log_slice.truncate input)) (\<lambda>_.
     let rs = bySequence r_seq (sl_records input);
         ownEntries = bySequence e_seq (in_ownEntries input);
         byId = entry_map_of (sl_entries input @ ownEntries);
         pending = filter (is_pending byId (cancelled_ids rs)) rs;
         started = (case sl_openOperations input of [] \<Rightarrow> None | r # _ \<Rightarrow> Some r);
         intent = (case started of None \<Rightarrow> None
           | Some r \<Rightarrow> (case r_data r of OperationStarted src it \<Rightarrow> Some (r, it) | _ \<Rightarrow> None));
         captured = (case intent of None \<Rightarrow> [] | Some (r, it) \<Rightarrow> map p_id (initial_targets it));
         pendingNextRun = queued_targets (\<lambda>q run i. q = QueueNextRun \<and> i \<notin> set captured) pending;
         cfg = deriveEffectiveConfiguration input in
     case intent of
       None \<Rightarrow>
         Inr \<lparr>lr_laneState = \<lparr>ls_lane = sl_lane input, ls_leafId = in_leafId input, ls_operation = None,
                ls_pendingNextRun = pendingNextRun\<rparr>,
              lr_effectiveConfiguration = cfg, lr_terminalFailure = None\<rparr>
     | Some (r, it) \<Rightarrow>
         (let ops = filter (belongs_to (r_id r)) rs in
          Inr \<lparr>lr_laneState = \<lparr>ls_lane = sl_lane input, ls_leafId = in_leafId input,
                 ls_operation = Some (derive_operation r it byId ops ownEntries pending),
                 ls_pendingNextRun = pendingNextRun\<rparr>,
               lr_effectiveConfiguration = cfg,
               lr_terminalFailure = derive_failure ownEntries ops (map p_id (deferred_targets ops))\<rparr>))"

section \<open>What an accepted log guarantees\<close>

lemma foldE_at:
  assumes "foldE f (pre @ x # post) s = Inr s'"
  obtains s1 s2 where "foldE f pre s = Inr s1" "f x s1 = Inr s2"
  using assms by (auto simp: foldE_append bindE_eq_Inr)

lemma foldE_snoc: "foldE f (xs @ [x]) s = Inr s' \<longleftrightarrow> (\<exists>t. foldE f xs s = Inr t \<and> f x t = Inr s')"
  by (auto simp: foldE_append bindE_eq_Inr)

definition finish_of :: "string \<Rightarrow> lane_record \<Rightarrow> bool" where
  "finish_of run r \<longleftrightarrow> (\<exists>outcome err. r_data r = OperationFinished run outcome err)"

definition invocation_of :: "lane_record \<Rightarrow> (string \<times> nat) option" where
  "invocation_of r = (case r_data r of ToolStarted run a i c n args res replay \<Rightarrow> Some (a, i) | _ \<Rightarrow> None)"

text \<open>What the accumulators hold after a prefix of the log.\<close>

definition history_ok :: "lane_record list \<Rightarrow> validation_state \<Rightarrow> bool" where
  "history_ok pre vs \<longleftrightarrow>
     (\<forall>run. map_has (vs_starts vs) run \<longleftrightarrow> (\<exists>s \<in> set pre. is_start s \<and> r_id s = run)) \<and>
     (\<forall>run q. map_of (vs_finishedAt vs) run = Some q \<longrightarrow> (\<exists>f \<in> set pre. finish_of run f \<and> r_seq f = q)) \<and>
     (\<forall>run. \<forall>f \<in> set pre. finish_of run f \<longrightarrow> map_has (vs_finishedAt vs) run) \<and>
     vs_toolInvocations vs = map (\<lambda>(a, i). invocation_key a i) (List.map_filter invocation_of pre)"

lemma validateRecord_unchanged:
  assumes "validateRecord deep_equal byId r vs = Inr vs'" "\<not> is_start r" "\<And>run. \<not> finish_of run r" "invocation_of r = None"
  shows "vs_starts vs' = vs_starts vs" "vs_finishedAt vs' = vs_finishedAt vs" "vs_toolInvocations vs' = vs_toolInvocations vs"
  using assms
  by (cases "r_data r"; auto simp: validateRecord_def bindE_eq_Inr Let_def is_start_def finish_of_def invocation_of_def)+

lemma validateRecord_tool:
  assumes "validateRecord deep_equal byId r vs = Inr vs'" "invocation_of r = Some (a, i)"
  shows "invocation_key a i \<notin> set (vs_toolInvocations vs)"
    "vs' = vs\<lparr>vs_toolInvocations := vs_toolInvocations vs @ [invocation_key a i]\<rparr>"
  using assms
  by (auto simp: validateRecord_def validateToolStart_def invocation_of_def bindE_eq_Inr
      split: record_data.splits option.splits)

lemma invocation_None: "is_start r \<Longrightarrow> invocation_of r = None" "finish_of run r \<Longrightarrow> invocation_of r = None"
  by (auto simp: is_start_def finish_of_def invocation_of_def)

lemma history_step:
  assumes "history_ok pre vs" "validateRecord deep_equal byId r vs = Inr vs'"
  shows "history_ok (pre @ [r]) vs'"
proof -
  consider (start) "is_start r" | (finish) run where "finish_of run r" | (tool) a i where "invocation_of r = Some (a, i)"
    | (other) "\<not> is_start r" "\<And>run. \<not> finish_of run r" "invocation_of r = None"
    by (metis surj_pair option.exhaust)
  then show ?thesis
  proof cases
    case start
    then have vs': "vs' = vs\<lparr>vs_starts := map_put (r_id r) r (vs_starts vs)\<rparr>" "\<And>run. \<not> finish_of run r"
      using assms(2) by (auto simp: is_start_def finish_of_def validateRecord_def bindE_eq_Inr)
    then show ?thesis
      using assms(1) start by (auto simp: history_ok_def invocation_None(1) List.map_filter_simps map_filter_def)
  next
    case finish
    then have vs': "vs' = vs\<lparr>vs_finishedAt := map_put run (r_seq r) (vs_finishedAt vs)\<rparr>" "\<not> is_start r"
      "\<And>run'. finish_of run' r \<longleftrightarrow> run' = run"
      using assms(2) by (auto simp: is_start_def finish_of_def validateRecord_def bindE_eq_Inr)
    then show ?thesis
      using assms(1) finish by (auto simp: history_ok_def invocation_None(2) map_filter_def)
  next
    case tool
    then have "\<not> is_start r" "\<And>run. \<not> finish_of run r" using invocation_None by fastforce+
    then show ?thesis
      using assms(1) tool validateRecord_tool(2) [OF assms(2) tool] by (auto simp: history_ok_def map_filter_def)
  next
    case other
    then show ?thesis
      using assms(1) validateRecord_unchanged [OF assms(2) other] by (auto simp: history_ok_def map_filter_def)
  qed
qed

lemma history_fold:
  "foldE (validateRecord deep_equal byId) pre empty_validation = Inr vs \<Longrightarrow> history_ok pre vs"
proof (induction pre arbitrary: vs rule: rev_induct)
  case Nil
  then show ?case by (auto simp: history_ok_def empty_validation_def map_filter_def)
next
  case (snoc r pre)
  then show ?case by (auto simp: foldE_snoc intro: history_step)
qed

lemma bySequence_sorted: "sorted (map seq (bySequence seq xs))" "set (bySequence seq xs) = set xs"
  "mset (bySequence seq xs) = mset xs"
  by (simp_all add: bySequence_def)

lemma distinct_sorted_after:
  assumes "distinct (map r_seq rs)" "bySequence r_seq rs = pre @ r # post" "f \<in> set pre"
  shows "r_seq f < r_seq r"
proof -
  have "sorted (map r_seq (pre @ r # post))" "distinct (map r_seq (pre @ r # post))"
    using bySequence_sorted(1) [of r_seq rs] assms(1,2) mset_eq_imp_distinct_iff
    by (metis, metis bySequence_sorted(3) mset_map)
  then have "r_seq f \<le> r_seq r" "r_seq r \<notin> r_seq ` set pre" using assms(3) by (auto simp: sorted_append)
  with assms(3) show ?thesis by (metis image_eqI le_neq_implies_less)
qed

text \<open>
  C23: in an accepted log whose sequence numbers are distinct, every record that names an operation
  follows that operation's start and precedes its finish, and no tool invocation (an assistant
  entry and the ordinal of a call in it) is started twice.
\<close>

theorem accepted_log_safe:
  assumes "validateRecordLog deep_equal input = Inr ()" "distinct (map r_seq (sl_records input))"
    "bySequence r_seq (sl_records input) = pre @ r # post" "\<not> is_start r"
  shows "(\<forall>run. run_id_of (r_data r) = Some run \<longrightarrow>
      (\<exists>s \<in> set pre. is_start s \<and> r_id s = run) \<and> \<not> (\<exists>f \<in> set pre. finish_of run f)) \<and>
    (\<forall>key. invocation_of r = Some key \<longrightarrow> Some key \<notin> invocation_of ` set pre)"
proof -
  let ?byId = "entry_map_of (sl_entries input)"
  obtain vs0 where "foldE (validateRecord deep_equal ?byId) (pre @ r # post) empty_validation = Inr vs0"
    using assms(1,3) by (auto simp: validateRecordLog_def bindE_eq_Inr Let_def)
  then obtain vs vs' where vs: "foldE (validateRecord deep_equal ?byId) pre empty_validation = Inr vs"
    "validateRecord deep_equal ?byId r vs = Inr vs'" by (rule foldE_at)
  note h = history_fold [OF vs(1)]
  have chk: "validateRunId r vs = Inr ()"
    using vs(2) assms(4) by (cases "r_data r") (auto simp: validateRecord_def is_start_def bindE_eq_Inr)
  have "(\<exists>s \<in> set pre. is_start s \<and> r_id s = run) \<and> \<not> (\<exists>f \<in> set pre. finish_of run f)"
    if run: "run_id_of (r_data r) = Some run" for run
  proof -
    have "map_has (vs_starts vs) run" and fin: "map_of (vs_finishedAt vs) run = Some q \<Longrightarrow> r_seq r \<le> q" for q
      using chk run by (auto simp: validateRunId_def bindE_eq_Inr)
    moreover have "map_of (vs_finishedAt vs) run = None"
    proof (rule ccontr)
      assume "map_of (vs_finishedAt vs) run \<noteq> None"
      then obtain q where q: "map_of (vs_finishedAt vs) run = Some q" by blast
      then obtain f where "f \<in> set pre" "r_seq f = q" using h unfolding history_ok_def by blast
      with fin [OF q] distinct_sorted_after [OF assms(2,3), of f] show False by simp
    qed
    ultimately show ?thesis using h unfolding history_ok_def by blast
  qed
  moreover have "Some (a, i) \<notin> invocation_of ` set pre" if tool: "invocation_of r = Some (a, i)" for a i
  proof
    assume "Some (a, i) \<in> invocation_of ` set pre"
    then obtain x where "x \<in> set pre" "invocation_of x = Some (a, i)" by (metis imageE)
    then have "(a, i) \<in> set (List.map_filter invocation_of pre)"
      by (auto simp: map_filter_def image_iff intro!: bexI [of _ x])
    moreover have "vs_toolInvocations vs = map (\<lambda>(a, i). invocation_key a i) (List.map_filter invocation_of pre)"
      using h by (simp add: history_ok_def)
    ultimately have "invocation_key a i \<in> set (vs_toolInvocations vs)" by force
    with validateRecord_tool(1) [OF vs(2) tool] show False ..
  qed
  ultimately show ?thesis by auto
qed

definition sample_input :: "lane_record list \<Rightarrow> lane_reduction_input" where
  "sample_input rs = \<lparr>sl_lane = ''main'', sl_openOperations = [sample_start], sl_records = rs, sl_entries = [],
     in_leafId = None, in_ownEntries = [], in_configurationEntries = [],
     in_defaults = \<lparr>cfg_model = (''p'', ''m''), cfg_thinkingLevel = ''off'', cfg_activeToolNames = []\<rparr>\<rparr>"

definition sample_record :: "string \<Rightarrow> nat \<Rightarrow> record_data \<Rightarrow> lane_record" where
  "sample_record i q d = \<lparr>r_id = i, r_seq = q, r_lane = ''main'', r_timestamp = 0, r_data = d\<rparr>"

definition sample_records :: "lane_record list" where
  "sample_records = [sample_record ''q'' 5 (QueueEnqueued QueueSteer (Some ''op'') \<lparr>p_id = ''x'', p_data = CustomEntry ''c'' None\<rparr>),
     sample_start]"

lemma sample_records_sorted:
  "bySequence r_seq sample_records = [sample_start] @ sample_records ! 0 # []"
  "distinct (map r_seq sample_records)" "sl_records (sample_input rs) = rs"
  by (simp_all add: bySequence_def sample_records_def sample_start_def sample_record_def sample_input_def)

lemmas sample_reduction = validateRecordLog_def entry_map_of_def map_put_all_def
  validateRecord_def empty_validation_def validateResultEntry_def validateRunId_def
  enqueued_after_abort_def validateExactProvisionedEntry_def bySequence_def

lemma sample_log_valid: "validateRecordLog (=) (record_log_slice.truncate (sample_input sample_records)) = Inr ()"
  by (simp add: sample_reduction sample_records_def sample_start_def sample_record_def sample_input_def
      record_log_slice.truncate_def)

theorem accepted_log_safe_witness:
  "\<exists>s \<in> set [sample_start]. is_start s \<and> r_id s = ''op''"
proof -
  have "run_id_of (r_data (sample_records ! 0)) = Some ''op''" "\<not> is_start (sample_records ! 0)"
    by (simp_all add: sample_records_def sample_record_def is_start_def)
  moreover have "sl_records (record_log_slice.truncate (sample_input sample_records)) = sample_records"
    by (simp add: sample_input_def record_log_slice.truncate_def)
  ultimately show ?thesis
    using accepted_log_safe [OF sample_log_valid, of "[sample_start]" "sample_records ! 0" "[]"] sample_records_sorted
    by auto
qed

lemma bySequence_perm:
  assumes "distinct (map seq xs)" "mset xs = mset ys"
  shows "bySequence seq ys = bySequence seq xs"
  unfolding bySequence_def
proof (rule properties_for_sort_key)
  fix k
  assume "k \<in> set (sort_key seq xs)"
  have inj: "inj_on seq (set xs)" using assms(1) by (simp add: distinct_map)
  have "filter (\<lambda>x. seq k = seq x) zs = [k]" if "distinct zs" "set zs = set xs" for zs
  proof -
    have "set (filter (\<lambda>x. seq k = seq x) zs) = {k}"
      using that(2) \<open>k \<in> set (sort_key seq xs)\<close> inj by (auto simp: inj_on_def)
    moreover have "length (filter (\<lambda>x. seq k = seq x) zs) = card (set (filter (\<lambda>x. seq k = seq x) zs))"
      using that(1) by (intro distinct_card [symmetric]) simp
    ultimately have one: "length (filter (\<lambda>x. seq k = seq x) zs) = Suc 0" "k \<in> set (filter (\<lambda>x. seq k = seq x) zs)"
      by (simp, blast)
    then show ?thesis by (cases "filter (\<lambda>x. seq k = seq x) zs") auto
  qed
  moreover have "distinct xs" using assms(1) by (simp add: distinct_map)
  moreover have "distinct ys" using assms(2) \<open>distinct xs\<close> mset_eq_imp_distinct_iff by blast
  ultimately show "filter (\<lambda>x. seq k = seq x) (sort_key seq xs) = filter (\<lambda>x. seq k = seq x) ys"
    using assms(2) by (metis distinct_sort mset_eq_setD set_sort)
qed (use assms(2) in simp_all)

text \<open>
  the reduction does not depend on the order in which a backend returns the records, as long
  as their sequence numbers are distinct.
\<close>

theorem reduce_order_independent:
  assumes "distinct (map r_seq (sl_records input))" "mset rs = mset (sl_records input)"
  shows "reduceLaneState deep_equal (input\<lparr>sl_records := rs\<rparr>) = reduceLaneState deep_equal input"
proof -
  have "bySequence r_seq rs = bySequence r_seq (sl_records input)"
    using bySequence_perm [OF assms(1), where ys = rs] assms(2) by simp
  moreover have "deriveEffectiveConfiguration (input\<lparr>sl_records := rs\<rparr>) = deriveEffectiveConfiguration input"
    by (simp add: deriveEffectiveConfiguration_def)
  moreover have "validateRecordLog deep_equal (record_log_slice.truncate (input\<lparr>sl_records := rs\<rparr>)) =
      validateRecordLog deep_equal (record_log_slice.truncate input)"
    using calculation(1) by (simp add: validateRecordLog_def record_log_slice.truncate_def)
  ultimately show ?thesis by (simp add: reduceLaneState_def cong: option.case_cong)
qed

theorem reduce_order_independent_witness:
  "reduceLaneState (=) ((sample_input sample_records)\<lparr>sl_records := rev sample_records\<rparr>) =
   reduceLaneState (=) (sample_input sample_records)"
  by (rule reduce_order_independent) (simp_all add: sample_records_sorted)

lemma entry_map_has: "map_has (entry_map_of es) i \<longleftrightarrow> i \<in> e_id ` set es"
proof -
  have "map_of (map (\<lambda>e. (e_id e, e)) (rev es)) i \<noteq> None \<longleftrightarrow> i \<in> e_id ` set es"
    by (induction es rule: rev_induct) (auto simp: map_add_def)
  then show ?thesis by (auto simp: entry_map_of_def map_of_put_all rev_map split: option.splits)
qed

lemma entry_map_None: "map_of (entry_map_of es) i = None \<longleftrightarrow> i \<notin> e_id ` set es"
  using entry_map_has [of es i] by auto

lemma is_pending_iff:
  "is_pending byId cancelled r \<longleftrightarrow>
     (\<exists>q run t. r_data r = QueueEnqueued q run t \<and> map_of byId (p_id t) = None \<and> p_id t \<notin> set cancelled)"
  by (cases "r_data r") (auto simp: is_pending_def)

text \<open>A queued message is outstanding while no entry has its id and no record cancels it.\<close>

definition outstanding :: "lane_reduction_input \<Rightarrow> provisioned_entry \<Rightarrow> bool" where
  "outstanding input t \<longleftrightarrow> p_id t \<notin> e_id ` set (sl_entries input @ in_ownEntries input) \<and>
     \<not> (\<exists>c \<in> set (sl_records input). \<exists>run. r_data c = QueueCancelled run (p_id t))"

definition queued :: "lane_reduction_input \<Rightarrow> queue_kind \<Rightarrow> string option \<Rightarrow> provisioned_entry set" where
  "queued input q run = {t. outstanding input t \<and> (\<exists>r \<in> set (sl_records input). r_data r = QueueEnqueued q run t)}"

lemma cancelled_ids_set: "set (cancelled_ids rs) = {i. \<exists>c \<in> set rs. \<exists>run. r_data c = QueueCancelled run i}"
  by (induction rs) (auto simp: cancelled_ids_def List.map_filter_simps split: record_data.splits option.splits)

lemma queued_targets_set:
  "set (queued_targets keep rs) =
     {t. \<exists>r \<in> set rs. \<exists>q run. r_data r = QueueEnqueued q run t \<and> keep q run (p_id t)}"
  by (induction rs) (auto simp: queued_targets_def List.map_filter_simps split: record_data.splits if_splits option.splits)

lemma pending_queued:
  assumes "rs = bySequence r_seq (sl_records input)" "byId = entry_map_of (sl_entries input @ bySequence e_seq (in_ownEntries input))"
  shows "set (queued_targets (\<lambda>q r i. q = k \<and> r = run) (filter (is_pending byId (cancelled_ids rs)) rs)) = queued input k run"
proof (rule set_eqI)
  fix t
  have "t \<in> set (queued_targets (\<lambda>q r i. q = k \<and> r = run) (filter (is_pending byId (cancelled_ids rs)) rs)) \<longleftrightarrow>
      (\<exists>r \<in> set rs. r_data r = QueueEnqueued k run t \<and> is_pending byId (cancelled_ids rs) r)"
    unfolding queued_targets_set by auto
  also have "\<dots> \<longleftrightarrow> (\<exists>r \<in> set rs. r_data r = QueueEnqueued k run t) \<and> map_of byId (p_id t) = None \<and>
      p_id t \<notin> set (cancelled_ids rs)"
    by (auto simp: is_pending_iff)
  also have "\<dots> \<longleftrightarrow> t \<in> queued input k run"
    by (auto simp: assms queued_def outstanding_def cancelled_ids_set bySequence_sorted(2) entry_map_None)
  finally show "t \<in> set (queued_targets (\<lambda>q r i. q = k \<and> r = run) (filter (is_pending byId (cancelled_ids rs)) rs)) \<longleftrightarrow>
      t \<in> queued input k run" .
qed

lemma is_abort_iff: "is_abort r \<and> belongs_to run r \<longleftrightarrow> r_data r = AbortRequested run"
  by (cases "r_data r") (auto simp: is_abort_def belongs_to_def)

text \<open>
  C24: the reduced state of an open run offers as pending steering and follow-up messages exactly the
  messages enqueued for that run that were neither cancelled nor written, and none at all once an
  abort was requested.
\<close>

theorem pending_messages_exact:
  assumes "reduceLaneState deep_equal input = Inr res" "ls_operation (lr_laneState res) = Some op"
  shows "set (op_pendingSteer op) = (if op_aborting op then {} else queued input QueueSteer (Some (op_id op))) \<and>
    set (op_pendingFollowUp op) = (if op_aborting op then {} else queued input QueueFollowUp (Some (op_id op))) \<and>
    (op_aborting op \<longleftrightarrow> (\<exists>r \<in> set (sl_records input). r_data r = AbortRequested (op_id op)))"
proof -
  let ?rs = "bySequence r_seq (sl_records input)"
  let ?byId = "entry_map_of (sl_entries input @ bySequence e_seq (in_ownEntries input))"
  obtain r it where op: "op = derive_operation r it ?byId (filter (belongs_to (r_id r)) ?rs)
      (bySequence e_seq (in_ownEntries input)) (filter (is_pending ?byId (cancelled_ids ?rs)) ?rs)"
    using assms by (auto simp: reduceLaneState_def Let_def bindE_eq_Inr split: option.splits)
  have "list_ex is_abort (filter (belongs_to (r_id r)) ?rs) \<longleftrightarrow>
      (\<exists>x \<in> set (sl_records input). r_data x = AbortRequested (r_id r))"
    using is_abort_iff by (auto simp: list_ex_iff bySequence_sorted(2))
  then show ?thesis
    using op pending_queued [OF refl refl, where input = input] by (auto simp: derive_operation_def Let_def)
qed

theorem pending_messages_exact_witness:
  "\<exists>res op. reduceLaneState (=) (sample_input sample_records) = Inr res \<and> ls_operation (lr_laneState res) = Some op \<and>
     \<not> op_aborting op \<and> set (op_pendingSteer op) = queued (sample_input sample_records) QueueSteer (Some ''op'')"
proof -
  obtain res where res: "reduceLaneState (=) (sample_input sample_records) = Inr res"
    and "\<exists>op. ls_operation (lr_laneState res) = Some op \<and> op_id op = ''op''"
    using sample_log_valid
    by (simp add: reduceLaneState_def Let_def sample_input_def sample_start_def derive_operation_def)
  then obtain op where op: "ls_operation (lr_laneState res) = Some op" "op_id op = ''op''" by blast
  have "\<not> (\<exists>r \<in> set (sl_records (sample_input sample_records)). r_data r = AbortRequested ''op'')"
    by (simp add: sample_input_def sample_records_def sample_record_def sample_start_def)
  with pending_messages_exact [OF res op(1)] op res show ?thesis by auto
qed

end
