(* ===== verification/Compaction.thy ===== *)
theory Compaction
  imports Session_Context "HOL-Library.List_Lexorder" "HOL-Library.Char_ord"
begin

text \<open>
  Compaction of a session branch (packages/agent/src/harness/compaction/compaction.ts and utils.ts):
  token estimates, the cut point, what is summarized, what is kept, the file lists, and the request and
  assembly of the summary. \<open>json_length\<close> is the length of the JSON text of a value; the provider that
  writes a summary is an argument. Usage of the summary requests and the text of the conversation in
  the prompt are left out.
\<close>

section \<open>Settings and token estimates\<close>

record compaction_settings =
  st_enabled :: bool
  st_reserveTokens :: nat
  st_keepRecentTokens :: nat

definition DEFAULT_COMPACTION_SETTINGS :: compaction_settings where
  "DEFAULT_COMPACTION_SETTINGS = \<lparr>st_enabled = True, st_reserveTokens = 16384, st_keepRecentTokens = 20000\<rparr>"

definition calculateContextTokens :: "usage \<Rightarrow> int" where
  "calculateContextTokens u =
     (if u_totalTokens u \<noteq> 0 then u_totalTokens u else u_input u + u_output u + u_cacheRead u + u_cacheWrite u)"

definition getAssistantUsage :: "agent_message \<Rightarrow> usage option" where
  "getAssistantUsage msg =
     (case msg of
        AssistantMessage m \<Rightarrow>
          if am_stopReason m \<noteq> StopAborted \<and> am_stopReason m \<noteq> StopError \<and> calculateContextTokens (am_usage m) > 0
          then Some (am_usage m) else None
      | _ \<Rightarrow> None)"

fun last_usage :: "agent_message list \<Rightarrow> nat \<Rightarrow> (usage \<times> nat) option" where
  "last_usage ms 0 = None"
| "last_usage ms (Suc i) = (case getAssistantUsage (ms ! i) of Some u \<Rightarrow> Some (u, i) | None \<Rightarrow> last_usage ms i)"

definition getLastAssistantUsageInfo :: "agent_message list \<Rightarrow> (usage \<times> nat) option" where
  "getLastAssistantUsageInfo ms = last_usage ms (length ms)"

definition getLastAssistantUsage :: "entry list \<Rightarrow> usage option" where
  "getLastAssistantUsage es =
     (case List.map_filter (\<lambda>e. case e_data e of MessageEntry m t \<Rightarrow> getAssistantUsage m | _ \<Rightarrow> None) (rev es) of
        [] \<Rightarrow> None
      | u # _ \<Rightarrow> Some u)"

definition ESTIMATED_IMAGE_CHARS :: nat where
  "ESTIMATED_IMAGE_CHARS = 4800"

definition block_chars :: "jsval \<Rightarrow> nat" where
  "block_chars b =
     (case b of
        JObj pr sy ps \<Rightarrow>
          (case (map_of ps (js_of ''type''), map_of ps (js_of ''text'')) of
             (Some (JStr ty), text) \<Rightarrow>
               (case text of
                  Some (JStr t) \<Rightarrow> if ty = js_of ''text'' \<and> t \<noteq> [] then length t else if ty = js_of ''image'' then ESTIMATED_IMAGE_CHARS else 0
                | _ \<Rightarrow> if ty = js_of ''image'' then ESTIMATED_IMAGE_CHARS else 0)
           | _ \<Rightarrow> 0)
      | _ \<Rightarrow> 0)"

definition estimateTextAndImageContentChars :: "jsval \<Rightarrow> nat" where
  "estimateTextAndImageContentChars content =
     (case content of
        JStr s \<Rightarrow> length s
      | JArr slots \<Rightarrow> sum_list (map (\<lambda>b. case b of Some x \<Rightarrow> block_chars x | None \<Rightarrow> 0) slots)
      | _ \<Rightarrow> 0)"

definition part_chars :: "(jsval \<Rightarrow> nat) \<Rightarrow> assistant_content \<Rightarrow> nat" where
  "part_chars json_length p =
     (case p of
        TextPart t r \<Rightarrow> length t
      | ThinkingPart t r \<Rightarrow> length t
      | ToolCallPart c \<Rightarrow> length (tc_name c) + json_length (tc_arguments c))"

definition quarter_up :: "nat \<Rightarrow> nat" where
  "quarter_up chars = (chars + 3) div 4"

fun estimateTokens :: "(jsval \<Rightarrow> nat) \<Rightarrow> agent_message \<Rightarrow> nat" where
  "estimateTokens jl (UserMessage c t) = quarter_up (estimateTextAndImageContentChars c)"
| "estimateTokens jl (AssistantMessage m) = quarter_up (sum_list (map (part_chars jl) (am_content m)))"
| "estimateTokens jl (CustomMessage ct c d de t) = quarter_up (estimateTextAndImageContentChars c)"
| "estimateTokens jl (ToolResultMessage i n c e t r) = quarter_up (estimateTextAndImageContentChars c)"
| "estimateTokens jl (BashExecutionMessage cmd out x ca tr p t ex) = quarter_up (length cmd + length out)"
| "estimateTokens jl (BranchSummaryMessage s f t) = quarter_up (length s)"
| "estimateTokens jl (CompactionSummaryMessage s n t) = quarter_up (length s)"

record usage_estimate =
  ue_tokens :: int
  ue_usageTokens :: int
  ue_trailingTokens :: int
  ue_lastUsageIndex :: "nat option"

definition estimateContextTokens :: "(jsval \<Rightarrow> nat) \<Rightarrow> agent_message list \<Rightarrow> usage_estimate" where
  "estimateContextTokens jl ms =
     (case getLastAssistantUsageInfo ms of
        None \<Rightarrow>
          (let n = int (sum_list (map (estimateTokens jl) ms)) in
           \<lparr>ue_tokens = n, ue_usageTokens = 0, ue_trailingTokens = n, ue_lastUsageIndex = None\<rparr>)
      | Some (u, i) \<Rightarrow>
          (let trailing = int (sum_list (map (estimateTokens jl) (drop (i + 1) ms))) in
           \<lparr>ue_tokens = calculateContextTokens u + trailing, ue_usageTokens = calculateContextTokens u,
             ue_trailingTokens = trailing, ue_lastUsageIndex = Some i\<rparr>))"

definition shouldCompact :: "int \<Rightarrow> int \<Rightarrow> compaction_settings \<Rightarrow> bool" where
  "shouldCompact contextTokens contextWindow settings \<longleftrightarrow>
     st_enabled settings \<and> contextTokens > contextWindow - int (st_reserveTokens settings)"

section \<open>The cut point\<close>

definition is_cut_entry :: "entry \<Rightarrow> bool" where
  "is_cut_entry e =
     (case e_data e of
        MessageEntry m t \<Rightarrow> role_of m \<noteq> RoleToolResult
      | BranchSummaryEntry f s d u \<Rightarrow> True
      | _ \<Rightarrow> False)"

definition findValidCutPoints :: "entry list \<Rightarrow> nat \<Rightarrow> nat \<Rightarrow> nat list" where
  "findValidCutPoints es startIndex endIndex = filter (\<lambda>i. is_cut_entry (es ! i)) [startIndex..<endIndex]"

definition starts_turn :: "entry \<Rightarrow> bool" where
  "starts_turn e =
     (case e_data e of
        BranchSummaryEntry f s d u \<Rightarrow> True
      | MessageEntry m t \<Rightarrow> role_of m = RoleUser \<or> role_of m = RoleBashExecution
      | _ \<Rightarrow> False)"

text \<open>\<open>turn_start es n startIndex\<close> looks at the entries below index \<open>n\<close>, from the last down to \<open>startIndex\<close>.\<close>

fun turn_start :: "entry list \<Rightarrow> nat \<Rightarrow> nat \<Rightarrow> nat option" where
  "turn_start es 0 startIndex = None"
| "turn_start es (Suc i) startIndex =
     (if i < startIndex then None else if starts_turn (es ! i) then Some i else turn_start es i startIndex)"

definition findTurnStartIndex :: "entry list \<Rightarrow> nat \<Rightarrow> nat \<Rightarrow> nat option" where
  "findTurnStartIndex es entryIndex startIndex = turn_start es (Suc entryIndex) startIndex"

definition entry_tokens :: "(jsval \<Rightarrow> nat) \<Rightarrow> entry \<Rightarrow> nat option" where
  "entry_tokens jl e = (case e_data e of MessageEntry m t \<Rightarrow> Some (estimateTokens jl m) | _ \<Rightarrow> None)"

text \<open>The index at which the tokens counted from the end reach the budget.\<close>

fun budget_index :: "(jsval \<Rightarrow> nat) \<Rightarrow> entry list \<Rightarrow> nat \<Rightarrow> nat \<Rightarrow> nat \<Rightarrow> nat \<Rightarrow> nat option" where
  "budget_index jl es startIndex keep acc 0 = None"
| "budget_index jl es startIndex keep acc (Suc i) =
     (if i < startIndex then None
      else case entry_tokens jl (es ! i) of
        None \<Rightarrow> budget_index jl es startIndex keep acc i
      | Some n \<Rightarrow> if acc + n \<ge> keep then Some i else budget_index jl es startIndex keep (acc + n) i)"

fun walk_back :: "entry list \<Rightarrow> nat \<Rightarrow> nat \<Rightarrow> nat" where
  "walk_back es startIndex 0 = 0"
| "walk_back es startIndex (Suc i) =
     (if Suc i > startIndex \<and> e_type (es ! i) \<noteq> TypeCompaction \<and> e_type (es ! i) \<noteq> TypeMessage
      then walk_back es startIndex i else Suc i)"

record cut_point =
  cp_firstKept :: nat
  cp_turnStart :: "nat option"
  cp_isSplitTurn :: bool

definition findCutPoint :: "(jsval \<Rightarrow> nat) \<Rightarrow> entry list \<Rightarrow> nat \<Rightarrow> nat \<Rightarrow> nat \<Rightarrow> cut_point" where
  "findCutPoint jl es startIndex endIndex keepRecentTokens =
     (case findValidCutPoints es startIndex endIndex of
        [] \<Rightarrow> \<lparr>cp_firstKept = startIndex, cp_turnStart = None, cp_isSplitTurn = False\<rparr>
      | first # rest \<Rightarrow>
          (let cut = (case budget_index jl es startIndex keepRecentTokens 0 endIndex of
                  None \<Rightarrow> first
                | Some i \<Rightarrow> (case find (\<lambda>c. c \<ge> i) (first # rest) of None \<Rightarrow> first | Some c \<Rightarrow> c));
               cutIndex = walk_back es startIndex cut;
               isUserMessage = (case e_data (es ! cutIndex) of MessageEntry m t \<Rightarrow> role_of m = RoleUser | _ \<Rightarrow> False);
               turnStartIndex = (if isUserMessage then None else findTurnStartIndex es cutIndex startIndex) in
           \<lparr>cp_firstKept = cutIndex, cp_turnStart = turnStartIndex, cp_isSplitTurn = (\<not> isUserMessage \<and> turnStartIndex \<noteq> None)\<rparr>))"

section \<open>File operations\<close>

record file_ops =
  fo_read :: "jsstr list"
  fo_written :: "jsstr list"
  fo_edited :: "jsstr list"

definition createFileOps :: file_ops where
  "createFileOps = \<lparr>fo_read = [], fo_written = [], fo_edited = []\<rparr>"

definition set_add :: "'a \<Rightarrow> 'a list \<Rightarrow> 'a list" where
  "set_add x xs = (if x \<in> set xs then xs else xs @ [x])"

text \<open>\<open>path_of\<close>: the \<open>path\<close> argument of a tool call, when it is a non-empty string.\<close>

definition path_of :: "jsval \<Rightarrow> jsstr option" where
  "path_of args =
     (case args of
        JObj pr sy ps \<Rightarrow> (case map_of ps (js_of ''path'') of
            Some (JStr t) \<Rightarrow> if t = [] then None else Some t
          | _ \<Rightarrow> None)
      | _ \<Rightarrow> None)"

definition add_call :: "tool_call \<Rightarrow> file_ops \<Rightarrow> file_ops" where
  "add_call c fo =
     (case path_of (tc_arguments c) of
        None \<Rightarrow> fo
      | Some path \<Rightarrow>
          if tc_name c = ''read'' then fo\<lparr>fo_read := set_add path (fo_read fo)\<rparr>
          else if tc_name c = ''write'' then fo\<lparr>fo_written := set_add path (fo_written fo)\<rparr>
          else if tc_name c = ''edit'' then fo\<lparr>fo_edited := set_add path (fo_edited fo)\<rparr>
          else fo)"

definition extractFileOpsFromMessage :: "agent_message \<Rightarrow> file_ops \<Rightarrow> file_ops" where
  "extractFileOpsFromMessage msg fo =
     (case msg of
        AssistantMessage m \<Rightarrow> fold (\<lambda>b f. case b of ToolCallPart c \<Rightarrow> add_call c f | _ \<Rightarrow> f) (am_content m) fo
      | _ \<Rightarrow> fo)"

definition computeFileLists :: "file_ops \<Rightarrow> jsstr list \<times> jsstr list" where
  "computeFileLists fo =
     (let modified = remdups (fo_edited fo @ fo_written fo) in
      (sort (filter (\<lambda>f. f \<notin> set modified) (fo_read fo)), sort modified))"

definition join_with :: "jsstr \<Rightarrow> jsstr list \<Rightarrow> jsstr" where
  "join_with sep xs = (case xs of [] \<Rightarrow> [] | x # rest \<Rightarrow> x @ concat (map (\<lambda>y. sep @ y) rest))"

definition nl :: jsstr where
  "nl = js_of newline"

definition formatFileOperations :: "jsstr list \<Rightarrow> jsstr list \<Rightarrow> jsstr" where
  "formatFileOperations readFiles modifiedFiles =
     (let sections =
        (if readFiles \<noteq> [] then [js_of ''<read-files>'' @ nl @ join_with nl readFiles @ nl @ js_of ''</read-files>''] else []) @
        (if modifiedFiles \<noteq> [] then [js_of ''<modified-files>'' @ nl @ join_with nl modifiedFiles @ nl @ js_of ''</modified-files>''] else []) in
      if sections = [] then [] else nl @ nl @ join_with (nl @ nl) sections)"

section \<open>Preparing a compaction\<close>

definition getMessageFromEntry :: "entry \<Rightarrow> agent_message option" where
  "getMessageFromEntry e =
     (case e_data e of
        MessageEntry m t \<Rightarrow> Some m
      | BranchSummaryEntry fromId summary d u \<Rightarrow> Some (createBranchSummaryMessage summary fromId (e_timestamp e))
      | CompactionEntry summary tail tokensBefore d u \<Rightarrow> Some (createCompactionSummaryMessage summary tokensBefore (e_timestamp e))
      | _ \<Rightarrow> None)"

definition getMessageFromEntryForCompaction :: "entry \<Rightarrow> agent_message option" where
  "getMessageFromEntryForCompaction e = (if e_type e = TypeCompaction then None else getMessageFromEntry e)"

text \<open>The strings of an array property of the details of an earlier compaction.\<close>

definition detail_files :: "string \<Rightarrow> jsval \<Rightarrow> jsstr list" where
  "detail_files key details =
     (case details of
        JObj pr sy ps \<Rightarrow> (case map_of ps (js_of key) of
            Some (JArr slots) \<Rightarrow> List.map_filter (\<lambda>b. case b of Some (JStr t) \<Rightarrow> Some t | _ \<Rightarrow> None) slots
          | _ \<Rightarrow> [])
      | _ \<Rightarrow> [])"

definition previous_files :: "entry_data \<Rightarrow> file_ops" where
  "previous_files d =
     (case d of
        CompactionEntry s tail n (Some details) u \<Rightarrow>
          createFileOps\<lparr>fo_read := fold set_add (detail_files ''readFiles'' details) [],
            fo_edited := fold set_add (detail_files ''modifiedFiles'' details) []\<rparr>
      | _ \<Rightarrow> createFileOps)"

definition extractFileOperations :: "agent_message list \<Rightarrow> entry list \<Rightarrow> nat option \<Rightarrow> file_ops" where
  "extractFileOperations ms es prevCompactionIndex =
     fold extractFileOpsFromMessage ms
       (case prevCompactionIndex of None \<Rightarrow> createFileOps | Some i \<Rightarrow> previous_files (e_data (es ! i)))"

fun message_timestamp :: "agent_message \<Rightarrow> int" where
  "message_timestamp (UserMessage c t) = t"
| "message_timestamp (AssistantMessage m) = am_timestamp m"
| "message_timestamp (ToolResultMessage i n c e t r) = t"
| "message_timestamp (BashExecutionMessage cmd out x ca tr p t ex) = t"
| "message_timestamp (CustomMessage ct c d de t) = t"
| "message_timestamp (BranchSummaryMessage s f t) = t"
| "message_timestamp (CompactionSummaryMessage s n t) = t"

definition retained_id :: "string \<Rightarrow> nat \<Rightarrow> string" where
  "retained_id i n = i @ '':retained:'' @ show_nat n"

definition virtual_entries :: "entry \<Rightarrow> agent_message list \<Rightarrow> entry list" where
  "virtual_entries c tail =
     map (\<lambda>(index, m). \<lparr>e_id = retained_id (e_id c) index, e_seq = e_seq c,
         e_parentId = Some (if index = 0 then e_id c else retained_id (e_id c) (index - 1)),
         e_timestamp = message_timestamp m, e_data = MessageEntry m False\<rparr>)
       (zip [0..<length tail] tail)"

record preparation =
  pr_messagesToSummarize :: "agent_message list"
  pr_turnPrefixMessages :: "agent_message list"
  pr_retainedTail :: "agent_message list"
  pr_isSplitTurn :: bool
  pr_tokensBefore :: int
  pr_previousSummary :: "string option"
  pr_fileOps :: file_ops
  pr_settings :: compaction_settings

definition messages_between :: "entry list \<Rightarrow> nat \<Rightarrow> nat \<Rightarrow> agent_message list" where
  "messages_between es i j = List.map_filter (\<lambda>k. getMessageFromEntryForCompaction (es ! k)) [i..<j]"

definition compactable_entries :: "entry list \<Rightarrow> nat option \<Rightarrow> entry list" where
  "compactable_entries pathEntries prevCompactionIndex =
     (case prevCompactionIndex of
        None \<Rightarrow> pathEntries
      | Some i \<Rightarrow> (case e_data (pathEntries ! i) of
          CompactionEntry s tail n d u \<Rightarrow> virtual_entries (pathEntries ! i) tail @ drop (i + 1) pathEntries
        | _ \<Rightarrow> pathEntries))"

definition prepareCompaction :: "(jsval \<Rightarrow> nat) \<Rightarrow> entry list \<Rightarrow> compaction_settings \<Rightarrow> preparation option" where
  "prepareCompaction jl pathEntries settings =
     (if pathEntries = [] \<or> e_type (last pathEntries) = TypeCompaction then None
      else
        (let prevCompactionIndex = newest_compaction pathEntries (length pathEntries);
             previousSummary = (case prevCompactionIndex of None \<Rightarrow> None
               | Some i \<Rightarrow> (case e_data (pathEntries ! i) of CompactionEntry s tail n d u \<Rightarrow> Some s | _ \<Rightarrow> None));
             compactableEntries = compactable_entries pathEntries prevCompactionIndex;
             boundaryEnd = length compactableEntries;
             tokensBefore = ue_tokens (estimateContextTokens jl (messages (buildSessionContext pathEntries no_context_options)));
             cutPoint = findCutPoint jl compactableEntries 0 boundaryEnd (st_keepRecentTokens settings);
             historyEnd = (case cp_turnStart cutPoint of Some t \<Rightarrow> if cp_isSplitTurn cutPoint then t else cp_firstKept cutPoint
               | None \<Rightarrow> cp_firstKept cutPoint);
             messagesToSummarize = messages_between compactableEntries 0 historyEnd;
             turnPrefixMessages = (if cp_isSplitTurn cutPoint then messages_between compactableEntries historyEnd (cp_firstKept cutPoint) else []);
             retainedTail = messages_between compactableEntries (cp_firstKept cutPoint) boundaryEnd;
             fileOps = extractFileOperations messagesToSummarize pathEntries prevCompactionIndex in
         Some \<lparr>pr_messagesToSummarize = messagesToSummarize, pr_turnPrefixMessages = turnPrefixMessages, pr_retainedTail = retainedTail,
           pr_isSplitTurn = cp_isSplitTurn cutPoint, pr_tokensBefore = tokensBefore, pr_previousSummary = previousSummary,
           pr_fileOps = (if cp_isSplitTurn cutPoint then fold extractFileOpsFromMessage turnPrefixMessages fileOps else fileOps),
           pr_settings = settings\<rparr>))"

section \<open>Writing the summary\<close>

text \<open>
  A request for a summary: which of the three prompts it carries, the messages of the conversation, and
  its limits. \<open>4 n div 5\<close> is \<open>Math.floor(0.8 * n)\<close> and \<open>n div 2\<close> is \<open>Math.floor(0.5 * n)\<close>.
\<close>

datatype prompt_kind = SummarizationPrompt | UpdateSummarizationPrompt | TurnPrefixPrompt

record summary_request =
  sq_prompt :: prompt_kind
  sq_messages :: "agent_message list"
  sq_previousSummary :: "string option"
  sq_instructions :: "string option"
  sq_maxTokens :: nat
  sq_reasoning :: "string option"

record summary_model =
  mo_maxTokens :: nat
  mo_reasoning :: bool

datatype compaction_error = CompactionAborted string | SummarizationFailed string

definition contentText :: "assistant_content list \<Rightarrow> jsstr" where
  "contentText content =
     join_with nl (List.map_filter (\<lambda>b. case b of TextPart t r \<Rightarrow> Some (js_of t) | _ \<Rightarrow> None) content)"

definition non_empty :: "string option \<Rightarrow> string option" where
  "non_empty x = (case x of Some (c # cs) \<Rightarrow> Some (c # cs) | _ \<Rightarrow> None)"

definition text_or :: "string option \<Rightarrow> string \<Rightarrow> string" where
  "text_or x d = (case non_empty x of Some t \<Rightarrow> t | None \<Rightarrow> d)"

definition reasoning_level :: "summary_model \<Rightarrow> string option \<Rightarrow> string option" where
  "reasoning_level mo level = (case non_empty level of Some l \<Rightarrow> if mo_reasoning mo \<and> l \<noteq> ''off'' then Some l else None | None \<Rightarrow> None)"

definition max_tokens :: "nat \<Rightarrow> summary_model \<Rightarrow> nat" where
  "max_tokens limit mo = (if mo_maxTokens mo > 0 then min limit (mo_maxTokens mo) else limit)"

definition summary_result :: "string \<Rightarrow> assistant_message \<Rightarrow> compaction_error + jsstr" where
  "summary_result what response =
     (if am_stopReason response = StopAborted then Inl (CompactionAborted (text_or (am_errorMessage response) (what @ '' aborted'')))
      else if am_stopReason response = StopError
      then Inl (SummarizationFailed (what @ '' failed: '' @ text_or (am_errorMessage response) ''Unknown error''))
      else Inr (contentText (am_content response)))"

definition generateSummary ::
  "(summary_request \<Rightarrow> assistant_message) \<Rightarrow> summary_model \<Rightarrow> agent_message list \<Rightarrow> nat \<Rightarrow> string option \<Rightarrow> string option \<Rightarrow> string option
    \<Rightarrow> compaction_error + jsstr" where
  "generateSummary complete mo currentMessages reserveTokens customInstructions previousSummary level =
     summary_result ''Summarization'' (complete
       \<lparr>sq_prompt = (if non_empty previousSummary \<noteq> None then UpdateSummarizationPrompt else SummarizationPrompt),
         sq_messages = convertToLlm currentMessages, sq_previousSummary = non_empty previousSummary,
         sq_instructions = non_empty customInstructions, sq_maxTokens = max_tokens (4 * reserveTokens div 5) mo,
         sq_reasoning = reasoning_level mo level\<rparr>)"

definition generateTurnPrefixSummary ::
  "(summary_request \<Rightarrow> assistant_message) \<Rightarrow> summary_model \<Rightarrow> agent_message list \<Rightarrow> nat \<Rightarrow> string option \<Rightarrow> compaction_error + jsstr" where
  "generateTurnPrefixSummary complete mo ms reserveTokens level =
     summary_result ''Turn prefix summarization'' (complete
       \<lparr>sq_prompt = TurnPrefixPrompt, sq_messages = convertToLlm ms, sq_previousSummary = None, sq_instructions = None,
         sq_maxTokens = max_tokens (reserveTokens div 2) mo, sq_reasoning = reasoning_level mo level\<rparr>)"

record compact_result =
  co_summary :: jsstr
  co_tokensBefore :: int
  co_retainedTail :: "agent_message list"
  co_readFiles :: "jsstr list"
  co_modifiedFiles :: "jsstr list"

definition summary_text ::
  "(summary_request \<Rightarrow> assistant_message) \<Rightarrow> summary_model \<Rightarrow> string option \<Rightarrow> string option \<Rightarrow> preparation \<Rightarrow> compaction_error + jsstr" where
  "summary_text complete mo customInstructions level p =
     (let history = generateSummary complete mo (pr_messagesToSummarize p) (st_reserveTokens (pr_settings p)) customInstructions
            (pr_previousSummary p) level in
      if pr_isSplitTurn p \<and> pr_turnPrefixMessages p \<noteq> [] then
        bindE (if pr_messagesToSummarize p \<noteq> [] then history else Inr (js_of ''No prior history.'')) (\<lambda>historyText.
        bindE (generateTurnPrefixSummary complete mo (pr_turnPrefixMessages p) (st_reserveTokens (pr_settings p)) level) (\<lambda>prefixText.
        Inr (historyText @ nl @ nl @ js_of ''---'' @ nl @ nl @ js_of ''**Turn Context (split turn):**'' @ nl @ nl @ prefixText)))
      else history)"

definition compact ::
  "(summary_request \<Rightarrow> assistant_message) \<Rightarrow> summary_model \<Rightarrow> string option \<Rightarrow> string option \<Rightarrow> preparation \<Rightarrow> compaction_error + compact_result" where
  "compact complete mo customInstructions level p =
     bindE (summary_text complete mo customInstructions level p) (\<lambda>summary.
     let (readFiles, modifiedFiles) = computeFileLists (pr_fileOps p) in
     Inr \<lparr>co_summary = summary @ formatFileOperations readFiles modifiedFiles, co_tokensBefore = pr_tokensBefore p,
       co_retainedTail = pr_retainedTail p, co_readFiles = readFiles, co_modifiedFiles = modifiedFiles\<rparr>)"

section \<open>The cut\<close>

lemma walk_back_le: "walk_back es k c \<le> c"
  by (induction c) auto

lemma walk_back_skips: "walk_back es k c \<le> i \<Longrightarrow> i < c \<Longrightarrow> e_type (es ! i) \<noteq> TypeMessage \<and> e_type (es ! i) \<noteq> TypeCompaction"
  by (induction c) (auto simp: less_Suc_eq split: if_splits)

lemma turn_start_less: "turn_start es n k = Some t \<Longrightarrow> t < n"
  by (induction n) (auto split: if_splits)

lemma cut_point_turn:
  assumes "cp_turnStart (findCutPoint jl es k n keep) = Some t"
  shows "t \<le> cp_firstKept (findCutPoint jl es k n keep)"
  using assms by (auto simp: findCutPoint_def findTurnStartIndex_def Let_def split: list.splits if_splits dest!: turn_start_less)

lemma split_has_turn:
  assumes "cp_isSplitTurn (findCutPoint jl es k n keep)"
  obtains t where "cp_turnStart (findCutPoint jl es k n keep) = Some t"
  using assms by (cases "findValidCutPoints es k n") (auto simp: findCutPoint_def Let_def)

lemma cut_points_mem: "c \<in> set (findValidCutPoints es k n) \<longleftrightarrow> k \<le> c \<and> c < n \<and> is_cut_entry (es ! c)"
  by (auto simp: findValidCutPoints_def)

text \<open>The index chosen before walking back is a valid cut point.\<close>

definition chosen_cut :: "(jsval \<Rightarrow> nat) \<Rightarrow> entry list \<Rightarrow> nat \<Rightarrow> nat \<Rightarrow> nat" where
  "chosen_cut jl es n keep =
     (let cuts = findValidCutPoints es 0 n in
      case budget_index jl es 0 keep 0 n of
        None \<Rightarrow> hd cuts
      | Some i \<Rightarrow> (case find (\<lambda>c. c \<ge> i) cuts of None \<Rightarrow> hd cuts | Some c \<Rightarrow> c))"

lemma find_mem: "find P xs = Some x \<Longrightarrow> x \<in> set xs \<and> P x"
  by (auto simp: find_Some_iff in_set_conv_nth)

lemma first_kept:
  assumes "findValidCutPoints es 0 n \<noteq> []"
  shows "cp_firstKept (findCutPoint jl es 0 n keep) = walk_back es 0 (chosen_cut jl es n keep)"
    and "chosen_cut jl es n keep \<in> set (findValidCutPoints es 0 n)"
proof -
  obtain c cs where c: "findValidCutPoints es 0 n = c # cs" using assms by (cases "findValidCutPoints es 0 n") auto
  then show "cp_firstKept (findCutPoint jl es 0 n keep) = walk_back es 0 (chosen_cut jl es n keep)"
    by (auto simp: findCutPoint_def chosen_cut_def Let_def split: option.split)
  show "chosen_cut jl es n keep \<in> set (findValidCutPoints es 0 n)"
    by (auto simp: chosen_cut_def Let_def c dest: find_mem split: option.splits)
qed

lemma first_kept_le: "cp_firstKept (findCutPoint jl es 0 n keep) \<le> n"
proof (cases "findValidCutPoints es 0 n = []")
  case False
  show ?thesis
    using first_kept [OF False, of jl keep] walk_back_le [of es 0 "chosen_cut jl es n keep"] by (simp add: cut_points_mem)
qed (simp add: findCutPoint_def)

lemma messages_between_append: "i \<le> j \<Longrightarrow> j \<le> k \<Longrightarrow> messages_between es i j @ messages_between es j k = messages_between es i k"
proof -
  assume "i \<le> j" "j \<le> k"
  then have "[i..<k] = [i..<j] @ [j..<k]" by (metis le_Suc_ex upt_add_eq_append)
  then show ?thesis by (simp add: messages_between_def List.map_filter_def)
qed

section \<open>What compaction keeps\<close>

text \<open>
  Entries that appear in the context as the message compaction takes from them: every entry but a
  deferred answer and an empty branch summary, which the context leaves out.
\<close>

definition plainly_shown :: "entry \<Rightarrow> bool" where
  "plainly_shown e \<longleftrightarrow>
     (case e_data e of
        MessageEntry m t \<Rightarrow> (case m of AssistantMessage a \<Rightarrow> am_stopReason a \<noteq> StopDeferred | _ \<Rightarrow> True)
      | BranchSummaryEntry f s d u \<Rightarrow> s \<noteq> []
      | _ \<Rightarrow> True)"

definition entry_messages :: "entry list \<Rightarrow> agent_message list" where
  "entry_messages es = List.map_filter getMessageFromEntryForCompaction es"

lemma map_filter_map: "List.map_filter f (map g xs) = List.map_filter (\<lambda>x. f (g x)) xs"
  by (induction xs) (simp_all add: List.map_filter_simps split: option.split)

lemma messages_between_all: "messages_between es 0 (length es) = entry_messages es"
proof -
  have "entry_messages es = entry_messages (map ((!) es) [0..<length es])" by (simp add: map_nth)
  then show ?thesis by (simp add: messages_between_def entry_messages_def map_filter_map)
qed

lemma shown_entry:
  assumes "plainly_shown e" and "e_type e \<noteq> TypeCompaction"
  shows "sessionEntryToContextMessages e i es no_context_options = (case getMessageFromEntryForCompaction e of None \<Rightarrow> [] | Some m \<Rightarrow> [m])"
  using assms
  by (auto simp: sessionEntryToContextMessages_def getMessageFromEntryForCompaction_def getMessageFromEntry_def plainly_shown_def
      no_context_options_def split: entry_data.splits agent_message.splits)

lemma shown_entries:
  assumes "\<And>e. e \<in> set es \<Longrightarrow> plainly_shown e \<and> e_type e \<noteq> TypeCompaction" and "length js = length es"
  shows "concat (map (\<lambda>(i, e). sessionEntryToContextMessages e i xs no_context_options) (zip js es)) = entry_messages es"
  using assms
proof (induction es arbitrary: js)
  case (Cons e es)
  then obtain j js' where js: "js = j # js'" by (cases js) auto
  have "sessionEntryToContextMessages e j xs no_context_options = (case getMessageFromEntryForCompaction e of None \<Rightarrow> [] | Some m \<Rightarrow> [m])"
    using Cons.prems(1) [of e] by (intro shown_entry) auto
  moreover have "concat (map (\<lambda>(i, e). sessionEntryToContextMessages e i xs no_context_options) (zip js' es)) = entry_messages es"
    using Cons js by auto
  ultimately show ?case by (auto simp: js entry_messages_def List.map_filter_simps split: option.splits)
qed (simp add: entry_messages_def List.map_filter_simps)

lemma map_filter_zip:
  assumes "\<And>j m. e_data (g j m) = MessageEntry m False" and "length js = length ms"
  shows "List.map_filter getMessageFromEntryForCompaction (map (\<lambda>(j, m). g j m) (zip js ms)) = ms"
  using assms(2) by (induction js ms rule: list_induct2)
    (simp_all add: List.map_filter_simps getMessageFromEntryForCompaction_def getMessageFromEntry_def assms(1))

lemma virtual_entry_messages: "entry_messages (virtual_entries c tail @ es) = tail @ entry_messages es"
proof -
  have "entry_messages (virtual_entries c tail) = tail"
    unfolding entry_messages_def virtual_entries_def by (rule map_filter_zip) simp_all
  then show ?thesis by (simp add: entry_messages_def List.map_filter_def)
qed

lemma prepared_messages:
  assumes "prepareCompaction jl path settings = Some p"
  shows "pr_messagesToSummarize p @ pr_turnPrefixMessages p @ pr_retainedTail p =
    entry_messages (compactable_entries path (newest_compaction path (length path)))"
proof -
  let ?es = "compactable_entries path (newest_compaction path (length path))"
  let ?cp = "findCutPoint jl ?es 0 (length ?es) (st_keepRecentTokens settings)"
  have le: "cp_firstKept ?cp \<le> length ?es" by (rule first_kept_le)
  show ?thesis
  proof (cases "cp_isSplitTurn ?cp")
    case True
    then obtain t where t: "cp_turnStart ?cp = Some t" by (rule split_has_turn)
    have le': "t \<le> cp_firstKept ?cp" by (rule cut_point_turn [OF t])
    have "pr_messagesToSummarize p = messages_between ?es 0 t" "pr_turnPrefixMessages p = messages_between ?es t (cp_firstKept ?cp)"
      "pr_retainedTail p = messages_between ?es (cp_firstKept ?cp) (length ?es)"
      using assms True t by (auto simp: prepareCompaction_def Let_def split: if_splits)
    then show ?thesis
      using messages_between_append [OF le' le, of ?es] messages_between_append [of 0 t "length ?es" ?es] le le'
      by (simp add: messages_between_all)
  next
    case False
    with assms le messages_between_append [of 0 "cp_firstKept ?cp" "length ?es" ?es]
    show ?thesis by (auto simp: prepareCompaction_def Let_def messages_between_all [symmetric] split: if_splits option.splits)
  qed
qed


text \<open>Messages that compaction takes from entries without a valid cut point are tool results.\<close>

lemma no_cut_tool_results:
  assumes "\<not> is_cut_entry e" and "getMessageFromEntryForCompaction e = Some m"
  shows "role_of m = RoleToolResult"
  using assms by (auto simp: is_cut_entry_def getMessageFromEntryForCompaction_def getMessageFromEntry_def split: entry_data.splits)

lemma cut_entry_message:
  assumes "is_cut_entry e"
  obtains m where "getMessageFromEntryForCompaction e = Some m" "role_of m \<noteq> RoleToolResult"
  using assms by (auto simp: is_cut_entry_def getMessageFromEntryForCompaction_def getMessageFromEntry_def createBranchSummaryMessage_def
      split: entry_data.splits)

lemma map_filter_first:
  assumes "i \<le> c" "c < n" and "\<And>k. i \<le> k \<Longrightarrow> k < c \<Longrightarrow> f k = None \<or> P (the (f k))" and "f c = Some m" "P m"
  shows "P (hd (List.map_filter f [i..<n]))"
  using assms(1,3)
proof (induction "c - i" arbitrary: i)
  case 0
  then have "i = c" by simp
  then show ?case using assms(2,4,5) by (simp add: upt_conv_Cons List.map_filter_simps)
next
  case (Suc d)
  then have lt: "i < c" by simp
  then have "[i..<n] = i # [Suc i..<n]" using assms(2) by (simp add: upt_conv_Cons)
  moreover have "P (hd (List.map_filter f [Suc i..<n]))" using Suc lt by (intro Suc.hyps) auto
  ultimately show ?case using Suc.prems(2) [of i] lt by (auto simp: List.map_filter_simps split: option.splits)
qed

lemma walked_entries:
  assumes "walk_back es 0 c \<le> k" "k < c" and "getMessageFromEntryForCompaction (es ! k) = Some m"
  shows "role_of m \<noteq> RoleToolResult"
  using walk_back_skips [OF assms(1,2)] assms(3)
  by (auto simp: getMessageFromEntryForCompaction_def getMessageFromEntry_def createBranchSummaryMessage_def split: entry_data.splits)

text \<open>
  C26: The messages compaction keeps never begin with the result of a tool call whose call was
  summarized: they begin with a tool result only when everything there was to compact is tool results,
  and then all of them are kept.
\<close>
theorem kept_messages_start_clean:
  assumes "prepareCompaction jl path settings = Some p" and "pr_retainedTail p = m # ms" and "role_of m = RoleToolResult"
  shows "pr_messagesToSummarize p = [] \<and> pr_turnPrefixMessages p = [] \<and> (\<forall>x\<in>set (pr_retainedTail p). role_of x = RoleToolResult)"
proof -
  define es where "es = compactable_entries path (newest_compaction path (length path))"
  let ?cp = "findCutPoint jl es 0 (length es) (st_keepRecentTokens settings)"
  have tail: "pr_retainedTail p = messages_between es (cp_firstKept ?cp) (length es)"
    using assms(1) by (auto simp: prepareCompaction_def es_def Let_def split: if_splits)
  show ?thesis
  proof (cases "findValidCutPoints es 0 (length es) = []")
    case True
    then have cp: "cp_firstKept ?cp = 0" "cp_turnStart ?cp = None" "\<not> cp_isSplitTurn ?cp" by (simp_all add: findCutPoint_def)
    then have "pr_messagesToSummarize p = []" "pr_turnPrefixMessages p = []"
      using assms(1) by (auto simp: prepareCompaction_def es_def [symmetric] Let_def messages_between_def List.map_filter_simps split: if_splits)
    moreover have "role_of x = RoleToolResult" if x: "x \<in> set (pr_retainedTail p)" for x
    proof -
      from x obtain k where "k < length es" "getMessageFromEntryForCompaction (es ! k) = Some x"
        unfolding tail cp messages_between_def by (auto simp: List.map_filter_def)
      moreover have "\<not> is_cut_entry (es ! k)" using True \<open>k < length es\<close> cut_points_mem [of k es 0 "length es"] by simp
      ultimately show ?thesis using no_cut_tool_results by blast
    qed
    ultimately show ?thesis by simp
  next
    case False
    let ?c = "chosen_cut jl es (length es) (st_keepRecentTokens settings)"
    note kept = first_kept [OF False, of jl "st_keepRecentTokens settings"]
    from kept(2) have c: "?c < length es" "is_cut_entry (es ! ?c)" by (simp_all add: cut_points_mem)
    from cut_entry_message [OF c(2)] obtain mc where mc: "getMessageFromEntryForCompaction (es ! ?c) = Some mc" "role_of mc \<noteq> RoleToolResult" .
    have "role_of (hd (pr_retainedTail p)) \<noteq> RoleToolResult"
      unfolding tail messages_between_def kept(1)
    proof (rule map_filter_first [where c = ?c and P = "\<lambda>m. role_of m \<noteq> RoleToolResult" and
        f = "\<lambda>k. getMessageFromEntryForCompaction (es ! k)", OF walk_back_le c(1) _ mc])
      show "getMessageFromEntryForCompaction (es ! k) = None \<or> role_of (the (getMessageFromEntryForCompaction (es ! k))) \<noteq> RoleToolResult"
        if "walk_back es 0 ?c \<le> k" "k < ?c" for k
        using walked_entries [OF that] by (cases "getMessageFromEntryForCompaction (es ! k)") auto
    qed
    then show ?thesis using assms(2,3) by simp
  qed
qed

section \<open>How much is kept\<close>

definition tokens_between :: "(jsval \<Rightarrow> nat) \<Rightarrow> entry list \<Rightarrow> nat \<Rightarrow> nat \<Rightarrow> nat" where
  "tokens_between jl es i n = sum_list (map (\<lambda>k. case entry_tokens jl (es ! k) of None \<Rightarrow> 0 | Some t \<Rightarrow> t) [i..<n])"

lemma tokens_between_Cons:
  "i < n \<Longrightarrow> tokens_between jl es i n = (case entry_tokens jl (es ! i) of None \<Rightarrow> 0 | Some t \<Rightarrow> t) + tokens_between jl es (Suc i) n"
  by (simp add: tokens_between_def upt_conv_Cons)

lemma tokens_between_mono: "i \<le> j \<Longrightarrow> tokens_between jl es j n \<le> tokens_between jl es i n"
proof -
  assume "i \<le> j"
  then consider "j \<le> n" | "n < j" by linarith
  then show ?thesis
  proof cases
    case 1
    with \<open>i \<le> j\<close> have "[i..<n] = [i..<j] @ [j..<n]" by (metis le_Suc_ex upt_add_eq_append)
    then show ?thesis by (simp add: tokens_between_def)
  qed (simp add: tokens_between_def)
qed

lemma budget_index_Some:
  "budget_index jl es 0 keep (tokens_between jl es k n) k = Some i \<Longrightarrow> tokens_between jl es k n < keep \<Longrightarrow> k \<le> n \<Longrightarrow>
    i < k \<and> keep \<le> tokens_between jl es i n \<and> tokens_between jl es (Suc i) n < keep"
proof (induction k)
  case (Suc k)
  have "tokens_between jl es k n = (case entry_tokens jl (es ! k) of None \<Rightarrow> 0 | Some t \<Rightarrow> t) + tokens_between jl es (Suc k) n"
    using Suc.prems(3) by (intro tokens_between_Cons) simp
  then show ?case using Suc by (auto simp: add.commute split: option.splits if_splits)
qed simp

lemma budget_index_None:
  "budget_index jl es 0 keep (tokens_between jl es k n) k = None \<Longrightarrow> tokens_between jl es k n < keep \<Longrightarrow> k \<le> n \<Longrightarrow>
    tokens_between jl es 0 n < keep"
proof (induction k)
  case (Suc k)
  have "tokens_between jl es k n = (case entry_tokens jl (es ! k) of None \<Rightarrow> 0 | Some t \<Rightarrow> t) + tokens_between jl es (Suc k) n"
    using Suc.prems(3) by (intro tokens_between_Cons) simp
  then show ?case using Suc by (auto simp: add.commute split: option.splits if_splits)
qed simp

text \<open>
  Compaction keeps about the requested number of recent tokens: up to the first message kept, what
  follows is less than \<open>keepRecentTokens\<close>; the only exception is a branch whose newest messages, worth at
  least that many tokens, are all tool results, with no place to cut among them.
\<close>
theorem kept_tokens_bounded:
  fixes jl es keep
  defines "n \<equiv> length es" and "kept \<equiv> cp_firstKept (findCutPoint jl es 0 (length es) keep)"
  assumes "0 < keep" and "findValidCutPoints es 0 n \<noteq> []"
  shows "(\<exists>c\<ge>kept. c < n \<and> (\<forall>k. kept \<le> k \<and> k < c \<longrightarrow> entry_tokens jl (es ! k) = None) \<and> tokens_between jl es (Suc c) n < keep) \<or>
    (\<exists>i<n. keep \<le> tokens_between jl es i n \<and> tokens_between jl es (Suc i) n < keep \<and> (\<forall>k. i \<le> k \<and> k < n \<longrightarrow> \<not> is_cut_entry (es ! k)))"
proof -
  let ?c = "chosen_cut jl es n keep"
  note first = first_kept [OF assms(4), of jl keep]
  have c: "?c < n" using first(2) by (simp add: cut_points_mem)
  have kept: "kept = walk_back es 0 ?c" using first(1) by (simp add: kept_def n_def)
  have zero: "tokens_between jl es n n = 0" by (simp add: tokens_between_def)
  have none: "entry_tokens jl (es ! k) = None" if "kept \<le> k" "k < ?c" for k
    using walk_back_skips [of es 0 ?c k] that by (auto simp: kept entry_tokens_def split: entry_data.splits)
  have le: "kept \<le> ?c" by (simp add: kept walk_back_le)
  have ok: ?thesis if "tokens_between jl es (Suc ?c) n < keep" using that le c none by blast
  show ?thesis
  proof (cases "budget_index jl es 0 keep 0 n")
    case None
    then have "tokens_between jl es 0 n < keep" using budget_index_None [of jl es keep n n] zero assms(3) by simp
    then show ?thesis using ok tokens_between_mono [of 0 "Suc ?c" jl es n] by simp
  next
    case (Some i)
    then have i: "i < n" "keep \<le> tokens_between jl es i n" "tokens_between jl es (Suc i) n < keep"
      using budget_index_Some [of jl es keep n n i] zero assms(3) by simp_all
    show ?thesis
    proof (cases "find (\<lambda>c. i \<le> c) (findValidCutPoints es 0 n)")
      case None
      then have "\<not> is_cut_entry (es ! k)" if "i \<le> k" "k < n" for k
        using that cut_points_mem [of k es 0 n] by (auto simp: find_None_iff)
      then show ?thesis using i by blast
    next
      case (Some x)
      then have "?c = x" using \<open>budget_index jl es 0 keep 0 n = Some i\<close> by (simp add: chosen_cut_def)
      moreover have "i \<le> x" using find_mem [OF Some] by simp
      ultimately show ?thesis using ok i(3) tokens_between_mono [of "Suc i" "Suc ?c" jl es n] by simp
    qed
  qed
qed

section \<open>Concrete branches\<close>

definition sample_answer :: "stop_reason \<Rightarrow> agent_message" where
  "sample_answer stop = AssistantMessage \<lparr>am_content = [TextPart ''done'' []], am_api = ''api'', am_provider = ''p'', am_model = ''m'',
     am_usage = \<lparr>u_input = 0, u_output = 0, u_cacheRead = 0, u_cacheWrite = 0, u_totalTokens = 0, u_costTotal = 0, u_rest = []\<rparr>,
     am_stopReason = stop, am_deferred = None, am_errorMessage = None, am_timestamp = 0, am_rest = []\<rparr>"

definition sample_question :: agent_message where
  "sample_question = UserMessage (JStr [103, 111]) 0"

definition sample_tool_result :: agent_message where
  "sample_tool_result = ToolResultMessage ''k'' ''read'' (JStr [102, 105, 108, 101]) False 0 []"

abbreviation message_at :: "string \<Rightarrow> agent_message \<Rightarrow> entry" where
  "message_at i m \<equiv> sample_entry i (MessageEntry m False)"

abbreviation keep_tokens :: "nat \<Rightarrow> compaction_settings" where
  "keep_tokens n \<equiv> \<lparr>st_enabled = True, st_reserveTokens = 100, st_keepRecentTokens = n\<rparr>"

definition sample_path :: "entry list" where
  "sample_path = [message_at ''1'' sample_question, message_at ''2'' (sample_answer StopStop), message_at ''3'' sample_question,
     message_at ''4'' (sample_answer StopToolUse), message_at ''5'' sample_tool_result, message_at ''6'' (sample_answer StopStop)]"

lemma sample_cut:
  "findCutPoint (\<lambda>_. 0) sample_path 0 (length sample_path) 1 = \<lparr>cp_firstKept = 5, cp_turnStart = Some 2, cp_isSplitTurn = True\<rparr>"
  "newest_compaction sample_path (length sample_path) = None"
  "messages_between sample_path 0 2 = [sample_question, sample_answer StopStop]"
  "messages_between sample_path 2 5 = [sample_question, sample_answer StopToolUse, sample_tool_result]"
  "messages_between sample_path 5 (length sample_path) = [sample_answer StopStop]"
  by code_simp+

lemma sample_prepared:
  "\<exists>p. prepareCompaction (\<lambda>_. 0) sample_path (keep_tokens 1) = Some p \<and> pr_messagesToSummarize p = [sample_question, sample_answer StopStop] \<and>
     pr_turnPrefixMessages p = [sample_question, sample_answer StopToolUse, sample_tool_result] \<and> pr_retainedTail p = [sample_answer StopStop] \<and>
     pr_previousSummary p = None"
proof -
  have "sample_path \<noteq> []" "e_type (last sample_path) \<noteq> TypeCompaction" by (simp_all add: sample_path_def sample_entry_def)
  then show ?thesis
    using sample_cut by (simp add: prepareCompaction_def compactable_entries_def Let_def)
qed

lemma sample_path_shown: "e \<in> set sample_path \<Longrightarrow> plainly_shown e"
  by (auto simp: sample_path_def plainly_shown_def sample_entry_def sample_question_def sample_answer_def sample_tool_result_def)


lemma tool_results_only:
  "\<exists>p. prepareCompaction (\<lambda>_. 0) [message_at ''1'' sample_tool_result] (keep_tokens 1) = Some p \<and> pr_retainedTail p = [sample_tool_result]"
proof -
  have "findCutPoint (\<lambda>_. 0) [message_at ''1'' sample_tool_result] 0 1 1 = \<lparr>cp_firstKept = 0, cp_turnStart = None, cp_isSplitTurn = False\<rparr>"
    "newest_compaction [message_at ''1'' sample_tool_result] 1 = None"
    "messages_between [message_at ''1'' sample_tool_result] 0 1 = [sample_tool_result]" by code_simp+
  moreover have "e_type (message_at ''1'' sample_tool_result) \<noteq> TypeCompaction" by (simp add: sample_entry_def)
  ultimately show ?thesis by (simp add: prepareCompaction_def compactable_entries_def Let_def)
qed

theorem kept_messages_start_clean_witness:
  "\<exists>p. prepareCompaction (\<lambda>_. 0) [message_at ''1'' sample_tool_result] (keep_tokens 1) = Some p \<and> pr_retainedTail p = [sample_tool_result] \<and>
     pr_messagesToSummarize p = [] \<and> pr_turnPrefixMessages p = []"
proof -
  from tool_results_only obtain p where p: "prepareCompaction (\<lambda>_. 0) [message_at ''1'' sample_tool_result] (keep_tokens 1) = Some p"
    "pr_retainedTail p = [sample_tool_result]" by blast
  have "role_of sample_tool_result = RoleToolResult" by (simp add: sample_tool_result_def)
  from kept_messages_start_clean [OF p this] p show ?thesis by blast
qed

theorem kept_tokens_bounded_witness:
  "\<exists>c\<ge>5. c < 6 \<and> tokens_between (\<lambda>_. 0) sample_path (Suc c) 6 < 1"
proof -
  have len: "length sample_path = 6" by (simp add: sample_path_def)
  have "findValidCutPoints sample_path 0 (length sample_path) \<noteq> []" "is_cut_entry (sample_path ! 5)" by code_simp+
  with kept_tokens_bounded [of 1 sample_path "\<lambda>_. 0"] sample_cut(1) show ?thesis by (fastforce simp: len)
qed

text \<open>
  When the branch was compacted before and the new cut lies inside the first turn kept then, there is
  nothing to summarize but the prefix of that turn: the text then starts with \<open>No prior history.\<close> and
  does not depend on the previous summary, which is lost.
\<close>
definition recompacted_path :: "entry list" where
  "recompacted_path = [sample_entry ''c'' (CompactionEntry ''old'' [sample_question] 9 None None), message_at ''1'' (sample_answer StopStop),
     message_at ''2'' (sample_answer StopStop)]"

lemma previous_summary_lost:
  "\<exists>p. prepareCompaction (\<lambda>_. 0) recompacted_path (keep_tokens 1) = Some p \<and> pr_previousSummary p = Some ''old'' \<and>
     (\<forall>complete mo instructions level s. summary_text complete mo instructions level (p\<lparr>pr_previousSummary := s\<rparr>) =
        summary_text complete mo instructions level p)"
proof -
  let ?es = "virtual_entries (recompacted_path ! 0) [sample_question] @ drop 1 recompacted_path"
  have "findCutPoint (\<lambda>_. 0) ?es 0 (length ?es) 1 = \<lparr>cp_firstKept = 2, cp_turnStart = Some 0, cp_isSplitTurn = True\<rparr>"
    "newest_compaction recompacted_path (length recompacted_path) = Some 0" "messages_between ?es 0 0 = []"
    "messages_between ?es 0 2 = [sample_question, sample_answer StopStop]" by code_simp+
  moreover have "recompacted_path \<noteq> []" "e_type (last recompacted_path) \<noteq> TypeCompaction"
    "e_data (recompacted_path ! 0) = CompactionEntry ''old'' [sample_question] 9 None None"
    by (simp_all add: recompacted_path_def sample_entry_def)
  ultimately show ?thesis by (simp add: prepareCompaction_def compactable_entries_def summary_text_def Let_def)
qed

text \<open>
  When the newest messages worth the budget are tool results, no cut point follows and the first one of
  the branch is taken: nothing is summarized and everything is kept, however long the branch.
\<close>
lemma trailing_tool_results_keep_all:
  assumes "budget_index jl es 0 keep 0 (length es) = Some i" and "\<And>k. i \<le> k \<Longrightarrow> k < length es \<Longrightarrow> \<not> is_cut_entry (es ! k)"
    and "0 < length es" "is_cut_entry (es ! 0)"
  shows "cp_firstKept (findCutPoint jl es 0 (length es) keep) = 0"
proof -
  have cuts: "findValidCutPoints es 0 (length es) = 0 # filter (\<lambda>i. is_cut_entry (es ! i)) [1..<length es]"
    using assms(3,4) by (simp add: findValidCutPoints_def upt_conv_Cons)
  have "find (\<lambda>c. i \<le> c) (findValidCutPoints es 0 (length es)) = None"
    using assms(2) cut_points_mem [of _ es 0 "length es"] by (auto simp: find_None_iff)
  then have "chosen_cut jl es (length es) keep = 0" using assms(1) cuts by (simp add: chosen_cut_def Let_def)
  then show ?thesis using first_kept(1) [of es "length es" jl keep] cuts by simp
qed

text \<open>
  A deferred answer is left out of a context, but compaction takes it from its entry like any other
  message: kept in the tail, it appears in the context after the compaction.
\<close>
definition deferred_path :: "entry list" where
  "deferred_path = [message_at ''1'' sample_question, message_at ''2'' (sample_answer StopDeferred), message_at ''3'' sample_question]"

lemma deferred_answer_reappears:
  "\<exists>p. prepareCompaction (\<lambda>_. 0) deferred_path (keep_tokens 2) = Some p \<and>
     sample_answer StopDeferred \<notin> set (messages (buildSessionContext deferred_path no_context_options)) \<and>
     sample_answer StopDeferred \<in> set (messages (buildSessionContext
       (deferred_path @ [sample_entry ''c'' (CompactionEntry ''sum'' (pr_retainedTail p) 9 None None)]) no_context_options))"
proof -
  have "findCutPoint (\<lambda>_. 0) deferred_path 0 (length deferred_path) 2 = \<lparr>cp_firstKept = 1, cp_turnStart = Some 0, cp_isSplitTurn = True\<rparr>"
    "newest_compaction deferred_path (length deferred_path) = None"
    "messages_between deferred_path 1 (length deferred_path) = [sample_answer StopDeferred, sample_question]" by code_simp+
  moreover have "deferred_path \<noteq> []" "e_type (last deferred_path) \<noteq> TypeCompaction" by (simp_all add: deferred_path_def sample_entry_def)
  ultimately obtain p where p: "prepareCompaction (\<lambda>_. 0) deferred_path (keep_tokens 2) = Some p"
    "pr_retainedTail p = [sample_answer StopDeferred, sample_question]"
    by (simp add: prepareCompaction_def compactable_entries_def Let_def)
  have "messages (buildSessionContext deferred_path no_context_options) = [sample_question, sample_question]" by code_simp
  moreover have "sample_answer StopDeferred \<noteq> sample_question" by (simp add: sample_answer_def sample_question_def)
  ultimately show ?thesis
    using p compacted_context [of "sample_entry ''c'' (CompactionEntry ''sum'' (pr_retainedTail p) 9 None None)" "''sum''" "pr_retainedTail p" 9 None None
      "[]" no_context_options deferred_path] by (auto simp: sample_entry_def no_context_options_def)
qed

end
