(* ===== verification/Truncate.thy ===== *)
theory Truncate
  imports Js_Text
begin

text \<open>
  Truncation of tool output (packages/agent/src/harness/utils/truncate.ts): byte counting without
  encoding, keeping whole lines from the head or the tail within a line and a byte limit, and
  cutting a single long line at a character boundary. Strings are UTF-16 code units; limits are
  non-negative integers.
\<close>

section \<open>Byte counting and lines\<close>

definition DEFAULT_MAX_LINES :: nat where "DEFAULT_MAX_LINES = 2000"
definition DEFAULT_MAX_BYTES :: nat where "DEFAULT_MAX_BYTES = 50 * 1024"
definition GREP_MAX_LINE_LENGTH :: nat where "GREP_MAX_LINE_LENGTH = 500"

definition NL :: code_unit where "NL = 10"

fun count_bytes :: "jsstr \<Rightarrow> nat" where
  "count_bytes [] = 0"
| "count_bytes [u] = (if unat u \<le> 0x7f then 1 else if unat u \<le> 0x7ff then 2 else 3)"
| "count_bytes (u # v # s) =
     (if unat u \<le> 0x7f then 1 + count_bytes (v # s)
      else if unat u \<le> 0x7ff then 2 + count_bytes (v # s)
      else if is_high_surrogate u then
        (if is_low_surrogate v then 4 + count_bytes s else 3 + count_bytes (v # s))
      else 3 + count_bytes (v # s))"

text \<open>
  With \<open>Buffer\<close> the runtime counts the bytes of the UTF-8 encoding; without it the ASCII prefix
  counts its length and the rest goes through the loop above.
\<close>

definition utf8ByteLength :: "bool \<Rightarrow> jsstr \<Rightarrow> nat" where
  "utf8ByteLength runtimeBuffer content =
     (if runtimeBuffer then length (utf8_encode content)
      else let firstNonAscii = length (takeWhile (\<lambda>u. unat u \<le> 0x7f) content) in
           if firstNonAscii = length content then length content
           else firstNonAscii + count_bytes (drop firstNonAscii content))"

fun split_lines :: "jsstr \<Rightarrow> jsstr list" where
  "split_lines [] = [[]]"
| "split_lines (u # s) =
     (if u = NL then [] # split_lines s
      else case split_lines s of [] \<Rightarrow> [[u]] | l # ls \<Rightarrow> (u # l) # ls)"

fun join_lines :: "jsstr list \<Rightarrow> jsstr" where
  "join_lines [] = []"
| "join_lines [l] = l"
| "join_lines (l # l' # ls) = l @ NL # join_lines (l' # ls)"

definition splitLinesForCounting :: "jsstr \<Rightarrow> jsstr list" where
  "splitLinesForCounting content =
     (if content = [] then []
      else if last content = NL then butlast (split_lines content) else split_lines content)"

fun replaceUnpairedSurrogates :: "jsstr \<Rightarrow> jsstr" where
  "replaceUnpairedSurrogates [] = []"
| "replaceUnpairedSurrogates [u] = (if is_surrogate u then [0xFFFD] else [u])"
| "replaceUnpairedSurrogates (u # v # s) =
     (if is_high_surrogate u then
        (if is_low_surrogate v then u # v # replaceUnpairedSurrogates s else 0xFFFD # replaceUnpairedSurrogates (v # s))
      else if is_low_surrogate u then 0xFFFD # replaceUnpairedSurrogates (v # s)
      else u # replaceUnpairedSurrogates (v # s))"

text \<open>\<open>toFixed(1)\<close> of an exact quotient by a power of two: the nearest tenth, ties upwards.\<close>

definition to_fixed1 :: "nat \<Rightarrow> nat \<Rightarrow> string" where
  "to_fixed1 n unit = (let tenths = (20 * n + unit) div (2 * unit) in show_nat (tenths div 10) @ ''.'' @ show_nat (tenths mod 10))"

definition formatSize :: "nat \<Rightarrow> string" where
  "formatSize bytes =
     (if bytes < 1024 then show_nat bytes @ ''B''
      else if bytes < 1024 * 1024 then to_fixed1 bytes 1024 @ ''KB''
      else to_fixed1 bytes (1024 * 1024) @ ''MB'')"

section \<open>Truncation\<close>

datatype truncated_by = ByLines | ByBytes

record truncation_result =
  tr_content :: jsstr
  tr_truncated :: bool
  tr_truncatedBy :: "truncated_by option"
  tr_totalLines :: nat
  tr_totalBytes :: nat
  tr_outputLines :: nat
  tr_outputBytes :: nat
  tr_lastLinePartial :: bool
  tr_firstLineExceedsLimit :: bool
  tr_maxLines :: nat
  tr_maxBytes :: nat

record truncation_options =
  to_maxLines :: "nat option"
  to_maxBytes :: "nat option"

definition or_else :: "'a option \<Rightarrow> 'a \<Rightarrow> 'a" where
  "or_else v d = (case v of None \<Rightarrow> d | Some x \<Rightarrow> x)"

text \<open>The loop results: the collected lines, their byte count and whether the byte limit stopped it.\<close>

fun head_loop :: "bool \<Rightarrow> nat \<Rightarrow> nat \<Rightarrow> nat \<Rightarrow> jsstr list \<Rightarrow> jsstr list \<Rightarrow> nat \<Rightarrow> jsstr list \<times> nat \<times> bool" where
  "head_loop buf maxLines maxBytes i [] out count = (out, count, False)"
| "head_loop buf maxLines maxBytes i (line # ls) out count =
     (if i < maxLines then
        (let lineBytes = utf8ByteLength buf line + (if i > 0 then 1 else 0) in
         if count + lineBytes > maxBytes then (out, count, True)
         else head_loop buf maxLines maxBytes (i + 1) ls (out @ [line]) (count + lineBytes))
      else (out, count, False))"

definition untruncated :: "jsstr \<Rightarrow> nat \<Rightarrow> nat \<Rightarrow> nat \<Rightarrow> nat \<Rightarrow> truncation_result" where
  "untruncated content totalLines totalBytes maxLines maxBytes =
     \<lparr>tr_content = content, tr_truncated = False, tr_truncatedBy = None, tr_totalLines = totalLines,
      tr_totalBytes = totalBytes, tr_outputLines = totalLines, tr_outputBytes = totalBytes,
      tr_lastLinePartial = False, tr_firstLineExceedsLimit = False, tr_maxLines = maxLines, tr_maxBytes = maxBytes\<rparr>"

definition truncateHead :: "bool \<Rightarrow> jsstr \<Rightarrow> truncation_options \<Rightarrow> truncation_result" where
  "truncateHead buf content options =
     (let maxLines = or_else (to_maxLines options) DEFAULT_MAX_LINES;
          maxBytes = or_else (to_maxBytes options) DEFAULT_MAX_BYTES;
          totalBytes = utf8ByteLength buf content;
          lines = splitLinesForCounting content;
          totalLines = length lines in
      if totalLines \<le> maxLines \<and> totalBytes \<le> maxBytes
      then untruncated content totalLines totalBytes maxLines maxBytes
      else if utf8ByteLength buf (hd lines) > maxBytes
      then \<lparr>tr_content = [], tr_truncated = True, tr_truncatedBy = Some ByBytes, tr_totalLines = totalLines,
            tr_totalBytes = totalBytes, tr_outputLines = 0, tr_outputBytes = 0,
            tr_lastLinePartial = False, tr_firstLineExceedsLimit = True, tr_maxLines = maxLines, tr_maxBytes = maxBytes\<rparr>
      else case head_loop buf maxLines maxBytes 0 lines [] 0 of
        (out, count, stopped) \<Rightarrow>
          let by = (if stopped then ByBytes else ByLines);
              by' = (if length out \<ge> maxLines \<and> count \<le> maxBytes then ByLines else by);
              outputContent = join_lines out in
          \<lparr>tr_content = outputContent, tr_truncated = True, tr_truncatedBy = Some by', tr_totalLines = totalLines,
           tr_totalBytes = totalBytes, tr_outputLines = length out, tr_outputBytes = utf8ByteLength buf outputContent,
           tr_lastLinePartial = False, tr_firstLineExceedsLimit = False, tr_maxLines = maxLines, tr_maxBytes = maxBytes\<rparr>)"

text \<open>
  The backward scan of a single line. The first list holds the units before index \<open>i\<close> in reverse,
  \<open>kept\<close> those from \<open>start\<close> on.
\<close>

definition unit_bytes :: "code_unit \<Rightarrow> nat" where
  "unit_bytes u = (if unat u \<le> 0x7f then 1 else if unat u \<le> 0x7ff then 2 else 3)"

fun scan_back :: "nat \<Rightarrow> jsstr \<Rightarrow> nat \<Rightarrow> bool \<Rightarrow> jsstr \<Rightarrow> jsstr \<times> bool" where
  "scan_back maxBytes [] outputBytes needs kept = (kept, needs)"
| "scan_back maxBytes [u] outputBytes needs kept =
     (let unpaired = is_surrogate u; characterBytes = (if unpaired then 3 else unit_bytes u) in
      if outputBytes + characterBytes > maxBytes then (kept, needs)
      else (u # kept, needs \<or> unpaired))"
| "scan_back maxBytes (u # p # rest) outputBytes needs kept =
     (if is_low_surrogate u \<and> is_high_surrogate p then
        (if outputBytes + 4 > maxBytes then (kept, needs)
         else scan_back maxBytes rest (outputBytes + 4) needs (p # u # kept))
      else
        (let unpaired = is_surrogate u; characterBytes = (if unpaired then 3 else unit_bytes u) in
         if outputBytes + characterBytes > maxBytes then (kept, needs)
         else scan_back maxBytes (p # rest) (outputBytes + characterBytes) (needs \<or> unpaired) (u # kept)))"

definition truncateStringToBytesFromEnd :: "jsstr \<Rightarrow> nat \<Rightarrow> jsstr" where
  "truncateStringToBytesFromEnd str maxBytes =
     (if maxBytes = 0 then []
      else case scan_back maxBytes (rev str) 0 False [] of
        (output, needsReplacement) \<Rightarrow> if needsReplacement then replaceUnpairedSurrogates output else output)"

fun tail_loop :: "bool \<Rightarrow> nat \<Rightarrow> nat \<Rightarrow> jsstr list \<Rightarrow> jsstr list \<Rightarrow> nat \<Rightarrow> jsstr list \<times> nat \<times> bool \<times> bool" where
  "tail_loop buf maxLines maxBytes [] out count = (out, count, False, False)"
| "tail_loop buf maxLines maxBytes (line # ls) out count =
     (if length out < maxLines then
        (let lineBytes = utf8ByteLength buf line + (if length out > 0 then 1 else 0) in
         if count + lineBytes > maxBytes then
           (if out = [] then
              (let truncatedLine = truncateStringToBytesFromEnd line maxBytes in
               ([truncatedLine], utf8ByteLength buf truncatedLine, True, True))
            else (out, count, True, False))
         else tail_loop buf maxLines maxBytes ls (line # out) (count + lineBytes))
      else (out, count, False, False))"

definition truncateTail :: "bool \<Rightarrow> jsstr \<Rightarrow> truncation_options \<Rightarrow> truncation_result" where
  "truncateTail buf content options =
     (let maxLines = or_else (to_maxLines options) DEFAULT_MAX_LINES;
          maxBytes = or_else (to_maxBytes options) DEFAULT_MAX_BYTES;
          totalBytes = utf8ByteLength buf content;
          lines = splitLinesForCounting content;
          totalLines = length lines in
      if totalLines \<le> maxLines \<and> totalBytes \<le> maxBytes
      then untruncated content totalLines totalBytes maxLines maxBytes
      else case tail_loop buf maxLines maxBytes (rev lines) [] 0 of
        (out, count, stopped, partly) \<Rightarrow>
          let by = (if stopped then ByBytes else ByLines);
              by' = (if length out \<ge> maxLines \<and> count \<le> maxBytes then ByLines else by);
              outputContent = join_lines out in
          \<lparr>tr_content = outputContent, tr_truncated = True, tr_truncatedBy = Some by', tr_totalLines = totalLines,
           tr_totalBytes = totalBytes, tr_outputLines = length out, tr_outputBytes = utf8ByteLength buf outputContent,
           tr_lastLinePartial = partly, tr_firstLineExceedsLimit = False, tr_maxLines = maxLines, tr_maxBytes = maxBytes\<rparr>)"

definition truncateLine :: "jsstr \<Rightarrow> nat \<Rightarrow> jsstr \<times> bool" where
  "truncateLine line maxChars =
     (if length line \<le> maxChars then (line, False) else (take maxChars line @ js_of ''... [truncated]'', True))"

section \<open>Counting is the length of the encoding\<close>

abbreviation nbytes :: "jsstr \<Rightarrow> nat" where
  "nbytes s \<equiv> length (utf8_encode s)"

lemma length_utf8_of_cp: "length (utf8_of_cp n) = (if n < 0x80 then 1 else if n < 0x800 then 2 else if n < 0x10000 then 3 else 4)"
  by (simp add: utf8_of_cp_def)

lemma lone_bytes: "length (utf8_of_cp (lone_code_point u)) = unit_bytes u"
  using code_unit_less [of u]
  by (auto simp: length_utf8_of_cp lone_code_point_def unit_bytes_def is_high_surrogate_def is_low_surrogate_def)

lemma pair_bytes: "is_high_surrogate u \<Longrightarrow> is_low_surrogate v \<Longrightarrow> length (utf8_of_cp (pair_code_point u v)) = 4"
  using pair_code_point_bounds [of u v] by (simp add: length_utf8_of_cp)

lemma nbytes_simps [simp]:
  "nbytes [] = 0"
  "nbytes [u] = unit_bytes u"
  "nbytes (u # v # s) =
     (if is_high_surrogate u \<and> is_low_surrogate v then nbytes s + 4 else nbytes (v # s) + unit_bytes u)"
  by (simp_all add: utf8_encode_def lone_bytes pair_bytes)

lemma count_bytes_eq: "count_bytes s = nbytes s"
  by (induction s rule: count_bytes.induct) (auto simp: unit_bytes_def is_high_surrogate_def)

lemma code_points_split:
  "\<not> is_low_surrogate u \<Longrightarrow> code_points (xs @ u # ys) = code_points xs @ code_points (u # ys)"
  by (induction xs rule: code_points.induct) auto

lemma nbytes_split: "\<not> is_low_surrogate u \<Longrightarrow> nbytes (xs @ u # ys) = nbytes xs + nbytes (u # ys)"
  by (simp add: utf8_encode_def code_points_split)

lemma nbytes_ascii_Cons: "unat u \<le> 0x7f \<Longrightarrow> nbytes (u # s) = 1 + nbytes s"
  by (cases s) (auto simp: is_high_surrogate_def unit_bytes_def)

lemma nbytes_ascii: "\<forall>u \<in> set xs. unat u \<le> 0x7f \<Longrightarrow> nbytes (xs @ s) = length xs + nbytes s"
  by (induction xs) (auto simp: nbytes_ascii_Cons simp del: nbytes_simps(3))

lemma utf8ByteLength_eq: "utf8ByteLength buf s = nbytes s"
proof -
  let ?asc = "takeWhile (\<lambda>u. unat u \<le> 0x7f) s"
  have "nbytes (?asc @ drop (length ?asc) s) = length ?asc + nbytes (drop (length ?asc) s)"
    by (rule nbytes_ascii) (auto dest: set_takeWhileD)
  moreover have "?asc @ drop (length ?asc) s = s" by (metis dropWhile_eq_drop takeWhile_dropWhile_id)
  ultimately show ?thesis by (auto simp: utf8ByteLength_def Let_def count_bytes_eq)
qed

lemma units_lone: "units_of_cp (lone_code_point u) = (if is_surrogate u then [0xFFFD] else [u])"
proof (cases "is_surrogate u")
  case True
  then show ?thesis by (simp add: units_of_cp_def lone_code_point_def)
next
  case False
  then show ?thesis using units_of_lone [of u] by simp
qed

lemma high_not_low: "is_high_surrogate u \<Longrightarrow> \<not> is_low_surrogate u"
  by (auto simp: is_high_surrogate_def is_low_surrogate_def)

lemma replace_is_well_formed: "replaceUnpairedSurrogates s = to_well_formed s"
  by (induction s rule: replaceUnpairedSurrogates.induct)
    (auto simp: to_well_formed_def units_of_pair units_lone high_not_low)

text \<open>
  C28: the byte count used for every limit is the length of the UTF-8 encoding, with \<open>Buffer\<close> or
  without, also for strings with unpaired surrogates; replacing the unpaired surrogates is the
  well-formed version of the string and keeps that count.
\<close>

theorem byte_length_exact:
  "utf8ByteLength buf s = length (utf8_encode s) \<and> replaceUnpairedSurrogates s = to_well_formed s \<and>
   length (utf8_encode (replaceUnpairedSurrogates s)) = length (utf8_encode s)"
proof -
  have "nbytes (to_well_formed s) = nbytes s" using utf8_encode_decode [OF utf8_decode_encode] by simp
  then show ?thesis by (simp add: utf8ByteLength_eq replace_is_well_formed)
qed

section \<open>The limits hold\<close>

lemma newline_unit [simp]: "\<not> is_high_surrogate NL" "\<not> is_low_surrogate NL" "unat NL = 10"
  by (simp_all add: NL_def is_high_surrogate_def is_low_surrogate_def)

lemma nbytes_line_Cons: "nbytes (NL # s) = 1 + nbytes s"
  by (rule nbytes_ascii_Cons) simp

lemma nbytes_join_snoc:
  "nbytes (join_lines (out @ [l])) = nbytes (join_lines out) + nbytes l + (if out = [] then 0 else 1)"
proof (induction out rule: join_lines.induct)
  case (2 a)
  then show ?case by (simp add: nbytes_split nbytes_line_Cons del: nbytes_simps)
next
  case (3 a b ls)
  then show ?case by (simp add: nbytes_split nbytes_line_Cons del: nbytes_simps)
qed simp

lemma nbytes_join_Cons:
  "nbytes (join_lines (l # out)) = nbytes l + nbytes (join_lines out) + (if out = [] then 0 else 1)"
  by (cases out) (simp_all add: nbytes_split nbytes_line_Cons del: nbytes_simps(2,3))

lemma length_split_lines: "length (split_lines s) = Suc (length (filter (\<lambda>u. u = NL) s))"
  by (induction s) (auto split: list.splits)

lemma no_lines: "splitLinesForCounting s = [] \<longleftrightarrow> s = []"
proof (cases "s \<noteq> [] \<and> last s = NL")
  case True
  then have "filter (\<lambda>u. u = NL) s \<noteq> []" using last_in_set [of s] by (auto simp: filter_empty_conv)
  then show ?thesis
    using True length_split_lines [of s] by (cases "split_lines s" rule: rev_cases) (auto simp: splitLinesForCounting_def)
next
  case False
  then show ?thesis using length_split_lines [of s] by (auto simp: splitLinesForCounting_def)
qed

lemma head_loop_spec:
  assumes "head_loop buf maxLines maxBytes (length out) ls out (nbytes (join_lines out)) = (out', count, stopped)"
    "nbytes (join_lines out) \<le> maxBytes" "length out \<le> maxLines"
  shows "\<exists>k \<le> length ls. out' = out @ take k ls \<and> count = nbytes (join_lines out') \<and> count \<le> maxBytes \<and>
    length out' \<le> maxLines \<and>
    (if stopped then k < length ls \<and> length out' < maxLines \<and> nbytes (join_lines (out' @ [ls ! k])) > maxBytes
     else k = length ls \<or> length out' = maxLines)"
  using assms
proof (induction ls arbitrary: out)
  case (Cons l ls)
  let ?n = "nbytes (join_lines (out @ [l]))"
  have n: "nbytes (join_lines out) + (utf8ByteLength buf l + (if length out > 0 then 1 else 0)) = ?n"
    by (simp add: nbytes_join_snoc utf8ByteLength_eq)
  consider (full) "\<not> length out < maxLines" | (bytes) "length out < maxLines" "?n > maxBytes"
    | (step) "length out < maxLines" "?n \<le> maxBytes" by linarith
  then show ?case
  proof cases
    case full
    then show ?thesis using Cons.prems by (intro exI [of _ 0]) auto
  next
    case bytes
    then show ?thesis using Cons.prems n by (intro exI [of _ 0]) (auto simp: Let_def)
  next
    case step
    then have "head_loop buf maxLines maxBytes (length (out @ [l])) ls (out @ [l]) ?n = (out', count, stopped)"
      using Cons.prems(1) n by (simp add: Let_def)
    from Cons.IH [OF this] step obtain k where "k \<le> length ls" "out' = (out @ [l]) @ take k ls"
      "count = nbytes (join_lines out') \<and> count \<le> maxBytes \<and> length out' \<le> maxLines \<and>
       (if stopped then k < length ls \<and> length out' < maxLines \<and> nbytes (join_lines (out' @ [ls ! k])) > maxBytes
        else k = length ls \<or> length out' = maxLines)" by auto
    then show ?thesis by (intro exI [of _ "Suc k"]) auto
  qed
qed auto

text \<open>What a scan from the end keeps is counted right: no kept low surrogate follows a high one outside.\<close>

lemma nbytes_Cons_unit:
  "\<not> (is_high_surrogate u \<and> kept \<noteq> [] \<and> is_low_surrogate (hd kept)) \<Longrightarrow> nbytes (u # kept) = unit_bytes u + nbytes kept"
  by (cases kept) auto

lemma surrogate_bytes: "is_surrogate u \<Longrightarrow> unit_bytes u = 3"
  by (auto simp: unit_bytes_def is_high_surrogate_def is_low_surrogate_def)

lemma scan_back_bytes:
  assumes "scan_back maxBytes before n needs kept = (kept', needs')" "n = nbytes kept" "n \<le> maxBytes"
    "kept \<noteq> [] \<and> is_low_surrogate (hd kept) \<longrightarrow> before = [] \<or> \<not> is_high_surrogate (hd before)"
  shows "nbytes kept' \<le> maxBytes"
  using assms
proof (induction maxBytes before n needs kept arbitrary: kept' needs' rule: scan_back.induct)
  case (2 maxBytes u n needs kept)
  have "nbytes (u # kept) = n + (if is_surrogate u then 3 else unit_bytes u)"
    using 2(2,4) nbytes_Cons_unit [of u kept] surrogate_bytes [of u] by auto
  with 2(1-3) show ?case by (auto simp: Let_def split: if_splits)
next
  case (3 maxBytes u p rest n needs kept)
  show ?case
  proof (cases "is_low_surrogate u \<and> is_high_surrogate p")
    case True
    then have "nbytes (p # u # kept) = n + 4" using 3(4) by simp
    with 3(1) [OF True] 3(3-5) True show ?thesis by (cases "maxBytes < n + 4") (auto simp: high_not_low)
  next
    case False
    let ?b = "if is_surrogate u then 3 else unit_bytes u"
    have b: "nbytes (u # kept) = n + ?b"
      using 3(4,6) nbytes_Cons_unit [of u kept] surrogate_bytes [of u] by auto
    show ?thesis
    proof (cases "maxBytes < n + ?b")
      case True
      then show ?thesis using False 3(3-5) by (auto simp: Let_def)
    next
      case le: False
      have "scan_back maxBytes (p # rest) (n + ?b) (needs \<or> is_surrogate u) (u # kept) = (kept', needs')"
        using 3(3) False le by (simp add: Let_def)
      moreover have "n + ?b = nbytes (u # kept)" using b by simp
      moreover have "n + ?b \<le> maxBytes" using le by simp
      moreover have "u # kept \<noteq> [] \<and> is_low_surrogate (hd (u # kept)) \<longrightarrow> p # rest = [] \<or> \<not> is_high_surrogate (hd (p # rest))"
        using False by simp
      ultimately show ?thesis using 3(2) [OF False refl refl le] by blast
    qed
  qed
qed auto

lemma from_end_bytes: "nbytes (truncateStringToBytesFromEnd s maxBytes) \<le> maxBytes"
proof (cases "maxBytes = 0")
  case False
  obtain kept needs where k: "scan_back maxBytes (rev s) 0 False [] = (kept, needs)"
    by (cases "scan_back maxBytes (rev s) 0 False []")
  have "nbytes kept \<le> maxBytes" using scan_back_bytes [of maxBytes "rev s" 0 False "[]" kept needs] k by simp
  moreover have "nbytes (replaceUnpairedSurrogates kept) = nbytes kept"
    using utf8_encode_decode [OF utf8_decode_encode, of kept] by (simp add: replace_is_well_formed)
  ultimately show ?thesis using False k by (simp add: truncateStringToBytesFromEnd_def)
qed (simp add: truncateStringToBytesFromEnd_def)

lemma tail_loop_spec:
  assumes "tail_loop buf maxLines maxBytes ls out (nbytes (join_lines out)) = (out', count, stopped, partly)"
    "nbytes (join_lines out) \<le> maxBytes" "length out \<le> maxLines"
  shows "nbytes (join_lines out') \<le> maxBytes \<and> length out' \<le> maxLines \<and>
    (\<not> partly \<longrightarrow> (\<exists>k \<le> length ls. out' = rev (take k ls) @ out))"
  using assms
proof (induction ls arbitrary: out)
  case (Cons l ls)
  let ?n = "nbytes (join_lines (l # out))"
  have n: "nbytes (join_lines out) + (utf8ByteLength buf l + (if length out > 0 then 1 else 0)) = ?n"
    by (simp add: nbytes_join_Cons utf8ByteLength_eq)
  consider (full) "\<not> length out < maxLines" | (bytes) "length out < maxLines" "?n > maxBytes"
    | (step) "length out < maxLines" "?n \<le> maxBytes" by linarith
  then show ?case
  proof cases
    case full
    then show ?thesis using Cons.prems by (auto intro!: exI [of _ 0])
  next
    case bytes
    then show ?thesis
      using Cons.prems n from_end_bytes [of l maxBytes]
      by (auto simp: Let_def intro!: exI [of _ 0] split: if_splits)
  next
    case step
    then have "tail_loop buf maxLines maxBytes ls (l # out) ?n = (out', count, stopped, partly)"
      using Cons.prems(1) n by (simp add: Let_def)
    from Cons.IH [OF this] step have ih: "nbytes (join_lines out') \<le> maxBytes" "length out' \<le> maxLines"
      "\<not> partly \<longrightarrow> (\<exists>k \<le> length ls. out' = rev (take k ls) @ l # out)" by auto
    have "\<exists>k \<le> length (l # ls). out' = rev (take k (l # ls)) @ out" if np: "\<not> partly"
    proof -
      obtain k where "k \<le> length ls" "out' = rev (take k ls) @ l # out" using ih(3) np by blast
      then show ?thesis by (intro exI [of _ "Suc k"]) simp
    qed
    with ih show ?thesis by simp
  qed
qed auto

text \<open>
  C27: whatever the input, the result of both truncations stays within the line limit and the byte
  limit, and reports its own size in bytes correctly.
\<close>

theorem truncation_within_limits:
  "nbytes (tr_content (truncateHead buf content options)) \<le> tr_maxBytes (truncateHead buf content options) \<and>
   tr_outputLines (truncateHead buf content options) \<le> tr_maxLines (truncateHead buf content options) \<and>
   tr_outputBytes (truncateHead buf content options) = nbytes (tr_content (truncateHead buf content options)) \<and>
   nbytes (tr_content (truncateTail buf content options)) \<le> tr_maxBytes (truncateTail buf content options) \<and>
   tr_outputLines (truncateTail buf content options) \<le> tr_maxLines (truncateTail buf content options) \<and>
   tr_outputBytes (truncateTail buf content options) = nbytes (tr_content (truncateTail buf content options))"
proof -
  let ?ml = "or_else (to_maxLines options) DEFAULT_MAX_LINES" and ?mb = "or_else (to_maxBytes options) DEFAULT_MAX_BYTES"
  let ?ls = "splitLinesForCounting content"
  obtain out count stopped where h: "head_loop buf ?ml ?mb 0 ?ls [] 0 = (out, count, stopped)"
    by (cases "head_loop buf ?ml ?mb 0 ?ls [] 0") auto
  have head: "nbytes (join_lines out) \<le> ?mb" "length out \<le> ?ml"
    using head_loop_spec [of buf ?ml ?mb "[]" ?ls out count stopped] h by auto
  obtain out' count' stopped' partly where t: "tail_loop buf ?ml ?mb (rev ?ls) [] 0 = (out', count', stopped', partly)"
    by (cases "tail_loop buf ?ml ?mb (rev ?ls) [] 0") auto
  have tail: "nbytes (join_lines out') \<le> ?mb" "length out' \<le> ?ml"
    using tail_loop_spec [of buf ?ml ?mb "rev ?ls" "[]" out' count' stopped' partly] t by auto
  show ?thesis
    using head tail h t by (auto simp: truncateHead_def truncateTail_def Let_def utf8ByteLength_eq untruncated_def)
qed

text \<open>
  head truncation keeps whole lines only, from the start and as many as possible: the result is
  the first \<open>k\<close> lines, and unless all lines are kept either \<open>k\<close> is the line limit or one more
  line would exceed the byte limit.
\<close>

theorem head_keeps_whole_lines:
  assumes "tr_truncated (truncateHead buf content options)"
  shows "\<exists>k. k = tr_outputLines (truncateHead buf content options) \<and>
    tr_content (truncateHead buf content options) = join_lines (take k (splitLinesForCounting content)) \<and>
    (k < length (splitLinesForCounting content) \<longrightarrow>
      k = tr_maxLines (truncateHead buf content options) \<or>
      nbytes (join_lines (take (Suc k) (splitLinesForCounting content))) > tr_maxBytes (truncateHead buf content options))"
proof -
  let ?ml = "or_else (to_maxLines options) DEFAULT_MAX_LINES" and ?mb = "or_else (to_maxBytes options) DEFAULT_MAX_BYTES"
  let ?ls = "splitLinesForCounting content"
  have some: "?ls \<noteq> []"
  proof
    assume none: "?ls = []"
    then have "content = []" by (simp add: no_lines)
    with none assms show False by (simp add: truncateHead_def untruncated_def utf8ByteLength_eq)
  qed
  obtain out count stopped where h: "head_loop buf ?ml ?mb 0 ?ls [] 0 = (out, count, stopped)"
    by (cases "head_loop buf ?ml ?mb 0 ?ls [] 0") auto
  obtain k where k: "k \<le> length ?ls" "out = take k ?ls"
    "if stopped then k < length ?ls \<and> length out < ?ml \<and> nbytes (join_lines (out @ [?ls ! k])) > ?mb
     else k = length ?ls \<or> length out = ?ml"
    using head_loop_spec [of buf ?ml ?mb "[]" ?ls out count stopped] h by auto
  show ?thesis
  proof (cases "utf8ByteLength buf (hd ?ls) > ?mb")
    case True
    then show ?thesis
      using assms some by (cases ?ls) (auto simp: truncateHead_def Let_def untruncated_def utf8ByteLength_eq)
  next
    case False
    then have r: "tr_content (truncateHead buf content options) = join_lines out"
      "tr_outputLines (truncateHead buf content options) = length out"
      "tr_maxLines (truncateHead buf content options) = ?ml" "tr_maxBytes (truncateHead buf content options) = ?mb"
      using assms h by (auto simp: truncateHead_def Let_def untruncated_def split: if_splits)
    show ?thesis using k by (auto simp: r take_Suc_conv_app_nth split: if_splits)
  qed
qed

theorem head_keeps_whole_lines_witness:
  "\<exists>k. k = 1 \<and> join_lines [js_of ''ab''] = join_lines (take k (splitLinesForCounting [97, 98, NL, 99]))"
proof -
  let ?r = "truncateHead True [97, 98, NL, 99] \<lparr>to_maxLines = Some 1, to_maxBytes = Some 10\<rparr>"
  have "tr_truncated ?r" "tr_outputLines ?r = 1" "tr_content ?r = js_of ''ab''"
    by (simp_all add: truncateHead_def or_else_def splitLinesForCounting_def utf8ByteLength_eq untruncated_def Let_def
        is_high_surrogate_def unit_bytes_def NL_def js_of_def)
  with head_keeps_whole_lines [of True "[97, 98, NL, 99]" "\<lparr>to_maxLines = Some 1, to_maxBytes = Some 10\<rparr>"]
  show ?thesis by auto
qed

text \<open>
  A text of one line that exceeds the byte limit only by its final newline is returned whole
  without that newline and reported as cut by the line limit, although it has just one line.
\<close>

theorem newline_reported_as_line_limit:
  "tr_truncatedBy (truncateHead buf [97, 98, 99, NL] \<lparr>to_maxLines = Some 10, to_maxBytes = Some 3\<rparr>) = Some ByLines \<and>
   tr_totalLines (truncateHead buf [97, 98, 99, NL] \<lparr>to_maxLines = Some 10, to_maxBytes = Some 3\<rparr>) = 1 \<and>
   tr_outputLines (truncateHead buf [97, 98, 99, NL] \<lparr>to_maxLines = Some 10, to_maxBytes = Some 3\<rparr>) = 1"
  by (simp add: truncateHead_def or_else_def splitLinesForCounting_def utf8ByteLength_eq untruncated_def Let_def
        is_high_surrogate_def unit_bytes_def NL_def)

end
