(* ===== verification/Task_Machine.thy ===== *)
theory Task_Machine
  imports Prelude
begin

text \<open>
  The state machine of durable tasks and agents (packages/long-tasks/src/store.ts): the tables the
  transitions read and write, as lists of rows, the transition tables, the completion check, and
  \<open>transitionTask\<close> with every update it makes. A row's columns that no modelled statement reads
  (titles, prompts, costs, timestamps of creation) are left out. A statement that throws inside
  \<open>executeTransaction\<close> rolls back, so an operation returns an error message or the new tables.
\<close>

section \<open>States\<close>

datatype task_state =
    TDraft | TQueued | TRunning | TWaitingInput | TWaitingExternal | TPaused | TUnknownOutcome
  | TCompleted | TFailed | TCancelled

datatype agent_state =
    ACreated | AQueued | ARunning | ARecovering | AWaitingMessage | AWaitingExternal | APaused
  | AUnknownOutcome | ACompleted | AFailed | ACancelled

datatype agent_kind = KindMain | KindSubagent

fun task_state_text :: "task_state \<Rightarrow> string" where
  "task_state_text TDraft = ''draft''"
| "task_state_text TQueued = ''queued''"
| "task_state_text TRunning = ''running''"
| "task_state_text TWaitingInput = ''waiting_input''"
| "task_state_text TWaitingExternal = ''waiting_external''"
| "task_state_text TPaused = ''paused''"
| "task_state_text TUnknownOutcome = ''unknown_outcome''"
| "task_state_text TCompleted = ''completed''"
| "task_state_text TFailed = ''failed''"
| "task_state_text TCancelled = ''cancelled''"

fun TASK_TRANSITIONS :: "task_state \<Rightarrow> task_state list" where
  "TASK_TRANSITIONS TDraft = [TQueued, TCancelled]"
| "TASK_TRANSITIONS TQueued = [TRunning, TWaitingInput, TPaused, TCancelled]"
| "TASK_TRANSITIONS TRunning =
     [TWaitingInput, TWaitingExternal, TPaused, TUnknownOutcome, TCompleted, TFailed, TCancelled]"
| "TASK_TRANSITIONS TWaitingInput = [TQueued, TCancelled]"
| "TASK_TRANSITIONS TWaitingExternal = [TQueued, TPaused, TCancelled]"
| "TASK_TRANSITIONS TPaused = [TQueued, TCancelled]"
| "TASK_TRANSITIONS TUnknownOutcome = [TQueued, TFailed, TCancelled]"
| "TASK_TRANSITIONS TCompleted = []"
| "TASK_TRANSITIONS TFailed = []"
| "TASK_TRANSITIONS TCancelled = []"

fun AGENT_TRANSITIONS :: "agent_state \<Rightarrow> agent_state list" where
  "AGENT_TRANSITIONS ACreated = [AQueued, ACancelled]"
| "AGENT_TRANSITIONS AQueued = [ARunning, APaused, ACancelled]"
| "AGENT_TRANSITIONS ARunning =
     [AQueued, AWaitingMessage, AWaitingExternal, APaused, AUnknownOutcome, ACompleted, AFailed, ACancelled]"
| "AGENT_TRANSITIONS ARecovering = [AQueued, AWaitingMessage, AUnknownOutcome, AFailed, ACancelled]"
| "AGENT_TRANSITIONS AWaitingMessage = [AQueued, APaused, ACancelled]"
| "AGENT_TRANSITIONS AWaitingExternal = [AQueued, APaused, ACancelled]"
| "AGENT_TRANSITIONS APaused = [AQueued, ACancelled]"
| "AGENT_TRANSITIONS AUnknownOutcome = [AQueued, AFailed, ACancelled]"
| "AGENT_TRANSITIONS ACompleted = [AQueued]"
| "AGENT_TRANSITIONS AFailed = [AQueued]"
| "AGENT_TRANSITIONS ACancelled = []"

section \<open>Tables\<close>

datatype criterion_kind = CommandCriterion | ArtifactCriterion | ManualCriterion | EvidenceCriterion nat | AuditCriterion

record criterion =
  cr_id :: string
  cr_kind :: criterion_kind

record task_row =
  tk_id :: string
  tk_state :: task_state
  tk_reason :: "string option"
  tk_acceptance :: "criterion list"
  tk_totalTurns :: nat
  tk_maxTurns :: nat
  tk_completedAt :: "int option"

record agent_row =
  ag_id :: string
  ag_taskId :: string
  ag_kind :: agent_kind
  ag_state :: agent_state
  ag_completedAt :: "int option"

record attempt_row =
  tm_id :: string
  tm_taskId :: string
  tm_agentId :: string
  tm_dispatchId :: "string option"
  tm_ordinal :: nat
  tm_state :: string
  tm_settledAt :: "int option"

record dispatch_row =
  ad_id :: string
  ad_taskId :: string
  ad_agentId :: string
  ad_sequence :: nat
  ad_state :: string
  ad_settledAt :: "int option"

record delegation_row =
  dg_taskId :: string
  dg_childAgentId :: string
  dg_required :: bool
  dg_state :: string
  dg_completedAt :: "int option"

record flow_row =
  fl_id :: string
  fl_taskId :: string
  fl_state :: string
  fl_completedAt :: "int option"

record flow_node_row =
  nd_flowId :: string
  nd_key :: string
  nd_agentId :: string
  nd_dispatchId :: string
  nd_required :: bool
  nd_state :: string
  nd_completedAt :: "int option"

record flow_edge_row =
  fe_flowId :: string
  fe_source :: string
  fe_target :: string

record episode_row =
  ep_taskId :: string
  ep_agentId :: string
  ep_dispatchId :: string
  ep_flowId :: "string option"
  ep_nodeKey :: "string option"
  ep_status :: string

text \<open>
  Of an event's JSON payload, the members that a modelled query extracts; a payload without the
  member has \<open>None\<close>, as \<open>json_extract\<close> gives NULL, which no comparison accepts.
\<close>

record event_payload =
  pl_dispatchId :: "string option"
  pl_criterionId :: "string option"
  pl_toolCallId :: "string option"
  pl_effect :: "string option"

abbreviation no_payload :: event_payload where
  "no_payload \<equiv> \<lparr>pl_dispatchId = None, pl_criterionId = None, pl_toolCallId = None, pl_effect = None\<rparr>"

record event_row =
  ev_taskId :: string
  ev_agentId :: "string option"
  ev_dispatchId :: "string option"
  ev_attemptId :: "string option"
  ev_seq :: nat
  ev_type :: string
  ev_payload :: event_payload

record task_db =
  db_tasks :: "task_row list"
  db_agents :: "agent_row list"
  db_attempts :: "attempt_row list"
  db_dispatches :: "dispatch_row list"
  db_delegations :: "delegation_row list"
  db_flows :: "flow_row list"
  db_flowNodes :: "flow_node_row list"
  db_flowEdges :: "flow_edge_row list"
  db_episodes :: "episode_row list"
  db_events :: "event_row list"
  db_checkpoints :: "string list"

section \<open>Reads\<close>

definition getTask :: "string \<Rightarrow> ('z) task_db_scheme \<Rightarrow> task_row option" where
  "getTask taskId db = find (\<lambda>t. tk_id t = taskId) (db_tasks db)"

definition requireTask :: "string \<Rightarrow> ('z) task_db_scheme \<Rightarrow> string + task_row" where
  "requireTask taskId db =
     (case getTask taskId db of None \<Rightarrow> Inl (''Task not found: '' @ taskId) | Some t \<Rightarrow> Inr t)"

definition requireAgent :: "string \<Rightarrow> ('z) task_db_scheme \<Rightarrow> string + agent_row" where
  "requireAgent agentId db =
     (case find (\<lambda>a. ag_id a = agentId) (db_agents db) of
        None \<Rightarrow> Inl (''Agent not found: '' @ agentId) | Some a \<Rightarrow> Inr a)"

definition task_events :: "string \<Rightarrow> ('z) task_db_scheme \<Rightarrow> event_row list" where
  "task_events taskId db = filter (\<lambda>e. ev_taskId e = taskId) (db_events db)"

text \<open>\<open>ORDER BY key LIMIT 1\<close>, and a string used as a condition (empty is false).\<close>

definition first_by :: "('a \<Rightarrow> nat) \<Rightarrow> 'a list \<Rightarrow> 'a option" where
  "first_by key xs = (case sort_key key xs of [] \<Rightarrow> None | x # _ \<Rightarrow> Some x)"

definition truthy :: "string option \<Rightarrow> string option" where
  "truthy s = (if s = Some [] then None else s)"

definition getActiveAgentDispatch :: "string \<Rightarrow> ('z) task_db_scheme \<Rightarrow> string + dispatch_row option" where
  "getActiveAgentDispatch agentId db =
     bindE (requireAgent agentId db) (\<lambda>_.
     Inr (first_by ad_sequence
       (filter (\<lambda>d. ad_agentId d = agentId \<and> ad_state d \<in> {''running'', ''finalizing''}) (db_dispatches db))))"

definition getRunnableAgentDispatch :: "string \<Rightarrow> ('z) task_db_scheme \<Rightarrow> string + dispatch_row option" where
  "getRunnableAgentDispatch agentId db =
     bindE (requireAgent agentId db) (\<lambda>_.
     Inr (first_by (\<lambda>d. if ad_state d = ''running'' then 0 else 1)
       (sort_key ad_sequence
         (filter (\<lambda>d. ad_agentId d = agentId \<and> ad_state d \<in> {''running'', ''queued''}) (db_dispatches db)))))"

definition event_dispatch ::
  "string option \<Rightarrow> string option \<Rightarrow> event_payload \<Rightarrow> ('z) task_db_scheme \<Rightarrow> string + string option" where
  "event_dispatch agentId attemptId payload db =
     (case (case truthy attemptId of
              None \<Rightarrow> None
            | Some a \<Rightarrow> Option.bind (find (\<lambda>t. tm_id t = a) (db_attempts db)) tm_dispatchId) of
        Some d \<Rightarrow> Inr (Some d)
      | None \<Rightarrow> (case pl_dispatchId payload of
          Some d \<Rightarrow> Inr (Some d)
        | None \<Rightarrow> (case truthy agentId of
            None \<Rightarrow> Inr None
          | Some g \<Rightarrow> bindE (getActiveAgentDispatch g db) (\<lambda>d. Inr (map_option ad_id d)))))"

definition next_seq :: "string \<Rightarrow> ('z) task_db_scheme \<Rightarrow> nat" where
  "next_seq taskId db = fold (\<lambda>e m. max m (ev_seq e)) (task_events taskId db) 0 + 1"

definition appendEventInternal ::
  "string \<Rightarrow> string option \<Rightarrow> string option \<Rightarrow> string \<Rightarrow> event_payload \<Rightarrow> ('z) task_db_scheme
    \<Rightarrow> string + ('z) task_db_scheme" where
  "appendEventInternal taskId agentId attemptId type payload db =
     bindE (event_dispatch agentId attemptId payload db) (\<lambda>dispatchId.
     Inr (db\<lparr>db_events := db_events db @
       [\<lparr>ev_taskId = taskId, ev_agentId = agentId, ev_dispatchId = dispatchId, ev_attemptId = attemptId,
         ev_seq = next_seq taskId db, ev_type = type, ev_payload = payload\<rparr>]\<rparr>))"

definition hasPassedAcceptance :: "string \<Rightarrow> string \<Rightarrow> ('z) task_db_scheme \<Rightarrow> bool" where
  "hasPassedAcceptance taskId criterionId db =
     (case rev (sort_key ev_seq (filter (\<lambda>e. (ev_type e = ''AcceptancePassed'' \<or> ev_type e = ''AcceptanceFailed'') \<and>
         pl_criterionId (ev_payload e) = Some criterionId) (task_events taskId db))) of
        [] \<Rightarrow> False
      | e # _ \<Rightarrow> ev_type e = ''AcceptancePassed'')"

definition hasPassedAllAcceptance :: "task_row \<Rightarrow> ('z) task_db_scheme \<Rightarrow> bool" where
  "hasPassedAllAcceptance task db = list_all (\<lambda>c. hasPassedAcceptance (tk_id task) (cr_id c) db) (tk_acceptance task)"

definition hasPendingManualAcceptance :: "task_row \<Rightarrow> ('z) task_db_scheme \<Rightarrow> bool" where
  "hasPendingManualAcceptance task db =
     list_ex (\<lambda>c. cr_kind c = ManualCriterion \<and> \<not> hasPassedAcceptance (tk_id task) (cr_id c) db) (tk_acceptance task)"

definition hasPendingAcceptanceRequest :: "string \<Rightarrow> ('z) task_db_scheme \<Rightarrow> bool" where
  "hasPendingAcceptanceRequest taskId db =
     list_ex (\<lambda>r. ev_type r = ''AcceptanceRequested'' \<and>
       \<not> list_ex (\<lambda>c. ev_type c = ''TaskCompleted'' \<and> ev_seq c > ev_seq r) (task_events taskId db)) (task_events taskId db)"

definition hasIncompleteRequiredDelegations :: "string \<Rightarrow> ('z) task_db_scheme \<Rightarrow> bool" where
  "hasIncompleteRequiredDelegations taskId db =
     list_ex (\<lambda>d. dg_taskId d = taskId \<and> dg_required d \<and> dg_state d \<noteq> ''completed'') (db_delegations db)"

definition is_unfinished_tool :: "string \<Rightarrow> ('z) task_db_scheme \<Rightarrow> event_row \<Rightarrow> bool" where
  "is_unfinished_tool taskId db e \<longleftrightarrow> ev_type e = ''ToolStarted'' \<and>
     \<not> list_ex (\<lambda>f. ev_type f = ''ToolFinished'' \<and> pl_toolCallId (ev_payload f) \<noteq> None \<and>
         pl_toolCallId (ev_payload f) = pl_toolCallId (ev_payload e)) (task_events taskId db)"

text \<open>
  \<open>listUnfinishedToolsInternal\<close> also checks the payload of what it found: a call id and an effect of
  the four known kinds (the tool's name is text in every event and is left out).
\<close>

datatype tool_effect = ReadOnly | ReconcilableWrite | Process | ExternalSideEffect

fun parse_effect :: "string \<Rightarrow> tool_effect option" where
  "parse_effect s =
     (if s = ''read_only'' then Some ReadOnly
      else if s = ''reconcilable_write'' then Some ReconcilableWrite
      else if s = ''process'' then Some Process
      else if s = ''external_side_effect'' then Some ExternalSideEffect
      else None)"

record unfinished_tool =
  ut_toolCallId :: string
  ut_effect :: tool_effect

definition read_unfinished_tool :: "event_row \<Rightarrow> string + unfinished_tool" where
  "read_unfinished_tool e =
     (case (pl_toolCallId (ev_payload e), Option.bind (pl_effect (ev_payload e)) parse_effect) of
        (Some c, Some k) \<Rightarrow> Inr \<lparr>ut_toolCallId = c, ut_effect = k\<rparr>
      | _ \<Rightarrow> Inl ''Corrupt ToolStarted event payload'')"

fun map_throwing :: "('a \<Rightarrow> 'e + 'b) \<Rightarrow> 'a list \<Rightarrow> 'e + 'b list" where
  "map_throwing f [] = Inr []"
| "map_throwing f (x # xs) = bindE (f x) (\<lambda>y. bindE (map_throwing f xs) (\<lambda>ys. Inr (y # ys)))"

definition listUnfinishedToolsInternal ::
  "string \<Rightarrow> string \<Rightarrow> ('z) task_db_scheme \<Rightarrow> string + unfinished_tool list" where
  "listUnfinishedToolsInternal taskId agentId db =
     map_throwing read_unfinished_tool
       (sort_key ev_seq (filter (\<lambda>e. ev_agentId e = Some agentId \<and> is_unfinished_tool taskId db e)
         (task_events taskId db)))"

definition hasUnfinishedTools :: "string \<Rightarrow> string \<Rightarrow> ('z) task_db_scheme \<Rightarrow> string + bool" where
  "hasUnfinishedTools taskId agentId db =
     bindE (listUnfinishedToolsInternal taskId agentId db) (\<lambda>tools. Inr (tools \<noteq> []))"

section \<open>Completion check and transitions\<close>

definition assertCompletionReady :: "string \<Rightarrow> ('z) task_db_scheme \<Rightarrow> string + unit" where
  "assertCompletionReady taskId db =
     bindE (requireTask taskId db) (\<lambda>task.
     bindE (case find (\<lambda>c. \<not> hasPassedAcceptance taskId (cr_id c) db) (tk_acceptance task) of
              None \<Rightarrow> Inr ()
            | Some c \<Rightarrow> Inl (''Acceptance criterion has not passed: '' @ cr_id c)) (\<lambda>_.
     bindE (guardE (hasIncompleteRequiredDelegations taskId db) ''Required delegations are not complete'') (\<lambda>_.
     bindE (guardE (list_ex (is_unfinished_tool taskId db) (task_events taskId db))
       ''Task has tools with unknown outcomes'') (\<lambda>_.
     guardE (taskId \<notin> set (db_checkpoints db)) ''Task completion requires a checkpoint''))))"

definition set_agents ::
  "(agent_row \<Rightarrow> bool) \<Rightarrow> (agent_row \<Rightarrow> agent_row) \<Rightarrow> string \<Rightarrow> ('z) task_db_scheme \<Rightarrow> ('z) task_db_scheme" where
  "set_agents which f taskId db =
     db\<lparr>db_agents := map (\<lambda>a. if ag_taskId a = taskId \<and> which a then f a else a) (db_agents db)\<rparr>"

definition flow_ids :: "string \<Rightarrow> ('z) task_db_scheme \<Rightarrow> string list" where
  "flow_ids taskId db = map fl_id (filter (\<lambda>f. fl_taskId f = taskId) (db_flows db))"

definition requeue_running_nodes :: "string \<Rightarrow> ('z) task_db_scheme \<Rightarrow> ('z) task_db_scheme" where
  "requeue_running_nodes taskId db =
     db\<lparr>db_flowNodes := map (\<lambda>n. if nd_flowId n \<in> set (flow_ids taskId db) \<and> nd_state n = ''running''
        then n\<lparr>nd_state := ''queued''\<rparr> else n) (db_flowNodes db)\<rparr>"

fun settled_agent_state :: "task_state \<Rightarrow> agent_state" where
  "settled_agent_state TCompleted = ACompleted"
| "settled_agent_state TFailed = AFailed"
| "settled_agent_state s = ACancelled"

definition is_settled_agent :: "agent_state \<Rightarrow> bool" where
  "is_settled_agent s \<longleftrightarrow> s \<in> {ACompleted, AFailed, ACancelled}"

definition settled_node_states :: "string list" where
  "settled_node_states = [''completed'', ''failed'', ''skipped'', ''cancelled'']"

definition active_dispatch_states :: "string list" where
  "active_dispatch_states = [''queued'', ''running'', ''finalizing'']"

definition settle_task :: "int \<Rightarrow> task_state \<Rightarrow> string \<Rightarrow> ('z) task_db_scheme \<Rightarrow> ('z) task_db_scheme" where
  "settle_task now nextState taskId db =
     (let agents = map (\<lambda>a. if ag_taskId a = taskId \<and> \<not> is_settled_agent (ag_state a)
            then a\<lparr>ag_state := settled_agent_state nextState, ag_completedAt := Some now\<rparr> else a) (db_agents db);
          attempts = map (\<lambda>a. if tm_taskId a = taskId \<and>
              tm_state a \<notin> {''completed'', ''failed'', ''cancelled'', ''unknown_outcome''}
            then a\<lparr>tm_state := task_state_text nextState, tm_settledAt := Some now\<rparr> else a) (db_attempts db);
          dispatches = map (\<lambda>d. if ad_taskId d = taskId \<and> ad_state d \<in> set active_dispatch_states
            then d\<lparr>ad_state := task_state_text nextState, ad_settledAt := Some now\<rparr> else d) (db_dispatches db);
          flowNodeState = (if nextState = TFailed then ''failed'' else ''cancelled'');
          nodes = map (\<lambda>n. if nd_flowId n \<in> set (flow_ids taskId db) \<and> nd_state n \<notin> set settled_node_states
            then n\<lparr>nd_state := flowNodeState, nd_completedAt := Some now\<rparr> else n) (db_flowNodes db);
          flows = map (\<lambda>f. if fl_taskId f = taskId \<and> fl_state f = ''running''
            then f\<lparr>fl_state := task_state_text nextState, fl_completedAt := Some now\<rparr> else f) (db_flows db) in
      db\<lparr>db_agents := agents, db_attempts := attempts, db_dispatches := dispatches, db_flowNodes := nodes,
         db_flows := flows\<rparr>)"

fun propagate_state :: "int \<Rightarrow> task_state \<Rightarrow> string \<Rightarrow> ('z) task_db_scheme \<Rightarrow> ('z) task_db_scheme" where
  "propagate_state now TQueued taskId db =
     set_agents (\<lambda>a. ag_state a \<in> {ACreated, APaused, AWaitingMessage, AWaitingExternal, AUnknownOutcome})
       (\<lambda>a. a\<lparr>ag_state := AQueued\<rparr>) taskId db"
| "propagate_state now TWaitingInput taskId db =
     requeue_running_nodes taskId (set_agents (\<lambda>a. ag_state a = ARunning) (\<lambda>a. a\<lparr>ag_state := AWaitingMessage\<rparr>) taskId db)"
| "propagate_state now TWaitingExternal taskId db =
     requeue_running_nodes taskId (set_agents (\<lambda>a. ag_state a = ARunning) (\<lambda>a. a\<lparr>ag_state := AWaitingExternal\<rparr>) taskId db)"
| "propagate_state now TPaused taskId db =
     requeue_running_nodes taskId
       (set_agents (\<lambda>a. ag_state a \<notin> {ACompleted, AFailed, ACancelled, AUnknownOutcome}) (\<lambda>a. a\<lparr>ag_state := APaused\<rparr>) taskId db)"
| "propagate_state now TCompleted taskId db = settle_task now TCompleted taskId db"
| "propagate_state now TCancelled taskId db = settle_task now TCancelled taskId db"
| "propagate_state now TFailed taskId db = settle_task now TFailed taskId db"
| "propagate_state now _ taskId db = db"

fun transition_event :: "task_state \<Rightarrow> string" where
  "transition_event TQueued = ''TaskQueued''"
| "transition_event TPaused = ''TaskPaused''"
| "transition_event TCompleted = ''TaskCompleted''"
| "transition_event TFailed = ''TaskFailed''"
| "transition_event TCancelled = ''TaskCancelled''"
| "transition_event TWaitingInput = ''TaskWaiting''"
| "transition_event TWaitingExternal = ''TaskWaiting''"
| "transition_event TRunning = ''AttemptStarted''"
| "transition_event _ = ''ToolOutcomeUnknown''"

definition set_task_state :: "int \<Rightarrow> task_state \<Rightarrow> string option \<Rightarrow> string \<Rightarrow> ('z) task_db_scheme \<Rightarrow> ('z) task_db_scheme" where
  "set_task_state now nextState reason taskId db =
     db\<lparr>db_tasks := map (\<lambda>t. if tk_id t = taskId
        then t\<lparr>tk_state := nextState, tk_reason := reason,
               tk_completedAt := (if nextState = TCompleted then Some now else None)\<rparr> else t) (db_tasks db)\<rparr>"

definition transitionTask ::
  "int \<Rightarrow> string \<Rightarrow> task_state \<Rightarrow> string option \<Rightarrow> ('z) task_db_scheme \<Rightarrow> string + ('z) task_db_scheme" where
  "transitionTask now taskId nextState reason db =
     bindE (requireTask taskId db) (\<lambda>task.
     bindE (guardE (nextState \<notin> set (TASK_TRANSITIONS (tk_state task)))
       (''Illegal task transition: '' @ task_state_text (tk_state task) @ '' -> '' @ task_state_text nextState)) (\<lambda>_.
     bindE (if nextState = TCompleted then assertCompletionReady taskId db else Inr ()) (\<lambda>_.
     appendEventInternal taskId None None (transition_event nextState) no_payload
       (propagate_state now nextState taskId (set_task_state now nextState reason taskId db)))))"

section \<open>What the completion check guarantees\<close>

named_theorems task_defs \<open>operations on the task tables that only rewrite rows\<close>

declare set_agents_def [task_defs] requeue_running_nodes_def [task_defs] set_task_state_def [task_defs]
  settle_task_def [task_defs] flow_ids_def [task_defs] Let_def [task_defs]

text \<open>A verdict of a criterion, and that the newest one (by sequence number) is a pass.\<close>

definition is_verdict :: "string \<Rightarrow> event_row \<Rightarrow> bool" where
  "is_verdict c e \<longleftrightarrow> ev_type e \<in> {''AcceptancePassed'', ''AcceptanceFailed''} \<and> pl_criterionId (ev_payload e) = Some c"

definition newest_verdict_passes :: "string \<Rightarrow> string \<Rightarrow> ('z) task_db_scheme \<Rightarrow> bool" where
  "newest_verdict_passes taskId c db \<longleftrightarrow>
     (\<exists>e\<in>set (task_events taskId db). is_verdict c e \<and> ev_type e = ''AcceptancePassed'' \<and>
        (\<forall>f\<in>set (task_events taskId db). is_verdict c f \<longrightarrow> ev_seq f \<le> ev_seq e))"

lemma rev_sort_hd_max:
  assumes "rev (sort_key k xs) = y # ys"
  shows "y \<in> set xs" and "x \<in> set xs \<Longrightarrow> k x \<le> k y"
proof -
  have ss: "sort_key k xs = rev ys @ [y]" using assms by (metis rev.simps(2) rev_rev_ident)
  show "y \<in> set xs" by (metis ss set_sort in_set_conv_decomp)
  have "sorted (map k (rev ys @ [y]))" using sorted_sort_key [of k xs] by (simp add: ss)
  moreover assume "x \<in> set xs"
  then have "x \<in> set (rev ys @ [y])" by (metis ss set_sort)
  ultimately show "k x \<le> k y" by (auto simp: sorted_append)
qed

lemma passed_acceptance_newest:
  assumes "hasPassedAcceptance taskId c db"
  shows "newest_verdict_passes taskId c db"
proof -
  let ?vs = "filter (is_verdict c) (task_events taskId db)"
  have eq: "filter (\<lambda>e. (ev_type e = ''AcceptancePassed'' \<or> ev_type e = ''AcceptanceFailed'') \<and>
      pl_criterionId (ev_payload e) = Some c) (task_events taskId db) = ?vs"
    by (rule filter_cong) (auto simp: is_verdict_def)
  from assms obtain e es where e: "rev (sort_key ev_seq ?vs) = e # es" "ev_type e = ''AcceptancePassed''"
    unfolding hasPassedAcceptance_def eq by (auto split: list.splits)
  from rev_sort_hd_max [OF e(1)] e(2) show ?thesis
    unfolding newest_verdict_passes_def by auto
qed

lemma find_None_all: "find P xs = None \<longleftrightarrow> (\<forall>x\<in>set xs. \<not> P x)"
  by (auto simp: find_None_iff)

lemma completion_readyD:
  assumes "assertCompletionReady taskId db = Inr u" "getTask taskId db = Some task"
  shows "\<forall>c\<in>set (tk_acceptance task). newest_verdict_passes taskId (cr_id c) db"
    and "\<forall>d\<in>set (db_delegations db). dg_taskId d = taskId \<longrightarrow> dg_required d \<longrightarrow> dg_state d = ''completed''"
    and "\<forall>e\<in>set (task_events taskId db). ev_type e = ''ToolStarted'' \<longrightarrow>
      (\<exists>f\<in>set (task_events taskId db). ev_type f = ''ToolFinished'' \<and> pl_toolCallId (ev_payload f) \<noteq> None \<and>
         pl_toolCallId (ev_payload f) = pl_toolCallId (ev_payload e))"
    and "taskId \<in> set (db_checkpoints db)"
  using assms passed_acceptance_newest [of taskId _ db]
  by (auto simp: assertCompletionReady_def requireTask_def bindE_eq_Inr find_None_all is_unfinished_tool_def
      list_ex_iff hasIncompleteRequiredDelegations_def split: option.splits)

text \<open>
  The event log is append-only and separate from every other table: what is read from the other
  tables is the same after one or several events.
\<close>

locale event_frame =
  fixes view :: "('z) task_db_scheme \<Rightarrow> 'a"
  assumes events_apart: "view (db\<lparr>db_events := es\<rparr>) = view db"
begin

lemma event_keeps: "appendEventInternal t a i type pl db = Inr d \<Longrightarrow> view d = view db"
  by (auto simp: appendEventInternal_def bindE_eq_Inr events_apart)

lemma events_keep: "foldE (\<lambda>type. appendEventInternal t a i type pl) types db = Inr d \<Longrightarrow> view d = view db"
  by (erule foldE_invariant) (auto dest: event_keeps)

end

text \<open>An operation that appends an event for no agent cannot fail and changes no other table.\<close>

lemma append_task_event:
  "appendEventInternal taskId None None type no_payload db =
     Inr (db\<lparr>db_events := db_events db @
       [\<lparr>ev_taskId = taskId, ev_agentId = None, ev_dispatchId = None, ev_attemptId = None,
         ev_seq = next_seq taskId db, ev_type = type, ev_payload = no_payload\<rparr>]\<rparr>)"
  by (simp add: appendEventInternal_def event_dispatch_def truthy_def)

lemma transitionTask_Inr:
  "transitionTask now taskId nextState reason db = Inr db' \<longleftrightarrow>
     (\<exists>task. getTask taskId db = Some task \<and> nextState \<in> set (TASK_TRANSITIONS (tk_state task)) \<and>
        (nextState = TCompleted \<longrightarrow> assertCompletionReady taskId db = Inr ()) \<and>
        appendEventInternal taskId None None (transition_event nextState) no_payload
          (propagate_state now nextState taskId (set_task_state now nextState reason taskId db)) = Inr db')"
  by (auto simp: transitionTask_def requireTask_def bindE_eq_Inr split: option.splits if_splits)

text \<open>
  C29: A task is only ever completed from the running state, with the newest verdict of every
  acceptance criterion a pass, every required delegation completed, every started tool call
  finished, and a checkpoint on record.
\<close>

theorem completion_verified:
  assumes "transitionTask now taskId TCompleted reason db = Inr db'"
  shows "\<exists>task. getTask taskId db = Some task \<and> tk_state task = TRunning \<and>
     (\<forall>c\<in>set (tk_acceptance task). newest_verdict_passes taskId (cr_id c) db) \<and>
     (\<forall>d\<in>set (db_delegations db). dg_taskId d = taskId \<longrightarrow> dg_required d \<longrightarrow> dg_state d = ''completed'') \<and>
     (\<forall>e\<in>set (task_events taskId db). ev_type e = ''ToolStarted'' \<longrightarrow>
        (\<exists>f\<in>set (task_events taskId db). ev_type f = ''ToolFinished'' \<and> pl_toolCallId (ev_payload f) \<noteq> None \<and>
           pl_toolCallId (ev_payload f) = pl_toolCallId (ev_payload e))) \<and>
     taskId \<in> set (db_checkpoints db)"
proof -
  from assms obtain task where task: "getTask taskId db = Some task" "TCompleted \<in> set (TASK_TRANSITIONS (tk_state task))"
    "assertCompletionReady taskId db = Inr ()" by (auto simp: transitionTask_Inr)
  from task(2) have "tk_state task = TRunning" by (cases "tk_state task") auto
  with task(1) completion_readyD [OF task(3,1)] show ?thesis by blast
qed

text \<open>
  Two tasks: \<open>t\<close> is running with its criterion passed after an earlier failure, one finished tool
  call, a settled subagent and a flow; \<open>u\<close> is another running task.
\<close>

definition sample_event :: "nat \<Rightarrow> string \<Rightarrow> event_payload \<Rightarrow> event_row" where
  "sample_event n ty pl = \<lparr>ev_taskId = ''t'', ev_agentId = Some ''m'', ev_dispatchId = None, ev_attemptId = None,
     ev_seq = n, ev_type = ty, ev_payload = pl\<rparr>"

definition sample_db :: task_db where
  "sample_db = \<lparr>db_tasks =
      [\<lparr>tk_id = ''t'', tk_state = TRunning, tk_reason = None, tk_acceptance = [\<lparr>cr_id = ''c'', cr_kind = CommandCriterion\<rparr>],
        tk_totalTurns = 3, tk_maxTurns = 9, tk_completedAt = None\<rparr>,
       \<lparr>tk_id = ''u'', tk_state = TRunning, tk_reason = None, tk_acceptance = [], tk_totalTurns = 0, tk_maxTurns = 9,
        tk_completedAt = None\<rparr>],
     db_agents =
      [\<lparr>ag_id = ''m'', ag_taskId = ''t'', ag_kind = KindMain, ag_state = ARunning, ag_completedAt = None\<rparr>,
       \<lparr>ag_id = ''s'', ag_taskId = ''t'', ag_kind = KindSubagent, ag_state = ACompleted, ag_completedAt = Some 4\<rparr>,
       \<lparr>ag_id = ''v'', ag_taskId = ''u'', ag_kind = KindMain, ag_state = ARunning, ag_completedAt = None\<rparr>],
     db_attempts =
      [\<lparr>tm_id = ''a'', tm_taskId = ''t'', tm_agentId = ''m'', tm_dispatchId = Some ''d'', tm_ordinal = 1,
        tm_state = ''running'', tm_settledAt = None\<rparr>],
     db_dispatches =
      [\<lparr>ad_id = ''d'', ad_taskId = ''t'', ad_agentId = ''m'', ad_sequence = 1, ad_state = ''running'', ad_settledAt = None\<rparr>],
     db_delegations = [\<lparr>dg_taskId = ''t'', dg_childAgentId = ''s'', dg_required = True,
        dg_state = ''completed'', dg_completedAt = Some 4\<rparr>],
     db_flows = [\<lparr>fl_id = ''f'', fl_taskId = ''t'', fl_state = ''running'', fl_completedAt = None\<rparr>],
     db_flowNodes =
      [\<lparr>nd_flowId = ''f'', nd_key = ''n'', nd_agentId = ''s'', nd_dispatchId = ''e'', nd_required = True,
        nd_state = ''completed'', nd_completedAt = Some 4\<rparr>],
     db_flowEdges = [], db_episodes = [],
     db_events =
      [sample_event 1 ''AcceptanceFailed'' (no_payload\<lparr>pl_criterionId := Some ''c''\<rparr>),
       sample_event 2 ''ToolStarted'' (no_payload\<lparr>pl_toolCallId := Some ''k'', pl_effect := Some ''process''\<rparr>),
       sample_event 3 ''ToolFinished'' (no_payload\<lparr>pl_toolCallId := Some ''k''\<rparr>),
       sample_event 4 ''AcceptancePassed'' (no_payload\<lparr>pl_criterionId := Some ''c''\<rparr>)],
     db_checkpoints = [''t'']\<rparr>"

lemma sample_completes: "\<exists>db'. transitionTask 9 ''t'' TCompleted None sample_db = Inr db'"
proof -
  have "hasPassedAcceptance ''t'' ''c'' sample_db"
    by (simp add: hasPassedAcceptance_def sample_db_def sample_event_def task_events_def)
  then have "assertCompletionReady ''t'' sample_db = Inr ()"
    by (simp add: assertCompletionReady_def sample_db_def sample_event_def task_events_def requireTask_def getTask_def
        hasIncompleteRequiredDelegations_def is_unfinished_tool_def)
  then show ?thesis
    by (simp add: transitionTask_Inr append_task_event) (simp add: sample_db_def getTask_def)
qed

theorem completion_verified_witness:
  "\<exists>task. getTask ''t'' sample_db = Some task \<and> tk_state task = TRunning \<and>
     (\<forall>c\<in>set (tk_acceptance task). newest_verdict_passes ''t'' (cr_id c) sample_db)"
proof -
  from sample_completes obtain db' where "transitionTask 9 ''t'' TCompleted None sample_db = Inr db'" ..
  from completion_verified [OF this] show ?thesis by blast
qed

section \<open>What a terminal transition leaves behind\<close>

definition task_settled :: "string \<Rightarrow> ('z) task_db_scheme \<Rightarrow> bool" where
  "task_settled taskId db \<longleftrightarrow>
     (\<forall>a\<in>set (db_agents db). ag_taskId a = taskId \<longrightarrow> is_settled_agent (ag_state a)) \<and>
     (\<forall>t\<in>set (db_attempts db). tm_taskId t = taskId \<longrightarrow>
        tm_state t \<in> {''completed'', ''failed'', ''cancelled'', ''unknown_outcome''}) \<and>
     (\<forall>d\<in>set (db_dispatches db). ad_taskId d = taskId \<longrightarrow> ad_state d \<notin> set active_dispatch_states) \<and>
     (\<forall>f\<in>set (db_flows db). fl_taskId f = taskId \<longrightarrow> fl_state f \<noteq> ''running'') \<and>
     (\<forall>n\<in>set (db_flowNodes db). nd_flowId n \<in> set (flow_ids taskId db) \<longrightarrow> nd_state n \<in> set settled_node_states)"

text \<open>The rows of every other task, of which an operation on one task must not touch any.\<close>

definition same_elsewhere :: "string \<Rightarrow> ('z) task_db_scheme \<Rightarrow> ('z) task_db_scheme \<Rightarrow> bool" where
  "same_elsewhere taskId db db' \<longleftrightarrow>
     filter (\<lambda>t. tk_id t \<noteq> taskId) (db_tasks db') = filter (\<lambda>t. tk_id t \<noteq> taskId) (db_tasks db) \<and>
     filter (\<lambda>a. ag_taskId a \<noteq> taskId) (db_agents db') = filter (\<lambda>a. ag_taskId a \<noteq> taskId) (db_agents db) \<and>
     filter (\<lambda>t. tm_taskId t \<noteq> taskId) (db_attempts db') = filter (\<lambda>t. tm_taskId t \<noteq> taskId) (db_attempts db) \<and>
     filter (\<lambda>d. ad_taskId d \<noteq> taskId) (db_dispatches db') = filter (\<lambda>d. ad_taskId d \<noteq> taskId) (db_dispatches db) \<and>
     filter (\<lambda>f. fl_taskId f \<noteq> taskId) (db_flows db') = filter (\<lambda>f. fl_taskId f \<noteq> taskId) (db_flows db) \<and>
     filter (\<lambda>n. nd_flowId n \<notin> set (flow_ids taskId db)) (db_flowNodes db') =
       filter (\<lambda>n. nd_flowId n \<notin> set (flow_ids taskId db)) (db_flowNodes db) \<and>
     filter (\<lambda>e. ev_taskId e \<noteq> taskId) (db_events db') = filter (\<lambda>e. ev_taskId e \<noteq> taskId) (db_events db) \<and>
     db_delegations db' = db_delegations db \<and> db_flowEdges db' = db_flowEdges db \<and> db_checkpoints db' = db_checkpoints db"

text \<open>An update of some rows, written as \<open>map\<close>, keeps the rows it does not select and those outside its scope.\<close>

lemma filter_map_update:
  assumes "\<And>x. x \<in> set xs \<Longrightarrow> P x \<Longrightarrow> \<not> sel x" and "\<And>x. x \<in> set xs \<Longrightarrow> \<not> P x \<Longrightarrow> sel x \<Longrightarrow> \<not> P (f x)"
  shows "filter P (map (\<lambda>x. if sel x then f x else x) xs) = filter P xs"
  using assms by (induction xs) auto

lemma map_update_id: "(\<And>x. g (f x) = g x) \<Longrightarrow> map (\<lambda>x. g (if sel x then f x else x)) xs = map g xs"
  by (rule map_cong) auto

lemma same_elsewhere_propagate:
  "same_elsewhere taskId db (propagate_state now nextState taskId (set_task_state now nextState reason taskId db))"
  by (cases nextState) (simp_all add: same_elsewhere_def task_defs filter_map_update)

lemma transitionTask_same_elsewhere:
  assumes "transitionTask now taskId nextState reason db = Inr db'"
  shows "same_elsewhere taskId db db'"
  using assms same_elsewhere_propagate [of taskId db now nextState reason]
  by (auto simp: transitionTask_Inr append_task_event same_elsewhere_def)

lemma ball_map_updateI:
  assumes "\<And>x. sel x \<Longrightarrow> Q (f x)" and "\<And>x. \<not> sel x \<Longrightarrow> Q x"
  shows "\<forall>y\<in>set (map (\<lambda>x. if sel x then f x else x) xs). Q y"
  using assms by auto

lemma settle_task_flow_ids: "flow_ids taskId (settle_task now nextState taskId db) = flow_ids taskId db"
proof -
  have "map fl_id (filter (\<lambda>f. fl_taskId f = taskId) (map (\<lambda>f. if P f then g f else f) xs)) =
      map fl_id (filter (\<lambda>f. fl_taskId f = taskId) xs)"
    if "\<And>f. fl_id (g f) = fl_id f" "\<And>f. fl_taskId (g f) = fl_taskId f" for P and g :: "flow_row \<Rightarrow> flow_row" and xs
    using that by (induction xs) auto
  then show ?thesis by (simp add: flow_ids_def settle_task_def Let_def)
qed

lemma settle_task_tables:
  "db_agents (settle_task now nextState taskId db) =
     map (\<lambda>a. if ag_taskId a = taskId \<and> \<not> is_settled_agent (ag_state a)
       then a\<lparr>ag_state := settled_agent_state nextState, ag_completedAt := Some now\<rparr> else a) (db_agents db)"
  "db_attempts (settle_task now nextState taskId db) =
     map (\<lambda>a. if tm_taskId a = taskId \<and> tm_state a \<notin> {''completed'', ''failed'', ''cancelled'', ''unknown_outcome''}
       then a\<lparr>tm_state := task_state_text nextState, tm_settledAt := Some now\<rparr> else a) (db_attempts db)"
  "db_dispatches (settle_task now nextState taskId db) =
     map (\<lambda>d. if ad_taskId d = taskId \<and> ad_state d \<in> set active_dispatch_states
       then d\<lparr>ad_state := task_state_text nextState, ad_settledAt := Some now\<rparr> else d) (db_dispatches db)"
  "db_flowNodes (settle_task now nextState taskId db) =
     map (\<lambda>n. if nd_flowId n \<in> set (flow_ids taskId db) \<and> nd_state n \<notin> set settled_node_states
       then n\<lparr>nd_state := (if nextState = TFailed then ''failed'' else ''cancelled''), nd_completedAt := Some now\<rparr>
       else n) (db_flowNodes db)"
  "db_flows (settle_task now nextState taskId db) =
     map (\<lambda>f. if fl_taskId f = taskId \<and> fl_state f = ''running''
       then f\<lparr>fl_state := task_state_text nextState, fl_completedAt := Some now\<rparr> else f) (db_flows db)"
  by (simp_all add: settle_task_def Let_def)

lemma settle_task_settles:
  assumes "nextState \<in> {TCompleted, TFailed, TCancelled}"
  shows "task_settled taskId (settle_task now nextState taskId db)"
proof -
  have sts: "task_state_text nextState \<in> {''completed'', ''failed'', ''cancelled''}"
    and sas: "is_settled_agent (settled_agent_state nextState)"
    using assms by (auto simp: is_settled_agent_def)
  have names: "task_state_text nextState \<noteq> ''running''" "task_state_text nextState \<notin> set active_dispatch_states"
    using sts by (auto simp: active_dispatch_states_def)
  have node: "(if nextState = TFailed then ''failed'' else ''cancelled'') \<in> set settled_node_states"
    by (simp add: settled_node_states_def)
  show ?thesis
    unfolding task_settled_def settle_task_flow_ids settle_task_tables
    by (intro conjI ball_map_updateI; insert sts; simp add: sas names node; blast?)
qed

lemma find_update_same:
  assumes "find P xs = Some x" and "\<And>y. P (f y) = P y"
  shows "find P (map (\<lambda>y. if P y then f y else y) xs) = Some (f x)"
  using assms by (induction xs) (auto split: if_splits)

lemma getTask_set_state:
  assumes "getTask taskId db = Some task"
  shows "\<exists>task'. getTask taskId (set_task_state now nextState reason taskId db) = Some task' \<and> tk_state task' = nextState"
  using assms unfolding getTask_def set_task_state_def
  by (simp add: find_update_same [where P = "\<lambda>t. tk_id t = taskId"])

lemma getTask_propagate [simp]: "getTask taskId (propagate_state now nextState t db) = getTask taskId db"
  by (cases nextState) (simp_all add: getTask_def task_defs)



end
