(* ===== verification/Task_Flow.thy ===== *)
theory Task_Flow
  imports Prelude "HOL-Library.List_Lexorder" "HOL-Library.Char_ord"
begin

text \<open>
  Validation of a flow of delegated agents (packages/long-tasks/src/flow.ts): the static checks of
  the nodes and the layering of the dependency graph into waves. Errors are the messages thrown.
  \<open>sort()\<close> on keys is the lexicographic order of the library.
\<close>

section \<open>Text helpers\<close>

definition is_js_space :: "char \<Rightarrow> bool" where
  "is_js_space c \<longleftrightarrow> (of_char c :: nat) \<in> {9, 10, 11, 12, 13, 32, 160}"

definition js_trim :: "string \<Rightarrow> string" where
  "js_trim s = rev (dropWhile is_js_space (rev (dropWhile is_js_space s)))"

definition is_lower :: "char \<Rightarrow> bool" where
  "is_lower c \<longleftrightarrow> 97 \<le> (of_char c :: nat) \<and> (of_char c :: nat) \<le> 122"

definition is_key_char :: "char \<Rightarrow> bool" where
  "is_key_char c \<longleftrightarrow> is_lower c \<or> (48 \<le> (of_char c :: nat) \<and> (of_char c :: nat) \<le> 57) \<or> c = CHR ''_'' \<or> c = CHR ''-''"

definition valid_node_key :: "string \<Rightarrow> bool" where
  "valid_node_key k = (case k of [] \<Rightarrow> False | c # cs \<Rightarrow> is_lower c \<and> length cs \<le> 63 \<and> list_all is_key_char cs)"

section \<open>Flow definitions\<close>

datatype workspace_mode = ReadOnlyShared | IsolatedWorktree | Primary

record flow_node =
  fn_key :: string
  fn_dependsOn :: "string list"
  fn_allowedTools :: "string list"
  fn_workspaceMode :: workspace_mode

record flow_definition =
  fd_objective :: string
  fd_nodes :: "flow_node list"

definition MAX_FLOW_NODES :: nat where "MAX_FLOW_NODES = 32"

definition orchestration_tools :: "string list" where
  "orchestration_tools = [''agent_spawn'', ''agent_dispatch'', ''delegate_task'', ''flow_define'', ''task_update'']"

fun check_nodes :: "flow_node list \<Rightarrow> string list \<Rightarrow> string + string list" where
  "check_nodes [] keys = Inr keys"
| "check_nodes (n # ns) keys =
     bindE (guardE (\<not> valid_node_key (fn_key n)) (''Invalid Flow node key: '' @ fn_key n)) (\<lambda>_.
     bindE (guardE (fn_key n \<in> set keys) (''Duplicate Flow node key: '' @ fn_key n)) (\<lambda>_.
     bindE (guardE (''agent_report'' \<notin> set (fn_allowedTools n)) (''Flow node must allow agent_report: '' @ fn_key n)) (\<lambda>_.
     bindE (case find (\<lambda>t. t \<in> set orchestration_tools) (fn_allowedTools n) of
              None \<Rightarrow> Inr ()
            | Some t \<Rightarrow> Inl (''Flow node cannot allow orchestration tool '' @ t @ '': '' @ fn_key n)) (\<lambda>_.
     bindE (guardE (fn_key n \<in> set (fn_dependsOn n)) (''Flow node cannot depend on itself: '' @ fn_key n)) (\<lambda>_.
     check_nodes ns (keys @ [fn_key n]))))))"

definition nodesByKey :: "flow_node list \<Rightarrow> (string \<times> flow_node) list" where
  "nodesByKey ns = map_put_all (map (\<lambda>n. (fn_key n, n)) ns) []"

definition is_writable_dependency :: "(string \<times> flow_node) list \<Rightarrow> string \<Rightarrow> bool" where
  "is_writable_dependency byKey d =
     (case map_of byKey d of None \<Rightarrow> False | Some n \<Rightarrow> fn_workspaceMode n = IsolatedWorktree)"

fun check_writable :: "(string \<times> flow_node) list \<Rightarrow> flow_node list \<Rightarrow> string + unit" where
  "check_writable byKey [] = Inr ()"
| "check_writable byKey (n # ns) =
     (case find (is_writable_dependency byKey) (fn_dependsOn n) of
        Some d \<Rightarrow> Inl (''Writable Flow dependency '' @ d @ '' -> '' @ fn_key n @ '' requires change-bundle composition'')
      | None \<Rightarrow> check_writable byKey ns)"

fun check_dependencies :: "string list \<Rightarrow> flow_node list \<Rightarrow> string + unit" where
  "check_dependencies keys [] = Inr ()"
| "check_dependencies keys (n # ns) =
     bindE (guardE (\<not> distinct (fn_dependsOn n)) (''Duplicate Flow dependency for '' @ fn_key n)) (\<lambda>_.
     case find (\<lambda>d. d \<notin> set keys) (fn_dependsOn n) of
       Some d \<Rightarrow> Inl (''Unknown Flow dependency '' @ d @ '' for '' @ fn_key n)
     | None \<Rightarrow> check_dependencies keys ns)"

text \<open>The layering loop: \<open>pending\<close> maps a key to the dependencies that are not placed yet.\<close>

type_synonym pending = "(string \<times> string list) list"

definition next_wave :: "pending \<Rightarrow> string list" where
  "next_wave p = sort (map fst (filter (\<lambda>(k, ds). ds = []) p))"

definition drop_wave :: "string list \<Rightarrow> pending \<Rightarrow> pending" where
  "drop_wave wave p = map (\<lambda>(k, ds). (k, filter (\<lambda>d. d \<notin> set wave) ds)) (filter (\<lambda>(k, ds). k \<notin> set wave) p)"

lemma set_next_wave: "set (next_wave p) = {k. (k, []) \<in> set p}"
  by (force simp: next_wave_def)

lemma drop_wave_shrinks:
  assumes "next_wave p \<noteq> []"
  shows "length (drop_wave (next_wave p) p) < length p"
proof -
  obtain k where "k \<in> set (next_wave p)" using assms by (cases "next_wave p") auto
  then have "\<exists>x \<in> set p. \<not> (case x of (k, ds) \<Rightarrow> k \<notin> set (next_wave p))"
    by (intro bexI [of _ "(k, [])"]) (auto simp: set_next_wave)
  then show ?thesis unfolding drop_wave_def length_map by (elim bexE) (rule length_filter_less)
qed

function layer_waves :: "pending \<Rightarrow> string list list \<Rightarrow> string + string list list" where
  "layer_waves p waves =
     (if p = [] then Inr waves
      else if next_wave p = [] then Inl ''Flow graph contains a dependency cycle''
      else layer_waves (drop_wave (next_wave p) p) (waves @ [next_wave p]))"
  by pat_completeness auto
termination
  by (relation "measure (\<lambda>(p, waves). length p)") (auto simp: drop_wave_shrinks)

declare layer_waves.simps [simp del]

definition initial_pending :: "flow_node list \<Rightarrow> pending" where
  "initial_pending ns = map_put_all (map (\<lambda>n. (fn_key n, remdups (fn_dependsOn n))) ns) []"

definition validateFlowDefinition :: "flow_definition \<Rightarrow> string + string list list" where
  "validateFlowDefinition d =
     bindE (guardE (js_trim (fd_objective d) = []) ''Flow objective is required'') (\<lambda>_.
     bindE (guardE (fd_nodes d = [] \<or> length (fd_nodes d) > MAX_FLOW_NODES)
       (''Flow must contain 1..'' @ show_nat MAX_FLOW_NODES @ '' nodes'')) (\<lambda>_.
     bindE (check_nodes (fd_nodes d) []) (\<lambda>keys.
     bindE (check_writable (nodesByKey (fd_nodes d)) (fd_nodes d)) (\<lambda>_.
     bindE (check_dependencies keys (fd_nodes d)) (\<lambda>_.
     layer_waves (initial_pending (fd_nodes d)) [])))))"

section \<open>Layers respect the dependencies\<close>

definition pending_ok :: "pending \<Rightarrow> bool" where
  "pending_ok p \<longleftrightarrow> distinct (map fst p) \<and> (\<forall>(k, ds) \<in> set p. set ds \<subseteq> fst ` set p)"

definition depends :: "pending \<Rightarrow> (string \<times> string) set" where
  "depends p = {(d, k). \<exists>ds. (k, ds) \<in> set p \<and> d \<in> set ds}"

lemma distinct_next_wave: "distinct (map fst p) \<Longrightarrow> distinct (next_wave p)"
  by (simp add: next_wave_def distinct_map_filter)

lemma drop_wave_keys: "map fst (drop_wave w p) = filter (\<lambda>k. k \<notin> set w) (map fst p)"
  by (induction p) (auto simp: drop_wave_def)

lemma drop_wave_mem: "(k, ds) \<in> set (drop_wave w p) \<longleftrightarrow> k \<notin> set w \<and> (\<exists>es. (k, es) \<in> set p \<and> ds = filter (\<lambda>d. d \<notin> set w) es)"
  by (auto simp: drop_wave_def)

lemma drop_wave_ok:
  assumes "pending_ok p"
  shows "pending_ok (drop_wave w p)"
proof -
  have "fst ` set (drop_wave w p) = fst ` set p - set w"
    using arg_cong [OF drop_wave_keys [of w p], of set] by auto
  then show ?thesis
    using assms by (fastforce simp: pending_ok_def drop_wave_keys drop_wave_mem)
qed

definition placed_before :: "string list list \<Rightarrow> string \<Rightarrow> string \<Rightarrow> bool" where
  "placed_before waves d k \<longleftrightarrow> (\<exists>i j. i < j \<and> j < length waves \<and> d \<in> set (waves ! i) \<and> k \<in> set (waves ! j))"

lemma placed_before_Cons:
  "placed_before (w # ws) d k \<longleftrightarrow> (d \<in> set w \<and> k \<in> set (concat ws)) \<or> placed_before ws d k"
proof
  assume "placed_before (w # ws) d k"
  then obtain i j where ij: "i < j" "j < Suc (length ws)" "d \<in> set ((w # ws) ! i)" "k \<in> set ((w # ws) ! j)"
    by (auto simp: placed_before_def)
  then obtain j' where j': "j = Suc j'" "k \<in> set (ws ! j')" "j' < length ws" by (cases j) auto
  show "(d \<in> set w \<and> k \<in> set (concat ws)) \<or> placed_before ws d k"
  proof (cases i)
    case 0
    then show ?thesis using ij(3) j' by auto
  next
    case (Suc i')
    then show ?thesis using ij(1,3) j' by (auto simp: placed_before_def)
  qed
next
  assume "(d \<in> set w \<and> k \<in> set (concat ws)) \<or> placed_before ws d k"
  then show "placed_before (w # ws) d k"
  proof
    assume "d \<in> set w \<and> k \<in> set (concat ws)"
    then obtain x where "d \<in> set w" "x \<in> set ws" "k \<in> set x" by auto
    then obtain j where "d \<in> set w" "j < length ws" "k \<in> set (ws ! j)" by (metis in_set_conv_nth)
    then show ?thesis unfolding placed_before_def by (intro exI [of _ 0] exI [of _ "Suc j"]) auto
  next
    assume "placed_before ws d k"
    then obtain i j where "i < j" "j < length ws" "d \<in> set (ws ! i)" "k \<in> set (ws ! j)" by (auto simp: placed_before_def)
    then show ?thesis unfolding placed_before_def by (intro exI [of _ "Suc i"] exI [of _ "Suc j"]) auto
  qed
qed

lemma layer_waves_correct:
  assumes "layer_waves p waves = Inr result" "pending_ok p"
  shows "\<exists>ws. result = waves @ ws \<and> distinct (concat ws) \<and> set (concat ws) = fst ` set p \<and>
    (\<forall>k ds d. (k, ds) \<in> set p \<and> d \<in> set ds \<longrightarrow> placed_before ws d k)"
  using assms
proof (induction p waves arbitrary: result rule: layer_waves.induct)
  case (1 p waves)
  let ?w = "next_wave p" and ?p = "drop_wave (next_wave p) p"
  show ?case
  proof (cases "p = []")
    case True
    then show ?thesis using 1(2) by (simp add: layer_waves.simps)
  next
    case False
    then have w: "?w \<noteq> []" and rec: "layer_waves ?p (waves @ [?w]) = Inr result"
      using 1(2) by (auto simp: layer_waves.simps [of p] split: if_splits)
    obtain ws where ws: "result = (waves @ [?w]) @ ws" "distinct (concat ws)" "set (concat ws) = fst ` set ?p"
      "\<forall>k ds d. (k, ds) \<in> set ?p \<and> d \<in> set ds \<longrightarrow> placed_before ws d k"
      using 1(1) [OF False w rec drop_wave_ok [OF 1(3)]] by blast
    have keys: "fst ` set ?p = fst ` set p - set ?w"
      using arg_cong [OF drop_wave_keys [of ?w p], of set] by auto
    have sub: "set ?w \<subseteq> fst ` set p" by (force simp: set_next_wave)
    have "placed_before (?w # ws) d k" if kd: "(k, ds) \<in> set p" "d \<in> set ds" for k ds d
    proof -
      have "k \<notin> set ?w"
      proof
        assume "k \<in> set ?w"
        then have "(k, []) \<in> set p" by (simp add: set_next_wave)
        with kd 1(3) have "ds = []" by (auto simp: pending_ok_def dest: eq_key_imp_eq_value)
        with kd(2) show False by simp
      qed
      then have k: "(k, filter (\<lambda>d. d \<notin> set ?w) ds) \<in> set ?p" using kd(1) by (auto simp: drop_wave_mem)
      show ?thesis
      proof (cases "d \<in> set ?w")
        case True
        then show ?thesis using k ws(3) by (force simp: placed_before_Cons)
      next
        case out: False
        then have "d \<in> set (filter (\<lambda>d. d \<notin> set ?w) ds)" using kd(2) by simp
        then show ?thesis using ws(4) k unfolding placed_before_Cons by blast
      qed
    qed
    moreover have "distinct (concat (?w # ws))" "set (concat (?w # ws)) = fst ` set p"
      using ws(2,3) keys sub distinct_next_wave [of p] 1(3) by (auto simp: pending_ok_def)
    ultimately show ?thesis using ws(1) by (intro exI [of _ "?w # ws"]) auto
  qed
qed

text \<open>The position of a key among the waves orders the dependencies, so they form no cycle.\<close>

lemma wave_index_unique:
  assumes "distinct (concat ws)" "i < length ws" "j < length ws" "k \<in> set (ws ! i)" "k \<in> set (ws ! j)"
  shows "i = j"
  using assms
proof (induction ws arbitrary: i j)
  case (Cons w ws)
  have out: "k \<notin> set w" if "m < length ws" "k \<in> set (ws ! m)" for m
    using Cons.prems(1) that by (auto simp: disjoint_iff)
  then show ?case using Cons by (cases i; cases j) auto
qed simp

lemma acyclic_if_placed:
  assumes "distinct (concat ws)" "\<And>d k. (d, k) \<in> r \<Longrightarrow> placed_before ws d k"
  shows "acyclic r"
proof -
  have "placed_before ws d k" if "(d, k) \<in> r\<^sup>+" for d k
    using that
  proof (induction rule: trancl_induct)
    case (base k)
    then show ?case using assms(2) by blast
  next
    case (step k l)
    obtain i j where ij: "i < j" "j < length ws" "d \<in> set (ws ! i)" "k \<in> set (ws ! j)"
      using step.IH by (auto simp: placed_before_def)
    obtain i' j' where ij': "i' < j'" "j' < length ws" "k \<in> set (ws ! i')" "l \<in> set (ws ! j')"
      using assms(2) [OF step.hyps(2)] by (auto simp: placed_before_def)
    have "j = i'" using wave_index_unique [OF assms(1)] ij ij' by (meson less_trans)
    then show ?case using ij ij' unfolding placed_before_def by (meson less_trans)
  qed
  moreover have "\<not> placed_before ws d d" for d
  proof
    assume "placed_before ws d d"
    then obtain i j where "i < j" "j < length ws" "d \<in> set (ws ! i)" "d \<in> set (ws ! j)" by (auto simp: placed_before_def)
    with wave_index_unique [OF assms(1), of i j d] show False by simp
  qed
  ultimately show ?thesis by (auto simp: acyclic_def)
qed

lemma acyclic_has_wave:
  assumes "pending_ok p" "p \<noteq> []" "acyclic (depends p)"
  shows "next_wave p \<noteq> []"
proof -
  have "depends p \<subseteq> (fst ` set p) \<times> (fst ` set p)" using assms(1) by (force simp: depends_def pending_ok_def)
  then have "finite (depends p)" by (rule finite_subset) simp
  then have "wf (depends p)" using assms(3) by (rule finite_acyclic_wf)
  moreover obtain k where "k \<in> fst ` set p" using assms(2) by (cases p) auto
  ultimately obtain m where m: "m \<in> fst ` set p" "\<And>d. (d, m) \<in> depends p \<Longrightarrow> d \<notin> fst ` set p"
    by (metis wfE_min)
  then obtain ds where ds: "(m, ds) \<in> set p" by force
  then have "ds = []" using m(2) assms(1) by (cases ds) (force simp: depends_def pending_ok_def)+
  with ds show ?thesis using set_next_wave [of p] by force
qed

lemma acyclic_layers:
  assumes "pending_ok p" "acyclic (depends p)"
  shows "\<exists>ws. layer_waves p waves = Inr ws"
  using assms
proof (induction p waves rule: layer_waves.induct)
  case (1 p waves)
  have "depends (drop_wave (next_wave p) p) \<subseteq> depends p" by (auto simp: depends_def drop_wave_mem)
  then have "acyclic (depends (drop_wave (next_wave p) p))" using 1(3) acyclic_subset by blast
  then show ?case
    using 1 acyclic_has_wave [OF 1(2) _ 1(3)] drop_wave_ok [OF 1(2)] by (subst layer_waves.simps) auto
qed

section \<open>Accepted definitions\<close>

lemma check_nodes_keys: "check_nodes ns keys = Inr keys' \<Longrightarrow> keys' = keys @ map fn_key ns \<and> distinct (map fn_key ns) \<and>
   set keys \<inter> fn_key ` set ns = {}"
proof (induction ns arbitrary: keys)
  case (Cons n ns)
  then have "check_nodes ns (keys @ [fn_key n]) = Inr keys'" "fn_key n \<notin> set keys" by (auto simp: bindE_eq_Inr)
  with Cons.IH [of "keys @ [fn_key n]"] show ?case by auto
qed simp

lemma check_dependencies_iff:
  "check_dependencies keys ns = Inr u \<longleftrightarrow>
     (\<forall>n \<in> set ns. distinct (fn_dependsOn n) \<and> set (fn_dependsOn n) \<subseteq> set keys)"
proof (induction ns)
  case (Cons n ns)
  have "find (\<lambda>d. d \<notin> set keys) (fn_dependsOn n) = None \<longleftrightarrow> set (fn_dependsOn n) \<subseteq> set keys"
    by (auto simp: find_None_iff)
  then show ?case
    using Cons.IH by (cases "find (\<lambda>d. d \<notin> set keys) (fn_dependsOn n)") (auto simp: bindE_eq_Inr)
qed simp

lemma put_all_distinct:
  "distinct (map fst kvs) \<Longrightarrow> fst ` set kvs \<inter> fst ` set m = {} \<Longrightarrow> map_put_all kvs m = m @ kvs"
proof (induction kvs arbitrary: m)
  case (Cons kv kvs)
  have "map_of m (fst kv) = None" using Cons.prems(2) by (auto simp: map_of_eq_None_iff)
  then have "map_put (fst kv) (snd kv) m = m @ [kv]" by (induction m) auto
  then show ?case
    using Cons.IH [of "m @ [kv]"] Cons.prems by (cases kv) (auto simp: map_put_all_def)
qed (simp add: map_put_all_def)

lemma initial_pending_eq:
  assumes "distinct (map fn_key ns)" "\<forall>n \<in> set ns. distinct (fn_dependsOn n)"
  shows "initial_pending ns = map (\<lambda>n. (fn_key n, fn_dependsOn n)) ns"
proof -
  have "map (\<lambda>n. (fn_key n, remdups (fn_dependsOn n))) ns = map (\<lambda>n. (fn_key n, fn_dependsOn n)) ns"
    using assms(2) by (simp add: distinct_remdups_id)
  moreover have "distinct (map fst (map (\<lambda>n. (fn_key n, fn_dependsOn n)) ns))" using assms(1) by (simp add: comp_def)
  ultimately show ?thesis
    using put_all_distinct [of "map (\<lambda>n. (fn_key n, fn_dependsOn n)) ns" "[]"]
    unfolding initial_pending_def by (simp only: list.set(1) image_empty Int_empty_right append_Nil simp_thms)
qed

text \<open>The checks before the layering, as one condition.\<close>

definition flow_checks :: "flow_definition \<Rightarrow> bool" where
  "flow_checks d \<longleftrightarrow> js_trim (fd_objective d) \<noteq> [] \<and> fd_nodes d \<noteq> [] \<and> length (fd_nodes d) \<le> MAX_FLOW_NODES \<and>
     (\<exists>keys. check_nodes (fd_nodes d) [] = Inr keys \<and> check_dependencies keys (fd_nodes d) = Inr ()) \<and>
     check_writable (nodesByKey (fd_nodes d)) (fd_nodes d) = Inr ()"

definition flow_edges :: "flow_definition \<Rightarrow> (string \<times> string) set" where
  "flow_edges d = {(dep, fn_key n) | dep n. n \<in> set (fd_nodes d) \<and> dep \<in> set (fn_dependsOn n)}"

lemma validate_layers:
  "validateFlowDefinition d = Inr waves \<longleftrightarrow> flow_checks d \<and> layer_waves (initial_pending (fd_nodes d)) [] = Inr waves"
  by (auto simp: validateFlowDefinition_def flow_checks_def bindE_eq_Inr not_less)

lemma checked_pending:
  assumes "flow_checks d"
  shows "initial_pending (fd_nodes d) = map (\<lambda>n. (fn_key n, fn_dependsOn n)) (fd_nodes d)"
    "pending_ok (initial_pending (fd_nodes d))" "depends (initial_pending (fd_nodes d)) = flow_edges d"
proof -
  obtain keys where k: "check_nodes (fd_nodes d) [] = Inr keys" "check_dependencies keys (fd_nodes d) = Inr ()"
    using assms by (auto simp: flow_checks_def)
  have keys: "keys = map fn_key (fd_nodes d)" "distinct (map fn_key (fd_nodes d))" using check_nodes_keys [OF k(1)] by auto
  have deps: "\<forall>n \<in> set (fd_nodes d). distinct (fn_dependsOn n) \<and> set (fn_dependsOn n) \<subseteq> set keys"
    using k(2) by (simp add: check_dependencies_iff)
  show eq: "initial_pending (fd_nodes d) = map (\<lambda>n. (fn_key n, fn_dependsOn n)) (fd_nodes d)"
    using initial_pending_eq keys(2) deps by blast
  show "pending_ok (initial_pending (fd_nodes d))"
    unfolding eq pending_ok_def using keys deps by (auto simp: comp_def image_image)
  show "depends (initial_pending (fd_nodes d)) = flow_edges d"
    unfolding eq by (auto simp: depends_def flow_edges_def)
qed

text \<open>
  the waves of an accepted flow contain every node exactly once, and every dependency of a node
  lies in an earlier wave than the node.
\<close>

theorem flow_waves_topological:
  assumes "validateFlowDefinition d = Inr waves"
  shows "distinct (concat waves) \<and> set (concat waves) = fn_key ` set (fd_nodes d) \<and>
    (\<forall>n \<in> set (fd_nodes d). \<forall>dep \<in> set (fn_dependsOn n). placed_before waves dep (fn_key n))"
proof -
  have checks: "flow_checks d" and layers: "layer_waves (initial_pending (fd_nodes d)) [] = Inr waves"
    using assms by (simp_all add: validate_layers)
  note p = checked_pending [OF checks]
  obtain ws where ws: "waves = [] @ ws" "distinct (concat ws)" "set (concat ws) = fst ` set (initial_pending (fd_nodes d))"
    "\<forall>k ds x. (k, ds) \<in> set (initial_pending (fd_nodes d)) \<and> x \<in> set ds \<longrightarrow> placed_before ws x k"
    using layer_waves_correct [OF layers p(2)] by blast
  have "placed_before waves dep (fn_key n)" if "n \<in> set (fd_nodes d)" "dep \<in> set (fn_dependsOn n)" for n dep
  proof -
    have "(fn_key n, fn_dependsOn n) \<in> set (initial_pending (fd_nodes d))" using that(1) by (simp add: p(1))
    then show ?thesis using ws(1,4) that(2) by auto
  qed
  moreover have "fst ` set (initial_pending (fd_nodes d)) = fn_key ` set (fd_nodes d)" by (simp add: p(1) image_image)
  ultimately show ?thesis using ws(1-3) by simp
qed

definition sample_flow :: flow_definition where
  "sample_flow = \<lparr>fd_objective = ''go'', fd_nodes =
     [\<lparr>fn_key = ''b'', fn_dependsOn = [''a''], fn_allowedTools = [''agent_report''], fn_workspaceMode = ReadOnlyShared\<rparr>,
      \<lparr>fn_key = ''a'', fn_dependsOn = [], fn_allowedTools = [''agent_report''], fn_workspaceMode = ReadOnlyShared\<rparr>]\<rparr>"

lemma sample_flow_checks: "flow_checks sample_flow"
  by (simp add: flow_checks_def sample_flow_def js_trim_def is_js_space_def MAX_FLOW_NODES_def valid_node_key_def is_lower_def
      orchestration_tools_def nodesByKey_def map_put_all_def is_writable_dependency_def)

lemma sample_flow_layers: "layer_waves (initial_pending (fd_nodes sample_flow)) [] = Inr [[''a''], [''b'']]"
  unfolding checked_pending(1) [OF sample_flow_checks]
  by (simp add: sample_flow_def layer_waves.simps next_wave_def drop_wave_def)

theorem flow_waves_topological_witness: "placed_before [[''a''], [''b'']] ''a'' ''b''"
proof -
  have "validateFlowDefinition sample_flow = Inr [[''a''], [''b'']]"
    using sample_flow_checks sample_flow_layers by (simp add: validate_layers)
  from flow_waves_topological [OF this] show ?thesis by (simp add: sample_flow_def)
qed

text \<open>
  C40: a flow that passes the static checks is accepted exactly when its dependency graph has no
  cycle; the layering loop ends in either case.
\<close>

theorem flow_accepted_iff_acyclic:
  "(\<exists>waves. validateFlowDefinition d = Inr waves) \<longleftrightarrow> flow_checks d \<and> acyclic (flow_edges d)"
proof
  assume "\<exists>waves. validateFlowDefinition d = Inr waves"
  then obtain waves where checks: "flow_checks d" and layers: "layer_waves (initial_pending (fd_nodes d)) [] = Inr waves"
    by (auto simp: validate_layers)
  note p = checked_pending [OF checks]
  obtain ws where ws: "distinct (concat ws)"
    "\<forall>k ds x. (k, ds) \<in> set (initial_pending (fd_nodes d)) \<and> x \<in> set ds \<longrightarrow> placed_before ws x k"
    using layer_waves_correct [OF layers p(2)] by blast
  have "acyclic (depends (initial_pending (fd_nodes d)))"
  proof (rule acyclic_if_placed [OF ws(1)])
    fix x k
    assume "(x, k) \<in> depends (initial_pending (fd_nodes d))"
    then show "placed_before ws x k" using ws(2) by (auto simp: depends_def)
  qed
  with checks p(3) show "flow_checks d \<and> acyclic (flow_edges d)" by simp
next
  assume "flow_checks d \<and> acyclic (flow_edges d)"
  then show "\<exists>waves. validateFlowDefinition d = Inr waves"
    using acyclic_layers [of "initial_pending (fd_nodes d)"] checked_pending [of d] by (auto simp: validate_layers)
qed

end
