(* ===== verification/Task_Agents.thy ===== *)
theory Task_Agents
  imports Task_Machine Task_Flow
begin

text \<open>
  Agents inside a flow (packages/long-tasks/src/store.ts): \<open>transitionAgent\<close> with the flow nodes and
  delegations it settles, \<open>skipBlockedFlowNodes\<close>, the breadth-first search that skips what a failed
  node makes unreachable, \<open>settleFlow\<close>, and \<open>listRunnableAgents\<close>, which picks the agents whose
  dependencies are complete. The agents table is listed in the order of creation, which is the order
  of \<open>created_at, id\<close>.
\<close>

section \<open>Skipping the dependents of a failed node\<close>

definition lookup_node :: "string \<Rightarrow> string \<Rightarrow> ('z) task_db_scheme \<Rightarrow> flow_node_row option" where
  "lookup_node flowId key db = find (\<lambda>n. nd_flowId n = flowId \<and> nd_key n = key) (db_flowNodes db)"

definition is_waiting_node :: "flow_node_row \<Rightarrow> bool" where
  "is_waiting_node n \<longleftrightarrow> nd_state n \<in> {''blocked'', ''queued''}"

definition mark_skipped :: "int \<Rightarrow> string \<Rightarrow> (string \<Rightarrow> bool) \<Rightarrow> flow_node_row list \<Rightarrow> flow_node_row list" where
  "mark_skipped now flowId keys =
     map (\<lambda>n. if nd_flowId n = flowId \<and> keys (nd_key n)
       then n\<lparr>nd_state := ''skipped'', nd_completedAt := Some now\<rparr> else n)"

definition cancel_queued :: "int \<Rightarrow> (string \<Rightarrow> bool) \<Rightarrow> agent_row list \<Rightarrow> agent_row list" where
  "cancel_queued now ids =
     map (\<lambda>a. if ids (ag_id a) \<and> ag_state a = AQueued
       then a\<lparr>ag_state := ACancelled, ag_completedAt := Some now\<rparr> else a)"

definition skip_node :: "int \<Rightarrow> string \<Rightarrow> string \<Rightarrow> string \<Rightarrow> ('z) task_db_scheme \<Rightarrow> string + ('z) task_db_scheme" where
  "skip_node now flowId target agentId db =
     (let db1 = db\<lparr>
        db_flowNodes := mark_skipped now flowId (\<lambda>k. k = target) (db_flowNodes db),
        db_agents := cancel_queued now (\<lambda>i. i = agentId) (db_agents db),
        db_delegations := map (\<lambda>d. if dg_childAgentId d = agentId \<and> dg_state d = ''queued''
          then d\<lparr>dg_state := ''cancelled'', dg_completedAt := Some now\<rparr> else d) (db_delegations db)\<rparr> in
      bindE (getRunnableAgentDispatch agentId db1) (\<lambda>runnable.
      case runnable of
        None \<Rightarrow> Inl (''Skipped Flow Agent has no runnable Dispatch: '' @ agentId)
      | Some dispatch \<Rightarrow> Inr (db1\<lparr>
          db_dispatches := map (\<lambda>d. if ad_id d = ad_id dispatch \<and> ad_state d = ''queued''
            then d\<lparr>ad_state := ''cancelled'', ad_settledAt := Some now\<rparr> else d) (db_dispatches db1),
          db_episodes := db_episodes db1 @
            map (\<lambda>f. \<lparr>ep_taskId = fl_taskId f, ep_agentId = agentId, ep_dispatchId = ad_id dispatch,
                 ep_flowId = Some flowId, ep_nodeKey = Some target, ep_status = ''skipped''\<rparr>)
              (filter (\<lambda>f. fl_id f = flowId) (db_flows db1))\<rparr>)))"

definition dependents :: "string \<Rightarrow> string \<Rightarrow> ('z) task_db_scheme \<Rightarrow> string list" where
  "dependents flowId source db =
     map fe_target (filter (\<lambda>e. fe_flowId e = flowId \<and> fe_source e = source) (db_flowEdges db))"

fun skip_target ::
  "int \<Rightarrow> string \<Rightarrow> string \<Rightarrow> string list \<times> string list \<times> ('z) task_db_scheme
    \<Rightarrow> string + string list \<times> string list \<times> ('z) task_db_scheme" where
  "skip_target now flowId target (queue, skipped, db) =
     (if target \<in> set skipped then Inr (queue, skipped, db)
      else case lookup_node flowId target db of
        None \<Rightarrow> Inr (queue, skipped, db)
      | Some row \<Rightarrow>
          if \<not> is_waiting_node row then Inr (queue, skipped, db)
          else bindE (skip_node now flowId target (nd_agentId row) db) (\<lambda>db'.
            Inr (queue @ [target], skipped @ [target], db')))"

text \<open>
  Each pass of the loop takes one key off the queue and adds one for every waiting node it skips, so
  the queue plus the waiting nodes shrinks.
\<close>

definition waiting_count :: "string \<Rightarrow> ('z) task_db_scheme \<Rightarrow> nat" where
  "waiting_count flowId db = length (filter (\<lambda>n. nd_flowId n = flowId \<and> is_waiting_node n) (db_flowNodes db))"

lemma skip_node_tables:
  assumes "skip_node now flowId target agentId db = Inr db'"
  shows "db_flowNodes db' = mark_skipped now flowId (\<lambda>k. k = target) (db_flowNodes db)"
    and "db_agents db' = cancel_queued now (\<lambda>i. i = agentId) (db_agents db)"
    and "db_flowEdges db' = db_flowEdges db" and "db_flows db' = db_flows db" and "db_tasks db' = db_tasks db"
    and "db_events db' = db_events db"
  using assms by (auto simp: skip_node_def Let_def bindE_eq_Inr split: option.splits)

lemma not_waiting_skipped [simp]: "\<not> is_waiting_node (n\<lparr>nd_state := ''skipped'', nd_completedAt := c\<rparr>)"
  by (simp add: is_waiting_node_def)

lemma mark_skipped_count:
  assumes "find (\<lambda>n. nd_flowId n = flowId \<and> nd_key n = target) ns = Some row" and "is_waiting_node row"
  shows "length (filter (\<lambda>n. nd_flowId n = flowId \<and> is_waiting_node n) (mark_skipped now flowId (\<lambda>k. k = target) ns))
    < length (filter (\<lambda>n. nd_flowId n = flowId \<and> is_waiting_node n) ns)"
proof -
  have le: "length (filter P (map (\<lambda>n. if s n then g n else n) ms)) \<le> length (filter P ms)"
    if "\<And>n. \<not> P (g n)" for P s g and ms :: "flow_node_row list"
    using that by (induction ms) auto
  show ?thesis using assms
  proof (induction ns)
    case Nil
    then show ?case by simp
  next
    case (Cons n ns)
    have "length (filter (\<lambda>n. nd_flowId n = flowId \<and> is_waiting_node n) (mark_skipped now flowId (\<lambda>k. k = target) ns))
        \<le> length (filter (\<lambda>n. nd_flowId n = flowId \<and> is_waiting_node n) ns)"
      unfolding mark_skipped_def by (rule le) simp
    with Cons show ?case
      by (auto simp: mark_skipped_def split: if_splits)
  qed
qed

lemma skip_target_cases:
  assumes "skip_target now flowId target (q, sk, db) = Inr st"
  obtains (kept) "st = (q, sk, db)"
      "target \<in> set sk \<or> (\<forall>row. lookup_node flowId target db = Some row \<longrightarrow> \<not> is_waiting_node row)"
    | (skips) row db' where "target \<notin> set sk" "lookup_node flowId target db = Some row" "is_waiting_node row"
      "skip_node now flowId target (nd_agentId row) db = Inr db'" "st = (q @ [target], sk @ [target], db')"
  using assms by (auto simp: bindE_eq_Inr split: if_splits option.splits)

lemma skip_target_shrinks:
  assumes "skip_target now flowId target (q, sk, db) = Inr (q', sk', db')"
  shows "length q' + waiting_count flowId db' \<le> length q + waiting_count flowId db"
  using assms
proof (cases rule: skip_target_cases)
  case (skips row d)
  from mark_skipped_count [OF skips(2) [unfolded lookup_node_def] skips(3)] skips(4,5)
  show ?thesis by (simp add: waiting_count_def skip_node_tables Suc_le_eq)
qed simp

lemma skip_targets_shrink:
  assumes "foldE (skip_target now flowId) ts (q, sk, db) = Inr (q', sk', db')"
  shows "length q' + waiting_count flowId db' \<le> length q + waiting_count flowId db"
proof -
  let ?le = "\<lambda>st. length (fst st) + waiting_count flowId (snd (snd st)) \<le> length q + waiting_count flowId db"
  have "?le (q', sk', db')"
    using assms
  proof (rule foldE_invariant [where P = ?le])
    show "?le (q, sk, db)" by simp
    show "?le s'" if "?le s" "skip_target now flowId x s = Inr s'" for x s s'
      using that skip_target_shrinks [of now flowId x "fst s" "fst (snd s)" "snd (snd s)" "fst s'" "fst (snd s')" "snd (snd s')"]
      by simp
  qed
  then show ?thesis by simp
qed

function skip_loop ::
  "int \<Rightarrow> string \<Rightarrow> string list \<Rightarrow> string list \<Rightarrow> ('z) task_db_scheme \<Rightarrow> string + ('z) task_db_scheme" where
  "skip_loop now flowId [] skipped db = Inr db"
| "skip_loop now flowId (source # queue) skipped db =
     bindE (foldE (skip_target now flowId) (dependents flowId source db) (queue, skipped, db))
       (\<lambda>st. skip_loop now flowId (fst st) (fst (snd st)) (snd (snd st)))"
  by pat_completeness auto
termination
  by (relation "measure (\<lambda>(now, flowId, queue, skipped, db). length queue + waiting_count flowId db)")
    (auto dest!: skip_targets_shrink)

definition skipBlockedFlowNodes :: "string \<Rightarrow> string \<Rightarrow> int \<Rightarrow> ('z) task_db_scheme \<Rightarrow> string + ('z) task_db_scheme" where
  "skipBlockedFlowNodes flowId failedNodeKey now db = skip_loop now flowId [failedNodeKey] [] db"

text \<open>
  What the search has to reach: the waiting nodes connected to the failed node by dependency edges
  whose targets are all waiting.
\<close>

definition waiting_keys :: "string \<Rightarrow> ('z) task_db_scheme \<Rightarrow> string set" where
  "waiting_keys flowId db = {k. \<exists>row. lookup_node flowId k db = Some row \<and> is_waiting_node row}"

definition edge_rel :: "string \<Rightarrow> ('z) task_db_scheme \<Rightarrow> (string \<times> string) set" where
  "edge_rel flowId db = {(s, t). t \<in> set (dependents flowId s db)}"

definition blocked_by :: "string \<Rightarrow> string \<Rightarrow> ('z) task_db_scheme \<Rightarrow> string set" where
  "blocked_by flowId failed db = {t. (failed, t) \<in> {(s, t). (s, t) \<in> edge_rel flowId db \<and> t \<in> waiting_keys flowId db}\<^sup>+}"

definition node_agents :: "string \<Rightarrow> string set \<Rightarrow> ('z) task_db_scheme \<Rightarrow> string set" where
  "node_agents flowId keys db = {nd_agentId row | k row. k \<in> keys \<and> lookup_node flowId k db = Some row}"

text \<open>The tables after the nodes in \<open>keys\<close> were skipped.\<close>

definition skipped_from ::
  "int \<Rightarrow> string \<Rightarrow> ('z) task_db_scheme \<Rightarrow> string set \<Rightarrow> ('z) task_db_scheme \<Rightarrow> bool" where
  "skipped_from now flowId db keys d \<longleftrightarrow>
     db_flowNodes d = mark_skipped now flowId (\<lambda>k. k \<in> keys) (db_flowNodes db) \<and>
     db_agents d = cancel_queued now (\<lambda>i. i \<in> node_agents flowId keys db) (db_agents db) \<and>
     db_flowEdges d = db_flowEdges db \<and> db_flows d = db_flows db \<and> db_tasks d = db_tasks db \<and> db_events d = db_events db"

lemma mark_skipped_mark_skipped:
  "mark_skipped now flowId P (mark_skipped now flowId Q ns) = mark_skipped now flowId (\<lambda>k. P k \<or> Q k) ns"
  by (auto simp: mark_skipped_def)

lemma cancel_queued_cancel_queued:
  "cancel_queued now P (cancel_queued now Q as) = cancel_queued now (\<lambda>i. P i \<or> Q i) as"
  by (auto simp: cancel_queued_def)

lemma lookup_mark_skipped:
  assumes "k \<notin> keys" and "db_flowNodes d = mark_skipped now flowId (\<lambda>k. k \<in> keys) (db_flowNodes db)"
  shows "lookup_node flowId k d = lookup_node flowId k db"
proof -
  have "find (\<lambda>n. nd_flowId n = flowId \<and> nd_key n = k) (mark_skipped now flowId (\<lambda>k. k \<in> keys) ns) =
      find (\<lambda>n. nd_flowId n = flowId \<and> nd_key n = k) ns" for ns
    using assms(1) by (induction ns) (auto simp: mark_skipped_def)
  then show ?thesis by (simp add: lookup_node_def assms(2))
qed

lemma skipped_from_start: "skipped_from now flowId db {} db"
  by (simp add: skipped_from_def mark_skipped_def cancel_queued_def node_agents_def)

lemma skipped_from_step:
  assumes sk: "skipped_from now flowId db keys d" and new: "target \<notin> keys"
    and row: "lookup_node flowId target d = Some row"
    and step: "skip_node now flowId target (nd_agentId row) d = Inr d'"
  shows "skipped_from now flowId db (insert target keys) d'"
proof -
  have nodes: "db_flowNodes d = mark_skipped now flowId (\<lambda>k. k \<in> keys) (db_flowNodes db)"
    using sk by (simp add: skipped_from_def)
  have row0: "lookup_node flowId target db = Some row"
    using lookup_mark_skipped [OF new nodes] row by simp
  have agents: "(\<lambda>i. i = nd_agentId row \<or> i \<in> node_agents flowId keys db) =
      (\<lambda>i. i \<in> node_agents flowId (insert target keys) db)"
    using row0 by (auto simp: node_agents_def fun_eq_iff)
  show ?thesis
    using sk skip_node_tables [OF step]
    by (simp add: skipped_from_def mark_skipped_mark_skipped cancel_queued_cancel_queued agents)
qed

lemma dependents_skipped_from: "skipped_from now flowId db keys d \<Longrightarrow> dependents flowId s d = dependents flowId s db"
  by (simp add: skipped_from_def dependents_def)

text \<open>One source of the queue: every waiting dependent is skipped and queued, nothing else is.\<close>

lemma skip_targets_correct:
  assumes "foldE (skip_target now flowId) ts (q, sk, d) = Inr (q', sk', d')"
    and "skipped_from now flowId db (set sk) d"
  shows "\<exists>new. q' = q @ new \<and> sk' = sk @ new \<and> set new \<subseteq> set ts \<inter> waiting_keys flowId db \<and>
    set ts \<inter> waiting_keys flowId db \<subseteq> set sk' \<and> skipped_from now flowId db (set sk') d'"
  using assms
proof (induction ts arbitrary: q sk d)
  case Nil
  then show ?case by simp
next
  case (Cons t ts)
  from Cons.prems(1) obtain st where st: "skip_target now flowId t (q, sk, d) = Inr st"
    and rest: "foldE (skip_target now flowId) ts st = Inr (q', sk', d')" by (auto simp: bindE_eq_Inr)
  have nodes: "db_flowNodes d = mark_skipped now flowId (\<lambda>k. k \<in> set sk) (db_flowNodes db)"
    using Cons.prems(2) by (simp add: skipped_from_def)
  from st show ?case
  proof (cases rule: skip_target_cases)
    case kept
    have "t \<in> waiting_keys flowId db \<Longrightarrow> t \<in> set sk"
      using kept(2) lookup_mark_skipped [OF _ nodes, of t] by (cases "t \<in> set sk") (auto simp: waiting_keys_def)
    with Cons.IH [OF rest [unfolded kept(1)] Cons.prems(2)] show ?thesis by auto
  next
    case (skips row d1)
    have t: "t \<in> waiting_keys flowId db"
      using skips(2,3) lookup_mark_skipped [OF skips(1) nodes] by (auto simp: waiting_keys_def)
    have "skipped_from now flowId db (set (sk @ [t])) d1"
      using skipped_from_step [OF Cons.prems(2) skips(1,2,4)] by simp
    from Cons.IH [OF rest [unfolded skips(5)] this] obtain new where
      "q' = q @ t # new" "sk' = sk @ t # new" "set new \<subseteq> set ts \<inter> waiting_keys flowId db"
      "set ts \<inter> waiting_keys flowId db \<subseteq> set sk'" "skipped_from now flowId db (set sk') d'" by auto
    with t show ?thesis by (intro exI [of _ "t # new"]) auto
  qed
qed

lemma skip_loop_correct:
  assumes "skip_loop now flowId q sk d = Inr d'" and "skipped_from now flowId db (set sk) d"
    and "set q \<subseteq> insert k (set sk)" and "set sk \<subseteq> blocked_by flowId k db"
    and "\<forall>s\<in>insert k (set sk). s \<in> set q \<or>
      (\<forall>t. (s, t) \<in> edge_rel flowId db \<longrightarrow> t \<in> waiting_keys flowId db \<longrightarrow> t \<in> set sk)"
  shows "skipped_from now flowId db (blocked_by flowId k db) d'"
  using assms
proof (induction now flowId q sk d rule: skip_loop.induct)
  case (1 now flowId sk d)
  let ?r = "{(s, t). (s, t) \<in> edge_rel flowId db \<and> t \<in> waiting_keys flowId db}"
  have "t \<in> set sk" if "(k, t) \<in> ?r\<^sup>+" for t
    using that by (induction rule: trancl_induct) (use 1(5) in auto)
  with 1(4) have "set sk = blocked_by flowId k db" by (auto simp: blocked_by_def)
  with 1(1,2) show ?case by simp
next
  case (2 now flowId source queue sk d)
  let ?r = "{(s, t). (s, t) \<in> edge_rel flowId db \<and> t \<in> waiting_keys flowId db}"
  from "2.prems"(1) obtain q' sk' d1 where
    fold: "foldE (skip_target now flowId) (dependents flowId source d) (queue, sk, d) = Inr (q', sk', d1)"
    and loop: "skip_loop now flowId q' sk' d1 = Inr d'" by (auto simp: bindE_eq_Inr)
  from skip_targets_correct [OF fold "2.prems"(2)] dependents_skipped_from [OF "2.prems"(2), of source]
  obtain new where new: "q' = queue @ new" "sk' = sk @ new"
    and lower: "set new \<subseteq> set (dependents flowId source db) \<inter> waiting_keys flowId db"
    and upper: "set (dependents flowId source db) \<inter> waiting_keys flowId db \<subseteq> set sk'"
    and sk': "skipped_from now flowId db (set sk') d1" by auto
  have succ: "t \<in> blocked_by flowId k db" if "(source, t) \<in> ?r" for t
  proof (cases "source = k")
    case True
    with that show ?thesis by (auto simp: blocked_by_def)
  next
    case False
    with "2.prems"(3,4) have "(k, source) \<in> ?r\<^sup>+" by (auto simp: blocked_by_def)
    from this that have "(k, t) \<in> ?r\<^sup>+" by (rule trancl_into_trancl)
    then show ?thesis by (simp add: blocked_by_def)
  qed
  show ?case
  proof (rule "2.IH" [OF fold, unfolded fst_conv snd_conv, OF loop sk'])
    show "set q' \<subseteq> insert k (set sk')" using "2.prems"(3) new by auto
    show "set sk' \<subseteq> blocked_by flowId k db"
      using "2.prems"(4) new lower succ by (auto simp: edge_rel_def)
    show "\<forall>s\<in>insert k (set sk'). s \<in> set q' \<or>
      (\<forall>t. (s, t) \<in> edge_rel flowId db \<longrightarrow> t \<in> waiting_keys flowId db \<longrightarrow> t \<in> set sk')"
      using "2.prems"(5) new upper by (auto simp: edge_rel_def)
  qed
qed

lemma skipBlocked_correct:
  assumes "skipBlockedFlowNodes flowId failed now db = Inr db'"
  shows "skipped_from now flowId db (blocked_by flowId failed db) db'"
  using assms unfolding skipBlockedFlowNodes_def
  by (rule skip_loop_correct) (simp_all add: skipped_from_start)

section \<open>Settling a flow, moving an agent\<close>

definition requireFlow :: "string \<Rightarrow> ('z) task_db_scheme \<Rightarrow> string + flow_row" where
  "requireFlow flowId db =
     (case find (\<lambda>f. fl_id f = flowId) (db_flows db) of
        None \<Rightarrow> Inl (''Flow not found: '' @ flowId) | Some f \<Rightarrow> Inr f)"

definition settleFlow :: "string \<Rightarrow> int \<Rightarrow> ('z) task_db_scheme \<Rightarrow> string + ('z) task_db_scheme" where
  "settleFlow flowId now db =
     bindE (requireFlow flowId db) (\<lambda>flow.
     if fl_state flow \<noteq> ''running'' then Inr db
     else let states = filter (\<lambda>n. nd_flowId n = flowId) (db_flowNodes db) in
       if list_ex (\<lambda>n. nd_state n \<notin> set settled_node_states) states then Inr db
       else let state = (if list_all (\<lambda>n. \<not> nd_required n \<or> nd_state n = ''completed'') states
              then ''completed'' else ''failed'') in
         Inr (db\<lparr>db_flows := map (\<lambda>f. if fl_id f = flowId
           then f\<lparr>fl_state := state, fl_completedAt := Some now\<rparr> else f) (db_flows db)\<rparr>))"

fun agent_state_text :: "agent_state \<Rightarrow> string" where
  "agent_state_text ACreated = ''created''"
| "agent_state_text AQueued = ''queued''"
| "agent_state_text ARunning = ''running''"
| "agent_state_text ARecovering = ''recovering''"
| "agent_state_text AWaitingMessage = ''waiting_message''"
| "agent_state_text AWaitingExternal = ''waiting_external''"
| "agent_state_text APaused = ''paused''"
| "agent_state_text AUnknownOutcome = ''unknown_outcome''"
| "agent_state_text ACompleted = ''completed''"
| "agent_state_text AFailed = ''failed''"
| "agent_state_text ACancelled = ''cancelled''"

fun agent_event :: "agent_state \<Rightarrow> string" where
  "agent_event AQueued = ''AgentQueued''"
| "agent_event APaused = ''AgentPaused''"
| "agent_event ACancelled = ''AgentCancelled''"
| "agent_event AFailed = ''AgentFailed''"
| "agent_event ACompleted = ''AgentCompleted''"
| "agent_event _ = ''AgentStarted''"

definition settle_agent_rows :: "int \<Rightarrow> string \<Rightarrow> agent_state \<Rightarrow> ('z) task_db_scheme \<Rightarrow> ('z) task_db_scheme" where
  "settle_agent_rows now agentId nextState db = db\<lparr>
     db_dispatches := map (\<lambda>d. if ad_agentId d = agentId \<and> ad_state d \<in> set active_dispatch_states
       then d\<lparr>ad_state := agent_state_text nextState, ad_settledAt := Some now\<rparr> else d) (db_dispatches db),
     db_delegations := map (\<lambda>d. if dg_childAgentId d = agentId
       then d\<lparr>dg_state := agent_state_text nextState, dg_completedAt := Some now\<rparr> else d) (db_delegations db),
     db_flowNodes := map (\<lambda>n. if nd_agentId n = agentId \<and> nd_state n \<notin> set settled_node_states
       then n\<lparr>nd_state := agent_state_text nextState, nd_completedAt := Some now\<rparr> else n) (db_flowNodes db)\<rparr>"

definition move_nodes :: "string \<Rightarrow> string \<Rightarrow> string \<Rightarrow> ('z) task_db_scheme \<Rightarrow> ('z) task_db_scheme" where
  "move_nodes agentId old new db = db\<lparr>
     db_flowNodes := map (\<lambda>n. if nd_agentId n = agentId \<and> nd_state n = old then n\<lparr>nd_state := new\<rparr> else n) (db_flowNodes db)\<rparr>"

definition settle_node_flow :: "int \<Rightarrow> agent_state \<Rightarrow> flow_node_row \<Rightarrow> ('z) task_db_scheme \<Rightarrow> string + ('z) task_db_scheme" where
  "settle_node_flow now nextState node db =
     bindE (if nextState = AFailed then skipBlockedFlowNodes (nd_flowId node) (nd_key node) now db else Inr db)
       (settleFlow (nd_flowId node) now)"

definition set_agent_state :: "int \<Rightarrow> string \<Rightarrow> agent_state \<Rightarrow> ('z) task_db_scheme \<Rightarrow> ('z) task_db_scheme" where
  "set_agent_state now agentId nextState db = db\<lparr>
     db_agents := map (\<lambda>a. if ag_id a = agentId
       then a\<lparr>ag_state := nextState, ag_completedAt := (if is_settled_agent nextState then Some now else None)\<rparr> else a)
       (db_agents db)\<rparr>"

definition transitionAgent ::
  "int \<Rightarrow> string \<Rightarrow> agent_state \<Rightarrow> ('z) task_db_scheme \<Rightarrow> string + ('z) task_db_scheme" where
  "transitionAgent now agentId nextState db =
     bindE (requireAgent agentId db) (\<lambda>agent.
     bindE (guardE (nextState \<notin> set (AGENT_TRANSITIONS (ag_state agent)))
       (''Illegal Agent transition: '' @ agent_state_text (ag_state agent) @ '' -> '' @ agent_state_text nextState)) (\<lambda>_.
     let terminalFlowNodes = (if is_settled_agent nextState
           then filter (\<lambda>n. nd_agentId n = agentId \<and> nd_state n \<notin> set settled_node_states) (db_flowNodes db) else []);
         db1 = set_agent_state now agentId nextState db in
     bindE (if is_settled_agent nextState
            then foldE (settle_node_flow now nextState) terminalFlowNodes (settle_agent_rows now agentId nextState db1)
            else Inr db1) (\<lambda>db2.
     let db3 = (if nextState = ARunning then move_nodes agentId ''queued'' ''running'' db2 else db2);
         db4 = (if nextState = AQueued then move_nodes agentId ''running'' ''queued'' db3 else db3) in
     appendEventInternal (ag_taskId agent) (Some agentId) None (agent_event nextState) no_payload db4)))"

section \<open>Choosing what may run\<close>

definition listAgents :: "string \<Rightarrow> ('z) task_db_scheme \<Rightarrow> agent_row list" where
  "listAgents taskId db =
     sort_key (\<lambda>a. if ag_kind a = KindMain then 0 else 1 :: nat) (filter (\<lambda>a. ag_taskId a = taskId) (db_agents db))"

definition node_blocked :: "flow_node_row \<Rightarrow> ('z) task_db_scheme \<Rightarrow> bool" where
  "node_blocked node db \<longleftrightarrow>
     list_ex (\<lambda>e. fe_flowId e = nd_flowId node \<and> fe_target e = nd_key node \<and>
       list_ex (\<lambda>s. nd_flowId s = fe_flowId e \<and> nd_key s = fe_source e \<and> nd_state s \<noteq> ''completed'') (db_flowNodes db))
       (db_flowEdges db)"

definition agent_runnable :: "('z) task_db_scheme \<Rightarrow> agent_row \<Rightarrow> bool" where
  "agent_runnable db agent \<longleftrightarrow> ag_state agent = AQueued \<and>
     (case getRunnableAgentDispatch (ag_id agent) db of
        Inl _ \<Rightarrow> False
      | Inr None \<Rightarrow> False
      | Inr (Some dispatch) \<Rightarrow>
          (case find (\<lambda>n. nd_dispatchId n = ad_id dispatch) (db_flowNodes db) of
             None \<Rightarrow> True
           | Some flowNode \<Rightarrow> nd_state flowNode = ''queued'' \<and> \<not> node_blocked flowNode db))"

definition listRunnableAgents :: "string \<Rightarrow> nat \<Rightarrow> ('z) task_db_scheme \<Rightarrow> agent_row list" where
  "listRunnableAgents taskId maxConcurrent db =
     (let agents = listAgents taskId db;
          active = length (filter (\<lambda>a. ag_kind a = KindSubagent \<and> ag_state a \<in> {ARunning, ARecovering}) agents) in
      take (maxConcurrent - active) (filter (agent_runnable db) agents))"

text \<open>
  When a flow node fails, the nodes that are skipped are exactly the waiting nodes that depend on
  it, directly or through other waiting nodes; the queued agents of those nodes are cancelled, and no
  other node or agent, no dependency, flow, task or event changes.
\<close>

theorem failed_node_skips_exactly:
  assumes "skipBlockedFlowNodes flowId failed now db = Inr db'"
  shows "db_flowNodes db' = mark_skipped now flowId (\<lambda>k. k \<in> blocked_by flowId failed db) (db_flowNodes db) \<and>
    db_agents db' = cancel_queued now (\<lambda>i. i \<in> node_agents flowId (blocked_by flowId failed db) db) (db_agents db) \<and>
    db_flowEdges db' = db_flowEdges db \<and> db_flows db' = db_flows db \<and> db_tasks db' = db_tasks db \<and> db_events db' = db_events db"
  using skipBlocked_correct [OF assms] by (simp add: skipped_from_def)

section \<open>A flow is never stuck\<close>

text \<open>
  The invariant of a flow's tables, up to the failed nodes in \<open>open\<close> whose dependents are still to be
  skipped: keys are unique, every node is in a state the code writes for a flow that nobody cancelled,
  dependencies are acyclic (\<open>validateFlowDefinition\<close> refuses the others), and no waiting node depends
  on a failed or skipped one.
\<close>

definition live_node_states :: "string list" where
  "live_node_states = [''blocked'', ''queued'', ''running'', ''completed'', ''failed'', ''skipped'']"

definition flow_inv :: "string \<Rightarrow> string set \<Rightarrow> ('z) task_db_scheme \<Rightarrow> bool" where
  "flow_inv f opens db \<longleftrightarrow>
     distinct (map (\<lambda>n. (nd_flowId n, nd_key n)) (db_flowNodes db)) \<and>
     (\<forall>n\<in>set (db_flowNodes db). nd_flowId n = f \<longrightarrow> nd_state n \<in> set live_node_states) \<and>
     acyclic (edge_rel f db) \<and>
     (\<forall>s t row. (s, t) \<in> edge_rel f db \<longrightarrow> t \<in> waiting_keys f db \<longrightarrow> lookup_node f s db = Some row \<longrightarrow>
        nd_state row \<in> {''failed'', ''skipped''} \<longrightarrow> s \<in> opens)"

lemma find_map_keep: "(\<And>x. P (g x) = P x) \<Longrightarrow> find P (map g xs) = map_option g (find P xs)"
  by (induction xs) auto

lemma lookup_node_map:
  assumes "db_flowNodes d = map g (db_flowNodes db)"
    and "\<And>n. nd_flowId (g n) = nd_flowId n" and "\<And>n. nd_key (g n) = nd_key n"
  shows "lookup_node f k d = map_option g (lookup_node f k db)"
  using assms by (simp add: lookup_node_def find_map_keep)

lemma edge_rel_cong: "db_flowEdges d = db_flowEdges db \<Longrightarrow> edge_rel f d = edge_rel f db"
  by (simp add: edge_rel_def dependents_def)

lemma lookup_node_mem:
  assumes "lookup_node f k db = Some n"
  shows "n \<in> set (db_flowNodes db)" "nd_flowId n = f" "nd_key n = k"
  using assms by (auto simp: lookup_node_def find_Some_iff)

lemma lookup_node_unique:
  assumes "distinct (map (\<lambda>n. (nd_flowId n, nd_key n)) (db_flowNodes db))" and "n \<in> set (db_flowNodes db)"
  shows "lookup_node (nd_flowId n) (nd_key n) db = Some n"
proof -
  have "\<exists>m. lookup_node (nd_flowId n) (nd_key n) db = Some m"
    using assms(2) by (cases "lookup_node (nd_flowId n) (nd_key n) db") (auto simp: lookup_node_def find_None_iff)
  then obtain m where m: "lookup_node (nd_flowId n) (nd_key n) db = Some m" ..
  from lookup_node_mem [OF m] assms have "m = n" by (auto simp: distinct_map inj_on_def)
  with m show ?thesis by simp
qed

text \<open>
  A rewriting of the nodes that keeps keys and dependencies keeps the invariant, when it makes no
  node wait and accounts for the nodes it fails or skips.
\<close>

lemma flow_inv_map:
  assumes inv: "flow_inv f opens db"
    and nodes: "db_flowNodes d = map g (db_flowNodes db)" and edges: "db_flowEdges d = db_flowEdges db"
    and flow: "\<And>n. nd_flowId (g n) = nd_flowId n" and key: "\<And>n. nd_key (g n) = nd_key n"
    and live: "\<And>n. n \<in> set (db_flowNodes db) \<Longrightarrow> nd_state n \<in> set live_node_states \<Longrightarrow> nd_flowId n = f \<Longrightarrow>
      nd_state (g n) \<in> set live_node_states"
    and wait: "\<And>n. is_waiting_node (g n) \<Longrightarrow> is_waiting_node n"
    and fails: "\<And>s t row target. (s, t) \<in> edge_rel f db \<Longrightarrow> lookup_node f s db = Some row \<Longrightarrow>
      lookup_node f t db = Some target \<Longrightarrow> is_waiting_node (g target) \<Longrightarrow>
      nd_state (g row) \<in> {''failed'', ''skipped''} \<Longrightarrow>
      nd_state row \<notin> {''failed'', ''skipped''} \<or> s \<in> opens \<Longrightarrow> s \<in> opens'"
  shows "flow_inv f opens' d"
proof -
  note lk = lookup_node_map [OF nodes flow key]
  have "distinct (map (\<lambda>n. (nd_flowId n, nd_key n)) (db_flowNodes d))"
    using inv by (simp add: flow_inv_def nodes flow key comp_def)
  moreover have "\<forall>n\<in>set (db_flowNodes d). nd_flowId n = f \<longrightarrow> nd_state n \<in> set live_node_states"
    using inv live by (auto simp: flow_inv_def nodes flow)
  moreover have "s \<in> opens'" if st: "(s, t) \<in> edge_rel f db" and t: "t \<in> waiting_keys f d"
    and s: "lookup_node f s d = Some row" and bad: "nd_state row \<in> {''failed'', ''skipped''}" for s t row
  proof -
    from s obtain row0 where row0: "lookup_node f s db = Some row0" "row = g row0" by (auto simp: lk)
    from t obtain target where target: "lookup_node f t db = Some target" "is_waiting_node (g target)"
      by (auto simp: waiting_keys_def lk)
    then have "t \<in> waiting_keys f db" using wait by (auto simp: waiting_keys_def)
    then have "nd_state row0 \<in> {''failed'', ''skipped''} \<Longrightarrow> s \<in> opens"
      using inv st row0 by (auto simp: flow_inv_def)
    with fails [OF st row0(1) target(1,2)] bad row0(2) show ?thesis by auto
  qed
  ultimately show ?thesis
    using inv by (simp add: flow_inv_def edge_rel_cong [OF edges])
qed

abbreviation opens_of :: "string \<Rightarrow> (string \<times> string) list \<Rightarrow> string set" where
  "opens_of f R \<equiv> {k. (f, k) \<in> set R}"

lemma flow_inv_skip:
  assumes inv: "flow_inv f (opens_of f ((flowId, k) # R)) db"
    and skip: "skipBlockedFlowNodes flowId k now db = Inr d"
  shows "flow_inv f (opens_of f R) d"
proof -
  let ?B = "blocked_by flowId k db"
  let ?r = "{(s, t). (s, t) \<in> edge_rel flowId db \<and> t \<in> waiting_keys flowId db}"
  let ?g = "\<lambda>n. if nd_flowId n = flowId \<and> nd_key n \<in> ?B then n\<lparr>nd_state := ''skipped'', nd_completedAt := Some now\<rparr> else n"
  have d: "db_flowNodes d = map ?g (db_flowNodes db)" "db_flowEdges d = db_flowEdges db"
    using skipBlocked_correct [OF skip] by (simp_all add: skipped_from_def mark_skipped_def)
  have grow: "t \<in> ?B" if "(s, t) \<in> ?r" "s = k \<or> s \<in> ?B" for s t
    using that by (auto simp: blocked_by_def intro: trancl_into_trancl)
  show ?thesis
  proof (rule flow_inv_map [OF inv d])
    show "s \<in> opens_of f R"
      if st: "(s, t) \<in> edge_rel f db" and row: "lookup_node f s db = Some row" and t: "lookup_node f t db = Some target"
        and wait: "is_waiting_node (?g target)" and bad: "nd_state (?g row) \<in> {''failed'', ''skipped''}"
        and open0: "nd_state row \<notin> {''failed'', ''skipped''} \<or> s \<in> opens_of f ((flowId, k) # R)"
      for s t row target
    proof (cases "f = flowId")
      case True
      note at = lookup_node_mem [OF row] lookup_node_mem [OF t]
      have tB: "t \<notin> ?B" "is_waiting_node target"
        using wait at True by (auto split: if_splits)
      then have "(s, t) \<in> ?r" using st t True by (auto simp: waiting_keys_def)
      then have "s \<noteq> k" "s \<notin> ?B" using grow tB(1) by blast+
      with bad open0 at True show ?thesis by auto
    next
      case False
      with bad open0 lookup_node_mem [OF row] show ?thesis by auto
    qed
  qed (auto simp: live_node_states_def split: if_splits)
qed

lemma flow_inv_nodes_edges:
  assumes "db_flowNodes d = db_flowNodes db" and "db_flowEdges d = db_flowEdges db"
  shows "flow_inv f opens d = flow_inv f opens db"
  using assms by (simp add: flow_inv_def edge_rel_def dependents_def waiting_keys_def lookup_node_def)

lemma settleFlow_nodes:
  assumes "settleFlow flowId now db = Inr d"
  shows "db_flowNodes d = db_flowNodes db" "db_flowEdges d = db_flowEdges db" "db_events d = db_events db"
  using assms by (auto simp: settleFlow_def bindE_eq_Inr Let_def split: if_splits)

lemma flow_inv_failed_nodes:
  assumes "foldE (settle_node_flow now AFailed) ns db = Inr d"
    and "flow_inv f (opens_of f (map (\<lambda>n. (nd_flowId n, nd_key n)) ns)) db"
  shows "flow_inv f {} d"
  using assms
proof (induction ns arbitrary: db)
  case Nil
  then show ?case by simp
next
  case (Cons n ns)
  from Cons.prems(1) obtain d1 d2 where
    skip: "skipBlockedFlowNodes (nd_flowId n) (nd_key n) now db = Inr d1" and settle: "settleFlow (nd_flowId n) now d1 = Inr d2"
    and rest: "foldE (settle_node_flow now AFailed) ns d2 = Inr d"
    by (auto simp: bindE_eq_Inr settle_node_flow_def [of _ _ n])
  have "flow_inv f (opens_of f (map (\<lambda>n. (nd_flowId n, nd_key n)) ns)) d1"
    using Cons.prems(2) by (intro flow_inv_skip [OF _ skip]) simp
  then have "flow_inv f (opens_of f (map (\<lambda>n. (nd_flowId n, nd_key n)) ns)) d2"
    by (simp only: flow_inv_nodes_edges [OF settleFlow_nodes(1,2) [OF settle]])
  from Cons.IH [OF rest this] show ?case .
qed

lemma flow_inv_settle_rows:
  assumes inv: "flow_inv f {} db" and st: "nextState \<in> {ACompleted, AFailed}"
    and ns: "ns = filter (\<lambda>n. nd_agentId n = agentId \<and> nd_state n \<notin> set settled_node_states) (db_flowNodes db)"
  shows "flow_inv f (if nextState = AFailed then opens_of f (map (\<lambda>n. (nd_flowId n, nd_key n)) ns) else {})
    (settle_agent_rows now agentId nextState (set_agent_state now agentId nextState db))"
proof (rule flow_inv_map [OF inv])
  show "db_flowNodes (settle_agent_rows now agentId nextState (set_agent_state now agentId nextState db)) =
    map (\<lambda>n. if nd_agentId n = agentId \<and> nd_state n \<notin> set settled_node_states
       then n\<lparr>nd_state := agent_state_text nextState, nd_completedAt := Some now\<rparr> else n) (db_flowNodes db)"
    by (simp add: settle_agent_rows_def set_agent_state_def)
next
  show "s \<in> (if nextState = AFailed then opens_of f (map (\<lambda>n. (nd_flowId n, nd_key n)) ns) else {})"
    if "lookup_node f s db = Some row" and
      "nd_state (if nd_agentId row = agentId \<and> nd_state row \<notin> set settled_node_states
       then row\<lparr>nd_state := agent_state_text nextState, nd_completedAt := Some now\<rparr> else row) \<in> {''failed'', ''skipped''}"
      and "nd_state row \<notin> {''failed'', ''skipped''} \<or> s \<in> {}" for s row
    using that st lookup_node_mem [OF that(1)] by (auto simp: ns image_iff split: if_splits)
qed (use st in \<open>auto simp: settle_agent_rows_def set_agent_state_def live_node_states_def is_waiting_node_def split: if_splits\<close>)

interpretation ev_nodes: event_frame db_flowNodes
  by unfold_locales simp

interpretation ev_edges: event_frame db_flowEdges
  by unfold_locales simp

interpretation ev_agents: event_frame db_agents
  by unfold_locales simp

interpretation ev_tasks: event_frame db_tasks
  by unfold_locales simp

lemmas append_event_tables = ev_nodes.event_keeps ev_edges.event_keeps ev_agents.event_keeps ev_tasks.event_keeps

lemma flow_inv_settled_nodes:
  assumes "foldE (settle_node_flow now ACompleted) ns db = Inr d" and "flow_inv f {} db"
  shows "flow_inv f {} d"
  using assms
proof (rule foldE_invariant)
  show "flow_inv f {} s'" if "flow_inv f {} s" "settle_node_flow now ACompleted x s = Inr s'" for x and s s' :: "'a task_db_scheme"
    using that flow_inv_nodes_edges [OF settleFlow_nodes(1,2), of "nd_flowId x" now s s'] by (simp add: settle_node_flow_def)
qed

lemma flow_inv_transition:
  assumes "transitionAgent now agentId nextState db = Inr d" and inv: "flow_inv f {} db"
    and st: "nextState \<in> {ACompleted, AFailed}"
  shows "flow_inv f {} d"
proof -
  define ns where "ns = filter (\<lambda>n. nd_agentId n = agentId \<and> nd_state n \<notin> set settled_node_states) (db_flowNodes db)"
  from st have not_active: "is_settled_agent nextState" "nextState \<noteq> ARunning" "nextState \<noteq> AQueued"
    by (auto simp: is_settled_agent_def)
  from assms(1) obtain agent :: agent_row and d1 where
    fold: "foldE (settle_node_flow now nextState) ns
      (settle_agent_rows now agentId nextState (set_agent_state now agentId nextState db)) = Inr d1"
    and ev: "appendEventInternal (ag_taskId agent) (Some agentId) None (agent_event nextState) no_payload d1 = Inr d"
    unfolding transitionAgent_def Let_def bindE_eq_Inr ns_def using not_active by auto
  have "flow_inv f {} d1"
    using st
  proof (elim insertE emptyE)
    assume c: "nextState = ACompleted"
    with flow_inv_settle_rows [OF inv st ns_def, of now] fold show ?thesis
      by (simp add: flow_inv_settled_nodes)
  next
    assume c: "nextState = AFailed"
    with flow_inv_settle_rows [OF inv st ns_def, of now] fold show ?thesis
      by (simp add: flow_inv_failed_nodes)
  qed
  then show ?thesis by (simp only: flow_inv_nodes_edges [OF append_event_tables(1,2) [OF ev]])
qed

lemma flow_inv_progress:
  assumes inv: "flow_inv f {} db" and n: "n \<in> set (db_flowNodes db)" "nd_flowId n = f" "nd_state n \<notin> set settled_node_states"
  shows "\<exists>m\<in>set (db_flowNodes db). nd_flowId m = f \<and>
    (nd_state m = ''running'' \<or> is_waiting_node m \<and> \<not> node_blocked m db)"
proof -
  have dist: "distinct (map (\<lambda>n. (nd_flowId n, nd_key n)) (db_flowNodes db))" using inv by (simp add: flow_inv_def)
  have "edge_rel f db \<subseteq> (\<lambda>e. (fe_source e, fe_target e)) ` set (db_flowEdges db)"
    by (auto simp: edge_rel_def dependents_def)
  then have "finite (edge_rel f db)" by (rule finite_subset) simp
  then have "wf (edge_rel f db)" using inv by (intro finite_acyclic_wf) (simp_all add: flow_inv_def)
  moreover let ?U = "{nd_key m | m. m \<in> set (db_flowNodes db) \<and> nd_flowId m = f \<and> nd_state m \<notin> set settled_node_states}"
  have "nd_key n \<in> ?U" using n by auto
  ultimately obtain u where u: "u \<in> ?U" and least: "\<And>s. (s, u) \<in> edge_rel f db \<Longrightarrow> s \<notin> ?U"
    by (rule wfE_min) blast
  from u obtain m where m: "m \<in> set (db_flowNodes db)" "nd_flowId m = f" "nd_key m = u" "nd_state m \<notin> set settled_node_states"
    by auto
  have state: "nd_state m = ''running'' \<or> is_waiting_node m"
    using inv m by (auto simp: flow_inv_def live_node_states_def settled_node_states_def is_waiting_node_def)
  have "\<not> node_blocked m db" if wait: "is_waiting_node m"
  proof
    assume "node_blocked m db"
    then obtain e s where e: "e \<in> set (db_flowEdges db)" "fe_flowId e = f" "fe_target e = u" "nd_key s = fe_source e"
      and s1: "s \<in> set (db_flowNodes db)" "nd_flowId s = f" "nd_state s \<noteq> ''completed''"
      using m(2,3) unfolding node_blocked_def list_ex_iff by auto
    from e have "(nd_key s, u) \<in> edge_rel f db"
      by (auto simp: edge_rel_def dependents_def intro!: image_eqI [of _ _ e])
    with s1 have s: "s \<in> set (db_flowNodes db)" "nd_flowId s = f" "(nd_key s, u) \<in> edge_rel f db" "nd_state s \<noteq> ''completed''"
      by simp_all
    have "nd_state s \<in> set settled_node_states" using least [OF s(3)] s by auto
    then have "nd_state s \<in> {''failed'', ''skipped''}"
      using inv s by (auto simp: flow_inv_def live_node_states_def settled_node_states_def)
    moreover have "lookup_node f (nd_key s) db = Some s" using lookup_node_unique [OF dist s(1)] s(2) by simp
    moreover have "u \<in> waiting_keys f db"
      using lookup_node_unique [OF dist m(1)] m wait by (auto simp: waiting_keys_def)
    ultimately show False using inv s(3) by (auto simp: flow_inv_def)
  qed
  with state m show ?thesis by blast
qed


text \<open>
  \<open>listRunnableAgents\<close> offers only queued agents of the task, none whose flow node has a dependency
  that is not completed, and never more than the concurrency limit leaves room for beside the
  subagents already running or recovering.
\<close>

theorem runnable_agents_bounded:
  "length (listRunnableAgents taskId limit db) +
      length (filter (\<lambda>a. ag_kind a = KindSubagent \<and> ag_state a \<in> {ARunning, ARecovering}) (listAgents taskId db))
    \<le> max limit (length (filter (\<lambda>a. ag_kind a = KindSubagent \<and> ag_state a \<in> {ARunning, ARecovering}) (listAgents taskId db)))
   \<and> (\<nexists>a d n e s. a \<in> set (listRunnableAgents taskId limit db) \<and>
        getRunnableAgentDispatch (ag_id a) db = Inr (Some d) \<and>
        find (\<lambda>n. nd_dispatchId n = ad_id d) (db_flowNodes db) = Some n \<and>
        e \<in> set (db_flowEdges db) \<and> fe_flowId e = nd_flowId n \<and> fe_target e = nd_key n \<and>
        s \<in> set (db_flowNodes db) \<and> nd_flowId s = nd_flowId n \<and> nd_key s = fe_source e \<and> nd_state s \<noteq> ''completed'')
   \<and> (\<nexists>a. a \<in> set (listRunnableAgents taskId limit db) \<and> \<not> (ag_taskId a = taskId \<and> ag_state a = AQueued))"
proof -
  have mem: "agent_runnable db a" "ag_taskId a = taskId" if "a \<in> set (listRunnableAgents taskId limit db)" for a
    using that by (auto simp: listRunnableAgents_def listAgents_def Let_def dest!: in_set_takeD)
  have free: "\<not> node_blocked n db"
    if "agent_runnable db a" "getRunnableAgentDispatch (ag_id a) db = Inr (Some d)"
      "find (\<lambda>n. nd_dispatchId n = ad_id d) (db_flowNodes db) = Some n" for a d n
    using that by (simp add: agent_runnable_def)
  show ?thesis
  proof (intro conjI)
    show "\<nexists>a d n e s. a \<in> set (listRunnableAgents taskId limit db) \<and>
        getRunnableAgentDispatch (ag_id a) db = Inr (Some d) \<and>
        find (\<lambda>n. nd_dispatchId n = ad_id d) (db_flowNodes db) = Some n \<and>
        e \<in> set (db_flowEdges db) \<and> fe_flowId e = nd_flowId n \<and> fe_target e = nd_key n \<and>
        s \<in> set (db_flowNodes db) \<and> nd_flowId s = nd_flowId n \<and> nd_key s = fe_source e \<and> nd_state s \<noteq> ''completed''"
    proof (intro notI, elim exE conjE)
      fix a d n e s
      assume "a \<in> set (listRunnableAgents taskId limit db)" "getRunnableAgentDispatch (ag_id a) db = Inr (Some d)"
        "find (\<lambda>n. nd_dispatchId n = ad_id d) (db_flowNodes db) = Some n"
      then have "\<not> node_blocked n db" by (intro free mem(1))
      moreover assume "e \<in> set (db_flowEdges db)" "fe_flowId e = nd_flowId n" "fe_target e = nd_key n"
        "s \<in> set (db_flowNodes db)" "nd_flowId s = nd_flowId n" "nd_key s = fe_source e" "nd_state s \<noteq> ''completed''"
      then have "node_blocked n db" unfolding node_blocked_def list_ex_iff by (intro bexI [of _ e] conjI bexI [of _ s]) simp_all
      ultimately show False ..
    qed
    show "\<nexists>a. a \<in> set (listRunnableAgents taskId limit db) \<and> \<not> (ag_taskId a = taskId \<and> ag_state a = AQueued)"
      using mem by (auto simp: agent_runnable_def)
  qed (simp add: listRunnableAgents_def Let_def)
qed

section \<open>A concrete flow\<close>

text \<open>Node \<open>a\<close> is running, \<open>b\<close> depends on it, \<open>c\<close> depends on \<open>b\<close>, and \<open>x\<close> depends on nothing.\<close>

definition flow_node_at :: "string \<Rightarrow> string \<Rightarrow> flow_node_row" where
  "flow_node_at k st = \<lparr>nd_flowId = ''f'', nd_key = k, nd_agentId = k, nd_dispatchId = k, nd_required = True,
     nd_state = st, nd_completedAt = None\<rparr>"

definition flow_agent_at :: "string \<Rightarrow> agent_state \<Rightarrow> agent_row" where
  "flow_agent_at k st = \<lparr>ag_id = k, ag_taskId = ''t'', ag_kind = KindSubagent, ag_state = st, ag_completedAt = None\<rparr>"

definition flow_dispatch_at :: "string \<Rightarrow> string \<Rightarrow> dispatch_row" where
  "flow_dispatch_at k st = \<lparr>ad_id = k, ad_taskId = ''t'', ad_agentId = k, ad_sequence = 1, ad_state = st, ad_settledAt = None\<rparr>"

definition sample_flow_db :: task_db where
  "sample_flow_db = sample_db\<lparr>
     db_agents := [flow_agent_at ''a'' ARunning, flow_agent_at ''b'' AQueued, flow_agent_at ''c'' AQueued, flow_agent_at ''x'' AQueued],
     db_dispatches := [flow_dispatch_at ''a'' ''running'', flow_dispatch_at ''b'' ''queued'', flow_dispatch_at ''c'' ''queued'',
       flow_dispatch_at ''x'' ''queued''],
     db_flowNodes := [flow_node_at ''a'' ''running'', flow_node_at ''b'' ''queued'', flow_node_at ''c'' ''queued'',
       flow_node_at ''x'' ''queued''],
     db_flowEdges := [\<lparr>fe_flowId = ''f'', fe_source = ''a'', fe_target = ''b''\<rparr>,
       \<lparr>fe_flowId = ''f'', fe_source = ''b'', fe_target = ''c''\<rparr>]\<rparr>"

lemmas sample_flow_defs = sample_flow_db_def sample_db_def flow_node_at_def flow_agent_at_def flow_dispatch_at_def

lemmas skip_eval = skip_node_def dependents_def lookup_node_def is_waiting_node_def mark_skipped_def cancel_queued_def
  getRunnableAgentDispatch_def requireAgent_def first_by_def

lemma sample_flow_skips:
  "\<exists>db'. skipBlockedFlowNodes ''f'' ''a'' 5 sample_flow_db = Inr db' \<and>
     map nd_state (db_flowNodes db') = [''running'', ''skipped'', ''skipped'', ''queued'']"
  by (simp add: skipBlockedFlowNodes_def sample_flow_defs skip_eval)

theorem failed_node_skips_exactly_witness:
  "\<exists>db'. skipBlockedFlowNodes ''f'' ''a'' 5 sample_flow_db = Inr db' \<and>
     db_flowNodes db' = mark_skipped 5 ''f'' (\<lambda>k. k \<in> blocked_by ''f'' ''a'' sample_flow_db) (db_flowNodes sample_flow_db) \<and>
     map nd_state (db_flowNodes db') = [''running'', ''skipped'', ''skipped'', ''queued'']"
proof -
  from sample_flow_skips obtain db' where db': "skipBlockedFlowNodes ''f'' ''a'' 5 sample_flow_db = Inr db'"
    "map nd_state (db_flowNodes db') = [''running'', ''skipped'', ''skipped'', ''queued'']" by (elim exE conjE)
  from failed_node_skips_exactly [OF db'(1)] db' show ?thesis by (intro exI [of _ db'] conjI) simp_all
qed

lemma sample_flow_edges: "edge_rel ''f'' sample_flow_db = {(''a'', ''b''), (''b'', ''c'')}"
  by (auto simp: edge_rel_def dependents_def sample_flow_defs split: if_splits)

lemma sample_flow_inv: "flow_inv ''f'' {} sample_flow_db"
proof -
  have "edge_rel ''f'' sample_flow_db \<subseteq> measure (\<lambda>k. if k = ''a'' then 0 else if k = ''b'' then 1 else 2)"
    by (simp add: sample_flow_edges)
  then have "acyclic (edge_rel ''f'' sample_flow_db)"
    by (rule acyclic_subset [OF wf_acyclic [OF wf_measure]])
  moreover have "distinct (map (\<lambda>n. (nd_flowId n, nd_key n)) (db_flowNodes sample_flow_db))"
    "\<forall>n\<in>set (db_flowNodes sample_flow_db). nd_flowId n = ''f'' \<longrightarrow> nd_state n \<in> set live_node_states"
    by (simp_all add: sample_flow_defs live_node_states_def)
  moreover have "nd_state row \<notin> {''failed'', ''skipped''}" if "lookup_node ''f'' s sample_flow_db = Some row" for s row
    using lookup_node_mem(1) [OF that] by (auto simp: sample_flow_defs)
  ultimately show ?thesis unfolding flow_inv_def by blast
qed

lemma sample_flow_fails: "\<exists>db'. transitionAgent 5 ''a'' AFailed sample_flow_db = Inr db'"
  by (simp add: transitionAgent_def settle_node_flow_def settle_agent_rows_def set_agent_state_def settleFlow_def
      requireFlow_def skipBlockedFlowNodes_def sample_flow_defs skip_eval is_settled_agent_def settled_node_states_def
      active_dispatch_states_def appendEventInternal_def event_dispatch_def truthy_def getActiveAgentDispatch_def Let_def)


text \<open>
  Cancelling an agent is different: \<open>transitionAgent\<close> skips dependents only of a failed node, so a node
  that depends on a cancelled one waits forever and its flow stays running.
\<close>

theorem cancelled_node_blocks_flow:
  "\<exists>db'. transitionAgent 5 ''a'' ACancelled sample_flow_db = Inr db' \<and>
     map nd_state (db_flowNodes db') = [''cancelled'', ''queued'', ''queued'', ''queued''] \<and>
     map fl_state (db_flows db') = [''running''] \<and>
     map ag_id (listRunnableAgents ''t'' 4 db') = [''x'']"
  by (simp add: transitionAgent_def settle_node_flow_def settle_agent_rows_def set_agent_state_def settleFlow_def
      requireFlow_def sample_flow_defs skip_eval is_settled_agent_def settled_node_states_def
      active_dispatch_states_def appendEventInternal_def event_dispatch_def truthy_def getActiveAgentDispatch_def Let_def
      listRunnableAgents_def listAgents_def agent_runnable_def node_blocked_def)

end
