(* ===== verification/Task_Lease.thy ===== *)
theory Task_Lease
  imports Complex_Main Task_Agents
begin

text \<open>
  Execution leases (packages/long-tasks/src/store.ts) and crash recovery (recovery.ts): granting,
  renewing, releasing and checking a lease with its fencing token, claiming an attempt, and the
  recovery barrier an expired lease has to pass before its agent may run again. Times are
  milliseconds; a call that reads the clock takes the time as an argument.
\<close>

section \<open>Tables and the lease check\<close>

record lease_row =
  ls_agentId :: string
  ls_taskId :: string
  ls_workerId :: string
  ls_executionId :: string
  ls_fencingToken :: nat
  ls_expiresAt :: int
  ls_revokedAt :: "int option"

record reservation_row =
  rv_id :: string
  rv_taskId :: string
  rv_agentId :: string
  rv_attemptId :: string
  rv_providerRequestId :: string
  rv_reservedTurns :: nat
  rv_reservedCostUsd :: "real option"
  rv_requestKind :: "string option"
  rv_state :: string

record agent_lease =
  al_agentId :: string
  al_taskId :: string
  al_workerId :: string
  al_executionId :: string
  al_fencingToken :: nat
  al_expiresAt :: int

record lease_db = task_db +
  db_leases :: "lease_row list"
  db_reservations :: "reservation_row list"

definition get_lease :: "string \<Rightarrow> ('z) lease_db_scheme \<Rightarrow> lease_row option" where
  "get_lease agentId db = find (\<lambda>l. ls_agentId l = agentId) (db_leases db)"

definition assertLeaseInternal :: "int \<Rightarrow> agent_lease \<Rightarrow> ('z) lease_db_scheme \<Rightarrow> string + unit" where
  "assertLeaseInternal now lease db =
     guardE (case get_lease (al_agentId lease) db of
         None \<Rightarrow> True
       | Some row \<Rightarrow> ls_revokedAt row \<noteq> None \<or> ls_taskId row \<noteq> al_taskId lease \<or> ls_workerId row \<noteq> al_workerId lease \<or>
           ls_executionId row \<noteq> al_executionId lease \<or> ls_fencingToken row \<noteq> al_fencingToken lease \<or> ls_expiresAt row \<le> now)
       (''Lease lost for agent '' @ al_agentId lease)"

section \<open>Granting\<close>

text \<open>
  \<open>INSERT ... ON CONFLICT(agent_id) DO UPDATE\<close>: an existing row keeps its task; every other column is
  overwritten and the revocation cleared.
\<close>

definition upsert_lease :: "lease_row \<Rightarrow> ('z) lease_db_scheme \<Rightarrow> ('z) lease_db_scheme" where
  "upsert_lease row db =
     (case get_lease (ls_agentId row) db of
        None \<Rightarrow> db\<lparr>db_leases := db_leases db @ [row]\<rparr>
      | Some _ \<Rightarrow> db\<lparr>db_leases := map (\<lambda>l. if ls_agentId l = ls_agentId row then row\<lparr>ls_taskId := ls_taskId l\<rparr> else l) (db_leases db)\<rparr>)"

definition lease_free :: "int \<Rightarrow> string \<Rightarrow> ('z) lease_db_scheme \<Rightarrow> string + nat" where
  "lease_free now agentId db =
     (case get_lease agentId db of
        None \<Rightarrow> Inr 0
      | Some row \<Rightarrow>
          if ls_revokedAt row = None \<and> ls_expiresAt row > now then Inl (''Agent '' @ agentId @ '' already has an active lease'')
          else if ls_revokedAt row = None then Inl (''Agent '' @ agentId @ '' requires the recovery barrier before lease takeover'')
          else Inr (ls_fencingToken row))"

definition acquireLease ::
  "int \<Rightarrow> string \<Rightarrow> string \<Rightarrow> string \<Rightarrow> int \<Rightarrow> ('z) lease_db_scheme \<Rightarrow> string + (agent_lease \<times> ('z) lease_db_scheme)" where
  "acquireLease now agentId workerId executionId leaseSeconds db =
     bindE (requireAgent agentId db) (\<lambda>agent.
     bindE (lease_free now agentId db) (\<lambda>old.
     let row = \<lparr>ls_agentId = agentId, ls_taskId = ag_taskId agent, ls_workerId = workerId, ls_executionId = executionId,
           ls_fencingToken = old + 1, ls_expiresAt = now + leaseSeconds * 1000, ls_revokedAt = None\<rparr> in
     bindE (appendEventInternal (ag_taskId agent) (Some agentId) None ''LeaseAcquired'' no_payload (upsert_lease row db)) (\<lambda>db'.
     Inr (\<lparr>al_agentId = agentId, al_taskId = ag_taskId agent, al_workerId = workerId, al_executionId = executionId,
            al_fencingToken = old + 1, al_expiresAt = now + leaseSeconds * 1000\<rparr>, db'))))"

definition start_dispatch :: "string \<Rightarrow> string \<Rightarrow> ('z) task_db_scheme \<Rightarrow> string + ('z) task_db_scheme" where
  "start_dispatch agentId dispatchId db =
     bindE (guardE (list_ex (\<lambda>d. ad_agentId d = agentId \<and> ad_id d \<noteq> dispatchId \<and> ad_state d \<in> {''running'', ''finalizing''})
         (db_dispatches db))
       ''UNIQUE constraint failed: agent_dispatches.agent_id'') (\<lambda>_.
     Inr (db\<lparr>db_dispatches := map (\<lambda>d. if ad_id d = dispatchId \<and> ad_state d \<in> {''queued'', ''running''}
       then d\<lparr>ad_state := ''running''\<rparr> else d) (db_dispatches db)\<rparr>))"

definition next_ordinal :: "string \<Rightarrow> ('z) task_db_scheme \<Rightarrow> nat" where
  "next_ordinal agentId db = fold (\<lambda>t m. max m (tm_ordinal t)) (filter (\<lambda>t. tm_agentId t = agentId) (db_attempts db)) 0 + 1"

definition start_task :: "task_row \<Rightarrow> ('z) task_db_scheme \<Rightarrow> ('z) task_db_scheme" where
  "start_task task db =
     (if tk_state task = TQueued
      then db\<lparr>db_tasks := map (\<lambda>t. if tk_id t = tk_id task then t\<lparr>tk_state := TRunning, tk_reason := Some ''attempt_claimed''\<rparr> else t)
        (db_tasks db)\<rparr>
      else db)"

definition put_agent_state :: "string \<Rightarrow> agent_state \<Rightarrow> ('z) task_db_scheme \<Rightarrow> ('z) task_db_scheme" where
  "put_agent_state agentId st db =
     db\<lparr>db_agents := map (\<lambda>a. if ag_id a = agentId then a\<lparr>ag_state := st\<rparr> else a) (db_agents db)\<rparr>"

definition add_attempt :: "string \<Rightarrow> string \<Rightarrow> string \<Rightarrow> string \<Rightarrow> ('z) task_db_scheme \<Rightarrow> ('z) task_db_scheme" where
  "add_attempt attemptId taskId agentId dispatchId db =
     db\<lparr>db_attempts := db_attempts db @
       [\<lparr>tm_id = attemptId, tm_taskId = taskId, tm_agentId = agentId, tm_dispatchId = Some dispatchId,
         tm_ordinal = next_ordinal agentId db, tm_state = ''running'', tm_settledAt = None\<rparr>]\<rparr>"

text \<open>
  \<open>claimAttempt\<close>: \<open>attemptId\<close> is the fresh random id, \<open>schemaError\<close> what the schema check of the runtime
  snapshot raises, if anything, and \<open>leaseSeconds\<close> is \<open>None\<close> for a number that is not finite.
\<close>

definition claimAttempt ::
  "int \<Rightarrow> string \<Rightarrow> string option \<Rightarrow> string \<Rightarrow> string \<Rightarrow> string \<Rightarrow> int option \<Rightarrow> ('z) lease_db_scheme \<Rightarrow> string + ('z) lease_db_scheme" where
  "claimAttempt now attemptId schemaError agentId workerId executionId leaseSeconds db =
     bindE (case schemaError of Some e \<Rightarrow> Inl e | None \<Rightarrow> Inr ()) (\<lambda>_.
     bindE (requireAgent agentId db) (\<lambda>agent.
     bindE (getRunnableAgentDispatch agentId db) (\<lambda>runnable.
     bindE (case runnable of None \<Rightarrow> Inl (''Agent has no runnable Dispatch: '' @ agentId) | Some d \<Rightarrow> Inr d) (\<lambda>dispatch.
     bindE (requireTask (ag_taskId agent) db) (\<lambda>task.
     bindE (guardE (tk_state task \<noteq> TQueued \<and> tk_state task \<noteq> TRunning)
       (''Task '' @ tk_id task @ '' is not runnable from state '' @ task_state_text (tk_state task))) (\<lambda>_.
     bindE (guardE (ag_state agent \<noteq> AQueued \<and> ag_state agent \<noteq> ARunning)
       (''Agent '' @ agentId @ '' is not claimable from state '' @ agent_state_text (ag_state agent))) (\<lambda>_.
     bindE (lease_free now agentId db) (\<lambda>old.
     bindE (case leaseSeconds of
              Some secs \<Rightarrow> (if secs \<le> 0 then Inl ''Invalid lease duration'' else Inr secs)
            | None \<Rightarrow> Inl ''Invalid lease duration'') (\<lambda>secs.
     let row = \<lparr>ls_agentId = agentId, ls_taskId = tk_id task, ls_workerId = workerId, ls_executionId = executionId,
           ls_fencingToken = old + 1, ls_expiresAt = now + secs * 1000, ls_revokedAt = None\<rparr>;
         db1 = add_attempt attemptId (tk_id task) agentId (ad_id dispatch) (upsert_lease row db) in
     bindE (start_dispatch agentId (ad_id dispatch) db1) (\<lambda>db2.
     let db3 = start_task task (move_nodes agentId ''queued'' ''running'' (put_agent_state agentId ARunning db2)) in
     bindE (appendEventInternal (tk_id task) (Some agentId) (Some attemptId) ''LeaseAcquired'' no_payload db3)
       (appendEventInternal (tk_id task) (Some agentId) (Some attemptId) ''AttemptStarted'' no_payload)))))))))))"

section \<open>Renewing, releasing, recovering\<close>

definition renewLease :: "int \<Rightarrow> agent_lease \<Rightarrow> int \<Rightarrow> ('z) lease_db_scheme \<Rightarrow> string + (agent_lease \<times> ('z) lease_db_scheme)" where
  "renewLease now lease leaseSeconds db =
     bindE (assertLeaseInternal now lease db) (\<lambda>_.
     let expiresAt = now + leaseSeconds * 1000 in
     bindE (appendEventInternal (al_taskId lease) (Some (al_agentId lease)) None ''LeaseRenewed'' no_payload
       (db\<lparr>db_leases := map (\<lambda>l. if ls_agentId l = al_agentId lease then l\<lparr>ls_expiresAt := expiresAt\<rparr> else l) (db_leases db)\<rparr>)) (\<lambda>db'.
     Inr (lease\<lparr>al_expiresAt := expiresAt\<rparr>, db')))"

definition revoke_lease :: "int \<Rightarrow> string \<Rightarrow> ('z) lease_db_scheme \<Rightarrow> ('z) lease_db_scheme" where
  "revoke_lease now agentId db =
     db\<lparr>db_leases := map (\<lambda>l. if ls_agentId l = agentId then l\<lparr>ls_revokedAt := Some now\<rparr> else l) (db_leases db)\<rparr>"

definition releaseLease :: "int \<Rightarrow> agent_lease \<Rightarrow> ('z) lease_db_scheme \<Rightarrow> string + ('z) lease_db_scheme" where
  "releaseLease now lease db =
     bindE (assertLeaseInternal now lease db) (\<lambda>_.
     appendEventInternal (al_taskId lease) (Some (al_agentId lease)) None ''LeaseReleased'' no_payload
       (revoke_lease now (al_agentId lease) db))"

definition listExpiredExecutions :: "int \<Rightarrow> ('z) lease_db_scheme \<Rightarrow> lease_row list" where
  "listExpiredExecutions now db =
     sort_key ls_expiresAt (filter (\<lambda>l. ls_revokedAt l = None \<and> ls_expiresAt l \<le> now) (db_leases db))"

definition listUnfinishedProviderRequestsInternal :: "string \<Rightarrow> string \<Rightarrow> ('z) lease_db_scheme \<Rightarrow> reservation_row list" where
  "listUnfinishedProviderRequestsInternal taskId agentId db =
     filter (\<lambda>r. rv_taskId r = taskId \<and> rv_agentId r = agentId \<and> rv_state r = ''active'') (db_reservations db)"

definition beginRecovery ::
  "int \<Rightarrow> string \<Rightarrow> ('z) lease_db_scheme
    \<Rightarrow> string + (lease_row \<times> unfinished_tool list \<times> reservation_row list) \<times> ('z) lease_db_scheme" where
  "beginRecovery now agentId db =
     (case get_lease agentId db of
        None \<Rightarrow> Inl (''No stale execution to recover for Agent '' @ agentId)
      | Some row \<Rightarrow>
          bindE (guardE (ls_revokedAt row \<noteq> None) (''No stale execution to recover for Agent '' @ agentId)) (\<lambda>_.
          bindE (guardE (ls_expiresAt row > now) (''Agent '' @ agentId @ '' lease has not expired'')) (\<lambda>_.
          bindE (foldE (\<lambda>type. appendEventInternal (ls_taskId row) (Some agentId) None type no_payload)
              [''WorkerLost'', ''LeaseRevoked'', ''RecoveryStarted'']
              (put_agent_state agentId ARecovering (revoke_lease now agentId db))) (\<lambda>db'.
          bindE (listUnfinishedToolsInternal (ls_taskId row) agentId db') (\<lambda>tools.
          Inr ((row, tools, listUnfinishedProviderRequestsInternal (ls_taskId row) agentId db'), db'))))))"

definition finishRecovery ::
  "string \<Rightarrow> bool \<Rightarrow> string option \<Rightarrow> ('z) lease_db_scheme \<Rightarrow> string + ('z) lease_db_scheme" where
  "finishRecovery agentId safe reason db =
     bindE (requireAgent agentId db) (\<lambda>agent.
     bindE (guardE (ag_state agent \<noteq> ARecovering) (''Agent '' @ agentId @ '' is not recovering'')) (\<lambda>_.
     bindE (appendEventInternal (ag_taskId agent) (Some agentId) None (if safe then ''RecoveryCompleted'' else ''RecoveryBlocked'')
         no_payload (put_agent_state agentId (if safe then AQueued else AUnknownOutcome) db)) (\<lambda>db'.
     if safe then Inr db'
     else bindE (requireTask (ag_taskId agent) db') (\<lambda>task.
       if tk_state task = TRunning
       then Inr (db'\<lparr>db_tasks := map (\<lambda>t. if tk_id t = ag_taskId agent
           then t\<lparr>tk_state := TUnknownOutcome, tk_reason := Some (case reason of Some r \<Rightarrow> r | None \<Rightarrow> ''recovery_blocked'')\<rparr> else t)
           (db_tasks db')\<rparr>)
       else Inr db'))))"

section \<open>The recovery engine\<close>

text \<open>
  \<open>RecoveryEngine.recover\<close>. The adapter is not part of the package: \<open>stop\<close> and \<open>reconcile\<close> are what
  its promises resolve to, \<open>reconcile\<close> being optional. Other code runs while they are awaited:
  \<open>during_stop\<close> and \<open>during_reconcile\<close> are what it does to the tables, and \<open>now1\<close>, \<open>now2\<close> the clock at the
  two transactions. What the call did to the tables remains when it throws.
\<close>

datatype reconciled = Finished | Retry | Unknown

record recovery_result =
  rr_recovered :: bool
  rr_reason :: "string option"

fun blocking_tool :: "(unfinished_tool \<Rightarrow> reconciled) option \<Rightarrow> unfinished_tool list \<Rightarrow> unfinished_tool option" where
  "blocking_tool reconcile [] = None"
| "blocking_tool reconcile (tool # tools) =
     (if ut_effect tool = ReadOnly then blocking_tool reconcile tools
      else case reconcile of
        Some f \<Rightarrow>
          if ut_effect tool = ReconcilableWrite \<and> f tool \<in> {Finished, Retry} then blocking_tool reconcile tools else Some tool
      | None \<Rightarrow> Some tool)"

definition finish_recover ::
  "string \<Rightarrow> string option \<Rightarrow> ('z) lease_db_scheme \<Rightarrow> (string + recovery_result) \<times> ('z) lease_db_scheme" where
  "finish_recover agentId reason db =
     (case finishRecovery agentId (reason = None) reason db of
        Inl e \<Rightarrow> (Inl e, db)
      | Inr db' \<Rightarrow> (Inr \<lparr>rr_recovered = (reason = None), rr_reason = reason\<rparr>, db'))"

definition recover ::
  "int \<Rightarrow> int \<Rightarrow> (lease_row \<Rightarrow> bool) \<Rightarrow> (unfinished_tool \<Rightarrow> reconciled) option \<Rightarrow> (('z) lease_db_scheme \<Rightarrow> ('z) lease_db_scheme)
    \<Rightarrow> (('z) lease_db_scheme \<Rightarrow> ('z) lease_db_scheme) \<Rightarrow> string \<Rightarrow> ('z) lease_db_scheme
    \<Rightarrow> (string + recovery_result) \<times> ('z) lease_db_scheme" where
  "recover now1 now2 stop reconcile during_stop during_reconcile agentId db =
     (case find (\<lambda>l. ls_agentId l = agentId) (listExpiredExecutions now1 db) of
        None \<Rightarrow> (Inl (''No expired execution to recover for Agent '' @ agentId), db)
      | Some execution \<Rightarrow>
          let db1 = during_stop db in
          if \<not> stop execution then (Inr \<lparr>rr_recovered = False, rr_reason = Some ''old_execution_not_stopped''\<rparr>, db1)
          else case beginRecovery now2 agentId db1 of
            Inl e \<Rightarrow> (Inl e, db1)
          | Inr ((_, tools, requests), db2) \<Rightarrow>
              (case requests of
                 request # _ \<Rightarrow> finish_recover agentId (Some (''provider_outcome_unknown:'' @ rv_providerRequestId request)) db2
               | [] \<Rightarrow>
                 (case blocking_tool reconcile tools of
                    Some tool \<Rightarrow>
                      finish_recover agentId (Some (''unknown_tool_outcome:'' @ ut_toolCallId tool)) (during_reconcile db2)
                  | None \<Rightarrow> finish_recover agentId None (during_reconcile db2))))"

text \<open>
  \<open>recoverExpired\<close>: the list of expired executions is read once, then each agent is recovered in turn;
  an exception ends the sweep. The clock and the interleaved code may differ from agent to agent.
\<close>

fun recover_all ::
  "(string \<Rightarrow> ('z) lease_db_scheme \<Rightarrow> (string + recovery_result) \<times> ('z) lease_db_scheme) \<Rightarrow> string list
    \<Rightarrow> (string \<times> recovery_result) list \<Rightarrow> ('z) lease_db_scheme
    \<Rightarrow> (string + (string \<times> recovery_result) list) \<times> ('z) lease_db_scheme" where
  "recover_all rec1 [] results db = (Inr results, db)"
| "recover_all rec1 (agentId # agentIds) results db =
     (case rec1 agentId db of
        (Inl e, db') \<Rightarrow> (Inl e, db')
      | (Inr res, db') \<Rightarrow> recover_all rec1 agentIds (results @ [(agentId, res)]) db')"

definition recoverExpired ::
  "int \<Rightarrow> (string \<Rightarrow> int) \<Rightarrow> (string \<Rightarrow> int) \<Rightarrow> (lease_row \<Rightarrow> bool) \<Rightarrow> (unfinished_tool \<Rightarrow> reconciled) option
    \<Rightarrow> (string \<Rightarrow> ('z) lease_db_scheme \<Rightarrow> ('z) lease_db_scheme) \<Rightarrow> (string \<Rightarrow> ('z) lease_db_scheme \<Rightarrow> ('z) lease_db_scheme)
    \<Rightarrow> ('z) lease_db_scheme \<Rightarrow> (string + (string \<times> recovery_result) list) \<times> ('z) lease_db_scheme" where
  "recoverExpired now now1 now2 stop reconcile during_stop during_reconcile db =
     recover_all (\<lambda>a. recover (now1 a) (now2 a) stop reconcile (during_stop a) (during_reconcile a) a)
       (map ls_agentId (listExpiredExecutions now db)) [] db"

section \<open>Fencing\<close>

text \<open>Which operations leave the leases alone, and what the others do to the row of an agent.\<close>

interpretation ev_leases: event_frame db_leases
  by unfold_locales simp

interpretation ev_reservations: event_frame db_reservations
  by unfold_locales simp

lemmas append_event_leases = ev_leases.event_keeps ev_reservations.event_keeps

lemma get_lease_cong: "db_leases d = db_leases db \<Longrightarrow> get_lease a d = get_lease a db"
  by (simp add: get_lease_def)

lemma find_append: "find P (xs @ ys) = (case find P xs of None \<Rightarrow> find P ys | Some x \<Rightarrow> Some x)"
  by (induction xs) auto

lemma get_lease_agent: "get_lease a db = Some l \<Longrightarrow> ls_agentId l = a"
  by (auto simp: get_lease_def find_Some_iff)

lemma get_lease_upsert:
  "get_lease a (upsert_lease row db) =
     (if a = ls_agentId row
      then Some (case get_lease a db of None \<Rightarrow> row | Some l \<Rightarrow> row\<lparr>ls_taskId := ls_taskId l\<rparr>)
      else get_lease a db)"
proof (cases "get_lease (ls_agentId row) db")
  case None
  then show ?thesis by (auto simp: upsert_lease_def get_lease_def find_append split: option.splits)
next
  case (Some l)
  let ?h = "\<lambda>l. if ls_agentId l = ls_agentId row then row\<lparr>ls_taskId := ls_taskId l\<rparr> else l"
  have "find (\<lambda>l. ls_agentId l = a) (map ?h ls) = map_option ?h (find (\<lambda>l. ls_agentId l = a) ls)" for ls
    by (rule find_map_keep) auto
  then have "get_lease a (upsert_lease row db) = map_option ?h (get_lease a db)"
    using Some by (simp add: upsert_lease_def) (simp add: get_lease_def)
  with Some get_lease_agent show ?thesis by (cases "get_lease a db") fastforce+
qed

lemma get_lease_map:
  assumes "db_leases d = map (\<lambda>l. if ls_agentId l = b then g l else l) (db_leases db)" and "\<And>l. ls_agentId (g l) = ls_agentId l"
  shows "get_lease a d = map_option (\<lambda>l. if ls_agentId l = b then g l else l) (get_lease a db)"
  using assms by (simp add: get_lease_def find_map_keep)

lemma lease_free_token:
  assumes "lease_free now agentId db = Inr old"
  shows "\<And>row. get_lease agentId db = Some row \<Longrightarrow> ls_fencingToken row = old \<and> ls_revokedAt row \<noteq> None"
  using assms by (auto simp: lease_free_def split: if_splits)

text \<open>
  Every sequence of calls that grant, renew, release or recover leases, with the leases granted so
  far, newest first. A claim grants the lease that \<open>resolveAttemptClaim\<close> reads back from the row.
\<close>

definition lease_of :: "lease_row \<Rightarrow> agent_lease" where
  "lease_of row = \<lparr>al_agentId = ls_agentId row, al_taskId = ls_taskId row, al_workerId = ls_workerId row,
     al_executionId = ls_executionId row, al_fencingToken = ls_fencingToken row, al_expiresAt = ls_expiresAt row\<rparr>"

inductive lease_run :: "agent_lease list \<Rightarrow> ('z) lease_db_scheme \<Rightarrow> bool" where
  lease_start: "db_leases db = [] \<Longrightarrow> lease_run [] db"
| lease_acquire: "lease_run gs db \<Longrightarrow> acquireLease now agentId workerId executionId secs db = Inr (l, db') \<Longrightarrow>
    lease_run (l # gs) db'"
| lease_claim: "lease_run gs db \<Longrightarrow> claimAttempt now attemptId err agentId workerId executionId dur db = Inr db' \<Longrightarrow>
    get_lease agentId db' = Some row \<Longrightarrow> lease_run (lease_of row # gs) db'"
| lease_renew: "lease_run gs db \<Longrightarrow> renewLease now l secs db = Inr (l', db') \<Longrightarrow> lease_run gs db'"
| lease_release: "lease_run gs db \<Longrightarrow> releaseLease now l db = Inr db' \<Longrightarrow> lease_run gs db'"
| lease_begin: "lease_run gs db \<Longrightarrow> beginRecovery now agentId db = Inr (found, db') \<Longrightarrow> lease_run gs db'"
| lease_finish: "lease_run gs db \<Longrightarrow> finishRecovery agentId safe reason db = Inr db' \<Longrightarrow> lease_run gs db'"
| lease_other: "lease_run gs db \<Longrightarrow> db_leases db' = db_leases db \<Longrightarrow> lease_run gs db'"

text \<open>The invariant: tokens of one agent decrease down the list, none above the token in the table.\<close>

definition tokens_ordered :: "agent_lease list \<Rightarrow> bool" where
  "tokens_ordered gs \<longleftrightarrow> sorted_wrt (\<lambda>l l'. al_agentId l = al_agentId l' \<longrightarrow> al_fencingToken l' < al_fencingToken l) gs"

definition tokens_below :: "('z) lease_db_scheme \<Rightarrow> agent_lease list \<Rightarrow> bool" where
  "tokens_below db gs \<longleftrightarrow>
     (\<forall>l\<in>set gs. \<exists>row. get_lease (al_agentId l) db = Some row \<and> al_fencingToken l \<le> ls_fencingToken row)"

lemma tokens_below_mono:
  assumes "tokens_below db gs"
    and "\<And>a row. get_lease a db = Some row \<Longrightarrow> \<exists>row'. get_lease a d = Some row' \<and> ls_fencingToken row \<le> ls_fencingToken row'"
  shows "tokens_below d gs"
  using assms unfolding tokens_below_def by (meson le_trans)

lemma tokens_grant:
  assumes "tokens_ordered gs" "tokens_below db gs" and free: "lease_free now a db = Inr old"
    and l: "al_agentId l = a" "al_fencingToken l = old + 1"
    and row: "get_lease a d = Some row" "ls_fencingToken row = old + 1"
    and other: "\<forall>b. b \<noteq> a \<longrightarrow> get_lease b d = get_lease b db"
  shows "tokens_ordered (l # gs) \<and> tokens_below d (l # gs)"
proof
  have "al_fencingToken l' \<le> old" if "l' \<in> set gs" "al_agentId l' = a" for l'
    using assms(2) that lease_free_token [OF free] by (fastforce simp: tokens_below_def)
  then show "tokens_ordered (l # gs)" using assms(1) l by (auto simp: tokens_ordered_def less_Suc_eq_le)
  have "tokens_below d gs"
  proof (rule tokens_below_mono [OF assms(2)])
    show "\<exists>row'. get_lease b d = Some row' \<and> ls_fencingToken r \<le> ls_fencingToken row'" if "get_lease b db = Some r" for b r
      using that row other lease_free_token [OF free] by (cases "b = a") force+
  qed
  with l row show "tokens_below d (l # gs)" by (simp add: tokens_below_def)
qed

lemma lease_tables_kept [simp]:
  "lease_db.db_leases (add_attempt i t a d db) = db_leases db"
  "db_leases (start_task task db) = db_leases db"
  "db_leases (move_nodes a x y db) = db_leases db"
  "db_leases (put_agent_state a st db) = db_leases db"
  by (simp_all add: add_attempt_def start_task_def move_nodes_def put_agent_state_def)

lemma start_dispatch_leases: "start_dispatch a i db = Inr d \<Longrightarrow> lease_db.db_leases d = db_leases db"
  by (auto simp: start_dispatch_def bindE_eq_Inr)

lemma acquireLease_effect:
  assumes "acquireLease now a w e secs db = Inr (l, d)"
  obtains old row where "lease_free now a db = Inr old" "al_agentId l = a" "al_fencingToken l = old + 1"
    "get_lease a d = Some row" "ls_fencingToken row = old + 1" "\<forall>b. b \<noteq> a \<longrightarrow> get_lease b d = get_lease b db"
proof -
  let ?row = "\<lambda>t old. \<lparr>ls_agentId = a, ls_taskId = t, ls_workerId = w, ls_executionId = e, ls_fencingToken = old + 1,
    ls_expiresAt = now + secs * 1000, ls_revokedAt = None\<rparr>"
  from assms obtain agent :: agent_row and old where free: "lease_free now a db = Inr old"
    and l: "al_agentId l = a" "al_fencingToken l = old + 1"
    and ev: "appendEventInternal (ag_taskId agent) (Some a) None ''LeaseAcquired'' no_payload
      (upsert_lease (?row (ag_taskId agent) old) db) = Inr d"
    by (auto simp: acquireLease_def bindE_eq_Inr Let_def)
  define row where "row = ?row (ag_taskId agent) old"
  have row: "ls_agentId row = a" "ls_fencingToken row = old + 1" by (simp_all add: row_def)
  note ev = ev [folded row_def]
  have "get_lease b d = get_lease b (upsert_lease row db)" for b
    by (rule get_lease_cong) (rule append_event_leases(1) [OF ev])
  note look = this [unfolded get_lease_upsert row(1)]
  from look [of a] obtain row' where "get_lease a d = Some row'" "ls_fencingToken row' = old + 1"
    using row(2) by (auto split: option.splits)
  with that free l look show thesis by auto
qed

lemma claimAttempt_effect:
  assumes "claimAttempt now i err a w e dur db = Inr d"
  obtains old row where "lease_free now a db = Inr old"
    "get_lease a d = Some row" "ls_fencingToken row = old + 1" "\<forall>b. b \<noteq> a \<longrightarrow> get_lease b d = get_lease b db"
proof -
  let ?row = "\<lambda>t old secs. \<lparr>ls_agentId = a, ls_taskId = t, ls_workerId = w, ls_executionId = e, ls_fencingToken = old + 1,
    ls_expiresAt = now + secs * 1000, ls_revokedAt = None\<rparr>"
  from assms obtain task :: task_row and disp :: dispatch_row and old secs d1 d2 where free: "lease_free now a db = Inr old"
    and start0: "start_dispatch a (ad_id disp) (add_attempt i (tk_id task) a (ad_id disp)
      (upsert_lease (?row (tk_id task) old secs) db)) = Inr d1"
    and ev1: "appendEventInternal (tk_id task) (Some a) (Some i) ''LeaseAcquired'' no_payload
      (start_task task (move_nodes a ''queued'' ''running'' (put_agent_state a ARunning d1))) = Inr d2"
    and ev2: "appendEventInternal (tk_id task) (Some a) (Some i) ''AttemptStarted'' no_payload d2 = Inr d"
    unfolding claimAttempt_def bindE_eq_Inr Let_def by blast
  define row where "row = ?row (tk_id task) old secs"
  have row: "ls_agentId row = a" "ls_fencingToken row = old + 1" by (simp_all add: row_def)
  note start = start0 [folded row_def]
  have "db_leases d = db_leases (upsert_lease row db)"
    using append_event_leases(1) [OF ev1] append_event_leases(1) [OF ev2] start_dispatch_leases [OF start] by simp
  then have "get_lease b d = get_lease b (upsert_lease row db)" for b by (rule get_lease_cong)
  note look = this [unfolded get_lease_upsert row(1)]
  from look [of a] obtain row' where "get_lease a d = Some row'" "ls_fencingToken row' = old + 1"
    using row(2) by (auto split: option.splits)
  with that free look show thesis by auto
qed

text \<open>Renewing, revoking and recovering keep every token.\<close>

definition tokens_kept :: "('z) lease_db_scheme \<Rightarrow> ('z) lease_db_scheme \<Rightarrow> bool" where
  "tokens_kept db d \<longleftrightarrow> (\<forall>a. map_option ls_fencingToken (get_lease a d) = map_option ls_fencingToken (get_lease a db))"

lemma tokens_kept_same: "db_leases d = db_leases db \<Longrightarrow> tokens_kept db d"
  by (simp add: tokens_kept_def get_lease_def)

lemma tokens_kept_map:
  assumes "db_leases d = map (\<lambda>l. if ls_agentId l = b then g l else l) (db_leases db)"
    and "\<And>l. ls_agentId (g l) = ls_agentId l" and "\<And>l. ls_fencingToken (g l) = ls_fencingToken l"
  shows "tokens_kept db d"
  unfolding tokens_kept_def get_lease_map [OF assms(1,2)] using assms(3) by (auto simp: option.map_comp comp_def intro!: option.map_cong)

lemma renewLease_kept: "renewLease now l secs db = Inr (l', d) \<Longrightarrow> tokens_kept db d"
  by (rule tokens_kept_map [where b = "al_agentId l" and g = "\<lambda>r. r\<lparr>ls_expiresAt := now + secs * 1000\<rparr>"])
    (auto simp: renewLease_def bindE_eq_Inr Let_def dest: append_event_leases)

lemma releaseLease_kept: "releaseLease now l db = Inr d \<Longrightarrow> tokens_kept db d"
  by (rule tokens_kept_map [where b = "al_agentId l" and g = "\<lambda>r. r\<lparr>ls_revokedAt := Some now\<rparr>"])
    (auto simp: releaseLease_def bindE_eq_Inr revoke_lease_def dest: append_event_leases)

lemma beginRecovery_leases:
  assumes "beginRecovery now a db = Inr (found, d)"
  shows "db_leases d = map (\<lambda>l. if ls_agentId l = a then l\<lparr>ls_revokedAt := Some now\<rparr> else l) (db_leases db)"
  using assms by (auto simp: beginRecovery_def bindE_eq_Inr revoke_lease_def simp del: foldE.simps
      dest!: ev_leases.events_keep split: option.splits)

lemma beginRecovery_kept: "beginRecovery now a db = Inr (found, d) \<Longrightarrow> tokens_kept db d"
  by (rule tokens_kept_map [OF beginRecovery_leases]) auto

lemma finishRecovery_leases:
  assumes "finishRecovery a safe reason db = Inr d"
  shows "lease_db.db_leases d = db_leases db"
proof -
  from assms obtain agent :: agent_row and db1 where
    "appendEventInternal (ag_taskId agent) (Some a) None (if safe then ''RecoveryCompleted'' else ''RecoveryBlocked'')
      no_payload (put_agent_state a (if safe then AQueued else AUnknownOutcome) db) = Inr db1"
    and "db_leases d = db_leases db1"
    unfolding finishRecovery_def bindE_eq_Inr by (auto simp: bindE_eq_Inr split: if_splits)
  from append_event_leases(1) [OF this(1)] this(2) show ?thesis by simp
qed

lemma tokens_kept_below:
  assumes "tokens_kept db d" and "tokens_below db gs"
  shows "tokens_below d gs"
proof (rule tokens_below_mono [OF assms(2)])
  show "\<exists>row'. get_lease a d = Some row' \<and> ls_fencingToken row \<le> ls_fencingToken row'" if "get_lease a db = Some row" for a row
    using assms(1) that by (auto simp: tokens_kept_def dest!: spec [of _ a])
qed

lemma lease_run_inv: "lease_run gs db \<Longrightarrow> tokens_ordered gs \<and> tokens_below db gs"
proof (induction rule: lease_run.induct)
  case (lease_start db)
  then show ?case by (simp add: tokens_ordered_def tokens_below_def)
next
  case (lease_acquire gs db now a w e secs l d)
  from lease_acquire(2) obtain old row where eff: "lease_free now a db = Inr old" "al_agentId l = a" "al_fencingToken l = old + 1"
    "get_lease a d = Some row" "ls_fencingToken row = old + 1" "\<forall>b. b \<noteq> a \<longrightarrow> get_lease b d = get_lease b db"
    by (rule acquireLease_effect)
  from lease_acquire(3) show ?case by (intro tokens_grant [OF _ _ eff]) auto
next
  case (lease_claim gs db now i err a w e dur d row)
  from lease_claim(2) obtain old row' where eff: "lease_free now a db = Inr old"
    "get_lease a d = Some row'" "ls_fencingToken row' = old + 1" "\<forall>b. b \<noteq> a \<longrightarrow> get_lease b d = get_lease b db"
    by (rule claimAttempt_effect)
  from eff(2) lease_claim(3) have [simp]: "row' = row" by simp
  from get_lease_agent [OF lease_claim(3)] eff lease_claim(4) show ?case
    by (intro tokens_grant [of gs db now a old]) (auto simp: lease_of_def)
next
  case (lease_renew gs db now l secs l' d)
  then show ?case using renewLease_kept tokens_kept_below by blast
next
  case (lease_release gs db now l d)
  then show ?case using releaseLease_kept tokens_kept_below by blast
next
  case (lease_begin gs db now a found d)
  then show ?case using beginRecovery_kept tokens_kept_below by blast
next
  case (lease_finish gs db a safe reason d)
  then show ?case using tokens_kept_same [OF finishRecovery_leases] tokens_kept_below by blast
next
  case (lease_other gs db d)
  then show ?case using tokens_kept_same [of d db] tokens_kept_below by blast
qed

text \<open>
  C30: Fencing. In every history of granting, claiming, renewing, releasing and recovering leases, once
  an agent's lease was followed by a newer one, the older lease carries a smaller token and is refused
  by the lease check, by renewal and by release, at any time.
\<close>

theorem superseded_lease_refused:
  assumes "lease_run (newer @ l # older) db" and "l' \<in> set newer" and "al_agentId l' = al_agentId l"
  shows "al_fencingToken l < al_fencingToken l' \<and>
    (\<forall>now. assertLeaseInternal now l db = Inl (''Lease lost for agent '' @ al_agentId l) \<and>
      releaseLease now l db = Inl (''Lease lost for agent '' @ al_agentId l) \<and>
      (\<forall>secs. renewLease now l secs db = Inl (''Lease lost for agent '' @ al_agentId l)))"
proof -
  from lease_run_inv [OF assms(1)] assms(2,3)
  have less: "al_fencingToken l < al_fencingToken l'" and below: "tokens_below db (newer @ l # older)"
    by (auto simp: tokens_ordered_def sorted_wrt_append)
  from below assms(2) have "\<exists>row. get_lease (al_agentId l') db = Some row \<and> al_fencingToken l' \<le> ls_fencingToken row"
    by (simp add: tokens_below_def)
  with assms(3) obtain row where row: "get_lease (al_agentId l) db = Some row" "al_fencingToken l' \<le> ls_fencingToken row"
    by auto
  with less have "assertLeaseInternal now l db = Inl (''Lease lost for agent '' @ al_agentId l)" for now
    by (simp add: assertLeaseInternal_def)
  with less show ?thesis by (simp add: releaseLease_def renewLease_def)
qed

section \<open>Recovery\<close>

lemma blocking_tool_None:
  "blocking_tool reconcile tools = None \<longleftrightarrow>
     (\<forall>t\<in>set tools. ut_effect t = ReadOnly \<or>
        ut_effect t = ReconcilableWrite \<and> (\<exists>f. reconcile = Some f \<and> f t \<in> {Finished, Retry}))"
  by (induction tools) (auto split: option.splits)

lemma requireAgent_put_state:
  assumes "requireAgent a db = Inr agent"
  shows "requireAgent a (put_agent_state a st db) = Inr (agent\<lparr>ag_state := st\<rparr>)"
  using assms find_update_same [of "\<lambda>g. ag_id g = a" "db_agents db" agent "\<lambda>g. g\<lparr>ag_state := st\<rparr>"]
  by (auto simp: requireAgent_def put_agent_state_def split: option.splits)

lemma requireAgent_cong: "db_agents d = db_agents db \<Longrightarrow> requireAgent a d = requireAgent a db"
  by (simp add: requireAgent_def)

lemma finishRecovery_agent:
  assumes "finishRecovery a safe reason db = Inr d"
  shows "\<exists>agent. requireAgent a d = Inr agent \<and> ag_state agent = (if safe then AQueued else AUnknownOutcome)"
proof -
  let ?st = "if safe then AQueued else AUnknownOutcome"
  from assms obtain agent :: agent_row and db1 where agent: "requireAgent a db = Inr agent" and
    ev: "appendEventInternal (ag_taskId agent) (Some a) None (if safe then ''RecoveryCompleted'' else ''RecoveryBlocked'')
      no_payload (put_agent_state a ?st db) = Inr db1"
    and "db_agents d = db_agents db1"
    unfolding finishRecovery_def bindE_eq_Inr by (auto simp: bindE_eq_Inr split: if_splits)
  then have "requireAgent a d = requireAgent a (put_agent_state a ?st db)"
    by (intro requireAgent_cong) (simp add: append_event_tables(3) [OF ev])
  with requireAgent_put_state [OF agent, of ?st] show ?thesis by simp
qed

lemma finish_recover_Inr:
  assumes "finish_recover a reason db = (Inr res, d)"
  shows "rr_recovered res = (reason = None)" "rr_reason res = reason"
    "\<exists>agent. requireAgent a d = Inr agent \<and> ag_state agent = (if reason = None then AQueued else AUnknownOutcome)"
  using assms finishRecovery_agent [of a "reason = None" reason db d]
  by (auto simp: finish_recover_def split: sum.splits)


section \<open>Concrete histories\<close>

text \<open>The flow of \<open>sample_flow_db\<close> with the given leases and no provider requests.\<close>

definition with_leases :: "lease_row list \<Rightarrow> task_db \<Rightarrow> lease_db" where
  "with_leases ls db = task_db.extend db (lease_db.fields ls [])"

definition sample_lease :: "nat \<Rightarrow> int \<Rightarrow> lease_row" where
  "sample_lease n expiry = \<lparr>ls_agentId = ''a'', ls_taskId = ''t'', ls_workerId = ''w'', ls_executionId = ''e'',
     ls_fencingToken = n, ls_expiresAt = expiry, ls_revokedAt = None\<rparr>"

lemmas lease_sample_defs = with_leases_def sample_lease_def task_db.defs lease_db.defs sample_flow_defs

lemmas event_eval = appendEventInternal_def event_dispatch_def truthy_def getActiveAgentDispatch_def first_by_def
  requireAgent_def

lemma sample_second_grant:
  "\<exists>l1 d1 d2 l2 d3. acquireLease 0 ''a'' ''w1'' ''e1'' 30 (with_leases [] sample_flow_db) = Inr (l1, d1) \<and>
     releaseLease 5 l1 d1 = Inr d2 \<and> acquireLease 6 ''a'' ''w2'' ''e2'' 30 d2 = Inr (l2, d3) \<and>
     al_agentId l1 = ''a'' \<and> al_agentId l2 = ''a''"
  by (simp add: acquireLease_def releaseLease_def assertLeaseInternal_def lease_free_def upsert_lease_def get_lease_def
      revoke_lease_def lease_sample_defs event_eval Let_def)

theorem superseded_lease_refused_witness:
  "\<exists>l1 l2 (db :: lease_db). lease_run [l2, l1] db \<and> al_fencingToken l1 < al_fencingToken l2 \<and>
     assertLeaseInternal 7 l1 db = Inl (''Lease lost for agent '' @ al_agentId l1)"
proof -
  from sample_second_grant obtain l1 d1 d2 l2 d3 where steps:
    "acquireLease 0 ''a'' ''w1'' ''e1'' 30 (with_leases [] sample_flow_db) = Inr (l1, d1)"
    "releaseLease 5 l1 d1 = Inr d2" "acquireLease 6 ''a'' ''w2'' ''e2'' 30 d2 = Inr (l2, d3)"
    "al_agentId l1 = ''a''" "al_agentId l2 = ''a''" by blast
  have "lease_run [] (with_leases [] sample_flow_db)"
    by (rule lease_start) (simp add: with_leases_def task_db.defs lease_db.defs)
  from lease_acquire [OF this steps(1)] have "lease_run [l1] d1" .
  from lease_acquire [OF lease_release [OF this steps(2)] steps(3)] have run: "lease_run ([l2] @ l1 # []) d3" by simp
  from superseded_lease_refused [OF this, of l2] steps(4,5) run
  have "lease_run [l2, l1] d3 \<and> al_fencingToken l1 < al_fencingToken l2 \<and>
     assertLeaseInternal 7 l1 d3 = Inl (''Lease lost for agent '' @ al_agentId l1)" by simp
  then show ?thesis by blast
qed

lemmas recover_eval = recover_def listExpiredExecutions_def beginRecovery_def get_lease_def revoke_lease_def
  put_agent_state_def finish_recover_def finishRecovery_def listUnfinishedToolsInternal_def task_events_def
  listUnfinishedProviderRequestsInternal_def

abbreviation plain_recover :: "lease_db \<Rightarrow> (string + recovery_result) \<times> lease_db" where
  "plain_recover db \<equiv> recover 9 9 (\<lambda>_. True) None (\<lambda>d. d) (\<lambda>d. d) ''a'' db"

lemma sample_recovers:
  "\<exists>db'. plain_recover (with_leases [sample_lease 1 4] sample_flow_db) = (Inr \<lparr>rr_recovered = True, rr_reason = None\<rparr>, db') \<and>
     map ag_state (db_agents db') = [AQueued, AQueued, AQueued, AQueued] \<and>
     map nd_state (db_flowNodes db') = [''running'', ''queued'', ''queued'', ''queued''] \<and>
     map ag_id (listRunnableAgents ''t'' 4 db') = [''x'']"
  by (simp add: recover_eval lease_sample_defs sample_event_def event_eval Let_def is_unfinished_tool_def
      listRunnableAgents_def listAgents_def agent_runnable_def node_blocked_def getRunnableAgentDispatch_def)


text \<open>
  Two things recovery does that the rest of the store does not expect. A recovered agent is queued
  but its flow node is left running, and \<open>listRunnableAgents\<close> starts only agents whose node is queued,
  so the agent is not offered again. And \<open>beginRecovery\<close> does not look at the agent's state: the lease
  of a cancelled agent expires like any other, and recovering it queues the cancelled agent.
\<close>

theorem recovered_flow_agent_not_runnable:
  "\<exists>db'. plain_recover (with_leases [sample_lease 1 4] sample_flow_db) = (Inr \<lparr>rr_recovered = True, rr_reason = None\<rparr>, db') \<and>
     ''a'' \<notin> set (map ag_id (listRunnableAgents ''t'' 4 db'))"
proof -
  from sample_recovers obtain db' where
    "plain_recover (with_leases [sample_lease 1 4] sample_flow_db) = (Inr \<lparr>rr_recovered = True, rr_reason = None\<rparr>, db')"
    and "map ag_id (listRunnableAgents ''t'' 4 db') = [''x'']" by (elim exE conjE)
  then show ?thesis by (intro exI [of _ db'] conjI) simp_all
qed

definition cancelled_db :: task_db where
  "cancelled_db = \<lparr>db_tasks = [\<lparr>tk_id = ''t'', tk_state = TCancelled, tk_reason = None, tk_acceptance = [], tk_totalTurns = 3,
       tk_maxTurns = 9, tk_completedAt = None\<rparr>],
     db_agents = [flow_agent_at ''a'' ACancelled], db_attempts = [], db_dispatches = [flow_dispatch_at ''a'' ''cancelled''],
     db_delegations = [], db_flows = [], db_flowNodes = [], db_flowEdges = [], db_episodes = [], db_events = [],
     db_checkpoints = []\<rparr>"

theorem recovery_revives_cancelled_agent:
  "\<exists>db'. AGENT_TRANSITIONS ACancelled = [] \<and>
     plain_recover (with_leases [sample_lease 1 4] cancelled_db) = (Inr \<lparr>rr_recovered = True, rr_reason = None\<rparr>, db') \<and>
     map ag_state (db_agents db') = [AQueued]"
  by (simp add: recover_eval cancelled_db_def with_leases_def sample_lease_def task_db.defs lease_db.defs flow_agent_at_def
      flow_dispatch_at_def event_eval next_seq_def is_unfinished_tool_def Let_def)

end
