(* ===== verification/Task_Continuation.thy ===== *)
theory Task_Continuation
  imports Task_Lease
begin

text \<open>
  The continuation controller (packages/long-tasks/src/continuation-controller.ts) with the decisions
  table of store.ts: what to do after a settled turn, the fingerprints that detect a run without
  progress, and the task transition a decision causes. The hash and the JSON text of a canonical value
  come from the runtime: \<open>sha256\<close>, \<open>json\<close> and \<open>sort_verification\<close> (the locale-dependent order of the
  verification entries) are arguments, collected in a record. Counters are natural numbers.
\<close>

section \<open>Progress and its fingerprints\<close>

datatype verification_result = Passed | Failed | NotRun

record verification_item =
  vi_command :: "string option"
  vi_result :: verification_result
  vi_artifactRef :: "string option"

record progress =
  pg_completedItems :: "string list"
  pg_currentItem :: "string option"
  pg_nextActions :: "string list"
  pg_filesModified :: "string list"
  pg_verification :: "verification_item list"

record canonical_progress =
  cp_completedItems :: "string list"
  cp_currentItem :: "string option"
  cp_nextActions :: "string list"
  cp_filesModified :: "string list"
  cp_verification :: "verification_item list"

record text_runtime =
  sha256 :: "string \<Rightarrow> string"
  json :: "canonical_progress \<Rightarrow> string"
  sort_verification :: "verification_item list \<Rightarrow> verification_item list"

definition stableUnique :: "string list \<Rightarrow> string list" where
  "stableUnique values = sort (remdups (filter (\<lambda>v. v \<noteq> []) (map js_trim values)))"

definition progressFingerprint :: "text_runtime \<Rightarrow> progress \<Rightarrow> string" where
  "progressFingerprint rt p =
     sha256 rt (json rt \<lparr>cp_completedItems = stableUnique (pg_completedItems p),
       cp_currentItem = map_option js_trim (pg_currentItem p),
       cp_nextActions = stableUnique (pg_nextActions p),
       cp_filesModified = stableUnique (pg_filesModified p),
       cp_verification = sort_verification rt (map (\<lambda>v. v\<lparr>vi_command := map_option js_trim (vi_command v)\<rparr>) (pg_verification p))\<rparr>)"

fun join :: "string \<Rightarrow> string list \<Rightarrow> string" where
  "join sep [] = []"
| "join sep [x] = x"
| "join sep (x # y # xs) = x @ sep @ join sep (y # xs)"

abbreviation nul :: string where "nul \<equiv> [char_of (0 :: nat)]"

definition failureSignature :: "text_runtime \<Rightarrow> progress \<Rightarrow> string option" where
  "failureSignature rt p =
     (let failures = sort (map (\<lambda>v. (case vi_command v of None \<Rightarrow> ''unknown'' | Some c \<Rightarrow> c) @ nul @
            (case vi_artifactRef v of None \<Rightarrow> [] | Some a \<Rightarrow> a)) (filter (\<lambda>v. vi_result v = Failed) (pg_verification p))) in
      if failures = [] then None else Some (sha256 rt (join nul failures)))"

definition consecutiveMatches :: "'a list \<Rightarrow> ('a \<Rightarrow> bool) \<Rightarrow> nat" where
  "consecutiveMatches values predicate = length (takeWhile predicate (rev values))"

section \<open>Decisions\<close>

datatype continuation_action =
    Continue | Replan | WaitUser | WaitExternal | PauseBudget | PauseNoProgress | Complete | Fail

record continuation_policy =
  maxIdenticalProgressTurns :: nat
  pauseAfterIdenticalProgressTurns :: nat
  maxRepeatedFailureTurns :: nat
  pauseAfterRepeatedFailureTurns :: nat
  maxAutomaticContinuationTurnsPerAttempt :: nat

definition DEFAULT_CONTINUATION_POLICY :: continuation_policy where
  "DEFAULT_CONTINUATION_POLICY = \<lparr>maxIdenticalProgressTurns = 2, pauseAfterIdenticalProgressTurns = 3,
     maxRepeatedFailureTurns = 2, pauseAfterRepeatedFailureTurns = 3, maxAutomaticContinuationTurnsPerAttempt = 25\<rparr>"

record evaluation =
  ce_action :: continuation_action
  ce_reasonCode :: string
  ce_reason :: string
  ce_progressFingerprint :: string
  ce_nextPrompt :: "string option"

record decision_row = evaluation +
  cd_id :: string
  cd_taskId :: string
  cd_agentId :: string
  cd_attemptId :: string
  cd_settledTurnIndex :: int

record evaluation_input =
  ci_taskState :: task_state
  ci_agentState :: agent_state
  ci_totalTurns :: nat
  ci_maxTurns :: nat
  ci_automaticTurns :: nat
  ci_hasUnknownToolOutcome :: bool
  ci_completionRequested :: bool
  ci_acceptancePassed :: bool
  ci_hasIncompleteRequiredDelegations :: bool
  ci_hasPendingManualAcceptance :: bool
  ci_progress :: progress
  ci_previousDecisions :: "evaluation list"

fun action_text :: "continuation_action \<Rightarrow> string" where
  "action_text Continue = ''continue''"
| "action_text Replan = ''replan''"
| "action_text WaitUser = ''wait_user''"
| "action_text WaitExternal = ''wait_external''"
| "action_text PauseBudget = ''pause_budget''"
| "action_text PauseNoProgress = ''pause_no_progress''"
| "action_text Complete = ''complete''"
| "action_text Fail = ''fail''"

definition is_automatic :: "continuation_action \<Rightarrow> bool" where
  "is_automatic a \<longleftrightarrow> a = Continue \<or> a = Replan"

abbreviation newline :: string where "newline \<equiv> [char_of (10 :: nat)]"

definition nextPrompt :: "continuation_action \<Rightarrow> string \<Rightarrow> progress \<Rightarrow> string" where
  "nextPrompt action reason p =
     (let listed = join newline (map (\<lambda>item. ''- '' @ item) (take 5 (pg_nextActions p)));
          actions = (if listed = [] then ''- Reassess the next bounded action.'' else listed) in
      ''Continue the durable Task from the latest checkpoint.'' @ newline @
      ''Decision: '' @ action_text action @ newline @
      ''Reason: '' @ reason @ newline @
      ''Current item: '' @ (case pg_currentItem p of None \<Rightarrow> ''not reported'' | Some i \<Rightarrow> i) @ newline @
      ''Required next actions:'' @ newline @ actions @ newline @
      ''Do not repeat completed work. Re-check evidence before requesting completion.'')"

definition evaluation_result ::
  "text_runtime \<Rightarrow> evaluation_input \<Rightarrow> continuation_action \<Rightarrow> string \<Rightarrow> string \<Rightarrow> evaluation" where
  "evaluation_result rt inp action reasonCode reason =
     \<lparr>ce_action = action, ce_reasonCode = reasonCode, ce_reason = reason,
      ce_progressFingerprint = progressFingerprint rt (ci_progress inp),
      ce_nextPrompt = (if is_automatic action then Some (nextPrompt action reason (ci_progress inp)) else None)\<rparr>"

text \<open>The last part of \<open>decideContinuation\<close>: repeated failures, then unchanged progress.\<close>

definition decide_repetition :: "text_runtime \<Rightarrow> continuation_policy \<Rightarrow> evaluation_input \<Rightarrow> evaluation" where
  "decide_repetition rt policy inp =
     (case truthy (failureSignature rt (ci_progress inp)) of
        Some failure \<Rightarrow>
          let reasonCode = ''verification_failed:'' @ failure;
              count = 1 + consecutiveMatches (ci_previousDecisions inp) (\<lambda>d. ce_reasonCode d = reasonCode) in
          if count \<ge> pauseAfterRepeatedFailureTurns policy then
            evaluation_result rt inp PauseNoProgress reasonCode ''The same verification failure repeated without recovery.''
          else if count \<ge> maxRepeatedFailureTurns policy then
            evaluation_result rt inp Replan reasonCode ''The same verification failure repeated; change the approach before retrying.''
          else
            evaluation_result rt inp Continue reasonCode ''Verification failed once; address the recorded failure before proceeding.''
      | None \<Rightarrow>
          let fingerprint = progressFingerprint rt (ci_progress inp);
              identicalTurns = 1 + consecutiveMatches (ci_previousDecisions inp) (\<lambda>d. ce_progressFingerprint d = fingerprint) in
          if identicalTurns \<ge> pauseAfterIdenticalProgressTurns policy then
            evaluation_result rt inp PauseNoProgress ''identical_progress'' ''Progress remained unchanged across consecutive Turns.''
          else if identicalTurns \<ge> maxIdenticalProgressTurns policy then
            evaluation_result rt inp Replan ''identical_progress'' ''Progress did not change; a different plan is required.''
          else
            evaluation_result rt inp Continue ''next_actions_available'' ''The latest checkpoint contains bounded next actions.'')"

definition decideContinuation :: "text_runtime \<Rightarrow> continuation_policy \<Rightarrow> evaluation_input \<Rightarrow> evaluation" where
  "decideContinuation rt policy inp =
     (let result = evaluation_result rt inp in
      if ci_hasUnknownToolOutcome inp then
        result WaitUser ''unknown_tool_outcome'' ''A tool outcome is unknown and requires reconciliation.''
      else if ci_agentState inp = ACompleted then
        result Complete ''agent_completed'' ''The Agent completed its assigned objective.''
      else if ci_agentState inp = AFailed \<or> ci_agentState inp = ACancelled then
        result Fail (''agent_'' @ agent_state_text (ci_agentState inp))
          (''Agent is already '' @ agent_state_text (ci_agentState inp) @ ''.'')
      else if ci_taskState inp = TUnknownOutcome then
        result WaitUser ''task_unknown_outcome'' ''The Task has an unknown outcome that requires reconciliation.''
      else if ci_taskState inp = TCancelled \<or> ci_taskState inp = TFailed then
        result Fail (''task_'' @ task_state_text (ci_taskState inp))
          (''Task is already '' @ task_state_text (ci_taskState inp) @ ''.'')
      else if ci_taskState inp = TCompleted then
        result Complete ''task_completed'' ''Task is already complete.''
      else if ci_totalTurns inp \<ge> ci_maxTurns inp \<or> ci_automaticTurns inp \<ge> maxAutomaticContinuationTurnsPerAttempt policy then
        result PauseBudget ''automatic_turn_budget'' ''The automatic continuation Turn budget is exhausted.''
      else if ci_completionRequested inp \<and> ci_acceptancePassed inp \<and> \<not> ci_hasIncompleteRequiredDelegations inp then
        result Complete ''acceptance_passed'' ''All registered acceptance criteria passed.''
      else if ci_completionRequested inp \<and> ci_hasPendingManualAcceptance inp then
        result WaitUser ''manual_acceptance_required'' ''A registered manual acceptance criterion requires user confirmation.''
      else if ci_completionRequested inp \<and> \<not> ci_acceptancePassed inp then
        result Replan ''acceptance_not_met'' ''The completion request did not satisfy all registered acceptance criteria.''
      else if ci_taskState inp = TWaitingInput \<or> ci_taskState inp = TPaused then
        result WaitUser ''user_input_required'' ''The Task requires user input before continuing.''
      else if ci_taskState inp = TWaitingExternal \<or> ci_hasIncompleteRequiredDelegations inp then
        result WaitExternal ''external_result_required'' ''A required external or delegated result is pending.''
      else decide_repetition rt policy inp)"

section \<open>Recording a decision and acting on it\<close>

record continuation_db = lease_db +
  db_decisions :: "decision_row list"

definition listContinuationDecisions ::
  "string \<Rightarrow> string option \<Rightarrow> ('z) continuation_db_scheme \<Rightarrow> decision_row list" where
  "listContinuationDecisions agentId attemptId db =
     (case truthy attemptId of
        Some a \<Rightarrow> sort_key cd_settledTurnIndex (filter (\<lambda>d. cd_agentId d = agentId \<and> cd_attemptId d = a) (db_decisions db))
      | None \<Rightarrow> filter (\<lambda>d. cd_agentId d = agentId) (db_decisions db))"

definition recordContinuationDecision ::
  "int \<Rightarrow> string \<Rightarrow> agent_lease \<Rightarrow> string \<Rightarrow> int \<Rightarrow> evaluation \<Rightarrow> ('z) continuation_db_scheme
    \<Rightarrow> string + (decision_row \<times> bool) \<times> ('z) continuation_db_scheme" where
  "recordContinuationDecision now newId lease attemptId settledTurnIndex ev db =
     bindE (guardE (settledTurnIndex < 0 \<or> settledTurnIndex > 2 ^ 53 - 1) ''Invalid settled Turn index'') (\<lambda>_.
     bindE (assertLeaseInternal now lease db) (\<lambda>_.
     case find (\<lambda>d. cd_agentId d = al_agentId lease \<and> cd_attemptId d = attemptId \<and> cd_settledTurnIndex d = settledTurnIndex)
         (db_decisions db) of
       Some existing \<Rightarrow> Inr ((existing, True), db)
     | None \<Rightarrow>
         bindE (guardE (\<not> list_ex (\<lambda>t. tm_id t = attemptId) (db_attempts db)) ''FOREIGN KEY constraint failed'') (\<lambda>_.
         let row = \<lparr>ce_action = ce_action ev, ce_reasonCode = ce_reasonCode ev, ce_reason = ce_reason ev,
               ce_progressFingerprint = ce_progressFingerprint ev, ce_nextPrompt = ce_nextPrompt ev,
               cd_id = newId, cd_taskId = al_taskId lease, cd_agentId = al_agentId lease,
               cd_attemptId = attemptId, cd_settledTurnIndex = settledTurnIndex\<rparr> in
         bindE (appendEventInternal (al_taskId lease) (Some (al_agentId lease)) (Some attemptId) ''ContinuationDecided'' no_payload
           (db\<lparr>db_decisions := db_decisions db @ [row]\<rparr>)) (\<lambda>db'.
         Inr ((row, False), db')))))"

fun decision_transition :: "continuation_action \<Rightarrow> string \<Rightarrow> (task_state \<times> string) option" where
  "decision_transition Complete code = Some (TCompleted, ''acceptance_passed'')"
| "decision_transition Fail code = Some (TFailed, code)"
| "decision_transition PauseBudget code = Some (TPaused, code)"
| "decision_transition PauseNoProgress code = Some (TPaused, code)"
| "decision_transition WaitUser code = Some (TWaitingInput, code)"
| "decision_transition WaitExternal code = Some (TWaitingExternal, code)"
| "decision_transition _ code = None"

definition gather_input ::
  "agent_lease \<Rightarrow> string \<Rightarrow> progress \<Rightarrow> task_row \<Rightarrow> agent_row \<Rightarrow> ('z) continuation_db_scheme \<Rightarrow> string + evaluation_input" where
  "gather_input lease attemptId p task agent db =
     (let previousDecisions = listContinuationDecisions (al_agentId lease) (Some attemptId) db in
      bindE (hasUnfinishedTools (tk_id task) (al_agentId lease) db) (\<lambda>unfinished.
      Inr \<lparr>ci_taskState = tk_state task, ci_agentState = ag_state agent, ci_totalTurns = tk_totalTurns task,
        ci_maxTurns = tk_maxTurns task,
        ci_automaticTurns = length (filter (\<lambda>d. is_automatic (ce_action d)) previousDecisions),
        ci_hasUnknownToolOutcome = unfinished,
        ci_completionRequested = hasPendingAcceptanceRequest (tk_id task) db,
        ci_acceptancePassed = hasPassedAllAcceptance task db,
        ci_hasIncompleteRequiredDelegations = hasIncompleteRequiredDelegations (tk_id task) db,
        ci_hasPendingManualAcceptance = hasPendingManualAcceptance task db,
        ci_progress = p, ci_previousDecisions = map evaluation.truncate previousDecisions\<rparr>))"

text \<open>
  \<open>evaluate\<close>: the decision is committed before the task moves, so when the transition throws, the
  decision stays; the tables are returned beside the outcome.
\<close>

definition evaluate ::
  "text_runtime \<Rightarrow> continuation_policy \<Rightarrow> int \<Rightarrow> string \<Rightarrow> agent_lease \<Rightarrow> string \<Rightarrow> int \<Rightarrow> progress
    \<Rightarrow> ('z) continuation_db_scheme \<Rightarrow> (string + decision_row \<times> bool) \<times> ('z) continuation_db_scheme" where
  "evaluate rt policy now newId lease attemptId settledTurnIndex p db =
     (case bindE (requireTask (al_taskId lease) db) (\<lambda>task.
           bindE (requireAgent (al_agentId lease) db) (\<lambda>agent.
           bindE (gather_input lease attemptId p task agent db) (\<lambda>inp.
           bindE (recordContinuationDecision now newId lease attemptId settledTurnIndex (decideContinuation rt policy inp) db) (\<lambda>recorded.
           Inr (task, agent, recorded))))) of
        Inl e \<Rightarrow> (Inl e, db)
      | Inr (task, agent, ((decision, duplicate), db1)) \<Rightarrow>
          if duplicate \<or> ag_kind agent \<noteq> KindMain then (Inr (decision, duplicate), db1)
          else (case decision_transition (ce_action decision) (ce_reasonCode decision) of
                  None \<Rightarrow> (Inr (decision, duplicate), db1)
                | Some (nextState, reason) \<Rightarrow>
                    (case transitionTask now (tk_id task) nextState (Some reason) db1 of
                       Inl e \<Rightarrow> (Inl e, db1)
                     | Inr db2 \<Rightarrow> (Inr (decision, duplicate), db2))))"

section \<open>Fingerprints\<close>

lemma stableUnique_set:
  "stableUnique xs = sorted_list_of_set {t. t \<noteq> [] \<and> (\<exists>x\<in>set xs. t = js_trim x)}"
proof -
  have "set (filter (\<lambda>v. v \<noteq> []) (map js_trim xs)) = {t. t \<noteq> [] \<and> (\<exists>x\<in>set xs. t = js_trim x)}" by auto
  then show ?thesis by (simp add: stableUnique_def flip: sorted_list_of_set_sort_remdups)
qed

text \<open>
  Two progress reports with the same completed items, next actions and modified files up to order,
  repetition, surrounding white space and blank entries, and with the same current item and
  verification results, have the same fingerprint, whatever the hash: restating progress in other words
  of the same set does not count as progress.
\<close>

theorem fingerprint_ignores_presentation:
  assumes "js_trim ` set (pg_completedItems p) - {[]} = js_trim ` set (pg_completedItems q) - {[]}"
    and "js_trim ` set (pg_nextActions p) - {[]} = js_trim ` set (pg_nextActions q) - {[]}"
    and "js_trim ` set (pg_filesModified p) - {[]} = js_trim ` set (pg_filesModified q) - {[]}"
    and "map_option js_trim (pg_currentItem p) = map_option js_trim (pg_currentItem q)"
    and "pg_verification p = pg_verification q"
  shows "progressFingerprint rt p = progressFingerprint rt q"
proof -
  have uniq: "stableUnique xs = stableUnique ys" if "js_trim ` set xs - {[]} = js_trim ` set ys - {[]}" for xs ys
  proof -
    have "{t. t \<noteq> [] \<and> (\<exists>x\<in>set zs. t = js_trim x)} = js_trim ` set zs - {[]}" for zs by auto
    with that show ?thesis by (simp add: stableUnique_set)
  qed
  show ?thesis
    by (simp add: progressFingerprint_def uniq [OF assms(1)] uniq [OF assms(2)] uniq [OF assms(3)] assms(4,5))
qed

definition sample_progress :: "string list \<Rightarrow> progress" where
  "sample_progress items = \<lparr>pg_completedItems = items, pg_currentItem = None, pg_nextActions = [''go''], pg_filesModified = [],
     pg_verification = []\<rparr>"

definition plain_runtime :: text_runtime where
  "plain_runtime = \<lparr>sha256 = (\<lambda>s. ''#'' @ s), json = (\<lambda>c. join '','' (cp_completedItems c)), sort_verification = (\<lambda>vs. vs)\<rparr>"

theorem fingerprint_ignores_presentation_witness:
  "progressFingerprint plain_runtime (sample_progress [''b'', ''a '', ''b'']) =
   progressFingerprint plain_runtime (sample_progress [''a'', ''b'', [], '' a''])"
  by (rule fingerprint_ignores_presentation)
    (auto simp: sample_progress_def js_trim_def is_js_space_def)

section \<open>What a decision is based on\<close>

lemma evaluation_result_simps [simp]:
  "ce_action (evaluation_result rt inp a c r) = a"
  "ce_reasonCode (evaluation_result rt inp a c r) = c"
  "ce_progressFingerprint (evaluation_result rt inp a c r) = progressFingerprint rt (ci_progress inp)"
  "ce_nextPrompt (evaluation_result rt inp a c r) = None \<longleftrightarrow> \<not> is_automatic a"
  by (simp_all add: evaluation_result_def)

lemma decide_repetition_action:
  "ce_action (decide_repetition rt policy inp) \<in> {PauseNoProgress, Replan, Continue}"
  by (simp add: decide_repetition_def Let_def split: option.split)

text \<open>
  The controller decides that the work is complete exactly when no tool outcome is unknown and
  either the agent finished, or the task is already complete, or, within the turn budget, completion
  was requested, every acceptance criterion passed and no required delegation is open.
\<close>

theorem complete_decision_iff:
  "ce_action (decideContinuation rt policy inp) = Complete \<longleftrightarrow>
     \<not> ci_hasUnknownToolOutcome inp \<and>
     (ci_agentState inp = ACompleted \<or>
      ci_agentState inp \<notin> {AFailed, ACancelled} \<and> ci_taskState inp \<notin> {TUnknownOutcome, TCancelled, TFailed} \<and>
      (ci_taskState inp = TCompleted \<or>
       ci_totalTurns inp < ci_maxTurns inp \<and> ci_automaticTurns inp < maxAutomaticContinuationTurnsPerAttempt policy \<and>
       ci_completionRequested inp \<and> ci_acceptancePassed inp \<and> \<not> ci_hasIncompleteRequiredDelegations inp))"
proof -
  have "ce_action (decide_repetition rt policy inp) \<noteq> Complete" using decide_repetition_action [of rt policy inp] by auto
  then show ?thesis
    unfolding decideContinuation_def Let_def if_distrib [of ce_action] evaluation_result_simps
    by (cases "ci_hasUnknownToolOutcome inp"; cases "ci_agentState inp = ACompleted"; cases "ci_taskState inp = TCompleted";
        simp; linarith?)
qed

lemma automatic_within_budget:
  assumes "is_automatic (ce_action (decideContinuation rt policy inp))"
  shows "ci_automaticTurns inp < maxAutomaticContinuationTurnsPerAttempt policy" "ci_totalTurns inp < ci_maxTurns inp"
  using assms by (auto simp: decideContinuation_def Let_def is_automatic_def split: if_splits)

section \<open>At most so many automatic turns\<close>

definition automatic_count :: "string \<Rightarrow> string \<Rightarrow> ('z) continuation_db_scheme \<Rightarrow> nat" where
  "automatic_count agentId attemptId db =
     length (filter (\<lambda>d. cd_agentId d = agentId \<and> cd_attemptId d = attemptId \<and> is_automatic (ce_action d)) (db_decisions db))"

definition automatic_bounded :: "continuation_policy \<Rightarrow> ('z) continuation_db_scheme \<Rightarrow> bool" where
  "automatic_bounded policy db \<longleftrightarrow> (\<forall>a t. automatic_count a t db \<le> maxAutomaticContinuationTurnsPerAttempt policy)"

lemma length_filter_sort_key: "length (filter P (sort_key k xs)) = length (filter P xs)"
  by (simp add: filter_sort)

lemma automatic_count_le_listed:
  "automatic_count agentId attemptId db \<le>
     length (filter (\<lambda>d. is_automatic (ce_action d)) (listContinuationDecisions agentId (Some attemptId) db))"
proof (cases "attemptId = []")
  case True
  have le: "length (filter P xs) \<le> length (filter Q xs)" if "\<And>x. P x \<Longrightarrow> Q x" for P Q and xs :: "decision_row list"
    using that by (induction xs) auto
  from True show ?thesis
    by (auto simp: automatic_count_def listContinuationDecisions_def truthy_def intro!: le)
next
  case False
  then show ?thesis
    by (simp add: automatic_count_def listContinuationDecisions_def truthy_def length_filter_sort_key conj_ac cong: filter_cong)
qed

interpretation ev_decisions: event_frame db_decisions
  by unfold_locales simp

lemma transitionTask_decisions:
  assumes "transitionTask now taskId nextState reason db = Inr d"
  shows "continuation_db.db_decisions d = db_decisions db"
  using assms
  by (cases nextState) (auto simp: transitionTask_Inr append_task_event task_defs)

text \<open>What recording does: nothing on a duplicate, one new row with the decision otherwise.\<close>

lemma record_cases:
  assumes "recordContinuationDecision now newId lease attemptId idx ev db = Inr ((row, dup), d)"
  obtains (duplicate) "dup" "d = db" "row \<in> set (db_decisions db)"
    | (fresh) "\<not> dup" "db_decisions d = db_decisions db @ [row]" "evaluation.truncate row = ev"
      "cd_agentId row = al_agentId lease" "cd_attemptId row = attemptId" "db_tasks d = db_tasks db"
proof (cases "find (\<lambda>d. cd_agentId d = al_agentId lease \<and> cd_attemptId d = attemptId \<and> cd_settledTurnIndex d = idx) (db_decisions db)")
  case None
  from assms None obtain
    "appendEventInternal (al_taskId lease) (Some (al_agentId lease)) (Some attemptId) ''ContinuationDecided'' no_payload
       (db\<lparr>db_decisions := db_decisions db @ [row]\<rparr>) = Inr d" "\<not> dup" "evaluation.truncate row = ev"
      "cd_agentId row = al_agentId lease" "cd_attemptId row = attemptId"
    by (auto simp: recordContinuationDecision_def bindE_eq_Inr Let_def evaluation.truncate_def)
  with fresh ev_decisions.event_keeps [OF this(1)] append_event_tables(4) [OF this(1)] show thesis by simp
next
  case (Some existing)
  with assms have "dup" "d = db" "row = existing"
    by (auto simp: recordContinuationDecision_def bindE_eq_Inr)
  with Some duplicate show thesis by (auto simp: find_Some_iff)
qed

lemma evaluate_decisions:
  assumes "evaluate rt policy now newId lease attemptId idx p db = (outcome, d)"
  shows "db_decisions d = db_decisions db \<or>
    (\<exists>row inp task agent. db_decisions d = db_decisions db @ [row] \<and> gather_input lease attemptId p task agent db = Inr inp \<and>
       evaluation.truncate row = decideContinuation rt policy inp \<and>
       cd_agentId row = al_agentId lease \<and> cd_attemptId row = attemptId)"
proof (cases "bindE (requireTask (al_taskId lease) db) (\<lambda>task.
           bindE (requireAgent (al_agentId lease) db) (\<lambda>agent.
           bindE (gather_input lease attemptId p task agent db) (\<lambda>inp.
           bindE (recordContinuationDecision now newId lease attemptId idx (decideContinuation rt policy inp) db) (\<lambda>recorded.
           Inr (task, agent, recorded)))))")
  case (Inl e)
  with assms show ?thesis by (simp add: evaluate_def)
next
  case (Inr res)
  obtain task agent row dup d1 where res: "res = (task, agent, ((row, dup), d1))" by (metis surj_pair)
  from Inr res obtain inp where inp: "gather_input lease attemptId p task agent db = Inr inp"
    and rec: "recordContinuationDecision now newId lease attemptId idx (decideContinuation rt policy inp) db = Inr ((row, dup), d1)"
    by (auto simp: bindE_eq_Inr)
  have "db_decisions d = db_decisions d1"
    using assms Inr res
    by (auto simp: evaluate_def dest!: transitionTask_decisions split: if_splits option.splits sum.splits)
  with rec inp show ?thesis by (elim record_cases) auto
qed

text \<open>
  C38: However the controller is called, the continue and replan decisions recorded for one attempt of
  an agent never exceed the policy's limit: every further evaluation ends in a decision that stops.
\<close>

theorem automatic_turns_bounded:
  assumes "automatic_bounded policy db"
    and "evaluate rt policy now newId lease attemptId idx p db = (outcome, db')"
  shows "automatic_bounded policy db'"
  using evaluate_decisions [OF assms(2)]
proof (elim disjE exE conjE)
  assume "db_decisions db' = db_decisions db"
  with assms(1) show ?thesis by (simp add: automatic_bounded_def automatic_count_def)
next
  fix row inp and task :: task_row and agent :: agent_row
  assume row: "db_decisions db' = db_decisions db @ [row]" "evaluation.truncate row = decideContinuation rt policy inp"
    "cd_agentId row = al_agentId lease" "cd_attemptId row = attemptId"
    and inp: "gather_input lease attemptId p task agent db = Inr inp"
  from row(2) have act: "ce_action row = ce_action (decideContinuation rt policy inp)"
    by (metis evaluation.select_convs(1) evaluation.truncate_def)
  have "automatic_count (al_agentId lease) attemptId db \<le> ci_automaticTurns inp"
    using inp automatic_count_le_listed [of "al_agentId lease" attemptId db]
    by (auto simp: gather_input_def Let_def bindE_eq_Inr)
  then have "is_automatic (ce_action row) \<Longrightarrow>
      automatic_count (al_agentId lease) attemptId db < maxAutomaticContinuationTurnsPerAttempt policy"
    using automatic_within_budget(1) [of rt policy inp] act by simp
  with assms(1) row show ?thesis by (auto simp: automatic_bounded_def automatic_count_def Suc_le_eq)
qed

section \<open>A run without progress stops\<close>

text \<open>The next evaluation of the same situation: the decision just made is remembered.\<close>

definition next_turn :: "text_runtime \<Rightarrow> continuation_policy \<Rightarrow> evaluation_input \<Rightarrow> evaluation_input" where
  "next_turn rt policy inp =
     (let d = decideContinuation rt policy inp in
      inp\<lparr>ci_previousDecisions := ci_previousDecisions inp @ [d],
          ci_automaticTurns := ci_automaticTurns inp + (if is_automatic (ce_action d) then 1 else 0)\<rparr>)"

lemma consecutive_snoc: "consecutiveMatches (xs @ [x]) P = (if P x then Suc (consecutiveMatches xs P) else 0)"
  by (simp add: consecutiveMatches_def)

lemma if_stop_automatic:
  "is_automatic (ce_action (if b then evaluation_result rt inp a c r else e)) \<longleftrightarrow>
     (if b then is_automatic a else is_automatic (ce_action e))"
  by simp

lemma automatic_stop [simp]:
  "\<not> is_automatic WaitUser" "\<not> is_automatic Complete" "\<not> is_automatic Fail" "\<not> is_automatic PauseBudget"
  "\<not> is_automatic WaitExternal"
  by (simp_all add: is_automatic_def)

lemma automatic_decision_repetition:
  assumes "is_automatic (ce_action (decideContinuation rt policy inp))" and "\<not> ci_completionRequested inp"
  shows "decideContinuation rt policy inp = decide_repetition rt policy inp"
proof -
  let ?guards = "[ci_hasUnknownToolOutcome inp, ci_agentState inp = ACompleted,
    ci_agentState inp = AFailed \<or> ci_agentState inp = ACancelled, ci_taskState inp = TUnknownOutcome,
    ci_taskState inp = TCancelled \<or> ci_taskState inp = TFailed, ci_taskState inp = TCompleted,
    ci_totalTurns inp \<ge> ci_maxTurns inp \<or> ci_automaticTurns inp \<ge> maxAutomaticContinuationTurnsPerAttempt policy,
    ci_taskState inp = TWaitingInput \<or> ci_taskState inp = TPaused,
    ci_taskState inp = TWaitingExternal \<or> ci_hasIncompleteRequiredDelegations inp]"
  have "\<not> b" if "b \<in> set ?guards" for b
    using assms that unfolding decideContinuation_def Let_def if_stop_automatic
    by (simp only: assms(2) automatic_stop simp_thms if_False list.set insert_iff empty_iff split: if_splits)
  then have "\<forall>b\<in>set ?guards. b = False" by blast
  then show ?thesis
    unfolding decideContinuation_def Let_def
    by (simp only: list.set ball_simps assms(2) simp_thms if_False)
qed

text \<open>How often in a row the previous decisions match the present situation.\<close>

definition repeats :: "text_runtime \<Rightarrow> evaluation_input \<Rightarrow> nat" where
  "repeats rt inp = (case truthy (failureSignature rt (ci_progress inp)) of
     Some failure \<Rightarrow> consecutiveMatches (ci_previousDecisions inp) (\<lambda>d. ce_reasonCode d = ''verification_failed:'' @ failure)
   | None \<Rightarrow> consecutiveMatches (ci_previousDecisions inp) (\<lambda>d. ce_progressFingerprint d = progressFingerprint rt (ci_progress inp)))"

definition patience :: "continuation_policy \<Rightarrow> nat" where
  "patience policy = max (pauseAfterIdenticalProgressTurns policy) (pauseAfterRepeatedFailureTurns policy)"

lemma next_turn_simps [simp]:
  "ci_progress (next_turn rt policy inp) = ci_progress inp"
  "ci_completionRequested (next_turn rt policy inp) = ci_completionRequested inp"
  "ci_previousDecisions (next_turn rt policy inp) = ci_previousDecisions inp @ [decideContinuation rt policy inp]"
  by (simp_all add: next_turn_def Let_def)

lemma next_turn_repeats:
  assumes "is_automatic (ce_action (decideContinuation rt policy inp))" and "\<not> ci_completionRequested inp"
  shows "repeats rt (next_turn rt policy inp) = Suc (repeats rt inp)"
proof -
  note dec = automatic_decision_repetition [OF assms]
  show ?thesis
  proof (cases "truthy (failureSignature rt (ci_progress inp))")
    case None
    then show ?thesis by (simp add: repeats_def consecutive_snoc dec) (simp add: decide_repetition_def Let_def)
  next
    case (Some failure)
    then show ?thesis by (simp add: repeats_def consecutive_snoc dec) (simp add: decide_repetition_def Let_def)
  qed
qed

lemma automatic_repeats_bounded:
  assumes "is_automatic (ce_action (decideContinuation rt policy inp))" and "\<not> ci_completionRequested inp"
  shows "Suc (repeats rt inp) < patience policy"
  using assms(1) unfolding automatic_decision_repetition [OF assms]
  by (auto simp: decide_repetition_def Let_def repeats_def patience_def is_automatic_def split: option.splits if_splits)


section \<open>Concrete evaluations\<close>

definition sample_input :: evaluation_input where
  "sample_input = \<lparr>ci_taskState = TRunning, ci_agentState = ARunning, ci_totalTurns = 1, ci_maxTurns = 50, ci_automaticTurns = 0,
     ci_hasUnknownToolOutcome = False, ci_completionRequested = False, ci_acceptancePassed = False,
     ci_hasIncompleteRequiredDelegations = False, ci_hasPendingManualAcceptance = False,
     ci_progress = sample_progress [''a''], ci_previousDecisions = []\<rparr>"


definition sample_continuation_db :: continuation_db where
  "sample_continuation_db = lease_db.extend (with_leases [sample_lease 1 4] sample_flow_db) (continuation_db.fields [])"

theorem automatic_turns_bounded_witness:
  "automatic_bounded DEFAULT_CONTINUATION_POLICY (snd (evaluate plain_runtime DEFAULT_CONTINUATION_POLICY 3 ''new''
     (lease_of (sample_lease 1 4)) ''a'' 0 (sample_progress [''a'']) sample_continuation_db))"
proof (rule automatic_turns_bounded)
  show "automatic_bounded DEFAULT_CONTINUATION_POLICY sample_continuation_db"
    by (simp add: automatic_bounded_def automatic_count_def sample_continuation_db_def lease_db.defs continuation_db.defs)
qed (rule prod.collapse [symmetric])

section \<open>Evaluating a finished task\<close>

text \<open>
  \<open>decideContinuation\<close> has answers for a task that is already completed, failed or cancelled, but acting
  on them asks for a transition that no terminal state allows: for the main agent \<open>evaluate\<close> records
  the decision and throws. It returns only a decision that was recorded before.
\<close>

lemma decide_finished:
  assumes "ci_taskState inp \<in> {TCompleted, TFailed, TCancelled}"
  shows "ce_action (decideContinuation rt policy inp) \<in> {WaitUser, Complete, Fail}"
proof -
  have "ci_taskState inp = TCompleted \<or> ci_taskState inp = TCancelled \<or> ci_taskState inp = TFailed" using assms by auto
  then show ?thesis
    unfolding decideContinuation_def Let_def if_distrib [of ce_action] evaluation_result_simps
    by (elim disjE) (simp_all only: if_True simp_thms task_state.distinct if_False, simp_all)
qed

theorem finished_task_evaluation_throws:
  assumes task: "requireTask (al_taskId lease) db = Inr task" "tk_state task \<in> {TCompleted, TFailed, TCancelled}"
    and agent: "requireAgent (al_agentId lease) db = Inr agent" "ag_kind agent = KindMain"
    and ev: "evaluate rt policy now newId lease attemptId idx p db = (Inr (row, dup), db')"
  shows "dup"
proof (rule ccontr)
  assume "\<not> dup"
  with ev task agent obtain inp row' b d1 where inp: "gather_input lease attemptId p task agent db = Inr inp"
    and rec: "recordContinuationDecision now newId lease attemptId idx (decideContinuation rt policy inp) db = Inr ((row', b), d1)"
    and "\<not> b" and moved: "(case decision_transition (ce_action row') (ce_reasonCode row') of
        None \<Rightarrow> (Inr (row', b), d1)
      | Some (nextState, reason) \<Rightarrow>
          (case transitionTask now (tk_id task) nextState (Some reason) d1 of
             Inl e \<Rightarrow> (Inl e, d1) | Inr db2 \<Rightarrow> (Inr (row', b), db2))) = (Inr (row, dup), db')"
    by (auto simp: evaluate_def bindE_eq_Inr bindE_eq_Inl split: sum.split_asm if_split_asm)
  from rec \<open>\<not> b\<close> obtain "evaluation.truncate row' = decideContinuation rt policy inp" "db_tasks d1 = db_tasks db"
    by (elim record_cases) auto
  then have act: "ce_action row' = ce_action (decideContinuation rt policy inp)" and tasks: "getTask t d1 = getTask t db" for t
    by (metis evaluation.select_convs(1) evaluation.truncate_def) (simp add: getTask_def \<open>db_tasks d1 = db_tasks db\<close>)
  have "tk_id task = al_taskId lease"
    using task(1) by (auto simp: requireTask_def getTask_def find_Some_iff split: option.splits)
  then have "requireTask (tk_id task) d1 = Inr task" using task(1) by (simp add: requireTask_def tasks)
  then have refuse: "\<exists>e. transitionTask now (tk_id task) nextState (Some reason) d1 = Inl e" for nextState reason
    using task(2) by (auto simp: transitionTask_def)
  have "ci_taskState inp = tk_state task" using inp by (auto simp: gather_input_def Let_def bindE_eq_Inr)
  with task(2) decide_finished [of inp rt policy] act have "ce_action row' \<in> {WaitUser, Complete, Fail}" by simp
  then obtain nextState reason where "decision_transition (ce_action row') (ce_reasonCode row') = Some (nextState, reason)" by auto
  with moved refuse [of nextState reason] show False by auto
qed

end

