(* ===== verification/Task_Inbox.thy ===== *)
theory Task_Inbox
  imports Task_Lease Js_Text
begin

text \<open>
  The durable inbox between agents (packages/long-tasks/src/store.ts): queueing, the three ways a
  message reaches its recipient (reading the inbox, claiming it under a lease, live delivery with a
  claim that goes stale), model-visible receipts, acknowledgement and settling. The stored JSON body
  is kept as its two members. An operation that throws leaves the tables as they were, as inside a
  transaction.
\<close>

section \<open>Tables\<close>

datatype message_state = MQueued | MDelivering | MDelivered | MAcknowledged

datatype message_priority = HighPriority | NormalPriority

record message_row =
  mg_id :: string
  mg_taskId :: string
  mg_sender :: string
  mg_recipient :: string
  mg_senderSeq :: nat
  mg_type :: string
  mg_priority :: message_priority
  mg_body :: jsstr
  mg_artifactRefs :: "string list"
  mg_replyTo :: "string option"
  mg_dedupeKey :: string
  mg_state :: message_state
  mg_createdAt :: int
  mg_claimedAt :: "int option"
  mg_deliveredAt :: "int option"
  mg_acknowledgedAt :: "int option"

record receipt_row =
  rc_messageId :: string
  rc_recipient :: string
  rc_sessionId :: string
  rc_requestId :: string
  rc_modelVisibleAt :: int
  rc_settledAt :: "int option"

record inbox_db = lease_db +
  db_messages :: "message_row list"
  db_receipts :: "receipt_row list"

definition LIVE_DELIVERY_STALE_AFTER_MS :: int where
  "LIVE_DELIVERY_STALE_AFTER_MS = 35 * 60000"

text \<open>\<open>UPDATE agent_messages SET ... WHERE ...\<close>, and how many rows it changed.\<close>

definition update_messages ::
  "(message_row \<Rightarrow> bool) \<Rightarrow> (message_row \<Rightarrow> message_row) \<Rightarrow> ('z) inbox_db_scheme \<Rightarrow> ('z) inbox_db_scheme" where
  "update_messages which f db = db\<lparr>db_messages := map (\<lambda>m. if which m then f m else m) (db_messages db)\<rparr>"

definition count_messages :: "(message_row \<Rightarrow> bool) \<Rightarrow> ('z) inbox_db_scheme \<Rightarrow> nat" where
  "count_messages which db = length (filter which (db_messages db))"

abbreviation message_event :: "string \<Rightarrow> string \<Rightarrow> string \<Rightarrow> ('z) inbox_db_scheme \<Rightarrow> string + ('z) inbox_db_scheme" where
  "message_event taskId agentId type \<equiv> appendEventInternal taskId (Some agentId) None type no_payload"

section \<open>Queueing and listing\<close>

definition queueMessage ::
  "int \<Rightarrow> string \<Rightarrow> agent_row \<Rightarrow> agent_row \<Rightarrow> string \<Rightarrow> string \<Rightarrow> message_priority \<Rightarrow> jsstr \<Rightarrow> string list \<Rightarrow> string option
    \<Rightarrow> ('z) inbox_db_scheme \<Rightarrow> string + ('z) inbox_db_scheme" where
  "queueMessage now newId actor recipient dedupeKey type priority body artifactRefs replyTo db =
     bindE (guardE (length (utf8_encode body) > 16384) ''Agent message exceeds 16 KiB'') (\<lambda>_.
     bindE (guardE (ag_taskId actor \<noteq> ag_taskId recipient) ''Cross-task communication is forbidden'') (\<lambda>_.
     bindE (guardE (ag_id actor = ag_id recipient \<and> type \<noteq> ''steering'')
       ''An Agent may only send steering messages to itself'') (\<lambda>_.
     bindE (guardE (list_ex (\<lambda>m. mg_id m = newId \<or>
         mg_taskId m = ag_taskId actor \<and> mg_sender m = ag_id actor \<and> mg_dedupeKey m = dedupeKey) (db_messages db))
       ''UNIQUE constraint failed: agent_messages'') (\<lambda>_.
     let seq = fold (\<lambda>m s. max s (mg_senderSeq m))
           (filter (\<lambda>m. mg_taskId m = ag_taskId actor \<and> mg_sender m = ag_id actor \<and> mg_recipient m = ag_id recipient)
             (db_messages db)) 0 + 1;
         row = \<lparr>mg_id = newId, mg_taskId = ag_taskId actor, mg_sender = ag_id actor, mg_recipient = ag_id recipient,
           mg_senderSeq = seq, mg_type = type, mg_priority = priority, mg_body = body, mg_artifactRefs = artifactRefs,
           mg_replyTo = replyTo, mg_dedupeKey = dedupeKey, mg_state = MQueued, mg_createdAt = now, mg_claimedAt = None,
           mg_deliveredAt = None, mg_acknowledgedAt = None\<rparr>;
         db1 = db\<lparr>db_messages := db_messages db @ [row]\<rparr>;
         db2 = (if priority = HighPriority \<and> ag_state recipient \<in> {AWaitingMessage, AWaitingExternal}
                then put_agent_state (ag_id recipient) AQueued db1 else db1) in
     message_event (ag_taskId actor) (ag_id actor) ''MessageQueued'' db2))))"

definition by_sender :: "message_row list \<Rightarrow> message_row list" where
  "by_sender ms = sort_key mg_sender (sort_key mg_senderSeq ms)"

definition listMessages :: "string \<Rightarrow> string option \<Rightarrow> nat \<Rightarrow> ('z) inbox_db_scheme \<Rightarrow> string + message_row list" where
  "listMessages taskId agentId limit db =
     bindE (requireTask taskId db) (\<lambda>_.
     Inr (take limit (sort_key mg_createdAt (by_sender (filter (\<lambda>m. mg_taskId m = taskId \<and>
       (case truthy agentId of None \<Rightarrow> True | Some a \<Rightarrow> mg_sender m = a \<or> mg_recipient m = a)) (db_messages db))))))"

definition priority_rank :: "message_row \<Rightarrow> nat" where
  "priority_rank m = (if mg_priority m = HighPriority then 0 else 1)"

definition inbox_order :: "message_row list \<Rightarrow> message_row list" where
  "inbox_order ms = sort_key priority_rank (by_sender ms)"

section \<open>Delivery\<close>

definition recoverStaleAgentMessageDeliveries ::
  "int \<Rightarrow> int \<Rightarrow> ('z) inbox_db_scheme \<Rightarrow> string + ('z) inbox_db_scheme" where
  "recoverStaleAgentMessageDeliveries now staleAfterMs db =
     bindE (guardE (staleAfterMs < 1 \<or> staleAfterMs > 2 ^ 53 - 1) ''Live delivery stale timeout must be a positive integer'') (\<lambda>_.
     Inr (update_messages (\<lambda>m. mg_state m = MDelivering \<and> (\<exists>c\<in>set_option (mg_claimedAt m). c \<le> now - staleAfterMs))
       (\<lambda>m. m\<lparr>mg_state := MQueued, mg_claimedAt := None\<rparr>) db))"

abbreviation recover_stale :: "int \<Rightarrow> ('z) inbox_db_scheme \<Rightarrow> string + ('z) inbox_db_scheme" where
  "recover_stale now \<equiv> recoverStaleAgentMessageDeliveries now LIVE_DELIVERY_STALE_AFTER_MS"

definition inbox_rows :: "string \<Rightarrow> message_state set \<Rightarrow> nat \<Rightarrow> ('z) inbox_db_scheme \<Rightarrow> message_row list" where
  "inbox_rows agentId states limit db =
     take limit (inbox_order (filter (\<lambda>m. mg_recipient m = agentId \<and> mg_state m \<in> states) (db_messages db)))"

definition deliver_row :: "int \<Rightarrow> string \<Rightarrow> string \<Rightarrow> string \<Rightarrow> ('z) inbox_db_scheme \<Rightarrow> string + ('z) inbox_db_scheme" where
  "deliver_row now taskId agentId messageId db =
     message_event taskId agentId ''MessageDelivered''
       (update_messages (\<lambda>m. mg_id m = messageId) (\<lambda>m. m\<lparr>mg_state := MDelivered, mg_deliveredAt := Some now\<rparr>) db)"

definition readAgentInbox ::
  "int \<Rightarrow> string \<Rightarrow> nat \<Rightarrow> ('z) inbox_db_scheme \<Rightarrow> string + message_row list \<times> ('z) inbox_db_scheme" where
  "readAgentInbox now agentId limit db =
     bindE (requireAgent agentId db) (\<lambda>agent.
     bindE (recover_stale now db) (\<lambda>db1.
     let rows = inbox_rows agentId {MQueued, MDelivered} limit db1 in
     bindE (foldE (\<lambda>row d. if mg_state row \<noteq> MQueued then Inr d else deliver_row now (ag_taskId agent) agentId (mg_id row) d) rows db1) (\<lambda>db2.
     bindE (listMessages (ag_taskId agent) (Some agentId) 1000 db2) (\<lambda>messages.
     Inr (take limit (filter (\<lambda>m. mg_recipient m = agentId \<and> list_ex (\<lambda>row. mg_id row = mg_id m) rows) messages), db2)))))"

definition peekAgentInbox ::
  "int \<Rightarrow> string \<Rightarrow> nat \<Rightarrow> ('z) inbox_db_scheme \<Rightarrow> string + message_row list \<times> ('z) inbox_db_scheme" where
  "peekAgentInbox now agentId limit db =
     bindE (requireAgent agentId db) (\<lambda>agent.
     bindE (recover_stale now db) (\<lambda>db1.
     let ids = map mg_id (inbox_rows agentId {MQueued} limit db1) in
     bindE (listMessages (ag_taskId agent) (Some agentId) 1000 db1) (\<lambda>messages.
     Inr (take limit (filter (\<lambda>m. mg_recipient m = agentId \<and> mg_id m \<in> set ids) messages), db1))))"

definition claimInbox ::
  "int \<Rightarrow> string \<Rightarrow> agent_lease \<Rightarrow> nat \<Rightarrow> ('z) inbox_db_scheme \<Rightarrow> string + message_row list \<times> ('z) inbox_db_scheme" where
  "claimInbox now agentId lease limit db =
     bindE (assertLeaseInternal now lease db) (\<lambda>_.
     bindE (guardE (al_agentId lease \<noteq> agentId) ''Lease does not belong to inbox recipient'') (\<lambda>_.
     bindE (recover_stale now db) (\<lambda>db1.
     let rows = inbox_rows agentId {MQueued, MDelivered} limit db1 in
     bindE (foldE (\<lambda>row. deliver_row now (mg_taskId row) agentId (mg_id row)) rows db1) (\<lambda>db2.
     Inr (rows, db2)))))"

definition markAgentMessagesDelivered ::
  "int \<Rightarrow> string \<Rightarrow> string list \<Rightarrow> ('z) inbox_db_scheme \<Rightarrow> string + ('z) inbox_db_scheme" where
  "markAgentMessagesDelivered now agentId messageIds db =
     bindE (requireAgent agentId db) (\<lambda>agent.
     foldE (\<lambda>messageId d.
       let which = (\<lambda>m. mg_id m = messageId \<and> mg_recipient m = agentId \<and> mg_state m = MQueued) in
       bindE (guardE (count_messages which d \<noteq> 1) (''Cannot mark queued message delivered: '' @ messageId)) (\<lambda>_.
       message_event (ag_taskId agent) agentId ''MessageDelivered''
         (update_messages which (\<lambda>m. m\<lparr>mg_state := MDelivered, mg_deliveredAt := Some now\<rparr>) d)))
       messageIds db)"

definition claimAgentMessageForLiveDelivery ::
  "int \<Rightarrow> string \<Rightarrow> string \<Rightarrow> ('z) inbox_db_scheme \<Rightarrow> string + bool \<times> ('z) inbox_db_scheme" where
  "claimAgentMessageForLiveDelivery now messageId recipientAgentId db =
     bindE (requireAgent recipientAgentId db) (\<lambda>_.
     let which = (\<lambda>m. mg_id m = messageId \<and> mg_recipient m = recipientAgentId \<and>
           (mg_state m = MQueued \<or>
            mg_state m = MDelivering \<and> (\<exists>c\<in>set_option (mg_claimedAt m). c \<le> now - LIVE_DELIVERY_STALE_AFTER_MS))) in
     Inr (count_messages which db = 1,
          update_messages which (\<lambda>m. m\<lparr>mg_state := MDelivering, mg_claimedAt := Some now\<rparr>) db))"

definition completeAgentMessageLiveDelivery ::
  "int \<Rightarrow> string \<Rightarrow> string \<Rightarrow> bool \<Rightarrow> ('z) inbox_db_scheme \<Rightarrow> string + message_state \<times> ('z) inbox_db_scheme" where
  "completeAgentMessageLiveDelivery now messageId recipientAgentId succeeded db =
     bindE (requireAgent recipientAgentId db) (\<lambda>agent.
     let which = (\<lambda>m. mg_id m = messageId \<and> mg_recipient m = recipientAgentId \<and> mg_state m = MDelivering);
         state = (if succeeded then MDelivered else MQueued) in
     if count_messages which db \<noteq> 1 then
       (case find (\<lambda>m. mg_id m = messageId \<and> mg_recipient m = recipientAgentId) (db_messages db) of
          Some m \<Rightarrow> if mg_state m = MDelivered \<or> mg_state m = MAcknowledged then Inr (MDelivered, db)
                    else Inl (''Live delivery claim not found: '' @ messageId)
        | None \<Rightarrow> Inl (''Live delivery claim not found: '' @ messageId))
     else bindE (message_event (ag_taskId agent) recipientAgentId (if succeeded then ''MessageDelivered'' else ''MessageDeliveryDeferred'')
         (update_messages which (\<lambda>m. m\<lparr>mg_state := state, mg_claimedAt := None,
            mg_deliveredAt := (if succeeded then Some now else mg_deliveredAt m)\<rparr>) db)) (\<lambda>db'.
       Inr (state, db')))"

section \<open>Receipts, acknowledgement, settling\<close>

definition mark_visible ::
  "int \<Rightarrow> string \<Rightarrow> string \<Rightarrow> string \<Rightarrow> string \<Rightarrow> string \<Rightarrow> ('z) inbox_db_scheme \<Rightarrow> string + ('z) inbox_db_scheme" where
  "mark_visible now taskId agentId sessionId requestId messageId db =
     (case find (\<lambda>r. rc_messageId r = messageId) (db_receipts db) of
        Some r \<Rightarrow>
          bindE (guardE (rc_recipient r \<noteq> agentId \<or> rc_sessionId r \<noteq> sessionId \<or> rc_requestId r \<noteq> requestId)
            (''Model-visible receipt identity conflict: '' @ messageId)) (\<lambda>_. Inr db)
      | None \<Rightarrow>
          (case find (\<lambda>m. mg_id m = messageId \<and> mg_recipient m = agentId) (db_messages db) of
             None \<Rightarrow> Inl (''Cannot mark unavailable message model-visible: '' @ messageId)
           | Some message \<Rightarrow>
               bindE (guardE (mg_state message \<notin> {MQueued, MDelivering, MDelivered})
                 (''Cannot mark unavailable message model-visible: '' @ messageId)) (\<lambda>_.
               let db1 = update_messages (\<lambda>m. mg_id m = messageId \<and> mg_recipient m = agentId \<and>
                       mg_state m \<in> {MQueued, MDelivering, MDelivered})
                     (\<lambda>m. m\<lparr>mg_state := MDelivered, mg_claimedAt := None,
                       mg_deliveredAt := (case mg_deliveredAt m of Some t \<Rightarrow> Some t | None \<Rightarrow> Some now)\<rparr>) db;
                   db2 = db1\<lparr>db_receipts := db_receipts db1 @ [\<lparr>rc_messageId = messageId, rc_recipient = agentId,
                     rc_sessionId = sessionId, rc_requestId = requestId, rc_modelVisibleAt = now, rc_settledAt = None\<rparr>]\<rparr> in
               bindE (if mg_state message \<noteq> MDelivered then message_event taskId agentId ''MessageDelivered'' db2 else Inr db2)
                 (message_event taskId agentId ''MessageModelVisible''))))"

definition markAgentMessagesModelVisible ::
  "int \<Rightarrow> string \<Rightarrow> string list \<Rightarrow> string \<Rightarrow> string \<Rightarrow> ('z) inbox_db_scheme \<Rightarrow> string + ('z) inbox_db_scheme" where
  "markAgentMessagesModelVisible now agentId messageIds sessionId requestId db =
     bindE (guardE (js_trim sessionId = [] \<or> js_trim requestId = [])
       ''Model-visible receipt Session ID and request ID are required'') (\<lambda>_.
     bindE (requireAgent agentId db) (\<lambda>agent.
     foldE (mark_visible now (ag_taskId agent) agentId sessionId requestId) messageIds db))"

definition listUnsettledAgentMessageReceipts ::
  "string \<Rightarrow> string option \<Rightarrow> ('z) inbox_db_scheme \<Rightarrow> string + receipt_row list" where
  "listUnsettledAgentMessageReceipts agentId sessionId db =
     bindE (requireAgent agentId db) (\<lambda>_.
     bindE (guardE (\<exists>s\<in>set_option sessionId. js_trim s = []) ''Receipt Session ID cannot be empty'') (\<lambda>_.
     Inr (sort_key rc_modelVisibleAt (sort_key rc_messageId
       (filter (\<lambda>r. rc_recipient r = agentId \<and> rc_settledAt r = None \<and> (sessionId = None \<or> sessionId = Some (rc_sessionId r)))
         (db_receipts db))))))"

definition settle_one ::
  "int \<Rightarrow> string \<Rightarrow> string \<Rightarrow> string \<Rightarrow> ('z) inbox_db_scheme \<Rightarrow> string + ('z) inbox_db_scheme" where
  "settle_one now taskId agentId messageId db =
     (let row = find (\<lambda>m. mg_id m = messageId \<and> mg_recipient m = agentId) (db_messages db);
          receipt = find (\<lambda>r. rc_messageId r = messageId) (db_receipts db);
          which = (\<lambda>m. mg_id m = messageId \<and> mg_recipient m = agentId \<and> mg_state m = MDelivered);
          pending = (\<lambda>r. rc_messageId r = messageId \<and> rc_recipient r = agentId \<and> rc_settledAt r = None) in
      case (row, receipt) of
        (Some m, Some r) \<Rightarrow>
          if mg_state m = MAcknowledged \<and> rc_settledAt r \<noteq> None then Inr db
          else
            bindE (guardE (mg_state m \<noteq> MDelivered \<or> rc_settledAt r \<noteq> None) (''Cannot settle unavailable message '' @ messageId)) (\<lambda>_.
            bindE (guardE (count_messages which db \<noteq> 1) (''Cannot settle unavailable message '' @ messageId)) (\<lambda>_.
            let db1 = update_messages which (\<lambda>m. m\<lparr>mg_state := MAcknowledged, mg_acknowledgedAt := Some now\<rparr>) db in
            bindE (guardE (length (filter pending (db_receipts db1)) \<noteq> 1) (''Cannot settle message receipt '' @ messageId)) (\<lambda>_.
            message_event taskId agentId ''MessageAcknowledged''
              (db1\<lparr>db_receipts := map (\<lambda>r. if pending r then r\<lparr>rc_settledAt := Some now\<rparr> else r) (db_receipts db1)\<rparr>))))
      | _ \<Rightarrow> Inl (''Model-visible receipt not found: '' @ messageId))"

definition settleAgentMessages ::
  "int \<Rightarrow> string \<Rightarrow> string list \<Rightarrow> ('z) inbox_db_scheme \<Rightarrow> string + ('z) inbox_db_scheme" where
  "settleAgentMessages now agentId messageIds db =
     bindE (requireAgent agentId db) (\<lambda>agent. foldE (settle_one now (ag_taskId agent) agentId) messageIds db)"

definition acknowledgeAgentInbox ::
  "int \<Rightarrow> string \<Rightarrow> string list \<Rightarrow> ('z) inbox_db_scheme \<Rightarrow> string + ('z) inbox_db_scheme" where
  "acknowledgeAgentInbox now agentId messageIds db =
     bindE (requireAgent agentId db) (\<lambda>agent.
     foldE (\<lambda>messageId d.
       let which = (\<lambda>m. mg_id m = messageId \<and> mg_recipient m = agentId \<and> mg_state m = MDelivered) in
       bindE (guardE (count_messages which d \<noteq> 1) (''Cannot acknowledge undelivered message '' @ messageId)) (\<lambda>_.
       message_event (ag_taskId agent) agentId ''MessageAcknowledged''
         (update_messages which (\<lambda>m. m\<lparr>mg_state := MAcknowledged, mg_acknowledgedAt := Some now\<rparr>) d)))
       messageIds db)"

definition countPendingAgentMessages ::
  "int \<Rightarrow> string \<Rightarrow> ('z) inbox_db_scheme \<Rightarrow> string + nat \<times> ('z) inbox_db_scheme" where
  "countPendingAgentMessages now agentId db =
     bindE (requireAgent agentId db) (\<lambda>_.
     bindE (recover_stale now db) (\<lambda>db1.
     Inr (count_messages (\<lambda>m. mg_recipient m = agentId \<and> mg_state m \<in> {MQueued, MDelivering, MDelivered}) db1, db1)))"

section \<open>The life of a message\<close>

text \<open>
  Progress of a message: not yet delivered (queued, or claimed by a live delivery that may fail),
  delivered, acknowledged. One row is a later version of another when its identity and content are
  the same and its progress is not smaller.
\<close>

fun progress_rank :: "message_state \<Rightarrow> nat" where
  "progress_rank MQueued = 0"
| "progress_rank MDelivering = 0"
| "progress_rank MDelivered = 1"
| "progress_rank MAcknowledged = 2"

definition same_message :: "message_row \<Rightarrow> message_row \<Rightarrow> bool" where
  "same_message m m' \<longleftrightarrow> mg_id m' = mg_id m \<and> mg_taskId m' = mg_taskId m \<and> mg_sender m' = mg_sender m \<and>
     mg_recipient m' = mg_recipient m \<and> mg_senderSeq m' = mg_senderSeq m \<and> mg_type m' = mg_type m \<and>
     mg_priority m' = mg_priority m \<and> mg_body m' = mg_body m \<and> mg_artifactRefs m' = mg_artifactRefs m \<and>
     mg_dedupeKey m' = mg_dedupeKey m \<and> mg_createdAt m' = mg_createdAt m"

definition later_version :: "message_row \<Rightarrow> message_row \<Rightarrow> bool" where
  "later_version m m' \<longleftrightarrow> same_message m m' \<and> progress_rank (mg_state m) \<le> progress_rank (mg_state m')"

text \<open>
  A table is a later version of another when its rows are later versions, in place, followed by new
  rows.
\<close>

definition messages_advance :: "message_row list \<Rightarrow> message_row list \<Rightarrow> bool" where
  "messages_advance ms ms' \<longleftrightarrow> length ms \<le> length ms' \<and> (\<forall>i<length ms. later_version (ms ! i) (ms' ! i))"

inductive inbox_step :: "('z) inbox_db_scheme \<Rightarrow> ('z) inbox_db_scheme \<Rightarrow> bool" where
  step_queue: "queueMessage now i actor recipient key ty prio body refs reply db = Inr db' \<Longrightarrow> inbox_step db db'"
| step_read: "readAgentInbox now a limit db = Inr (ms, db') \<Longrightarrow> inbox_step db db'"
| step_peek: "peekAgentInbox now a limit db = Inr (ms, db') \<Longrightarrow> inbox_step db db'"
| step_claim_inbox: "claimInbox now a lease limit db = Inr (ms, db') \<Longrightarrow> inbox_step db db'"
| step_delivered: "markAgentMessagesDelivered now a ids db = Inr db' \<Longrightarrow> inbox_step db db'"
| step_visible: "markAgentMessagesModelVisible now a ids s r db = Inr db' \<Longrightarrow> inbox_step db db'"
| step_settle: "settleAgentMessages now a ids db = Inr db' \<Longrightarrow> inbox_step db db'"
| step_recover: "recoverStaleAgentMessageDeliveries now ms db = Inr db' \<Longrightarrow> inbox_step db db'"
| step_claim: "claimAgentMessageForLiveDelivery now i a db = Inr (ok, db') \<Longrightarrow> inbox_step db db'"
| step_complete: "completeAgentMessageLiveDelivery now i a ok db = Inr (st, db') \<Longrightarrow> inbox_step db db'"
| step_acknowledge: "acknowledgeAgentInbox now a ids db = Inr db' \<Longrightarrow> inbox_step db db'"
| step_count: "countPendingAgentMessages now a db = Inr (n, db') \<Longrightarrow> inbox_step db db'"
| step_other: "db_messages db' = db_messages db \<Longrightarrow> inbox_step db db'"

definition ids_unique :: "('z) inbox_db_scheme \<Rightarrow> bool" where
  "ids_unique db \<longleftrightarrow> distinct (map mg_id (db_messages db))"

lemma later_version_refl [simp]: "later_version m m"
  by (simp add: later_version_def same_message_def)

lemma later_version_trans: "later_version a b \<Longrightarrow> later_version b c \<Longrightarrow> later_version a c"
  by (auto simp: later_version_def same_message_def)

lemma messages_advance_refl [simp]: "messages_advance ms ms"
  by (simp add: messages_advance_def)

lemma messages_advance_trans: "messages_advance a b \<Longrightarrow> messages_advance b c \<Longrightarrow> messages_advance a c"
  unfolding messages_advance_def by (meson later_version_trans le_trans less_le_trans)

text \<open>
  An operation advances the table: it keeps the order and identity of rows and, when ids were unique,
  moves every row forward.
\<close>

definition table_advances :: "('z) inbox_db_scheme \<Rightarrow> ('z) inbox_db_scheme \<Rightarrow> bool" where
  "table_advances db db' \<longleftrightarrow> ids_unique db \<longrightarrow> ids_unique db' \<and> messages_advance (db_messages db) (db_messages db')"

lemma table_advances_same: "db_messages d = db_messages db \<Longrightarrow> table_advances db d"
  by (simp add: table_advances_def ids_unique_def)

lemma table_advances_trans: "table_advances a b \<Longrightarrow> table_advances b c \<Longrightarrow> table_advances a c"
  unfolding table_advances_def using messages_advance_trans by blast

interpretation ev_messages: event_frame db_messages
  by unfold_locales simp

lemma table_advances_update:
  assumes "\<And>m. m \<in> set (db_messages db) \<Longrightarrow> which m \<Longrightarrow> later_version m (f m)"
  shows "table_advances db (update_messages which f db)"
proof -
  have "map mg_id (db_messages (update_messages which f db)) = map mg_id (db_messages db)"
    using assms by (auto simp: update_messages_def later_version_def same_message_def)
  moreover have "messages_advance (db_messages db) (db_messages (update_messages which f db))"
    using assms by (auto simp: messages_advance_def update_messages_def)
  ultimately show ?thesis by (simp add: table_advances_def ids_unique_def)
qed

lemma table_advances_event:
  assumes "appendEventInternal t a i type pl (update_messages which f db) = Inr d"
    and "\<And>m. m \<in> set (db_messages db) \<Longrightarrow> which m \<Longrightarrow> later_version m (f m)"
  shows "table_advances db d"
  by (rule table_advances_trans [OF table_advances_update [OF assms(2)] table_advances_same [OF ev_messages.event_keeps [OF assms(1)]]])

lemma table_advances_foldE:
  assumes "foldE f xs db = Inr d" and "\<And>x s s'. f x s = Inr s' \<Longrightarrow> table_advances s s'"
  shows "table_advances db d"
  using assms(1)
proof (rule foldE_invariant)
  show "table_advances db db" by (simp add: table_advances_same)
  show "table_advances db s'" if "table_advances db s" "f x s = Inr s'" for x s s'
    using that assms(2) table_advances_trans by blast
qed

lemmas version_simps = later_version_def same_message_def

lemma recover_stale_advances: "recoverStaleAgentMessageDeliveries now ms db = Inr d \<Longrightarrow> table_advances db d"
  by (auto simp: recoverStaleAgentMessageDeliveries_def bindE_eq_Inr intro!: table_advances_update) (simp add: version_simps)

lemma markDelivered_advances: "markAgentMessagesDelivered now a ids db = Inr d \<Longrightarrow> table_advances db d"
  by (auto simp: markAgentMessagesDelivered_def bindE_eq_Inr Let_def version_simps elim!: table_advances_foldE table_advances_event)

lemma acknowledge_advances: "acknowledgeAgentInbox now a ids db = Inr d \<Longrightarrow> table_advances db d"
  by (auto simp: acknowledgeAgentInbox_def bindE_eq_Inr Let_def version_simps elim!: table_advances_foldE table_advances_event)

lemma claim_advances: "claimAgentMessageForLiveDelivery now i a db = Inr (ok, d) \<Longrightarrow> table_advances db d"
  by (auto simp: claimAgentMessageForLiveDelivery_def bindE_eq_Inr Let_def intro!: table_advances_update) (auto simp: version_simps)

lemma complete_advances: "completeAgentMessageLiveDelivery now i a ok db = Inr (st, d) \<Longrightarrow> table_advances db d"
  by (auto simp: completeAgentMessageLiveDelivery_def bindE_eq_Inr Let_def version_simps table_advances_same
      elim!: table_advances_event split: if_splits option.splits)

lemma count_advances: "countPendingAgentMessages now a db = Inr (n, d) \<Longrightarrow> table_advances db d"
  by (auto simp: countPendingAgentMessages_def bindE_eq_Inr dest: recover_stale_advances)

lemma peek_advances: "peekAgentInbox now a limit db = Inr (ms, d) \<Longrightarrow> table_advances db d"
  by (auto simp: peekAgentInbox_def bindE_eq_Inr Let_def dest: recover_stale_advances)

lemma mark_visible_advances:
  assumes "mark_visible now t a s r i db = Inr d"
  shows "table_advances db d"
proof (cases "find (\<lambda>r. rc_messageId r = i) (db_receipts db)")
  case (Some x)
  with assms have "d = db" by (auto simp: mark_visible_def bindE_eq_Inr)
  then show ?thesis by (simp add: table_advances_same)
next
  case None
  let ?which = "\<lambda>m. mg_id m = i \<and> mg_recipient m = a \<and> mg_state m \<in> {MQueued, MDelivering, MDelivered}"
  let ?f = "\<lambda>m. m\<lparr>mg_state := MDelivered, mg_claimedAt := None,
    mg_deliveredAt := (case mg_deliveredAt m of Some t \<Rightarrow> Some t | None \<Rightarrow> Some now)\<rparr>"
  from assms None have "db_messages d = db_messages (update_messages ?which ?f db)"
    by (auto simp: mark_visible_def bindE_eq_Inr Let_def dest!: ev_messages.event_keeps split: option.splits if_splits)
  moreover have "table_advances db (update_messages ?which ?f db)"
    by (rule table_advances_update) (auto simp: version_simps)
  ultimately show ?thesis using table_advances_trans table_advances_same by blast
qed

lemma visible_advances: "markAgentMessagesModelVisible now a ids s r db = Inr d \<Longrightarrow> table_advances db d"
  by (auto simp: markAgentMessagesModelVisible_def bindE_eq_Inr elim!: table_advances_foldE dest: mark_visible_advances)

lemma settle_one_advances:
  assumes "settle_one now t a i db = Inr d"
  shows "table_advances db d"
proof -
  let ?which = "\<lambda>m. mg_id m = i \<and> mg_recipient m = a \<and> mg_state m = MDelivered"
  let ?f = "\<lambda>m. m\<lparr>mg_state := MAcknowledged, mg_acknowledgedAt := Some now\<rparr>"
  from assms have "d = db \<or> db_messages d = db_messages (update_messages ?which ?f db)"
    by (auto simp: settle_one_def Let_def bindE_eq_Inr dest!: ev_messages.event_keeps split: option.splits if_splits)
  moreover have "table_advances db (update_messages ?which ?f db)"
    by (rule table_advances_update) (auto simp: version_simps)
  ultimately show ?thesis using table_advances_trans table_advances_same by blast
qed

lemma settle_advances: "settleAgentMessages now a ids db = Inr d \<Longrightarrow> table_advances db d"
  by (auto simp: settleAgentMessages_def bindE_eq_Inr elim!: table_advances_foldE dest: settle_one_advances)

text \<open>What queueing adds: one row, with a fresh id and the next number of its sender and recipient.\<close>

lemma queue_messages:
  assumes "queueMessage now i actor recipient key ty prio body refs reply db = Inr d"
  obtains row where "db_messages d = db_messages db @ [row]" "mg_id row = i" "i \<notin> set (map mg_id (db_messages db))"
    "mg_senderSeq row = fold (\<lambda>m s. max s (mg_senderSeq m))
      (filter (\<lambda>m. mg_taskId m = ag_taskId actor \<and> mg_sender m = ag_id actor \<and> mg_recipient m = ag_id recipient) (db_messages db)) 0 + 1"
    "mg_taskId row = ag_taskId actor" "mg_sender row = ag_id actor" "mg_recipient row = ag_id recipient" "mg_state row = MQueued"
proof -
  let ?row = "\<lparr>mg_id = i, mg_taskId = ag_taskId actor, mg_sender = ag_id actor, mg_recipient = ag_id recipient,
    mg_senderSeq = fold (\<lambda>m s. max s (mg_senderSeq m))
      (filter (\<lambda>m. mg_taskId m = ag_taskId actor \<and> mg_sender m = ag_id actor \<and> mg_recipient m = ag_id recipient) (db_messages db)) 0 + 1,
    mg_type = ty, mg_priority = prio, mg_body = body, mg_artifactRefs = refs, mg_replyTo = reply, mg_dedupeKey = key,
    mg_state = MQueued, mg_createdAt = now, mg_claimedAt = None, mg_deliveredAt = None, mg_acknowledgedAt = None\<rparr>"
  have "db_messages d = db_messages db @ [?row]"
    using assms by (auto simp: queueMessage_def bindE_eq_Inr Let_def put_agent_state_def dest!: ev_messages.event_keeps split: if_splits)
  moreover have "i \<notin> set (map mg_id (db_messages db))"
    using assms by (auto simp: queueMessage_def bindE_eq_Inr Let_def list_ex_iff)
  ultimately show thesis by (intro that [of ?row]) simp_all
qed

lemma queue_advances:
  assumes "queueMessage now i actor recipient key ty prio body refs reply db = Inr d"
  shows "table_advances db d"
  using assms by (rule queue_messages) (auto simp: table_advances_def ids_unique_def messages_advance_def nth_append)

text \<open>Delivering selected rows one by one: none of them is acknowledged meanwhile.\<close>

definition none_acknowledged :: "string set \<Rightarrow> ('z) inbox_db_scheme \<Rightarrow> bool" where
  "none_acknowledged ids db \<longleftrightarrow> (\<forall>m\<in>set (db_messages db). mg_id m \<in> ids \<longrightarrow> mg_state m \<noteq> MAcknowledged)"

lemma deliver_row_advances:
  assumes "deliver_row now t a i db = Inr d" and "none_acknowledged ids db" and "i \<in> ids"
  shows "table_advances db d \<and> none_acknowledged ids d"
proof
  let ?d = "update_messages (\<lambda>m. mg_id m = i) (\<lambda>m. m\<lparr>mg_state := MDelivered, mg_deliveredAt := Some now\<rparr>) db"
  from assms(1) have ev: "message_event t a ''MessageDelivered'' ?d = Inr d" by (simp add: deliver_row_def)
  have "progress_rank st \<le> 1" if "st \<noteq> MAcknowledged" for st using that by (cases st) auto
  with assms(2,3) show "table_advances db d"
    by (intro table_advances_event [OF ev]) (auto simp: version_simps none_acknowledged_def)
  have "none_acknowledged ids ?d" using assms(2) by (auto simp: none_acknowledged_def update_messages_def)
  then show "none_acknowledged ids d" by (simp add: none_acknowledged_def ev_messages.event_keeps [OF ev])
qed

lemma deliver_rows_advance:
  assumes "foldE (\<lambda>row d. if skip row then Inr d else deliver_row now (task row) a (mg_id row) d) rows db = Inr d"
    and "none_acknowledged (mg_id ` set rows) db"
  shows "table_advances db d"
proof -
  let ?P = "\<lambda>s. table_advances db s \<and> none_acknowledged (mg_id ` set rows) s"
  have "?P d" using assms(1)
  proof (rule foldE_invariant [where P = ?P])
    show "?P db" using assms(2) by (simp add: table_advances_same)
    show "?P s'" if "x \<in> set rows" "?P s" "(if skip x then Inr s else deliver_row now (task x) a (mg_id x) s) = Inr s'" for x s s'
      using that deliver_row_advances [of now "task x" a "mg_id x" s s' "mg_id ` set rows"] table_advances_trans
      by (cases "skip x") auto
  qed
  then show ?thesis ..
qed

lemma inbox_rows_mem:
  "row \<in> set (inbox_rows a states limit db) \<Longrightarrow> row \<in> set (db_messages db) \<and> mg_recipient row = a \<and> mg_state row \<in> states"
  by (auto simp: inbox_rows_def inbox_order_def by_sender_def dest!: in_set_takeD)

lemma rows_none_acknowledged:
  assumes "ids_unique db" and "MAcknowledged \<notin> states"
  shows "none_acknowledged (mg_id ` set (inbox_rows a states limit db)) db"
  unfolding none_acknowledged_def
proof (intro ballI impI)
  fix m assume m: "m \<in> set (db_messages db)" "mg_id m \<in> mg_id ` set (inbox_rows a states limit db)"
  then obtain row where row: "row \<in> set (inbox_rows a states limit db)" "mg_id m = mg_id row" by blast
  have mem: "row \<in> set (db_messages db)" "mg_state row \<in> states" using inbox_rows_mem [OF row(1)] by simp_all
  have "m = row" using assms(1) m(1) mem(1) row(2) by (simp add: ids_unique_def distinct_map inj_on_def)
  then show "mg_state m \<noteq> MAcknowledged" using mem(2) assms(2) by auto
qed

lemma read_advances:
  assumes "readAgentInbox now a limit db = Inr (ms, d)"
  shows "table_advances db d"
proof -
  from assms obtain t db1 where r: "recover_stale now db = Inr db1"
    and f: "foldE (\<lambda>row d. if mg_state row \<noteq> MQueued then Inr d else deliver_row now t a (mg_id row) d)
      (inbox_rows a {MQueued, MDelivered} limit db1) db1 = Inr d"
    by (auto simp: readAgentInbox_def bindE_eq_Inr Let_def)
  have "table_advances db1 d"
    using deliver_rows_advance [OF f] rows_none_acknowledged [of db1 "{MQueued, MDelivered}"] by (auto simp: table_advances_def)
  then show ?thesis using recover_stale_advances [OF r] table_advances_trans by blast
qed

lemma claimInbox_advances:
  assumes "claimInbox now a lease limit db = Inr (ms, d)"
  shows "table_advances db d"
proof -
  from assms obtain db1 where r: "recover_stale now db = Inr db1"
    and f: "foldE (\<lambda>row d. if False then Inr d else deliver_row now (mg_taskId row) a (mg_id row) d)
      (inbox_rows a {MQueued, MDelivered} limit db1) db1 = Inr d"
    by (auto simp: claimInbox_def bindE_eq_Inr Let_def)
  have "table_advances db1 d"
    using deliver_rows_advance [OF f] rows_none_acknowledged [of db1 "{MQueued, MDelivered}"] by (auto simp: table_advances_def)
  then show ?thesis using recover_stale_advances [OF r] table_advances_trans by blast
qed

lemma inbox_step_advances: "inbox_step db db' \<Longrightarrow> table_advances db db'"
  by (induction rule: inbox_step.induct)
    (simp_all add: queue_advances read_advances peek_advances claimInbox_advances markDelivered_advances visible_advances
      settle_advances recover_stale_advances claim_advances complete_advances acknowledge_advances count_advances table_advances_same)

lemma inbox_steps_advance: "inbox_step\<^sup>*\<^sup>* db db' \<Longrightarrow> table_advances db db'"
  by (induction rule: rtranclp_induct) (auto simp: table_advances_same intro: table_advances_trans inbox_step_advances)

section \<open>Numbering within a channel\<close>

definition same_channel :: "message_row \<Rightarrow> message_row \<Rightarrow> bool" where
  "same_channel m m' \<longleftrightarrow> mg_taskId m = mg_taskId m' \<and> mg_sender m = mg_sender m' \<and> mg_recipient m = mg_recipient m'"

text \<open>Messages of one sender to one recipient carry increasing numbers, in the order they were queued.\<close>

definition channel_ordered :: "message_row list \<Rightarrow> bool" where
  "channel_ordered ms \<longleftrightarrow> sorted_wrt (\<lambda>m m'. same_channel m m' \<longrightarrow> mg_senderSeq m < mg_senderSeq m') ms"

definition queue_ok :: "('z) inbox_db_scheme \<Rightarrow> bool" where
  "queue_ok db \<longleftrightarrow> ids_unique db \<and> channel_ordered (db_messages db)"

lemma channel_ordered_prefix:
  assumes "channel_ordered ms" and "messages_advance ms ms'" and "length ms' = length ms"
  shows "channel_ordered ms'"
  using assms by (auto simp: channel_ordered_def sorted_wrt_iff_nth_less messages_advance_def version_simps same_channel_def)

lemma fold_max_bounds: "(m :: message_row) \<in> set ms \<Longrightarrow> mg_senderSeq m \<le> fold (\<lambda>m s. max s (mg_senderSeq m)) ms k"
proof (induction ms arbitrary: k)
  case (Cons x ms)
  have mono: "k \<le> fold (\<lambda>m s. max s (mg_senderSeq m)) ms k" for k
    by (induction ms arbitrary: k) (auto intro: order_trans [OF max.cobounded1])
  show ?case
  proof (cases "m = x")
    case True then show ?thesis using mono [of "max k (mg_senderSeq x)"] by simp
  qed (use Cons in auto)
qed simp

lemma queue_ordered:
  assumes q: "queueMessage now i actor recipient key ty prio body refs reply db = Inr d"
    and o: "channel_ordered (db_messages db)"
  shows "channel_ordered (db_messages d)"
proof -
  from q obtain row where row: "db_messages d = db_messages db @ [row]"
    "mg_senderSeq row = fold (\<lambda>m s. max s (mg_senderSeq m))
      (filter (\<lambda>m. mg_taskId m = ag_taskId actor \<and> mg_sender m = ag_id actor \<and> mg_recipient m = ag_id recipient) (db_messages db)) 0 + 1"
    "mg_taskId row = ag_taskId actor" "mg_sender row = ag_id actor" "mg_recipient row = ag_id recipient"
    by (rule queue_messages)
  have "mg_senderSeq m < mg_senderSeq row" if "m \<in> set (db_messages db)" "same_channel m row" for m
    using that row by (auto simp: same_channel_def less_Suc_eq_le intro!: fold_max_bounds)
  then show ?thesis using o row(1) by (auto simp: channel_ordered_def sorted_wrt_append)
qed

text \<open>Only queueing adds rows.\<close>

lemma update_messages_length [simp]: "length (db_messages (update_messages which f db)) = length (db_messages db)"
  by (simp add: update_messages_def)

lemma update_messages_receipts [simp]: "db_receipts (update_messages which f db) = db_receipts db"
  by (simp add: update_messages_def)

definition same_size :: "('z) inbox_db_scheme \<Rightarrow> ('z) inbox_db_scheme \<Rightarrow> bool" where
  "same_size db db' \<longleftrightarrow> length (db_messages db') = length (db_messages db)"

lemma same_size_fold: "foldE f xs db = Inr d \<Longrightarrow> (\<And>x s s'. f x s = Inr s' \<Longrightarrow> same_size s s') \<Longrightarrow> same_size db d"
  by (erule foldE_invariant) (auto simp: same_size_def)

lemma event_size: "appendEventInternal t a i type pl db = Inr d \<Longrightarrow> same_size (db0 :: ('z) inbox_db_scheme) db \<Longrightarrow> same_size db0 (d :: ('z) inbox_db_scheme)"
  by (simp add: same_size_def ev_messages.event_keeps)

lemma same_size_refl [simp]: "same_size db db"
  and same_size_update [simp]: "same_size db (update_messages which f db)"
  by (simp_all add: same_size_def)

lemma deliver_row_size: "deliver_row now t a i db = Inr d \<Longrightarrow> same_size db d"
  by (auto simp: deliver_row_def elim: event_size)

lemma recover_stale_size: "recoverStaleAgentMessageDeliveries now ms db = Inr d \<Longrightarrow> same_size db d"
  by (auto simp: recoverStaleAgentMessageDeliveries_def bindE_eq_Inr)

lemma mark_visible_size: "mark_visible now t a s r i db = Inr d \<Longrightarrow> same_size db d"
  by (auto simp: mark_visible_def bindE_eq_Inr Let_def same_size_def dest!: ev_messages.event_keeps split: option.splits if_splits)

lemma settle_one_size: "settle_one now t a i db = Inr d \<Longrightarrow> same_size db d"
  by (auto simp: settle_one_def bindE_eq_Inr Let_def same_size_def dest!: ev_messages.event_keeps split: option.splits if_splits)

lemma same_size_trans: "same_size a b \<Longrightarrow> same_size b c \<Longrightarrow> same_size a c"
  by (simp add: same_size_def)

lemma inbox_step_queue_or_size:
  assumes "inbox_step db db'"
  shows "same_size db db' \<or> (\<exists>now i actor recipient key ty prio body refs reply.
    queueMessage now i actor recipient key ty prio body refs reply db = Inr db')"
  using assms
proof (cases rule: inbox_step.cases)
  case (step_read now a limit ms)
  then show ?thesis
    by (auto simp: readAgentInbox_def bindE_eq_Inr Let_def dest!: recover_stale_size
        elim!: same_size_trans same_size_fold dest: deliver_row_size split: if_splits)
next
  case (step_claim_inbox now a lease limit ms)
  then show ?thesis
    by (auto simp: claimInbox_def bindE_eq_Inr Let_def dest!: recover_stale_size
        elim!: same_size_trans same_size_fold dest: deliver_row_size)
next
  case (step_delivered now a ids)
  then show ?thesis
    by (auto simp: markAgentMessagesDelivered_def bindE_eq_Inr Let_def elim!: same_size_fold event_size)
next
  case (step_visible now a ids s r)
  then show ?thesis
    by (auto simp: markAgentMessagesModelVisible_def bindE_eq_Inr elim!: same_size_fold dest: mark_visible_size)
next
  case (step_settle now a ids)
  then show ?thesis
    by (auto simp: settleAgentMessages_def bindE_eq_Inr elim!: same_size_fold dest: settle_one_size)
next
  case (step_claim now i a ok)
  then show ?thesis by (auto simp: claimAgentMessageForLiveDelivery_def bindE_eq_Inr Let_def)
next
  case (step_complete now i a ok st)
  then show ?thesis
    by (auto simp: completeAgentMessageLiveDelivery_def bindE_eq_Inr Let_def elim!: event_size split: if_splits option.splits)
next
  case (step_acknowledge now a ids)
  then show ?thesis
    by (auto simp: acknowledgeAgentInbox_def bindE_eq_Inr Let_def elim!: same_size_fold event_size)
qed (auto simp: same_size_def peekAgentInbox_def countPendingAgentMessages_def bindE_eq_Inr Let_def
    dest!: recover_stale_size)

lemma queue_ok_step:
  assumes "inbox_step db db'" and "queue_ok db"
  shows "queue_ok db'"
proof -
  from inbox_step_advances [OF assms(1)] assms(2)
  have adv: "ids_unique db'" "messages_advance (db_messages db) (db_messages db')" by (auto simp: table_advances_def queue_ok_def)
  from inbox_step_queue_or_size [OF assms(1)] have "channel_ordered (db_messages db')"
    using assms(2) adv(2) queue_ordered channel_ordered_prefix by (fastforce simp: queue_ok_def same_size_def)
  with adv(1) show ?thesis by (simp add: queue_ok_def)
qed

lemma queue_ok_steps: "inbox_step\<^sup>*\<^sup>* db db' \<Longrightarrow> queue_ok db \<Longrightarrow> queue_ok db'"
  by (induction rule: rtranclp_induct) (auto intro: queue_ok_step)

section \<open>Properties\<close>

text \<open>
  C35: Whatever sequence of inbox operations runs, a message that was ever queued keeps its row, its
  identity and its content; it moves only forward from undelivered to delivered to acknowledged, so
  an acknowledged message is never delivered again and a delivered one never returns to the queue.
\<close>
theorem message_progress:
  assumes "ids_unique db" and "inbox_step\<^sup>*\<^sup>* db db'" and "m \<in> set (db_messages db)"
  shows "\<exists>m'\<in>set (db_messages db'). same_message m m' \<and> progress_rank (mg_state m) \<le> progress_rank (mg_state m') \<and>
    (\<forall>x\<in>set (db_messages db'). mg_id x = mg_id m \<longrightarrow> x = m')"
proof -
  from inbox_steps_advance [OF assms(2)] assms(1)
  have adv: "ids_unique db'" "messages_advance (db_messages db) (db_messages db')" by (simp_all add: table_advances_def)
  from assms(3) obtain i where "i < length (db_messages db)" "m = db_messages db ! i" by (auto simp: in_set_conv_nth)
  with adv(2) obtain m' where m': "m' \<in> set (db_messages db')" "later_version m m'"
    unfolding messages_advance_def by (meson less_le_trans nth_mem)
  moreover have "x = m'" if "x \<in> set (db_messages db')" "mg_id x = mg_id m" for x
    using that m' adv(1) by (auto simp: ids_unique_def distinct_map inj_on_def version_simps)
  ultimately show ?thesis by (auto simp: later_version_def)
qed

text \<open>
  Messages from one agent to another are numbered in the order they are queued: in every
  state reached from an empty inbox, of two messages of the same sender and recipient the one queued
  later carries the larger number, and their ids differ.
\<close>
theorem sender_order_kept:
  assumes "inbox_step\<^sup>*\<^sup>* db db'" and "db_messages db = []"
    and "i < j" and "j < length (db_messages db')" and "same_channel (db_messages db' ! i) (db_messages db' ! j)"
  shows "mg_senderSeq (db_messages db' ! i) < mg_senderSeq (db_messages db' ! j) \<and>
    mg_id (db_messages db' ! i) \<noteq> mg_id (db_messages db' ! j)"
proof -
  have "queue_ok db" using assms(2) by (simp add: queue_ok_def ids_unique_def channel_ordered_def)
  with queue_ok_steps [OF assms(1)] have ok: "queue_ok db'" by simp
  then have "mg_senderSeq (db_messages db' ! i) < mg_senderSeq (db_messages db' ! j)"
    using assms(3-5) by (auto simp: queue_ok_def channel_ordered_def sorted_wrt_iff_nth_less)
  moreover have "mg_id (db_messages db' ! i) \<noteq> mg_id (db_messages db' ! j)"
    using ok assms(3,4) by (auto simp: queue_ok_def ids_unique_def distinct_conv_nth)
  ultimately show ?thesis by simp
qed

lemma update_messages_none: "count_messages which db = 0 \<Longrightarrow> db_messages (update_messages which f db) = db_messages db"
  by (auto simp: count_messages_def update_messages_def filter_empty_conv intro: map_idI)

lemma count_messages_one: "count_messages which db = 1 \<Longrightarrow> \<exists>x\<in>set (db_messages db). which x"
  unfolding count_messages_def by (metis filter_False list.size(3) zero_neq_one)

text \<open>
  A live delivery claim is exclusive while it is fresh: after a successful claim at \<open>t0\<close>, a claim
  of the same message succeeds again exactly when the first one is at least
  \<open>LIVE_DELIVERY_STALE_AFTER_MS\<close> old, and an unsuccessful claim changes no message.
\<close>
theorem live_claim_exclusive:
  assumes "ids_unique db" and "claimAgentMessageForLiveDelivery t0 i a db = Inr (True, db')"
  shows "\<exists>db''. claimAgentMessageForLiveDelivery t1 i a db' = Inr (t0 + LIVE_DELIVERY_STALE_AFTER_MS \<le> t1, db'') \<and>
    (t1 < t0 + LIVE_DELIVERY_STALE_AFTER_MS \<longrightarrow> db_messages db'' = db_messages db')"
proof -
  let ?which = "\<lambda>t m. mg_id m = i \<and> mg_recipient m = a \<and> (mg_state m = MQueued \<or>
    mg_state m = MDelivering \<and> (\<exists>c\<in>set_option (mg_claimedAt m). c \<le> t - LIVE_DELIVERY_STALE_AFTER_MS))"
  let ?f = "\<lambda>t m. m\<lparr>mg_state := MDelivering, mg_claimedAt := Some t\<rparr>"
  from assms(2) obtain ag where ag: "requireAgent a db = Inr ag" and d: "db' = update_messages (?which t0) (?f t0) db"
    and n: "count_messages (?which t0) db = 1"
    by (auto simp: claimAgentMessageForLiveDelivery_def bindE_eq_Inr Let_def)
  have ag': "requireAgent a db' = Inr ag" using ag by (simp add: d update_messages_def requireAgent_def)
  have "db_messages db' = map (\<lambda>m. if ?which t0 m then ?f t0 m else m) (db_messages db)" by (simp add: d update_messages_def)
  moreover have "?which t0 m" if "m \<in> set (db_messages db)" "?which t1 m" for m
  proof -
    from count_messages_one [OF n] obtain x where x: "x \<in> set (db_messages db)" "?which t0 x" by blast
    then have "m = x" using that assms(1) by (auto simp: ids_unique_def distinct_map inj_on_def)
    then show ?thesis using x by simp
  qed
  ultimately have which1: "?which t1 (if ?which t0 m then ?f t0 m else m) \<longleftrightarrow> ?which t0 m \<and> t0 + LIVE_DELIVERY_STALE_AFTER_MS \<le> t1"
    if "m \<in> set (db_messages db)" for m using that by auto
  have cnt: "count_messages (?which t1) db' = (if t0 + LIVE_DELIVERY_STALE_AFTER_MS \<le> t1 then 1 else 0)"
    using n which1 by (simp add: count_messages_def d update_messages_def filter_map o_def cong: filter_cong)
  moreover have "db_messages (update_messages (?which t1) (?f t1) db') = db_messages db'" if "t1 < t0 + LIVE_DELIVERY_STALE_AFTER_MS"
    using update_messages_none [of "?which t1" db'] cnt that by simp
  ultimately show ?thesis using ag' by (simp add: claimAgentMessageForLiveDelivery_def Let_def)
qed

section \<open>Concrete histories\<close>

definition with_inbox :: "lease_db \<Rightarrow> inbox_db" where
  "with_inbox db = lease_db.extend db (inbox_db.fields [] [])"

text \<open>Agent \<open>a\<close> sends a message to \<open>b\<close>.\<close>

definition sample_send :: "string \<Rightarrow> inbox_db \<Rightarrow> string + inbox_db" where
  "sample_send i db = queueMessage 1 i (flow_agent_at ''a'' ARunning) (flow_agent_at ''b'' AQueued) i ''steering'' NormalPriority
     [] [] None db"

abbreviation empty_inbox :: inbox_db where
  "empty_inbox \<equiv> with_inbox (with_leases [] sample_flow_db)"

lemmas inbox_sample_defs = with_inbox_def lease_db.defs task_db.defs inbox_db.defs lease_sample_defs event_eval

lemma utf8_sample: "utf8_encode [] = []"
  by (simp add: utf8_encode_def)

lemma sample_inbox:
  "\<exists>d1 d2 d3 d4. sample_send ''m1'' empty_inbox = Inr d1 \<and> sample_send ''m2'' d1 = Inr d2 \<and>
     markAgentMessagesDelivered 2 ''b'' [''m1''] d2 = Inr d3 \<and> acknowledgeAgentInbox 3 ''b'' [''m1''] d3 = Inr d4 \<and>
     map (\<lambda>m. (mg_id m, mg_sender m, mg_recipient m, mg_taskId m)) (db_messages d2) =
       [(''m1'', ''a'', ''b'', ''t''), (''m2'', ''a'', ''b'', ''t'')] \<and>
     map mg_state (db_messages d4) = [MAcknowledged, MQueued] \<and>
     (\<exists>d5. claimAgentMessageForLiveDelivery 4 ''m2'' ''b'' d4 = Inr (True, d5))"
  by (simp add: sample_send_def queueMessage_def markAgentMessagesDelivered_def acknowledgeAgentInbox_def utf8_sample
      claimAgentMessageForLiveDelivery_def update_messages_def count_messages_def inbox_sample_defs Let_def)

lemma sample_send_step: "sample_send i db = Inr d \<Longrightarrow> inbox_step db d"
  unfolding sample_send_def by (rule step_queue)

theorem message_progress_witness:
  "\<exists>d2 d4. ids_unique d2 \<and> inbox_step\<^sup>*\<^sup>* d2 d4 \<and> (\<forall>m\<in>set (db_messages d2). \<exists>m'\<in>set (db_messages d4). same_message m m' \<and>
     progress_rank (mg_state m) \<le> progress_rank (mg_state m') \<and> (\<forall>x\<in>set (db_messages d4). mg_id x = mg_id m \<longrightarrow> x = m')) \<and>
     map mg_state (db_messages (d4 :: inbox_db)) = [MAcknowledged, MQueued]"
proof -
  from sample_inbox obtain d2 d3 d4 where st: "markAgentMessagesDelivered 2 ''b'' [''m1''] (d2 :: inbox_db) = Inr d3"
      "acknowledgeAgentInbox 3 ''b'' [''m1''] d3 = Inr d4" "map mg_state (db_messages d4) = [MAcknowledged, MQueued]"
    and ids: "map (\<lambda>m. (mg_id m, mg_sender m, mg_recipient m, mg_taskId m)) (db_messages d2) =
       [(''m1'', ''a'', ''b'', ''t''), (''m2'', ''a'', ''b'', ''t'')]" by (elim exE conjE) (rule that)
  have u: "ids_unique d2" using arg_cong [OF ids, of "map fst"] by (simp add: ids_unique_def o_def)
  have steps: "inbox_step\<^sup>*\<^sup>* d2 d4"
    using step_delivered [OF st(1)] step_acknowledge [OF st(2)] by (meson converse_rtranclp_into_rtranclp rtranclp.rtrancl_refl)
  show ?thesis using u steps st(3) message_progress [OF u steps] by (intro exI [of _ d2] exI [of _ d4] conjI ballI) simp_all
qed

theorem sender_order_kept_witness:
  "\<exists>d2. inbox_step\<^sup>*\<^sup>* empty_inbox d2 \<and> length (db_messages d2) = 2 \<and>
     mg_senderSeq (db_messages d2 ! 0) < mg_senderSeq (db_messages d2 ! 1)"
proof -
  from sample_inbox obtain d1 d2 where st: "sample_send ''m1'' empty_inbox = Inr d1" "sample_send ''m2'' d1 = Inr d2"
    and ids: "map (\<lambda>m. (mg_id m, mg_sender m, mg_recipient m, mg_taskId m)) (db_messages d2) =
       [(''m1'', ''a'', ''b'', ''t''), (''m2'', ''a'', ''b'', ''t'')]" by (elim exE conjE) (rule that)
  have steps: "inbox_step\<^sup>*\<^sup>* empty_inbox d2"
    using st [THEN sample_send_step] by (meson converse_rtranclp_into_rtranclp rtranclp.rtrancl_refl)
  have len: "length (db_messages d2) = 2" using arg_cong [OF ids, of length] by simp
  have "same_channel (db_messages d2 ! 0) (db_messages d2 ! 1)"
    using arg_cong [OF ids, of "\<lambda>xs. (xs ! 0, xs ! 1)"] len by (simp add: same_channel_def)
  moreover have "db_messages empty_inbox = []" by (simp add: inbox_sample_defs)
  ultimately show ?thesis using sender_order_kept [OF steps, of 0 1] steps len by (intro exI [of _ d2] conjI) simp_all
qed

theorem live_claim_exclusive_witness:
  "\<exists>db db'. claimAgentMessageForLiveDelivery 4 ''m2'' ''b'' db = Inr (True, db') \<and>
     (\<exists>db''. claimAgentMessageForLiveDelivery 5 ''m2'' ''b'' db' = Inr (False, db'')) \<and>
     (\<exists>db''. claimAgentMessageForLiveDelivery 2100004 ''m2'' ''b'' (db' :: inbox_db) = Inr (True, db''))"
proof -
  from sample_inbox obtain d2 d3 d4 d5 where st: "markAgentMessagesDelivered 2 ''b'' [''m1''] (d2 :: inbox_db) = Inr d3"
      "acknowledgeAgentInbox 3 ''b'' [''m1''] d3 = Inr d4" "claimAgentMessageForLiveDelivery 4 ''m2'' ''b'' d4 = Inr (True, d5)"
    and ids: "map (\<lambda>m. (mg_id m, mg_sender m, mg_recipient m, mg_taskId m)) (db_messages d2) =
       [(''m1'', ''a'', ''b'', ''t''), (''m2'', ''a'', ''b'', ''t'')]" by (elim exE conjE) (rule that)
  have "ids_unique d2" using arg_cong [OF ids, of "map fst"] by (simp add: ids_unique_def o_def)
  then have u: "ids_unique d4" using markDelivered_advances [OF st(1)] acknowledge_advances [OF st(2)] by (simp add: table_advances_def)
  from live_claim_exclusive [OF u st(3), of 5] live_claim_exclusive [OF u st(3), of 2100004] st(3)
  show ?thesis by (auto simp: LIVE_DELIVERY_STALE_AFTER_MS_def)
qed

text \<open>
  Reading the inbox selects up to \<open>limit\<close> undelivered or delivered messages by priority and marks them
  delivered, but returns only those among the 1000 oldest messages of the task that the agent sent or
  received, acknowledged ones included: a message with 1000 older ones is marked delivered and not
  returned.
\<close>
lemma sorted_take_bound:
  assumes "m \<in> set (take n (sort_key f xs))"
  shows "length (filter (\<lambda>x. f x < f m) xs) < n"
proof -
  let ?s = "sort_key f xs"
  from assms obtain i where i: "i < length ?s" "i < n" "m = ?s ! i" by (auto simp: in_set_conv_nth)
  have "\<not> f x < f m" if "x \<in> set (drop i ?s)" for x
  proof -
    from that obtain j where "i + j < length ?s" "x = ?s ! (i + j)"
      by (auto simp: in_set_conv_nth) (metis add.commute less_diff_conv)
    then have "map f ?s ! i \<le> map f ?s ! (i + j)" by (intro sorted_nth_mono) simp_all
    then show ?thesis using i \<open>i + j < length ?s\<close> \<open>x = ?s ! (i + j)\<close> by simp
  qed
  then have "filter (\<lambda>x. f x < f m) (drop i ?s) = []" by (simp add: filter_empty_conv)
  then have "filter (\<lambda>x. f x < f m) ?s = filter (\<lambda>x. f x < f m) (take i ?s)"
    by (metis append.right_neutral append_take_drop_id filter_append)
  then have "length (filter (\<lambda>x. f x < f m) ?s) \<le> i" using length_filter_le [of _ "take i ?s"] i(1) by (metis length_take min.absorb4)
  moreover have "length (filter (\<lambda>x. f x < f m) ?s) = length (filter (\<lambda>x. f x < f m) xs)"
    by (simp add: filter_sort)
  ultimately show ?thesis using i(2) by simp
qed

lemma read_inbox_window:
  assumes "readAgentInbox now a limit db = Inr (ms, d)" and "m \<in> set ms" and "a \<noteq> []" and "requireAgent a db = Inr agent"
  shows "length (filter (\<lambda>x. mg_createdAt x < mg_createdAt m)
    (filter (\<lambda>x. mg_taskId x = ag_taskId agent \<and> (mg_sender x = a \<or> mg_recipient x = a)) (db_messages d))) < 1000"
proof -
  from assms obtain ls where "listMessages (ag_taskId agent) (Some a) 1000 d = Inr ls" "m \<in> set ls"
    by (auto simp: readAgentInbox_def bindE_eq_Inr Let_def dest!: in_set_takeD)
  then have "m \<in> set (take 1000 (sort_key mg_createdAt (by_sender (filter (\<lambda>x. mg_taskId x = ag_taskId agent \<and>
      (mg_sender x = a \<or> mg_recipient x = a)) (db_messages d)))))"
    using assms(3) by (auto simp: listMessages_def bindE_eq_Inr truthy_def)
  from sorted_take_bound [OF this] show ?thesis
    by (metis (no_types, lifting) by_sender_def filter_sort length_sort)
qed

text \<open>
  A message that became model-visible and was then acknowledged through the inbox keeps an unsettled
  receipt: settling it, together with whatever follows it, fails.
\<close>
lemma acknowledged_receipt_blocks_settling:
  assumes "find (\<lambda>m. mg_id m = i \<and> mg_recipient m = a) (db_messages db) = Some m" "mg_state m = MAcknowledged"
    and "find (\<lambda>r. rc_messageId r = i) (db_receipts db) = Some r" "rc_settledAt r = None"
    and "requireAgent a db = Inr agent"
  shows "settleAgentMessages now a (i # ids) db = Inl (''Cannot settle unavailable message '' @ i)"
  using assms by (simp add: settleAgentMessages_def settle_one_def Let_def guardE_def)

lemma sample_receipt_blocked:
  "\<exists>d1 d3 d4. sample_send ''m1'' empty_inbox = Inr d1 \<and>
     markAgentMessagesModelVisible 2 ''b'' [''m1''] ''s'' ''r'' d1 = Inr d3 \<and>
     acknowledgeAgentInbox 3 ''b'' [''m1''] d3 = Inr d4 \<and>
     settleAgentMessages 4 ''b'' [''m1''] d4 = Inl ''Cannot settle unavailable message m1''"
proof -
  have trim: "js_trim ''s'' \<noteq> [] \<and> js_trim ''r'' \<noteq> []" by code_simp
  show ?thesis using trim
    by (simp add: sample_send_def queueMessage_def markAgentMessagesModelVisible_def mark_visible_def acknowledgeAgentInbox_def
      settleAgentMessages_def settle_one_def utf8_sample
      update_messages_def count_messages_def inbox_sample_defs guardE_def Let_def)
qed

end
