(* ===== verification/Task_Budget.thy ===== *)
theory Task_Budget
  imports Task_Lease
begin

text \<open>
  Turn and cost budgets of a task (packages/long-tasks/src/store.ts): reserving before a provider
  request, settling after it, and the separate allowance of reviewer requests. The columns of
  \<open>tasks\<close> and \<open>attempts\<close> that only these statements touch are tables of their own here. Costs are
  finite reals; \<open>rnd\<close> is the rounding of one floating-point operation and \<open>sumc\<close> the SUM aggregate
  of SQLite, both parameters.
\<close>

section \<open>Tables\<close>

record budget_row =
  bt_taskId :: string
  bt_totalTurns :: nat
  bt_totalCostUsd :: real
  bt_maxTurns :: nat
  bt_maxCostUsd :: "real option"

record attempt_usage =
  tu_attemptId :: string
  tu_turnCount :: nat
  tu_costUsd :: real

record auth_state =
  au_taskId :: string
  au_compilerRequestCount :: nat
  au_reviewerRequestCount :: nat
  au_reviewerCostUsd :: real
  au_compilerCostUsd :: real
  au_judgeCostUsd :: real
  au_reviewerReservedUsd :: real
  au_startupAllowanceUsed :: bool

record budget_db = lease_db +
  db_budgets :: "budget_row list"
  db_attemptUsage :: "attempt_usage list"
  db_authStates :: "auth_state list"

record request_input =
  ri_providerRequestId :: string
  ri_requestKind :: string
  ri_worstCaseCostUsd :: "real option"

record finish_input =
  fi_providerRequestId :: string
  fi_reservationId :: string
  fi_actualCostUsd :: real

definition requireBudget :: "string \<Rightarrow> ('z) budget_db_scheme \<Rightarrow> string + budget_row" where
  "requireBudget taskId db =
     (case find (\<lambda>b. bt_taskId b = taskId) (db_budgets db) of None \<Rightarrow> Inl (''Task not found: '' @ taskId) | Some b \<Rightarrow> Inr b)"

definition is_reviewer_kind :: "string \<Rightarrow> bool" where
  "is_reviewer_kind kind \<longleftrightarrow> kind = ''authorization_compile'' \<or> kind = ''permission_review''"

definition is_reviewer :: "reservation_row \<Rightarrow> bool" where
  "is_reviewer r \<longleftrightarrow> (\<exists>k\<in>set_option (rv_requestKind r). is_reviewer_kind k)"

definition active_reservations :: "string \<Rightarrow> ('z) budget_db_scheme \<Rightarrow> reservation_row list" where
  "active_reservations taskId db = filter (\<lambda>r. rv_taskId r = taskId \<and> rv_state r = ''active'') (db_reservations db)"

definition reserved_turns :: "string \<Rightarrow> ('z) budget_db_scheme \<Rightarrow> nat" where
  "reserved_turns taskId db = sum_list (map rv_reservedTurns (active_reservations taskId db))"

definition reserved_cost :: "(real list \<Rightarrow> real) \<Rightarrow> string \<Rightarrow> ('z) budget_db_scheme \<Rightarrow> real" where
  "reserved_cost sumc taskId db = sumc (List.map_filter rv_reservedCostUsd (active_reservations taskId db))"

section \<open>Reserving\<close>

definition check_turns :: "budget_row \<Rightarrow> ('z) budget_db_scheme \<Rightarrow> string + unit" where
  "check_turns task db =
     guardE (bt_totalTurns task + reserved_turns (bt_taskId task) db + 1 > bt_maxTurns task) ''Task turn budget exceeded''"

definition check_cost ::
  "(real \<Rightarrow> real) \<Rightarrow> (real list \<Rightarrow> real) \<Rightarrow> budget_row \<Rightarrow> real option \<Rightarrow> ('z) budget_db_scheme \<Rightarrow> string + unit" where
  "check_cost rnd sumc task worst db =
     (case (bt_maxCostUsd task, worst) of
        (None, _) \<Rightarrow> Inr ()
      | (Some limit, None) \<Rightarrow> Inl ''Hard cost budget requires a reliable worst-case cost''
      | (Some limit, Some w) \<Rightarrow>
          guardE (rnd (rnd (bt_totalCostUsd task + reserved_cost sumc (bt_taskId task) db) + w) > limit)
            ''Task cost budget exceeded'')"

definition insert_reservation :: "reservation_row \<Rightarrow> ('z) budget_db_scheme \<Rightarrow> string + ('z) budget_db_scheme" where
  "insert_reservation row db =
     bindE (guardE (list_ex (\<lambda>r. rv_id r = rv_id row \<or>
         rv_taskId r = rv_taskId row \<and> rv_providerRequestId r = rv_providerRequestId row) (db_reservations db))
       ''UNIQUE constraint failed: budget_reservations'') (\<lambda>_.
     Inr (db\<lparr>db_reservations := db_reservations db @ [row]\<rparr>))"

definition reserveBudget ::
  "(real \<Rightarrow> real) \<Rightarrow> (real list \<Rightarrow> real) \<Rightarrow> string \<Rightarrow> string \<Rightarrow> string \<Rightarrow> string \<Rightarrow> real option
    \<Rightarrow> ('z) budget_db_scheme \<Rightarrow> string + ('z) budget_db_scheme" where
  "reserveBudget rnd sumc newId agentId attemptId providerRequestId worst db =
     bindE (requireAgent agentId db) (\<lambda>agent.
     bindE (requireBudget (ag_taskId agent) db) (\<lambda>task.
     bindE (check_turns task db) (\<lambda>_.
     bindE (check_cost rnd sumc task worst db) (\<lambda>_.
     bindE (insert_reservation \<lparr>rv_id = newId, rv_taskId = bt_taskId task, rv_agentId = agentId, rv_attemptId = attemptId,
         rv_providerRequestId = providerRequestId, rv_reservedTurns = 1, rv_reservedCostUsd = worst, rv_requestKind = None,
         rv_state = ''active''\<rparr> db) (\<lambda>db1.
     appendEventInternal (bt_taskId task) (Some agentId) (Some attemptId) ''BudgetReserved'' no_payload db1)))))"

definition reviewer_remaining :: "(real \<Rightarrow> real) \<Rightarrow> budget_row \<Rightarrow> auth_state \<Rightarrow> real" where
  "reviewer_remaining rnd task st =
     (let mainAgentSettled = max 0 (rnd (bt_totalCostUsd task - au_reviewerCostUsd st));
          reviewerCommitted = rnd (au_reviewerCostUsd st + au_reviewerReservedUsd st);
          absoluteRemaining = rnd (rnd (5 / 100) - reviewerCommitted);
          shareRemaining = rnd (rnd (rnd (2 / 1000) + rnd (mainAgentSettled * rnd (5 / 100))) - reviewerCommitted) in
      min absoluteRemaining shareRemaining)"

definition check_reviewer ::
  "(real \<Rightarrow> real) \<Rightarrow> budget_row \<Rightarrow> string \<Rightarrow> string \<Rightarrow> real option \<Rightarrow> ('z) budget_db_scheme \<Rightarrow> string + unit" where
  "check_reviewer rnd task attemptId kind worst db =
     (case worst of
        None \<Rightarrow> Inl ''Reviewer requests require a reliable worst-case cost''
      | Some w \<Rightarrow>
          (case find (\<lambda>a. au_taskId a = bt_taskId task) (db_authStates db) of
             None \<Rightarrow> Inl (''Task Authorization state not found: '' @ bt_taskId task)
           | Some st \<Rightarrow>
               bindE (guardE (kind = ''authorization_compile'' \<and> au_compilerRequestCount st \<ge> 32)
                 ''Authorization Compiler request limit exceeded'') (\<lambda>_.
               bindE (guardE (au_reviewerRequestCount st \<ge> 128) ''Task Reviewer request limit exceeded'') (\<lambda>_.
               bindE (guardE (length (filter (\<lambda>r. rv_attemptId r = attemptId \<and> is_reviewer r) (db_reservations db)) \<ge> 32)
                 ''Attempt Reviewer request limit exceeded'') (\<lambda>_.
               guardE (w > reviewer_remaining rnd task st) ''Reviewer cost budget exceeded'')))))"

definition charge_reviewer ::
  "(real \<Rightarrow> real) \<Rightarrow> string \<Rightarrow> string \<Rightarrow> real option \<Rightarrow> ('z) budget_db_scheme \<Rightarrow> ('z) budget_db_scheme" where
  "charge_reviewer rnd taskId kind worst db = db\<lparr>db_authStates := map (\<lambda>a. if au_taskId a = taskId then
       a\<lparr>au_compilerRequestCount := au_compilerRequestCount a + (if kind = ''authorization_compile'' then 1 else 0),
         au_reviewerRequestCount := au_reviewerRequestCount a + 1,
         au_reviewerReservedUsd := rnd (au_reviewerReservedUsd a + (case worst of None \<Rightarrow> 0 | Some w \<Rightarrow> w)),
         au_startupAllowanceUsed := True\<rparr>
       else a) (db_authStates db)\<rparr>"

definition startProviderRequest ::
  "(real \<Rightarrow> real) \<Rightarrow> (real list \<Rightarrow> real) \<Rightarrow> int \<Rightarrow> string \<Rightarrow> agent_lease \<Rightarrow> string \<Rightarrow> request_input
    \<Rightarrow> ('z) budget_db_scheme \<Rightarrow> string + ('z) budget_db_scheme" where
  "startProviderRequest rnd sumc now newId lease attemptId inp db =
     bindE (assertLeaseInternal now lease db) (\<lambda>_.
     bindE (requireBudget (al_taskId lease) db) (\<lambda>task.
     let kind = ri_requestKind inp; reviewerRequest = is_reviewer_kind kind; worst = ri_worstCaseCostUsd inp in
     bindE (if reviewerRequest then Inr () else check_turns task db) (\<lambda>_.
     bindE (check_cost rnd sumc task worst db) (\<lambda>_.
     bindE (if reviewerRequest then check_reviewer rnd task attemptId kind worst db else Inr ()) (\<lambda>_.
     bindE (insert_reservation \<lparr>rv_id = newId, rv_taskId = bt_taskId task, rv_agentId = al_agentId lease, rv_attemptId = attemptId,
         rv_providerRequestId = ri_providerRequestId inp, rv_reservedTurns = (if reviewerRequest then 0 else 1),
         rv_reservedCostUsd = worst, rv_requestKind = Some kind, rv_state = ''active''\<rparr> db) (\<lambda>db1.
     foldE (\<lambda>type. appendEventInternal (bt_taskId task) (Some (al_agentId lease)) (Some attemptId) type no_payload)
       (if reviewerRequest then [''BudgetReserved'', ''ReviewerBudgetReserved'', ''ProviderRequestStarted'', ''ReviewerRequestStarted'']
        else [''BudgetReserved'', ''ProviderRequestStarted''])
       (if reviewerRequest then charge_reviewer rnd (bt_taskId task) kind worst db1 else db1)))))))"

section \<open>Settling\<close>

definition settle_reservation :: "string \<Rightarrow> reservation_row list \<Rightarrow> reservation_row list" where
  "settle_reservation i rs = map (\<lambda>r. if rv_id r = i then r\<lparr>rv_state := ''settled''\<rparr> else r) rs"

definition add_usage_to_task ::
  "(real \<Rightarrow> real) \<Rightarrow> string \<Rightarrow> nat \<Rightarrow> real \<Rightarrow> ('z) budget_db_scheme \<Rightarrow> ('z) budget_db_scheme" where
  "add_usage_to_task rnd taskId turns cost db = db\<lparr>db_budgets := map (\<lambda>b. if bt_taskId b = taskId then
     b\<lparr>bt_totalTurns := bt_totalTurns b + turns, bt_totalCostUsd := rnd (bt_totalCostUsd b + cost)\<rparr> else b) (db_budgets db)\<rparr>"

definition add_usage_to_attempt ::
  "(real \<Rightarrow> real) \<Rightarrow> string \<Rightarrow> nat \<Rightarrow> real \<Rightarrow> ('z) budget_db_scheme \<Rightarrow> ('z) budget_db_scheme" where
  "add_usage_to_attempt rnd attemptId turns cost db = db\<lparr>db_attemptUsage := map (\<lambda>u. if tu_attemptId u = attemptId then
     u\<lparr>tu_turnCount := tu_turnCount u + turns, tu_costUsd := rnd (tu_costUsd u + cost)\<rparr> else u) (db_attemptUsage db)\<rparr>"

definition settle_reviewer ::
  "(real \<Rightarrow> real) \<Rightarrow> string \<Rightarrow> string option \<Rightarrow> real \<Rightarrow> real \<Rightarrow> ('z) budget_db_scheme \<Rightarrow> ('z) budget_db_scheme" where
  "settle_reviewer rnd taskId kind actual reserved db = db\<lparr>db_authStates := map (\<lambda>a. if au_taskId a = taskId then
       a\<lparr>au_reviewerCostUsd := rnd (au_reviewerCostUsd a + actual),
         au_compilerCostUsd := rnd (au_compilerCostUsd a + (if kind = Some ''authorization_compile'' then actual else 0)),
         au_judgeCostUsd := rnd (au_judgeCostUsd a + (if kind = Some ''permission_review'' then actual else 0)),
         au_reviewerReservedUsd := max 0 (rnd (au_reviewerReservedUsd a - reserved))\<rparr>
       else a) (db_authStates db)\<rparr>"

definition get_active :: "string \<Rightarrow> ('z) budget_db_scheme \<Rightarrow> reservation_row option" where
  "get_active i db = find (\<lambda>r. rv_id r = i \<and> rv_state r = ''active'') (db_reservations db)"

definition finishProviderRequest ::
  "(real \<Rightarrow> real) \<Rightarrow> int \<Rightarrow> agent_lease \<Rightarrow> string \<Rightarrow> finish_input \<Rightarrow> ('z) budget_db_scheme \<Rightarrow> string + ('z) budget_db_scheme" where
  "finishProviderRequest rnd now lease attemptId inp db =
     bindE (assertLeaseInternal now lease db) (\<lambda>_.
     case get_active (fi_reservationId inp) db of
       None \<Rightarrow> Inl (''Active Provider reservation not found: '' @ fi_reservationId inp)
     | Some r \<Rightarrow>
         bindE (guardE (rv_taskId r \<noteq> al_taskId lease \<or> rv_agentId r \<noteq> al_agentId lease \<or> rv_attemptId r \<noteq> attemptId \<or>
             rv_providerRequestId r \<noteq> fi_providerRequestId inp)
           (''Active Provider reservation not found: '' @ fi_reservationId inp)) (\<lambda>_.
         let reviewerRequest = is_reviewer r; actual = fi_actualCostUsd inp; turns = (if reviewerRequest then 0 else 1) in
         bindE (guardE (reviewerRequest \<and>
             (case rv_reservedCostUsd r of None \<Rightarrow> True | Some c \<Rightarrow> actual > rnd (c + rnd (1 / 10 ^ 9))))
           ''Reviewer actual cost exceeded its reservation'') (\<lambda>_.
         let db1 = db\<lparr>db_reservations := settle_reservation (fi_reservationId inp) (db_reservations db)\<rparr>;
             db2 = add_usage_to_attempt rnd attemptId turns actual (add_usage_to_task rnd (al_taskId lease) turns actual db1);
             db3 = (case (reviewerRequest, rv_reservedCostUsd r) of
                      (True, Some c) \<Rightarrow> settle_reviewer rnd (al_taskId lease) (rv_requestKind r) actual c db2
                    | _ \<Rightarrow> db2) in
         foldE (\<lambda>type. appendEventInternal (al_taskId lease) (Some (al_agentId lease)) (Some attemptId) type no_payload)
           (if reviewerRequest then [''ProviderRequestFinished'', ''ReviewerRequestFinished'', ''BudgetSettled'', ''ReviewerBudgetSettled'']
            else [''ProviderRequestFinished'', ''BudgetSettled'']) db3)))"

definition settleBudget ::
  "(real \<Rightarrow> real) \<Rightarrow> string \<Rightarrow> real \<Rightarrow> ('z) budget_db_scheme \<Rightarrow> string + ('z) budget_db_scheme" where
  "settleBudget rnd reservationId actual db =
     (case get_active reservationId db of
        None \<Rightarrow> Inl (''Active budget reservation not found: '' @ reservationId)
      | Some r \<Rightarrow>
          appendEventInternal (rv_taskId r) (Some (rv_agentId r)) (Some (rv_attemptId r)) ''BudgetSettled'' no_payload
            (add_usage_to_attempt rnd (rv_attemptId r) 1 actual (add_usage_to_task rnd (rv_taskId r) 1 actual
              (db\<lparr>db_reservations := settle_reservation reservationId (db_reservations db)\<rparr>))))"

section \<open>Histories\<close>

text \<open>
  The budget operations of a run, and every other operation, which leaves the budget columns, the
  reservations and the reviewer allowance alone. \<open>settleBudget\<close> is only meant for reservations that
  hold a turn; worst-case costs are not negative.
\<close>

inductive budget_step :: "(real \<Rightarrow> real) \<Rightarrow> (real list \<Rightarrow> real) \<Rightarrow> ('z) budget_db_scheme \<Rightarrow> ('z) budget_db_scheme \<Rightarrow> bool"
  for rnd sumc where
  step_reserve: "reserveBudget rnd sumc i a t p w db = Inr db' \<Longrightarrow> budget_step rnd sumc db db'"
| step_start: "startProviderRequest rnd sumc now i lease t inp db = Inr db' \<Longrightarrow>
    (\<And>w. ri_worstCaseCostUsd inp = Some w \<Longrightarrow> 0 \<le> w) \<Longrightarrow> budget_step rnd sumc db db'"
| step_finish: "finishProviderRequest rnd now lease t fin db = Inr db' \<Longrightarrow> budget_step rnd sumc db db'"
| step_settle: "settleBudget rnd i c db = Inr db' \<Longrightarrow> (\<And>r. get_active i db = Some r \<Longrightarrow> \<not> is_reviewer r) \<Longrightarrow>
    budget_step rnd sumc db db'"
| step_other: "db_budgets db' = db_budgets db \<Longrightarrow> db_reservations db' = db_reservations db \<Longrightarrow>
    db_authStates db' = db_authStates db \<Longrightarrow> budget_step rnd sumc db db'"

text \<open>The three tables the budget rests on, and what an operation does to them.\<close>

definition core :: "('z) budget_db_scheme \<Rightarrow> budget_row list \<times> reservation_row list \<times> auth_state list" where
  "core db = (db_budgets db, db_reservations db, db_authStates db)"

interpretation ev_core: event_frame core
  by unfold_locales (simp add: core_def)

definition add_turns :: "(real \<Rightarrow> real) \<Rightarrow> string \<Rightarrow> nat \<Rightarrow> real \<Rightarrow> budget_row list \<Rightarrow> budget_row list" where
  "add_turns rnd taskId turns cost bs = map (\<lambda>b. if bt_taskId b = taskId then
     b\<lparr>bt_totalTurns := bt_totalTurns b + turns, bt_totalCostUsd := rnd (bt_totalCostUsd b + cost)\<rparr> else b) bs"

text \<open>
  A step opens a new reservation of a task after the checks of its kind, or settles an active one, or
  leaves the three tables alone.
\<close>

definition opens :: "(real \<Rightarrow> real) \<Rightarrow> (real list \<Rightarrow> real) \<Rightarrow> reservation_row \<Rightarrow> ('z) budget_db_scheme \<Rightarrow> ('z) budget_db_scheme \<Rightarrow> bool" where
  "opens rnd sumc row db db' \<longleftrightarrow>
     rv_id row \<notin> rv_id ` set (db_reservations db) \<and> rv_state row = ''active'' \<and>
     rv_reservedTurns row = (if is_reviewer row then 0 else 1) \<and>
     (\<exists>task. requireBudget (rv_taskId row) db = Inr task \<and> (\<not> is_reviewer row \<longrightarrow> check_turns task db = Inr ()) \<and>
        (is_reviewer row \<longrightarrow> (\<exists>kind w. rv_requestKind row = Some kind \<and> rv_reservedCostUsd row = Some w \<and> 0 \<le> w \<and>
           check_reviewer rnd task (rv_attemptId row) kind (Some w) db = Inr ())) \<and>
        core db' = (db_budgets db, db_reservations db @ [row],
          if is_reviewer row then db_authStates (charge_reviewer rnd (rv_taskId row) (the (rv_requestKind row)) (rv_reservedCostUsd row) db)
          else db_authStates db))"

definition settles :: "(real \<Rightarrow> real) \<Rightarrow> reservation_row \<Rightarrow> ('z) budget_db_scheme \<Rightarrow> ('z) budget_db_scheme \<Rightarrow> bool" where
  "settles rnd r db db' \<longleftrightarrow> get_active (rv_id r) db = Some r \<and>
     (\<exists>actual. (is_reviewer r \<longrightarrow> (\<exists>c. rv_reservedCostUsd r = Some c \<and> actual \<le> rnd (c + rnd (1 / 10 ^ 9)))) \<and>
        core db' = (add_turns rnd (rv_taskId r) (if is_reviewer r then 0 else 1) actual (db_budgets db),
          settle_reservation (rv_id r) (db_reservations db),
          if is_reviewer r then db_authStates (settle_reviewer rnd (rv_taskId r) (rv_requestKind r) actual (the (rv_reservedCostUsd r)) db)
          else db_authStates db))"

lemma requireBudget_task: "requireBudget t db = Inr b \<Longrightarrow> bt_taskId b = t \<and> b \<in> set (db_budgets db)"
  by (auto simp: requireBudget_def find_Some_iff in_set_conv_nth split: option.splits)

lemma insert_reservation_Inr:
  "insert_reservation row db = Inr d \<longleftrightarrow> rv_id row \<notin> rv_id ` set (db_reservations db) \<and>
     (\<forall>r\<in>set (db_reservations db). rv_taskId r = rv_taskId row \<longrightarrow> rv_providerRequestId r \<noteq> rv_providerRequestId row) \<and>
     d = db\<lparr>db_reservations := db_reservations db @ [row]\<rparr>"
  by (auto simp: insert_reservation_def bindE_eq_Inr list_ex_iff image_iff)

lemma reserve_opens:
  assumes "reserveBudget rnd sumc i a t p w db = Inr db'"
  shows "\<exists>row. opens rnd sumc row db db'"
proof -
  from assms obtain agent :: agent_row and task db1 where a: "requireBudget (ag_taskId agent) db = Inr task" "check_turns task db = Inr ()"
      "insert_reservation \<lparr>rv_id = i, rv_taskId = bt_taskId task, rv_agentId = a, rv_attemptId = t, rv_providerRequestId = p,
         rv_reservedTurns = 1, rv_reservedCostUsd = w, rv_requestKind = None, rv_state = ''active''\<rparr> db = Inr db1" (is "insert_reservation ?row db = _")
    and ev: "appendEventInternal (bt_taskId task) (Some a) (Some t) ''BudgetReserved'' no_payload db1 = Inr db'"
    by (auto simp: reserveBudget_def bindE_eq_Inr)
  from requireBudget_task [OF a(1)] a ev_core.event_keeps [OF ev] show ?thesis
    by (intro exI [of _ ?row]) (auto simp: opens_def is_reviewer_def insert_reservation_Inr core_def)
qed

lemma start_opens:
  assumes "startProviderRequest rnd sumc now i lease t inp db = Inr db'"
    and "\<And>w. ri_worstCaseCostUsd inp = Some w \<Longrightarrow> 0 \<le> w"
  shows "\<exists>row. opens rnd sumc row db db'"
proof -
  let ?kind = "ri_requestKind inp" and ?worst = "ri_worstCaseCostUsd inp"
  from assms(1) obtain task db1 types where a: "requireBudget (al_taskId lease) db = Inr task"
      "(if is_reviewer_kind ?kind then Inr () else check_turns task db) = Inr ()"
      "(if is_reviewer_kind ?kind then check_reviewer rnd task t ?kind ?worst db else Inr ()) = Inr ()"
      "insert_reservation \<lparr>rv_id = i, rv_taskId = bt_taskId task, rv_agentId = al_agentId lease, rv_attemptId = t,
         rv_providerRequestId = ri_providerRequestId inp, rv_reservedTurns = (if is_reviewer_kind ?kind then 0 else 1),
         rv_reservedCostUsd = ?worst, rv_requestKind = Some ?kind, rv_state = ''active''\<rparr> db = Inr db1" (is "insert_reservation ?row db = _")
    and ev: "foldE (\<lambda>type. appendEventInternal (bt_taskId task) (Some (al_agentId lease)) (Some t) type no_payload) types
       (if is_reviewer_kind ?kind then charge_reviewer rnd (bt_taskId task) ?kind ?worst db1 else db1) = Inr db'"
    by (cases "is_reviewer_kind ?kind") (auto simp: startProviderRequest_def bindE_eq_Inr Let_def simp del: foldE.simps)
  from requireBudget_task [OF a(1)] a ev_core.events_keep [OF ev] assms(2) show ?thesis
    by (intro exI [of _ ?row])
      (auto simp: opens_def is_reviewer_def insert_reservation_Inr core_def charge_reviewer_def check_reviewer_def
        split: if_splits option.splits)
qed

lemma get_active_SomeD:
  assumes "get_active i db = Some r"
  shows "r \<in> set (db_reservations db)" "rv_id r = i" "rv_state r = ''active''"
  using assms by (auto simp: get_active_def find_Some_iff in_set_conv_nth)

lemmas usage_core = core_def add_usage_to_attempt_def add_usage_to_task_def add_turns_def settle_reviewer_def

lemma finish_settles:
  assumes "finishProviderRequest rnd now lease t fin db = Inr db'"
  shows "\<exists>r. settles rnd r db db' \<and> rv_id r = fi_reservationId fin"
proof -
  from assms obtain r where r: "get_active (fi_reservationId fin) db = Some r"
    by (auto simp: finishProviderRequest_def bindE_eq_Inr split: option.splits)
  note act = get_active_SomeD [OF r]
  show ?thesis
  proof (cases "is_reviewer r")
    case True
    with assms r obtain c types where c: "rv_reservedCostUsd r = Some c" "fi_actualCostUsd fin \<le> rnd (c + rnd (1 / 10 ^ 9))"
        "rv_taskId r = al_taskId lease"
      and ev: "foldE (\<lambda>type. appendEventInternal (al_taskId lease) (Some (al_agentId lease)) (Some t) type no_payload) types
        (settle_reviewer rnd (al_taskId lease) (rv_requestKind r) (fi_actualCostUsd fin) c
          (add_usage_to_attempt rnd t 0 (fi_actualCostUsd fin) (add_usage_to_task rnd (al_taskId lease) 0 (fi_actualCostUsd fin)
            (db\<lparr>db_reservations := settle_reservation (fi_reservationId fin) (db_reservations db)\<rparr>)))) = Inr db'"
      by (auto simp: finishProviderRequest_def bindE_eq_Inr Let_def simp del: foldE.simps split: option.splits)
    from True r c act ev_core.events_keep [OF ev] show ?thesis
      by (intro exI [of _ r]) (auto simp: settles_def usage_core intro!: exI [of _ "fi_actualCostUsd fin"])
  next
    case False
    with assms r obtain types where c: "rv_taskId r = al_taskId lease"
      and ev: "foldE (\<lambda>type. appendEventInternal (al_taskId lease) (Some (al_agentId lease)) (Some t) type no_payload) types
        (add_usage_to_attempt rnd t 1 (fi_actualCostUsd fin) (add_usage_to_task rnd (al_taskId lease) 1 (fi_actualCostUsd fin)
          (db\<lparr>db_reservations := settle_reservation (fi_reservationId fin) (db_reservations db)\<rparr>))) = Inr db'"
      by (auto simp: finishProviderRequest_def bindE_eq_Inr Let_def simp del: foldE.simps split: option.splits)
    from False r c act ev_core.events_keep [OF ev] show ?thesis
      by (intro exI [of _ r]) (auto simp: settles_def usage_core)
  qed
qed

lemma settle_settles:
  assumes "settleBudget rnd i c db = Inr db'" and "\<And>r. get_active i db = Some r \<Longrightarrow> \<not> is_reviewer r"
  shows "\<exists>r. settles rnd r db db'"
proof -
  from assms(1) obtain r where r: "get_active i db = Some r"
    and ev: "appendEventInternal (rv_taskId r) (Some (rv_agentId r)) (Some (rv_attemptId r)) ''BudgetSettled'' no_payload
      (add_usage_to_attempt rnd (rv_attemptId r) 1 c (add_usage_to_task rnd (rv_taskId r) 1 c
        (db\<lparr>db_reservations := settle_reservation i (db_reservations db)\<rparr>))) = Inr db'"
    by (auto simp: settleBudget_def split: option.splits)
  from r assms(2) get_active_SomeD [OF r] ev_core.event_keeps [OF ev] show ?thesis
    by (intro exI [of _ r]) (auto simp: settles_def usage_core)
qed

lemma budget_step_cases:
  assumes "budget_step rnd sumc db db'"
  obtains (opens) row where "opens rnd sumc row db db'" | (settles) r where "settles rnd r db db'" | (same) "core db' = core db"
  using assms
proof (cases rule: budget_step.cases)
  case (step_reserve i a t p w) then show thesis using reserve_opens opens by blast
next
  case (step_start now i lease t inp) then show thesis using start_opens [of rnd sumc now i lease t inp db db'] opens by blast
next
  case (step_finish now lease t fin) then show thesis using finish_settles settles by blast
next
  case (step_settle i c) then show thesis using settle_settles [of rnd i c db db'] settles by blast
qed (simp add: same core_def)

section \<open>Turns\<close>

text \<open>
  Settling one reservation takes exactly its share out of any sum over the active reservations of a
  task.
\<close>

definition active_sum :: "(reservation_row \<Rightarrow> 'n::comm_monoid_add) \<Rightarrow> (reservation_row \<Rightarrow> bool) \<Rightarrow> reservation_row list \<Rightarrow> 'n" where
  "active_sum g P rs = sum_list (map g (filter (\<lambda>r. P r \<and> rv_state r = ''active'') rs))"

definition ignores_state :: "(reservation_row \<Rightarrow> 'a) \<Rightarrow> bool" where
  "ignores_state f \<longleftrightarrow> (\<forall>r st. f (r\<lparr>rv_state := st\<rparr>) = f r)"

lemma settle_reservation_other: "i \<notin> rv_id ` set rs \<Longrightarrow> settle_reservation i rs = rs"
  by (auto simp: settle_reservation_def intro!: map_idI)

lemma active_sum_settle:
  assumes "distinct (map rv_id rs)" and "r \<in> set rs" and "rv_state r = ''active''" and "P r"
  shows "active_sum g P rs = active_sum g P (settle_reservation (rv_id r) rs) + g r"
  using assms(1,2)
proof (induction rs)
  case (Cons x rs)
  show ?case
  proof (cases "x = r")
    case True
    with Cons.prems have "settle_reservation (rv_id r) rs = rs" by (intro settle_reservation_other) auto
    with True assms(3,4) show ?thesis by (simp add: active_sum_def settle_reservation_def add.commute)
  next
    case False
    with Cons have "rv_id x \<noteq> rv_id r" "r \<in> set rs" by auto
    with Cons show ?thesis by (simp add: active_sum_def settle_reservation_def add.assoc)
  qed
qed simp

lemma active_sum_settle_other:
  assumes "ignores_state P" and "\<And>r. r \<in> set rs \<Longrightarrow> rv_id r = i \<Longrightarrow> \<not> P r"
  shows "active_sum g P (settle_reservation i rs) = active_sum g P rs"
  using assms(2)
proof (induction rs)
  case (Cons x rs)
  then have "active_sum g P (settle_reservation i rs) = active_sum g P rs" by simp
  moreover have "P (x\<lparr>rv_state := ''settled''\<rparr>) = P x" using assms(1) by (simp add: ignores_state_def)
  ultimately show ?case using Cons.prems [of x] by (auto simp: active_sum_def settle_reservation_def)
qed (simp add: settle_reservation_def)

lemma active_sum_settle_not:
  assumes "distinct (map rv_id rs)" and "r \<in> set rs" and "ignores_state P" and "\<not> P r"
  shows "active_sum g P (settle_reservation (rv_id r) rs) = active_sum g P rs"
proof (rule active_sum_settle_other [OF assms(3)])
  show "\<not> P x" if "x \<in> set rs" "rv_id x = rv_id r" for x
    using that assms by (auto simp: distinct_map inj_on_def)
qed

lemma active_sum_snoc:
  "active_sum g P (rs @ [row]) = active_sum g P rs + (if P row \<and> rv_state row = ''active'' then g row else 0)"
  by (simp add: active_sum_def)

abbreviation of_task :: "string \<Rightarrow> reservation_row \<Rightarrow> bool" where
  "of_task t \<equiv> \<lambda>r. rv_taskId r = t"

lemma reserved_turns_sum: "reserved_turns t db = active_sum rv_reservedTurns (of_task t) (db_reservations db)"
  by (simp add: reserved_turns_def active_reservations_def active_sum_def)

definition reservations_ok :: "reservation_row list \<Rightarrow> bool" where
  "reservations_ok rs \<longleftrightarrow> distinct (map rv_id rs) \<and> (\<forall>r\<in>set rs. rv_reservedTurns r = (if is_reviewer r then 0 else 1))"

definition turns_ok :: "('z) budget_db_scheme \<Rightarrow> bool" where
  "turns_ok db \<longleftrightarrow> reservations_ok (db_reservations db) \<and> distinct (map bt_taskId (db_budgets db)) \<and>
     (\<forall>b\<in>set (db_budgets db). bt_totalTurns b + reserved_turns (bt_taskId b) db \<le> bt_maxTurns b)"

lemma settle_reservation_ok:
  "rv_id ` set (settle_reservation i rs) = rv_id ` set rs" "map rv_id (settle_reservation i rs) = map rv_id rs"
  "reservations_ok rs \<Longrightarrow> reservations_ok (settle_reservation i rs)"
proof -
  show ids: "map rv_id (settle_reservation i rs) = map rv_id rs" by (simp add: settle_reservation_def)
  then show "rv_id ` set (settle_reservation i rs) = rv_id ` set rs" by (metis list.set_map)
  show "reservations_ok rs \<Longrightarrow> reservations_ok (settle_reservation i rs)"
    unfolding reservations_ok_def ids by (auto simp: settle_reservation_def is_reviewer_def)
qed

lemma turns_ok_opens:
  assumes ok: "turns_ok db" and o: "opens rnd sumc row db db'"
  shows "turns_ok db'"
proof -
  from o obtain task where new: "rv_id row \<notin> rv_id ` set (db_reservations db)" "rv_state row = ''active''"
      "rv_reservedTurns row = (if is_reviewer row then 0 else 1)" "requireBudget (rv_taskId row) db = Inr task"
      "\<not> is_reviewer row \<Longrightarrow> check_turns task db = Inr ()"
    and tabs: "db_budgets db' = db_budgets db" "db_reservations db' = db_reservations db @ [row]"
    by (auto simp: opens_def core_def)
  have task: "bt_taskId task = rv_taskId row" "task \<in> set (db_budgets db)" using requireBudget_task [OF new(4)] by auto
  have "bt_totalTurns b + reserved_turns (bt_taskId b) db' \<le> bt_maxTurns b" if b: "b \<in> set (db_budgets db)" for b
  proof (cases "bt_taskId b = rv_taskId row \<and> \<not> is_reviewer row")
    case True
    then have "b = task" using b task ok by (auto simp: turns_ok_def distinct_map inj_on_def)
    then show ?thesis using new(5) True new(2,3) task(1) by (simp add: reserved_turns_sum tabs active_sum_snoc check_turns_def)
  next
    case False
    then show ?thesis using ok b new(3) by (auto simp: reserved_turns_sum tabs active_sum_snoc turns_ok_def)
  qed
  with ok new(1,3) show ?thesis by (simp add: turns_ok_def tabs reservations_ok_def)
qed

lemma turns_ok_settles:
  assumes ok: "turns_ok db" and o: "settles rnd r db db'"
  shows "turns_ok db'"
proof -
  from o obtain actual where r: "get_active (rv_id r) db = Some r"
    and tabs: "db_budgets db' = add_turns rnd (rv_taskId r) (if is_reviewer r then 0 else 1) actual (db_budgets db)"
      "db_reservations db' = settle_reservation (rv_id r) (db_reservations db)"
    by (auto simp: settles_def core_def)
  note act = get_active_SomeD [OF r]
  have res: "distinct (map rv_id (db_reservations db))" "rv_reservedTurns r = (if is_reviewer r then 0 else 1)"
    using ok act(1) by (auto simp: turns_ok_def reservations_ok_def)
  have taken: "reserved_turns (rv_taskId r) db = reserved_turns (rv_taskId r) db' + rv_reservedTurns r"
    unfolding reserved_turns_sum tabs(2) by (rule active_sum_settle [OF res(1) act(1,3) refl])
  have others: "reserved_turns t db' = reserved_turns t db" if "t \<noteq> rv_taskId r" for t
    unfolding reserved_turns_sum tabs(2)
    by (rule active_sum_settle_not [OF res(1) act(1)]) (use that in \<open>auto simp: ignores_state_def\<close>)
  have "bt_totalTurns b' + reserved_turns (bt_taskId b') db' \<le> bt_maxTurns b'" if "b' \<in> set (db_budgets db')" for b'
    using that ok taken others res(2) by (auto simp: tabs(1) add_turns_def turns_ok_def split: if_splits)
  moreover have "map bt_taskId (db_budgets db') = map bt_taskId (db_budgets db)" by (simp add: tabs(1) add_turns_def)
  ultimately show ?thesis using ok by (auto simp: turns_ok_def tabs(2) settle_reservation_ok)
qed

lemma turns_ok_same: "core db' = core db \<Longrightarrow> turns_ok db \<Longrightarrow> turns_ok db'"
  by (simp add: turns_ok_def core_def reserved_turns_sum)

lemma turns_ok_step: "budget_step rnd sumc db db' \<Longrightarrow> turns_ok db \<Longrightarrow> turns_ok db'"
  by (erule budget_step_cases) (blast dest: turns_ok_opens turns_ok_settles turns_ok_same)+

lemma turns_ok_steps: "(budget_step rnd sumc)\<^sup>*\<^sup>* db db' \<Longrightarrow> turns_ok db \<Longrightarrow> turns_ok db'"
  by (induction rule: rtranclp_induct) (auto dest: turns_ok_step)

section \<open>The reviewer allowance\<close>

definition reviewer_of :: "string \<Rightarrow> reservation_row \<Rightarrow> bool" where
  "reviewer_of t r \<longleftrightarrow> rv_taskId r = t \<and> is_reviewer r"

definition cost_of :: "reservation_row \<Rightarrow> real" where
  "cost_of r = (case rv_reservedCostUsd r of None \<Rightarrow> 0 | Some c \<Rightarrow> c)"

definition open_reviews :: "string \<Rightarrow> reservation_row list \<Rightarrow> nat" where
  "open_reviews t rs = active_sum (\<lambda>_. 1) (reviewer_of t) rs"

text \<open>
  In exact arithmetic: the amount recorded as reserved is what the open reviews reserved, and what
  is spent and reserved exceeds five cents by at most the tolerance of each finished review.
\<close>

definition allowance_row_ok :: "reservation_row list \<Rightarrow> auth_state \<Rightarrow> bool" where
  "allowance_row_ok rs a \<longleftrightarrow>
     au_reviewerReservedUsd a = active_sum cost_of (reviewer_of (au_taskId a)) rs \<and>
     au_reviewerRequestCount a = length (filter (reviewer_of (au_taskId a)) rs) \<and>
     au_reviewerRequestCount a \<le> 128 \<and> au_compilerRequestCount a \<le> 32 \<and>
     au_reviewerCostUsd a + au_reviewerReservedUsd a + open_reviews (au_taskId a) rs / 10 ^ 9 \<le>
       1 / 20 + au_reviewerRequestCount a / 10 ^ 9"

definition allowance_ok :: "('z) budget_db_scheme \<Rightarrow> bool" where
  "allowance_ok db \<longleftrightarrow> distinct (map rv_id (db_reservations db)) \<and> distinct (map au_taskId (db_authStates db)) \<and>
     (\<forall>r\<in>set (db_reservations db). is_reviewer r \<longrightarrow> (\<exists>c\<ge>0. rv_reservedCostUsd r = Some c)) \<and>
     (\<forall>a\<in>set (db_authStates db). allowance_row_ok (db_reservations db) a)"

lemma reviewer_of_ignores [simp]: "ignores_state (reviewer_of t)"
  by (simp add: ignores_state_def reviewer_of_def is_reviewer_def)

lemma open_reviews_le: "open_reviews t rs \<le> length (filter (reviewer_of t) rs)"
  by (induction rs) (auto simp: open_reviews_def active_sum_def)

lemma count_settle: "length (filter (reviewer_of t) (settle_reservation i rs)) = length (filter (reviewer_of t) rs)"
  by (induction rs) (auto simp: settle_reservation_def reviewer_of_def is_reviewer_def)

lemma allowance_row_snoc_other:
  "\<not> reviewer_of (au_taskId a) row \<Longrightarrow> allowance_row_ok (rs @ [row]) a \<longleftrightarrow> allowance_row_ok rs a"
  by (simp add: allowance_row_ok_def active_sum_snoc open_reviews_def)

lemma remaining_exact: "reviewer_remaining (\<lambda>x. x) task st \<le> 1 / 20 - (au_reviewerCostUsd st + au_reviewerReservedUsd st)"
  by (simp add: reviewer_remaining_def Let_def)

lemma charged_row_ok:
  assumes ok: "allowance_row_ok rs a" and row: "reviewer_of (au_taskId a) row" "rv_state row = ''active''" "rv_reservedCostUsd row = Some w"
    and lim: "au_reviewerRequestCount a < 128" "kind = ''authorization_compile'' \<longrightarrow> au_compilerRequestCount a < 32"
      "w \<le> 1 / 20 - (au_reviewerCostUsd a + au_reviewerReservedUsd a)"
  shows "allowance_row_ok (rs @ [row]) (a\<lparr>
    au_compilerRequestCount := au_compilerRequestCount a + (if kind = ''authorization_compile'' then 1 else 0),
    au_reviewerRequestCount := au_reviewerRequestCount a + 1, au_reviewerReservedUsd := au_reviewerReservedUsd a + w,
    au_startupAllowanceUsed := u\<rparr>)"
proof -
  have "open_reviews (au_taskId a) rs \<le> au_reviewerRequestCount a"
    using ok open_reviews_le by (simp add: allowance_row_ok_def)
  then have "real (open_reviews (au_taskId a) rs) / 10 ^ 9 \<le> au_reviewerRequestCount a / 10 ^ 9" by (simp add: divide_right_mono)
  with assms show ?thesis
    by (auto simp: allowance_row_ok_def active_sum_snoc open_reviews_def cost_of_def add_divide_distrib)
qed

lemma settled_row_ok:
  assumes ok: "allowance_row_ok rs a" and r: "reviewer_of (au_taskId a) r" "r \<in> set rs" "rv_state r = ''active''" "rv_reservedCostUsd r = Some c"
    and rs: "distinct (map rv_id rs)" "\<And>x. x \<in> set rs \<Longrightarrow> is_reviewer x \<Longrightarrow> 0 \<le> cost_of x" and actual: "actual \<le> c + 1 / 10 ^ 9"
  shows "allowance_row_ok (settle_reservation (rv_id r) rs) (a\<lparr>au_reviewerCostUsd := au_reviewerCostUsd a + actual,
    au_compilerCostUsd := x, au_judgeCostUsd := y, au_reviewerReservedUsd := max 0 (au_reviewerReservedUsd a - c)\<rparr>)"
proof -
  let ?rs = "settle_reservation (rv_id r) rs"
  have sum: "active_sum cost_of (reviewer_of (au_taskId a)) rs = active_sum cost_of (reviewer_of (au_taskId a)) ?rs + c"
    using active_sum_settle [where P = "reviewer_of (au_taskId a)" and g = cost_of, OF rs(1) r(2,3,1)] r(4) by (simp add: cost_of_def)
  have cnt: "open_reviews (au_taskId a) rs = open_reviews (au_taskId a) ?rs + 1"
    unfolding open_reviews_def by (rule active_sum_settle [where P = "reviewer_of (au_taskId a)", OF rs(1) r(2,3,1)])
  have "0 \<le> active_sum cost_of (reviewer_of (au_taskId a)) ?rs"
    unfolding active_sum_def
  proof (rule sum_list_nonneg)
    fix v assume "v \<in> set (map cost_of (filter (\<lambda>r. reviewer_of (au_taskId a) r \<and> rv_state r = ''active'') ?rs))"
    then obtain z where "z \<in> set ?rs" "reviewer_of (au_taskId a) z" "rv_state z = ''active''" "v = cost_of z" by auto
    then show "0 \<le> v" using rs(2) by (auto simp: settle_reservation_def reviewer_of_def split: if_splits)
  qed
  with ok sum cnt actual show ?thesis
    by (auto simp: allowance_row_ok_def count_settle add_divide_distrib)
qed

lemma find_authD: "find (\<lambda>a. au_taskId a = t) as = Some st \<Longrightarrow> st \<in> set as \<and> au_taskId st = t"
  by (auto simp: find_Some_iff in_set_conv_nth)

lemma check_reviewer_exact:
  assumes "check_reviewer (\<lambda>x. x) task att kind (Some w) db = Inr ()"
  obtains st where "find (\<lambda>a. au_taskId a = bt_taskId task) (db_authStates db) = Some st" "au_reviewerRequestCount st < 128"
    "kind = ''authorization_compile'' \<longrightarrow> au_compilerRequestCount st < 32"
    "w \<le> 1 / 20 - (au_reviewerCostUsd st + au_reviewerReservedUsd st)"
proof -
  from assms obtain st where "find (\<lambda>a. au_taskId a = bt_taskId task) (db_authStates db) = Some st" "au_reviewerRequestCount st < 128"
    "kind = ''authorization_compile'' \<longrightarrow> au_compilerRequestCount st < 32" "w \<le> reviewer_remaining (\<lambda>x. x) task st"
    by (auto simp: check_reviewer_def bindE_eq_Inr split: option.splits)
  with remaining_exact [of task st] show thesis by (intro that) auto
qed

lemma allowance_ok_opens:
  assumes ok: "allowance_ok db" and o: "opens (\<lambda>x. x) sumc row db db'"
  shows "allowance_ok db'"
proof -
  from o have new: "rv_id row \<notin> rv_id ` set (db_reservations db)" "rv_state row = ''active''"
    and tabs: "db_reservations db' = db_reservations db @ [row]" by (auto simp: opens_def core_def)
  show ?thesis
  proof (cases "is_reviewer row")
    case False
    with o have "db_authStates db' = db_authStates db" by (auto simp: opens_def core_def)
    moreover have "\<not> reviewer_of t row" for t using False by (simp add: reviewer_of_def)
    ultimately show ?thesis using ok new(1) False by (auto simp: allowance_ok_def tabs allowance_row_snoc_other)
  next
    case True
    with o obtain task kind w where task: "requireBudget (rv_taskId row) db = Inr task" "rv_requestKind row = Some kind"
        "rv_reservedCostUsd row = Some w" "0 \<le> w" "check_reviewer (\<lambda>x. x) task (rv_attemptId row) kind (Some w) db = Inr ()"
      and auth: "db_authStates db' = db_authStates (charge_reviewer (\<lambda>x. x) (rv_taskId row) kind (Some w) db)"
      by (auto simp: opens_def core_def)
    from check_reviewer_exact [OF task(5)] requireBudget_task [OF task(1)] obtain st where
      st: "find (\<lambda>a. au_taskId a = rv_taskId row) (db_authStates db) = Some st" "au_reviewerRequestCount st < 128"
        "kind = ''authorization_compile'' \<longrightarrow> au_compilerRequestCount st < 32"
        "w \<le> 1 / 20 - (au_reviewerCostUsd st + au_reviewerReservedUsd st)" by metis
    have rows: "allowance_row_ok (db_reservations db') a'" if "a' \<in> set (db_authStates db')" for a'
    proof -
      from that auth obtain a where a: "a \<in> set (db_authStates db)" and a': "a' = (if au_taskId a = rv_taskId row then a\<lparr>
          au_compilerRequestCount := au_compilerRequestCount a + (if kind = ''authorization_compile'' then 1 else 0),
          au_reviewerRequestCount := au_reviewerRequestCount a + 1, au_reviewerReservedUsd := au_reviewerReservedUsd a + w,
          au_startupAllowanceUsed := True\<rparr> else a)" by (auto simp: charge_reviewer_def)
      have row: "allowance_row_ok (db_reservations db) a" using ok a by (simp add: allowance_ok_def)
      show ?thesis
      proof (cases "au_taskId a = rv_taskId row")
        case True
        then have "a = st" using find_authD [OF st(1)] a ok by (auto simp: allowance_ok_def distinct_map inj_on_def)
        with True a' charged_row_ok [OF row _ new(2) task(3), of kind True] st \<open>is_reviewer row\<close> show ?thesis
          by (simp add: tabs reviewer_of_def)
      next
        case False
        then show ?thesis using a' row by (simp add: tabs allowance_row_snoc_other reviewer_of_def)
      qed
    qed
    moreover have "map au_taskId (db_authStates db') = map au_taskId (db_authStates db)" by (simp add: auth charge_reviewer_def)
    ultimately show ?thesis using ok new(1) task(3,4) by (auto simp: allowance_ok_def tabs)
  qed
qed

lemma allowance_ok_settles:
  assumes ok: "allowance_ok db" and o: "settles (\<lambda>x. x) r db db'"
  shows "allowance_ok db'"
proof -
  from o have r: "get_active (rv_id r) db = Some r" and tabs: "db_reservations db' = settle_reservation (rv_id r) (db_reservations db)"
    by (auto simp: settles_def core_def)
  note act = get_active_SomeD [OF r]
  have dist: "distinct (map rv_id (db_reservations db))" using ok by (simp add: allowance_ok_def)
  have other: "allowance_row_ok (db_reservations db') a" if "allowance_row_ok (db_reservations db) a" "\<not> reviewer_of (au_taskId a) r" for a
    using that by (simp add: allowance_row_ok_def tabs count_settle open_reviews_def active_sum_settle_not [OF dist act(1)])
  have costs: "\<forall>x\<in>set (db_reservations db'). is_reviewer x \<longrightarrow> (\<exists>c\<ge>0. rv_reservedCostUsd x = Some c)"
    using ok by (auto simp: allowance_ok_def tabs settle_reservation_def is_reviewer_def split: if_splits)
  have "map au_taskId (db_authStates db') = map au_taskId (db_authStates db) \<and> (\<forall>a\<in>set (db_authStates db'). allowance_row_ok (db_reservations db') a)"
  proof (cases "is_reviewer r")
    case False
    with o have "db_authStates db' = db_authStates db" by (auto simp: settles_def core_def)
    with False ok other show ?thesis by (auto simp: allowance_ok_def reviewer_of_def)
  next
    case True
    with o obtain actual c where c: "rv_reservedCostUsd r = Some c" "actual \<le> c + 1 / 10 ^ 9"
      and auth: "db_authStates db' = db_authStates (settle_reviewer (\<lambda>x. x) (rv_taskId r) (rv_requestKind r) actual c db)"
      by (auto simp: settles_def core_def)
    have nonneg: "0 \<le> cost_of x" if "x \<in> set (db_reservations db)" "is_reviewer x" for x
      using ok that by (auto simp: allowance_ok_def cost_of_def)
    have "allowance_row_ok (db_reservations db') a'" if "a' \<in> set (db_authStates db')" for a'
    proof -
      from that auth obtain a where a: "a \<in> set (db_authStates db)" and a': "a' = (if au_taskId a = rv_taskId r then
          a\<lparr>au_reviewerCostUsd := au_reviewerCostUsd a + actual,
            au_compilerCostUsd := au_compilerCostUsd a + (if rv_requestKind r = Some ''authorization_compile'' then actual else 0),
            au_judgeCostUsd := au_judgeCostUsd a + (if rv_requestKind r = Some ''permission_review'' then actual else 0),
            au_reviewerReservedUsd := max 0 (au_reviewerReservedUsd a - c)\<rparr> else a)" by (auto simp: settle_reviewer_def)
      have row: "allowance_row_ok (db_reservations db) a" using ok a by (simp add: allowance_ok_def)
      show ?thesis
        using settled_row_ok [OF row _ act(1,3) c(1) dist nonneg c(2)] other [OF row] True
        by (simp add: a' tabs reviewer_of_def)
    qed
    then show ?thesis by (simp add: auth settle_reviewer_def)
  qed
  with ok costs show ?thesis by (simp add: allowance_ok_def tabs settle_reservation_ok(2))
qed

lemma allowance_ok_same: "core db' = core db \<Longrightarrow> allowance_ok db \<Longrightarrow> allowance_ok db'"
  by (simp add: allowance_ok_def core_def)

lemma allowance_ok_steps: "(budget_step (\<lambda>x. x) sumc)\<^sup>*\<^sup>* db db' \<Longrightarrow> allowance_ok db \<Longrightarrow> allowance_ok db'"
proof (induction rule: rtranclp_induct)
  case (step d d')
  from step.hyps(2) step.IH [OF step.prems] show ?case
    by (elim budget_step_cases) (blast dest: allowance_ok_opens allowance_ok_settles allowance_ok_same)+
qed simp

text \<open>A reservation that is no longer active never becomes active again.\<close>

definition is_closed :: "string \<Rightarrow> ('z) budget_db_scheme \<Rightarrow> bool" where
  "is_closed i db \<longleftrightarrow> i \<in> rv_id ` set (db_reservations db) \<and> (\<forall>r\<in>set (db_reservations db). rv_id r = i \<longrightarrow> rv_state r \<noteq> ''active'')"

lemma settles_closed: "settles rnd r db db' \<Longrightarrow> is_closed (rv_id r) db'"
  by (auto simp: settles_def core_def is_closed_def settle_reservation_ok(1) dest: get_active_SomeD)
    (auto simp: settle_reservation_def split: if_splits)

lemma closed_step: "budget_step rnd sumc db db' \<Longrightarrow> is_closed i db \<Longrightarrow> is_closed i db'"
proof (erule budget_step_cases)
  fix r assume "settles rnd r db db'" "is_closed i db"
  then have "db_reservations db' = settle_reservation (rv_id r) (db_reservations db)" by (auto simp: settles_def core_def)
  with \<open>is_closed i db\<close> show "is_closed i db'"
    by (simp add: is_closed_def settle_reservation_ok(1)) (auto simp: settle_reservation_def)
qed (auto simp: opens_def core_def is_closed_def)

lemma closed_steps: "(budget_step rnd sumc)\<^sup>*\<^sup>* db db' \<Longrightarrow> is_closed i db \<Longrightarrow> is_closed i db'"
  by (induction rule: rtranclp_induct) (auto dest: closed_step)

lemma closed_not_active: "is_closed i db \<Longrightarrow> get_active i db = None"
  by (auto simp: is_closed_def get_active_def find_None_iff)

section \<open>Properties\<close>


text \<open>
  C34: Reviewer requests of one task are bounded: at most 128 of them, at most 32 authorization
  compilations, and, with exact arithmetic, what they spent and still reserve never exceeds five
  cents by more than the tolerance of 1e-9 dollars per request.
\<close>
theorem reviewer_allowance_respected:
  assumes "(budget_step (\<lambda>x. x) sumc)\<^sup>*\<^sup>* db db'" and "db_reservations db = []" and "distinct (map au_taskId (db_authStates db))"
    and "\<And>a. a \<in> set (db_authStates db) \<Longrightarrow> au_reviewerRequestCount a = 0 \<and> au_compilerRequestCount a = 0 \<and>
      au_reviewerCostUsd a = 0 \<and> au_reviewerReservedUsd a = 0"
    and "a \<in> set (db_authStates db')"
  shows "au_reviewerRequestCount a \<le> 128 \<and> au_compilerRequestCount a \<le> 32 \<and>
    au_reviewerCostUsd a + au_reviewerReservedUsd a \<le> 5 / 100 + 128 / 10 ^ 9"
proof -
  have "allowance_ok db" using assms(2-4) by (auto simp: allowance_ok_def allowance_row_ok_def active_sum_def open_reviews_def)
  with allowance_ok_steps [OF assms(1)] assms(5) have "allowance_row_ok (db_reservations db') a" by (simp add: allowance_ok_def)
  then show ?thesis by (auto simp: allowance_row_ok_def)
qed

text \<open>
  A provider request is settled once: after \<open>finishProviderRequest\<close> succeeded for a reservation, in
  every later state neither it nor \<open>settleBudget\<close> accepts the same reservation again.
\<close>
theorem reservation_settled_once:
  assumes "finishProviderRequest rnd now lease t fin db = Inr db1" and "(budget_step rnd sumc)\<^sup>*\<^sup>* db1 db'"
    and "fi_reservationId fin' = fi_reservationId fin"
  shows "(\<nexists>d. finishProviderRequest rnd now' lease' t' fin' db' = Inr d) \<and>
    settleBudget rnd (fi_reservationId fin) c db' = Inl (''Active budget reservation not found: '' @ fi_reservationId fin)"
proof -
  from finish_settles [OF assms(1)] obtain r where r: "settles rnd r db db1" and i: "rv_id r = fi_reservationId fin" by blast
  from i settles_closed [OF r] closed_steps [OF assms(2)] have "get_active (fi_reservationId fin) db' = None" by (metis closed_not_active)
  with assms(3) show ?thesis by (auto simp: finishProviderRequest_def settleBudget_def bindE_eq_Inr)
qed

section \<open>A concrete run\<close>

definition sample_budget_db :: budget_db where
  "sample_budget_db = lease_db.extend (with_leases [sample_lease 1 100] sample_flow_db)
     (budget_db.fields [\<lparr>bt_taskId = ''t'', bt_totalTurns = 0, bt_totalCostUsd = 0, bt_maxTurns = 1, bt_maxCostUsd = None\<rparr>] []
       [\<lparr>au_taskId = ''t'', au_compilerRequestCount = 0, au_reviewerRequestCount = 0, au_reviewerCostUsd = 0,
         au_compilerCostUsd = 0, au_judgeCostUsd = 0, au_reviewerReservedUsd = 0, au_startupAllowanceUsed = False\<rparr>])"

definition sample_agent_lease :: agent_lease where
  "sample_agent_lease = \<lparr>al_agentId = ''a'', al_taskId = ''t'', al_workerId = ''w'', al_executionId = ''e'', al_fencingToken = 1, al_expiresAt = 100\<rparr>"

abbreviation sample_start :: "string \<Rightarrow> string \<Rightarrow> real option \<Rightarrow> budget_db \<Rightarrow> string + budget_db" where
  "sample_start i kind worst \<equiv> startProviderRequest (\<lambda>x. x) sum_list 5 i sample_agent_lease ''k''
     \<lparr>ri_providerRequestId = i, ri_requestKind = kind, ri_worstCaseCostUsd = worst\<rparr>"

abbreviation sample_finish :: "string \<Rightarrow> real \<Rightarrow> budget_db \<Rightarrow> string + budget_db" where
  "sample_finish i cost \<equiv> finishProviderRequest (\<lambda>x. x) 6 sample_agent_lease ''k''
     \<lparr>fi_providerRequestId = i, fi_reservationId = i, fi_actualCostUsd = cost\<rparr>"

lemmas budget_eval = startProviderRequest_def finishProviderRequest_def assertLeaseInternal_def get_lease_def requireBudget_def
  is_reviewer_kind_def is_reviewer_def check_turns_def check_cost_def check_reviewer_def reviewer_remaining_def insert_reservation_def
  charge_reviewer_def reserved_turns_def active_reservations_def get_active_def settle_reservation_def usage_core
  sample_budget_db_def sample_agent_lease_def budget_db.defs lease_sample_defs event_eval next_seq_def task_events_def sample_event_def Let_def

lemma sample_run:
  "\<exists>d1 d2 d3. sample_start ''p'' ''agent'' None sample_budget_db = Inr d1 \<and>
     sample_start ''q'' ''permission_review'' (Some (1 / 1000)) d1 = Inr d2 \<and> sample_finish ''q'' (1 / 2000) d2 = Inr d3 \<and>
     map bt_totalTurns (db_budgets d3) = [0] \<and> map au_reviewerCostUsd (db_authStates d3) = [1 / 2000]"
  by (simp add: budget_eval)

abbreviation sample_step :: "budget_db \<Rightarrow> budget_db \<Rightarrow> bool" where
  "sample_step \<equiv> budget_step (\<lambda>x. x) sum_list"

lemma sample_steps:
  assumes "sample_start ''p'' ''agent'' None sample_budget_db = Inr d1" and "sample_start ''q'' ''permission_review'' (Some (1 / 1000)) d1 = Inr d2"
    and "sample_finish ''q'' (1 / 2000) d2 = Inr d3"
  shows "sample_step\<^sup>*\<^sup>* sample_budget_db d3"
proof -
  have "sample_step sample_budget_db d1" "sample_step d1 d2" by (rule step_start [OF assms(1)], simp) (rule step_start [OF assms(2)], simp)
  with step_finish [OF assms(3)] show ?thesis by (meson converse_rtranclp_into_rtranclp rtranclp.rtrancl_refl)
qed

lemma sample_fresh:
  "db_reservations sample_budget_db = []" "distinct (map bt_taskId (db_budgets sample_budget_db))"
  "distinct (map au_taskId (db_authStates sample_budget_db))"
  "b \<in> set (db_budgets sample_budget_db) \<Longrightarrow> bt_totalTurns b \<le> bt_maxTurns b"
  "a \<in> set (db_authStates sample_budget_db) \<Longrightarrow> au_reviewerRequestCount a = 0 \<and> au_compilerRequestCount a = 0 \<and>
     au_reviewerCostUsd a = 0 \<and> au_reviewerReservedUsd a = 0"
  by (auto simp: sample_budget_db_def budget_db.defs lease_sample_defs)


theorem reviewer_allowance_respected_witness:
  "\<exists>d. sample_step\<^sup>*\<^sup>* sample_budget_db d \<and> map au_reviewerCostUsd (db_authStates d) = [1 / 2000] \<and>
     (\<forall>a\<in>set (db_authStates d). au_reviewerCostUsd a + au_reviewerReservedUsd a \<le> 5 / 100 + 128 / 10 ^ 9)"
proof -
  from sample_run obtain d1 d2 d3 where "sample_start ''p'' ''agent'' None sample_budget_db = Inr d1"
    "sample_start ''q'' ''permission_review'' (Some (1 / 1000)) d1 = Inr d2" "sample_finish ''q'' (1 / 2000) d2 = Inr d3"
    and n: "map au_reviewerCostUsd (db_authStates d3) = [1 / 2000]" by (elim exE conjE) (rule that)
  then have st: "sample_step\<^sup>*\<^sup>* sample_budget_db d3" by (intro sample_steps)
  from st n reviewer_allowance_respected [OF st sample_fresh(1,3) sample_fresh(5)] show ?thesis
    by (intro exI [of _ d3] conjI ballI) blast+
qed

theorem reservation_settled_once_witness:
  "\<exists>d2 d3. sample_finish ''q'' (1 / 2000) d2 = Inr d3 \<and> (\<nexists>d. sample_finish ''q'' 0 d3 = Inr d) \<and>
     settleBudget (\<lambda>x. x) ''q'' 0 d3 = Inl ''Active budget reservation not found: q''"
proof -
  from sample_run obtain d2 d3 where f: "sample_finish ''q'' (1 / 2000) d2 = Inr d3" by (elim exE conjE) (rule that)
  have "sample_step\<^sup>*\<^sup>* d3 d3" by simp
  from reservation_settled_once [OF f this, of "\<lparr>fi_providerRequestId = ''q'', fi_reservationId = ''q'', fi_actualCostUsd = 0\<rparr>" 6
      sample_agent_lease "''k''" 0] f show ?thesis by (intro exI [of _ d2] exI [of _ d3]) simp
qed

text \<open>
  Settling a reviewer reservation through \<open>settleBudget\<close> counts a turn the reservation never held:
  the turn budget of one turn is exceeded although every check passed.
\<close>
lemma reviewer_settlement_exceeds_turns:
  "\<exists>d1 d2 d3. sample_start ''p'' ''agent'' None sample_budget_db = Inr d1 \<and>
     sample_start ''q'' ''permission_review'' (Some (1 / 1000)) d1 = Inr d2 \<and> settleBudget (\<lambda>x. x) ''q'' 0 d2 = Inr d3 \<and>
     map (\<lambda>b. (bt_totalTurns b, bt_maxTurns b)) (db_budgets d3) = [(1, 1)] \<and> reserved_turns ''t'' d3 = 1"
  by (simp add: settleBudget_def budget_eval)

end
