(* ===== verification/Task_Schedule.thy ===== *)
theory Task_Schedule
  imports Task_Lease
begin

text \<open>
  Schedules (packages/long-tasks/src/schedule-engine.ts and the schedule statements of store.ts):
  intervals and their text, the next run after a claim, claiming due times and events. A time is its
  number of milliseconds; the stored text is \<open>toISOString\<close>, which SQLite compares as text. The
  library Cron, \<open>Intl\<close> time zones and \<open>Date.parse\<close> are parameters.
\<close>

section \<open>Interval text\<close>

definition is_digit_char :: "char \<Rightarrow> bool" where
  "is_digit_char c \<longleftrightarrow> 48 \<le> (of_char c :: nat) \<and> (of_char c :: nat) \<le> 57"

definition lower_char :: "char \<Rightarrow> char" where
  "lower_char c = (if 65 \<le> (of_char c :: nat) \<and> (of_char c :: nat) \<le> 90 then char_of ((of_char c :: nat) + 32) else c)"

definition digits_number :: "string \<Rightarrow> nat" where
  "digits_number ds = fold (\<lambda>c n. 10 * n + (of_char c - 48)) ds 0"

definition compact_interval :: "string \<Rightarrow> nat option" where
  "compact_interval expression =
     (let compact = map lower_char (js_trim expression);
          ds = takeWhile is_digit_char compact; unit_text = dropWhile is_digit_char compact in
      if ds = [] then None
      else if unit_text = ''s'' then Some (digits_number ds * 1000)
      else if unit_text = ''m'' then Some (digits_number ds * 60000)
      else if unit_text = ''h'' then Some (digits_number ds * 3600000)
      else if unit_text = ''d'' then Some (digits_number ds * 86400000)
      else None)"

text \<open>One optional group \<open>(\d+)X\<close> of the ISO pattern: its number, 0 when absent, and the rest.\<close>

definition iso_group :: "char \<Rightarrow> string \<Rightarrow> nat \<times> string" where
  "iso_group x s =
     (let ds = takeWhile is_digit_char s in
      case dropWhile is_digit_char s of
        c # rest \<Rightarrow> if ds \<noteq> [] \<and> lower_char c = x then (digits_number ds, rest) else (0, s)
      | [] \<Rightarrow> (0, s))"

definition iso_interval :: "string \<Rightarrow> nat option" where
  "iso_interval expression =
     (case map lower_char (js_trim expression) of
        p # t # rest \<Rightarrow>
          if p = CHR ''p'' \<and> t = CHR ''t'' then
            (let (h, r1) = iso_group CHR ''h'' rest; (m, r2) = iso_group CHR ''m'' r1; (s, r3) = iso_group CHR ''s'' r2 in
             if r3 = [] then Some ((h * 3600 + m * 60 + s) * 1000) else None)
          else None
      | _ \<Rightarrow> None)"

definition usable_interval :: "nat option \<Rightarrow> nat option" where
  "usable_interval ms = (case ms of Some n \<Rightarrow> if n \<le> 2 ^ 53 - 1 \<and> n \<ge> 1000 then Some n else None | None \<Rightarrow> None)"

definition parseScheduleInterval :: "string \<Rightarrow> string + nat" where
  "parseScheduleInterval expression =
     (case usable_interval (compact_interval expression) of
        Some n \<Rightarrow> Inr n
      | None \<Rightarrow> (case usable_interval (iso_interval expression) of
          Some n \<Rightarrow> Inr n
        | None \<Rightarrow> Inl (''Invalid interval duration: '' @ expression)))"

section \<open>Times as text\<close>

text \<open>
  The year of a time in the proleptic Gregorian calendar, and the order of ISO texts: years up to
  9999 have four digits, later ones a plus sign, negative ones a minus sign, and as characters
  \<open>+\<close> comes before \<open>-\<close> and both before the digits.
\<close>

definition year_of :: "int \<Rightarrow> int" where
  "year_of t =
     (let z = t div 86400000 + 719468; era = z div 146097; doe = z - era * 146097;
          yoe = (doe - doe div 1460 + doe div 36524 - doe div 146096) div 365;
          doy = doe - (365 * yoe + yoe div 4 - yoe div 100); mp = (5 * doy + 2) div 153 in
      yoe + era * 400 + (if mp < 10 then 0 else 1))"

definition iso_key :: "int \<Rightarrow> int \<times> int \<times> int" where
  "iso_key t = (let y = year_of t in if y > 9999 then (0, 0, t) else if y < 0 then (1, - y, t) else (2, 0, t))"

definition key_le :: "int \<times> int \<times> int \<Rightarrow> int \<times> int \<times> int \<Rightarrow> bool" where
  "key_le x y = (case (x, y) of ((a, b, c), (a', b', c')) \<Rightarrow> a < a' \<or> a = a' \<and> (b < b' \<or> b = b' \<and> c \<le> c'))"

definition iso_le :: "int \<Rightarrow> int \<Rightarrow> bool" where
  "iso_le s t = key_le (iso_key s) (iso_key t)"

fun insert_iso :: "('a \<Rightarrow> int) \<Rightarrow> 'a \<Rightarrow> 'a list \<Rightarrow> 'a list" where
  "insert_iso f x [] = [x]"
| "insert_iso f x (y # ys) = (if iso_le (f x) (f y) then x # y # ys else y # insert_iso f x ys)"

definition sort_iso :: "('a \<Rightarrow> int) \<Rightarrow> 'a list \<Rightarrow> 'a list" where
  "sort_iso f xs = foldr (insert_iso f) xs []"

text \<open>\<open>toISOString\<close> of a date: outside the range of dates it throws.\<close>

definition toISOString :: "int \<Rightarrow> string + int" where
  "toISOString t = bindE (guardE (\<bar>t\<bar> > 8640000000000000) ''Invalid time value'') (\<lambda>_. Inr t)"

section \<open>Schedules and the engine's environment\<close>

datatype schedule_kind = OnceSchedule | IntervalSchedule | CronSchedule | EventSchedule

datatype schedule_state = ScheduleActive | SchedulePaused | ScheduleCompleted | ScheduleCancelled

record schedule_row =
  sc_id :: string
  sc_taskId :: string
  sc_agentId :: "string option"
  sc_kind :: schedule_kind
  sc_expression :: string
  sc_timezone :: string
  sc_payload :: string
  sc_state :: schedule_state
  sc_nextRunAt :: "int option"
  sc_lastClaimId :: "string option"
  sc_lastClaimedAt :: "int option"
  sc_lastDeliveredAt :: "int option"
  sc_lastEventSeq :: nat
  sc_createdAt :: int

record schedule_claim =
  cl_schedule :: schedule_row
  cl_claimId :: string
  cl_dueAt :: int
  cl_missedCount :: nat
  cl_claimedAt :: int

record schedule_db = lease_db +
  db_schedules :: "schedule_row list"

text \<open>
  \<open>cron_next expression timezone t\<close> is the run of the Cron library after \<open>t\<close>, \<open>cron_previous\<close> its list
  of at most \<open>n\<close> runs up to \<open>t\<close>; both fail for an expression the library rejects.
\<close>

record schedule_env =
  en_timezone_ok :: "string \<Rightarrow> bool"
  en_date_parse :: "string \<Rightarrow> int option"
  en_cron_next :: "string \<Rightarrow> string \<Rightarrow> int \<Rightarrow> string + int option"
  en_cron_previous :: "string \<Rightarrow> string \<Rightarrow> nat \<Rightarrow> int \<Rightarrow> string + int list"

definition validateTimezone :: "schedule_env \<Rightarrow> string \<Rightarrow> string + unit" where
  "validateTimezone env tz = guardE (\<not> en_timezone_ok env tz) (''Invalid IANA timezone: '' @ tz)"

definition firstScheduleRun :: "schedule_env \<Rightarrow> schedule_kind \<Rightarrow> string \<Rightarrow> string \<Rightarrow> int \<Rightarrow> string + int option" where
  "firstScheduleRun env kind expression tz from_time =
     bindE (validateTimezone env tz) (\<lambda>_.
     case kind of
       EventSchedule \<Rightarrow> Inr None
     | OnceSchedule \<Rightarrow>
         (case en_date_parse env expression of
            None \<Rightarrow> Inl ''Once schedule requires an ISO date-time''
          | Some t \<Rightarrow> bindE (toISOString t) (\<lambda>x. Inr (Some x)))
     | IntervalSchedule \<Rightarrow>
         bindE (parseScheduleInterval expression) (\<lambda>interval.
         bindE (toISOString (from_time + int interval)) (\<lambda>x. Inr (Some x)))
     | CronSchedule \<Rightarrow>
         bindE (en_cron_next env expression tz from_time) (\<lambda>n. case n of
           None \<Rightarrow> Inl ''Cron schedule has no future occurrence''
         | Some t \<Rightarrow> bindE (toISOString t) (\<lambda>x. Inr (Some x))))"

definition nextAfterClaim :: "schedule_env \<Rightarrow> schedule_row \<Rightarrow> int \<Rightarrow> string + int option \<times> nat" where
  "nextAfterClaim env schedule now =
     (case sc_nextRunAt schedule of
        None \<Rightarrow> Inl (''Schedule '' @ sc_id schedule @ '' has no due time'')
      | Some due \<Rightarrow>
          (case sc_kind schedule of
             OnceSchedule \<Rightarrow> Inr (None, 1)
           | IntervalSchedule \<Rightarrow>
               bindE (parseScheduleInterval (sc_expression schedule)) (\<lambda>interval.
               let missed = max 1 ((now - due) div int interval + 1) in
               bindE (toISOString (due + missed * int interval)) (\<lambda>x. Inr (Some x, nat missed)))
           | CronSchedule \<Rightarrow>
               bindE (validateTimezone env (sc_timezone schedule)) (\<lambda>_.
               bindE (en_cron_next env (sc_expression schedule) (sc_timezone schedule) now) (\<lambda>n. case n of
                 None \<Rightarrow> Inl (''Cron schedule '' @ sc_id schedule @ '' has no future occurrence'')
               | Some t \<Rightarrow>
                   bindE (en_cron_previous env (sc_expression schedule) (sc_timezone schedule) 1000 now) (\<lambda>runs.
                   bindE (toISOString t) (\<lambda>x. Inr (Some x, max 1 (length (filter (\<lambda>r. r \<ge> due) runs)))))))
           | EventSchedule \<Rightarrow> Inl ''Event schedules are not claimed by time''))"

section \<open>Statements on the schedules table\<close>

definition getSchedule :: "string \<Rightarrow> ('z) schedule_db_scheme \<Rightarrow> schedule_row option" where
  "getSchedule i db = find (\<lambda>s. sc_id s = i) (db_schedules db)"

definition requireSchedule :: "string \<Rightarrow> ('z) schedule_db_scheme \<Rightarrow> string + schedule_row" where
  "requireSchedule i db = (case getSchedule i db of None \<Rightarrow> Inl (''Schedule not found: '' @ i) | Some s \<Rightarrow> Inr s)"

definition update_schedules ::
  "(schedule_row \<Rightarrow> bool) \<Rightarrow> (schedule_row \<Rightarrow> schedule_row) \<Rightarrow> ('z) schedule_db_scheme \<Rightarrow> ('z) schedule_db_scheme" where
  "update_schedules which f db = db\<lparr>db_schedules := map (\<lambda>s. if which s then f s else s) (db_schedules db)\<rparr>"

definition createSchedule ::
  "int \<Rightarrow> string \<Rightarrow> string \<Rightarrow> string option \<Rightarrow> schedule_kind \<Rightarrow> string \<Rightarrow> string \<Rightarrow> string \<Rightarrow> int option
    \<Rightarrow> ('z) schedule_db_scheme \<Rightarrow> string + schedule_row \<times> ('z) schedule_db_scheme" where
  "createSchedule now newId taskId agentId kind expression tz payload nextRunAt db =
     bindE (requireTask taskId db) (\<lambda>_.
     bindE (case truthy agentId of
              None \<Rightarrow> Inr ()
            | Some a \<Rightarrow> bindE (requireAgent a db) (\<lambda>agent.
                guardE (ag_taskId agent \<noteq> taskId) ''Schedule Agent does not belong to Task'')) (\<lambda>_.
     bindE (guardE (js_trim expression = [] \<or> js_trim tz = []) ''Schedule expression and timezone are required'') (\<lambda>_.
     bindE (guardE (list_ex (\<lambda>s. sc_id s = newId) (db_schedules db)) ''UNIQUE constraint failed: schedules.id'') (\<lambda>_.
     let row = \<lparr>sc_id = newId, sc_taskId = taskId, sc_agentId = agentId, sc_kind = kind, sc_expression = expression,
           sc_timezone = tz, sc_payload = payload, sc_state = ScheduleActive, sc_nextRunAt = nextRunAt, sc_lastClaimId = None,
           sc_lastClaimedAt = None, sc_lastDeliveredAt = None, sc_lastEventSeq = 0, sc_createdAt = now\<rparr>;
         db1 = db\<lparr>db_schedules := db_schedules db @ [row]\<rparr>; createdEventSeq = next_seq taskId db1 in
     bindE (appendEventInternal taskId agentId None ''ScheduleCreated'' no_payload db1) (\<lambda>db2.
     let db3 = (if kind = EventSchedule
                then update_schedules (\<lambda>s. sc_id s = newId) (\<lambda>s. s\<lparr>sc_lastEventSeq := createdEventSeq\<rparr>) db2 else db2) in
     bindE (requireSchedule newId db3) (\<lambda>s. Inr (s, db3)))))))"

definition listSchedules :: "string \<Rightarrow> ('z) schedule_db_scheme \<Rightarrow> schedule_row list" where
  "listSchedules taskId db = sort_iso sc_createdAt (filter (\<lambda>s. sc_taskId s = taskId) (db_schedules db))"

definition listDueSchedules :: "int \<Rightarrow> nat \<Rightarrow> ('z) schedule_db_scheme \<Rightarrow> schedule_row list" where
  "listDueSchedules dueAt limit db =
     take limit (sort_iso (\<lambda>s. the (sc_nextRunAt s))
       (filter (\<lambda>s. sc_state s = ScheduleActive \<and> (\<exists>t\<in>set_option (sc_nextRunAt s). iso_le t dueAt)) (db_schedules db)))"

definition claimSchedule ::
  "string \<Rightarrow> string \<Rightarrow> int \<Rightarrow> int \<Rightarrow> int option \<Rightarrow> nat \<Rightarrow> ('z) schedule_db_scheme
    \<Rightarrow> string + schedule_claim option \<times> ('z) schedule_db_scheme" where
  "claimSchedule claimId scheduleId dueAt claimedAt nextRunAt missedCount db =
     (case getSchedule scheduleId db of
        None \<Rightarrow> Inr (None, db)
      | Some schedule \<Rightarrow>
          if sc_state schedule \<noteq> ScheduleActive \<or> sc_nextRunAt schedule \<noteq> Some dueAt then Inr (None, db)
          else
            (let nextState = (if sc_kind schedule = OnceSchedule then ScheduleCompleted else ScheduleActive);
                 which = (\<lambda>s. sc_id s = sc_id schedule \<and> sc_state s = ScheduleActive \<and> sc_nextRunAt s = Some dueAt) in
             if length (filter which (db_schedules db)) \<noteq> 1 then Inr (None, db)
             else
               bindE (appendEventInternal (sc_taskId schedule) (sc_agentId schedule) None ''ScheduleClaimed'' no_payload
                 (update_schedules which (\<lambda>s. s\<lparr>sc_state := nextState, sc_nextRunAt := nextRunAt, sc_lastClaimId := Some claimId,
                    sc_lastClaimedAt := Some claimedAt, sc_lastDeliveredAt := None\<rparr>) db)) (\<lambda>db'.
               bindE (requireSchedule (sc_id schedule) db') (\<lambda>s.
               Inr (Some \<lparr>cl_schedule = s, cl_claimId = claimId, cl_dueAt = dueAt, cl_missedCount = missedCount, cl_claimedAt = claimedAt\<rparr>, db')))))"

definition markScheduleDelivered ::
  "string \<Rightarrow> string \<Rightarrow> int \<Rightarrow> ('z) schedule_db_scheme \<Rightarrow> string + schedule_row \<times> ('z) schedule_db_scheme" where
  "markScheduleDelivered scheduleId claimId deliveredAt db =
     bindE (requireSchedule scheduleId db) (\<lambda>schedule.
     bindE (guardE (sc_lastClaimId schedule \<noteq> Some claimId) ''Schedule claim is no longer current'') (\<lambda>_.
     if sc_lastDeliveredAt schedule \<noteq> None then Inr (schedule, db)
     else
       bindE (appendEventInternal (sc_taskId schedule) (sc_agentId schedule) None ''ScheduleDelivered'' no_payload
         (update_schedules (\<lambda>s. sc_id s = scheduleId \<and> sc_lastClaimId s = Some claimId) (\<lambda>s. s\<lparr>sc_lastDeliveredAt := Some deliveredAt\<rparr>) db)) (\<lambda>db'.
       bindE (requireSchedule scheduleId db') (\<lambda>s. Inr (s, db')))))"

definition transitionSchedule ::
  "string \<Rightarrow> schedule_state \<Rightarrow> ('z) schedule_db_scheme \<Rightarrow> string + schedule_row \<times> ('z) schedule_db_scheme" where
  "transitionSchedule scheduleId st db =
     bindE (requireSchedule scheduleId db) (\<lambda>schedule.
     bindE (guardE (sc_state schedule = ScheduleCompleted \<or> sc_state schedule = ScheduleCancelled)
       (''Schedule cannot transition from '' @ (if sc_state schedule = ScheduleCompleted then ''completed'' else ''cancelled''))) (\<lambda>_.
     let db' = update_schedules (\<lambda>s. sc_id s = scheduleId) (\<lambda>s. s\<lparr>sc_state := st\<rparr>) db in
     bindE (requireSchedule scheduleId db') (\<lambda>s. Inr (s, db'))))"

section \<open>Event schedules\<close>

text \<open>
  \<open>created taskId seq\<close> is the \<open>created_at\<close> column of the event with that number; events are never
  changed once appended.
\<close>

definition like_schedule :: "string \<Rightarrow> bool" where
  "like_schedule ty = (take 8 (map lower_char ty) = ''schedule'')"

definition triggers :: "schedule_row \<Rightarrow> event_row \<Rightarrow> bool" where
  "triggers s e \<longleftrightarrow> ev_taskId e = sc_taskId s \<and> ev_seq e > sc_lastEventSeq s \<and>
     sc_kind s = EventSchedule \<and> sc_state s = ScheduleActive \<and>
     (sc_expression s = ''*'' \<or> sc_expression s = ev_type e) \<and> \<not> like_schedule (ev_type e) \<and>
     (sc_agentId s = None \<or> sc_agentId s = ev_agentId e)"

definition listPendingEventScheduleTriggers ::
  "(string \<Rightarrow> nat \<Rightarrow> int) \<Rightarrow> nat \<Rightarrow> ('z) schedule_db_scheme \<Rightarrow> (schedule_row \<times> event_row) list" where
  "listPendingEventScheduleTriggers created limit db =
     take limit (sort_iso (\<lambda>(s, e). created (ev_taskId e) (ev_seq e)) (sort_key (\<lambda>(s, e). ev_seq e) (sort_iso (\<lambda>(s, e). sc_createdAt s)
       (filter (\<lambda>(s, e). triggers s e) (List.product (db_schedules db) (db_events db))))))"

definition claimEventSchedule ::
  "(string \<Rightarrow> nat \<Rightarrow> int) \<Rightarrow> string \<Rightarrow> schedule_row \<times> event_row \<Rightarrow> int \<Rightarrow> ('z) schedule_db_scheme
    \<Rightarrow> string + schedule_claim option \<times> ('z) schedule_db_scheme" where
  "claimEventSchedule created claimId trigger claimedAt db =
     (let event = snd trigger in
      case getSchedule (sc_id (fst trigger)) db of
        None \<Rightarrow> Inr (None, db)
      | Some schedule \<Rightarrow>
          if sc_kind schedule \<noteq> EventSchedule \<or> sc_state schedule \<noteq> ScheduleActive \<or> sc_lastEventSeq schedule \<ge> ev_seq event
          then Inr (None, db)
          else
            (let which = (\<lambda>s. sc_id s = sc_id schedule \<and> sc_kind s = EventSchedule \<and> sc_state s = ScheduleActive \<and>
                   sc_lastEventSeq s < ev_seq event) in
             if length (filter which (db_schedules db)) \<noteq> 1 then Inr (None, db)
             else
               bindE (appendEventInternal (sc_taskId schedule) (sc_agentId schedule) None ''ScheduleEventClaimed'' no_payload
                 (update_schedules which (\<lambda>s. s\<lparr>sc_lastEventSeq := ev_seq event, sc_lastClaimId := Some claimId,
                    sc_lastClaimedAt := Some claimedAt, sc_lastDeliveredAt := None\<rparr>) db)) (\<lambda>db'.
               bindE (requireSchedule (sc_id schedule) db') (\<lambda>s.
               Inr (Some \<lparr>cl_schedule = s, cl_claimId = claimId, cl_dueAt = created (ev_taskId event) (ev_seq event), cl_missedCount = 1,
                 cl_claimedAt = claimedAt\<rparr>, db')))))"

section \<open>The engine\<close>

definition engine_create ::
  "schedule_env \<Rightarrow> int \<Rightarrow> string \<Rightarrow> string \<Rightarrow> string option \<Rightarrow> schedule_kind \<Rightarrow> string \<Rightarrow> string \<Rightarrow> string
    \<Rightarrow> ('z) schedule_db_scheme \<Rightarrow> string + schedule_row \<times> ('z) schedule_db_scheme" where
  "engine_create env now newId taskId agentId kind expression tz payload db =
     bindE (firstScheduleRun env kind expression tz now) (\<lambda>nextRunAt.
     createSchedule now newId taskId agentId kind expression tz payload nextRunAt db)"

text \<open>
  The loops of \<open>claimDue\<close> and \<open>claimEvents\<close>: the claims made, the exception that ended the loop, if
  any, and the tables. Every claim is a transaction of its own, so claims made before an exception
  stay. \<open>ids\<close> supplies the random claim ids.
\<close>

fun claim_due_loop ::
  "schedule_env \<Rightarrow> (string \<Rightarrow> string) \<Rightarrow> int \<Rightarrow> (schedule_row \<Rightarrow> bool) \<Rightarrow> schedule_row list \<Rightarrow> ('z) schedule_db_scheme
    \<Rightarrow> schedule_claim list \<times> (string + unit) \<times> ('z) schedule_db_scheme" where
  "claim_due_loop env ids now eligible [] db = ([], Inr (), db)"
| "claim_due_loop env ids now eligible (s # ss) db =
     (case (if eligible s then sc_nextRunAt s else None) of
        None \<Rightarrow> claim_due_loop env ids now eligible ss db
      | Some due \<Rightarrow>
          (case bindE (nextAfterClaim env s now) (\<lambda>(nextRunAt, missedCount).
                  claimSchedule (ids (sc_id s)) (sc_id s) due now nextRunAt missedCount db) of
             Inl e \<Rightarrow> ([], Inl e, db)
           | Inr (None, db') \<Rightarrow> claim_due_loop env ids now eligible ss db'
           | Inr (Some claim, db') \<Rightarrow>
               (case claim_due_loop env ids now eligible ss db' of (claims, r, d) \<Rightarrow> (claim # claims, r, d))))"

definition claimDue ::
  "schedule_env \<Rightarrow> (string \<Rightarrow> string) \<Rightarrow> int \<Rightarrow> nat \<Rightarrow> (schedule_row \<Rightarrow> bool) \<Rightarrow> ('z) schedule_db_scheme
    \<Rightarrow> (string + schedule_claim list) \<times> ('z) schedule_db_scheme" where
  "claimDue env ids now limit eligible db =
     (case claim_due_loop env ids now eligible (listDueSchedules now limit db) db of
        (claims, r, d) \<Rightarrow> (bindE r (\<lambda>_. Inr claims), d))"

fun claim_events_loop ::
  "(string \<Rightarrow> nat \<Rightarrow> int) \<Rightarrow> (string \<Rightarrow> string) \<Rightarrow> int \<Rightarrow> (schedule_row \<Rightarrow> bool) \<Rightarrow> string list \<Rightarrow> (schedule_row \<times> event_row) list
    \<Rightarrow> ('z) schedule_db_scheme \<Rightarrow> (schedule_claim \<times> nat) list \<times> (string + unit) \<times> ('z) schedule_db_scheme" where
  "claim_events_loop created ids now eligible claimed [] db = ([], Inr (), db)"
| "claim_events_loop created ids now eligible claimed (t # ts) db =
     (if sc_id (fst t) \<in> set claimed \<or> \<not> eligible (fst t) then claim_events_loop created ids now eligible claimed ts db
      else
        (case claimEventSchedule created (ids (sc_id (fst t))) t now db of
           Inl e \<Rightarrow> ([], Inl e, db)
         | Inr (None, db') \<Rightarrow> claim_events_loop created ids now eligible claimed ts db'
         | Inr (Some claim, db') \<Rightarrow>
             (case claim_events_loop created ids now eligible (sc_id (fst t) # claimed) ts db' of
                (claims, r, d) \<Rightarrow> ((claim, ev_seq (snd t)) # claims, r, d))))"

definition claimEvents ::
  "(string \<Rightarrow> nat \<Rightarrow> int) \<Rightarrow> (string \<Rightarrow> string) \<Rightarrow> int \<Rightarrow> nat \<Rightarrow> (schedule_row \<Rightarrow> bool) \<Rightarrow> ('z) schedule_db_scheme
    \<Rightarrow> (string + schedule_claim list) \<times> ('z) schedule_db_scheme" where
  "claimEvents created ids now limit eligible db =
     (case claim_events_loop created ids now eligible [] (listPendingEventScheduleTriggers created limit db) db of
        (claims, r, d) \<Rightarrow> (bindE r (\<lambda>_. Inr (map fst claims)), d))"

text \<open>
  Delivering claims one by one: \<open>deliver\<close> is the caller's handler, which may change the tables and says
  whether the claim was delivered; \<open>clock\<close> reads the time after it.
\<close>

definition deliver_claims ::
  "(schedule_claim \<Rightarrow> ('z) schedule_db_scheme \<Rightarrow> bool \<times> ('z) schedule_db_scheme) \<Rightarrow> (schedule_claim \<Rightarrow> int) \<Rightarrow> schedule_claim list
    \<Rightarrow> ('z) schedule_db_scheme \<Rightarrow> string + ('z) schedule_db_scheme" where
  "deliver_claims deliver clock claims db =
     foldE (\<lambda>claim d. case deliver claim d of
         (False, d1) \<Rightarrow> Inr d1
       | (True, d1) \<Rightarrow> bindE (markScheduleDelivered (sc_id (cl_schedule claim)) (cl_claimId claim) (clock claim) d1) (\<lambda>x. Inr (snd x)))
       claims db"

definition deliverDue ::
  "schedule_env \<Rightarrow> (string \<Rightarrow> string) \<Rightarrow> int \<Rightarrow> nat \<Rightarrow> (schedule_row \<Rightarrow> bool)
    \<Rightarrow> (schedule_claim \<Rightarrow> ('z) schedule_db_scheme \<Rightarrow> bool \<times> ('z) schedule_db_scheme) \<Rightarrow> (schedule_claim \<Rightarrow> int)
    \<Rightarrow> ('z) schedule_db_scheme \<Rightarrow> string + schedule_claim list \<times> ('z) schedule_db_scheme" where
  "deliverDue env ids now limit eligible deliver clock db =
     (case claimDue env ids now limit eligible db of
        (claims, d) \<Rightarrow> bindE claims (\<lambda>cs. bindE (deliver_claims deliver clock cs d) (\<lambda>d'. Inr (cs, d'))))"

definition deliverEvents ::
  "(string \<Rightarrow> nat \<Rightarrow> int) \<Rightarrow> (string \<Rightarrow> string) \<Rightarrow> int \<Rightarrow> nat \<Rightarrow> (schedule_row \<Rightarrow> bool)
    \<Rightarrow> (schedule_claim \<Rightarrow> ('z) schedule_db_scheme \<Rightarrow> bool \<times> ('z) schedule_db_scheme) \<Rightarrow> (schedule_claim \<Rightarrow> int)
    \<Rightarrow> ('z) schedule_db_scheme \<Rightarrow> string + schedule_claim list \<times> ('z) schedule_db_scheme" where
  "deliverEvents created ids now limit eligible deliver clock db =
     (case claimEvents created ids now limit eligible db of
        (claims, d) \<Rightarrow> bindE claims (\<lambda>cs. bindE (deliver_claims deliver clock cs d) (\<lambda>d'. Inr (cs, d'))))"

section \<open>Intervals\<close>

lemma interval_positive: "parseScheduleInterval e = Inr n \<Longrightarrow> 1000 \<le> n \<and> n \<le> 2 ^ 53 - 1"
  by (auto simp: parseScheduleInterval_def usable_interval_def split: option.splits if_splits)

text \<open>
  When a due interval schedule is claimed, its next run lies in the future, at most one interval
  ahead, on the grid of its former due time, and the reported count of missed runs is the number of
  grid times from the due time up to now.
\<close>
theorem interval_next_on_grid:
  assumes "nextAfterClaim env s now = Inr (next, missed)" and "sc_kind s = IntervalSchedule" and "sc_nextRunAt s = Some due"
    and "due \<le> now"
  shows "\<exists>n t. parseScheduleInterval (sc_expression s) = Inr n \<and> next = Some t \<and> now < t \<and> t \<le> now + int n \<and> int n dvd t - due \<and>
    missed = card {k :: nat. due + int k * int n \<le> now}"
proof -
  from assms obtain n where n: "parseScheduleInterval (sc_expression s) = Inr n"
    and r: "next = Some (due + (max 1 ((now - due) div int n + 1)) * int n)" "missed = nat (max 1 ((now - due) div int n + 1))"
    by (auto simp: nextAfterClaim_def bindE_eq_Inr Let_def toISOString_def)
  have pos: "0 < int n" using interval_positive [OF n] by simp
  define q where "q = (now - due) div int n"
  define rest where "rest = (now - due) mod int n"
  have e: "q * int n + rest = now - due" "0 \<le> rest" "rest < int n" using pos by (simp_all add: q_def rest_def)
  have q: "0 \<le> q" "q * int n \<le> now - due" "now - due < (q + 1) * int n"
    using pos assms(4) e by (simp_all add: q_def pos_imp_zdiv_nonneg_iff distrib_right)
  have "{k :: nat. due + int k * int n \<le> now} = {..nat q}"
  proof (intro set_eqI iffI)
    fix k assume "k \<in> {k :: nat. due + int k * int n \<le> now}"
    then have "int k * int n < (q + 1) * int n" using q(3) by simp
    then have "int k < q + 1" using pos by (simp only: mult_less_cancel_right)
    then show "k \<in> {..nat q}" using q(1) by simp
  next
    fix k assume "k \<in> {..nat q}"
    then have "int k * int n \<le> q * int n" using q(1) pos by (intro mult_right_mono) auto
    then show "k \<in> {k :: nat. due + int k * int n \<le> now}" using q(2) by simp
  qed
  then have "missed = card {k :: nat. due + int k * int n \<le> now}" using r(2) q(1) by (simp add: q_def [symmetric] nat_add_distrib)
  moreover have "next = Some (due + (q + 1) * int n)" using r(1) q(1) by (simp add: q_def [symmetric])
  ultimately show ?thesis using n q by (auto simp: algebra_simps)
qed

section \<open>Every due time and every event is claimed once\<close>

definition plain_year :: "int \<Rightarrow> bool" where
  "plain_year t \<longleftrightarrow> 0 \<le> year_of t \<and> year_of t \<le> 9999"

text \<open>What the engine relies on: the next run of a cron expression lies after the time it is asked for.\<close>

definition cron_forward :: "schedule_env \<Rightarrow> bool" where
  "cron_forward env \<longleftrightarrow> (\<forall>e tz t n. en_cron_next env e tz t = Inr (Some n) \<longrightarrow> t < n \<and> plain_year n)"

lemma iso_le_plain: "iso_le s t \<Longrightarrow> plain_year s \<Longrightarrow> 0 \<le> year_of t \<Longrightarrow> s \<le> t"
  by (auto simp: iso_le_def key_le_def iso_key_def plain_year_def Let_def split: if_splits)

interpretation ev_schedules: event_frame db_schedules
  by unfold_locales simp

lemma getSchedule_event: "appendEventInternal t a i ty pl db = Inr d \<Longrightarrow> getSchedule j d = getSchedule j (db :: ('z) schedule_db_scheme)"
  by (simp add: getSchedule_def ev_schedules.event_keeps)

lemma getSchedule_update:
  assumes "\<And>s. sc_id (f s) = sc_id s"
  shows "getSchedule i (update_schedules which f db) = map_option (\<lambda>s. if which s then f s else s) (getSchedule i db)"
proof -
  have "find (\<lambda>s. sc_id s = i) (map (\<lambda>s. if which s then f s else s) xs) =
      map_option (\<lambda>s. if which s then f s else s) (find (\<lambda>s. sc_id s = i) xs)" for xs
    by (induction xs) (auto simp: assms)
  then show ?thesis by (simp add: getSchedule_def update_schedules_def)
qed

lemma getSchedule_mem: "getSchedule i db = Some s \<Longrightarrow> s \<in> set (db_schedules db) \<and> sc_id s = i"
  by (auto simp: getSchedule_def find_Some_iff in_set_conv_nth)

lemma getSchedule_distinct:
  "distinct (map sc_id (db_schedules db)) \<Longrightarrow> s \<in> set (db_schedules db) \<Longrightarrow> getSchedule (sc_id s) db = Some s"
proof -
  have "distinct (map sc_id xs) \<Longrightarrow> s \<in> set xs \<Longrightarrow> find (\<lambda>x. sc_id x = sc_id s) xs = Some s" for xs
    by (induction xs) force+
  then show "distinct (map sc_id (db_schedules db)) \<Longrightarrow> s \<in> set (db_schedules db) \<Longrightarrow> getSchedule (sc_id s) db = Some s"
    by (simp add: getSchedule_def)
qed

text \<open>One schedule being another version of the same: its definition never changes.\<close>

definition same_schedule :: "schedule_row \<Rightarrow> schedule_row \<Rightarrow> bool" where
  "same_schedule s s' \<longleftrightarrow> sc_id s' = sc_id s \<and> sc_taskId s' = sc_taskId s \<and> sc_kind s' = sc_kind s \<and>
     sc_expression s' = sc_expression s \<and> sc_timezone s' = sc_timezone s"

definition schedules_ok :: "(string \<times> int) list \<Rightarrow> (string \<times> nat) list \<Rightarrow> ('z) schedule_db_scheme \<Rightarrow> bool" where
  "schedules_ok C E db \<longleftrightarrow> distinct (map sc_id (db_schedules db)) \<and> distinct C \<and> distinct E \<and>
     (\<forall>i d. (i, d) \<in> set C \<longrightarrow> (\<exists>s. getSchedule i db = Some s \<and> (\<forall>t. sc_nextRunAt s = Some t \<longrightarrow> d < t))) \<and>
     (\<forall>i n. (i, n) \<in> set E \<longrightarrow> (\<exists>s. getSchedule i db = Some s \<and> n \<le> sc_lastEventSeq s)) \<and>
     (\<forall>s\<in>set (db_schedules db). sc_kind s = CronSchedule \<longrightarrow> (\<forall>t. sc_nextRunAt s = Some t \<longrightarrow> plain_year t))"

text \<open>
  Updating one row keeps the invariant when its definition stays, its next run and event number do not
  go back, and a new claim is older than the new next run.
\<close>

lemma schedules_ok_update:
  assumes ok: "schedules_ok C E db" and s: "getSchedule i db = Some s" and w: "which s" "\<And>x. which x \<Longrightarrow> sc_id x = i"
    and f: "\<And>x. same_schedule x (f x)"
    and C': "distinct C'" "\<And>j d. (j, d) \<in> set C' \<Longrightarrow> (j, d) \<in> set C \<or> j = i"
      "\<And>d t. (i, d) \<in> set C' \<Longrightarrow> sc_nextRunAt (f s) = Some t \<Longrightarrow> d < t"
    and E': "distinct E'" "\<And>j n. (j, n) \<in> set E' \<Longrightarrow> (j, n) \<in> set E \<or> j = i" "\<And>n. (i, n) \<in> set E' \<Longrightarrow> n \<le> sc_lastEventSeq (f s)"
    and cron: "\<And>t. sc_kind s = CronSchedule \<Longrightarrow> sc_nextRunAt (f s) = Some t \<Longrightarrow> plain_year t"
    and d: "db_schedules d = db_schedules (update_schedules which f db)"
  shows "schedules_ok C' E' d"
proof -
  let ?g = "\<lambda>x. if which x then f x else x"
  have get: "getSchedule j d = map_option ?g (getSchedule j db)" for j
    using getSchedule_update [of f j which db] f d by (simp add: same_schedule_def getSchedule_def)
  have other: "getSchedule j d = getSchedule j db" if "j \<noteq> i" for j
    using that w(2) by (cases "getSchedule j db") (auto simp: get dest: getSchedule_mem)
  have here: "getSchedule i d = Some (f s)" using get s w(1) by simp
  have rows: "x = s" if "x \<in> set (db_schedules db)" "which x" for x
    using that w(2) getSchedule_distinct [of db x] s ok by (auto simp: schedules_ok_def)
  have "\<forall>x\<in>set (db_schedules d). sc_kind x = CronSchedule \<longrightarrow> (\<forall>t. sc_nextRunAt x = Some t \<longrightarrow> plain_year t)"
    using ok rows cron f by (auto simp: d update_schedules_def schedules_ok_def same_schedule_def)
  moreover have "map sc_id (db_schedules d) = map sc_id (db_schedules db)"
    using f by (auto simp: d update_schedules_def same_schedule_def)
  moreover have "\<exists>x. getSchedule j d = Some x \<and> (\<forall>t. sc_nextRunAt x = Some t \<longrightarrow> e < t)" if "(j, e) \<in> set C'" for j e
    using that C'(2) [OF that] C'(3) ok here other by (cases "j = i") (auto simp: schedules_ok_def)
  moreover have "\<exists>x. getSchedule j d = Some x \<and> n \<le> sc_lastEventSeq x" if "(j, n) \<in> set E'" for j n
    using that E'(2) [OF that] E'(3) ok here other by (cases "j = i") (auto simp: schedules_ok_def)
  ultimately show ?thesis using ok C'(1) E'(1) by (auto simp: schedules_ok_def)
qed

lemma schedules_okD:
  assumes "schedules_ok C E db" and "getSchedule i db = Some s"
  shows "(i, e) \<in> set C \<Longrightarrow> sc_nextRunAt s = Some t \<Longrightarrow> e < t" "(i, n) \<in> set E \<Longrightarrow> n \<le> sc_lastEventSeq s"
  using assms by (fastforce simp: schedules_ok_def)+

lemma schedules_ok_same: "db_schedules d = db_schedules db \<Longrightarrow> schedules_ok C E db \<Longrightarrow> schedules_ok C E d"
  by (simp add: schedules_ok_def getSchedule_def)

lemma filter_one:
  assumes "length (filter P xs) = 1" and "x \<in> set xs" "P x" and "y \<in> set xs" "P y"
  shows "x = y"
proof -
  from assms(1) obtain z where "filter P xs = [z]" by (auto simp: length_Suc_conv)
  then have "set (filter P xs) = {z}" by simp
  moreover have "x \<in> set (filter P xs)" "y \<in> set (filter P xs)" using assms(2-) by simp_all
  ultimately show ?thesis by simp
qed

text \<open>Claiming a due time: what a successful claim changed, and that the next run is later.\<close>

definition claimed_row :: "string \<Rightarrow> int \<Rightarrow> int option \<Rightarrow> schedule_row \<Rightarrow> schedule_row" where
  "claimed_row claimId claimedAt next s = s\<lparr>sc_state := (if sc_kind s = OnceSchedule then ScheduleCompleted else ScheduleActive),
     sc_nextRunAt := next, sc_lastClaimId := Some claimId, sc_lastClaimedAt := Some claimedAt, sc_lastDeliveredAt := None\<rparr>"

definition claimable :: "string \<Rightarrow> int \<Rightarrow> schedule_row \<Rightarrow> bool" where
  "claimable i due s \<longleftrightarrow> sc_id s = i \<and> sc_state s = ScheduleActive \<and> sc_nextRunAt s = Some due"

lemma claimSchedule_None: "claimSchedule cid i due now next missed db = Inr (None, d) \<Longrightarrow> d = db"
  by (auto simp: claimSchedule_def bindE_eq_Inr Let_def split: option.splits if_splits)

lemma claimSchedule_Some:
  assumes "claimSchedule cid i due now next missed db = Inr (Some c, d)"
  obtains s where "getSchedule i db = Some s" "claimable i due s" "sc_id (cl_schedule c) = i" "cl_dueAt c = due"
    "db_schedules d = db_schedules (update_schedules (claimable i due) (claimed_row cid now next) db)"
proof -
  from assms obtain s where s: "getSchedule i db = Some s" "sc_state s = ScheduleActive" "sc_nextRunAt s = Some due"
    by (auto simp: claimSchedule_def Let_def split: option.splits if_splits)
  let ?which = "\<lambda>x. sc_id x = sc_id s \<and> sc_state x = ScheduleActive \<and> sc_nextRunAt x = Some due"
  let ?f = "\<lambda>x. x\<lparr>sc_state := (if sc_kind s = OnceSchedule then ScheduleCompleted else ScheduleActive), sc_nextRunAt := next,
    sc_lastClaimId := Some cid, sc_lastClaimedAt := Some now, sc_lastDeliveredAt := None\<rparr>"
  from assms s have one: "length (filter ?which (db_schedules db)) = 1"
    and ev: "appendEventInternal (sc_taskId s) (sc_agentId s) None ''ScheduleClaimed'' no_payload (update_schedules ?which ?f db) = Inr d"
    and cl: "\<exists>s'. requireSchedule (sc_id s) d = Inr s' \<and> cl_schedule c = s' \<and> cl_dueAt c = due"
    by (auto simp: claimSchedule_def bindE_eq_Inr Let_def split: if_splits)
  have id: "sc_id s = i" using getSchedule_mem [OF s(1)] by simp
  have uniq: "x = s" if "?which x" "x \<in> set (db_schedules db)" for x
    by (rule filter_one [OF one]) (use that getSchedule_mem [OF s(1)] s(2,3) in auto)
  have "db_schedules d = db_schedules (update_schedules (claimable i due) (claimed_row cid now next) db)"
    unfolding ev_schedules.event_keeps [OF ev] using uniq by (auto simp: update_schedules_def claimed_row_def claimable_def id)
  moreover have "sc_id (cl_schedule c) = i" "cl_dueAt c = due"
    using cl id by (auto simp: requireSchedule_def split: option.splits dest: getSchedule_mem)
  ultimately show thesis using s id by (intro that [of s]) (simp_all add: claimable_def)
qed

lemma next_run_later:
  assumes "nextAfterClaim env s now = Inr (Some t, missed)" and "sc_nextRunAt s = Some due" and "cron_forward env"
    and "sc_kind s = CronSchedule \<Longrightarrow> due \<le> now"
  shows "due < t \<and> (sc_kind s = CronSchedule \<longrightarrow> plain_year t)"
proof (cases "sc_kind s")
  case IntervalSchedule
  with assms(1,2) obtain n where n: "parseScheduleInterval (sc_expression s) = Inr n"
    and t: "t = due + max 1 ((now - due) div int n + 1) * int n"
    by (auto simp: nextAfterClaim_def bindE_eq_Inr Let_def toISOString_def)
  have "1 * int n \<le> max 1 ((now - due) div int n + 1) * int n" by (rule mult_right_mono) simp_all
  then show ?thesis using t interval_positive [OF n] IntervalSchedule by simp
next
  case CronSchedule
  with assms have "now < t" "plain_year t"
    by (auto simp: nextAfterClaim_def bindE_eq_Inr toISOString_def cron_forward_def split: option.splits)
  then show ?thesis using assms(4) CronSchedule by simp
qed (use assms in \<open>auto simp: nextAfterClaim_def\<close>)

text \<open>A loop over a list read earlier: each listed schedule is still in the table with the same definition.\<close>

definition listed :: "schedule_row \<Rightarrow> ('z) schedule_db_scheme \<Rightarrow> bool" where
  "listed s db \<longleftrightarrow> (\<exists>s'. getSchedule (sc_id s) db = Some s' \<and> same_schedule s s')"

lemma listed_update:
  assumes "listed x db" and "\<And>s. same_schedule s (f s)" and "db_schedules d = db_schedules (update_schedules which f db)"
  shows "listed x d"
proof -
  have "getSchedule (sc_id x) d = map_option (\<lambda>s. if which s then f s else s) (getSchedule (sc_id x) db)"
    using getSchedule_update [of f _ which db] assms(2,3) by (simp add: same_schedule_def getSchedule_def)
  moreover from assms(1) obtain s' where "getSchedule (sc_id x) db = Some s'" "same_schedule x s'" by (auto simp: listed_def)
  ultimately show ?thesis using assms(2) unfolding listed_def
    by (intro exI [of _ "if which s' then f s' else s'"]) (auto simp: same_schedule_def)
qed

lemma claimed_row_same: "same_schedule s (claimed_row c now n s)"
  by (simp add: same_schedule_def claimed_row_def)

lemma next_same_schedule:
  "same_schedule s s' \<Longrightarrow> sc_nextRunAt s' = sc_nextRunAt s \<Longrightarrow> nextAfterClaim env s' now = nextAfterClaim env s now"
  by (cases "sc_nextRunAt s"; cases "sc_kind s") (simp_all add: nextAfterClaim_def same_schedule_def)

lemma due_claim_ok:
  assumes ok: "schedules_ok C E db" and cl: "claimSchedule cid (sc_id s) due now next missed db = Inr (Some c, d)"
    and n: "nextAfterClaim env s now = Inr (next, missed)" "sc_nextRunAt s = Some due" and s: "listed s db"
    and env: "cron_forward env" "0 \<le> year_of now" "iso_le due now"
  shows "schedules_ok ((sc_id (cl_schedule c), cl_dueAt c) # C) E d"
proof -
  from cl obtain s' where s': "getSchedule (sc_id s) db = Some s'" "claimable (sc_id s) due s'"
      "sc_id (cl_schedule c) = sc_id s" "cl_dueAt c = due"
      "db_schedules d = db_schedules (update_schedules (claimable (sc_id s) due) (claimed_row cid now next) db)" by (rule claimSchedule_Some)
  have due: "sc_nextRunAt s' = Some due" using s'(2) by (simp add: claimable_def)
  have same: "same_schedule s s'" using s s'(1) by (auto simp: listed_def)
  then have nx: "nextAfterClaim env s' now = Inr (next, missed)" using next_same_schedule [OF same] n due by simp
  have mem: "s' \<in> set (db_schedules db)" using getSchedule_mem [OF s'(1)] by simp
  have cron: "due \<le> now" if "sc_kind s' = CronSchedule"
  proof (rule iso_le_plain [OF env(3) _ env(2)])
    show "plain_year due" using ok mem that due by (auto simp: schedules_ok_def)
  qed
  have later: "due < t \<and> (sc_kind s' = CronSchedule \<longrightarrow> plain_year t)" if "next = Some t" for t
    using next_run_later [OF _ due env(1), of now t missed] nx that cron by simp
  have old: "e < due" if "(sc_id s, e) \<in> set C" for e using schedules_okD(1) [OF ok s'(1) that due] .
  show ?thesis unfolding s'(3,4)
  proof (rule schedules_ok_update [OF ok s'(1,2) _ claimed_row_same _ _ _ _ _ _ _ s'(5)])
    show "distinct ((sc_id s, due) # C)" using ok old by (auto simp: schedules_ok_def)
    show "e < t" if "(sc_id s, e) \<in> set ((sc_id s, due) # C)" "sc_nextRunAt (claimed_row cid now next s') = Some t" for e t
      using that old later by (auto simp: claimed_row_def intro: less_trans)
    show "plain_year t" if "sc_kind s' = CronSchedule" "sc_nextRunAt (claimed_row cid now next s') = Some t" for t
      using that later by (simp add: claimed_row_def)
    show "k \<le> sc_lastEventSeq (claimed_row cid now next s')" if "(sc_id s, k) \<in> set E" for k
      using schedules_okD(2) [OF ok s'(1) that] by (simp add: claimed_row_def)
  qed (use ok in \<open>auto simp: schedules_ok_def claimable_def\<close>)
qed

abbreviation due_keys :: "schedule_claim list \<Rightarrow> (string \<times> int) list" where
  "due_keys cs \<equiv> rev (map (\<lambda>c. (sc_id (cl_schedule c), cl_dueAt c)) cs)"

lemma due_loop_ok:
  assumes "claim_due_loop env ids now eligible ss db = (cs, r, d)" and "schedules_ok C E db" and "cron_forward env" "0 \<le> year_of now"
    and "\<And>s. s \<in> set ss \<Longrightarrow> listed s db \<and> (\<forall>t. sc_nextRunAt s = Some t \<longrightarrow> iso_le t now)"
  shows "schedules_ok (due_keys cs @ C) E d"
  using assms(1,2,5)
proof (induction ss arbitrary: db C cs)
  case (Cons s ss)
  show ?case
  proof (cases "if eligible s then sc_nextRunAt s else None")
    case None
    show ?thesis by (rule Cons.IH) (use Cons.prems None in auto)
  next
    case (Some due)
    then have due: "sc_nextRunAt s = Some due" by (simp split: if_splits)
    let ?r = "bindE (nextAfterClaim env s now) (\<lambda>(nextRunAt, missedCount).
      claimSchedule (ids (sc_id s)) (sc_id s) due now nextRunAt missedCount db)"
    show ?thesis
    proof (cases ?r)
      case (Inl e)
      with Cons.prems(1,2) Some show ?thesis by simp
    next
      case (Inr x)
      then obtain nx missed claim db' where n: "nextAfterClaim env s now = Inr (nx, missed)" and x: "x = (claim, db')"
        and cl: "claimSchedule (ids (sc_id s)) (sc_id s) due now nx missed db = Inr (claim, db')"
        by (cases x) (auto simp: bindE_eq_Inr)
      show ?thesis
      proof (cases claim)
        case None
        then have "db' = db" using claimSchedule_None cl by blast
        then have "claim_due_loop env ids now eligible ss db = (cs, r, d)" using Cons.prems(1) Some Inr x None by simp
        then show ?thesis by (rule Cons.IH) (use Cons.prems in auto)
      next
        case (Some c)
        from Cons.prems(1) \<open>(if eligible s then sc_nextRunAt s else None) = Some due\<close> Inr x Some obtain cs' where
          loop: "claim_due_loop env ids now eligible ss db' = (cs', r, d)" "cs = c # cs'"
          by (auto split: prod.splits)
        have "schedules_ok ((sc_id (cl_schedule c), cl_dueAt c) # C) E db'"
          using due_claim_ok [OF Cons.prems(2) cl [unfolded Some] n due _ assms(3,4)] Cons.prems(3) [of s] due by simp
        moreover have "listed z db'" if "z \<in> set ss" for z
          by (rule claimSchedule_Some [OF cl [unfolded Some]], rule listed_update [OF _ claimed_row_same]) (use Cons.prems(3) [of z] that in auto)
        ultimately have "schedules_ok (due_keys cs' @ (sc_id (cl_schedule c), cl_dueAt c) # C) E d"
          using Cons.IH [OF loop(1)] Cons.prems(3) by (metis list.set_intros(2))
        then show ?thesis by (simp add: loop(2))
      qed
    qed
  qed
qed simp

text \<open>Claiming an event.\<close>

definition event_claimed_row :: "string \<Rightarrow> int \<Rightarrow> nat \<Rightarrow> schedule_row \<Rightarrow> schedule_row" where
  "event_claimed_row claimId now n s = s\<lparr>sc_lastEventSeq := n, sc_lastClaimId := Some claimId,
     sc_lastClaimedAt := Some now, sc_lastDeliveredAt := None\<rparr>"

definition awaits :: "string \<Rightarrow> nat \<Rightarrow> schedule_row \<Rightarrow> bool" where
  "awaits i n s \<longleftrightarrow> sc_id s = i \<and> sc_kind s = EventSchedule \<and> sc_state s = ScheduleActive \<and> sc_lastEventSeq s < n"

lemma claimEvent_None: "claimEventSchedule created cid t now db = Inr (None, d) \<Longrightarrow> d = db"
  by (auto simp: claimEventSchedule_def bindE_eq_Inr Let_def split: option.splits if_splits)

lemma claimEvent_Some:
  assumes "claimEventSchedule created cid t now db = Inr (Some c, d)"
  obtains s where "getSchedule (sc_id (fst t)) db = Some s" "awaits (sc_id (fst t)) (ev_seq (snd t)) s" "sc_id (cl_schedule c) = sc_id (fst t)"
    "db_schedules d = db_schedules (update_schedules (awaits (sc_id (fst t)) (ev_seq (snd t))) (event_claimed_row cid now (ev_seq (snd t))) db)"
proof -
  from assms obtain s where s: "getSchedule (sc_id (fst t)) db = Some s" "sc_kind s = EventSchedule" "sc_state s = ScheduleActive"
      "sc_lastEventSeq s < ev_seq (snd t)"
    by (auto simp: claimEventSchedule_def Let_def split: option.splits if_splits)
  have id: "sc_id s = sc_id (fst t)" using getSchedule_mem [OF s(1)] by simp
  from assms s obtain s' where
    ev: "appendEventInternal (sc_taskId s) (sc_agentId s) None ''ScheduleEventClaimed'' no_payload
      (update_schedules (awaits (sc_id (fst t)) (ev_seq (snd t))) (event_claimed_row cid now (ev_seq (snd t))) db) = Inr d"
    and cl: "requireSchedule (sc_id s) d = Inr s'" "cl_schedule c = s'"
    by (auto simp: claimEventSchedule_def bindE_eq_Inr Let_def id awaits_def [abs_def] event_claimed_row_def [abs_def] split: if_splits)
  have "sc_id (cl_schedule c) = sc_id (fst t)"
    using cl id by (auto simp: requireSchedule_def split: option.splits dest: getSchedule_mem)
  then show thesis using s id ev_schedules.event_keeps [OF ev] by (intro that [of s]) (simp_all add: awaits_def)
qed

lemma event_claimed_same: "same_schedule s (event_claimed_row c now n s)"
  by (simp add: same_schedule_def event_claimed_row_def)

lemma event_claim_ok:
  assumes ok: "schedules_ok C E db" and cl: "claimEventSchedule created cid t now db = Inr (Some c, d)"
  shows "schedules_ok C ((sc_id (cl_schedule c), ev_seq (snd t)) # E) d"
proof -
  from cl obtain s where s: "getSchedule (sc_id (fst t)) db = Some s" "awaits (sc_id (fst t)) (ev_seq (snd t)) s" "sc_id (cl_schedule c) = sc_id (fst t)"
    "db_schedules d = db_schedules (update_schedules (awaits (sc_id (fst t)) (ev_seq (snd t))) (event_claimed_row cid now (ev_seq (snd t))) db)"
    by (rule claimEvent_Some)
  have old: "k < ev_seq (snd t)" if "(sc_id (fst t), k) \<in> set E" for k
    using schedules_okD(2) [OF ok s(1) that] s(2) by (simp add: awaits_def)
  show ?thesis unfolding s(3)
  proof (rule schedules_ok_update [OF ok s(1,2) _ event_claimed_same _ _ _ _ _ _ _ s(4)])
    show "distinct ((sc_id (fst t), ev_seq (snd t)) # E)" using ok old by (auto simp: schedules_ok_def)
    show "k \<le> sc_lastEventSeq (event_claimed_row cid now (ev_seq (snd t)) s)" if "(sc_id (fst t), k) \<in> set ((sc_id (fst t), ev_seq (snd t)) # E)" for k
      using that old by (auto simp: event_claimed_row_def intro: less_imp_le)
    show "e < u" if "(sc_id (fst t), e) \<in> set C" "sc_nextRunAt (event_claimed_row cid now (ev_seq (snd t)) s) = Some u" for e u
      using schedules_okD(1) [OF ok s(1) that(1)] that(2) by (simp add: event_claimed_row_def)
    show "plain_year u" if "sc_kind s = CronSchedule" "sc_nextRunAt (event_claimed_row cid now (ev_seq (snd t)) s) = Some u" for u
      using that s(2) by (simp add: awaits_def)
  qed (use ok in \<open>auto simp: schedules_ok_def awaits_def\<close>)
qed

abbreviation event_keys :: "(schedule_claim \<times> nat) list \<Rightarrow> (string \<times> nat) list" where
  "event_keys cs \<equiv> rev (map (\<lambda>(c, n). (sc_id (cl_schedule c), n)) cs)"

lemma events_loop_ok:
  "claim_events_loop created ids now eligible claimed ts db = (cs, r, d) \<Longrightarrow> schedules_ok C E db \<Longrightarrow> schedules_ok C (event_keys cs @ E) d"
proof (induction ts arbitrary: claimed db E cs)
  case (Cons t ts)
  show ?case
  proof (cases "sc_id (fst t) \<in> set claimed \<or> \<not> eligible (fst t)")
    case True
    show ?thesis by (rule Cons.IH) (use Cons.prems True in auto)
  next
    case go: False
    show ?thesis
    proof (cases "claimEventSchedule created (ids (sc_id (fst t))) t now db")
      case (Inl e)
      with Cons.prems go show ?thesis by simp
    next
      case (Inr x)
      then obtain claim db' where cl: "claimEventSchedule created (ids (sc_id (fst t))) t now db = Inr (claim, db')" by (cases x) auto
      show ?thesis
      proof (cases claim)
        case None
        then have "db' = db" using claimEvent_None cl by blast
        then have "claim_events_loop created ids now eligible claimed ts db = (cs, r, d)" using Cons.prems(1) go cl None by simp
        then show ?thesis by (rule Cons.IH) (rule Cons.prems(2))
      next
        case (Some c)
        from Cons.prems(1) go cl Some obtain cs' where
          loop: "claim_events_loop created ids now eligible (sc_id (fst t) # claimed) ts db' = (cs', r, d)" "cs = (c, ev_seq (snd t)) # cs'"
          by (auto split: prod.splits)
        have "schedules_ok C (event_keys cs' @ (sc_id (cl_schedule c), ev_seq (snd t)) # E) d"
          by (rule Cons.IH [OF loop(1) event_claim_ok [OF Cons.prems(2) cl [unfolded Some]]])
        then show ?thesis by (simp add: loop(2))
      qed
    qed
  qed
qed simp

text \<open>
  A run of the engine: schedules are created, due times and events claimed (by loops that an exception
  may end), claims marked delivered, schedules paused, resumed and cancelled; \<open>C\<close> and \<open>E\<close> list the due
  times and the events claimed so far, newest first.
\<close>

inductive schedule_run ::
  "schedule_env \<Rightarrow> (string \<Rightarrow> nat \<Rightarrow> int) \<Rightarrow> (string \<times> int) list \<Rightarrow> (string \<times> nat) list \<Rightarrow> ('z) schedule_db_scheme \<Rightarrow> bool"
  for env created where
  run_start: "db_schedules db = [] \<Longrightarrow> schedule_run env created [] [] db"
| run_create: "schedule_run env created C E db \<Longrightarrow> engine_create env now i t a kind e tz pl db = Inr (s, d) \<Longrightarrow> schedule_run env created C E d"
| run_due: "schedule_run env created C E db \<Longrightarrow> 0 \<le> year_of now \<Longrightarrow>
    claim_due_loop env ids now eligible (listDueSchedules now limit db) db = (cs, r, d) \<Longrightarrow> schedule_run env created (due_keys cs @ C) E d"
| run_events: "schedule_run env created C E db \<Longrightarrow>
    claim_events_loop created ids now eligible [] (listPendingEventScheduleTriggers created limit db) db = (cs, r, d) \<Longrightarrow>
    schedule_run env created C (event_keys cs @ E) d"
| run_delivered: "schedule_run env created C E db \<Longrightarrow> markScheduleDelivered i cid now db = Inr (s, d) \<Longrightarrow> schedule_run env created C E d"
| run_transition: "schedule_run env created C E db \<Longrightarrow> transitionSchedule i st db = Inr (s, d) \<Longrightarrow> schedule_run env created C E d"
| run_other: "schedule_run env created C E db \<Longrightarrow> db_schedules d = db_schedules db \<Longrightarrow> schedule_run env created C E d"

lemma set_insert_iso [simp]: "set (insert_iso f x ys) = insert x (set ys)"
  by (induction ys) auto

lemma set_sort_iso [simp]: "set (sort_iso f xs) = set xs"
  unfolding sort_iso_def by (induction xs) auto

text \<open>Updates that leave next run and event number alone keep the invariant.\<close>

lemma schedules_ok_frame:
  assumes ok: "schedules_ok C E db" and d: "db_schedules d = db_schedules (update_schedules which f db)"
    and f: "\<And>s. same_schedule s (f s) \<and> sc_nextRunAt (f s) = sc_nextRunAt s \<and> sc_lastEventSeq (f s) = sc_lastEventSeq s"
  shows "schedules_ok C E d"
proof -
  have get: "getSchedule j d = map_option (\<lambda>s. if which s then f s else s) (getSchedule j db)" for j
    using getSchedule_update [of f j which db] f d by (simp add: same_schedule_def getSchedule_def)
  have ids: "map sc_id (db_schedules d) = map sc_id (db_schedules db)" using f by (auto simp: d update_schedules_def same_schedule_def)
  have "\<exists>s. getSchedule i d = Some s \<and> (\<forall>t. sc_nextRunAt s = Some t \<longrightarrow> e < t)" if "(i, e) \<in> set C" for i e
  proof -
    from ok that obtain s where s: "getSchedule i db = Some s" by (fastforce simp: schedules_ok_def)
    with schedules_okD(1) [OF ok s that] f show ?thesis by (auto simp: get)
  qed
  moreover have "\<exists>s. getSchedule i d = Some s \<and> n \<le> sc_lastEventSeq s" if "(i, n) \<in> set E" for i n
  proof -
    from ok that obtain s where s: "getSchedule i db = Some s" by (fastforce simp: schedules_ok_def)
    with schedules_okD(2) [OF ok s that] f show ?thesis by (auto simp: get)
  qed
  moreover have "\<forall>s\<in>set (db_schedules d). sc_kind s = CronSchedule \<longrightarrow> (\<forall>t. sc_nextRunAt s = Some t \<longrightarrow> plain_year t)"
    using ok f by (auto simp: d update_schedules_def schedules_ok_def same_schedule_def)
  ultimately show ?thesis using ok by (simp add: schedules_ok_def ids)
qed

lemma first_run_plain:
  "cron_forward env \<Longrightarrow> firstScheduleRun env CronSchedule e tz now = Inr (Some t) \<Longrightarrow> plain_year t"
  by (auto simp: firstScheduleRun_def bindE_eq_Inr toISOString_def cron_forward_def split: option.splits)

lemma create_appends:
  assumes "engine_create env now i t a kind e tz pl db = Inr (s, d)"
  obtains row nx where "firstScheduleRun env kind e tz now = Inr nx" "db_schedules d = db_schedules db @ [row]" "sc_id row = i"
    "i \<notin> sc_id ` set (db_schedules db)" "sc_kind row = kind" "sc_nextRunAt row = nx"
proof -
  let ?row = "\<lambda>nx. \<lparr>sc_id = i, sc_taskId = t, sc_agentId = a, sc_kind = kind, sc_expression = e, sc_timezone = tz, sc_payload = pl,
    sc_state = ScheduleActive, sc_nextRunAt = nx, sc_lastClaimId = None, sc_lastClaimedAt = None, sc_lastDeliveredAt = None,
    sc_lastEventSeq = 0, sc_createdAt = now\<rparr>"
  from assms obtain nx where nx: "firstScheduleRun env kind e tz now = Inr nx"
    and cr: "createSchedule now i t a kind e tz pl nx db = Inr (s, d)" by (auto simp: engine_create_def bindE_eq_Inr)
  from cr obtain db2 where new: "i \<notin> sc_id ` set (db_schedules db)"
    and ev: "appendEventInternal t a None ''ScheduleCreated'' no_payload (db\<lparr>db_schedules := db_schedules db @ [?row nx]\<rparr>) = Inr db2"
    and d: "d = (if kind = EventSchedule then update_schedules (\<lambda>s. sc_id s = i)
        (\<lambda>s. s\<lparr>sc_lastEventSeq := next_seq t (db\<lparr>db_schedules := db_schedules db @ [?row nx]\<rparr>)\<rparr>) db2 else db2)"
    by (cases "kind = EventSchedule") (auto simp: createSchedule_def bindE_eq_Inr Let_def list_ex_iff image_iff)
  have db2: "db_schedules db2 = db_schedules db @ [?row nx]" using ev_schedules.event_keeps [OF ev] by simp
  have old: "map (\<lambda>s. if sc_id s = i then f s else s) (db_schedules db) = db_schedules db" for f
    using new by (intro map_idI) auto
  show thesis
    by (rule that [OF nx, of "if kind = EventSchedule then (?row nx)\<lparr>sc_lastEventSeq := next_seq t (db\<lparr>db_schedules := db_schedules db @ [?row nx]\<rparr>)\<rparr> else ?row nx"])
      (use new in \<open>auto simp: d db2 update_schedules_def old\<close>)
qed

lemma schedules_ok_create:
  assumes ok: "schedules_ok C E db" and cr: "engine_create env now i t a kind e tz pl db = Inr (s, d)" and env: "cron_forward env"
  shows "schedules_ok C E d"
proof -
  from cr obtain row nx where new: "firstScheduleRun env kind e tz now = Inr nx" "db_schedules d = db_schedules db @ [row]" "sc_id row = i"
    "i \<notin> sc_id ` set (db_schedules db)" "sc_kind row = kind" "sc_nextRunAt row = nx" by (rule create_appends)
  have get: "getSchedule j d = Some x" if "getSchedule j db = Some x" for j x
    using that by (simp add: getSchedule_def new(2) find_append)
  have "plain_year u" if "kind = CronSchedule" "nx = Some u" for u
    using first_run_plain [OF env, of e tz now u] new(1) that by simp
  then have "\<forall>x\<in>set (db_schedules d). sc_kind x = CronSchedule \<longrightarrow> (\<forall>t. sc_nextRunAt x = Some t \<longrightarrow> plain_year t)"
    using ok new(5,6) by (auto simp: new(2) schedules_ok_def)
  then show ?thesis using ok new(3,4) get unfolding schedules_ok_def new(2) by (simp add: image_iff) meson
qed

lemma schedule_run_ok:
  assumes "schedule_run env created C E db" and "cron_forward env"
  shows "schedules_ok C E db"
  using assms
proof (induction rule: schedule_run.induct)
  case (run_start db)
  then show ?case by (simp add: schedules_ok_def)
next
  case (run_create C E db now i t a kind e tz pl s d)
  then show ?case using schedules_ok_create by blast
next
  case (run_due C E db now ids eligible limit cs r d)
  show ?case
  proof (rule due_loop_ok [OF run_due.hyps(3) run_due.IH [OF run_due.prems] run_due.prems run_due.hyps(2)])
    fix s assume s: "s \<in> set (listDueSchedules now limit db)"
    then have "s \<in> set (db_schedules db)" and due: "\<exists>t\<in>set_option (sc_nextRunAt s). iso_le t now"
      by (auto simp: listDueSchedules_def dest!: in_set_takeD)
    then have "getSchedule (sc_id s) db = Some s"
      using getSchedule_distinct run_due.IH [OF run_due.prems] by (auto simp: schedules_ok_def)
    then show "listed s db \<and> (\<forall>t. sc_nextRunAt s = Some t \<longrightarrow> iso_le t now)"
      using due by (auto simp: listed_def same_schedule_def)
  qed
next
  case (run_events C E db ids now eligible limit cs r d)
  then show ?case using events_loop_ok by blast
next
  case (run_delivered C E db i cid now s d)
  then have "d = db \<or> db_schedules d = db_schedules (update_schedules (\<lambda>s. sc_id s = i \<and> sc_lastClaimId s = Some cid) (\<lambda>s. s\<lparr>sc_lastDeliveredAt := Some now\<rparr>) db)"
    by (auto simp: markScheduleDelivered_def bindE_eq_Inr dest!: ev_schedules.event_keeps split: if_splits)
  then show ?case
    using run_delivered by (auto intro: schedules_ok_frame simp: same_schedule_def)
next
  case (run_transition C E db i st s d)
  then have "db_schedules d = db_schedules (update_schedules (\<lambda>s. sc_id s = i) (\<lambda>s. s\<lparr>sc_state := st\<rparr>) db)"
    by (auto simp: transitionSchedule_def bindE_eq_Inr Let_def)
  then show ?case using run_transition by (auto intro: schedules_ok_frame simp: same_schedule_def)
next
  case (run_other C E db d)
  then show ?case using schedules_ok_same by blast
qed

text \<open>
  C36: However the engine runs, no due time of a schedule is claimed twice and no event is claimed twice
  by the same schedule, given that the Cron library returns runs after the time asked for.
\<close>
theorem schedule_claims_once:
  assumes "schedule_run env created C E db" and "cron_forward env"
  shows "distinct C \<and> distinct E"
  using schedule_run_ok [OF assms] by (simp add: schedules_ok_def)

section \<open>Concrete schedules\<close>

definition sample_env :: schedule_env where
  "sample_env = \<lparr>en_timezone_ok = \<lambda>_. True, en_date_parse = \<lambda>_. None, en_cron_next = \<lambda>_ _ _. Inr None, en_cron_previous = \<lambda>_ _ _ _. Inr []\<rparr>"

definition sample_schedule :: "string \<Rightarrow> int \<Rightarrow> schedule_row" where
  "sample_schedule e due = \<lparr>sc_id = ''s'', sc_taskId = ''t'', sc_agentId = None, sc_kind = IntervalSchedule, sc_expression = e,
     sc_timezone = ''UTC'', sc_payload = ''{}'', sc_state = ScheduleActive, sc_nextRunAt = Some due, sc_lastClaimId = None,
     sc_lastClaimedAt = None, sc_lastDeliveredAt = None, sc_lastEventSeq = 0, sc_createdAt = 0\<rparr>"

lemma sample_letters: "char_of (104 :: nat) = CHR ''h''" "char_of (109 :: nat) = CHR ''m''" "char_of (112 :: nat) = CHR ''p''"
  "char_of (116 :: nat) = CHR ''t''"
  by code_simp+

lemma sample_intervals:
  "parseScheduleInterval ''10m'' = Inr 600000" "parseScheduleInterval ''PT1H30M'' = Inr 5400000"
  "parseScheduleInterval ''3000000d'' = Inr 259200000000000"
  by (simp_all add: parseScheduleInterval_def compact_interval_def iso_interval_def iso_group_def js_trim_def is_js_space_def lower_char_def
      is_digit_char_def digits_number_def usable_interval_def sample_letters Let_def)

lemma sample_next: "nextAfterClaim sample_env (sample_schedule ''10m'' 0) 1500000 = Inr (Some 1800000, 3)"
  by (simp add: nextAfterClaim_def sample_schedule_def sample_intervals toISOString_def guardE_def)

theorem interval_next_on_grid_witness:
  "\<exists>n t. parseScheduleInterval ''10m'' = Inr n \<and> Some 1800000 = Some t \<and> (1500000 :: int) < t \<and> t \<le> 1500000 + int n \<and> int n dvd t - 0 \<and>
     3 = card {k :: nat. 0 + int k * int n \<le> 1500000} \<and> n = 600000"
proof -
  have "sc_kind (sample_schedule ''10m'' 0) = IntervalSchedule" "sc_nextRunAt (sample_schedule ''10m'' 0) = Some 0"
    "sc_expression (sample_schedule ''10m'' 0) = ''10m''" by (simp_all add: sample_schedule_def)
  with interval_next_on_grid [OF sample_next this(1,2)] sample_intervals(1) show ?thesis by simp
qed

definition empty_schedules :: schedule_db where
  "empty_schedules = lease_db.extend (with_leases [] sample_flow_db) (schedule_db.fields [])"

lemmas schedule_sample_defs = empty_schedules_def schedule_db.defs lease_sample_defs event_eval getTask_def requireTask_def

lemma sample_create:
  "\<exists>s d. engine_create sample_env 0 ''s'' ''t'' None IntervalSchedule ''10m'' ''UTC'' ''{}'' empty_schedules = Inr (s, d) \<and>
     db_schedules d = [sample_schedule ''10m'' 600000]"
proof -
  have trim: "js_trim ''10m'' \<noteq> []" "js_trim ''UTC'' \<noteq> []" by code_simp+
  show ?thesis
    by (simp add: engine_create_def firstScheduleRun_def validateTimezone_def sample_env_def sample_intervals toISOString_def
        createSchedule_def requireSchedule_def getSchedule_def update_schedules_def trim sample_schedule_def guardE_def
        schedule_sample_defs append_task_event Let_def)
qed

lemma sample_claim:
  assumes "db_schedules d = [sample_schedule ''10m'' 600000]"
  shows "\<exists>c d'. claim_due_loop sample_env (\<lambda>_. ''c'') 600001 (\<lambda>_. True) (listDueSchedules 600001 100 d) d = ([c], Inr (), d') \<and>
    sc_id (cl_schedule c) = ''s'' \<and> cl_dueAt c = 600000"
proof -
  have le: "iso_le 600000 600001" by code_simp
  have nx: "nextAfterClaim sample_env (sample_schedule ''10m'' 600000) 600001 = Inr (Some 1200000, 1)"
    by (simp add: nextAfterClaim_def sample_schedule_def sample_intervals toISOString_def guardE_def)
  have due: "listDueSchedules 600001 100 d = [sample_schedule ''10m'' 600000]"
    using le by (simp add: listDueSchedules_def assms sort_iso_def) (simp add: sample_schedule_def)
  have id: "sc_id (sample_schedule ''10m'' 600000) = ''s''" "sc_nextRunAt (sample_schedule ''10m'' 600000) = Some 600000"
    by (simp_all add: sample_schedule_def)
  show ?thesis
    by (simp add: due nx id) (simp add: claimSchedule_def getSchedule_def assms sample_schedule_def Let_def appendEventInternal_def
        event_dispatch_def truthy_def update_schedules_def requireSchedule_def)
qed

theorem schedule_claims_once_witness:
  "\<exists>db. schedule_run sample_env (\<lambda>_ _. 0) [(''s'', 600000)] [] (db :: schedule_db) \<and> distinct [(''s'', 600000 :: int)] \<and> cron_forward sample_env"
proof -
  from sample_create obtain s d where cr: "engine_create sample_env 0 ''s'' ''t'' None IntervalSchedule ''10m'' ''UTC'' ''{}'' empty_schedules = Inr (s, d)"
    and d: "db_schedules d = [sample_schedule ''10m'' 600000]" by blast
  from sample_claim [OF d] obtain c d' where
    cl: "claim_due_loop sample_env (\<lambda>_. ''c'') 600001 (\<lambda>_. True) (listDueSchedules 600001 100 d) d = ([c], Inr (), d')"
      "sc_id (cl_schedule c) = ''s''" "cl_dueAt c = 600000" by blast
  have "db_schedules empty_schedules = []" by (simp add: schedule_sample_defs)
  then have "schedule_run sample_env (\<lambda>_ _. 0) [] [] d" using run_create [OF run_start cr] by blast
  moreover have "0 \<le> year_of 600001" by code_simp
  ultimately have run: "schedule_run sample_env (\<lambda>_ _. 0) [(''s'', 600000)] [] d'" using run_due [OF _ _ cl(1)] cl(2,3) by fastforce
  have fwd: "cron_forward sample_env" by (simp add: cron_forward_def sample_env_def)
  from schedule_claims_once [OF run fwd] run fwd show ?thesis by blast
qed

text \<open>
  A next run after the year 9999 has a text that starts with a plus sign and sorts before every present
  date: such a schedule is due at once, and again after every claim.
\<close>
lemma far_schedule_due_at_once:
  defines "now \<equiv> 1780000000000" and "far \<equiv> 1780000000000 + 259200000000000"
  shows "firstScheduleRun sample_env IntervalSchedule ''3000000d'' ''UTC'' now = Inr (Some far) \<and> now < far \<and>
    (db_schedules db = [sample_schedule ''3000000d'' far] \<longrightarrow>
      listDueSchedules now 100 db = [sample_schedule ''3000000d'' far] \<and>
      (\<exists>next. nextAfterClaim sample_env (sample_schedule ''3000000d'' far) now = Inr (Some next, 1) \<and> far < next \<and> iso_le next now))"
proof -
  have le: "iso_le far now" "iso_le (far + 259200000000000) now" unfolding far_def now_def by code_simp+
  show ?thesis using le
    by (simp add: firstScheduleRun_def validateTimezone_def sample_env_def sample_intervals toISOString_def guardE_def now_def far_def
        listDueSchedules_def sort_iso_def nextAfterClaim_def sample_schedule_def Let_def)
qed

text \<open>
  Pending triggers are ordered by the clock, but claimed by number: when the clock went back between
  two events, the later one is claimed first and the earlier one is never claimed.
\<close>
lemma clock_step_back_loses_event:
  fixes db :: schedule_db
  assumes "db_schedules db = [(sample_schedule ''*'' 0)\<lparr>sc_kind := EventSchedule, sc_nextRunAt := None\<rparr>]"
    and "db_events db = [sample_event 1 ''TurnStarted'' no_payload, sample_event 2 ''TurnFinished'' no_payload]"
    and "created ''t'' 1 = 20" and "created ''t'' 2 = 10"
  shows "\<exists>c d. claim_events_loop created ids 30 (\<lambda>_. True) [] (listPendingEventScheduleTriggers created 100 db) db = ([(c, 2)], Inr (), d) \<and>
    listPendingEventScheduleTriggers created 100 d = []"
proof -
  have le: "\<not> iso_le 20 10" by code_simp
  have like: "\<not> like_schedule ''TurnStarted''" "\<not> like_schedule ''TurnFinished''" "like_schedule ''ScheduleEventClaimed''" by code_simp+
  let ?s = "(sample_schedule ''*'' 0)\<lparr>sc_kind := EventSchedule, sc_nextRunAt := None\<rparr>"
  have pend: "listPendingEventScheduleTriggers created 100 db =
      [(?s, sample_event 2 ''TurnFinished'' no_payload), (?s, sample_event 1 ''TurnStarted'' no_payload)]"
    using assms(3,4) le like
    by (simp add: listPendingEventScheduleTriggers_def assms(1,2) triggers_def sort_iso_def sample_event_def sample_schedule_def)
  show ?thesis
    using like assms(3,4) unfolding pend
    by (simp add: claimEventSchedule_def getSchedule_def assms(1,2) sample_schedule_def sample_event_def Let_def appendEventInternal_def
        event_dispatch_def truthy_def update_schedules_def requireSchedule_def listPendingEventScheduleTriggers_def triggers_def
        next_seq_def task_events_def sort_iso_def)
qed

end
