(* ===== verification/Spec2Isabelle.thy ===== *)
theory Spec2Isabelle
  imports Codec Session_View Session_Jsonl Agent_Run Session_Context Lane_Reducer Compaction Truncate Task_Continuation Task_Inbox Task_Budget Task_Schedule
begin

text \<open>
  \<^bold>\<open>Ever: a verification development.\<close>

  Ever is a coding agent written in TypeScript. This development models the parts of it that decide
  what is stored, sent, resumed and run, as HOL functions translated from the sources, and proves what
  makes them correct. Paths below are relative to src/packages.

  \<^bold>\<open>How the parts interact.\<close> A client and a server exchange messages: a message is a CBOR value in a
  length-prefixed frame (protocol). The agent core keeps a session as an append-only log of entries,
  lane records, names and labels (agent/src/harness/session); from the log it derives the context sent
  to a model and, after a crash, the state of every lane (reducer). The agent loop asks the model, runs the
  tools it calls for and goes on until nothing is left to do; tools hand their output back through
  truncation. The long-task daemon (long-tasks) keeps tasks, agents, flows, leases, budgets, messages,
  decisions and schedules in SQLite tables and advances them by transactions.

  \<^bold>\<open>Theories, in import order.\<close>

  \<^item> Prelude: results (\<open>bindE\<close>, \<open>guardE\<close>, \<open>foldE\<close> for throwing code), insertion-ordered maps with the
  interface \<open>js_map\<close>, big-endian bytes. Js_Text: UTF-16 strings, UTF-8, base64 of JavaScript. Js_Value:
  numbers and objects with their property order.

  \<^item> Cbor_Encoder, Cbor_Decoder (protocol/src/cbor): the growing output buffer, encoder and decoder with
  their limits. Shown: the encoder accepts exactly the admissible values and writes the reference bytes,
  decoding an encoding gives the value back, everything decoded is within the limits.

  \<^item> Framing (protocol/src/framing.ts) and Codec (codec.ts): the incremental frame decoder as the code has
  it, block by block. Shown: one push refines splitting the buffered stream (interface
  \<open>stream_decoder\<close>), a stream is accepted however it is cut into chunks, messages make the round trip.

  \<^item> Session_Types, Session_State (session/types.ts, state.ts): mutations, queries, branch walk, fork.
  Shown: the invariant of every reachable state, the exact condition and effect of each mutation, branch
  queries return the path, open operations are those of the log, a fork is a faithful session.

  \<^item> Session_Memory (memory.ts), Json_Payload and Session_View (session.ts): the in-memory backend under
  the interface \<open>session_storage\<close>, payload validation over an object heap, the view of one lane under
  the interface \<open>session_backend\<close>. Shown: no lane ever has two open operations, every write error and
  its cause, validation terminates and accepts exactly finite JSON trees, an appended message is read
  back.

  \<^item> Json_Text, Session_Json, Jsonl_Codec, Session_Jsonl (jsonl/codec.ts, storage.ts, errors.ts): the backend
  that keeps a session in a file of JSON lines. Json_Text has JSON.stringify and JSON.parse, Session_Json
  the objects behind the types of a session, Jsonl_Codec the header and mutation lines. Session_Jsonl has
  the storage on a disk whose calls follow a list of outcomes, so that any of them can fail or stop half
  way; its operations run one after another, as the queue of the code makes them. Shown: the storage
  fulfils \<open>session_storage\<close> and \<open>session_backend\<close> like the one in memory, a session reopens to the state it
  was left in, a write cut off by a crash and a fork are there as a whole or not at all. Text is 8-bit; the
  text of numbers that are not safe integers is a parameter under \<open>number_format\<close>.

  \<^item> Agent_Loop (agent-loop.ts, types.ts) with Agent_Tools and Agent_Turns, and Agent_Run (agent.ts): the turns of a run, tool calls one after
  another or at the same time under any scheduler, hooks, steering and follow-up messages, and the agent
  that reduces the events of a run into its state. Shown: a run adds whole turns in which every tool call is
  answered in order and executed at most once, events and transcript agree, running tools at the same time
  gives the results of running them in order, a prompt extends the transcript by exactly the messages of
  its run, and returns when the provider stops asking for tools.

  \<^item> Session_Context (context.ts, messages.ts) and Compaction (compaction/compaction.ts, utils.ts): what a
  model sees, and how a long branch is cut. Shown: contexts before and after a compaction fit together,
  the kept part starts at a clean place and is as long as asked for.

  \<^item> Lane_Reducer (reducer.ts), Truncate (utils/truncate.ts): the record-log checks and the recovery state,
  truncation to line and byte limits.

  \<^item> Task_Flow (flow.ts), Task_Machine, Task_Agents, Task_Lease with recovery.ts, Task_Continuation
  (continuation-controller.ts), Task_Inbox, Task_Budget, Task_Schedule (schedule-engine.ts): the tables of
  store.ts as lists of rows, each theory extending the record of tables of the one before. Shown: a task
  completes only when verified and settles everything with it, a flow never gets stuck by a completed or
  failed node, a superseded lease is refused, recovery succeeds only when nothing has an unknown outcome,
  automatic turns are bounded and a stalled run stops, messages only move forward and keep their order,
  turns and reviewer requests stay within budget, no due time or event is claimed twice. The event log is
  shared by all of them: \<open>event_frame\<close> states once that appending events leaves every other table alone.

  \<^bold>\<open>Conventions.\<close> An exception is the left side of a sum with the message or error the code throws; a
  transaction that throws leaves the tables unchanged. Clock, random ids and other inputs of the outside
  world are arguments. A table is a list of rows in insertion order, an UPDATE a map, a SELECT a filter
  and a stable sort; columns that no modelled statement reads are left out. Times are milliseconds.
  Loops are structural recursion over what they traverse, or functions with a termination proof, except the
  loop of the agent, which may run for ever and is a partial function whose value is then None: the
  decoder loop by the bytes left, the block loop by the payload left, payload validation by the objects
  not yet visited, the branch walk by the entries not yet seen, concurrent tool calls by the calls not yet
  made and the steps left, the layering and skipping of flow nodes by the nodes left. No definition uses fuel.

  \<^bold>\<open>Parameters.\<close> Code outside the repository is an argument: the schema check of typebox, deep equality,
  hashes and JSON text of fingerprints, the locale order, the Cron library, time zones, \<open>Date.parse\<close>, the
  worker adapter of the recovery engine, the provider that writes summaries, the provider, tools, hooks and
  listeners of the agent loop with the validation of tool arguments, floating-point rounding and SUM of SQLite in the budgets. A
  theorem that relies on such code names what it relies on, and its witness instantiates it.

  \<^bold>\<open>Not modelled.\<close> The terminal interface (tui), provider adapters and model catalogs (ai), the command
  line, modes, extensions and package manager of coding-agent, the client and server transports, telemetry
  and evals are input and output or calls into services. The listing of JSONL
  session files (jsonl/repo.ts) and the SQLite session backend are not modelled. Of store.ts, creation of tasks and flows, delegations, permissions and
  authorization sources, daemon commands, notifications and checkpoints are not modelled; of the agent
  package, the harness and its tools other than truncation, branch summarization and skills.
\<close>

end
